(* ===== verification/Prelude.thy ===== *)
theory Prelude
  imports Main "HOL-Library.Word"
begin

text \<open>
  The shared base of the development: the fixed-width integers of the C++ sources, the exceptions
  they throw, a state-and-exception monad in which the stateful operations are written, and the
  generic word and list lemmas that the component theories use.
\<close>

unbundle bit_operations_syntax

section \<open>Machine integers\<close>

type_synonym u8 = "8 word"
type_synonym u16 = "16 word"
type_synonym u32 = "32 word"
type_synonym u64 = "64 word"

text \<open>The largest 64-bit value, \<open>UINT64_MAX\<close>.\<close>

abbreviation U64_MAX :: u64 where
  "U64_MAX \<equiv> 0xFFFFFFFFFFFFFFFF"

section \<open>Exceptions and the state-and-exception monad\<close>

text \<open>
  Every \<open>throw\<close> of the modelled code is a value of this type. \<open>Undefined\<close> stands for behaviour
  the C++ standard leaves undefined (an index outside a span, a shift by at least the width of
  its operand, the dereference of an empty optional): a theorem that an operation returns
  \<open>Inr\<close> says, among other things, that it runs into none of these. Only the enclave is built with
  span contracts and assertions; a failed assertion is no exception, it ends the enclave.
\<close>

datatype cpp_exn =
    Hwm_exception
  | Disk_hwm_exception
  | Nvme_exception u16
  | Runtime_error string
  | Logic_error string
  | Out_of_range string
  | Invalid_argument string
  | System_error string
  | Length_error string
  | Bad_alloc
  | Contract_violation
  | Assertion_failed
  | Undefined string

type_synonym 'a result = "cpp_exn + 'a"
type_synonym ('s, 'a) prog = "'s \<Rightarrow> 'a result \<times> 's"

text \<open>
  A C++ exception does not roll back what was already written, so a failing program still
  returns the state it has reached.
\<close>

definition return :: "'a \<Rightarrow> ('s, 'a) prog" where
  "return x = (\<lambda>s. (Inr x, s))"

definition raise :: "cpp_exn \<Rightarrow> ('s, 'a) prog" where
  "raise e = (\<lambda>s. (Inl e, s))"

definition sbind :: "('s, 'a) prog \<Rightarrow> ('a \<Rightarrow> ('s, 'b) prog) \<Rightarrow> ('s, 'b) prog" where
  "sbind m f = (\<lambda>s. case m s of (Inl e, s') \<Rightarrow> (Inl e, s') | (Inr x, s') \<Rightarrow> f x s')"

definition sget :: "('s \<Rightarrow> 'a) \<Rightarrow> ('s, 'a) prog" where
  "sget g = (\<lambda>s. (Inr (g s), s))"

definition smod :: "('s \<Rightarrow> 's) \<Rightarrow> ('s, unit) prog" where
  "smod g = (\<lambda>s. (Inr (), g s))"

definition lift_result :: "'a result \<Rightarrow> ('s, 'a) prog" where
  "lift_result r = (\<lambda>s. (r, s))"

definition rbind :: "'a result \<Rightarrow> ('a \<Rightarrow> 'b result) \<Rightarrow> 'b result" where
  "rbind r f = (case r of Inl e \<Rightarrow> Inl e | Inr x \<Rightarrow> f x)"

named_theorems prog_simps

lemma return_apply [prog_simps, simp]: "return x s = (Inr x, s)"
  by (simp add: return_def)

lemma raise_apply [prog_simps, simp]: "raise e s = (Inl e, s)"
  by (simp add: raise_def)

lemma sget_apply [prog_simps, simp]: "sget g s = (Inr (g s), s)"
  by (simp add: sget_def)

lemma smod_apply [prog_simps, simp]: "smod g s = (Inr (), g s)"
  by (simp add: smod_def)

lemma lift_result_apply [prog_simps, simp]: "lift_result r s = (r, s)"
  by (simp add: lift_result_def)

lemma sbind_apply [prog_simps]:
  "sbind m f s = (case m s of (Inl e, s') \<Rightarrow> (Inl e, s') | (Inr x, s') \<Rightarrow> f x s')"
  by (simp add: sbind_def)

lemma sbind_return_left [simp]: "sbind (return x) f = f x"
  by (rule ext) (simp add: sbind_def)

lemma sbind_raise [simp]: "sbind (raise e) f = raise e"
  by (rule ext) (simp add: sbind_def)

lemma sbind_assoc: "sbind (sbind m f) g = sbind m (\<lambda>x. sbind (f x) g)"
  by (rule ext) (simp add: sbind_def split: prod.split sum.split)

lemma sbind_Inr_iff:
  "sbind m f s = (Inr y, t) \<longleftrightarrow> (\<exists>x s'. m s = (Inr x, s') \<and> f x s' = (Inr y, t))"
  by (auto simp: sbind_def split: prod.splits sum.splits)

lemma sbind_InrE [elim]:
  assumes "sbind m f s = (Inr y, t)"
  obtains x s' where "m s = (Inr x, s')" and "f x s' = (Inr y, t)"
  using assms by (auto simp: sbind_Inr_iff)

lemma sbind_InrI:
  "m s = (Inr x, s') \<Longrightarrow> f x s' = r \<Longrightarrow> sbind m f s = r"
  by (simp add: sbind_def)

lemma sbind_InlI:
  "m s = (Inl e, s') \<Longrightarrow> sbind m f s = (Inl e, s')"
  by (simp add: sbind_def)

lemma rbind_simps [simp]: "rbind (Inl e) f = Inl e" "rbind (Inr x) f = f x"
  by (simp_all add: rbind_def)

lemma rbind_Inr_iff: "rbind r f = Inr y \<longleftrightarrow> (\<exists>x. r = Inr x \<and> f x = Inr y)"
  by (cases r) auto

lemma rbind_InrE [elim]:
  assumes "rbind r f = Inr y"
  obtains x where "r = Inr x" and "f x = Inr y"
  using assms by (auto simp: rbind_Inr_iff)

section \<open>Programs on a part of the state, and loops\<close>

text \<open>An operation of a member object, run on the member.\<close>

definition zoom :: "('s \<Rightarrow> 't) \<Rightarrow> ('t \<Rightarrow> 's \<Rightarrow> 's) \<Rightarrow> ('t, 'a) prog \<Rightarrow> ('s, 'a) prog" where
  "zoom get put m = (\<lambda>s. case m (get s) of (r, t) \<Rightarrow> (r, put t s))"

lemma zoom_apply [prog_simps]: "zoom get put m s = (case m (get s) of (r, t) \<Rightarrow> (r, put t s))"
  by (simp add: zoom_def)

text \<open>A loop over a list that carries a local variable.\<close>

fun sfold :: "('a \<Rightarrow> 'b \<Rightarrow> ('s, 'b) prog) \<Rightarrow> 'a list \<Rightarrow> 'b \<Rightarrow> ('s, 'b) prog" where
  "sfold body [] acc = return acc"
| "sfold body (x # xs) acc = sbind (body x acc) (sfold body xs)"

section \<open>Programs that keep a property of the state\<close>

text \<open>Whether they return or throw.\<close>

definition keeps :: "('s \<Rightarrow> bool) \<Rightarrow> ('s, 'a) prog \<Rightarrow> bool" where
  "keeps P m \<longleftrightarrow> (\<forall>s. P s \<longrightarrow> P (snd (m s)))"

lemma keeps_basic [simp, intro]:
  "keeps P (return x)" "keeps P (raise e)" "keeps P (sget g)" "keeps P (lift_result r)"
  by (simp_all add: keeps_def)

lemma keeps_smod: "(\<And>s. P s \<Longrightarrow> P (g s)) \<Longrightarrow> keeps P (smod g)"
  by (simp add: keeps_def)

lemma keeps_sbind [intro]: "keeps P m \<Longrightarrow> (\<And>x. keeps P (f x)) \<Longrightarrow> keeps P (sbind m f)"
  by (auto simp: keeps_def sbind_def split: prod.splits sum.splits)

lemma keeps_if [intro]: "(b \<Longrightarrow> keeps P m) \<Longrightarrow> (\<not> b \<Longrightarrow> keeps P n) \<Longrightarrow> keeps P (if b then m else n)"
  by simp

lemma keeps_zoom: "(\<And>s t. P s \<Longrightarrow> P (put t s)) \<Longrightarrow> keeps P (zoom get put m)"
  by (simp add: keeps_def zoom_def split: prod.split)

lemma keeps_sfold: "(\<And>x acc. keeps P (body x acc)) \<Longrightarrow> keeps P (sfold body xs acc)"
  by (induction xs arbitrary: acc) auto

lemma keepsD: "keeps P m \<Longrightarrow> P s \<Longrightarrow> m s = (r, s') \<Longrightarrow> P s'"
  by (auto simp: keeps_def)

section \<open>Loops over iterators\<close>

text \<open>
  The loop \<open>for (; !it.at_end(); it++)\<close> that collects what the iterator yields. An error ends it
  with that error; \<open>None\<close> is a loop that the fuel did not see through.
\<close>

fun collect :: "nat \<Rightarrow> ('s \<Rightarrow> bool) \<Rightarrow> ('s \<Rightarrow> 'o result) \<Rightarrow> ('s \<Rightarrow> 's result) \<Rightarrow> 's \<Rightarrow> 'o list result option" where
  "collect 0 stop out adv s = (if stop s then Some (Inr []) else None)"
| "collect (Suc fuel) stop out adv s =
     (if stop s then Some (Inr [])
      else case out s of
             Inl e \<Rightarrow> Some (Inl e)
           | Inr x \<Rightarrow>
               (case adv s of
                  Inl e \<Rightarrow> Some (Inl e)
                | Inr s' \<Rightarrow> map_option (map_sum id (Cons x)) (collect fuel stop out adv s')))"

text \<open>Put what was collected before in front of what a loop still collects.\<close>

definition prepend :: "'o list \<Rightarrow> 'o list result option \<Rightarrow> 'o list result option" where
  "prepend xs r = map_option (map_sum id (append xs)) r"

lemma prepend_Cons: "map_option (map_sum id (Cons x)) r = prepend [x] r"
  by (cases r rule: option.exhaust; cases "the r") (simp_all add: prepend_def)

lemma prepend_prepend: "prepend xs (prepend ys r) = prepend (xs @ ys) r"
  by (cases r rule: option.exhaust; cases "the r") (simp_all add: prepend_def)

lemma prepend_Inr [simp]: "prepend xs (Some (Inr ys)) = Some (Inr (xs @ ys))"
  by (simp add: prepend_def)

lemma collect_mono:
  "collect fuel stop out adv s = Some r \<Longrightarrow> fuel \<le> fuel' \<Longrightarrow> collect fuel' stop out adv s = Some r"
proof (induction fuel arbitrary: s r fuel')
  case 0
  then show ?case by (cases fuel') (auto split: if_splits)
next
  case (Suc fuel)
  then obtain f where f: "fuel' = Suc f" "fuel \<le> f" by (cases fuel') auto
  show ?case
  proof (cases "adv s")
    case (Inr s')
    then show ?thesis
      using Suc.prems(1) f Suc.IH [of s' _ f] by (auto split: if_splits sum.splits)
  qed (use Suc.prems(1) f in \<open>auto split: if_splits sum.splits\<close>)
qed

lemma collect_step:
  assumes "collect (Suc fuel) stop out adv s = Some (Inr xs)" "\<not> stop s"
  obtains x s' xs' where "out s = Inr x" "adv s = Inr s'" "xs = x # xs'"
    "collect fuel stop out adv s' = Some (Inr xs')"
proof -
  obtain x s' where 1: "out s = Inr x" "adv s = Inr s'"
    using assms by (auto split: sum.splits)
  obtain r where "collect fuel stop out adv s' = Some r" "map_sum id (Cons x) r = Inr xs"
    using assms 1 by auto
  then obtain xs' where "collect fuel stop out adv s' = Some (Inr xs')" "xs = x # xs'"
    by (cases r) auto
  then show ?thesis using that 1 by blast
qed

section \<open>Options\<close>

lemma option_eq_SomeI: "(\<And>e. x = Some e \<longleftrightarrow> y = Some e) \<Longrightarrow> x = y"
  by (cases x) (auto, metis option.exhaust)

lemma map_le_Some: "f \<subseteq>\<^sub>m g \<longleftrightarrow> (\<forall>k x. f k = Some x \<longrightarrow> g k = Some x)"
  by (fastforce simp: map_le_def dom_def)

section \<open>Words as natural numbers\<close>

lemma unat_bound: "unat w < 2 ^ LENGTH('a)" for w :: "'a::len word"
  by (rule unsigned_less)

lemma unat_push_bit:
  fixes w :: "'a::len word"
  shows "unat (push_bit n w) = unat w * 2 ^ n mod 2 ^ LENGTH('a)"
  unfolding unsigned_push_bit_eq by (simp add: push_bit_eq_mult take_bit_eq_mod)

lemma unat_push_bit_small:
  fixes w :: "'a::len word"
  assumes "unat w * 2 ^ n < 2 ^ LENGTH('a)"
  shows "unat (push_bit n w) = unat w * 2 ^ n"
  using assms by (simp add: unat_push_bit)

lemma unat_drop_bit:
  fixes w :: "'a::len word"
  shows "unat (drop_bit n w) = unat w div 2 ^ n"
  unfolding unat_drop_bit_eq by (simp add: drop_bit_eq_div)

lemma unat_and_mask:
  fixes w :: "'a::len word"
  shows "unat (w AND mask n) = unat w mod 2 ^ n"
  unfolding take_bit_eq_mask [symmetric] unsigned_take_bit_eq by (simp add: take_bit_eq_mod)

lemma unat_add_small:
  fixes a b :: "'a::len word"
  assumes "unat a + unat b < 2 ^ LENGTH('a)"
  shows "unat (a + b) = unat a + unat b"
  using assms by (simp add: unat_add_lem)

lemma unat_sub_small:
  fixes a b :: "'a::len word"
  assumes "unat b \<le> unat a"
  shows "unat (a - b) = unat a - unat b"
  using assms by (simp add: unat_sub word_le_nat_alt)

lemma unat_exp [simp]:
  assumes "n < LENGTH('a::len)"
  shows "unat (2 ^ n :: 'a word) = 2 ^ n"
proof -
  have "(2::nat) ^ n < 2 ^ LENGTH('a)" using assms by simp
  then show ?thesis
    by (metis unat_of_nat mod_less of_nat_numeral of_nat_power)
qed

lemma unat_ucast_up:
  fixes w :: "'a::len word"
  assumes "LENGTH('a) \<le> LENGTH('b::len)"
  shows "unat (ucast w :: 'b word) = unat w"
proof -
  have "unat w < 2 ^ LENGTH('b)"
    using unat_bound [of w] power_increasing [OF assms, of "2::nat"] by linarith
  then show ?thesis by (simp only: unsigned_ucast_eq take_bit_nat_eq_self)
qed

lemma unat_min: "unat (min a b) = min (unat a) (unat b)" for a b :: "'a::len word"
  by (simp add: min_def word_le_nat_alt)

lemma word_eq_unatI: "unat a = unat b \<Longrightarrow> a = b" for a b :: "'a::len word"
  by (simp add: word_unat_eq_iff)

text \<open>
  The expression \<open>1 << n\<close> has type \<open>int\<close>; where it meets a 64-bit operand its 32-bit value is
  sign-extended. For \<open>n < 31\<close> that is \<open>2 ^ n\<close>, for \<open>n = 31\<close> it is not.
\<close>

definition int_shl1 :: "nat \<Rightarrow> u64" where
  "int_shl1 n = scast (push_bit n (1 :: 32 word))"

lemma sint_u32_pos:
  fixes w :: u32
  assumes "unat w < 2 ^ 31"
  shows "sint w = int (unat w)"
proof -
  have "int (unat w) < int (2 ^ 31)" using assms by (simp only: of_nat_less_iff)
  then have "uint w < 2 ^ 31" by (simp only: uint_nat of_nat_power of_nat_numeral)
  then have "signed_take_bit 31 (uint w) = uint w"
    by (intro signed_take_bit_int_eq_self) (use uint_ge_0 [of w] in linarith)+
  then show ?thesis unfolding sint_uint by (simp only: uint_nat) simp
qed

lemma scast_u32_pos:
  fixes w :: u32
  assumes "unat w < 2 ^ 31"
  shows "unat (scast w :: u64) = unat w"
proof -
  have "(scast w :: u64) = of_nat (unat w)"
    unfolding scast_eq sint_u32_pos [OF assms] by simp
  moreover have "unat w < 2 ^ 64" using assms by simp
  ultimately show ?thesis by (simp only: unat_of_nat) simp
qed

lemma unat_push_bit_one_u32:
  assumes "n < 32"
  shows "unat (push_bit n (1 :: u32)) = 2 ^ n"
  using assms by simp

lemma unat_int_shl1 [simp]:
  assumes "n < 31"
  shows "unat (int_shl1 n) = 2 ^ n"
  using assms power_strict_increasing [of n 31 "2::nat"]
  by (simp add: int_shl1_def scast_u32_pos)

lemma int_shl1_31: "int_shl1 31 = 0xFFFFFFFF80000000"
  by (simp add: int_shl1_def)

end
