(* ===== verification/NvmeCore.thy ===== *)
theory NvmeCore
  imports Prelude
begin

text \<open>
  The NVMe vocabulary the user-space functions share: page geometry (\<open>nvme_core.hpp\<close>), opcodes,
  status codes and the 64-byte command (\<open>linux/nvme.h\<close>), the response written back to the
  kernel, and the request tags of \<open>tagging.hpp\<close>.
\<close>

section \<open>Pages, opcodes and status codes\<close>

definition NVME_PAGE_SHIFT :: nat where
  "NVME_PAGE_SHIFT = 12"

definition NVME_PAGE_SIZE :: nat where
  "NVME_PAGE_SIZE = 2 ^ NVME_PAGE_SHIFT"

lemma NVME_PAGE_SIZE_eq [simp]: "NVME_PAGE_SIZE = 4096"
  by (simp add: NVME_PAGE_SIZE_def NVME_PAGE_SHIFT_def)

definition nvme_cmd_flush :: u8 where "nvme_cmd_flush = 0x00"
definition nvme_cmd_write :: u8 where "nvme_cmd_write = 0x01"
definition nvme_cmd_read :: u8 where "nvme_cmd_read = 0x02"
definition nvme_cmd_write_zeroes :: u8 where "nvme_cmd_write_zeroes = 0x08"

lemmas nvme_opcode_defs =
  nvme_cmd_flush_def nvme_cmd_write_def nvme_cmd_read_def nvme_cmd_write_zeroes_def

definition NVME_CMD_SGL_ALL :: u8 where "NVME_CMD_SGL_ALL = push_bit 6 1 OR push_bit 7 1"
definition NVME_RW_FUA :: u16 where "NVME_RW_FUA = push_bit 14 1"

definition NVME_SC_SUCCESS :: u16 where "NVME_SC_SUCCESS = 0x0"
definition NVME_SC_INVALID_OPCODE :: u16 where "NVME_SC_INVALID_OPCODE = 0x1"
definition NVME_SC_INVALID_FIELD :: u16 where "NVME_SC_INVALID_FIELD = 0x2"
definition NVME_SC_INTERNAL :: u16 where "NVME_SC_INTERNAL = 0x6"
definition NVME_SC_INVALID_NS :: u16 where "NVME_SC_INVALID_NS = 0xb"
definition NVME_SC_LBA_RANGE :: u16 where "NVME_SC_LBA_RANGE = 0x80"
definition NVME_SC_CAP_EXCEEDED :: u16 where "NVME_SC_CAP_EXCEEDED = 0x81"
definition NVME_SC_DNR :: u16 where "NVME_SC_DNR = 0x4000"

lemmas nvme_status_defs =
  NVME_SC_SUCCESS_def NVME_SC_INVALID_OPCODE_def NVME_SC_INVALID_FIELD_def NVME_SC_INTERNAL_def
  NVME_SC_INVALID_NS_def NVME_SC_LBA_RANGE_def NVME_SC_CAP_EXCEEDED_def NVME_SC_DNR_def

section \<open>Commands and responses\<close>

text \<open>
  The command is a union of layouts over the same 64 bytes. The record keeps the fields of
  \<open>nvme_common_command\<close>; the read/write layout reads its own fields out of the same dwords.
\<close>

record nvme_command =
  opcode :: u8
  flags :: u8
  command_id :: u16
  nsid :: u32
  cdw2_0 :: u32
  cdw2_1 :: u32
  metadata :: u64
  prp1 :: u64
  prp2 :: u64
  cdw10 :: u32
  cdw11 :: u32
  cdw12 :: u32
  cdw13 :: u32
  cdw14 :: u32
  cdw15 :: u32

definition rw_slba :: "nvme_command \<Rightarrow> u64" where
  "rw_slba c = ucast (cdw10 c) OR push_bit 32 (ucast (cdw11 c))"

definition rw_length :: "nvme_command \<Rightarrow> u16" where
  "rw_length c = ucast (cdw12 c)"

definition rw_control :: "nvme_command \<Rightarrow> u16" where
  "rw_control c = ucast (drop_bit 16 (cdw12 c))"

definition set_rw_slba :: "u64 \<Rightarrow> nvme_command \<Rightarrow> nvme_command" where
  "set_rw_slba v c = c\<lparr>cdw10 := ucast v, cdw11 := ucast (drop_bit 32 v)\<rparr>"

text \<open>The notification response: the command's identifier, its status and three auxiliary dwords.\<close>

record nmntfy_aux =
  aux0 :: u32
  aux1 :: u32
  aux2 :: u32

definition zero_aux :: nmntfy_aux where
  "zero_aux = \<lparr>aux0 = 0, aux1 = 0, aux2 = 0\<rparr>"

record nmntfy_response =
  resp_ucid :: u16
  resp_status :: u16
  resp_aux :: nmntfy_aux

lemma ucast_or: "(ucast (a OR b) :: 'b::len word) = ucast a OR ucast b"
  by (rule bit_word_eqI) (auto simp: bit_simps)

lemma u64_split_join:
  fixes v :: u64
  shows "ucast (ucast v :: u32) OR push_bit 32 (ucast (ucast (drop_bit 32 v) :: u32)) = v"
  by (rule bit_word_eqI) (auto simp: bit_simps not_le)

lemma u32_lo_join [simp]:
  fixes lo hi :: u32
  shows "(ucast (ucast lo OR push_bit 32 (ucast hi) :: u64) :: u32) = lo"
  by (rule bit_word_eqI) (auto simp: bit_simps)

lemma u32_hi_join [simp]:
  fixes lo hi :: u32
  shows "(ucast (drop_bit 32 (ucast lo OR push_bit 32 (ucast hi) :: u64)) :: u32) = hi"
  by (rule bit_word_eqI) (auto simp: bit_simps dest: bit_imp_le_length)

lemma rw_slba_set [simp]: "rw_slba (set_rw_slba v c) = v"
  by (simp add: rw_slba_def set_rw_slba_def u64_split_join)

lemma set_rw_slba_frame [simp]:
  "opcode (set_rw_slba v c) = opcode c" "flags (set_rw_slba v c) = flags c"
  "command_id (set_rw_slba v c) = command_id c" "nsid (set_rw_slba v c) = nsid c"
  "rw_length (set_rw_slba v c) = rw_length c" "rw_control (set_rw_slba v c) = rw_control c"
  "prp1 (set_rw_slba v c) = prp1 c" "prp2 (set_rw_slba v c) = prp2 c"
  by (simp_all add: set_rw_slba_def rw_length_def rw_control_def)

section \<open>Request tags\<close>

text \<open>
  A tag travels through the asynchronous ring and names the queue and the command a completion
  belongs to (\<open>make_tag\<close>, \<open>unmake_tag\<close> of \<open>tagging.hpp\<close>).
\<close>

definition make_tag :: "u16 \<Rightarrow> u16 \<Rightarrow> u32" where
  "make_tag qi cid = push_bit 16 (ucast qi) OR ucast cid"

definition qi_invalid :: u16 where "qi_invalid = 0xffff"
definition qi_admin :: u16 where "qi_admin = 0xfffe"
definition busy_tag :: u32 where "busy_tag = make_tag qi_invalid 0xffff"
definition noop_tag :: u32 where "noop_tag = make_tag qi_invalid 0xfffe"

definition unmake_tag :: "u32 \<Rightarrow> u16 \<times> u16" where
  "unmake_tag tag = (ucast (drop_bit 16 tag), ucast (tag AND 0xffff))"

lemma u16_mask: "(0xffff :: u32) = mask 16"
  by (simp add: mask_eq_exp_minus_1)

lemma unmake_make_tag [simp]: "unmake_tag (make_tag qi cid) = (qi, cid)"
proof -
  have "ucast (drop_bit 16 (make_tag qi cid)) = qi"
    by (rule bit_word_eqI) (auto simp: make_tag_def bit_simps dest: bit_imp_le_length)
  moreover have "ucast (make_tag qi cid AND 0xffff) = cid"
    by (rule bit_word_eqI) (auto simp: make_tag_def u16_mask bit_simps)
  ultimately show ?thesis by (simp add: unmake_tag_def)
qed

lemma make_unmake_tag: "case unmake_tag t of (qi, cid) \<Rightarrow> make_tag qi cid = t"
proof -
  have "make_tag (ucast (drop_bit 16 t)) (ucast (t AND 0xffff)) = t"
    by (rule bit_word_eqI) (auto simp: make_tag_def u16_mask bit_simps not_le)
  then show ?thesis by (simp add: unmake_tag_def)
qed

lemma make_tag_inject [simp]: "make_tag q c = make_tag q' c' \<longleftrightarrow> q = q' \<and> c = c'"
  by (metis unmake_make_tag prod.inject)

text \<open>Tickets of the asynchronous functions carry their tag; a multi ticket also counts its requests.\<close>

record sq_ticket =
  tk_tag :: u32

record multi_ticket = sq_ticket +
  tk_count :: int

end
