(* ===== verification/Cmdbuf.thy ===== *)
theory Cmdbuf
  imports NvmeCore
begin

text \<open>
  The shared-memory command and completion rings (\<open>cmdbuf.hpp\<close>): a circular buffer whose
  \<open>head\<close> only the producer writes and whose \<open>tail\<close> only the consumer writes. The theory models the
  operations at the width of the C++ \<open>int\<close> and shows that they implement a bounded FIFO queue; the
  contract is the locale \<open>bounded_fifo\<close>.
\<close>

section \<open>The ring buffer\<close>

text \<open>The memory pages of a ring; \<open>count\<close>, the template parameter, is passed to the operations.\<close>

record 'a cmdbuf =
  cb_buf :: "nat \<Rightarrow> 'a"
  cb_head :: u32
  cb_tail :: u32

definition circ_cnt :: "u32 \<Rightarrow> u32 \<Rightarrow> u64 \<Rightarrow> u32" where
  "circ_cnt head tail sz = ucast ((scast (head - tail) :: u64) AND (sz - 1))"

definition circ_space :: "u32 \<Rightarrow> u32 \<Rightarrow> u64 \<Rightarrow> u32" where
  "circ_space head tail sz = circ_cnt tail (head + 1) sz"

text \<open>\<open>head = (head + 1) & (count - 1)\<close>, the step both loops take.\<close>

definition circ_next :: "u32 \<Rightarrow> u64 \<Rightarrow> u32" where
  "circ_next head count = ucast ((scast (head + 1) :: u64) AND (count - 1))"

definition peek_space :: "u64 \<Rightarrow> 'a cmdbuf \<Rightarrow> u32 \<times> u32" where
  "peek_space count c = (circ_space (cb_head c) (cb_tail c) count, cb_head c)"

fun produce_loop :: "u64 \<Rightarrow> 'a list \<Rightarrow> (nat \<Rightarrow> 'a) \<Rightarrow> u32 \<Rightarrow> (nat \<Rightarrow> 'a) \<times> u32" where
  "produce_loop count [] buf head = (buf, head)"
| "produce_loop count (x # xs) buf head =
     produce_loop count xs (buf(unat head := x)) (circ_next head count)"

definition produce_raw :: "u64 \<Rightarrow> 'a list \<Rightarrow> u32 \<Rightarrow> nat \<Rightarrow> 'a cmdbuf \<Rightarrow> 'a cmdbuf" where
  "produce_raw count xs head to_produce c =
     (if 1 \<le> to_produce
      then case produce_loop count (take to_produce xs) (cb_buf c) head of
             (buf, head') \<Rightarrow> c\<lparr>cb_buf := buf, cb_head := head'\<rparr>
      else c)"

text \<open>\<open>std::min\<close> at type \<open>int\<close>, and the conversion of a non-negative \<open>int\<close> to \<open>size_t\<close>.\<close>

definition min_int :: "u32 \<Rightarrow> u32 \<Rightarrow> u32" where
  "min_int a b = (if sint b < sint a then b else a)"

definition produce :: "u64 \<Rightarrow> 'a list \<Rightarrow> 'a cmdbuf \<Rightarrow> u32 \<times> 'a cmdbuf" where
  "produce count xs c =
     (case peek_space count c of (space, head) \<Rightarrow>
        let to_produce = min_int (of_nat (length xs)) space
        in (to_produce, produce_raw count xs head (unat (scast to_produce :: u64)) c))"

definition peek_items :: "u64 \<Rightarrow> 'a cmdbuf \<Rightarrow> u32 \<times> u32" where
  "peek_items count c = (circ_cnt (cb_head c) (cb_tail c) count, cb_tail c)"

fun consume_loop :: "u64 \<Rightarrow> nat \<Rightarrow> (nat \<Rightarrow> 'a) \<Rightarrow> u32 \<Rightarrow> 'a list \<times> u32" where
  "consume_loop count 0 buf tail = ([], tail)"
| "consume_loop count (Suc n) buf tail =
     (case consume_loop count n buf (circ_next tail count) of
        (out, tail') \<Rightarrow> (buf (unat tail) # out, tail'))"

definition consume_raw :: "u64 \<Rightarrow> u32 \<Rightarrow> nat \<Rightarrow> 'a cmdbuf \<Rightarrow> 'a list \<times> 'a cmdbuf" where
  "consume_raw count tail to_consume c =
     (if 1 \<le> to_consume
      then case consume_loop count to_consume (cb_buf c) tail of
             (out, tail') \<Rightarrow> (out, c\<lparr>cb_tail := tail'\<rparr>)
      else ([], c))"

text \<open>\<open>consume(out)\<close> with room for \<open>room\<close> elements.\<close>

definition consume :: "u64 \<Rightarrow> nat \<Rightarrow> 'a cmdbuf \<Rightarrow> 'a list \<times> 'a cmdbuf" where
  "consume count room c =
     (case peek_items count c of (items, tail) \<Rightarrow>
        let to_consume = min_int (of_nat room) items
        in consume_raw count tail (unat (scast to_consume :: u64)) c)"

section \<open>Arithmetic of the indices\<close>

lemma ring_mask:
  assumes "k < 32"
  shows "(ucast ((scast (w :: u32) :: u64) AND (2 ^ k - 1)) :: u32) = take_bit k w"
proof -
  have "(2 ^ k - 1 :: u64) = mask k" by (simp add: mask_eq_exp_minus_1)
  then show ?thesis
    using assms by (intro bit_word_eqI) (auto simp: bit_simps)
qed

lemma unat_take_bit: "unat (take_bit k w) = unat w mod 2 ^ k" for w :: "'a::len word"
  unfolding unsigned_take_bit_eq by (simp add: take_bit_eq_mod)

lemma unat_circ_next:
  assumes "k < 32" and "unat h < 2 ^ k"
  shows "unat (circ_next h (2 ^ k)) = (unat h + 1) mod 2 ^ k"
proof -
  have "unat (h + 1) mod 2 ^ k = (unat h + 1) mod 2 ^ k"
  proof -
    have "(unat h + 1) mod 2 ^ 32 mod 2 ^ k = (unat h + 1) mod 2 ^ k"
      by (rule mod_mod_cancel, rule le_imp_power_dvd) (use assms(1) in simp)
    moreover have "unat (h + 1) = (unat h + 1) mod 2 ^ 32"
      by (simp add: unat_word_ariths)
    ultimately show ?thesis by (simp only:)
  qed
  then show ?thesis
    using assms(1) by (simp only: circ_next_def ring_mask unat_take_bit)
qed

lemma unat_circ_cnt:
  assumes "k < 32" and "unat t \<le> 2 ^ k"
  shows "unat (circ_cnt h t (2 ^ k)) = (unat h + 2 ^ k - unat t) mod 2 ^ k"
proof -
  have dvd: "(2::nat) ^ k dvd 2 ^ 32" by (rule le_imp_power_dvd) (use assms(1) in simp)
  have le: "(2::nat) ^ k \<le> 2 ^ 32" by (rule power_increasing) (use assms(1) in simp_all)
  have "unat (h - t) = (unat h + (2 ^ 32 - unat t)) mod 2 ^ 32"
  proof -
    have "h - t = of_nat (unat h + (2 ^ 32 - unat t))"
    proof -
      have "unat t \<le> 2 ^ 32" using unat_bound [of t] by simp
      then show ?thesis by (simp add: of_nat_diff)
    qed
    then have "unat (h - t) = unat (of_nat (unat h + (2 ^ 32 - unat t)) :: u32)" by (rule arg_cong)
    then show ?thesis by (simp only: unat_of_nat) simp
  qed
  then have "unat (h - t) mod 2 ^ k = (unat h + (2 ^ 32 - unat t)) mod 2 ^ k"
    using dvd by (simp only: mod_mod_cancel)
  also have "unat h + (2 ^ 32 - unat t) = (2 ^ 32 - 2 ^ k) + (unat h + 2 ^ k - unat t)"
    using assms(2) le by linarith
  also have "\<dots> mod 2 ^ k = (unat h + 2 ^ k - unat t) mod 2 ^ k"
  proof -
    have "2 ^ k dvd (2 ^ 32 - 2 ^ k :: nat)" using dvd by (simp add: dvd_diff_nat)
    then show ?thesis by (metis mod_add_left_eq add_0 dvd_imp_mod_0)
  qed
  finally show ?thesis
    using assms(1) by (simp only: circ_cnt_def ring_mask unat_take_bit)
qed

section \<open>The queue a ring holds\<close>

definition ring_len :: "nat \<Rightarrow> 'a cmdbuf \<Rightarrow> nat" where
  "ring_len k c = (unat (cb_head c) + 2 ^ k - unat (cb_tail c)) mod 2 ^ k"

definition ring_items :: "nat \<Rightarrow> 'a cmdbuf \<Rightarrow> 'a list" where
  "ring_items k c = map (\<lambda>i. cb_buf c ((unat (cb_tail c) + i) mod 2 ^ k)) [0..<ring_len k c]"

definition ring_inv :: "nat \<Rightarrow> 'a cmdbuf \<Rightarrow> bool" where
  "ring_inv k c \<longleftrightarrow> k < 31 \<and> unat (cb_head c) < 2 ^ k \<and> unat (cb_tail c) < 2 ^ k"

lemma length_ring_items [simp]: "length (ring_items k c) = ring_len k c"
  by (simp add: ring_items_def)

lemma ring_len_less: "ring_len k c < 2 ^ k"
  by (simp add: ring_len_def)

lemma ring_head_eq:
  assumes "ring_inv k c"
  shows "unat (cb_head c) = (unat (cb_tail c) + ring_len k c) mod 2 ^ k"
proof -
  have "(unat (cb_tail c) + ring_len k c) mod 2 ^ k =
      (unat (cb_tail c) + (unat (cb_head c) + 2 ^ k - unat (cb_tail c))) mod 2 ^ k"
    by (simp only: ring_len_def mod_add_right_eq)
  also have "unat (cb_tail c) + (unat (cb_head c) + 2 ^ k - unat (cb_tail c)) =
      unat (cb_head c) + 2 ^ k"
    using assms unfolding ring_inv_def by linarith
  finally show ?thesis using assms by (simp add: ring_inv_def)
qed

lemma mod_distance:
  fixes t m N :: nat
  assumes "t < N" and "m < N"
  shows "((t + m) mod N + N - t) mod N = m"
proof (cases "t + m < N")
  case True
  then have "(t + m) mod N + N - t = m + N" using assms by simp
  with assms show ?thesis by simp
next
  case False
  then have "(t + m) mod N = t + m - N" using assms by (simp add: mod_if)
  then have "(t + m) mod N + N - t = m" using False by linarith
  with assms show ?thesis by simp
qed

lemma ring_len_eqI:
  assumes "unat (cb_head c) = (unat (cb_tail c) + m) mod 2 ^ k"
    and "unat (cb_tail c) < 2 ^ k" and "m < 2 ^ k"
  shows "ring_len k c = m"
  unfolding ring_len_def assms(1) by (rule mod_distance [OF assms(2,3)])

lemma mod_add_inj:
  fixes a i j N :: nat
  assumes "i < N" and "j < N" and "(a + i) mod N = (a + j) mod N"
  shows "i = j"
proof -
  have "(a mod N + i + N - a mod N) mod N = (a mod N + j + N - a mod N) mod N"
    using assms mod_distance [of "a mod N" N i] mod_distance [of "a mod N" N j]
    by (simp add: mod_add_left_eq)
  with assms show ?thesis by simp
qed

lemma produce_loop_spec:
  assumes "k < 31" and "unat h < 2 ^ k" and "length xs \<le> 2 ^ k"
    and "produce_loop (2 ^ k) xs buf h = (buf', h')"
  shows "unat h' = (unat h + length xs) mod 2 ^ k \<and>
    (\<forall>j < length xs. buf' ((unat h + j) mod 2 ^ k) = xs ! j) \<and>
    (\<forall>i. (\<forall>j < length xs. i \<noteq> (unat h + j) mod 2 ^ k) \<longrightarrow> buf' i = buf i)"
  using assms(2,3,4)
proof (induction xs arbitrary: buf h)
  case Nil
  then show ?case by simp
next
  case (Cons x xs)
  let ?h = "circ_next h (2 ^ k)"
  have nxt: "unat ?h = (unat h + 1) mod 2 ^ k"
    using unat_circ_next [of k h] Cons.prems(1) assms(1) by simp
  have pos: "(unat ?h + j) mod 2 ^ k = (unat h + Suc j) mod 2 ^ k" for j
    by (simp add: nxt mod_add_left_eq)
  have "unat ?h < 2 ^ k" and "length xs \<le> 2 ^ k"
    and loop: "produce_loop (2 ^ k) xs (buf(unat h := x)) ?h = (buf', h')"
    using Cons.prems by (simp_all add: nxt)
  note IH = Cons.IH [OF this]
  have fst: "unat h \<noteq> (unat h + Suc j) mod 2 ^ k" if "j < length xs" for j
    using mod_add_inj [of 0 "2 ^ k" "Suc j" "unat h"] Cons.prems(1,2) that by auto
  have "unat h' = (unat h + length (x # xs)) mod 2 ^ k"
    using IH pos [of "length xs"] by simp
  moreover have "buf' ((unat h + j) mod 2 ^ k) = (x # xs) ! j" if "j < length (x # xs)" for j
  proof (cases j)
    case 0
    have "buf' (unat h) = (buf(unat h := x)) (unat h)"
      using IH fst pos by auto
    with 0 Cons.prems(1) show ?thesis by simp
  next
    case (Suc j')
    with IH that pos [of j'] show ?thesis by auto
  qed
  moreover have "buf' i = buf i" if "\<forall>j < length (x # xs). i \<noteq> (unat h + j) mod 2 ^ k" for i
  proof -
    have "i \<noteq> unat h" using that Cons.prems(1) by force
    moreover have "\<forall>j < length xs. i \<noteq> (unat ?h + j) mod 2 ^ k" using that pos by auto
    ultimately show ?thesis using IH by auto
  qed
  ultimately show ?case by blast
qed

lemma consume_loop_spec:
  assumes "k < 31" and "unat t < 2 ^ k"
  shows "\<exists>t'. consume_loop (2 ^ k) n buf t = (map (\<lambda>i. buf ((unat t + i) mod 2 ^ k)) [0..<n], t') \<and>
    unat t' = (unat t + n) mod 2 ^ k"
  using assms(2)
proof (induction n arbitrary: t)
  case 0
  then show ?case by simp
next
  case (Suc n)
  have nxt: "unat (circ_next t (2 ^ k)) = (unat t + 1) mod 2 ^ k"
    using unat_circ_next [of k t] Suc.prems assms(1) by simp
  then obtain t' where t': "consume_loop (2 ^ k) n buf (circ_next t (2 ^ k)) =
      (map (\<lambda>i. buf (((unat t + 1) mod 2 ^ k + i) mod 2 ^ k)) [0..<n], t')"
    "unat t' = ((unat t + 1) mod 2 ^ k + n) mod 2 ^ k"
    using Suc.IH [of "circ_next t (2 ^ k)"] by auto
  have "map (\<lambda>i. buf ((unat t + i) mod 2 ^ k)) [0..<Suc n] =
      buf (unat t) # map (\<lambda>i. buf (((unat t + 1) mod 2 ^ k + i) mod 2 ^ k)) [0..<n]"
    using Suc.prems by (simp add: map_upt_Suc mod_add_left_eq del: upt_Suc)
  with t' show ?case by (simp add: mod_add_left_eq)
qed

lemma produce_raw_spec:
  assumes inv: "ring_inv k c" and n: "n \<le> length xs" "ring_len k c + n < 2 ^ k"
    and r: "c' = produce_raw (2 ^ k) xs (cb_head c) n c"
  shows "ring_inv k c'" and "ring_items k c' = ring_items k c @ take n xs"
proof -
  let ?N = "2 ^ k :: nat" and ?t = "unat (cb_tail c)"
  obtain buf h where loop: "produce_loop (2 ^ k) (take n xs) (cb_buf c) (cb_head c) = (buf, h)"
    by (cases "produce_loop (2 ^ k) (take n xs) (cb_buf c) (cb_head c)")
  have len: "length (take n xs) = n" using n(1) by simp
  have k: "k < 31" "unat (cb_head c) < 2 ^ k" "?t < ?N" using inv by (simp_all add: ring_inv_def)
  note spec = produce_loop_spec [OF k(1,2) _ loop, unfolded len]
  have nN: "n \<le> ?N" using n(2) by simp
  have head: "unat (cb_head c) = (?t + ring_len k c) mod ?N" by (rule ring_head_eq [OF inv])
  have c': "c' = c\<lparr>cb_buf := buf, cb_head := h\<rparr>"
    using r loop spec [OF nN] by (cases "n = 0") (auto simp: produce_raw_def word_unat_eq_iff)
  have h: "unat h = (?t + (ring_len k c + n)) mod ?N"
    using spec [OF nN] head by (simp add: mod_add_left_eq add.assoc)
  have len': "ring_len k c' = ring_len k c + n"
    by (rule ring_len_eqI) (use h c' k n in simp_all)
  show "ring_inv k c'" using k h by (simp add: ring_inv_def c')
  have old: "buf ((?t + i) mod ?N) = cb_buf c ((?t + i) mod ?N)" if "i < ring_len k c" for i
  proof -
    have "(?t + i) mod ?N \<noteq> (unat (cb_head c) + j) mod ?N" if "j < n" for j
      using mod_add_inj [of i ?N "ring_len k c + j" ?t] \<open>i < ring_len k c\<close> that n(2) head
      by (auto simp: mod_add_left_eq add.assoc)
    then show ?thesis using spec [OF nN] by blast
  qed
  have new: "buf ((?t + (ring_len k c + j)) mod ?N) = xs ! j" if "j < n" for j
    using spec [OF nN] head that n(1) by (auto simp: mod_add_left_eq add.assoc)
  show "ring_items k c' = ring_items k c @ take n xs"
  proof (rule nth_equalityI)
    show "length (ring_items k c') = length (ring_items k c @ take n xs)"
      using len' n(1) by simp
    fix i assume "i < length (ring_items k c')"
    then have i: "i < ring_len k c + n" using len' by simp
    show "ring_items k c' ! i = (ring_items k c @ take n xs) ! i"
    proof (cases "i < ring_len k c")
      case True
      then show ?thesis using old [OF True] i len' by (simp add: ring_items_def nth_append c')
    next
      case False
      then show ?thesis
        using new [of "i - ring_len k c"] i len' by (simp add: ring_items_def nth_append c')
    qed
  qed
qed

lemma unat_min_int:
  assumes "unat a < 2 ^ 31" and "unat b < 2 ^ 31"
  shows "unat (min_int a b) = min (unat a) (unat b)"
  unfolding min_int_def sint_u32_pos [OF assms(1)] sint_u32_pos [OF assms(2)] of_nat_less_iff
  by simp

lemma unat_min_int_of_nat:
  assumes "n < 2 ^ 31" and "unat b < 2 ^ 31"
  shows "unat (min_int (of_nat n) b) = min n (unat b)"
    and "unat (scast (min_int (of_nat n) b) :: u64) = min n (unat b)"
proof -
  have "unat (of_nat n :: u32) = n" using assms(1) by (simp only: unat_of_nat) simp
  then show m: "unat (min_int (of_nat n) b) = min n (unat b)"
    using assms unat_min_int [of "of_nat n" b] by simp
  have "min n (unat b) < 2 ^ 31" using assms(1) by simp
  then show "unat (scast (min_int (of_nat n) b) :: u64) = min n (unat b)"
    using scast_u32_pos [of "min_int (of_nat n) b"] m by simp
qed

lemma unat_circ_cnt_less:
  assumes "k < 31" and "unat t \<le> 2 ^ k"
  shows "unat (circ_cnt h t (2 ^ k)) < 2 ^ 31"
proof -
  have "unat (circ_cnt h t (2 ^ k)) < 2 ^ k" using assms by (simp add: unat_circ_cnt)
  also have "(2::nat) ^ k < 2 ^ 31" using assms(1) by (rule power_strict_increasing) simp
  finally show ?thesis .
qed

lemma ring_space:
  assumes "ring_inv k c"
  shows "unat (circ_space (cb_head c) (cb_tail c) (2 ^ k)) = 2 ^ k - 1 - ring_len k c"
proof -
  let ?h = "unat (cb_head c)" and ?t = "unat (cb_tail c)" and ?N = "2 ^ k :: nat"
  have k: "k < 31" "?h < ?N" "?t < ?N" using assms by (simp_all add: ring_inv_def)
  have "?N < 2 ^ 31" using k(1) by (intro power_strict_increasing) simp_all
  then have h1: "unat (cb_head c + 1) = ?h + 1" using k by (subst unat_add_small) simp_all
  have "unat (circ_space (cb_head c) (cb_tail c) (2 ^ k)) = (?t + ?N - (?h + 1)) mod ?N"
    using k h1 unat_circ_cnt [of k "cb_head c + 1" "cb_tail c"] by (simp add: circ_space_def)
  also have "\<dots> = ?N - 1 - ring_len k c"
  proof (cases "?t \<le> ?h")
    case True
    then have "?h + ?N - ?t = ?h - ?t + ?N" by linarith
    then have "ring_len k c = (?h - ?t + ?N) mod ?N" by (simp only: ring_len_def)
    then have "ring_len k c = ?h - ?t" using k by simp
    with True k show ?thesis by simp
  next
    case False
    then have "ring_len k c = ?h + ?N - ?t" using k by (simp add: ring_len_def)
    moreover have "?t + ?N - (?h + 1) = (?t - ?h - 1) + ?N" using False by linarith
    then have "(?t + ?N - (?h + 1)) mod ?N = (?t - ?h - 1) mod ?N"
      by (simp only: mod_add_self2)
    moreover have "(?t - ?h - 1) mod ?N = ?t - ?h - 1" by (rule mod_less) (use k in linarith)
    ultimately show ?thesis using False k by linarith
  qed
  finally show ?thesis .
qed

lemma produce_spec:
  assumes inv: "ring_inv k c" and len: "length xs < 2 ^ 31"
    and r: "produce (2 ^ k) xs c = (r, c')"
  shows "ring_inv k c'"
    and "unat r = min (length xs) (2 ^ k - 1 - ring_len k c)"
    and "ring_items k c' = ring_items k c @ take (unat r) xs"
proof -
  let ?sp = "circ_space (cb_head c) (cb_tail c) (2 ^ k)"
  have k: "k < 31" using inv by (simp add: ring_inv_def)
  have "unat ?sp < 2 ^ k" using ring_space [OF inv] by simp
  also have "(2::nat) ^ k < 2 ^ 31" using k by (rule power_strict_increasing) simp
  finally have sp: "unat ?sp < 2 ^ 31" .
  note m = unat_min_int_of_nat [OF len sp, unfolded ring_space [OF inv]]
  have r': "r = min_int (of_nat (length xs)) ?sp"
    and c': "c' = produce_raw (2 ^ k) xs (cb_head c) (unat (scast r :: u64)) c"
    using r by (auto simp: produce_def peek_space_def Let_def)
  show ur: "unat r = min (length xs) (2 ^ k - 1 - ring_len k c)" using m r' by simp
  have n: "unat (scast r :: u64) = unat r" using m r' by simp
  have "unat r \<le> length xs" "ring_len k c + unat r < 2 ^ k"
    using ur ring_len_less [of k c] by linarith+
  from produce_raw_spec [OF inv this, of c'] show "ring_inv k c'"
    and "ring_items k c' = ring_items k c @ take (unat r) xs"
    using c' n by simp_all
qed

lemma consume_raw_spec:
  assumes inv: "ring_inv k c" and n: "n \<le> ring_len k c"
    and r: "consume_raw (2 ^ k) (cb_tail c) n c = (out, c')"
  shows "ring_inv k c'" and "out = take n (ring_items k c)" and "ring_items k c' = drop n (ring_items k c)"
proof -
  let ?t = "unat (cb_tail c)" and ?N = "2 ^ k :: nat"
  have k: "k < 31" "?t < ?N" using inv by (simp_all add: ring_inv_def)
  obtain t' where t': "consume_loop (2 ^ k) n (cb_buf c) (cb_tail c) =
      (map (\<lambda>i. cb_buf c ((?t + i) mod ?N)) [0..<n], t')" "unat t' = (?t + n) mod ?N"
    using consume_loop_spec [OF k] by blast
  have eq: "out = map (\<lambda>i. cb_buf c ((?t + i) mod ?N)) [0..<n]" "c' = c\<lparr>cb_tail := t'\<rparr>"
    using r t' k by (auto simp: consume_raw_def word_unat_eq_iff split: if_splits)
  show "out = take n (ring_items k c)"
    using n by (simp add: eq ring_items_def take_map)
  show inv': "ring_inv k c'" using inv t' by (simp add: ring_inv_def eq)
  have "unat (cb_head c) = (unat t' + (ring_len k c - n)) mod ?N"
  proof -
    have "(unat t' + (ring_len k c - n)) mod ?N = (?t + n + (ring_len k c - n)) mod ?N"
      by (simp only: t' mod_add_left_eq)
    also have "?t + n + (ring_len k c - n) = ?t + ring_len k c" using n by simp
    finally show ?thesis using ring_head_eq [OF inv] by simp
  qed
  then have len: "ring_len k c' = ring_len k c - n"
    using inv' ring_len_less [of k c] by (intro ring_len_eqI) (auto simp: eq ring_inv_def)
  have "ring_items k c' ! i = drop n (ring_items k c) ! i" if "i < ring_len k c - n" for i
  proof -
    have "(unat t' + i) mod ?N = (?t + (n + i)) mod ?N"
      by (simp add: t' mod_add_left_eq add.assoc)
    moreover have "n + i < ring_len k c" using that by linarith
    ultimately show ?thesis using that n len by (simp add: ring_items_def eq)
  qed
  then show "ring_items k c' = drop n (ring_items k c)"
    using len by (intro nth_equalityI) simp_all
qed

lemma consume_spec:
  assumes inv: "ring_inv k c" and room: "room < 2 ^ 31"
    and r: "consume (2 ^ k) room c = (out, c')"
  shows "ring_inv k c'"
    and "out = take room (ring_items k c)"
    and "ring_items k c' = drop room (ring_items k c)"
proof -
  let ?it = "circ_cnt (cb_head c) (cb_tail c) (2 ^ k)"
  have k: "k < 31" "unat (cb_tail c) \<le> 2 ^ k" using inv by (simp_all add: ring_inv_def)
  have it: "unat ?it = ring_len k c" using k by (simp add: unat_circ_cnt ring_len_def)
  let ?n = "unat (scast (min_int (of_nat room) ?it) :: u64)"
  have n: "?n = min room (ring_len k c)"
    using unat_min_int_of_nat(2) [OF room unat_circ_cnt_less [OF k]] it by simp
  have "consume_raw (2 ^ k) (cb_tail c) ?n c = (out, c')"
    using r by (simp add: consume_def peek_items_def Let_def)
  from consume_raw_spec [OF inv _ this] n show "ring_inv k c'"
    and "out = take room (ring_items k c)" and "ring_items k c' = drop room (ring_items k c)"
    by (simp_all add: min_def split: if_splits)
qed

section \<open>The queue contract\<close>

text \<open>
  What both ends of a ring rely on, independent of the buffer: a push appends the elements there
  is room for and says how many, a pop removes from the front.
\<close>

datatype 'a queue_op = Push "'a list" | Pop nat

text \<open>A run of operations, with everything accepted and everything delivered so far.\<close>

fun queue_run ::
  "('a list \<Rightarrow> 'q \<Rightarrow> nat \<times> 'q) \<Rightarrow> (nat \<Rightarrow> 'q \<Rightarrow> 'a list \<times> 'q) \<Rightarrow> 'a queue_op list \<Rightarrow>
   'q \<times> 'a list \<times> 'a list \<Rightarrow> 'q \<times> 'a list \<times> 'a list" where
  "queue_run push pop [] s = s"
| "queue_run push pop (Push xs # ops) (q, acc, out) =
     (case push xs q of (n, q') \<Rightarrow> queue_run push pop ops (q', acc @ take n xs, out))"
| "queue_run push pop (Pop n # ops) (q, acc, out) =
     (case pop n q of (ys, q') \<Rightarrow> queue_run push pop ops (q', acc, out @ ys))"

fun op_small :: "nat \<Rightarrow> 'a queue_op \<Rightarrow> bool" where
  "op_small lim (Push xs) \<longleftrightarrow> length xs < lim"
| "op_small lim (Pop n) \<longleftrightarrow> n < lim"

locale bounded_fifo =
  fixes items :: "'q \<Rightarrow> 'a list" and invar :: "'q \<Rightarrow> bool" and cap :: nat and lim :: nat
    and push :: "'a list \<Rightarrow> 'q \<Rightarrow> nat \<times> 'q" and pop :: "nat \<Rightarrow> 'q \<Rightarrow> 'a list \<times> 'q"
  assumes push_invar: "invar q \<Longrightarrow> length xs < lim \<Longrightarrow> push xs q = (n, q') \<Longrightarrow> invar q'"
    and push_count: "invar q \<Longrightarrow> length xs < lim \<Longrightarrow> push xs q = (n, q') \<Longrightarrow>
      n = min (length xs) (cap - length (items q))"
    and push_items: "invar q \<Longrightarrow> length xs < lim \<Longrightarrow> push xs q = (n, q') \<Longrightarrow>
      items q' = items q @ take n xs"
    and pop_invar: "invar q \<Longrightarrow> m < lim \<Longrightarrow> pop m q = (ys, q') \<Longrightarrow> invar q'"
    and pop_items: "invar q \<Longrightarrow> m < lim \<Longrightarrow> pop m q = (ys, q') \<Longrightarrow>
      ys = take m (items q) \<and> items q' = drop m (items q)"
begin

lemma run_conserves:
  assumes "invar q" and "list_all (op_small lim) ops"
    and "queue_run push pop ops (q, acc, out) = (q', acc', out')"
    and "acc = out @ items q"
  shows "invar q' \<and> acc' = out' @ items q'"
  using assms
proof (induction ops arbitrary: q acc out)
  case Nil
  then show ?case by auto
next
  case (Cons p ops)
  show ?case
  proof (cases p)
    case (Push xs)
    obtain n q1 where p1: "push xs q = (n, q1)" by (cases "push xs q")
    have small: "length xs < lim" using Cons.prems(2) Push by simp
    show ?thesis
    proof (rule Cons.IH)
      show "invar q1" by (rule push_invar [OF Cons.prems(1) small p1])
      show "list_all (op_small lim) ops" using Cons.prems(2) by simp
      show "queue_run push pop ops (q1, acc @ take n xs, out) = (q', acc', out')"
        using Cons.prems(3) Push p1 by simp
      show "acc @ take n xs = out @ items q1"
        using Cons.prems(4) push_items [OF Cons.prems(1) small p1] by simp
    qed
  next
    case (Pop m)
    obtain ys q1 where p1: "pop m q = (ys, q1)" by (cases "pop m q")
    have small: "m < lim" using Cons.prems(2) Pop by simp
    note it = pop_items [OF Cons.prems(1) small p1]
    show ?thesis
    proof (rule Cons.IH)
      show "invar q1" by (rule pop_invar [OF Cons.prems(1) small p1])
      show "list_all (op_small lim) ops" using Cons.prems(2) by simp
      show "queue_run push pop ops (q1, acc, out @ ys) = (q', acc', out')"
        using Cons.prems(3) Pop p1 by simp
      show "acc = (out @ ys) @ items q1"
        using Cons.prems(4) it by simp
    qed
  qed
qed

lemma push_one:
  assumes "invar q" and "length (items q) < cap" and "1 < lim" and "push [x] q = (n, q')"
  shows "n = 1" and "invar q'" and "items q' = items q @ [x]"
  using push_count [OF assms(1) _ assms(4)] push_items [OF assms(1) _ assms(4)]
    push_invar [OF assms(1) _ assms(4)] assms(2,3) by auto

lemma pop_makes_room:
  assumes "invar q" and "0 < m" and "m < lim" and "items q \<noteq> []" and "length (items q) \<le> cap"
    and "pop m q = (ys, q')"
  shows "length (items q') < cap"
proof -
  have "length (items q') = length (items q) - m"
    using pop_items [OF assms(1,3,6)] by simp
  moreover have "0 < length (items q)" using assms(4) by simp
  ultimately show ?thesis using assms(2,5) by linarith
qed

end

definition ring_push :: "nat \<Rightarrow> 'a list \<Rightarrow> 'a cmdbuf \<Rightarrow> nat \<times> 'a cmdbuf" where
  "ring_push k xs c = (case produce (2 ^ k) xs c of (r, c') \<Rightarrow> (unat r, c'))"

interpretation ring: bounded_fifo "ring_items k" "ring_inv k" "2 ^ k - 1" "2 ^ 31"
    "ring_push k" "consume (2 ^ k)" for k :: nat
proof (unfold_locales, goal_cases)
  case (1 q xs n q')
  then show ?case by (auto simp: ring_push_def dest: produce_spec(1) split: prod.splits)
next
  case (2 q xs n q')
  then show ?case by (auto simp: ring_push_def dest: produce_spec(2) split: prod.splits)
next
  case (3 q xs n q')
  then show ?case by (auto simp: ring_push_def dest: produce_spec(3) split: prod.splits)
next
  case (4 q m ys q')
  then show ?case by (rule consume_spec(1))
next
  case (5 q m ys q')
  then show ?case using consume_spec(2,3) by blast
qed

section \<open>Posting a completion\<close>

text \<open>
  \<open>cq_produce_one\<close> retries until the ring takes the response. Between two attempts the consumer may
  run; \<open>env\<close> lists how much room it asks for each time, and \<open>None\<close> is a caller still spinning when
  that list ends.
\<close>

fun cq_produce_one :: "u64 \<Rightarrow> 'a \<Rightarrow> nat list \<Rightarrow> 'a cmdbuf \<Rightarrow> 'a cmdbuf option" where
  "cq_produce_one count x [] c =
     (case produce count [x] c of (r, c') \<Rightarrow> if r \<noteq> 0 then Some c' else None)"
| "cq_produce_one count x (n # env) c =
     (case produce count [x] c of
        (r, c') \<Rightarrow> if r \<noteq> 0 then Some c'
                   else cq_produce_one count x env (snd (consume count n c')))"

lemma cq_produce_one_room:
  assumes "ring_inv k c" and "ring_len k c < 2 ^ k - 1"
  shows "\<exists>c'. cq_produce_one (2 ^ k) x env c = Some c' \<and> ring_inv k c' \<and>
    ring_items k c' = ring_items k c @ [x]"
proof -
  obtain r c' where p: "produce (2 ^ k) [x] c = (r, c')" by (cases "produce (2 ^ k) [x] c")
  then have "ring_push k [x] c = (unat r, c')" by (simp add: ring_push_def)
  from ring.push_one [OF assms(1) _ _ this] assms(2)
  have "unat r = 1" "ring_inv k c'" "ring_items k c' = ring_items k c @ [x]" by simp_all
  moreover from \<open>unat r = 1\<close> have "r \<noteq> 0" by auto
  ultimately show ?thesis using p by (cases env) simp_all
qed

lemma cq_produce_one_full:
  assumes "ring_inv k c" and "ring_len k c = 2 ^ k - 1" and "0 < k" and "0 < n" and "n < 2 ^ 31"
  shows "\<exists>c'. cq_produce_one (2 ^ k) x (n # env) c = Some c' \<and> ring_inv k c' \<and>
    ring_items k c' = drop n (ring_items k c) @ [x]"
proof -
  obtain r c0 where p: "produce (2 ^ k) [x] c = (r, c0)" by (cases "produce (2 ^ k) [x] c")
  have "unat r = 0" using produce_spec(2) [OF assms(1) _ p] assms(2) by simp
  then have r: "r = 0" by (simp add: unat_eq_0)
  have c0: "ring_inv k c0" "ring_items k c0 = ring_items k c"
    using produce_spec(1,3) [OF assms(1) _ p] r by simp_all
  obtain ys c1 where q: "consume (2 ^ k) n c0 = (ys, c1)" by (cases "consume (2 ^ k) n c0")
  have c1: "ring_inv k c1" "ring_items k c1 = drop n (ring_items k c)"
    using consume_spec [OF c0(1) assms(5) q] c0(2) by simp_all
  have len: "length (ring_items k c0) = 2 ^ k - 1" using c0(2) assms(2) by simp
  have "(2::nat) ^ 1 \<le> 2 ^ k" using assms(3) by (intro power_increasing) simp_all
  then have "0 < (2::nat) ^ k - 1" by simp
  then have "0 < length (ring_items k c0)" by (simp only: len)
  then have "ring_items k c0 \<noteq> []" by (rule length_greater_0_conv [THEN iffD1])
  then have "ring_len k c1 < 2 ^ k - 1"
    using ring.pop_makes_room [OF c0(1) assms(4,5) _ _ q] len by simp
  from cq_produce_one_room [OF c1(1) this] show ?thesis using p q r c1(2) by simp
qed

end
