(* ===== verification/RingSteps.thy ===== *)
theory RingSteps
  imports Cmdbuf
begin

text \<open>
  Both ends of a ring at work at the same time. The producer and the consumer of a ring (\<open>cmdbuf.hpp\<close>) are different processes: the program
  and the kernel share its pages and take no lock. The theory breaks \<open>produce\<close> and \<open>consume\<close> into the steps that the other side can see, lets
  them interleave in any order, and shows that the ring is still a queue. A step is one load or store of shared memory; the release store of an
  index and the acquire load of it on the other side make the stores before the one visible to the loads after the other.
\<close>

section \<open>The steps\<close>

text \<open>
  Where the producer is: outside \<open>produce\<close>, or in its loop, with the elements it takes from the caller, those of them that are still to be stored,
  and its own copy of the head. The consumer has the elements it has loaded, the number it still has to load, and its copy of the tail.
\<close>

datatype 'a producer = P_idle | P_copy "'a list" "'a list" u32

datatype 'a consumer = C_idle | C_copy "'a list" nat u32

text \<open>The last two fields record everything that \<open>produce\<close> accepted and everything that \<open>consume\<close> delivered.\<close>

record 'a ring_sys =
  rs_ring :: "'a cmdbuf"
  rs_prod :: "'a producer"
  rs_cons :: "'a consumer"
  rs_sent :: "'a list"
  rs_got :: "'a list"

text \<open>
  The head is stored by the producer only, so that its two loads in \<open>peek_space\<close> are one step, the load of the tail; likewise for the consumer.
\<close>

definition p_count :: "u64 \<Rightarrow> 'a list \<Rightarrow> 'a cmdbuf \<Rightarrow> nat" where
  "p_count count xs c = unat (scast (min_int (of_nat (length xs)) (fst (peek_space count c))) :: u64)"

definition c_count :: "u64 \<Rightarrow> nat \<Rightarrow> 'a cmdbuf \<Rightarrow> nat" where
  "c_count count room c = unat (scast (min_int (of_nat room) (fst (peek_items count c))) :: u64)"

inductive ring_step :: "u64 \<Rightarrow> 'a ring_sys \<Rightarrow> 'a ring_sys \<Rightarrow> bool" for count :: u64 where
  p_peek: "rs_prod s = P_idle \<Longrightarrow> length xs < 2 ^ 31 \<Longrightarrow> n = p_count count xs (rs_ring s) \<Longrightarrow> 1 \<le> n \<Longrightarrow>
    ring_step count s (s\<lparr>rs_prod := P_copy (take n xs) (take n xs) (snd (peek_space count (rs_ring s)))\<rparr>)"
| p_store: "rs_prod s = P_copy b (x # xs) h \<Longrightarrow>
    ring_step count s (s\<lparr>rs_ring := (rs_ring s)\<lparr>cb_buf := (cb_buf (rs_ring s))(unat h := x)\<rparr>, rs_prod := P_copy b xs (circ_next h count)\<rparr>)"
| p_publish: "rs_prod s = P_copy b [] h \<Longrightarrow>
    ring_step count s (s\<lparr>rs_ring := (rs_ring s)\<lparr>cb_head := h\<rparr>, rs_prod := P_idle, rs_sent := rs_sent s @ b\<rparr>)"
| c_peek: "rs_cons s = C_idle \<Longrightarrow> room < 2 ^ 31 \<Longrightarrow> n = c_count count room (rs_ring s) \<Longrightarrow> 1 \<le> n \<Longrightarrow>
    ring_step count s (s\<lparr>rs_cons := C_copy [] n (snd (peek_items count (rs_ring s)))\<rparr>)"
| c_load: "rs_cons s = C_copy out (Suc n) t \<Longrightarrow>
    ring_step count s (s\<lparr>rs_cons := C_copy (out @ [cb_buf (rs_ring s) (unat t)]) n (circ_next t count)\<rparr>)"
| c_publish: "rs_cons s = C_copy out 0 t \<Longrightarrow>
    ring_step count s (s\<lparr>rs_ring := (rs_ring s)\<lparr>cb_tail := t\<rparr>, rs_cons := C_idle, rs_got := rs_got s @ out\<rparr>)"

text \<open>A ring at rest, with what its consumer has not taken yet.\<close>

definition ring_start :: "nat \<Rightarrow> 'a cmdbuf \<Rightarrow> 'a ring_sys" where
  "ring_start k c = \<lparr>rs_ring = c, rs_prod = P_idle, rs_cons = C_idle, rs_sent = ring_items k c, rs_got = []\<rparr>"

section \<open>The invariant\<close>

fun prod_inv :: "nat \<Rightarrow> 'a cmdbuf \<Rightarrow> 'a producer \<Rightarrow> bool" where
  "prod_inv k c P_idle \<longleftrightarrow> True"
| "prod_inv k c (P_copy b todo h) \<longleftrightarrow>
     (\<exists>stored. b = stored @ todo \<and> ring_len k c + length b < 2 ^ k \<and> unat h = (unat (cb_head c) + length stored) mod 2 ^ k \<and>
        (\<forall>j < length stored. cb_buf c ((unat (cb_head c) + j) mod 2 ^ k) = stored ! j))"

fun cons_inv :: "nat \<Rightarrow> 'a cmdbuf \<Rightarrow> 'a consumer \<Rightarrow> bool" where
  "cons_inv k c C_idle \<longleftrightarrow> True"
| "cons_inv k c (C_copy out n t) \<longleftrightarrow>
     length out + n \<le> ring_len k c \<and> out = take (length out) (ring_items k c) \<and> unat t = (unat (cb_tail c) + length out) mod 2 ^ k"

definition sys_inv :: "nat \<Rightarrow> 'a ring_sys \<Rightarrow> bool" where
  "sys_inv k s \<longleftrightarrow> ring_inv k (rs_ring s) \<and> prod_inv k (rs_ring s) (rs_prod s) \<and> cons_inv k (rs_ring s) (rs_cons s) \<and>
     rs_sent s = rs_got s @ ring_items k (rs_ring s)"

text \<open>The cells the producer fills lie behind the items of the ring.\<close>

lemma ring_cell_head: "ring_inv k c \<Longrightarrow> (unat (cb_head c) + j) mod 2 ^ k = (unat (cb_tail c) + (ring_len k c + j)) mod 2 ^ k"
  by (simp add: ring_head_eq mod_add_left_eq add.assoc)

lemma free_cell:
  assumes "ring_inv k c" "ring_len k c + j < 2 ^ k" "i < ring_len k c"
  shows "(unat (cb_tail c) + i) mod 2 ^ k \<noteq> (unat (cb_head c) + j) mod 2 ^ k"
  using mod_add_inj [of i "2 ^ k" "ring_len k c + j" "unat (cb_tail c)"] assms ring_cell_head [OF assms(1), of j] by auto

lemma store_items:
  assumes "ring_inv k c" "ring_len k c + j < 2 ^ k" "a = (unat (cb_head c) + j) mod 2 ^ k"
  shows "ring_items k (c\<lparr>cb_buf := (cb_buf c)(a := x)\<rparr>) = ring_items k c"
proof -
  have "(unat (cb_tail c) + i) mod 2 ^ k \<noteq> a" if "i < ring_len k c" for i
    using free_cell [OF assms(1,2) that] assms(3) by simp
  then show ?thesis by (simp add: ring_items_def ring_len_def)
qed

text \<open>Publishing the head adds the stored elements at the end of the queue.\<close>

lemma publish_head_items:
  assumes inv: "ring_inv k c" and len: "ring_len k c + length b < 2 ^ k" and h: "unat h = (unat (cb_head c) + length b) mod 2 ^ k"
    and st: "\<forall>j < length b. cb_buf c ((unat (cb_head c) + j) mod 2 ^ k) = b ! j"
  shows "ring_inv k (c\<lparr>cb_head := h\<rparr>)" "ring_len k (c\<lparr>cb_head := h\<rparr>) = ring_len k c + length b"
    "ring_items k (c\<lparr>cb_head := h\<rparr>) = ring_items k c @ b"
proof -
  show inv': "ring_inv k (c\<lparr>cb_head := h\<rparr>)" using inv h by (simp add: ring_inv_def)
  show len': "ring_len k (c\<lparr>cb_head := h\<rparr>) = ring_len k c + length b"
    by (rule ring_len_eqI) (use inv h len ring_cell_head [OF inv, of "length b"] in \<open>simp_all add: ring_inv_def\<close>)
  have "cb_buf c ((unat (cb_tail c) + i) mod 2 ^ k) = (ring_items k c @ b) ! i" if "i < ring_len k c + length b" for i
  proof (cases "i < ring_len k c")
    case False
    then show ?thesis
      using st [rule_format, of "i - ring_len k c"] that ring_cell_head [OF inv, of "i - ring_len k c"] by (simp add: nth_append)
  qed (simp add: nth_append ring_items_def)
  then show "ring_items k (c\<lparr>cb_head := h\<rparr>) = ring_items k c @ b"
    by (intro nth_equalityI) (simp_all add: len', simp add: ring_items_def len')
qed

text \<open>Publishing the tail removes the loaded elements from its front.\<close>

lemma publish_tail_items:
  assumes inv: "ring_inv k c" and n: "n \<le> ring_len k c" and t: "unat t = (unat (cb_tail c) + n) mod 2 ^ k"
  shows "ring_inv k (c\<lparr>cb_tail := t\<rparr>)" "ring_len k (c\<lparr>cb_tail := t\<rparr>) = ring_len k c - n"
    "ring_items k (c\<lparr>cb_tail := t\<rparr>) = drop n (ring_items k c)"
proof -
  show "ring_inv k (c\<lparr>cb_tail := t\<rparr>)" using inv t by (simp add: ring_inv_def)
  have "(unat t + (ring_len k c - n)) mod 2 ^ k = (unat (cb_tail c) + ring_len k c) mod 2 ^ k"
    unfolding t mod_add_left_eq using n by simp
  then show len': "ring_len k (c\<lparr>cb_tail := t\<rparr>) = ring_len k c - n"
    by (intro ring_len_eqI) (use ring_head_eq [OF inv] ring_len_less [of k c] t in simp_all)
  have "ring_items k (c\<lparr>cb_tail := t\<rparr>) ! i = drop n (ring_items k c) ! i" if "i < ring_len k c - n" for i
    using that n by (simp add: ring_items_def len' t mod_add_left_eq mod_add_right_eq less_diff_conv nth_upt ac_simps)
  then show "ring_items k (c\<lparr>cb_tail := t\<rparr>) = drop n (ring_items k c)" by (intro nth_equalityI) (simp_all add: len')
qed


text \<open>Every step keeps it.\<close>

lemma p_count_n:
  assumes "ring_inv k c" "length xs < 2 ^ 31"
  shows "p_count (2 ^ k) xs c = min (length xs) (2 ^ k - 1 - ring_len k c)"
proof -
  have "k < 31" using assms(1) by (simp add: ring_inv_def)
  then have "(2::nat) ^ k < 2 ^ 31" by (rule power_strict_increasing) simp
  then have "unat (circ_space (cb_head c) (cb_tail c) (2 ^ k)) < 2 ^ 31" using ring_space [OF assms(1)] by simp
  from unat_min_int_of_nat(2) [OF assms(2) this] show ?thesis by (simp add: p_count_def peek_space_def ring_space [OF assms(1)])
qed

lemma c_count_n: "ring_inv k c \<Longrightarrow> room < 2 ^ 31 \<Longrightarrow> c_count (2 ^ k) room c = min room (ring_len k c)"
  using unat_min_int_of_nat(2) [OF _ unat_circ_cnt_less] unat_circ_cnt [of k "cb_tail c" "cb_head c"]
  by (simp add: c_count_def peek_items_def ring_inv_def ring_len_def)

lemma store_inv:
  assumes p: "prod_inv k c (P_copy b (x # xs) h)" and inv: "ring_inv k c"
  defines "c' \<equiv> c\<lparr>cb_buf := (cb_buf c)(unat h := x)\<rparr>"
  shows "ring_items k c' = ring_items k c" "ring_len k c' = ring_len k c" "ring_inv k c'" "prod_inv k c' (P_copy b xs (circ_next h (2 ^ k)))"
proof -
  from p obtain stored where st: "b = stored @ x # xs" "ring_len k c + length b < 2 ^ k"
    "unat h = (unat (cb_head c) + length stored) mod 2 ^ k" "\<forall>j < length stored. cb_buf c ((unat (cb_head c) + j) mod 2 ^ k) = stored ! j"
    by auto
  show "ring_items k c' = ring_items k c" unfolding c'_def by (rule store_items [OF inv _ st(3)]) (use st(1,2) in simp)
  show same: "ring_len k c' = ring_len k c" "ring_inv k c'" using inv by (simp_all add: c'_def ring_len_def ring_inv_def)
  have nx: "unat (circ_next h (2 ^ k)) = (unat (cb_head c) + length (stored @ [x])) mod 2 ^ k"
    using unat_circ_next [of k h] st(3) inv by (simp add: ring_inv_def mod_Suc_eq)
  have "cb_buf c' ((unat (cb_head c) + j) mod 2 ^ k) = (stored @ [x]) ! j" if "j < length (stored @ [x])" for j
  proof (cases "j = length stored")
    case False
    then have "(unat (cb_head c) + j) mod 2 ^ k \<noteq> unat h"
      using mod_add_inj [of j "2 ^ k" "length stored" "unat (cb_head c)"] that st(1,2,3) by auto
    then show ?thesis using False that st(4) by (simp add: nth_append c'_def)
  qed (simp add: st(3) c'_def)
  then show "prod_inv k c' (P_copy b xs (circ_next h (2 ^ k)))"
    using st(1,2) nx same by (auto simp: c'_def intro!: exI [of _ "stored @ [x]"])
qed

lemma load_inv:
  assumes c: "cons_inv k c (C_copy out (Suc n) t)" and inv: "ring_inv k c"
  shows "cons_inv k c (C_copy (out @ [cb_buf c (unat t)]) n (circ_next t (2 ^ k)))"
proof -
  have st: "length out + Suc n \<le> ring_len k c" "out = take (length out) (ring_items k c)" "unat t = (unat (cb_tail c) + length out) mod 2 ^ k"
    using c by auto
  have "cb_buf c (unat t) = ring_items k c ! length out" using st(1,3) by (simp add: ring_items_def)
  then have "out @ [cb_buf c (unat t)] = take (length (out @ [cb_buf c (unat t)])) (ring_items k c)"
    using st(1,2) by (simp add: take_Suc_conv_app_nth)
  moreover have "unat (circ_next t (2 ^ k)) = (unat (cb_tail c) + length (out @ [cb_buf c (unat t)])) mod 2 ^ k"
    using unat_circ_next [of k t] st(3) inv by (simp add: ring_inv_def mod_Suc_eq)
  ultimately show ?thesis using st(1) by simp
qed

lemma ring_step_inv:
  assumes "ring_step (2 ^ k) s s'" "sys_inv k s"
  shows "sys_inv k s'"
  using assms
proof (cases rule: ring_step.cases)
  case (p_peek xs n)
  then have "ring_len k (rs_ring s) + length (take n xs) < 2 ^ k"
    using p_count_n [of k "rs_ring s" xs] ring_len_less [of k "rs_ring s"] assms(2) by (auto simp: sys_inv_def)
  then show ?thesis using assms(2) p_peek by (auto simp: sys_inv_def peek_space_def ring_inv_def)
next
  case (p_store b x xs h)
  have "prod_inv k (rs_ring s) (P_copy b (x # xs) h)" "ring_inv k (rs_ring s)" using p_store(2) assms(2) by (auto simp: sys_inv_def)
  note si = store_inv [OF this]
  have "cons_inv k ((rs_ring s)\<lparr>cb_buf := (cb_buf (rs_ring s))(unat h := x)\<rparr>) (rs_cons s)"
    using assms(2) si(1,2) by (cases "rs_cons s") (auto simp: sys_inv_def)
  then show ?thesis using assms(2) p_store si by (simp add: sys_inv_def)
next
  case (p_publish b h)
  let ?c = "rs_ring s" and ?c' = "(rs_ring s)\<lparr>cb_head := h\<rparr>"
  from p_publish assms(2) have st: "ring_len k ?c + length b < 2 ^ k" "unat h = (unat (cb_head ?c) + length b) mod 2 ^ k"
    "\<forall>j < length b. cb_buf ?c ((unat (cb_head ?c) + j) mod 2 ^ k) = b ! j" and inv: "ring_inv k ?c"
    by (auto simp: sys_inv_def)
  note ph = publish_head_items [OF inv st]
  have "cons_inv k ?c' (rs_cons s)" using assms(2) ph by (cases "rs_cons s") (auto simp: sys_inv_def)
  then show ?thesis using assms(2) p_publish ph by (simp add: sys_inv_def)
next
  case (c_peek room n)
  then have "n \<le> ring_len k (rs_ring s)" using c_count_n [of k "rs_ring s" room] assms(2) by (auto simp: sys_inv_def)
  then show ?thesis using assms(2) c_peek by (auto simp: sys_inv_def peek_items_def ring_inv_def)
next
  case (c_load out n t)
  then show ?thesis using assms(2) load_inv [of k "rs_ring s" out n t] by (simp add: sys_inv_def)
next
  case (c_publish out t)
  let ?c = "rs_ring s" and ?c' = "(rs_ring s)\<lparr>cb_tail := t\<rparr>"
  from c_publish assms(2) have st: "length out \<le> ring_len k ?c" "out = take (length out) (ring_items k ?c)"
    "unat t = (unat (cb_tail ?c) + length out) mod 2 ^ k" and inv: "ring_inv k ?c"
    by (auto simp: sys_inv_def)
  note pt = publish_tail_items [OF inv st(1,3)]
  have "prod_inv k ?c' (rs_prod s)" using assms(2) pt(2) by (cases "rs_prod s") (auto simp: sys_inv_def)
  moreover have "ring_items k ?c = out @ ring_items k ?c'" using st(2) pt(3) by (metis append_take_drop_id)
  ultimately show ?thesis using assms(2) c_publish pt(1) by (simp add: sys_inv_def)
qed

lemma ring_steps_inv: "(ring_step (2 ^ k))\<^sup>*\<^sup>* s s' \<Longrightarrow> sys_inv k s \<Longrightarrow> sys_inv k s'"
  by (induction rule: rtranclp_induct) (auto intro: ring_step_inv)

section \<open>Running one side alone\<close>

text \<open>With no step of the other side in between, the steps of one call are \<open>produce\<close> and \<open>consume\<close>.\<close>

lemma steps_between: "R a b \<Longrightarrow> R\<^sup>*\<^sup>* b c \<Longrightarrow> R c d \<Longrightarrow> R\<^sup>*\<^sup>* a d"
  by (rule converse_rtranclp_into_rtranclp [OF _ rtranclp.rtrancl_into_rtrancl])

lemma p_loop_steps:
  "rs_prod s = P_copy b xs h \<Longrightarrow> produce_loop count xs (cb_buf (rs_ring s)) h = (buf, h') \<Longrightarrow>
   (ring_step count)\<^sup>*\<^sup>* s (s\<lparr>rs_ring := (rs_ring s)\<lparr>cb_buf := buf\<rparr>, rs_prod := P_copy b [] h'\<rparr>)"
proof (induction xs arbitrary: s h)
  case (Cons x xs)
  let ?s = "s\<lparr>rs_ring := (rs_ring s)\<lparr>cb_buf := (cb_buf (rs_ring s))(unat h := x)\<rparr>, rs_prod := P_copy b xs (circ_next h count)\<rparr>"
  have "ring_step count s ?s" using Cons.prems(1) by (rule p_store)
  moreover have "(ring_step count)\<^sup>*\<^sup>* ?s (s\<lparr>rs_ring := (rs_ring s)\<lparr>cb_buf := buf\<rparr>, rs_prod := P_copy b [] h'\<rparr>)"
    using Cons.IH [of ?s "circ_next h count"] Cons.prems(2) by (simp add: fun_upd_def)
  ultimately show ?case by (rule converse_rtranclp_into_rtranclp)
next
  case Nil
  then have "s\<lparr>rs_ring := (rs_ring s)\<lparr>cb_buf := buf\<rparr>, rs_prod := P_copy b [] h'\<rparr> = s" by (cases s) simp
  then show ?case by simp
qed

lemma produce_is_steps:
  assumes "rs_prod s = P_idle" "length xs < 2 ^ 31" "produce count xs (rs_ring s) = (r, c')"
  shows "(ring_step count)\<^sup>*\<^sup>* s (s\<lparr>rs_ring := c', rs_sent := rs_sent s @ take (unat (scast r :: u64)) xs\<rparr>)"
proof -
  let ?n = "p_count count xs (rs_ring s)" and ?h = "cb_head (rs_ring s)"
  have r: "unat (scast r :: u64) = ?n" "c' = produce_raw count xs ?h ?n (rs_ring s)"
    using assms(3) by (auto simp: produce_def p_count_def peek_space_def Let_def)
  show ?thesis
  proof (cases "1 \<le> ?n")
    case False
    then have "?n = 0" by simp
    then show ?thesis using assms(1) r by (cases s) (simp add: produce_raw_def)
  next
    case True
    obtain buf h' where l: "produce_loop count (take ?n xs) (cb_buf (rs_ring s)) ?h = (buf, h')" by fastforce
    let ?s1 = "s\<lparr>rs_prod := P_copy (take ?n xs) (take ?n xs) ?h\<rparr>"
    have a: "ring_step count s ?s1" using p_peek [OF assms(1,2) refl True] by (simp add: peek_space_def)
    have b: "(ring_step count)\<^sup>*\<^sup>* ?s1 (s\<lparr>rs_ring := (rs_ring s)\<lparr>cb_buf := buf\<rparr>, rs_prod := P_copy (take ?n xs) [] h'\<rparr>)"
      using p_loop_steps [of ?s1 _ _ _ count buf h'] l by simp
    have c: "ring_step count (s\<lparr>rs_ring := (rs_ring s)\<lparr>cb_buf := buf\<rparr>, rs_prod := P_copy (take ?n xs) [] h'\<rparr>)
        (s\<lparr>rs_ring := (rs_ring s)\<lparr>cb_buf := buf, cb_head := h'\<rparr>, rs_prod := P_idle, rs_sent := rs_sent s @ take ?n xs\<rparr>)"
      using p_publish [of "s\<lparr>rs_ring := (rs_ring s)\<lparr>cb_buf := buf\<rparr>, rs_prod := P_copy (take ?n xs) [] h'\<rparr>"] by simp
    have e: "s\<lparr>rs_ring := (rs_ring s)\<lparr>cb_buf := buf, cb_head := h'\<rparr>, rs_prod := P_idle, rs_sent := rs_sent s @ take ?n xs\<rparr> =
        s\<lparr>rs_ring := c', rs_sent := rs_sent s @ take (unat (scast r :: u64)) xs\<rparr>"
      using r True l assms(1) by (cases s) (simp add: produce_raw_def)
    show ?thesis using steps_between [OF a b c] unfolding e .
  qed
qed

lemma c_loop_steps:
  "rs_cons s = C_copy got n t \<Longrightarrow> consume_loop count n (cb_buf (rs_ring s)) t = (out, t') \<Longrightarrow>
   (ring_step count)\<^sup>*\<^sup>* s (s\<lparr>rs_cons := C_copy (got @ out) 0 t'\<rparr>)"
proof (induction n arbitrary: s got t out)
  case (Suc n)
  let ?x = "cb_buf (rs_ring s) (unat t)"
  let ?s = "s\<lparr>rs_cons := C_copy (got @ [?x]) n (circ_next t count)\<rparr>"
  obtain out' where o: "consume_loop count n (cb_buf (rs_ring s)) (circ_next t count) = (out', t')" "out = ?x # out'"
    using Suc.prems(2) by (auto split: prod.splits)
  have "ring_step count s ?s" using Suc.prems(1) by (rule c_load)
  moreover have "(ring_step count)\<^sup>*\<^sup>* ?s (s\<lparr>rs_cons := C_copy (got @ out) 0 t'\<rparr>)"
    using Suc.IH [of ?s "got @ [?x]" "circ_next t count" out'] o by simp
  ultimately show ?case by (rule converse_rtranclp_into_rtranclp)
next
  case 0
  then have "s\<lparr>rs_cons := C_copy (got @ out) 0 t'\<rparr> = s" by (cases s) simp
  then show ?case by simp
qed

lemma consume_is_steps:
  assumes "rs_cons s = C_idle" "room < 2 ^ 31" "consume count room (rs_ring s) = (out, c')"
  shows "(ring_step count)\<^sup>*\<^sup>* s (s\<lparr>rs_ring := c', rs_got := rs_got s @ out\<rparr>)"
proof -
  let ?n = "c_count count room (rs_ring s)" and ?t = "cb_tail (rs_ring s)"
  have r: "consume_raw count ?t ?n (rs_ring s) = (out, c')"
    using assms(3) by (simp add: consume_def c_count_def peek_items_def Let_def)
  show ?thesis
  proof (cases "1 \<le> ?n")
    case False
    then show ?thesis using assms(1) r by (cases s) (auto simp: consume_raw_def)
  next
    case True
    obtain t' where l: "consume_loop count ?n (cb_buf (rs_ring s)) ?t = (out, t')" "c' = (rs_ring s)\<lparr>cb_tail := t'\<rparr>"
      using r True by (auto simp: consume_raw_def split: prod.splits)
    let ?s1 = "s\<lparr>rs_cons := C_copy [] ?n ?t\<rparr>" and ?s2 = "s\<lparr>rs_cons := C_copy out 0 t'\<rparr>"
    have a: "ring_step count s ?s1" using c_peek [OF assms(1,2) refl True] by (simp add: peek_items_def)
    have b: "(ring_step count)\<^sup>*\<^sup>* ?s1 ?s2" using c_loop_steps [of ?s1 "[]" ?n ?t count out t'] l(1) by simp
    have c: "ring_step count ?s2 (s\<lparr>rs_ring := c', rs_cons := C_idle, rs_got := rs_got s @ out\<rparr>)"
      using c_publish [of ?s2 out t'] l(2) by simp
    have e: "s\<lparr>rs_ring := c', rs_cons := C_idle, rs_got := rs_got s @ out\<rparr> = s\<lparr>rs_ring := c', rs_got := rs_got s @ out\<rparr>"
      using assms(1) by (cases s) simp
    show ?thesis using steps_between [OF a b c] unfolding e .
  qed
qed

text \<open>
  C2. The ring is a queue for two processes that take no lock. Start from a ring at rest and let the producer and the consumer take
  their steps in any order, each with batches of any size. At every moment, what \<open>produce\<close> has accepted is what \<open>consume\<close> has delivered
  followed by what the ring holds, so that nothing is lost, doubled or reordered; the ring never holds more than its size less
  one; what the consumer has loaded so far is the front of the queue; and the producer never stores to the cell that the consumer
  is about to load.
\<close>

theorem concurrent_ring_is_fifo:
  assumes "(ring_step (2 ^ k))\<^sup>*\<^sup>* (ring_start k c) s" "ring_inv k c"
  shows "rs_sent s = rs_got s @ ring_items k (rs_ring s) \<and> length (ring_items k (rs_ring s)) \<le> 2 ^ k - 1 \<and>
    (\<forall>out n t. rs_cons s = C_copy out n t \<longrightarrow> (\<exists>rest. ring_items k (rs_ring s) = out @ rest \<and> n \<le> length rest)) \<and>
    (\<forall>b x xs h out n t. rs_prod s = P_copy b (x # xs) h \<longrightarrow> rs_cons s = C_copy out (Suc n) t \<longrightarrow> h \<noteq> t)"
proof -
  have inv: "sys_inv k s" by (rule ring_steps_inv [OF assms(1)]) (use assms(2) in \<open>simp add: sys_inv_def ring_start_def\<close>)
  let ?c = "rs_ring s"
  have len: "ring_len k ?c \<le> 2 ^ k - 1" using ring_len_less [of k ?c] by linarith
  have front: "\<exists>rest. ring_items k ?c = out @ rest \<and> n \<le> length rest" if "rs_cons s = C_copy out n t" for out n t
  proof -
    have "out = take (length out) (ring_items k ?c)" "length out + n \<le> ring_len k ?c" using inv that by (auto simp: sys_inv_def)
    then have "ring_items k ?c = out @ drop (length out) (ring_items k ?c)" "n \<le> length (drop (length out) (ring_items k ?c))"
      using append_take_drop_id [of "length out" "ring_items k ?c"] by simp_all
    then show ?thesis by blast
  qed
  have race: "h \<noteq> t" if p: "rs_prod s = P_copy b (x # xs) h" and q: "rs_cons s = C_copy out (Suc n) t" for b x xs h out n t
  proof -
    obtain stored where st: "b = stored @ x # xs" "ring_len k ?c + length b < 2 ^ k" "unat h = (unat (cb_head ?c) + length stored) mod 2 ^ k"
      using inv p by (auto simp: sys_inv_def)
    have "length out < ring_len k ?c" "unat t = (unat (cb_tail ?c) + length out) mod 2 ^ k" using inv q by (auto simp: sys_inv_def)
    then have "unat t \<noteq> unat h" using free_cell [of k ?c "length stored" "length out"] inv st by (simp add: sys_inv_def)
    then show ?thesis by auto
  qed
  show ?thesis using inv len front race by (auto simp: sys_inv_def)
qed

text \<open>A ring of four cells: two elements are accepted and one is delivered.\<close>

definition sample_ring :: "nat cmdbuf" where
  "sample_ring = \<lparr>cb_buf = (\<lambda>_. 0), cb_head = 3, cb_tail = 3\<rparr>"

theorem concurrent_ring_is_fifo_witness:
  "\<exists>s. (ring_step (2 ^ 2))\<^sup>*\<^sup>* (ring_start 2 sample_ring) s \<and> rs_sent s = [7, 8] \<and> rs_got s = [7] \<and> ring_items 2 (rs_ring s) = [8]"
proof -
  have inv: "ring_inv 2 sample_ring" by (simp add: ring_inv_def sample_ring_def)
  have e: "ring_items 2 sample_ring = []" by (simp add: ring_items_def ring_len_def sample_ring_def)
  obtain r c1 where p: "produce (2 ^ 2) [7, 8] sample_ring = (r, c1)" by fastforce
  note ps = produce_spec [OF inv _ p, simplified e]
  have r: "unat r = 2" "unat (scast r :: u64) = 2"
    using ps(2) p_count_n [OF inv, of "[7, 8]"] p e by (simp_all add: produce_def p_count_def peek_space_def Let_def flip: length_ring_items)
  let ?s1 = "(ring_start 2 sample_ring)\<lparr>rs_ring := c1, rs_sent := [7, 8]\<rparr>"
  have s1: "(ring_step (2 ^ 2))\<^sup>*\<^sup>* (ring_start 2 sample_ring) ?s1"
    using produce_is_steps [of "ring_start 2 sample_ring" "[7, 8]" "2 ^ 2" r c1] p r e by (simp add: ring_start_def)
  have c1: "ring_inv 2 c1" "ring_items 2 c1 = [7, 8]" using ps r by simp_all
  obtain out c2 where q: "consume (2 ^ 2) 1 c1 = (out, c2)" by fastforce
  have "out = [7]" using consume_spec(2) [OF c1(1) _ q] c1(2) by simp
  then have "(ring_step (2 ^ 2))\<^sup>*\<^sup>* ?s1 (?s1\<lparr>rs_ring := c2, rs_got := [7]\<rparr>)"
    using consume_is_steps [of ?s1 1 "2 ^ 2" out c2] q by (simp add: ring_start_def)
  with s1 have run: "(ring_step (2 ^ 2))\<^sup>*\<^sup>* (ring_start 2 sample_ring) (?s1\<lparr>rs_ring := c2, rs_got := [7]\<rparr>)" by (rule rtranclp_trans)
  from concurrent_ring_is_fifo [OF this inv] have "ring_items 2 c2 = [8]" by simp
  then show ?thesis using run by (intro exI [of _ "?s1\<lparr>rs_ring := c2, rs_got := [7]\<rparr>"]) simp
qed

end
