(* ===== verification/LbaCache.thy ===== *)
theory LbaCache
  imports NvmeCore
begin

text \<open>
  The translation cache the classifier program runs on the I/O path (\<open>lbacache.hpp\<close>): a 4-way
  set-associative map from virtual clusters to physical block addresses, with bit-PLRU
  replacement, and the request handlers that use it. The maps of the kernel are the arrays of
  \<open>lbacache-polyfill.hpp\<close>; every index the code forms is in range, so a lookup always succeeds.
\<close>

section \<open>Geometry and bit layout\<close>

definition CLUSTER_SIZE :: u64 where "CLUSTER_SIZE = 65536"
definition LBA_SIZE :: u64 where "LBA_SIZE = 512"
definition CLUSTER_LBAS :: u64 where "CLUSTER_LBAS = CLUSTER_SIZE div LBA_SIZE"
definition XCACHE_ASSOC :: nat where "XCACHE_ASSOC = 4"
definition XCACHE_LINES :: nat where "XCACHE_LINES = 65536"

definition AUXBITS_VALID :: u32 where "AUXBITS_VALID = 0x1"
definition AUXBITS_WRITABLE :: u32 where "AUXBITS_WRITABLE = 0x2"
definition AUXCMD_KEEP :: u32 where "AUXCMD_KEEP = 0x40000000"
definition AUXCMD_FORWARD :: u32 where "AUXCMD_FORWARD = 0x20000000"
definition AUX_MASK :: u32 where "AUX_MASK = 0x3"
definition AUX_SHIFT :: nat where "AUX_SHIFT = 3"
definition AUX_MAX_ASSOC :: nat where "AUX_MAX_ASSOC = 8"

definition META_MRU :: u32 where "META_MRU = 0x1000000"
definition META_MRU_MASK :: u32 where
  "META_MRU_MASK = push_bit 24 (push_bit XCACHE_ASSOC 1 - 1)"

definition AUX_IS_VALID :: "u32 \<Rightarrow> nat \<Rightarrow> bool" where
  "AUX_IS_VALID meta i \<longleftrightarrow> meta AND push_bit (i * AUX_SHIFT) AUXBITS_VALID \<noteq> 0"

definition AUX_GET :: "u32 \<Rightarrow> nat \<Rightarrow> u32" where
  "AUX_GET meta i = drop_bit (i * AUX_SHIFT) meta AND AUX_MASK"

text \<open>The parts of a virtual block address (\<open>VLBA_RESOLVE\<close>).\<close>

definition vlba_vblk :: "u64 \<Rightarrow> u64" where "vlba_vblk vlba = vlba div CLUSTER_LBAS"
definition vlba_off :: "u64 \<Rightarrow> u64" where "vlba_off vlba = vlba mod CLUSTER_LBAS"
definition vblk_tag :: "u64 \<Rightarrow> u64" where "vblk_tag vblk = vblk div of_nat XCACHE_LINES"
definition vblk_idx :: "u64 \<Rightarrow> nat" where "vblk_idx vblk = unat (vblk mod of_nat XCACHE_LINES)"

lemmas cache_consts =
  CLUSTER_SIZE_def LBA_SIZE_def CLUSTER_LBAS_def XCACHE_ASSOC_def XCACHE_LINES_def
  AUXBITS_VALID_def AUXBITS_WRITABLE_def AUX_MASK_def AUX_SHIFT_def

section \<open>The cache\<close>

record lba_cache =
  cache_tag :: "nat \<Rightarrow> u64"
  cache_plba :: "nat \<Rightarrow> u64"
  cache_meta :: "nat \<Rightarrow> u32"

definition empty_cache :: lba_cache where
  "empty_cache = \<lparr>cache_tag = (\<lambda>_. 0), cache_plba = (\<lambda>_. 0), cache_meta = (\<lambda>_. 0)\<rparr>"

definition cache_ci :: "nat \<Rightarrow> nat \<Rightarrow> nat" where
  "cache_ci idx i = idx * XCACHE_ASSOC + i"

text \<open>The search loop of \<open>lba_lookup\<close> and \<open>lba_update\<close>: the first valid way with the tag.\<close>

definition find_way :: "lba_cache \<Rightarrow> nat \<Rightarrow> u64 \<Rightarrow> nat option" where
  "find_way c idx tag =
     find (\<lambda>i. AUX_IS_VALID (cache_meta c idx) i \<and> cache_tag c (cache_ci idx i) = tag)
       [0..<XCACHE_ASSOC]"

text \<open>Mark a way as most recently used; when every way is marked, keep only this mark.\<close>

definition mru_fix :: "u32 \<Rightarrow> nat \<Rightarrow> u32" where
  "mru_fix meta i =
     (if meta AND META_MRU_MASK = META_MRU_MASK
      then (meta AND NOT META_MRU_MASK) OR push_bit i META_MRU else meta)"

definition lba_lookup :: "u64 \<Rightarrow> u16 \<Rightarrow> lba_cache \<Rightarrow> u64 \<times> u32 \<times> lba_cache" where
  "lba_lookup vlba length0 c =
     (let vblk = vlba_vblk vlba; off = vlba_off vlba; tag = vblk_tag vblk; idx = vblk_idx vblk
      in if vblk \<noteq> vlba_vblk (vlba + ucast length0) then (U64_MAX, 0, c)
         else case find_way c idx tag of
                None \<Rightarrow> (U64_MAX, 0, c)
              | Some i \<Rightarrow>
                  let meta = mru_fix (cache_meta c idx OR push_bit i META_MRU) i
                  in (cache_plba c (cache_ci idx i) + off, AUX_GET meta i,
                      c\<lparr>cache_meta := (cache_meta c)(idx := meta)\<rparr>))"

text \<open>
  The way an update writes: the one that holds the tag, else the first invalid one, else the
  first not recently used one, else way 0.
\<close>

definition update_way :: "lba_cache \<Rightarrow> nat \<Rightarrow> u64 \<Rightarrow> nat" where
  "update_way c idx tag =
     (case find_way c idx tag of
        Some i \<Rightarrow> i
      | None \<Rightarrow>
          (case find (\<lambda>i. \<not> AUX_IS_VALID (cache_meta c idx) i) [0..<XCACHE_ASSOC] of
             Some i \<Rightarrow> i
           | None \<Rightarrow>
               (case find (\<lambda>i. cache_meta c idx AND push_bit i META_MRU = 0) [0..<XCACHE_ASSOC] of
                  Some i \<Rightarrow> i
                | None \<Rightarrow> 0)))"

definition update_meta :: "u32 \<Rightarrow> nat \<Rightarrow> u32 \<Rightarrow> u32" where
  "update_meta meta i aux =
     mru_fix ((meta AND NOT (push_bit (i * AUX_SHIFT) AUX_MASK)) OR push_bit (i * AUX_SHIFT) aux
       OR push_bit i META_MRU) i"

definition lba_update :: "u64 \<Rightarrow> u64 \<Rightarrow> u32 \<Rightarrow> lba_cache \<Rightarrow> u64 \<times> lba_cache" where
  "lba_update vlba plba aux c =
     (let vblk = vlba_vblk vlba; off = vlba_off vlba; tag = vblk_tag vblk; idx = vblk_idx vblk;
          i = update_way c idx tag; ci = cache_ci idx i
      in (plba + off,
          c\<lparr>cache_tag := (cache_tag c)(ci := tag), cache_plba := (cache_plba c)(ci := plba),
            cache_meta := (cache_meta c)(idx := update_meta (cache_meta c idx) i aux)\<rparr>))"

text \<open>One line of a flush: drop every valid way that holds the tag.\<close>

definition flush_line_meta :: "lba_cache \<Rightarrow> nat \<Rightarrow> u64 \<Rightarrow> u32" where
  "flush_line_meta c idx tag =
     fold (\<lambda>i meta. if AUX_IS_VALID meta i \<and> cache_tag c (cache_ci idx i) = tag
                     then meta AND NOT (push_bit (i * AUX_SHIFT) AUXBITS_VALID) else meta)
       [0..<XCACHE_ASSOC] (cache_meta c idx)"

function flush_loop :: "nat \<Rightarrow> u64 \<Rightarrow> int \<Rightarrow> lba_cache \<Rightarrow> lba_cache" where
  "flush_loop idx tag rest c =
     (if 0 < rest
      then flush_loop ((idx + 1) mod XCACHE_LINES) tag (rest - 128)
             (c\<lparr>cache_meta := (cache_meta c)(idx := flush_line_meta c idx tag)\<rparr>)
      else c)"
  by pat_completeness auto
termination
  by (relation "measure (\<lambda>(idx, tag, rest, c). nat rest)") auto

declare flush_loop.simps [simp del]

definition lba_flush_range :: "u64 \<Rightarrow> u16 \<Rightarrow> lba_cache \<Rightarrow> lba_cache" where
  "lba_flush_range vlba length0 c =
     (let vblk = vlba_vblk vlba
      in if vblk \<noteq> vlba_vblk (vlba + ucast length0) then c
         else flush_loop (vblk_idx vblk) (vblk_tag vblk) (uint length0 + 1) c)"

definition clear_mask :: "u32 \<Rightarrow> u32" where
  "clear_mask aux = NOT (fold (\<lambda>i m. m OR push_bit (i * AUX_SHIFT) aux) [0..<AUX_MAX_ASSOC] 0)"

definition lba_clear_flag_all :: "u32 \<Rightarrow> lba_cache \<Rightarrow> int \<times> lba_cache" where
  "lba_clear_flag_all aux c =
     (int XCACHE_LINES,
      c\<lparr>cache_meta := (\<lambda>i. if i < XCACHE_LINES then cache_meta c i AND clear_mask aux
                             else cache_meta c i)\<rparr>)"

section \<open>The request handlers\<close>

definition NMBPF_HOOK_VSQ :: u32 where "NMBPF_HOOK_VSQ = push_bit 16 1"
definition NMBPF_HOOK_NFD_WRITE :: u32 where "NMBPF_HOOK_NFD_WRITE = push_bit 18 1"
definition NMBPF_SEND_HQ :: u32 where "NMBPF_SEND_HQ = push_bit 22 1"
definition NMBPF_SEND_FD :: u32 where "NMBPF_SEND_FD = push_bit 23 1"
definition NMBPF_WILL_COMPLETE_HQ :: u32 where "NMBPF_WILL_COMPLETE_HQ = push_bit 28 1"
definition NMBPF_WILL_COMPLETE_FD :: u32 where "NMBPF_WILL_COMPLETE_FD = push_bit 28 2"
definition NMBPF_WAIT_FOR_HOOK :: u32 where "NMBPF_WAIT_FOR_HOOK = push_bit 28 7"

record bpf_io_ctx =
  ctx_cmd :: nvme_command
  ctx_sqid :: u32
  ctx_current_hook :: u32
  ctx_iostate :: u32
  ctx_data :: u32
  ctx_aux :: nmntfy_aux

definition nm_do_rw :: "bpf_io_ctx \<Rightarrow> lba_cache \<Rightarrow> u32 \<times> bpf_io_ctx \<times> lba_cache" where
  "nm_do_rw ctx c =
     (let slba = rw_slba (ctx_cmd ctx); length0 = rw_length (ctx_cmd ctx)
      in case lba_lookup slba length0 c of (val, aux, c') \<Rightarrow>
           if val \<noteq> U64_MAX \<and> (opcode (ctx_cmd ctx) = nvme_cmd_read \<or> aux AND AUXBITS_WRITABLE \<noteq> 0)
           then (NMBPF_SEND_HQ OR NMBPF_WILL_COMPLETE_HQ,
                 ctx\<lparr>ctx_cmd := set_rw_slba val (ctx_cmd ctx)\<rparr>, c')
           else (NMBPF_SEND_FD OR NMBPF_HOOK_NFD_WRITE OR NMBPF_WAIT_FOR_HOOK, ctx,
                 if opcode (ctx_cmd ctx) \<noteq> nvme_cmd_read then lba_flush_range slba length0 c' else c'))"

definition nm_on_rw_respond :: "bpf_io_ctx \<Rightarrow> lba_cache \<Rightarrow> u32 \<times> bpf_io_ctx \<times> lba_cache" where
  "nm_on_rw_respond ctx c =
     (let a = ctx_aux ctx; cmd = ctx_cmd ctx
      in if aux0 a AND AUXBITS_VALID \<noteq> 0
         then let val = ucast (aux1 a) OR push_bit 32 (ucast (aux2 a)) :: u64
              in case lba_update (rw_slba cmd) (val div CLUSTER_SIZE * CLUSTER_LBAS)
                        (aux0 a AND AUX_MASK) c of (plba, c') \<Rightarrow>
                   if plba = U64_MAX then (ucast (NVME_SC_DNR OR NVME_SC_INTERNAL), ctx, c')
                   else if aux0 a AND AUXCMD_FORWARD \<noteq> 0
                   then (NMBPF_SEND_HQ OR NMBPF_WILL_COMPLETE_HQ,
                         ctx\<lparr>ctx_cmd := set_rw_slba plba cmd\<rparr>, c')
                   else (ctx_data ctx, ctx, c')
         else (ctx_data ctx, ctx,
               if aux0 a AND AUXCMD_KEEP = 0 then lba_flush_range (rw_slba cmd) (rw_length cmd) c else c))"

definition nvme_run_bpf :: "bpf_io_ctx \<Rightarrow> lba_cache \<Rightarrow> u32 \<times> bpf_io_ctx \<times> lba_cache" where
  "nvme_run_bpf ctx c =
     (let cmd = ctx_cmd ctx
      in if flags cmd AND NVME_CMD_SGL_ALL \<noteq> 0
         then (ucast (NVME_SC_DNR OR NVME_SC_INVALID_OPCODE), ctx, c)
         else if opcode cmd = nvme_cmd_read \<or> opcode cmd = nvme_cmd_write \<or>
                 opcode cmd = nvme_cmd_write_zeroes
         then (if ctx_current_hook ctx = NMBPF_HOOK_VSQ then nm_do_rw ctx c
               else if ctx_current_hook ctx = NMBPF_HOOK_NFD_WRITE then nm_on_rw_respond ctx c
               else (NMBPF_SEND_HQ OR NMBPF_WILL_COMPLETE_HQ, ctx, c))
         else if opcode cmd = 0x81
         then (case lba_clear_flag_all AUXBITS_WRITABLE c of (ret, c') \<Rightarrow>
                 if ret < 0 then (ucast (NVME_SC_DNR OR NVME_SC_INTERNAL), ctx, c')
                 else if ret \<noteq> int XCACHE_LINES then (ucast NVME_SC_INTERNAL, ctx, c')
                 else (NMBPF_SEND_FD OR NMBPF_WILL_COMPLETE_FD, ctx, c'))
         else (NMBPF_SEND_HQ OR NMBPF_WILL_COMPLETE_HQ, ctx, c))"

section \<open>Facts about the metadata bits\<close>

lemma AUX_IS_VALID_bit: "AUX_IS_VALID meta i \<longleftrightarrow> bit meta (3 * i)"
  by (simp add: AUX_IS_VALID_def AUXBITS_VALID_def AUX_SHIFT_def mult.commute
      and_exp_eq_0_iff_not_bit)

lemma META_MRU_exp: "META_MRU = push_bit 24 1"
  by (simp add: META_MRU_def)

lemma META_MRU_push: "push_bit i META_MRU = 2 ^ (i + 24)"
  unfolding META_MRU_exp unfolding push_bit_push_bit unfolding push_bit_of_1 by (rule refl)

lemma META_MRU_bit: "meta AND push_bit i META_MRU = 0 \<longleftrightarrow> \<not> bit meta (i + 24)"
  unfolding META_MRU_push by (rule and_exp_eq_0_iff_not_bit)

lemma bit_META_MRU_push: "bit (push_bit i META_MRU) n \<longleftrightarrow> n = i + 24 \<and> n < 32"
  unfolding META_MRU_push by (auto simp: bit_exp_iff)

lemma bit_META_MRU: "bit META_MRU n \<longleftrightarrow> n = 24"
  using bit_META_MRU_push [of 0 n] by auto

lemma bit_META_MRU_MASK: "bit META_MRU_MASK n \<longleftrightarrow> 24 \<le> n \<and> n < 28"
proof -
  have mask: "push_bit XCACHE_ASSOC 1 - 1 = (mask 4 :: u32)"
    by (simp add: XCACHE_ASSOC_def mask_eq_exp_minus_1)
  show ?thesis unfolding META_MRU_MASK_def mask by (auto simp: bit_simps)
qed

lemma bit_AUX_MASK: "bit AUX_MASK n \<longleftrightarrow> n < 2"
proof -
  have mask: "AUX_MASK = mask 2" by (simp add: AUX_MASK_def mask_eq_exp_minus_1)
  show ?thesis unfolding mask by (auto simp: bit_simps)
qed

lemma bit_AUX_GET: "bit (AUX_GET meta i) n \<longleftrightarrow> n < 2 \<and> bit meta (3 * i + n)"
  by (auto simp: AUX_GET_def AUX_SHIFT_def bit_AUX_MASK bit_simps mult.commute)

lemmas meta_bits = bit_META_MRU_push bit_META_MRU_MASK bit_AUX_MASK bit_and_iff bit_or_iff
  bit_not_iff

definition all_mru :: "u32 \<Rightarrow> bool" where
  "all_mru m \<longleftrightarrow> m AND META_MRU_MASK = META_MRU_MASK"

lemma all_mru_iff: "all_mru m \<longleftrightarrow> (\<forall>n. 24 \<le> n \<and> n < 28 \<longrightarrow> bit m n)"
proof
  assume "all_mru m"
  then have "bit (m AND META_MRU_MASK) n \<longleftrightarrow> bit META_MRU_MASK n" for n
    by (simp add: all_mru_def)
  then show "\<forall>n. 24 \<le> n \<and> n < 28 \<longrightarrow> bit m n" by (auto simp: meta_bits)
next
  assume "\<forall>n. 24 \<le> n \<and> n < 28 \<longrightarrow> bit m n"
  then show "all_mru m" unfolding all_mru_def by (intro bit_word_eqI) (auto simp: meta_bits)
qed

lemma bit_mru_fix_low: "n < 24 \<Longrightarrow> bit (mru_fix m i) n \<longleftrightarrow> bit m n"
  by (auto simp: mru_fix_def meta_bits dest: bit_imp_le_length)

lemma mru_fix_not_all:
  assumes "i < 4"
  shows "\<not> all_mru (mru_fix m i)"
proof (cases "all_mru m")
  case True
  obtain j where j: "24 \<le> j" "j < 28" "j \<noteq> i + 24"
    by (rule that [of "if i = 0 then 25 else 24"]) auto
  have "\<not> bit (mru_fix m i) j"
    using True j by (simp add: mru_fix_def all_mru_def meta_bits)
  with j show ?thesis by (auto simp: all_mru_iff)
next
  case False
  then show ?thesis by (simp add: mru_fix_def all_mru_def)
qed

section \<open>The cache as a finite map\<close>

text \<open>
  A way of a line holds a tag when it is valid and stores it. The map a cache represents sends a
  virtual cluster to the block address and the flags of the way that holds it.
\<close>

definition way_holds :: "lba_cache \<Rightarrow> nat \<Rightarrow> u64 \<Rightarrow> nat \<Rightarrow> bool" where
  "way_holds c idx tag i \<longleftrightarrow> AUX_IS_VALID (cache_meta c idx) i \<and> cache_tag c (cache_ci idx i) = tag"

definition cache_abs :: "lba_cache \<Rightarrow> u64 \<Rightarrow> (u64 \<times> u32) option" where
  "cache_abs c vblk =
     map_option (\<lambda>i. (cache_plba c (cache_ci (vblk_idx vblk) i), AUX_GET (cache_meta c (vblk_idx vblk)) i))
       (find_way c (vblk_idx vblk) (vblk_tag vblk))"

text \<open>No line holds a tag twice, and no line has all its ways marked as recently used.\<close>

definition cache_inv :: "lba_cache \<Rightarrow> bool" where
  "cache_inv c \<longleftrightarrow>
     (\<forall>idx tag i j. i < XCACHE_ASSOC \<longrightarrow> j < XCACHE_ASSOC \<longrightarrow>
        way_holds c idx tag i \<longrightarrow> way_holds c idx tag j \<longrightarrow> i = j) \<and>
     (\<forall>idx. \<not> all_mru (cache_meta c idx))"

lemma cache_inv_uniqueD:
  "cache_inv c \<Longrightarrow> way_holds c idx tag i \<Longrightarrow> way_holds c idx tag j \<Longrightarrow> i < XCACHE_ASSOC \<Longrightarrow>
   j < XCACHE_ASSOC \<Longrightarrow> i = j"
  unfolding cache_inv_def by blast

lemma cache_inv_mruD: "cache_inv c \<Longrightarrow> \<not> all_mru (cache_meta c idx)"
  unfolding cache_inv_def by blast

lemma find_way_SomeD:
  assumes "find_way c idx tag = Some i"
  shows "i < XCACHE_ASSOC" and "way_holds c idx tag i"
  using assms by (auto simp: find_way_def find_Some_iff way_holds_def)

lemma find_way_None_iff:
  "find_way c idx tag = None \<longleftrightarrow> (\<forall>i < XCACHE_ASSOC. \<not> way_holds c idx tag i)"
  by (auto simp: find_way_def find_None_iff way_holds_def)

lemma find_way_Some_iff:
  assumes "cache_inv c"
  shows "find_way c idx tag = Some i \<longleftrightarrow> i < XCACHE_ASSOC \<and> way_holds c idx tag i"
proof
  assume "i < XCACHE_ASSOC \<and> way_holds c idx tag i"
  then have i: "i < XCACHE_ASSOC" "way_holds c idx tag i" by auto
  then have "find_way c idx tag \<noteq> None" by (auto simp: find_way_None_iff)
  then obtain j where j: "find_way c idx tag = Some j" by blast
  note jd = find_way_SomeD [OF j]
  show "find_way c idx tag = Some i"
    using j cache_inv_uniqueD [OF assms jd(2) i(2) jd(1) i(1)] by simp
qed (use find_way_SomeD in blast)

lemma cache_abs_Some_iff:
  assumes "cache_inv c"
  shows "cache_abs c v = Some (p, a) \<longleftrightarrow>
    (\<exists>i < XCACHE_ASSOC. way_holds c (vblk_idx v) (vblk_tag v) i \<and>
       cache_plba c (cache_ci (vblk_idx v) i) = p \<and> AUX_GET (cache_meta c (vblk_idx v)) i = a)"
  by (auto simp: cache_abs_def find_way_Some_iff [OF assms])

lemma cache_abs_None_iff:
  "cache_abs c v = None \<longleftrightarrow> (\<forall>i < XCACHE_ASSOC. \<not> way_holds c (vblk_idx v) (vblk_tag v) i)"
  by (auto simp: cache_abs_def find_way_None_iff)

text \<open>The index and the tag determine the cluster.\<close>

lemma vblk_idx_less: "vblk_idx v < XCACHE_LINES"
proof -
  have "v mod of_nat XCACHE_LINES < of_nat XCACHE_LINES"
    by (rule word_mod_less_divisor) (simp add: XCACHE_LINES_def)
  then show ?thesis by (simp add: vblk_idx_def XCACHE_LINES_def word_less_nat_alt)
qed

lemma vblk_split: "v = vblk_tag v * of_nat XCACHE_LINES + of_nat (vblk_idx v)"
  unfolding vblk_tag_def vblk_idx_def
  by (simp only: of_nat_unat ucast_id word_mod_div_equality)

lemma vblk_eqI: "vblk_tag v = vblk_tag w \<Longrightarrow> vblk_idx v = vblk_idx w \<Longrightarrow> v = w"
  using vblk_split [of v] vblk_split [of w] by simp

lemma cache_ci_inject:
  assumes "i < XCACHE_ASSOC" "j < XCACHE_ASSOC"
  shows "cache_ci idx i = cache_ci idx' j \<longleftrightarrow> idx = idx' \<and> i = j"
proof
  assume "cache_ci idx i = cache_ci idx' j"
  then have "idx * 4 + i = idx' * 4 + j" by (simp add: cache_ci_def XCACHE_ASSOC_def)
  moreover have "i < 4" "j < 4" using assms by (simp_all add: XCACHE_ASSOC_def)
  ultimately show "idx = idx' \<and> i = j" by presburger
qed simp

section \<open>Lookups\<close>

text \<open>A change of the marks alone leaves the map as it is.\<close>

lemma way_holds_same:
  assumes "cache_tag c' = cache_tag c" "\<And>n. n < 24 \<Longrightarrow> bit (cache_meta c' idx) n = bit (cache_meta c idx) n"
    and "i < XCACHE_ASSOC"
  shows "way_holds c' idx tag i = way_holds c idx tag i"
  using assms by (simp add: way_holds_def AUX_IS_VALID_bit XCACHE_ASSOC_def)

lemma AUX_GET_low:
  assumes "\<And>n. n < 24 \<Longrightarrow> bit m' n = bit m n" "i < XCACHE_ASSOC"
  shows "AUX_GET m' i = AUX_GET m i"
  using assms by (intro bit_word_eqI) (auto simp: bit_AUX_GET XCACHE_ASSOC_def)

lemma cache_abs_low:
  assumes "cache_tag c' = cache_tag c" "cache_plba c' = cache_plba c"
    and low: "\<And>idx n. n < 24 \<Longrightarrow> bit (cache_meta c' idx) n = bit (cache_meta c idx) n"
  shows "cache_abs c' = cache_abs c"
proof
  fix v
  have "find_way c' (vblk_idx v) (vblk_tag v) = find_way c (vblk_idx v) (vblk_tag v)"
    unfolding find_way_def
    by (rule find_cong) (use way_holds_same [OF assms(1) low] in \<open>auto simp: way_holds_def\<close>)
  moreover have "i < XCACHE_ASSOC \<Longrightarrow>
      AUX_GET (cache_meta c' (vblk_idx v)) i = AUX_GET (cache_meta c (vblk_idx v)) i" for i
    by (rule AUX_GET_low) (use low in auto)
  ultimately show "cache_abs c' v = cache_abs c v"
    using assms(2) find_way_SomeD(1) [of c "vblk_idx v" "vblk_tag v"]
    by (cases "find_way c (vblk_idx v) (vblk_tag v)") (simp_all add: cache_abs_def)
qed

lemma cache_inv_low:
  assumes "cache_inv c" "cache_tag c' = cache_tag c"
    and low: "\<And>idx n. n < 24 \<Longrightarrow> bit (cache_meta c' idx) n = bit (cache_meta c idx) n"
    and "\<And>idx. \<not> all_mru (cache_meta c' idx)"
  shows "cache_inv c'"
proof -
  have same: "i < XCACHE_ASSOC \<Longrightarrow> way_holds c' idx tag i = way_holds c idx tag i" for idx tag i
    by (rule way_holds_same [OF assms(2) low])
  show ?thesis
    unfolding cache_inv_def using same cache_inv_uniqueD [OF assms(1)] assms(4) by simp
qed

definition touch_meta :: "u32 \<Rightarrow> nat \<Rightarrow> u32" where
  "touch_meta meta i = mru_fix (meta OR push_bit i META_MRU) i"

lemma bit_touch_low: "n < 24 \<Longrightarrow> bit (touch_meta meta i) n = bit meta n"
  by (auto simp: touch_meta_def bit_mru_fix_low meta_bits)

lemma touch_not_all: "i < XCACHE_ASSOC \<Longrightarrow> \<not> all_mru (touch_meta meta i)"
  by (simp add: touch_meta_def mru_fix_not_all XCACHE_ASSOC_def)

lemma bit_mru_fix_own: "bit m (i + 24) \<Longrightarrow> i < XCACHE_ASSOC \<Longrightarrow> bit (mru_fix m i) (i + 24)"
  by (auto simp: mru_fix_def meta_bits XCACHE_ASSOC_def)

definition in_cluster :: "u64 \<Rightarrow> u16 \<Rightarrow> bool" where
  "in_cluster vlba length0 \<longleftrightarrow> vlba_vblk vlba = vlba_vblk (vlba + ucast length0)"

lemma lba_lookup_cases:
  "lba_lookup vlba length0 c =
     (if \<not> in_cluster vlba length0 then (U64_MAX, 0, c)
      else let vblk = vlba_vblk vlba; idx = vblk_idx vblk in
        case find_way c idx (vblk_tag vblk) of
          None \<Rightarrow> (U64_MAX, 0, c)
        | Some i \<Rightarrow> (cache_plba c (cache_ci idx i) + vlba_off vlba, AUX_GET (cache_meta c idx) i,
                     c\<lparr>cache_meta := (cache_meta c)(idx := touch_meta (cache_meta c idx) i)\<rparr>))"
proof (cases "find_way c (vblk_idx (vlba_vblk vlba)) (vblk_tag (vlba_vblk vlba))")
  case (Some i)
  then have "i < XCACHE_ASSOC" by (rule find_way_SomeD(1))
  then have "AUX_GET (touch_meta m i) i = AUX_GET m i" for m
    by (intro AUX_GET_low bit_touch_low) auto
  with Some show ?thesis
    unfolding lba_lookup_def Let_def in_cluster_def [symmetric] touch_meta_def by simp
next
  case None
  then show ?thesis
    unfolding lba_lookup_def Let_def in_cluster_def [symmetric] by simp
qed

lemma lba_lookup_result:
  assumes "in_cluster vlba length0" and "lba_lookup vlba length0 c = (val, ax, c')"
  shows "(val, ax) = (case cache_abs c (vlba_vblk vlba) of
                        None \<Rightarrow> (U64_MAX, 0) | Some (p, a) \<Rightarrow> (p + vlba_off vlba, a))"
  using assms by (auto simp: lba_lookup_cases cache_abs_def Let_def split: option.splits)

lemma lba_lookup_crossing:
  "\<not> in_cluster vlba length0 \<Longrightarrow> lba_lookup vlba length0 c = (U64_MAX, 0, c)"
  by (simp add: lba_lookup_cases)

lemma lba_lookup_abs:
  assumes "lba_lookup vlba length0 c = (val, ax, c')"
  shows "cache_abs c' = cache_abs c"
  using assms
  by (auto simp: lba_lookup_cases Let_def bit_touch_low split: if_splits option.splits
      intro!: cache_abs_low)

lemma lba_lookup_inv:
  assumes "lba_lookup vlba length0 c = (val, ax, c')" "cache_inv c"
  shows "cache_inv c'"
proof (cases "c' = c")
  case False
  then obtain i where i: "find_way c (vblk_idx (vlba_vblk vlba)) (vblk_tag (vlba_vblk vlba)) = Some i"
    and c': "c' = c\<lparr>cache_meta := (cache_meta c)(vblk_idx (vlba_vblk vlba) :=
                      touch_meta (cache_meta c (vblk_idx (vlba_vblk vlba))) i)\<rparr>"
    using assms(1) by (auto simp: lba_lookup_cases Let_def split: if_splits option.splits)
  show ?thesis
    by (rule cache_inv_low [OF assms(2)])
      (use c' cache_inv_mruD [OF assms(2)] touch_not_all [OF find_way_SomeD(1) [OF i]]
        in \<open>auto simp: bit_touch_low\<close>)
qed (use assms in simp)

section \<open>Updates\<close>

lemma update_way_less: "update_way c idx tag < XCACHE_ASSOC"
proof -
  have "find P [0..<XCACHE_ASSOC] = Some i \<Longrightarrow> i < XCACHE_ASSOC" for P i
    by (auto simp: find_Some_iff)
  then show ?thesis
    by (auto simp: update_way_def XCACHE_ASSOC_def split: option.split dest: find_way_SomeD(1))
qed

text \<open>
  The victim of an update that finds neither its tag nor a free way is a way without a mark: the
  last resort of the code, way 0, is never taken.
\<close>

lemma update_way_victim:
  assumes "cache_inv c" "find_way c idx tag = None"
    and "\<And>i. i < XCACHE_ASSOC \<Longrightarrow> AUX_IS_VALID (cache_meta c idx) i"
  shows "\<not> bit (cache_meta c idx) (update_way c idx tag + 24)"
proof -
  let ?free = "\<lambda>i. cache_meta c idx AND push_bit i META_MRU = 0"
  have "find (\<lambda>i. \<not> AUX_IS_VALID (cache_meta c idx) i) [0..<XCACHE_ASSOC] = None"
    using assms(3) by (auto simp: find_None_iff)
  moreover have "\<not> (\<forall>i < XCACHE_ASSOC. \<not> ?free i)"
  proof
    assume all: "\<forall>i < XCACHE_ASSOC. \<not> ?free i"
    have "bit (cache_meta c idx) n" if "24 \<le> n" "n < 28" for n
      using all [rule_format, of "n - 24"] that by (simp add: META_MRU_bit XCACHE_ASSOC_def)
    then show False using cache_inv_mruD [OF assms(1), of idx] by (auto simp: all_mru_iff)
  qed
  then obtain i where i: "find ?free [0..<XCACHE_ASSOC] = Some i"
    by (cases "find ?free [0..<XCACHE_ASSOC]") (auto simp: find_None_iff)
  moreover have "?free i" using i by (auto simp: find_Some_iff)
  ultimately show ?thesis
    using assms(2) by (simp add: update_way_def META_MRU_bit)
qed

lemma update_way_free:
  assumes "find_way c idx tag = None" "i < XCACHE_ASSOC" "\<not> AUX_IS_VALID (cache_meta c idx) i"
  shows "\<not> AUX_IS_VALID (cache_meta c idx) (update_way c idx tag)"
proof -
  let ?P = "\<lambda>i. \<not> AUX_IS_VALID (cache_meta c idx) i"
  obtain j where j: "find ?P [0..<XCACHE_ASSOC] = Some j"
    using assms(2,3) by (cases "find ?P [0..<XCACHE_ASSOC]") (auto simp: find_None_iff)
  moreover have "?P j" using j by (auto simp: find_Some_iff)
  ultimately show ?thesis using assms(1) by (simp add: update_way_def)
qed

lemma bit_update_meta_low:
  assumes "i < XCACHE_ASSOC" "ax AND AUX_MASK = ax" "n < 24"
  shows "bit (update_meta m i ax) n \<longleftrightarrow>
    (if 3 * i \<le> n \<and> n < 3 * i + 2 then bit ax (n - 3 * i) else bit m n)"
proof -
  have ax: "bit ax k \<Longrightarrow> k < 2" for k
    using assms(2) by (metis bit_AUX_MASK bit_and_iff)
  show ?thesis
    using assms
    by (auto simp: update_meta_def bit_mru_fix_low meta_bits bit_push_bit_iff AUX_SHIFT_def
        XCACHE_ASSOC_def bit_META_MRU mult.commute dest: ax)
qed

lemma update_meta_not_all: "i < XCACHE_ASSOC \<Longrightarrow> \<not> all_mru (update_meta m i ax)"
  by (simp add: update_meta_def mru_fix_not_all XCACHE_ASSOC_def)

lemma AUX_GET_update_own:
  assumes "i < XCACHE_ASSOC" "ax AND AUX_MASK = ax"
  shows "AUX_GET (update_meta m i ax) i = ax"
proof (rule bit_word_eqI)
  fix n
  have "bit ax n \<Longrightarrow> n < 2" using assms(2) by (metis bit_AUX_MASK bit_and_iff)
  then show "bit (AUX_GET (update_meta m i ax) i) n = bit ax n"
    using assms by (auto simp: bit_AUX_GET bit_update_meta_low XCACHE_ASSOC_def)
qed

lemma AUX_GET_update_other:
  assumes "i < XCACHE_ASSOC" "j < XCACHE_ASSOC" "i \<noteq> j" "ax AND AUX_MASK = ax"
  shows "AUX_GET (update_meta m i ax) j = AUX_GET m j"
  using assms by (intro bit_word_eqI) (auto simp: bit_AUX_GET bit_update_meta_low XCACHE_ASSOC_def)

definition update_at :: "nat \<Rightarrow> nat \<Rightarrow> u64 \<Rightarrow> u64 \<Rightarrow> u32 \<Rightarrow> lba_cache \<Rightarrow> lba_cache" where
  "update_at idx i tag plba ax c =
     c\<lparr>cache_tag := (cache_tag c)(cache_ci idx i := tag),
       cache_plba := (cache_plba c)(cache_ci idx i := plba),
       cache_meta := (cache_meta c)(idx := update_meta (cache_meta c idx) i ax)\<rparr>"

lemma update_at_fields [simp]:
  "cache_plba (update_at idx i tag plba ax c) = (cache_plba c)(cache_ci idx i := plba)"
  "cache_meta (update_at idx i tag plba ax c) = (cache_meta c)(idx := update_meta (cache_meta c idx) i ax)"
  by (simp_all add: update_at_def)

lemma lba_update_at:
  "lba_update vlba plba ax c =
     (let v = vlba_vblk vlba; idx = vblk_idx v
      in (plba + vlba_off vlba,
          update_at idx (update_way c idx (vblk_tag v)) (vblk_tag v) plba ax c))"
  by (simp add: lba_update_def update_at_def Let_def)

lemma way_holds_update_at:
  assumes "i < XCACHE_ASSOC" "j < XCACHE_ASSOC" "ax AND AUX_MASK = ax" "bit ax 0"
  shows "way_holds (update_at idx i tag plba ax c) idx' t j \<longleftrightarrow>
    (if idx' = idx \<and> j = i then t = tag else way_holds c idx' t j)"
proof -
  have "AUX_IS_VALID (update_meta (cache_meta c idx) i ax) j \<longleftrightarrow>
      (if j = i then True else AUX_IS_VALID (cache_meta c idx) j)"
    using assms by (auto simp: AUX_IS_VALID_bit bit_update_meta_low XCACHE_ASSOC_def)
  then show ?thesis
    using assms(1,2) by (auto simp: way_holds_def update_at_def cache_ci_inject)
qed

lemma update_at_inv:
  assumes "cache_inv c" "i < XCACHE_ASSOC" "ax AND AUX_MASK = ax" "bit ax 0"
    and other: "\<And>j. j < XCACHE_ASSOC \<Longrightarrow> way_holds c idx tag j \<Longrightarrow> j = i"
  shows "cache_inv (update_at idx i tag plba ax c)"
proof -
  note holds = way_holds_update_at [OF assms(2) _ assms(3,4)]
  have "j = k" if "j < XCACHE_ASSOC" "k < XCACHE_ASSOC"
    and "way_holds (update_at idx i tag plba ax c) idx' t j"
    and "way_holds (update_at idx i tag plba ax c) idx' t k" for idx' t j k
    using that other cache_inv_uniqueD [OF assms(1)] by (auto simp: holds split: if_splits)
  moreover have "\<not> all_mru (cache_meta (update_at idx i tag plba ax c) idx')" for idx'
    using cache_inv_mruD [OF assms(1)] update_meta_not_all [OF assms(2)]
    by (auto simp: update_at_def)
  ultimately show ?thesis unfolding cache_inv_def by blast
qed

lemma update_way_unique:
  assumes "cache_inv c" "j < XCACHE_ASSOC" "way_holds c idx tag j"
  shows "j = update_way c idx tag"
  using assms find_way_Some_iff [OF assms(1), of idx tag j] by (simp add: update_way_def)

lemma update_at_abs_own:
  assumes "cache_inv (update_at (vblk_idx v) i (vblk_tag v) plba ax c)" "i < XCACHE_ASSOC"
    and "ax AND AUX_MASK = ax" "bit ax 0"
  shows "cache_abs (update_at (vblk_idx v) i (vblk_tag v) plba ax c) v = Some (plba, ax)"
  unfolding cache_abs_Some_iff [OF assms(1)]
proof (intro exI conjI)
  show "way_holds (update_at (vblk_idx v) i (vblk_tag v) plba ax c) (vblk_idx v) (vblk_tag v) i"
    using assms by (simp add: way_holds_update_at)
qed (use assms in \<open>simp_all add: update_at_def AUX_GET_update_own\<close>)

lemma update_at_abs_other:
  assumes inv: "cache_inv (update_at (vblk_idx v) i (vblk_tag v) plba ax c)" "cache_inv c"
    and i: "i < XCACHE_ASSOC" and ax: "ax AND AUX_MASK = ax" "bit ax 0" and "w \<noteq> v"
  shows "cache_abs (update_at (vblk_idx v) i (vblk_tag v) plba ax c) w =
    (if vblk_idx w = vblk_idx v \<and> way_holds c (vblk_idx v) (vblk_tag w) i then None else cache_abs c w)"
    (is "cache_abs ?c' w = ?rhs")
proof -
  have key: "way_holds ?c' (vblk_idx w) (vblk_tag w) j \<and> cache_plba ?c' (cache_ci (vblk_idx w) j) = p \<and>
      AUX_GET (cache_meta ?c' (vblk_idx w)) j = a \<longleftrightarrow>
    \<not> (vblk_idx w = vblk_idx v \<and> j = i) \<and> way_holds c (vblk_idx w) (vblk_tag w) j \<and>
      cache_plba c (cache_ci (vblk_idx w) j) = p \<and> AUX_GET (cache_meta c (vblk_idx w)) j = a"
    if "j < XCACHE_ASSOC" for j p a
    using that i ax assms(6) vblk_eqI [of w v] AUX_GET_update_other [OF i that _ ax(1)]
    by (auto simp: way_holds_update_at cache_ci_inject)
  have iff: "cache_abs ?c' w = Some e \<longleftrightarrow> ?rhs = Some e" for e
  proof (cases e)
    case (Pair p a)
    have "cache_abs ?c' w = Some (p, a) \<longleftrightarrow>
        (\<exists>j < XCACHE_ASSOC. \<not> (vblk_idx w = vblk_idx v \<and> j = i) \<and> way_holds c (vblk_idx w) (vblk_tag w) j \<and>
          cache_plba c (cache_ci (vblk_idx w) j) = p \<and> AUX_GET (cache_meta c (vblk_idx w)) j = a)"
      unfolding cache_abs_Some_iff [OF inv(1)] using key by blast
    also have "\<dots> \<longleftrightarrow> ?rhs = Some (p, a)"
      using cache_inv_uniqueD [OF inv(2) _ _ i] by (auto simp: cache_abs_Some_iff [OF inv(2)])
    finally show ?thesis using Pair by simp
  qed
  show ?thesis by (rule option_eq_SomeI) (rule iff)
qed

lemma lba_update_inv:
  assumes "cache_inv c" "ax AND AUX_MASK = ax" "bit ax 0"
  shows "cache_inv (snd (lba_update vlba plba ax c))"
  unfolding lba_update_at Let_def snd_conv
  by (rule update_at_inv) (use assms update_way_less update_way_unique in auto)

lemma lba_update_abs:
  assumes "cache_inv c" "ax AND AUX_MASK = ax" "bit ax 0" and "v = vlba_vblk vlba"
  shows "cache_abs (snd (lba_update vlba plba ax c)) v = Some (plba, ax)"
    and "w \<noteq> v \<Longrightarrow> cache_abs (snd (lba_update vlba plba ax c)) w =
      (if vblk_idx w = vblk_idx v \<and>
          way_holds c (vblk_idx v) (vblk_tag w) (update_way c (vblk_idx v) (vblk_tag v))
       then None else cache_abs c w)"
  using lba_update_inv [OF assms(1-3), of vlba plba] update_at_abs_own update_at_abs_other assms
    update_way_less
  by (simp_all add: lba_update_at Let_def)

text \<open>Only the victim of a full line can be lost.\<close>

lemma lba_update_evicts:
  assumes "cache_inv c" "ax AND AUX_MASK = ax" "bit ax 0" "w \<noteq> vlba_vblk vlba"
    and "cache_abs c w \<noteq> None"
    and "cache_abs (snd (lba_update vlba plba ax c)) w = None"
  shows "vblk_idx w = vblk_idx (vlba_vblk vlba) \<and> cache_abs c (vlba_vblk vlba) = None \<and>
    (\<forall>i < XCACHE_ASSOC. AUX_IS_VALID (cache_meta c (vblk_idx w)) i) \<and>
    (\<exists>i < XCACHE_ASSOC. way_holds c (vblk_idx w) (vblk_tag w) i \<and> \<not> bit (cache_meta c (vblk_idx w)) (i + 24))"
proof -
  let ?v = "vlba_vblk vlba"
  let ?i = "update_way c (vblk_idx ?v) (vblk_tag ?v)"
  have idx: "vblk_idx w = vblk_idx ?v" and holds: "way_holds c (vblk_idx ?v) (vblk_tag w) ?i"
    using assms by (auto simp: lba_update_abs(2) split: if_splits)
  have tag: "vblk_tag w \<noteq> vblk_tag ?v" using idx assms(4) vblk_eqI by blast
  have none: "find_way c (vblk_idx ?v) (vblk_tag ?v) = None"
  proof (rule ccontr)
    assume "find_way c (vblk_idx ?v) (vblk_tag ?v) \<noteq> None"
    then obtain j where j: "find_way c (vblk_idx ?v) (vblk_tag ?v) = Some j" by blast
    then have "?i = j" by (simp add: update_way_def)
    then show False using find_way_SomeD(2) [OF j] holds tag by (simp add: way_holds_def)
  qed
  have valid: "AUX_IS_VALID (cache_meta c (vblk_idx ?v)) i" if "i < XCACHE_ASSOC" for i
    using update_way_free [OF none that] holds by (auto simp: way_holds_def)
  have "\<exists>i < XCACHE_ASSOC. way_holds c (vblk_idx w) (vblk_tag w) i \<and> \<not> bit (cache_meta c (vblk_idx w)) (i + 24)"
    using idx holds update_way_less update_way_victim [OF assms(1) none valid] by metis
  then show ?thesis using idx none valid by (simp add: cache_abs_def)
qed

text \<open>An entry that was just looked up survives the next update of another cluster.\<close>

lemma lookup_protects:
  assumes "cache_inv c" "in_cluster wlba n" "cache_abs c (vlba_vblk wlba) \<noteq> None"
    and "lba_lookup wlba n c = (val, ax0, c')"
  shows "\<exists>i < XCACHE_ASSOC. way_holds c' (vblk_idx (vlba_vblk wlba)) (vblk_tag (vlba_vblk wlba)) i \<and>
    bit (cache_meta c' (vblk_idx (vlba_vblk wlba))) (i + 24)"
proof -
  let ?w = "vlba_vblk wlba"
  obtain i where i: "find_way c (vblk_idx ?w) (vblk_tag ?w) = Some i"
    using assms(3) by (auto simp: cache_abs_def)
  note di = find_way_SomeD [OF i]
  have c': "c' = c\<lparr>cache_meta := (cache_meta c)(vblk_idx ?w := touch_meta (cache_meta c (vblk_idx ?w)) i)\<rparr>"
    using assms(2,4) i by (simp add: lba_lookup_cases Let_def)
  have "way_holds c' (vblk_idx ?w) (vblk_tag ?w) i = way_holds c (vblk_idx ?w) (vblk_tag ?w) i"
    by (rule way_holds_same) (use c' di in \<open>auto simp: bit_touch_low\<close>)
  moreover have "bit (touch_meta m i) (i + 24)" for m
    unfolding touch_meta_def
    by (rule bit_mru_fix_own) (use di(1) in \<open>auto simp: meta_bits XCACHE_ASSOC_def\<close>)
  ultimately show ?thesis using c' di by auto
qed

lemma lookup_update_keeps:
  assumes inv: "cache_inv c" and look: "in_cluster wlba n" "lba_lookup wlba n c = (val, ax0, c')"
    and ax: "ax AND AUX_MASK = ax" "bit ax 0" and "vlba_vblk wlba \<noteq> vlba_vblk vlba"
  shows "cache_abs (snd (lba_update vlba plba ax c')) (vlba_vblk wlba) = cache_abs c (vlba_vblk wlba)"
proof -
  let ?w = "vlba_vblk wlba"
  have inv': "cache_inv c'" and same: "cache_abs c' = cache_abs c"
    using lba_lookup_inv [OF look(2) inv] lba_lookup_abs [OF look(2)] by auto
  show ?thesis
  proof (cases "cache_abs c ?w = None \<or> cache_abs (snd (lba_update vlba plba ax c')) ?w \<noteq> None")
    case True
    then show ?thesis
      using lba_update_abs(2) [OF inv' ax refl assms(6)] same by (auto split: if_splits)
  next
    case False
    then have "cache_abs c ?w \<noteq> None" by simp
    then obtain i where i: "i < XCACHE_ASSOC" "way_holds c' (vblk_idx ?w) (vblk_tag ?w) i"
      "bit (cache_meta c' (vblk_idx ?w)) (i + 24)"
      using lookup_protects [OF inv look(1) _ look(2)] by blast
    have some: "cache_abs c' ?w \<noteq> None" and none: "cache_abs (snd (lba_update vlba plba ax c')) ?w = None"
      using False by (simp_all only: same de_Morgan_disj not_not simp_thms)
    obtain j where "j < XCACHE_ASSOC" "way_holds c' (vblk_idx ?w) (vblk_tag ?w) j"
      "\<not> bit (cache_meta c' (vblk_idx ?w)) (j + 24)"
      using lba_update_evicts [OF inv' ax assms(6) some none] by blast
    then show ?thesis using i cache_inv_uniqueD [OF inv'] by blast
  qed
qed

section \<open>Flushes and flag clearing\<close>

text \<open>
  A request inside one cluster has at most 128 blocks, so the loop of a flush runs once: it works
  on the line of that cluster only.
\<close>

lemma same_block_add:
  fixes x n y :: nat
  assumes "y = (x + n) mod 2 ^ 64" "x < 2 ^ 64" "x div 128 = y div 128" "n < 65536"
  shows "n < 128"
proof (cases "x + n < 2 ^ 64")
  case True
  then have "y = x + n" using assms(1) by simp
  then show ?thesis using assms(3) by linarith
next
  case False
  then have "y = x + n - 2 ^ 64" using assms(1,2,4) by (simp add: le_mod_geq)
  then have "y < 65536" "65536 + 65536 \<le> x" using False assms(2,4) by auto
  then have False using assms(3) by linarith
  then show ?thesis ..
qed

lemma in_cluster_length:
  assumes "in_cluster vlba length0"
  shows "uint length0 < 128"
proof -
  have div: "unat vlba div 128 = unat (vlba + ucast length0) div 128"
    using assms unfolding in_cluster_def vlba_vblk_def
    by (simp add: cache_consts word_unat_eq_iff unat_div)
  have len: "unat (ucast length0 :: u64) = unat length0" "unat length0 < 65536"
    using unat_bound [of length0] by (simp_all add: unat_ucast_up)
  have "unat (vlba + ucast length0) = (unat vlba + unat length0) mod 2 ^ 64"
    by (simp add: unat_word_ariths len(1))
  moreover have "unat vlba < 2 ^ 64" using unat_bound [of vlba] by simp
  ultimately have "unat length0 < 128"
    using div len(2) by (rule same_block_add)
  then show ?thesis unfolding uint_nat by linarith
qed

definition flush_step :: "lba_cache \<Rightarrow> nat \<Rightarrow> u64 \<Rightarrow> nat \<Rightarrow> u32 \<Rightarrow> u32" where
  "flush_step c idx tag i meta =
     (if AUX_IS_VALID meta i \<and> cache_tag c (cache_ci idx i) = tag
      then meta AND NOT (push_bit (i * AUX_SHIFT) AUXBITS_VALID) else meta)"

lemma bit_flush_step:
  "n < 32 \<Longrightarrow> bit (flush_step c idx tag i meta) n \<longleftrightarrow>
    bit meta n \<and> \<not> (n = 3 * i \<and> cache_tag c (cache_ci idx i) = tag)"
  by (auto simp: flush_step_def AUX_IS_VALID_bit AUXBITS_VALID_def AUX_SHIFT_def bit_and_iff bit_not_iff
      bit_exp_iff mult.commute)

lemma bit_flush_fold:
  assumes "n < 32"
  shows "bit (fold (flush_step c idx tag) is meta) n \<longleftrightarrow>
    bit meta n \<and> \<not> (\<exists>i \<in> set is. n = 3 * i \<and> cache_tag c (cache_ci idx i) = tag)"
  by (induction "is" arbitrary: meta) (use assms in \<open>auto simp: bit_flush_step\<close>)

lemma bit_flush_line:
  assumes "n < 32"
  shows "bit (flush_line_meta c idx tag) n \<longleftrightarrow>
    bit (cache_meta c idx) n \<and> \<not> (\<exists>i < XCACHE_ASSOC. n = 3 * i \<and> cache_tag c (cache_ci idx i) = tag)"
proof -
  have "flush_line_meta c idx tag = fold (flush_step c idx tag) [0..<XCACHE_ASSOC] (cache_meta c idx)"
    unfolding flush_line_meta_def by (rule arg_cong2 [where f = "\<lambda>f. fold f [0..<XCACHE_ASSOC]"])
      (auto simp: flush_step_def fun_eq_iff)
  then show ?thesis using bit_flush_fold [OF assms] by auto
qed

definition flush_at :: "u64 \<Rightarrow> lba_cache \<Rightarrow> lba_cache" where
  "flush_at v c =
     c\<lparr>cache_meta := (cache_meta c)(vblk_idx v := flush_line_meta c (vblk_idx v) (vblk_tag v))\<rparr>"

lemma lba_flush_range_in:
  assumes "in_cluster vlba length0"
  shows "lba_flush_range vlba length0 c = flush_at (vlba_vblk vlba) c"
proof -
  have "uint length0 < 128" "0 \<le> uint length0" using in_cluster_length [OF assms] by auto
  then show ?thesis
    using assms
    by (simp add: lba_flush_range_def in_cluster_def [symmetric] Let_def flush_at_def
        flush_loop.simps [of _ _ "uint length0 + 1"] flush_loop.simps [of _ _ "uint length0 - 127"])
qed

lemma lba_flush_range_crossing:
  "\<not> in_cluster vlba length0 \<Longrightarrow> lba_flush_range vlba length0 c = c"
  by (simp add: lba_flush_range_def in_cluster_def)

lemma way_holds_flush_at:
  assumes "i < XCACHE_ASSOC"
  shows "way_holds (flush_at v c) idx tag i \<longleftrightarrow>
    way_holds c idx tag i \<and> \<not> (idx = vblk_idx v \<and> tag = vblk_tag v)"
  using assms
  by (auto simp: way_holds_def flush_at_def AUX_IS_VALID_bit bit_flush_line XCACHE_ASSOC_def)

lemma bit_flush_other:
  assumes "n < 32" "\<And>i. i < XCACHE_ASSOC \<Longrightarrow> n = 3 * i \<Longrightarrow> \<not> way_holds c idx tag i"
  shows "bit (flush_line_meta c idx tag) n = bit (cache_meta c idx) n"
  using assms by (auto simp: bit_flush_line way_holds_def AUX_IS_VALID_bit)

lemma AUX_GET_flush:
  assumes "i < XCACHE_ASSOC" "way_holds (flush_at v c) idx tag i"
  shows "AUX_GET (cache_meta (flush_at v c) idx) i = AUX_GET (cache_meta c idx) i"
proof (rule bit_word_eqI)
  fix n
  have eq: "3 * i + n = 3 * k \<Longrightarrow> n < 2 \<Longrightarrow> k = i" for k by presburger
  have "n < 2 \<Longrightarrow> 3 * i + n < 32" using assms(1) by (simp add: XCACHE_ASSOC_def)
  then show "bit (AUX_GET (cache_meta (flush_at v c) idx) i) n = bit (AUX_GET (cache_meta c idx) i) n"
    using assms way_holds_flush_at [OF assms(1), of v c idx tag]
    by (auto simp: bit_AUX_GET flush_at_def bit_flush_line way_holds_def dest: eq)
qed

lemma flush_at_inv:
  assumes "cache_inv c"
  shows "cache_inv (flush_at v c)"
proof -
  have "\<not> all_mru (cache_meta (flush_at v c) idx)" for idx
  proof
    assume "all_mru (cache_meta (flush_at v c) idx)"
    then have "all_mru (cache_meta c idx)"
      by (auto simp: all_mru_iff flush_at_def bit_flush_line split: if_splits)
    then show False using cache_inv_mruD [OF assms] by blast
  qed
  moreover have "i = j" if "i < XCACHE_ASSOC" "j < XCACHE_ASSOC" "way_holds (flush_at v c) idx tag i"
    "way_holds (flush_at v c) idx tag j" for idx tag i j
    using that cache_inv_uniqueD [OF assms] by (auto simp: way_holds_flush_at)
  ultimately show ?thesis unfolding cache_inv_def by blast
qed

lemma flush_at_abs:
  assumes "cache_inv c"
  shows "cache_abs (flush_at v c) = (cache_abs c)(v := None)"
proof
  fix w
  show "cache_abs (flush_at v c) w = ((cache_abs c)(v := None)) w"
  proof (cases "w = v")
    case True
    then show ?thesis by (simp add: cache_abs_None_iff way_holds_flush_at)
  next
    case False
    then have ne: "\<not> (vblk_idx w = vblk_idx v \<and> vblk_tag w = vblk_tag v)" using vblk_eqI by blast
    have plba: "cache_plba (flush_at v c) = cache_plba c" by (simp add: flush_at_def)
    have "cache_abs (flush_at v c) w = Some (p, a) \<longleftrightarrow> cache_abs c w = Some (p, a)" for p a
      unfolding cache_abs_Some_iff [OF assms] cache_abs_Some_iff [OF flush_at_inv [OF assms]] plba
      using ne AUX_GET_flush way_holds_flush_at by metis
    then show ?thesis using False by (intro option_eq_SomeI) (auto simp: split_paired_all)
  qed
qed

lemma bit_WRITABLE: "bit AUXBITS_WRITABLE n \<longleftrightarrow> n = 1"
proof -
  have eq: "AUXBITS_WRITABLE = 2 ^ 1" by (simp add: AUXBITS_WRITABLE_def)
  show ?thesis unfolding eq bit_exp_iff by auto
qed

lemma clear_mask_writable: "clear_mask AUXBITS_WRITABLE = NOT 0x492492"
  by (simp add: clear_mask_def AUX_MAX_ASSOC_def AUXBITS_WRITABLE_def AUX_SHIFT_def upt_rec)

lemma bit_clear_mask:
  assumes "n < 24"
  shows "bit (clear_mask AUXBITS_WRITABLE) n \<longleftrightarrow> n mod 3 \<noteq> 1"
proof -
  have "\<forall>n \<in> set [0..<24]. bit (0x492492 :: u32) n \<longleftrightarrow> n mod 3 = 1" by code_simp
  then have "bit (0x492492 :: u32) n \<longleftrightarrow> n mod 3 = 1" using assms by simp
  then show ?thesis unfolding clear_mask_writable bit_not_iff using assms by simp
qed

definition cleared :: "lba_cache \<Rightarrow> lba_cache" where
  "cleared c = snd (lba_clear_flag_all AUXBITS_WRITABLE c)"

lemma bit_cleared:
  assumes "idx < XCACHE_LINES" "i < XCACHE_ASSOC" "n < 2"
  shows "bit (cache_meta (cleared c) idx) (3 * i + n) \<longleftrightarrow> bit (cache_meta c idx) (3 * i + n) \<and> n \<noteq> 1"
proof -
  have "3 * i + n < 24" "(3 * i + n) mod 3 = n" using assms by (simp_all add: XCACHE_ASSOC_def)
  then show ?thesis
    using assms by (auto simp: cleared_def lba_clear_flag_all_def bit_and_iff bit_clear_mask)
qed

lemma cleared_fields:
  "cache_tag (cleared c) = cache_tag c" "cache_plba (cleared c) = cache_plba c"
  by (simp_all add: cleared_def lba_clear_flag_all_def)

lemma way_holds_cleared:
  assumes "i < XCACHE_ASSOC"
  shows "way_holds (cleared c) idx tag i = way_holds c idx tag i"
proof (cases "idx < XCACHE_LINES")
  case True
  then show ?thesis
    using bit_cleared [OF True assms, of 0 c]
    by (simp add: way_holds_def AUX_IS_VALID_bit cleared_fields)
next
  case False
  then show ?thesis by (simp add: way_holds_def cleared_def lba_clear_flag_all_def)
qed

lemma cleared_inv:
  assumes "cache_inv c"
  shows "cache_inv (cleared c)"
proof -
  have "\<not> all_mru (cache_meta (cleared c) idx)" for idx
    using cache_inv_mruD [OF assms, of idx]
    by (auto simp: all_mru_iff cleared_def lba_clear_flag_all_def bit_and_iff)
  then show ?thesis
    using cache_inv_uniqueD [OF assms] unfolding cache_inv_def by (simp add: way_holds_cleared)
qed

lemma AUX_GET_cleared:
  assumes "idx < XCACHE_LINES" "i < XCACHE_ASSOC"
  shows "AUX_GET (cache_meta (cleared c) idx) i = AUX_GET (cache_meta c idx) i AND NOT AUXBITS_WRITABLE"
proof (rule bit_word_eqI)
  fix n
  assume "n < LENGTH(32)"
  then show "bit (AUX_GET (cache_meta (cleared c) idx) i) n =
      bit (AUX_GET (cache_meta c idx) i AND NOT AUXBITS_WRITABLE) n"
    using bit_cleared [OF assms, of n c]
    by (auto simp: bit_AUX_GET bit_and_iff bit_not_iff bit_WRITABLE)
qed

lemma cleared_abs:
  assumes "cache_inv c"
  shows "cache_abs (cleared c) v = map_option (\<lambda>(p, a). (p, a AND NOT AUXBITS_WRITABLE)) (cache_abs c v)"
proof -
  have "find_way (cleared c) (vblk_idx v) (vblk_tag v) = find_way c (vblk_idx v) (vblk_tag v)"
    using way_holds_cleared unfolding find_way_def way_holds_def by (intro find_cong) auto
  then show ?thesis
    by (cases "find_way c (vblk_idx v) (vblk_tag v)")
      (auto simp: cache_abs_def cleared_fields AUX_GET_cleared vblk_idx_less dest: find_way_SomeD(1))
qed

section \<open>The contract of a translation cache\<close>

datatype ('r, 'e) cache_op = Lookup 'r | Update 'r 'e | Flush 'r | Weaken

text \<open>
  What the handlers rely on: a request names a cluster (\<open>key\<close>), and lies in it entirely or not
  (\<open>inside\<close>). A lookup changes nothing the map shows, an update enters one binding and may lose
  others, a flush of an inside request removes one binding, weakening maps a function over all.
\<close>

locale translation_cache =
  fixes inv :: "'c \<Rightarrow> bool"
    and abs :: "'c \<Rightarrow> 'k \<Rightarrow> 'e option"
    and key :: "'r \<Rightarrow> 'k"
    and inside :: "'r \<Rightarrow> bool"
    and ok :: "'e \<Rightarrow> bool"
    and weak :: "'e \<Rightarrow> 'e"
    and lookup :: "'r \<Rightarrow> 'c \<Rightarrow> 'c"
    and update :: "'r \<Rightarrow> 'e \<Rightarrow> 'c \<Rightarrow> 'c"
    and flush :: "'r \<Rightarrow> 'c \<Rightarrow> 'c"
    and weaken :: "'c \<Rightarrow> 'c"
  assumes lookup_inv: "inv c \<Longrightarrow> inv (lookup r c)"
    and lookup_abs: "inv c \<Longrightarrow> abs (lookup r c) = abs c"
    and update_inv: "inv c \<Longrightarrow> ok e \<Longrightarrow> inv (update r e c)"
    and update_own: "inv c \<Longrightarrow> ok e \<Longrightarrow> abs (update r e c) (key r) = Some e"
    and update_other: "inv c \<Longrightarrow> ok e \<Longrightarrow> k \<noteq> key r \<Longrightarrow> abs (update r e c) k \<in> {None, abs c k}"
    and flush_inv: "inv c \<Longrightarrow> inv (flush r c)"
    and flush_abs: "inv c \<Longrightarrow> abs (flush r c) = (if inside r then (abs c)(key r := None) else abs c)"
    and weaken_inv: "inv c \<Longrightarrow> inv (weaken c)"
    and weaken_abs: "inv c \<Longrightarrow> abs (weaken c) k = map_option weak (abs c k)"
begin

fun step :: "('r, 'e) cache_op \<Rightarrow> 'c \<Rightarrow> 'c" where
  "step (Lookup r) c = lookup r c"
| "step (Update r e) c = update r e c"
| "step (Flush r) c = flush r c"
| "step Weaken c = weaken c"

fun ideal :: "('r, 'e) cache_op \<Rightarrow> ('k \<Rightarrow> 'e option) \<Rightarrow> 'k \<Rightarrow> 'e option" where
  "ideal (Lookup r) m = m"
| "ideal (Update r e) m = m(key r := Some e)"
| "ideal (Flush r) m = (if inside r then m(key r := None) else m)"
| "ideal Weaken m = map_option weak \<circ> m"

fun op_ok :: "('r, 'e) cache_op \<Rightarrow> bool" where
  "op_ok (Update r e) = ok e"
| "op_ok _ = True"

lemma step_inv: "inv c \<Longrightarrow> op_ok p \<Longrightarrow> inv (step p c)"
  by (cases p) (simp_all add: lookup_inv update_inv flush_inv weaken_inv)

lemma run_inv: "inv c \<Longrightarrow> \<forall>p \<in> set ops. op_ok p \<Longrightarrow> inv (fold step ops c)"
  by (induction ops arbitrary: c) (simp_all add: step_inv)

lemma step_submap:
  assumes "inv c" "op_ok p" "abs c \<subseteq>\<^sub>m m"
  shows "abs (step p c) \<subseteq>\<^sub>m ideal p m"
proof (cases p)
  case (Update r e)
  have ok: "ok e" using Update assms(2) by simp
  have "(m(key r := Some e)) k = Some x" if "abs (update r e c) k = Some x" for k x
  proof (cases "k = key r")
    case True
    then show ?thesis using that update_own [OF assms(1) ok] by simp
  next
    case False
    then have "abs c k = Some x" using that update_other [OF assms(1) ok False] by simp
    then show ?thesis using False assms(3) by (simp add: map_le_Some)
  qed
  then show ?thesis using Update by (simp add: map_le_Some)
next
  case (Flush r)
  then show ?thesis using assms by (simp add: flush_abs map_le_Some)
next
  case Weaken
  then show ?thesis using assms by (auto simp: weaken_abs map_le_Some)
qed (use assms in \<open>simp add: lookup_abs\<close>)

text \<open>Whatever the cache forgets, it never shows a binding the unbounded map does not have.\<close>

lemma run_submap:
  "inv c \<Longrightarrow> \<forall>p \<in> set ops. op_ok p \<Longrightarrow> abs c \<subseteq>\<^sub>m m \<Longrightarrow> abs (fold step ops c) \<subseteq>\<^sub>m fold ideal ops m"
  by (induction ops arbitrary: c m) (simp_all add: step_inv step_submap)

text \<open>A property of the bindings of a cluster that no update breaks holds for ever.\<close>

lemma ideal_pred:
  assumes "\<forall>x. m k = Some x \<longrightarrow> Q x" "\<And>r e. p = Update r e \<Longrightarrow> key r = k \<Longrightarrow> Q e"
    and "\<And>x. Q x \<Longrightarrow> Q (weak x)"
  shows "\<forall>x. ideal p m k = Some x \<longrightarrow> Q x"
  using assms by (cases p) auto

lemma ideal_run_pred:
  assumes "\<And>x. Q x \<Longrightarrow> Q (weak x)"
    and "\<forall>x. m k = Some x \<longrightarrow> Q x" "\<forall>r e. Update r e \<in> set ops \<longrightarrow> key r = k \<longrightarrow> Q e"
  shows "\<forall>x. fold ideal ops m k = Some x \<longrightarrow> Q x"
  using assms(2,3)
proof (induction ops arbitrary: m)
  case (Cons p ops)
  have "\<forall>x. ideal p m k = Some x \<longrightarrow> Q x"
    by (rule ideal_pred) (use Cons.prems assms(1) in auto)
  then have "\<forall>x. fold ideal ops (ideal p m) k = Some x \<longrightarrow> Q x"
    by (rule Cons.IH) (use Cons.prems(2) in simp)
  then show ?case by simp
qed simp

lemma run_pred:
  assumes "inv c" "\<forall>p \<in> set ops. op_ok p" "\<And>x. Q x \<Longrightarrow> Q (weak x)"
    and "\<forall>x. abs c k = Some x \<longrightarrow> Q x" "\<forall>r e. Update r e \<in> set ops \<longrightarrow> key r = k \<longrightarrow> Q e"
  shows "\<forall>x. abs (fold step ops c) k = Some x \<longrightarrow> Q x"
proof -
  have "abs (fold step ops c) \<subseteq>\<^sub>m fold ideal ops (abs c)"
    by (rule run_submap) (use assms(1,2) in auto)
  moreover have "\<forall>x. fold ideal ops (abs c) k = Some x \<longrightarrow> Q x"
    by (rule ideal_run_pred [where Q = Q]) (use assms(3-5) in auto)
  ultimately show ?thesis unfolding map_le_Some by blast
qed

end

definition req_key :: "u64 \<times> u16 \<Rightarrow> u64" where
  "req_key r = vlba_vblk (fst r)"

definition req_inside :: "u64 \<times> u16 \<Rightarrow> bool" where
  "req_inside r = in_cluster (fst r) (snd r)"

definition entry_ok :: "u64 \<times> u32 \<Rightarrow> bool" where
  "entry_ok e \<longleftrightarrow> snd e AND AUX_MASK = snd e \<and> bit (snd e) 0"

definition entry_weak :: "u64 \<times> u32 \<Rightarrow> u64 \<times> u32" where
  "entry_weak e = (fst e, snd e AND NOT AUXBITS_WRITABLE)"

definition req_lookup :: "u64 \<times> u16 \<Rightarrow> lba_cache \<Rightarrow> lba_cache" where
  "req_lookup r c = snd (snd (lba_lookup (fst r) (snd r) c))"

definition req_update :: "u64 \<times> u16 \<Rightarrow> u64 \<times> u32 \<Rightarrow> lba_cache \<Rightarrow> lba_cache" where
  "req_update r e c = snd (lba_update (fst r) (fst e) (snd e) c)"

definition req_flush :: "u64 \<times> u16 \<Rightarrow> lba_cache \<Rightarrow> lba_cache" where
  "req_flush r c = lba_flush_range (fst r) (snd r) c"

interpretation xcache: translation_cache cache_inv cache_abs req_key req_inside entry_ok entry_weak
  req_lookup req_update req_flush cleared
proof
  fix c r e k
  assume inv: "cache_inv c"
  obtain val ax c' where look: "lba_lookup (fst r) (snd r) c = (val, ax, c')" by (metis prod_cases3)
  show "cache_inv (req_lookup r c)" "cache_abs (req_lookup r c) = cache_abs c"
    using lba_lookup_inv [OF look inv] lba_lookup_abs [OF look] by (simp_all add: req_lookup_def look)
  show "cache_inv (req_flush r c)"
    "cache_abs (req_flush r c) = (if req_inside r then (cache_abs c)(req_key r := None) else cache_abs c)"
    using inv flush_at_inv flush_at_abs lba_flush_range_in lba_flush_range_crossing
    by (cases "req_inside r"; simp add: req_flush_def req_inside_def req_key_def)+
  show "cache_inv (cleared c)" "cache_abs (cleared c) k = map_option entry_weak (cache_abs c k)"
    using cleared_inv [OF inv] cleared_abs [OF inv]
    by (simp_all add: entry_weak_def [abs_def] case_prod_unfold)
  assume ok: "entry_ok e"
  then have ax: "snd e AND AUX_MASK = snd e" "bit (snd e) 0" by (simp_all add: entry_ok_def)
  show "cache_inv (req_update r e c)" "cache_abs (req_update r e c) (req_key r) = Some e"
    using lba_update_inv [OF inv ax] lba_update_abs(1) [OF inv ax refl]
    by (simp_all add: req_update_def req_key_def)
  show "k \<noteq> req_key r \<Longrightarrow> cache_abs (req_update r e c) k \<in> {None, cache_abs c k}"
    using lba_update_abs(2) [OF inv ax refl] by (simp add: req_update_def req_key_def)
qed

section \<open>The handlers over the cache\<close>

definition bpf_cache :: "bpf_io_ctx \<Rightarrow> lba_cache \<Rightarrow> lba_cache" where
  "bpf_cache ctx c = snd (snd (nvme_run_bpf ctx c))"

definition ctx_req :: "bpf_io_ctx \<Rightarrow> u64 \<times> u16" where
  "ctx_req ctx = (rw_slba (ctx_cmd ctx), rw_length (ctx_cmd ctx))"

definition ctx_entry :: "bpf_io_ctx \<Rightarrow> u64 \<times> u32" where
  "ctx_entry ctx =
     ((ucast (aux1 (ctx_aux ctx)) OR push_bit 32 (ucast (aux2 (ctx_aux ctx)))) div CLUSTER_SIZE *
        CLUSTER_LBAS, aux0 (ctx_aux ctx) AND AUX_MASK)"

definition is_response :: "bpf_io_ctx \<Rightarrow> bool" where
  "is_response ctx \<longleftrightarrow> ctx_current_hook ctx = NMBPF_HOOK_NFD_WRITE \<and> aux0 (ctx_aux ctx) AND AUXBITS_VALID \<noteq> 0"

definition is_snapshot :: "bpf_io_ctx \<Rightarrow> bool" where
  "is_snapshot ctx \<longleftrightarrow> flags (ctx_cmd ctx) AND NVME_CMD_SGL_ALL = 0 \<and> opcode (ctx_cmd ctx) = 0x81"

lemma lba_clear_snapshot: "lba_clear_flag_all AUXBITS_WRITABLE c = (int XCACHE_LINES, cleared c)"
  by (simp add: cleared_def lba_clear_flag_all_def)

lemma bpf_cache_snapshot: "is_snapshot ctx \<Longrightarrow> bpf_cache ctx c = cleared c"
  by (simp add: is_snapshot_def bpf_cache_def nvme_run_bpf_def Let_def nvme_opcode_defs
      lba_clear_snapshot XCACHE_LINES_def)

lemma bit_VALID: "x AND AUXBITS_VALID \<noteq> 0 \<longleftrightarrow> bit x 0"
  using and_exp_eq_0_iff_not_bit [of x 0] by (simp add: AUXBITS_VALID_def)

lemma bit_WRITABLE_and: "x AND AUXBITS_WRITABLE \<noteq> 0 \<longleftrightarrow> bit x 1"
  using and_exp_eq_0_iff_not_bit [of x 1] by (simp add: AUXBITS_WRITABLE_def)

lemma entry_ok_response: "is_response ctx \<Longrightarrow> entry_ok (ctx_entry ctx)"
  by (simp add: is_response_def ctx_entry_def entry_ok_def bit_VALID bit_and_iff bit_AUX_MASK and.assoc)

lemma nm_do_rw_cache:
  "snd (snd (nm_do_rw ctx c)) = req_lookup (ctx_req ctx) c \<or>
   snd (snd (nm_do_rw ctx c)) = req_flush (ctx_req ctx) (req_lookup (ctx_req ctx) c)"
  by (auto simp: nm_do_rw_def ctx_req_def req_lookup_def req_flush_def Let_def split: prod.split)

lemma nm_on_rw_respond_cache:
  "snd (snd (nm_on_rw_respond ctx c)) =
     (if aux0 (ctx_aux ctx) AND AUXBITS_VALID \<noteq> 0
      then req_update (ctx_req ctx) (ctx_entry ctx) c
      else if aux0 (ctx_aux ctx) AND AUXCMD_KEEP = 0 then req_flush (ctx_req ctx) c else c)"
  by (auto simp: nm_on_rw_respond_def ctx_req_def ctx_entry_def req_update_def req_flush_def Let_def split: prod.split)

lemma bpf_cache_cases:
  assumes "\<not> is_snapshot ctx"
  shows "bpf_cache ctx c = c \<or> bpf_cache ctx c = snd (snd (nm_do_rw ctx c)) \<or>
    ctx_current_hook ctx = NMBPF_HOOK_NFD_WRITE \<and> bpf_cache ctx c = snd (snd (nm_on_rw_respond ctx c))"
  using assms by (auto simp: bpf_cache_def nvme_run_bpf_def Let_def is_snapshot_def)

text \<open>Every handler acts on the cache by a short sequence of the operations of the contract.\<close>

lemma bpf_cache_ops:
  obtains ops where "bpf_cache ctx c = fold xcache.step ops c" "\<forall>p \<in> set ops. xcache.op_ok p"
    "\<forall>r e. Update r e \<in> set ops \<longrightarrow> is_response ctx \<and> r = ctx_req ctx \<and> e = ctx_entry ctx"
proof (cases "is_snapshot ctx")
  case True
  then show ?thesis using that [of "[Weaken]"] by (simp add: bpf_cache_snapshot)
next
  case False
  then consider "bpf_cache ctx c = c"
    | "bpf_cache ctx c = snd (snd (nm_do_rw ctx c))"
    | "bpf_cache ctx c = snd (snd (nm_on_rw_respond ctx c))" "ctx_current_hook ctx = NMBPF_HOOK_NFD_WRITE"
    using bpf_cache_cases [of ctx c] by blast
  then show ?thesis
  proof cases
    case 1
    then show ?thesis using that [of "[]"] by simp
  next
    case 2
    then show ?thesis
      using nm_do_rw_cache [of ctx c] that [of "[Lookup (ctx_req ctx)]"]
        that [of "[Lookup (ctx_req ctx), Flush (ctx_req ctx)]"] by auto
  next
    case 3
    show ?thesis
      using 3 nm_on_rw_respond_cache [of ctx c] that [of "[]"] that [of "[Flush (ctx_req ctx)]"]
        that [of "[Update (ctx_req ctx) (ctx_entry ctx)]"] entry_ok_response [of ctx]
      by (auto simp: is_response_def split: if_splits)
  qed
qed

definition bpf_run :: "bpf_io_ctx list \<Rightarrow> lba_cache \<Rightarrow> lba_cache" where
  "bpf_run ctxs c = fold bpf_cache ctxs c"

lemma bpf_run_ops:
  "\<exists>ops. bpf_run ctxs c = fold xcache.step ops c \<and> (\<forall>p \<in> set ops. xcache.op_ok p) \<and>
     (\<forall>r e. Update r e \<in> set ops \<longrightarrow> (\<exists>ctx \<in> set ctxs. is_response ctx \<and> r = ctx_req ctx \<and> e = ctx_entry ctx))"
proof (induction ctxs arbitrary: c)
  case Nil
  show ?case by (rule exI [of _ "[]"]) (simp add: bpf_run_def)
next
  case (Cons x ctxs)
  obtain ops1 where o1: "bpf_cache x c = fold xcache.step ops1 c" "\<forall>p \<in> set ops1. xcache.op_ok p"
    "\<forall>r e. Update r e \<in> set ops1 \<longrightarrow> is_response x \<and> r = ctx_req x \<and> e = ctx_entry x"
    by (rule bpf_cache_ops)
  from Cons.IH [of "bpf_cache x c"] obtain ops2 where
    o2: "bpf_run ctxs (bpf_cache x c) = fold xcache.step ops2 (bpf_cache x c)"
      "\<forall>p \<in> set ops2. xcache.op_ok p"
      "\<forall>r e. Update r e \<in> set ops2 \<longrightarrow> (\<exists>ctx \<in> set ctxs. is_response ctx \<and> r = ctx_req ctx \<and> e = ctx_entry ctx)"
    by blast
  show ?case
    by (rule exI [of _ "ops1 @ ops2"]) (use o1 o2 in \<open>auto simp: bpf_run_def\<close>)
qed

lemma empty_cache_inv [simp]: "cache_inv empty_cache"
  by (auto simp: cache_inv_def empty_cache_def way_holds_def AUX_IS_VALID_bit all_mru_iff intro: exI [of _ 24])

lemma bpf_run_inv: "cache_inv c \<Longrightarrow> cache_inv (bpf_run ctxs c)"
  using bpf_run_ops [of ctxs c] xcache.run_inv by metis

lemma bpf_run_pred:
  assumes "cache_inv c" "\<And>x. Q x \<Longrightarrow> Q (entry_weak x)" "\<forall>x. cache_abs c v = Some x \<longrightarrow> Q x"
    and "\<And>ctx. ctx \<in> set ctxs \<Longrightarrow> is_response ctx \<Longrightarrow> vlba_vblk (rw_slba (ctx_cmd ctx)) = v \<Longrightarrow> Q (ctx_entry ctx)"
  shows "\<forall>x. cache_abs (bpf_run ctxs c) v = Some x \<longrightarrow> Q x"
proof -
  obtain ops where ops: "bpf_run ctxs c = fold xcache.step ops c" "\<forall>p \<in> set ops. xcache.op_ok p"
    "\<forall>r e. Update r e \<in> set ops \<longrightarrow> (\<exists>ctx \<in> set ctxs. is_response ctx \<and> r = ctx_req ctx \<and> e = ctx_entry ctx)"
    using bpf_run_ops [of ctxs c] by blast
  have "Q e" if up: "Update r e \<in> set ops" and key: "req_key r = v" for r e
  proof -
    obtain ctx where "ctx \<in> set ctxs" "is_response ctx" "r = ctx_req ctx" "e = ctx_entry ctx"
      using ops(3) up by blast
    then show ?thesis using assms(4) [of ctx] key by (simp add: req_key_def ctx_req_def)
  qed
  then show ?thesis
    unfolding ops(1) by (intro xcache.run_pred [where Q = Q, OF assms(1) ops(2)]) (use assms(2,3) in auto)
qed

definition is_write_request :: "bpf_io_ctx \<Rightarrow> bool" where
  "is_write_request ctx \<longleftrightarrow> flags (ctx_cmd ctx) AND NVME_CMD_SGL_ALL = 0 \<and>
     ctx_current_hook ctx = NMBPF_HOOK_VSQ \<and>
     (opcode (ctx_cmd ctx) = nvme_cmd_write \<or> opcode (ctx_cmd ctx) = nvme_cmd_write_zeroes)"

lemma write_request_indirect:
  assumes "is_write_request ctx"
    and "\<forall>x. cache_abs c (vlba_vblk (rw_slba (ctx_cmd ctx))) = Some x \<longrightarrow> \<not> bit (snd x) 1"
  shows "fst (nvme_run_bpf ctx c) = NMBPF_SEND_FD OR NMBPF_HOOK_NFD_WRITE OR NMBPF_WAIT_FOR_HOOK"
proof -
  let ?cmd = "ctx_cmd ctx"
  obtain val ax c' where look: "lba_lookup (rw_slba ?cmd) (rw_length ?cmd) c = (val, ax, c')"
    by (metis prod_cases3)
  have "ax AND AUXBITS_WRITABLE = 0 \<or> val = U64_MAX"
  proof (cases "in_cluster (rw_slba ?cmd) (rw_length ?cmd)")
    case True
    then show ?thesis
      using lba_lookup_result [OF True look] assms(2)
        bit_WRITABLE_and [of ax]
      by (auto split: option.splits)
  qed (use look in \<open>simp add: lba_lookup_crossing\<close>)
  moreover have "opcode ?cmd \<noteq> nvme_cmd_read"
    using assms(1) by (auto simp: is_write_request_def nvme_opcode_defs)
  ultimately have "fst (nm_do_rw ctx c) = NMBPF_SEND_FD OR NMBPF_HOOK_NFD_WRITE OR NMBPF_WAIT_FOR_HOOK"
    by (auto simp: nm_do_rw_def look)
  then show ?thesis using assms(1) by (simp add: nvme_run_bpf_def is_write_request_def Let_def)
qed

section \<open>What a cluster's entry goes back to\<close>

text \<open>
  The requests that act on the entry of a cluster \<open>v\<close>: the response that brings a translation, the one that takes it back,
  and the write from the guest.
\<close>

definition handled :: "bpf_io_ctx \<Rightarrow> bool" where
  "handled ctx \<longleftrightarrow> flags (ctx_cmd ctx) AND NVME_CMD_SGL_ALL = 0 \<and> opcode (ctx_cmd ctx) \<in> {nvme_cmd_read, nvme_cmd_write, nvme_cmd_write_zeroes}"

definition for_cluster :: "u64 \<Rightarrow> bpf_io_ctx \<Rightarrow> bool" where
  "for_cluster v ctx \<longleftrightarrow> handled ctx \<and> vlba_vblk (rw_slba (ctx_cmd ctx)) = v"

definition translates :: "u64 \<Rightarrow> bpf_io_ctx \<Rightarrow> bool" where
  "translates v ctx \<longleftrightarrow> for_cluster v ctx \<and> is_response ctx"

definition withdraws :: "u64 \<Rightarrow> bpf_io_ctx \<Rightarrow> bool" where
  "withdraws v ctx \<longleftrightarrow> for_cluster v ctx \<and> ctx_current_hook ctx = NMBPF_HOOK_NFD_WRITE \<and>
     aux0 (ctx_aux ctx) AND AUXBITS_VALID = 0 \<and> aux0 (ctx_aux ctx) AND AUXCMD_KEEP = 0 \<and>
     in_cluster (rw_slba (ctx_cmd ctx)) (rw_length (ctx_cmd ctx))"

definition writes :: "u64 \<Rightarrow> bpf_io_ctx \<Rightarrow> bool" where
  "writes v ctx \<longleftrightarrow> for_cluster v ctx \<and> is_write_request ctx \<and> in_cluster (rw_slba (ctx_cmd ctx)) (rw_length (ctx_cmd ctx))"

lemma nm_do_rw_keeps:
  assumes "cache_inv c" "cache_abs (snd (snd (nm_do_rw ctx c))) v = Some x"
  shows "cache_abs c v = Some x"
    and "opcode (ctx_cmd ctx) \<noteq> nvme_cmd_read \<Longrightarrow> in_cluster (rw_slba (ctx_cmd ctx)) (rw_length (ctx_cmd ctx)) \<Longrightarrow>
         vlba_vblk (rw_slba (ctx_cmd ctx)) = v \<Longrightarrow> bit (snd x) 1"
proof -
  have abs: "cache_abs (req_lookup r c) = cache_abs c" for r by (rule xcache.lookup_abs [OF assms(1)])
  have flush: "cache_abs (req_flush r (req_lookup r c)) = (if req_inside r then (cache_abs c)(req_key r := None) else cache_abs c)" for r
    using xcache.flush_abs [OF xcache.lookup_inv [OF assms(1)]] by (simp add: abs)
  show x: "cache_abs c v = Some x"
    using nm_do_rw_cache [of ctx c] assms(2) by (auto simp: abs flush split: if_splits)
  assume w: "opcode (ctx_cmd ctx) \<noteq> nvme_cmd_read" and i: "in_cluster (rw_slba (ctx_cmd ctx)) (rw_length (ctx_cmd ctx))"
    and v: "vlba_vblk (rw_slba (ctx_cmd ctx)) = v"
  obtain val ax c1 where look: "lba_lookup (rw_slba (ctx_cmd ctx)) (rw_length (ctx_cmd ctx)) c = (val, ax, c1)" by (metis prod_cases3)
  have ax: "ax = snd x" using lba_lookup_result [OF i look] x v by (auto split: prod.splits)
  show "bit (snd x) 1"
  proof (rule ccontr)
    assume "\<not> bit (snd x) 1"
    then have "snd (snd (nm_do_rw ctx c)) = req_flush (ctx_req ctx) (req_lookup (ctx_req ctx) c)"
      using w look ax bit_WRITABLE_and [of ax] by (auto simp: nm_do_rw_def ctx_req_def req_lookup_def req_flush_def Let_def)
    then show False using assms(2) i v by (simp add: flush req_inside_def req_key_def ctx_req_def)
  qed
qed

lemma nm_on_rw_respond_keeps:
  assumes "cache_inv c" "cache_abs (snd (snd (nm_on_rw_respond ctx c))) v = Some x"
    and "ctx_current_hook ctx = NMBPF_HOOK_NFD_WRITE" "handled ctx"
  shows "translates v ctx \<and> x = ctx_entry ctx \<or> \<not> translates v ctx \<and> \<not> withdraws v ctx \<and> cache_abs c v = Some x"
proof (cases "is_response ctx")
  case True
  note ok = entry_ok_response [OF True]
  have run: "snd (snd (nm_on_rw_respond ctx c)) = req_update (ctx_req ctx) (ctx_entry ctx) c"
    using True by (simp add: nm_on_rw_respond_cache is_response_def)
  show ?thesis
  proof (cases "req_key (ctx_req ctx) = v")
    case own: True
    then show ?thesis using assms True xcache.update_own [OF assms(1) ok, of "ctx_req ctx"]
      by (simp add: run translates_def for_cluster_def req_key_def ctx_req_def)
  next
    case False
    then have "cache_abs c v = Some x" using assms(2) xcache.update_other [OF assms(1) ok, of v "ctx_req ctx"] by (auto simp: run)
    then show ?thesis using False by (simp add: translates_def withdraws_def for_cluster_def req_key_def ctx_req_def)
  qed
next
  case False
  then have inv: "aux0 (ctx_aux ctx) AND AUXBITS_VALID = 0" using assms(3) by (simp add: is_response_def)
  then show ?thesis
    using assms False xcache.flush_abs [OF assms(1), of "ctx_req ctx"]
    by (auto simp: nm_on_rw_respond_cache translates_def withdraws_def for_cluster_def req_key_def req_inside_def ctx_req_def split: if_splits)
qed

text \<open>One step back: an entry that the cache shows was brought by this request, or was there before it and this request let it stand.\<close>

lemma hooks_differ: "NMBPF_HOOK_VSQ \<noteq> NMBPF_HOOK_NFD_WRITE"
  by (simp add: NMBPF_HOOK_VSQ_def NMBPF_HOOK_NFD_WRITE_def)

lemma bpf_cache_back:
  assumes "cache_inv c" "cache_abs (bpf_cache ctx c) v = Some y"
  obtains "translates v ctx" "y = ctx_entry ctx" "\<not> is_snapshot ctx"
  | x where "\<not> translates v ctx" "\<not> withdraws v ctx" "cache_abs c v = Some x" "writes v ctx \<longrightarrow> bit (snd x) 1"
      "y = (if is_snapshot ctx then entry_weak x else x)"
proof (cases "is_snapshot ctx")
  case True
  then have "\<not> handled ctx" by (auto simp: is_snapshot_def handled_def nvme_opcode_defs)
  moreover obtain x where "cache_abs c v = Some x" "y = entry_weak x"
    using assms True xcache.weaken_abs [OF assms(1), of v] by (auto simp: bpf_cache_snapshot)
  ultimately show ?thesis using True that(2) [of x] by (simp add: translates_def withdraws_def writes_def for_cluster_def)
next
  case False
  then have eq: "bpf_cache ctx c =
      (if \<not> handled ctx then c else if ctx_current_hook ctx = NMBPF_HOOK_VSQ then snd (snd (nm_do_rw ctx c))
       else if ctx_current_hook ctx = NMBPF_HOOK_NFD_WRITE then snd (snd (nm_on_rw_respond ctx c)) else c)"
    by (auto simp: bpf_cache_def nvme_run_bpf_def Let_def is_snapshot_def handled_def)
  consider "\<not> handled ctx" "bpf_cache ctx c = c"
    | "handled ctx" "ctx_current_hook ctx = NMBPF_HOOK_VSQ" "bpf_cache ctx c = snd (snd (nm_do_rw ctx c))"
    | "handled ctx" "ctx_current_hook ctx = NMBPF_HOOK_NFD_WRITE" "bpf_cache ctx c = snd (snd (nm_on_rw_respond ctx c))"
    | "handled ctx" "ctx_current_hook ctx \<notin> {NMBPF_HOOK_VSQ, NMBPF_HOOK_NFD_WRITE}" "bpf_cache ctx c = c"
    using eq hooks_differ by (auto split: if_splits)
  then show ?thesis
  proof cases
    case 1
    then show ?thesis using that(2) [of y] assms(2) False by (simp add: translates_def withdraws_def writes_def for_cluster_def)
  next
    case 2
    have "opcode (ctx_cmd ctx) \<noteq> nvme_cmd_read" if "is_write_request ctx"
      using that by (auto simp: is_write_request_def nvme_opcode_defs)
    then show ?thesis using hooks_differ that(2) [of y] 2 nm_do_rw_keeps [OF assms(1), of ctx v y] assms(2) False
      by (auto simp: translates_def withdraws_def writes_def for_cluster_def is_response_def)
  next
    case 3
    have "\<not> writes v ctx" using 3 hooks_differ by (simp add: writes_def is_write_request_def)
    then show ?thesis using that(1) that(2) [of y] nm_on_rw_respond_keeps [OF assms(1) _ 3(2,1), of v y] assms(2) 3 False by auto
  next
    case 4
    then show ?thesis using that(2) [of y] assms(2) False
      by (auto simp: translates_def withdraws_def writes_def is_response_def is_write_request_def)
  qed
qed

section \<open>Properties\<close>

text \<open>Requests for the examples: a command on block \<open>lba\<close>, at the submission hook or at the response hook.\<close>

definition sample_cmd :: "u8 \<Rightarrow> u32 \<Rightarrow> nvme_command" where
  "sample_cmd op lba =
     \<lparr>opcode = op, flags = 0, command_id = 7, nsid = 1, cdw2_0 = 0, cdw2_1 = 0, metadata = 0, prp1 = 0,
      prp2 = 0, cdw10 = lba, cdw11 = 0, cdw12 = 7, cdw13 = 0, cdw14 = 0, cdw15 = 0\<rparr>"

definition sample_ctx :: "u32 \<Rightarrow> u32 \<Rightarrow> nvme_command \<Rightarrow> bpf_io_ctx" where
  "sample_ctx hook a cmd =
     \<lparr>ctx_cmd = cmd, ctx_sqid = 1, ctx_current_hook = hook, ctx_iostate = 0, ctx_data = 0,
      ctx_aux = \<lparr>aux0 = a, aux1 = 0x50000, aux2 = 0\<rparr>\<rparr>"

lemmas sample_defs = sample_cmd_def sample_ctx_def rw_slba_def rw_length_def

lemmas cache_eval = bpf_run_def bpf_cache_def nvme_run_bpf_def nm_on_rw_respond_def nm_do_rw_def
  lba_update_def update_way_def update_meta_def lba_lookup_def mru_fix_def find_way_def empty_cache_def
  cache_abs_def AUX_IS_VALID_def AUX_GET_def META_MRU_def META_MRU_MASK_def cache_ci_def
  vlba_vblk_def vlba_off_def vblk_tag_def vblk_idx_def cache_consts NVME_CMD_SGL_ALL_def
  nvme_opcode_defs NMBPF_HOOK_VSQ_def NMBPF_HOOK_NFD_WRITE_def AUXCMD_FORWARD_def AUXCMD_KEEP_def
  Let_def upt_rec

text \<open>
  C12. After a snapshot command has passed the classifier, no write to a cluster is forwarded to the
  device directly until the notified process has answered a request on that cluster with the
  writable flag: whatever other requests and responses come in between, the verdict on such a
  write is to notify and wait. (\<open>bpf_run\<close> runs a sequence of requests; \<open>bpf_cache\<close> is the cache
  one request leaves behind.)
\<close>

theorem snapshot_stops_direct_writes:
  assumes "cache_inv c" and "is_snapshot snap"
    and "\<forall>r \<in> set ctxs. is_response r \<longrightarrow>
           vlba_vblk (rw_slba (ctx_cmd r)) = vlba_vblk (rw_slba (ctx_cmd ctx)) \<longrightarrow>
           \<not> bit (aux0 (ctx_aux r)) 1"
    and "is_write_request ctx"
  shows "fst (nvme_run_bpf ctx (bpf_run ctxs (bpf_cache snap c))) =
           NMBPF_SEND_FD OR NMBPF_HOOK_NFD_WRITE OR NMBPF_WAIT_FOR_HOOK"
proof (rule write_request_indirect [OF assms(4)], rule bpf_run_pred [where Q = "\<lambda>x. \<not> bit (snd x) 1"])
  show "cache_inv (bpf_cache snap c)"
    using assms(1,2) by (simp add: bpf_cache_snapshot cleared_inv)
  show "\<forall>x. cache_abs (bpf_cache snap c) (vlba_vblk (rw_slba (ctx_cmd ctx))) = Some x \<longrightarrow> \<not> bit (snd x) 1"
    using assms(1,2) by (auto simp: bpf_cache_snapshot cleared_abs bit_and_iff bit_not_iff bit_WRITABLE)
qed (use assms(3) in \<open>auto simp: entry_weak_def ctx_entry_def bit_and_iff\<close>)

theorem snapshot_stops_direct_writes_witness:
  "fst (nvme_run_bpf (sample_ctx NMBPF_HOOK_VSQ 0 (sample_cmd nvme_cmd_write 256))
     (bpf_run [sample_ctx NMBPF_HOOK_NFD_WRITE 1 (sample_cmd nvme_cmd_read 256)]
       (bpf_cache (sample_ctx NMBPF_HOOK_VSQ 0 (sample_cmd 0x81 0))
         (bpf_run [sample_ctx NMBPF_HOOK_NFD_WRITE 3 (sample_cmd nvme_cmd_write 256)] empty_cache)))) =
   NMBPF_SEND_FD OR NMBPF_HOOK_NFD_WRITE OR NMBPF_WAIT_FOR_HOOK"
  by (rule snapshot_stops_direct_writes)
    (simp_all add: bpf_run_inv is_snapshot_def is_write_request_def sample_defs)

text \<open>
  C17. Starting from the empty cache and whatever the sequence of requests, every line keeps its invariant (no tag twice, never
  all ways marked), and every translation the cache shows is the newest one received for its cluster, and has not been
  withdrawn: there is a valid response for a request on the cluster that brought the address and its flags
  (less the writable flag if a snapshot command came after it), and since then no other translation
  of the cluster arrived, no response took it back, and the guest wrote to the cluster only while the entry allowed it, that
  is with the writable flag and with no snapshot in between.
\<close>

theorem cache_shows_received_translations:
  "cache_inv (bpf_run ctxs empty_cache) \<and>
   (cache_abs (bpf_run ctxs empty_cache) v = Some (p, a) \<longrightarrow>
     (\<exists>pre r post. ctxs = pre @ r # post \<and> translates v r \<and>
        (p, a) = (if list_ex is_snapshot post then entry_weak (ctx_entry r) else ctx_entry r) \<and>
        (\<forall>x \<in> set post. \<not> translates v x \<and> \<not> withdraws v x) \<and>
        (\<forall>mid x rest. post = mid @ x # rest \<and> writes v x \<longrightarrow> bit (snd (ctx_entry r)) 1 \<and> \<not> list_ex is_snapshot mid)))"
proof -
  have "cache_abs (bpf_run ctxs empty_cache) v = Some y \<Longrightarrow>
     (\<exists>pre r post. ctxs = pre @ r # post \<and> translates v r \<and>
        y = (if list_ex is_snapshot post then entry_weak (ctx_entry r) else ctx_entry r) \<and>
        (\<forall>x \<in> set post. \<not> translates v x \<and> \<not> withdraws v x) \<and>
        (\<forall>mid x rest. post = mid @ x # rest \<and> writes v x \<longrightarrow> bit (snd (ctx_entry r)) 1 \<and> \<not> list_ex is_snapshot mid))" for y
  proof (induction ctxs arbitrary: y rule: rev_induct)
    case Nil
    then show ?case by (simp add: bpf_run_def cache_abs_def find_way_def empty_cache_def AUX_IS_VALID_bit XCACHE_ASSOC_def upt_rec)
  next
    case (snoc ctx ctxs)
    have last: "cache_abs (bpf_cache ctx (bpf_run ctxs empty_cache)) v = Some y" using snoc.prems by (simp add: bpf_run_def)
    show ?case
    proof (rule bpf_cache_back [OF bpf_run_inv [OF empty_cache_inv] last])
      assume "translates v ctx" "y = ctx_entry ctx"
      then show ?thesis by (intro exI [of _ ctxs] exI [of _ ctx] exI [of _ "[]"]) simp
    next
      fix x
      assume x: "\<not> translates v ctx" "\<not> withdraws v ctx" "cache_abs (bpf_run ctxs empty_cache) v = Some x" "writes v ctx \<longrightarrow> bit (snd x) 1"
        "y = (if is_snapshot ctx then entry_weak x else x)"
      obtain pre r post where h: "ctxs = pre @ r # post" "translates v r"
        "x = (if list_ex is_snapshot post then entry_weak (ctx_entry r) else ctx_entry r)"
        "\<forall>x \<in> set post. \<not> translates v x \<and> \<not> withdraws v x"
        "\<forall>mid x rest. post = mid @ x # rest \<and> writes v x \<longrightarrow> bit (snd (ctx_entry r)) 1 \<and> \<not> list_ex is_snapshot mid"
        using snoc.IH [OF x(3)] by blast
      have wk: "entry_weak (entry_weak e) = entry_weak e" "\<not> bit (snd (entry_weak e)) 1" for e
        by (auto simp: entry_weak_def and.assoc bit_simps bit_WRITABLE)
      have "bit (snd (ctx_entry r)) 1 \<and> \<not> list_ex is_snapshot mid" if "post @ [ctx] = mid @ z # rest" "writes v z" for mid z rest
      proof (cases rest rule: rev_cases)
        case Nil
        then show ?thesis using that x(4) h(3) wk(2) [of "ctx_entry r"] by (auto split: if_splits)
      next
        case (snoc rest' l)
        then show ?thesis using that h(5) by auto
      qed
      then show ?thesis
        using x h wk(1) by (intro exI [of _ pre] exI [of _ r] exI [of _ "post @ [ctx]"]) (auto simp: list_ex_iff)
    qed
  qed
  then show ?thesis by (simp add: bpf_run_inv)
qed

theorem cache_shows_received_translations_witness:
  "cache_abs (bpf_run [sample_ctx NMBPF_HOOK_NFD_WRITE 3 (sample_cmd nvme_cmd_read 256)] empty_cache) 2 =
     Some (640, 3) \<and>
   (\<exists>r. [sample_ctx NMBPF_HOOK_NFD_WRITE 3 (sample_cmd nvme_cmd_read 256)] = [r] \<and> translates 2 r \<and> (640, 3) = ctx_entry r)"
proof -
  have hit: "cache_abs (bpf_run [sample_ctx NMBPF_HOOK_NFD_WRITE 3 (sample_cmd nvme_cmd_read 256)]
      empty_cache) 2 = Some (640, 3)"
    by (simp add: sample_defs cache_eval)
  obtain pre r post where "[sample_ctx NMBPF_HOOK_NFD_WRITE 3 (sample_cmd nvme_cmd_read 256)] = pre @ r # post" "translates 2 r"
    "(640, 3) = (if list_ex is_snapshot post then entry_weak (ctx_entry r) else ctx_entry r)"
    using hit cache_shows_received_translations
      [of "[sample_ctx NMBPF_HOOK_NFD_WRITE 3 (sample_cmd nvme_cmd_read 256)]" 2 640 3] by blast
  then show ?thesis using hit by (auto simp: Cons_eq_append_conv)
qed

text \<open>
  C25. The decision on a new request: it goes to the device with its block address translated exactly
  when it lies in one cluster that the cache maps and it is a read or the mapping is writable;
  otherwise the notified process gets it unchanged, and if it is a write inside one cluster the
  cached mapping of that cluster is dropped. Nothing else in the map changes.
\<close>

theorem rw_request_decision:
  assumes "cache_inv c" and "nm_do_rw ctx c = (verdict, ctx', c')"
    and "v = vlba_vblk (rw_slba (ctx_cmd ctx))"
    and "m = (if in_cluster (rw_slba (ctx_cmd ctx)) (rw_length (ctx_cmd ctx)) then cache_abs c v else None)"
    and "direct = (case m of None \<Rightarrow> False
           | Some (p, a) \<Rightarrow> p + vlba_off (rw_slba (ctx_cmd ctx)) \<noteq> U64_MAX \<and>
               (opcode (ctx_cmd ctx) = nvme_cmd_read \<or> bit a 1))"
  shows "verdict = (if direct then NMBPF_SEND_HQ OR NMBPF_WILL_COMPLETE_HQ
                    else NMBPF_SEND_FD OR NMBPF_HOOK_NFD_WRITE OR NMBPF_WAIT_FOR_HOOK) \<and>
         ctx' = (if direct then ctx\<lparr>ctx_cmd := set_rw_slba (fst (the m) + vlba_off (rw_slba (ctx_cmd ctx)))
                                       (ctx_cmd ctx)\<rparr> else ctx) \<and>
         cache_abs c' = (if \<not> direct \<and> opcode (ctx_cmd ctx) \<noteq> nvme_cmd_read \<and>
                            in_cluster (rw_slba (ctx_cmd ctx)) (rw_length (ctx_cmd ctx))
                         then (cache_abs c)(v := None) else cache_abs c) \<and>
         cache_inv c'"
proof -
  let ?s = "rw_slba (ctx_cmd ctx)" and ?n = "rw_length (ctx_cmd ctx)"
  obtain val ax c1 where look: "lba_lookup ?s ?n c = (val, ax, c1)" by (metis prod_cases3)
  have inv1: "cache_inv c1" and abs1: "cache_abs c1 = cache_abs c"
    using lba_lookup_inv [OF look assms(1)] lba_lookup_abs [OF look] by auto
  have res: "(val, ax) = (case m of None \<Rightarrow> (U64_MAX, 0) | Some (p, a) \<Rightarrow> (p + vlba_off ?s, a))"
    using lba_lookup_result [OF _ look] look assms(3,4) by (auto simp: lba_lookup_crossing)
  have direct: "direct \<longleftrightarrow> val \<noteq> U64_MAX \<and> (opcode (ctx_cmd ctx) = nvme_cmd_read \<or> ax AND AUXBITS_WRITABLE \<noteq> 0)"
    using res unfolding assms(5) bit_WRITABLE_and by (auto split: option.splits)
  have val: "direct \<Longrightarrow> val = fst (the m) + vlba_off ?s"
    using res assms(5) by (auto split: option.splits)
  have flush: "cache_abs (lba_flush_range ?s ?n c1) = (if in_cluster ?s ?n then (cache_abs c)(v := None) else cache_abs c)"
    and finv: "cache_inv (lba_flush_range ?s ?n c1)"
    using xcache.flush_abs [OF inv1, of "(?s, ?n)"] xcache.flush_inv [OF inv1, of "(?s, ?n)"] abs1 assms(3)
    by (simp_all add: req_flush_def req_inside_def req_key_def)
  have "nm_do_rw ctx c =
      (if direct then (NMBPF_SEND_HQ OR NMBPF_WILL_COMPLETE_HQ, ctx\<lparr>ctx_cmd := set_rw_slba val (ctx_cmd ctx)\<rparr>, c1)
       else (NMBPF_SEND_FD OR NMBPF_HOOK_NFD_WRITE OR NMBPF_WAIT_FOR_HOOK, ctx,
             if opcode (ctx_cmd ctx) \<noteq> nvme_cmd_read then lba_flush_range ?s ?n c1 else c1))"
    using direct by (auto simp: nm_do_rw_def look Let_def)
  then show ?thesis
    using assms(2) val flush finv inv1 abs1 by (auto split: if_splits)
qed

theorem rw_request_decision_witness:
  "nm_do_rw (sample_ctx NMBPF_HOOK_VSQ 0 (sample_cmd nvme_cmd_write 256)) empty_cache =
     (NMBPF_SEND_FD OR NMBPF_HOOK_NFD_WRITE OR NMBPF_WAIT_FOR_HOOK,
      sample_ctx NMBPF_HOOK_VSQ 0 (sample_cmd nvme_cmd_write 256),
      snd (snd (nm_do_rw (sample_ctx NMBPF_HOOK_VSQ 0 (sample_cmd nvme_cmd_write 256)) empty_cache)))"
proof -
  let ?ctx = "sample_ctx NMBPF_HOOK_VSQ 0 (sample_cmd nvme_cmd_write 256)"
  obtain verdict ctx' c' where run: "nm_do_rw ?ctx empty_cache = (verdict, ctx', c')"
    by (metis prod_cases3)
  have "cache_abs empty_cache x = None" for x
    by (simp add: cache_abs_None_iff way_holds_def empty_cache_def AUX_IS_VALID_bit)
  then show ?thesis
    using rw_request_decision [OF empty_cache_inv run refl refl refl] by (simp add: run)
qed

text \<open>
  An update enters its translation, keeps the invariant, and costs at most one other translation:
  one is lost only when its line is full of other tags, and only one whose way is not marked as
  recently used (so the last resort of the code, way 0, is never needed).
\<close>

theorem update_replaces_unmarked:
  assumes "cache_inv c" and "ax AND AUX_MASK = ax" and "bit ax 0"
    and "lba_update vlba plba ax c = (res, c')" and "v = vlba_vblk vlba"
  shows "res = plba + vlba_off vlba \<and> cache_inv c' \<and> cache_abs c' v = Some (plba, ax) \<and>
    (\<forall>w. w \<noteq> v \<longrightarrow> cache_abs c' w = cache_abs c w \<or>
       cache_abs c' w = None \<and> vblk_idx w = vblk_idx v \<and> cache_abs c v = None \<and>
       (\<forall>i < XCACHE_ASSOC. AUX_IS_VALID (cache_meta c (vblk_idx w)) i) \<and>
       (\<exists>i < XCACHE_ASSOC. way_holds c (vblk_idx w) (vblk_tag w) i \<and> \<not> bit (cache_meta c (vblk_idx w)) (i + 24)))"
proof -
  have c': "c' = snd (lba_update vlba plba ax c)" and res: "res = plba + vlba_off vlba"
    using assms(4) by (auto simp: lba_update_def Let_def)
  have "cache_abs c' w = cache_abs c w \<or>
       cache_abs c' w = None \<and> vblk_idx w = vblk_idx v \<and> cache_abs c v = None \<and>
       (\<forall>i < XCACHE_ASSOC. AUX_IS_VALID (cache_meta c (vblk_idx w)) i) \<and>
       (\<exists>i < XCACHE_ASSOC. way_holds c (vblk_idx w) (vblk_tag w) i \<and> \<not> bit (cache_meta c (vblk_idx w)) (i + 24))"
    if w: "w \<noteq> v" for w
  proof (cases "cache_abs c' w = cache_abs c w")
    case False
    then have "cache_abs c' w = None" "cache_abs c w \<noteq> None"
      using lba_update_abs(2) [OF assms(1-3,5) w, of plba] unfolding c' by (metis, metis)
    then show ?thesis
      using lba_update_evicts [OF assms(1-3), of w vlba plba] w assms(5) unfolding c' by blast
  qed simp
  then show ?thesis
    using res lba_update_inv [OF assms(1-3)] lba_update_abs(1) [OF assms(1-3,5)] unfolding c' by blast
qed

theorem update_replaces_unmarked_witness:
  "cache_abs (snd (lba_update 256 640 3 empty_cache)) 2 = Some (640, 3)"
  using update_replaces_unmarked [OF empty_cache_inv, of 3 256 640 "fst (lba_update 256 640 3 empty_cache)"
      "snd (lba_update 256 640 3 empty_cache)" 2]
  by (simp add: AUX_MASK_def vlba_vblk_def cache_consts)

text \<open>
  Replacement protects what was just used: a translation that a lookup has just returned is still
  there after the next update of any other cluster, even when that update has to evict.
\<close>

theorem recently_used_survives:
  assumes "cache_inv c" and "in_cluster wlba n" and "lba_lookup wlba n c = (val, ax0, c')"
    and "ax AND AUX_MASK = ax" and "bit ax 0" and "vlba_vblk wlba \<noteq> vlba_vblk vlba"
  shows "cache_abs (snd (lba_update vlba plba ax c')) (vlba_vblk wlba) = cache_abs c (vlba_vblk wlba)"
  by (rule lookup_update_keeps [OF assms])

text \<open>The cache after four updates that fill line 0, written out.\<close>

definition filled_upto :: "nat \<Rightarrow> u32 \<Rightarrow> lba_cache" where
  "filled_upto n meta =
     \<lparr>cache_tag = (\<lambda>i. if i < n then of_nat i else 0),
      cache_plba = (\<lambda>i. if i < n then of_nat i * 8388608 + 1024 else 0),
      cache_meta = (\<lambda>i. if i = 0 then meta else 0)\<rparr>"

definition filled_cache :: lba_cache where
  "filled_cache = filled_upto 4 0x80006DB"

lemma filled_steps:
  "snd (lba_update 0 1024 3 empty_cache) = filled_upto 1 0x1000003"
  "snd (lba_update 8388608 8389632 3 (filled_upto 1 0x1000003)) = filled_upto 2 0x300001B"
  "snd (lba_update 16777216 16778240 3 (filled_upto 2 0x300001B)) = filled_upto 3 0x70000DB"
  "snd (lba_update 25165824 25166848 3 (filled_upto 3 0x70000DB)) = filled_cache"
  by (simp add: filled_upto_def filled_cache_def cache_eval, simp add: fun_eq_iff)+

lemma filled_cache_inv: "cache_inv filled_cache"
proof -
  have ok: "(3 :: u32) AND AUX_MASK = 3" "bit (3 :: u32) 0" by (simp_all add: AUX_MASK_def)
  show ?thesis
    unfolding filled_steps [symmetric] by (intro lba_update_inv empty_cache_inv ok)
qed

theorem recently_used_survives_witness:
  "cache_abs (snd (lba_update 33554432 5 1 (snd (snd (lba_lookup 25165824 7 filled_cache))))) 196608 =
     Some (25166848, 3)"
proof -
  have "in_cluster 25165824 7" "vlba_vblk 25165824 = 196608"
    by (simp_all add: in_cluster_def vlba_vblk_def cache_consts)
  moreover have "cache_abs filled_cache 196608 = Some (25166848, 3)"
    by (simp add: filled_cache_def filled_upto_def cache_eval)
  ultimately show ?thesis
    using recently_used_survives [OF filled_cache_inv, of 25165824 7
        "fst (lba_lookup 25165824 7 filled_cache)" "fst (snd (lba_lookup 25165824 7 filled_cache))"
        "snd (snd (lba_lookup 25165824 7 filled_cache))" 1 33554432 5]
    by (simp add: AUX_MASK_def vlba_vblk_def cache_consts)
qed

text \<open>
  A flush of a range that lies in one cluster removes the translation of that cluster and no
  other one; a flush of a range that crosses a cluster boundary leaves the cache unchanged.
\<close>

theorem flush_removes_one_cluster:
  assumes "cache_inv c"
  shows "cache_inv (lba_flush_range vlba n c) \<and>
    (in_cluster vlba n \<longrightarrow> cache_abs (lba_flush_range vlba n c) = (cache_abs c)(vlba_vblk vlba := None)) \<and>
    (\<not> in_cluster vlba n \<longrightarrow> lba_flush_range vlba n c = c)"
  using assms
  by (simp add: lba_flush_range_in lba_flush_range_crossing flush_at_abs)
    (metis flush_at_inv lba_flush_range_in lba_flush_range_crossing)

theorem flush_removes_one_cluster_witness:
  "in_cluster 8388610 3 \<and> cache_abs (lba_flush_range 8388610 3 filled_cache) 65536 = None \<and>
   cache_abs (lba_flush_range 8388610 3 filled_cache) 0 = Some (1024, 3) \<and>
   \<not> in_cluster 126 7 \<and> lba_flush_range 126 7 filled_cache = filled_cache"
proof -
  have "in_cluster 8388610 3" "\<not> in_cluster 126 7" "vlba_vblk 8388610 = 65536"
    by (simp_all add: in_cluster_def vlba_vblk_def cache_consts)
  moreover have "cache_abs filled_cache 0 = Some (1024, 3)"
    by (simp add: filled_cache_def filled_upto_def cache_eval)
  ultimately show ?thesis
    using flush_removes_one_cluster [OF filled_cache_inv, of 8388610 3]
      flush_removes_one_cluster [OF filled_cache_inv, of 126 7] by simp
qed

text \<open>
  A write that crosses a cluster boundary is handed to the notified process, but the cached
  translations of the two clusters stay: a later write to the first cluster still goes straight to
  the old physical cluster. The check in \<open>lba_flush_range\<close> that returns early is the cause.
\<close>

theorem crossing_write_keeps_mapping:
  "fst (nm_do_rw (sample_ctx NMBPF_HOOK_VSQ 0 (sample_cmd nvme_cmd_write 124)) filled_cache) =
     NMBPF_SEND_FD OR NMBPF_HOOK_NFD_WRITE OR NMBPF_WAIT_FOR_HOOK \<and>
   cache_abs (snd (snd (nm_do_rw (sample_ctx NMBPF_HOOK_VSQ 0 (sample_cmd nvme_cmd_write 124)) filled_cache))) =
     cache_abs filled_cache \<and>
   cache_abs filled_cache (vlba_vblk 124) = Some (1024, 3)"
proof -
  let ?ctx = "sample_ctx NMBPF_HOOK_VSQ 0 (sample_cmd nvme_cmd_write 124)"
  have out: "\<not> in_cluster (rw_slba (ctx_cmd ?ctx)) (rw_length (ctx_cmd ?ctx))"
    by (simp add: sample_defs in_cluster_def vlba_vblk_def cache_consts)
  have "cache_abs filled_cache (vlba_vblk 124) = Some (1024, 3)"
    by (simp add: filled_cache_def filled_upto_def cache_eval)
  then show ?thesis
    using out by (simp add: nm_do_rw_def lba_lookup_crossing lba_flush_range_crossing Let_def)
qed

text \<open>
  A valid response is remembered: the next read of the same blocks inside one cluster, is sent to the device
  at the physical address the response named (its cluster's first block plus the offset in the
  cluster), which is also where a response that asks for forwarding sends the request itself.
\<close>

theorem response_then_read_is_direct:
  assumes "cache_inv c" and "is_response ctx"
    and "opcode (ctx_cmd ctx') = nvme_cmd_read" and "ctx_req ctx' = ctx_req ctx"
    and "in_cluster (rw_slba (ctx_cmd ctx)) (rw_length (ctx_cmd ctx))"
    and "target = fst (ctx_entry ctx) + vlba_off (rw_slba (ctx_cmd ctx))" and "target \<noteq> U64_MAX"
  shows "fst (nm_do_rw ctx' (snd (snd (nm_on_rw_respond ctx c)))) = NMBPF_SEND_HQ OR NMBPF_WILL_COMPLETE_HQ \<and>
         fst (snd (nm_do_rw ctx' (snd (snd (nm_on_rw_respond ctx c))))) =
           ctx'\<lparr>ctx_cmd := set_rw_slba target (ctx_cmd ctx')\<rparr> \<and>
         (aux0 (ctx_aux ctx) AND AUXCMD_FORWARD \<noteq> 0 \<longrightarrow>
           fst (nm_on_rw_respond ctx c) = NMBPF_SEND_HQ OR NMBPF_WILL_COMPLETE_HQ \<and>
           rw_slba (ctx_cmd (fst (snd (nm_on_rw_respond ctx c)))) = target)"
proof -
  let ?c = "snd (snd (nm_on_rw_respond ctx c))"
  let ?s = "rw_slba (ctx_cmd ctx)" and ?n = "rw_length (ctx_cmd ctx)"
  have c: "?c = req_update (ctx_req ctx) (ctx_entry ctx) c"
    using assms(2) by (simp add: nm_on_rw_respond_cache is_response_def)
  have abs: "cache_abs ?c (vlba_vblk ?s) = Some (ctx_entry ctx)"
    using xcache.update_own [OF assms(1) entry_ok_response [OF assms(2)], of "ctx_req ctx"]
    unfolding c by (simp add: req_key_def ctx_req_def)
  obtain val ax c1 where look: "lba_lookup ?s ?n ?c = (val, ax, c1)" by (metis prod_cases3)
  have "val = target"
    using lba_lookup_result [OF assms(5) look] abs assms(6) by (auto split: prod.splits)
  then have "nm_do_rw ctx' ?c =
      (NMBPF_SEND_HQ OR NMBPF_WILL_COMPLETE_HQ, ctx'\<lparr>ctx_cmd := set_rw_slba target (ctx_cmd ctx')\<rparr>, c1)"
    using look assms(3,4,7) by (simp add: nm_do_rw_def ctx_req_def)
  moreover have "fst (nm_on_rw_respond ctx c) = NMBPF_SEND_HQ OR NMBPF_WILL_COMPLETE_HQ \<and>
      rw_slba (ctx_cmd (fst (snd (nm_on_rw_respond ctx c)))) = target"
    if "aux0 (ctx_aux ctx) AND AUXCMD_FORWARD \<noteq> 0"
    using that assms(2,6,7)
    by (simp add: nm_on_rw_respond_def lba_update_def is_response_def ctx_entry_def Let_def)
  ultimately show ?thesis by simp
qed

theorem response_then_read_is_direct_witness:
  "fst (nm_do_rw (sample_ctx NMBPF_HOOK_VSQ 0 (sample_cmd nvme_cmd_read 258))
     (snd (snd (nm_on_rw_respond (sample_ctx NMBPF_HOOK_NFD_WRITE 1 (sample_cmd nvme_cmd_write 258)) empty_cache)))) =
   NMBPF_SEND_HQ OR NMBPF_WILL_COMPLETE_HQ"
proof -
  let ?r = "sample_ctx NMBPF_HOOK_NFD_WRITE 1 (sample_cmd nvme_cmd_write 258)"
    and ?q = "sample_ctx NMBPF_HOOK_VSQ 0 (sample_cmd nvme_cmd_read 258)"
  have "is_response ?r" "opcode (ctx_cmd ?q) = nvme_cmd_read" "ctx_req ?q = ctx_req ?r"
    "in_cluster (rw_slba (ctx_cmd ?r)) (rw_length (ctx_cmd ?r))"
    "642 = fst (ctx_entry ?r) + vlba_off (rw_slba (ctx_cmd ?r))"
    by (simp_all add: sample_defs is_response_def ctx_req_def in_cluster_def vlba_vblk_def vlba_off_def
        ctx_entry_def cache_consts)
  from response_then_read_is_direct [OF empty_cache_inv this] show ?thesis
    by simp
qed

end
