(* ===== verification/GuestMem.thy ===== *)
theory GuestMem
  imports NvmeCore
begin

text \<open>
  The guest memory the functions work on: \<open>struct mapping\<close> of \<open>vm.hpp\<close> and \<open>vm.cpp\<close>. A mapping is
  a span of bytes; \<open>get_page\<close>, \<open>get_u64\<close> and \<open>get_span\<close> check every offset a guest supplies.
\<close>

section \<open>Mappings\<close>

text \<open>
  The address is the one \<open>mmap\<close> returned (0 is the null pointer of a mapping that was moved from);
  the bytes are indexed from the start of the mapping.
\<close>

record mapping =
  map_addr :: u64
  map_size :: u64
  map_byte :: "nat \<Rightarrow> u8"

definition null_mapping :: mapping where
  "null_mapping = \<lparr>map_addr = 0, map_size = 0, map_byte = (\<lambda>_. 0)\<rparr>"

definition mapping_eq :: "mapping \<Rightarrow> mapping \<Rightarrow> bool" where
  "mapping_eq a b \<longleftrightarrow> map_addr a = map_addr b \<and> map_size a = map_size b"

text \<open>\<open>__builtin_add_overflow\<close> or an end beyond the span fail the check.\<close>

definition check_span :: "u64 \<Rightarrow> u64 \<Rightarrow> u64 \<Rightarrow> bool" where
  "check_span len offset sz \<longleftrightarrow>
     \<not> (2 ^ 64 \<le> unat offset + unat sz \<or> len < offset + sz)"

text \<open>
  The operations that own the memory. The list holds the regions (address, length) that
  \<open>munmap\<close> has been called on, in order.
\<close>

definition mapping_dispose :: "mapping \<Rightarrow> (u64 \<times> u64) list \<Rightarrow> mapping \<times> (u64 \<times> u64) list" where
  "mapping_dispose m unmapped =
     (if map_addr m \<noteq> 0 then (null_mapping, unmapped @ [(map_addr m, map_size m)]) else (m, unmapped))"

definition mapping_move_ctor :: "mapping \<Rightarrow> mapping \<times> mapping" where
  "mapping_move_ctor other = (other, null_mapping)"

definition mapping_move_assign ::
  "bool \<Rightarrow> mapping \<Rightarrow> mapping \<Rightarrow> (u64 \<times> u64) list \<Rightarrow> mapping \<times> mapping \<times> (u64 \<times> u64) list" where
  "mapping_move_assign same this other unmapped =
     (if same then (this, other, unmapped)
      else case mapping_dispose this unmapped of (this', unmapped') \<Rightarrow> (other, this', unmapped'))"

text \<open>A span of the mapping is named by its offset and its length.\<close>

definition get_page :: "mapping \<Rightarrow> u64 \<Rightarrow> (u64 \<times> nat) result" where
  "get_page m offset =
     (if \<not> check_span (map_size m) offset (of_nat NVME_PAGE_SIZE)
      then Inl (Out_of_range ''offset is too far'')
      else let poff = offset AND (of_nat NVME_PAGE_SIZE - 1)
           in if poff AND (8 - 1) \<noteq> 0 then Inl (Invalid_argument ''offset is not aligned'')
              else Inr (offset, unat (of_nat NVME_PAGE_SIZE - poff) div 8))"

text \<open>A 64-bit load from the little-endian bytes at an offset.\<close>

definition load_u64 :: "mapping \<Rightarrow> nat \<Rightarrow> u64" where
  "load_u64 m off = fold (\<lambda>i acc. acc OR push_bit (8 * i) (ucast (map_byte m (off + i)))) [0..<8] 0"

definition get_u64 :: "mapping \<Rightarrow> u64 \<Rightarrow> u64 result" where
  "get_u64 m offset =
     (if \<not> check_span (map_size m) offset 8 then Inl (Out_of_range ''offset is too far'')
      else Inr (load_u64 m (unat offset)))"

definition get_span :: "mapping \<Rightarrow> u64 \<Rightarrow> u64 \<Rightarrow> (u64 \<times> u64) result" where
  "get_span m offset sz =
     (if \<not> check_span (map_size m) offset sz then Inl (Out_of_range ''offset is too far'')
      else Inr (offset, sz))"

text \<open>Reading and writing the bytes of a span.\<close>

definition span_bytes :: "mapping \<Rightarrow> u64 \<times> u64 \<Rightarrow> u8 list" where
  "span_bytes m sp = map (\<lambda>i. map_byte m (unat (fst sp) + i)) [0..<unat (snd sp)]"

definition write_bytes :: "nat \<Rightarrow> u8 list \<Rightarrow> mapping \<Rightarrow> mapping" where
  "write_bytes off bs m =
     m\<lparr>map_byte := (\<lambda>i. if off \<le> i \<and> i < off + length bs then bs ! (i - off) else map_byte m i)\<rparr>"

section \<open>Facts\<close>

lemma write_bytes_frame [simp]:
  "map_size (write_bytes off bs m) = map_size m" "map_addr (write_bytes off bs m) = map_addr m"
  by (simp_all add: write_bytes_def)

lemma check_span_iff: "check_span len offset sz \<longleftrightarrow> unat offset + unat sz \<le> unat len"
proof -
  have "unat len < 2 ^ 64" using unat_bound [of len] by simp
  moreover have "unat (offset + sz) = unat offset + unat sz" if "unat offset + unat sz < 2 ^ 64"
    using that by (intro unat_add_small) simp
  ultimately show ?thesis
    by (auto simp: check_span_def word_less_nat_alt not_le not_less)
qed

lemma span_bytes_length [simp]: "length (span_bytes m sp) = unat (snd sp)"
  by (simp add: span_bytes_def)

lemma span_bytes_write_same:
  "length bs = unat (snd sp) \<Longrightarrow> span_bytes (write_bytes (unat (fst sp)) bs m) sp = bs"
  by (rule nth_equalityI) (simp_all add: span_bytes_def write_bytes_def)

lemma span_bytes_write_other:
  assumes "unat (fst sp) + unat (snd sp) \<le> off \<or> off + length bs \<le> unat (fst sp)"
  shows "span_bytes (write_bytes off bs m) sp = span_bytes m sp"
  using assms by (auto simp: span_bytes_def write_bytes_def)

lemma page_mask: "(of_nat NVME_PAGE_SIZE - 1 :: u64) = mask 12"
  by (simp add: mask_eq_exp_minus_1)

lemma unat_page_off: "unat (a AND (of_nat NVME_PAGE_SIZE - 1) :: u64) = unat a mod 4096"
  unfolding page_mask unat_and_mask by simp

lemma get_page_Inr:
  assumes "get_page m offset = Inr (off, n)"
  shows "off = offset" "unat offset + 4096 \<le> unat (map_size m)" "unat offset mod 8 = 0"
    "n = (4096 - unat offset mod 4096) div 8" "0 < n" "unat offset mod 4096 + 8 * n = 4096"
proof -
  let ?p = "offset AND (of_nat NVME_PAGE_SIZE - 1) :: u64"
  have chk: "check_span (map_size m) offset (of_nat NVME_PAGE_SIZE)" and al: "?p AND 7 = 0"
    and n: "n = unat (of_nat NVME_PAGE_SIZE - ?p) div 8" and off: "off = offset"
    using assms by (auto simp: get_page_def Let_def split: if_splits)
  have "(7 :: u64) = mask 3" by (simp add: mask_eq_exp_minus_1)
  then have "unat (?p AND 7) = unat ?p mod 2 ^ 3" by (simp only: unat_and_mask)
  then have al8: "unat offset mod 4096 mod 8 = 0" using al by (simp only: unat_page_off) simp
  have less: "unat offset mod 4096 < 4096" by simp
  have "unat (of_nat NVME_PAGE_SIZE - ?p) = 4096 - unat offset mod 4096"
    by (subst unat_sub_small) (use less in \<open>simp_all only: unat_page_off, simp_all\<close>)
  then show n': "n = (4096 - unat offset mod 4096) div 8" using n by simp
  show "off = offset" by (rule off)
  show "unat offset + 4096 \<le> unat (map_size m)" using chk by (simp add: check_span_iff)
  show "unat offset mod 8 = 0" using al8 by (simp add: mod_mod_cancel)
  obtain q where q: "unat offset mod 4096 = 8 * q" using al8 by (metis mod_0_imp_dvd dvdE)
  then have "q < 512" using less by linarith
  then show "0 < n" "unat offset mod 4096 + 8 * n = 4096" unfolding n' q by simp_all
qed

lemma get_span_Inr:
  "get_span m offset sz = Inr sp \<Longrightarrow> sp = (offset, sz) \<and> unat offset + unat sz \<le> unat (map_size m)"
  by (auto simp: get_span_def check_span_iff split: if_splits)

end
