(* ===== verification/Util.thy ===== *)
theory Util
  imports NvmeCore
begin

text \<open>
  The helpers of \<open>util.hpp\<close> that carry logic of their own: rounding. Its
  owning handles are in \<open>Handles\<close>, \<open>convert_span\<close> is in \<open>XcowFmt\<close>.
\<close>

section \<open>Rounding\<close>

definition round_up :: "u64 \<Rightarrow> u64 \<Rightarrow> u64" where
  "round_up val round = (val + (round - 1)) div round * round"

definition round_up_bits :: "u64 \<Rightarrow> nat \<Rightarrow> u64" where
  "round_up_bits val bits =
     push_bit bits (drop_bit bits (val + scast (push_bit bits (1 :: u32) - 1)))"

lemma unat_low_ones:
  assumes "bits < 31"
  shows "unat (scast (push_bit bits (1 :: u32) - 1) :: u64) = 2 ^ bits - 1"
proof -
  have u: "unat (push_bit bits (1 :: u32) - 1) = 2 ^ bits - 1"
    using assms by (subst unat_sub_small) simp_all
  have "(2::nat) ^ bits - 1 < 2 ^ 31"
    using assms power_strict_increasing [of bits 31 "2::nat"] by simp
  with u show ?thesis by (simp only: scast_u32_pos)
qed

lemma unat_round_up_bits:
  assumes "bits < 31" and "unat val + 2 ^ bits \<le> 2 ^ 64"
  shows "unat (round_up_bits val bits) = (unat val + (2 ^ bits - 1)) div 2 ^ bits * 2 ^ bits"
proof -
  define v where "v = val + scast (push_bit bits (1 :: u32) - 1)"
  have lt: "unat val + (2 ^ bits - 1) < 2 ^ 64"
    using assms(2) by (simp add: Suc_leI less_eq_Suc_le)
  then have v: "unat v = unat val + (2 ^ bits - 1)"
    unfolding v_def using assms by (subst unat_add_small) (simp_all only: unat_low_ones, simp_all)
  have "unat v div 2 ^ bits * 2 ^ bits \<le> unat v"
    by (rule div_times_less_eq_dividend)
  then have "unat v div 2 ^ bits * 2 ^ bits < 2 ^ 64"
    using lt v by linarith
  then have "unat (push_bit bits (drop_bit bits v)) = unat v div 2 ^ bits * 2 ^ bits"
    by (simp only: unat_push_bit unat_drop_bit len_of_numeral_defs) simp
  then show ?thesis by (simp only: round_up_bits_def v_def [symmetric] v)
qed

end
