(* ===== verification/BlkIter.thy ===== *)
theory BlkIter
  imports Util
begin

text \<open>
  \<open>xcow::blk_iter\<close> (\<open>xcow/blk_iter.hpp\<close>) splits a range of blocks at cluster boundaries. The
  theory models the iterator and its loop, and shows that the loop produces exactly the split
  that the reference function \<open>cluster_split\<close> describes.
\<close>

section \<open>The iterator\<close>

record blk_iter =
  bi_addr :: u64
  bi_sz :: u64
  bi_cluster_bits :: nat
  bi_next :: u64

definition blk_calc_next :: "u64 \<Rightarrow> u64 \<Rightarrow> nat \<Rightarrow> u64" where
  "blk_calc_next addr sz cbits =
     (let next = min (round_up_bits addr cbits) (addr + sz)
      in if next = addr then next + min sz (push_bit cbits 1) else next)"

definition blk_iter_init :: "u64 \<Rightarrow> u64 \<Rightarrow> nat \<Rightarrow> blk_iter" where
  "blk_iter_init addr sz cbits =
     \<lparr>bi_addr = addr, bi_sz = sz, bi_cluster_bits = cbits, bi_next = blk_calc_next addr sz cbits\<rparr>"

definition blk_size :: "blk_iter \<Rightarrow> u64" where
  "blk_size b = bi_next b - bi_addr b"

definition blk_incr :: "blk_iter \<Rightarrow> blk_iter" where
  "blk_incr b =
     (let sz = bi_sz b - blk_size b; addr = bi_next b
      in b\<lparr>bi_sz := sz, bi_addr := addr, bi_next := blk_calc_next addr sz (bi_cluster_bits b)\<rparr>)"

definition blk_at_end :: "blk_iter \<Rightarrow> bool" where
  "blk_at_end b \<longleftrightarrow> bi_sz b = 0"

definition blk_is_last :: "blk_iter \<Rightarrow> bool" where
  "blk_is_last b \<longleftrightarrow> blk_size b = bi_sz b"

text \<open>
  The loop \<open>for (; !bi.at_end(); bi++)\<close>, collecting the start and the size of every part.
  \<open>None\<close> is a loop that the fuel did not see through.
\<close>

fun blk_run :: "nat \<Rightarrow> blk_iter \<Rightarrow> (u64 \<times> u64) list option" where
  "blk_run 0 b = (if blk_at_end b then Some [] else None)"
| "blk_run (Suc fuel) b =
     (if blk_at_end b then Some []
      else map_option (Cons (bi_addr b, blk_size b)) (blk_run fuel (blk_incr b)))"

section \<open>The reference split\<close>

text \<open>Cut \<open>n\<close> blocks that start at \<open>a\<close> at every multiple of \<open>2 ^ c\<close>.\<close>

function cluster_split :: "nat \<Rightarrow> nat \<Rightarrow> nat \<Rightarrow> (nat \<times> nat) list" where
  "cluster_split a n c =
     (if n = 0 then []
      else let k = min n (2 ^ c - a mod 2 ^ c) in (a, k) # cluster_split (a + k) (n - k) c)"
  by pat_completeness auto
termination
proof (relation "measure (\<lambda>(a, n, c). n)")
  fix a n c k :: nat
  assume "n \<noteq> 0" and "k = min n (2 ^ c - a mod 2 ^ c)"
  moreover have "a mod 2 ^ c < 2 ^ c" by simp
  ultimately have "0 < k" and "k \<le> n" by (simp_all add: min_def)
  then show "((a + k, n - k, c), (a, n, c)) \<in> measure (\<lambda>(a, n, c). n)"
    using \<open>n \<noteq> 0\<close> by simp
qed simp

declare cluster_split.simps [simp del]

lemma cluster_split_0 [simp]: "cluster_split a 0 c = []"
  by (simp add: cluster_split.simps)

lemma cluster_split_sum: "sum_list (map snd (cluster_split a n c)) = n"
proof (induction a n c rule: cluster_split.induct)
  case (1 a n c)
  then show ?case
    by (cases "n = 0") (simp_all add: cluster_split.simps [of a n c] Let_def)
qed

lemma cluster_split_in_cluster:
  "(x, k) \<in> set (cluster_split a n c) \<Longrightarrow> 0 < k \<and> (x + k - 1) div 2 ^ c = x div 2 ^ c"
proof (induction a n c rule: cluster_split.induct)
  case (1 a n c)
  define j where "j = min n (2 ^ c - a mod 2 ^ c)"
  have n: "n \<noteq> 0" using "1.prems" by (auto simp: cluster_split.simps [of a n c] split: if_splits)
  have m: "a mod 2 ^ c < (2::nat) ^ c" by simp
  have j: "0 < j" "j \<le> 2 ^ c - a mod 2 ^ c" using n m by (auto simp: j_def min_def)
  from "1.prems" n consider "x = a" "k = j" | "(x, k) \<in> set (cluster_split (a + j) (n - j) c)"
    by (auto simp: cluster_split.simps [of a n c] j_def Let_def)
  then show ?case
  proof cases
    case 1
    have "a div 2 ^ c * 2 ^ c \<le> a + j - 1"
      using j(1) div_times_less_eq_dividend [of a "2 ^ c"] by linarith
    moreover have "a + j - 1 < a div 2 ^ c * 2 ^ c + 2 ^ c"
      using j m div_mult_mod_eq [of a "2 ^ c"] by linarith
    ultimately have "(a + j - 1) div 2 ^ c = a div 2 ^ c"
      by (intro div_nat_eqI) (simp_all add: algebra_simps)
    with 1 j show ?thesis by simp
  next
    case 2
    with "1.IH" [OF n j_def] show ?thesis by simp
  qed
qed

lemma cluster_split_consecutive:
  "i < length (cluster_split a n c) \<Longrightarrow>
   fst (cluster_split a n c ! i) = a + sum_list (map snd (take i (cluster_split a n c)))"
proof (induction a n c arbitrary: i rule: cluster_split.induct)
  case (1 a n c)
  define j where "j = min n (2 ^ c - a mod 2 ^ c)"
  have n: "n \<noteq> 0" using "1.prems" by (auto simp: cluster_split.simps [of a n c] split: if_splits)
  then have eq: "cluster_split a n c = (a, j) # cluster_split (a + j) (n - j) c"
    by (simp add: cluster_split.simps [of a n c] j_def Let_def)
  show ?case
  proof (cases i)
    case 0
    then show ?thesis by (simp add: eq)
  next
    case (Suc i')
    with "1.prems" have "i' < length (cluster_split (a + j) (n - j) c)" by (simp add: eq)
    with "1.IH" [OF n j_def] Suc show ?thesis by (simp add: eq)
  qed
qed

section \<open>The iterator implements the split\<close>

definition blk_ok :: "blk_iter \<Rightarrow> bool" where
  "blk_ok b \<longleftrightarrow> bi_cluster_bits b < 31 \<and>
     unat (bi_addr b) + unat (bi_sz b) + 2 ^ bi_cluster_bits b \<le> 2 ^ 64 \<and>
     bi_next b = blk_calc_next (bi_addr b) (bi_sz b) (bi_cluster_bits b)"

lemma round_up_split:
  fixes a :: nat
  shows "(a + (2 ^ c - 1)) div 2 ^ c * 2 ^ c =
    (if a mod 2 ^ c = 0 then a else a + (2 ^ c - a mod 2 ^ c))"
proof -
  define q r where "q = a div 2 ^ c" and "r = a mod 2 ^ c"
  have a: "a = q * 2 ^ c + r" and r: "r < 2 ^ c"
    by (simp_all only: q_def r_def div_mult_mod_eq) simp
  show ?thesis
  proof (cases "r = 0")
    case True
    have "(2::nat) ^ c - 1 < 2 ^ c" by simp
    then have "(q * 2 ^ c + (2 ^ c - 1)) div 2 ^ c = q" by (simp only: div_mult_self3) simp
    with True a show ?thesis by (simp add: r_def [symmetric])
  next
    case False
    have "1 \<le> (2::nat) ^ c" by simp
    then have "q * 2 ^ c + r + (2 ^ c - 1) = (q + 1) * 2 ^ c + (r - 1)"
      using False by (simp only: distrib_right)
    moreover have "((q + 1) * 2 ^ c + (r - 1)) div 2 ^ c = q + 1"
      using r by (simp add: div_add1_eq)
    ultimately have "(a + (2 ^ c - 1)) div 2 ^ c = q + 1" by (simp only: a)
    with False a r show ?thesis by (simp add: r_def [symmetric] algebra_simps)
  qed
qed

lemma unat_add_block:
  fixes a n :: u64
  assumes "c < 31" "unat a + unat n + 2 ^ c \<le> 2 ^ 64"
  shows "unat (a + n) = unat a + unat n" "unat (a + min n (push_bit c 1)) = unat a + min (unat n) (2 ^ c)"
proof -
  have lt: "unat a + unat n < 2 ^ 64" using assms(2) zero_less_power [of "2 :: nat" c] by linarith
  have c64: "unat (push_bit c (1 :: u64)) = 2 ^ c" using assms(1) by simp
  show "unat (a + n) = unat a + unat n" by (rule unat_add_small) (use lt in simp)
  show "unat (a + min n (push_bit c 1)) = unat a + min (unat n) (2 ^ c)"
    by (subst unat_add_small) (use lt in \<open>simp_all only: unat_min c64\<close>, simp)
qed

lemma unat_blk_calc_next:
  assumes "c < 31" and "unat a + unat n + 2 ^ c \<le> 2 ^ 64"
  shows "unat (blk_calc_next a n c) = unat a + min (unat n) (2 ^ c - unat a mod 2 ^ c)"
proof -
  define m where "m = min (round_up_bits a c) (a + n)"
  note sums = unat_add_block [OF assms]
  have um: "unat m = min (if unat a mod 2 ^ c = 0 then unat a
      else unat a + (2 ^ c - unat a mod 2 ^ c)) (unat a + unat n)"
    using assms by (simp only: m_def unat_min sums(1) unat_round_up_bits round_up_split)
  have lt: "unat a mod 2 ^ c < (2::nat) ^ c" by simp
  show ?thesis
  proof (cases "m = a")
    case True
    have "unat n = 0" if "unat a mod 2 ^ c \<noteq> 0" using um lt unfolding True if_not_P [OF that] by linarith
    then have "unat a mod 2 ^ c = 0 \<or> n = 0" by (auto simp: unat_eq_0)
    then show ?thesis
      using True sums(2) by (auto simp: blk_calc_next_def m_def [symmetric] Let_def)
  next
    case False
    then have "unat m \<noteq> unat a" by (auto intro: word_eq_unatI)
    then have "unat a mod 2 ^ c \<noteq> 0" using um by (cases "unat a mod 2 ^ c = 0") simp_all
    moreover from False have "blk_calc_next a n c = m"
      by (simp add: blk_calc_next_def m_def [symmetric] Let_def)
    ultimately show ?thesis using um by (simp add: min_add_distrib_right min.commute add.commute)
  qed
qed

lemma blk_ok_init:
  assumes "c < 31" and "unat a + unat n + 2 ^ c \<le> 2 ^ 64"
  shows "blk_ok (blk_iter_init a n c)"
  using assms by (simp add: blk_ok_def blk_iter_init_def)

definition blk_part :: "blk_iter \<Rightarrow> nat" where
  "blk_part b = min (unat (bi_sz b)) (2 ^ bi_cluster_bits b - unat (bi_addr b) mod 2 ^ bi_cluster_bits b)"

lemma blk_ok_size:
  assumes "blk_ok b"
  shows "unat (blk_size b) = blk_part b"
proof -
  have "unat (bi_next b) = unat (bi_addr b) + blk_part b"
    using assms unat_blk_calc_next by (simp add: blk_ok_def blk_part_def)
  then show ?thesis by (simp add: blk_size_def unat_sub_small)
qed

lemma blk_ok_incr:
  assumes "blk_ok b"
  shows "blk_ok (blk_incr b)"
    and "unat (bi_addr (blk_incr b)) = unat (bi_addr b) + blk_part b"
    and "unat (bi_sz (blk_incr b)) = unat (bi_sz b) - blk_part b"
    and "bi_cluster_bits (blk_incr b) = bi_cluster_bits b"
proof -
  have nxt: "unat (bi_next b) = unat (bi_addr b) + blk_part b"
    using assms unat_blk_calc_next by (simp add: blk_ok_def blk_part_def)
  have le: "blk_part b \<le> unat (bi_sz b)" by (simp add: blk_part_def)
  show a: "unat (bi_addr (blk_incr b)) = unat (bi_addr b) + blk_part b"
    by (simp add: blk_incr_def Let_def nxt)
  show s: "unat (bi_sz (blk_incr b)) = unat (bi_sz b) - blk_part b"
    using le by (simp add: blk_incr_def Let_def unat_sub_small blk_ok_size assms)
  show "bi_cluster_bits (blk_incr b) = bi_cluster_bits b"
    by (simp add: blk_incr_def Let_def)
  then show "blk_ok (blk_incr b)"
    using assms a s le by (simp add: blk_ok_def) (simp add: blk_incr_def Let_def)
qed

lemma blk_part_pos: "\<not> blk_at_end b \<Longrightarrow> 0 < blk_part b"
  by (simp add: blk_at_end_def blk_part_def unat_gt_0)

abbreviation unat_pair :: "u64 \<times> u64 \<Rightarrow> nat \<times> nat" where
  "unat_pair \<equiv> map_prod unat unat"

lemma blk_run_split:
  assumes "blk_ok b" and "unat (bi_sz b) \<le> fuel"
  shows "\<exists>ps. blk_run fuel b = Some ps \<and>
    map unat_pair ps = cluster_split (unat (bi_addr b)) (unat (bi_sz b)) (bi_cluster_bits b)"
  using assms
proof (induction fuel arbitrary: b)
  case 0
  then show ?case by (simp add: blk_at_end_def unat_eq_0)
next
  case (Suc fuel)
  show ?case
  proof (cases "blk_at_end b")
    case True
    then show ?thesis by (simp add: blk_at_end_def)
  next
    case False
    note inc = blk_ok_incr [OF Suc.prems(1)]
    have pos: "0 < blk_part b" by (rule blk_part_pos [OF False])
    then have "unat (bi_sz (blk_incr b)) \<le> fuel" using Suc.prems(2) inc(3) by simp
    from Suc.IH [OF inc(1) this] obtain ps where ps: "blk_run fuel (blk_incr b) = Some ps"
      "map unat_pair ps = cluster_split (unat (bi_addr b) + blk_part b)
         (unat (bi_sz b) - blk_part b) (bi_cluster_bits b)"
      using inc by auto
    have "unat (bi_sz b) \<noteq> 0" using False by (simp add: blk_at_end_def unat_eq_0)
    then have "cluster_split (unat (bi_addr b)) (unat (bi_sz b)) (bi_cluster_bits b) =
      (unat (bi_addr b), blk_part b) # map unat_pair ps"
      by (simp add: cluster_split.simps [of "unat (bi_addr b)"] blk_part_def [symmetric] Let_def ps(2))
    then show ?thesis using False ps(1) blk_ok_size [OF Suc.prems(1)] by simp
  qed
qed

end
