(* ===== verification/Prp.thy ===== *)
theory Prp
  imports GuestMem BlkIter
begin

text \<open>
  The physical region pages of a command: \<open>prp_chain_iter\<close> of \<open>prp.hpp\<close> and \<open>prp.cpp\<close>. The
  iterator walks the two entries of the command and then the list pages in guest memory, each of
  whose last entries may link to the next list. Assertions are compiled out of the release build
  (\<open>-DNDEBUG\<close>); what they assert is proved below where it holds.
\<close>

section \<open>The iterator\<close>

text \<open>
  A list of entries is either the pair inside the command or a view of a guest page, which is
  read each time an entry is needed (the guest, or the data path itself, can change it).
\<close>

datatype prp_list = Cmd_list "u64 list" | Page_list u64 nat

record prp_chain_iter =
  prpl :: prp_list
  prpi :: nat
  prp_nbytes :: u64

fun prp_list_size :: "prp_list \<Rightarrow> nat" where
  "prp_list_size (Cmd_list es) = length es"
| "prp_list_size (Page_list off n) = n"

fun prp_entry :: "mapping \<Rightarrow> prp_list \<Rightarrow> nat \<Rightarrow> u64 result" where
  "prp_entry m (Cmd_list es) i =
     (if i < length es then Inr (es ! i) else Inl (Undefined ''prp list index''))"
| "prp_entry m (Page_list off n) i =
     (if i < n then Inr (load_u64 m (unat off + 8 * i)) else Inl (Undefined ''prp list index''))"

definition prp_at_end :: "prp_chain_iter \<Rightarrow> bool" where
  "prp_at_end it \<longleftrightarrow> prp_nbytes it = 0"

text \<open>\<open>_prpl.size() - 1\<close> is unsigned: an empty list would make it the largest index.\<close>

definition prp_is_data :: "prp_chain_iter \<Rightarrow> bool" where
  "prp_is_data it \<longleftrightarrow>
     prp_list_size (prpl it) = 0 \<or> prpi it < prp_list_size (prpl it) - 1 \<or>
     prp_nbytes it \<le> of_nat NVME_PAGE_SIZE"

definition prp_this_nbytes :: "mapping \<Rightarrow> prp_chain_iter \<Rightarrow> u64 result" where
  "prp_this_nbytes m it =
     rbind (prp_entry m (prpl it) (prpi it)) (\<lambda>e.
       let poff = e AND (of_nat NVME_PAGE_SIZE - 1)
       in Inr (if prp_is_data it then min (of_nat NVME_PAGE_SIZE - poff) (prp_nbytes it) else 0))"

definition prp_deref :: "mapping \<Rightarrow> prp_chain_iter \<Rightarrow> u64 result" where
  "prp_deref m it =
     (if prp_at_end it then Inl (Runtime_error ''tried to dereference prp iter beyond end'')
      else prp_entry m (prpl it) (prpi it))"

definition prp_incr :: "mapping \<Rightarrow> prp_chain_iter \<Rightarrow> prp_chain_iter result" where
  "prp_incr m it =
     (if prp_at_end it then Inl (Runtime_error ''tried to advance prp iter beyond end'')
      else rbind (prp_this_nbytes m it) (\<lambda>n.
        let it1 = it\<lparr>prp_nbytes := prp_nbytes it - n, prpi := prpi it + 1\<rparr>
        in if \<not> prp_is_data it1
           then rbind (prp_deref m it1) (\<lambda>next_prpl.
                  rbind (get_page m next_prpl) (\<lambda>(off, n).
                    Inr (it1\<lparr>prpl := Page_list off n, prpi := 0\<rparr>)))
           else Inr it1))"

text \<open>The iterator a command starts with: its two entries and the bytes to transfer.\<close>

definition prp_init :: "u64 \<Rightarrow> u64 \<Rightarrow> u64 \<Rightarrow> prp_chain_iter" where
  "prp_init p1 p2 nbytes = \<lparr>prpl = Cmd_list [p1, p2], prpi = 0, prp_nbytes = nbytes\<rparr>"

text \<open>
  The loop over all parts of the buffer, as every handler writes it: until the end, take the
  address and the size of the current part and advance.
\<close>

definition prp_part :: "mapping \<Rightarrow> prp_chain_iter \<Rightarrow> (u64 \<times> u64) result" where
  "prp_part m it = rbind (prp_deref m it) (\<lambda>a. rbind (prp_this_nbytes m it) (\<lambda>n. Inr (a, n)))"

definition prp_walk :: "nat \<Rightarrow> mapping \<Rightarrow> prp_chain_iter \<Rightarrow> (u64 \<times> u64) list result option" where
  "prp_walk fuel m it = collect fuel prp_at_end (prp_part m) (prp_incr m) it"

section \<open>One step\<close>

lemma prp_this_nbytes_Inr:
  assumes "prp_this_nbytes m it = Inr n"
  obtains e where "prp_entry m (prpl it) (prpi it) = Inr e"
    "unat n = (if prp_is_data it then min (4096 - unat e mod 4096) (unat (prp_nbytes it)) else 0)"
proof -
  obtain e where e: "prp_entry m (prpl it) (prpi it) = Inr e"
    and n: "n = (if prp_is_data it then min (of_nat NVME_PAGE_SIZE - (e AND (of_nat NVME_PAGE_SIZE - 1)))
                  (prp_nbytes it) else 0)"
    using assms by (auto simp: prp_this_nbytes_def Let_def rbind_Inr_iff)
  have le: "unat (e AND (of_nat NVME_PAGE_SIZE - 1)) \<le> unat (of_nat NVME_PAGE_SIZE :: u64)"
    unfolding unat_page_off by (simp add: less_imp_le)
  have "unat (of_nat NVME_PAGE_SIZE - (e AND (of_nat NVME_PAGE_SIZE - 1))) = 4096 - unat e mod 4096"
    unfolding unat_sub_small [OF le] unat_page_off by simp
  then show ?thesis using that [OF e] n by (simp add: unat_min)
qed

definition prp_ok :: "prp_chain_iter \<Rightarrow> bool" where
  "prp_ok it \<longleftrightarrow> prp_at_end it \<or> prp_is_data it"

text \<open>A data entry moves at least one byte and never more than what remains.\<close>

lemma prp_this_nbytes_bounds:
  assumes "prp_this_nbytes m it = Inr n" "prp_is_data it" "\<not> prp_at_end it"
  shows "0 < unat n" "unat n \<le> unat (prp_nbytes it)" "unat n \<le> 4096"
proof -
  obtain e :: u64 where e: "unat n = min (4096 - unat e mod 4096) (unat (prp_nbytes it))"
    using assms by (auto elim: prp_this_nbytes_Inr)
  have "0 < unat (prp_nbytes it)" using assms(3) by (simp add: prp_at_end_def unat_gt_0)
  moreover have "unat e mod 4096 < 4096" by simp
  ultimately show "0 < unat n" "unat n \<le> unat (prp_nbytes it)" "unat n \<le> 4096"
    using e by (simp_all add: min_def split: if_splits)
qed

lemma prp_incr_nbytes:
  assumes "prp_incr m it = Inr it'"
  obtains n where "prp_this_nbytes m it = Inr n" "\<not> prp_at_end it" "prp_nbytes it' = prp_nbytes it - n"
  using assms
  by (auto simp: prp_incr_def Let_def rbind_Inr_iff split: if_splits)

text \<open>On an entry that is neither data nor followed by another one, advancing fails.\<close>

lemma prp_incr_stuck:
  assumes "\<not> prp_is_data it" "\<not> prp_at_end it"
  shows "\<exists>e. prp_incr m it = Inl e"
proof (cases "prp_this_nbytes m it")
  case (Inr n)
  then have n: "n = 0" using assms(1) by (auto simp: prp_this_nbytes_def Let_def rbind_Inr_iff)
  let ?it1 = "it\<lparr>prp_nbytes := prp_nbytes it, prpi := prpi it + 1\<rparr>"
  have nd: "\<not> prp_is_data ?it1" "\<not> prp_at_end ?it1"
    using assms by (auto simp: prp_is_data_def prp_at_end_def)
  have "prp_list_size (prpl it) \<le> prpi it + 1" using assms(1) by (auto simp: prp_is_data_def)
  then have "prp_entry m (prpl it) (prpi it + 1) = Inl (Undefined ''prp list index'')"
    by (cases "prpl it") simp_all
  then have "prp_deref m ?it1 = Inl (Undefined ''prp list index'')"
    using nd(2) by (simp add: prp_deref_def)
  then show ?thesis
    using assms(2) Inr n nd(1) by (simp add: prp_incr_def Let_def)
qed (use assms in \<open>simp add: prp_incr_def\<close>)

lemma prp_incr_data:
  assumes "prp_incr m it = Inr it'"
  obtains a n where "prp_deref m it = Inr a" "prp_this_nbytes m it = Inr n" "prp_nbytes it' = prp_nbytes it - n"
    "0 < unat n" "unat a mod 4096 + unat n \<le> 4096" "unat n \<le> unat (prp_nbytes it)"
    "unat n = min (4096 - unat a mod 4096) (unat (prp_nbytes it))"
proof -
  obtain n where n: "prp_this_nbytes m it = Inr n" "\<not> prp_at_end it" "prp_nbytes it' = prp_nbytes it - n"
    using assms by (rule prp_incr_nbytes)
  have data: "prp_is_data it" using prp_incr_stuck [OF _ n(2), of m] assms by auto
  obtain a where a: "prp_entry m (prpl it) (prpi it) = Inr a"
    "unat n = min (4096 - unat a mod 4096) (unat (prp_nbytes it))"
    using n(1) data by (auto intro: prp_this_nbytes_Inr)
  have lt: "unat a mod 4096 < 4096" by simp
  show ?thesis
  proof (rule that [OF _ n(1) n(3) prp_this_nbytes_bounds(1) [OF n(1) data n(2)] _
        prp_this_nbytes_bounds(2) [OF n(1) data n(2)] a(2)])
    show "prp_deref m it = Inr a" using a(1) n(2) by (simp add: prp_deref_def)
    show "unat a mod 4096 + unat n \<le> 4096" using a(2) lt by linarith
  qed
qed

section \<open>The whole walk\<close>

text \<open>Every step moves at least one byte, so the number of bytes bounds the steps.\<close>

lemma prp_walk_total: "unat (prp_nbytes it) \<le> fuel \<Longrightarrow> prp_walk fuel m it \<noteq> None"
proof (induction fuel arbitrary: it)
  case 0
  then show ?case by (simp add: prp_walk_def prp_at_end_def unat_eq_zero)
next
  case (Suc fuel)
  show ?case
  proof (cases "prp_incr m it")
    case (Inl e)
    then show ?thesis by (auto simp: prp_walk_def split: sum.split)
  next
    case (Inr it')
    then obtain a n where "prp_nbytes it' = prp_nbytes it - n" "0 < unat n" "unat n \<le> unat (prp_nbytes it)"
      by (rule prp_incr_data)
    then have "unat (prp_nbytes it') \<le> fuel" using Suc.prems by (simp add: unat_sub_small)
    from Suc.IH [OF this] Inr show ?thesis by (auto simp: prp_walk_def split: sum.split)
  qed
qed

lemma prp_walk_step:
  assumes "prp_walk (Suc fuel) m it = Some (Inr cs)" "\<not> prp_at_end it"
  obtains it' a n cs' where "prp_incr m it = Inr it'" "prp_deref m it = Inr a"
    "prp_this_nbytes m it = Inr n" "cs = (a, n) # cs'"
    "prp_walk fuel m it' = Some (Inr cs')"
    "prp_nbytes it' = prp_nbytes it - n" "0 < unat n" "unat a mod 4096 + unat n \<le> 4096"
    "unat n \<le> unat (prp_nbytes it)" "unat n = min (4096 - unat a mod 4096) (unat (prp_nbytes it))"
proof -
  obtain x it' cs' where 1: "prp_part m it = Inr x" "prp_incr m it = Inr it'" "cs = x # cs'"
    "prp_walk fuel m it' = Some (Inr cs')"
    using assms unfolding prp_walk_def by (rule collect_step)
  from 1(2) obtain a n where an: "prp_deref m it = Inr a" "prp_this_nbytes m it = Inr n"
    "prp_nbytes it' = prp_nbytes it - n" "0 < unat n" "unat a mod 4096 + unat n \<le> 4096"
    "unat n \<le> unat (prp_nbytes it)" "unat n = min (4096 - unat a mod 4096) (unat (prp_nbytes it))"
    by (rule prp_incr_data)
  have "x = (a, n)" using 1(1) an(1,2) by (simp add: prp_part_def)
  then show ?thesis using that 1 an by blast
qed

lemma prp_walk_0: "prp_walk 0 m it = Some (Inr cs) \<Longrightarrow> prp_at_end it \<and> cs = []"
  by (auto simp: prp_walk_def split: if_splits)

lemma prp_walk_end: "prp_at_end it \<Longrightarrow> prp_walk fuel m it = Some (Inr [])"
  by (cases fuel) (simp_all add: prp_walk_def)

lemma prp_walk_covers:
  "prp_walk fuel m it = Some (Inr cs) \<Longrightarrow>
   sum_list (map (unat \<circ> snd) cs) = unat (prp_nbytes it) \<and>
   (\<forall>(a, n) \<in> set cs. 0 < unat n \<and> unat a mod 4096 + unat n \<le> 4096)"
proof (induction fuel arbitrary: it cs)
  case 0
  then show ?case by (auto simp: prp_at_end_def dest: prp_walk_0)
next
  case (Suc fuel)
  show ?case
  proof (cases "prp_at_end it")
    case True
    then show ?thesis using Suc.prems prp_walk_end [OF True] by (simp add: prp_at_end_def)
  next
    case False
    with Suc.prems obtain it' a n cs' where st: "cs = (a, n) # cs'" "prp_walk fuel m it' = Some (Inr cs')"
      "prp_nbytes it' = prp_nbytes it - n" "0 < unat n" "unat a mod 4096 + unat n \<le> 4096"
      "unat n \<le> unat (prp_nbytes it)"
      by (rule prp_walk_step)
    with Suc.IH [OF st(2)] show ?thesis by (simp add: unat_sub_small)
  qed
qed

lemma prp_walk_first:
  assumes "prp_walk fuel m (prp_init p1 p2 nbytes) = Some (Inr cs)" "nbytes \<noteq> 0"
  shows "fst (hd cs) = p1"
proof (cases fuel)
  case 0
  then show ?thesis using assms by (auto simp: prp_at_end_def prp_init_def dest: prp_walk_0)
next
  case (Suc f)
  have "prp_deref m (prp_init p1 p2 nbytes) = Inr p1" "\<not> prp_at_end (prp_init p1 p2 nbytes)"
    using assms(2) by (simp_all add: prp_init_def prp_deref_def prp_at_end_def)
  moreover from this obtain a n cs' where "prp_deref m (prp_init p1 p2 nbytes) = Inr a" "cs = (a, n) # cs'"
    using prp_walk_step [OF assms(1) [unfolded Suc]] by blast
  ultimately show ?thesis by simp
qed

lemma cluster_split_sizes_cong:
  "a mod 2 ^ c = b mod 2 ^ c \<Longrightarrow> map snd (cluster_split a n c) = map snd (cluster_split b n c)"
proof (induction a n c arbitrary: b rule: cluster_split.induct)
  case (1 a n c)
  define k where "k = min n (2 ^ c - a mod 2 ^ c)"
  have "(a + k) mod 2 ^ c = (b + k) mod 2 ^ c" using "1.prems" by (metis mod_add_left_eq)
  then have "n \<noteq> 0 \<Longrightarrow> map snd (cluster_split (a + k) (n - k) c) = map snd (cluster_split (b + k) (n - k) c)"
    using "1.IH" k_def by blast
  then show ?case
    using "1.prems" by (simp add: cluster_split.simps [of a n c] cluster_split.simps [of b n c] Let_def k_def)
qed

text \<open>With page-aligned later entries the parts are the page-wise split of the buffer.\<close>

lemma prp_walk_split:
  "prp_walk fuel m it = Some (Inr cs) \<Longrightarrow> \<forall>(a, n) \<in> set (tl cs). unat a mod 4096 = 0 \<Longrightarrow>
   cs \<noteq> [] \<Longrightarrow>
   map (unat \<circ> snd) cs = map snd (cluster_split (unat (fst (hd cs))) (unat (prp_nbytes it)) 12)"
proof (induction fuel arbitrary: it cs)
  case 0
  then show ?case by (auto dest: prp_walk_0)
next
  case (Suc fuel)
  have "\<not> prp_at_end it" using Suc.prems(1,3) by (auto simp: prp_walk_end)
  with Suc.prems(1) obtain it' a n cs' where st: "cs = (a, n) # cs'" "prp_walk fuel m it' = Some (Inr cs')"
    "prp_nbytes it' = prp_nbytes it - n" "0 < unat n" "unat n \<le> unat (prp_nbytes it)"
    "unat n = min (4096 - unat a mod 4096) (unat (prp_nbytes it))"
    by (rule prp_walk_step)
  have rest: "map (unat \<circ> snd) cs' = map snd (cluster_split (unat a + unat n) (unat (prp_nbytes it) - unat n) 12)"
  proof (cases cs')
    case Nil
    then have "unat (prp_nbytes it') = 0" using prp_walk_covers [OF st(2)] by simp
    then show ?thesis using Nil st by (simp add: unat_sub_small)
  next
    case (Cons c cs'')
    have al: "unat (fst c) mod 4096 = 0" "\<forall>(a, n) \<in> set (tl cs'). unat a mod 4096 = 0"
      using Suc.prems(2) st(1) Cons by auto
    have more: "unat n < unat (prp_nbytes it)"
      using prp_walk_covers [OF st(2)] Cons st(3,5) by (auto simp: unat_sub_small)
    have eq: "unat n = 4096 - unat a mod 4096" using st(6) more by linarith
    have full: "(unat a + unat n) mod 4096 = 0"
    proof -
      have "unat a mod 4096 < 4096" by simp
      then have "unat a + unat n = unat a div 4096 * 4096 + 4096"
        unfolding eq using div_mult_mod_eq [of "unat a" 4096] by linarith
      then show ?thesis by simp
    qed
    have "map (unat \<circ> snd) cs' = map snd (cluster_split (unat (fst c)) (unat (prp_nbytes it')) 12)"
      using Suc.IH [OF st(2) al(2)] Cons by (simp add: comp_def)
    also have "\<dots> = map snd (cluster_split (unat a + unat n) (unat (prp_nbytes it')) 12)"
      by (rule cluster_split_sizes_cong) (use al(1) full in simp)
    finally show ?thesis using st(3,5) by (simp add: unat_sub_small)
  qed
  show ?case
    using st rest by (simp add: cluster_split.simps [of "unat a" "unat (prp_nbytes it)"] Let_def min.commute comp_def)
qed

section \<open>The chain of lists\<close>

text \<open>
  What the entries of a command say, read list by list: the parts that are reached, and the error that ends the chain, if any. Every entry
  of a list but the last is data; the last is data when at most a page remains, and otherwise the address of the next list.
\<close>

definition page_entries :: "mapping \<Rightarrow> u64 \<Rightarrow> nat \<Rightarrow> u64 list" where
  "page_entries m off n = map (\<lambda>i. load_u64 m (unat off + 8 * i)) [0..<n]"

definition list_overrun :: cpp_exn where
  "list_overrun = Undefined ''prp list index''"

function chain_parts :: "mapping \<Rightarrow> u64 list \<Rightarrow> nat \<Rightarrow> (u64 \<times> u64) list \<times> cpp_exn option" where
  "chain_parts m [] n = ([], if n = 0 then None else Some list_overrun)"
| "chain_parts m (e # es) n =
     (if n = 0 then ([], None)
      else if es \<noteq> [] \<or> n \<le> NVME_PAGE_SIZE
      then let k = min (NVME_PAGE_SIZE - unat e mod NVME_PAGE_SIZE) n
           in case chain_parts m es (n - k) of (ps, err) \<Rightarrow> ((e, of_nat k) # ps, err)
      else case get_page m e of
             Inl x \<Rightarrow> ([], Some x)
           | Inr (off, cnt) \<Rightarrow> if cnt < 2 then ([], Some list_overrun) else chain_parts m (page_entries m off cnt) n)"
  by pat_completeness auto
termination
  by (relation "measures [\<lambda>(m, es, n). n, \<lambda>(m, es, n). if length es = 1 then 1 else 0]") (auto simp: page_entries_def)

declare chain_parts.simps [simp del]

fun list_entries :: "mapping \<Rightarrow> prp_list \<Rightarrow> u64 list" where
  "list_entries m (Cmd_list es) = es"
| "list_entries m (Page_list off n) = page_entries m off n"

definition entries_left :: "mapping \<Rightarrow> prp_chain_iter \<Rightarrow> u64 list" where
  "entries_left m it = drop (prpi it) (list_entries m (prpl it))"

lemma length_list_entries [simp]: "length (list_entries m l) = prp_list_size l"
  by (cases l) (simp_all add: page_entries_def)

lemma prp_entry_list: "prp_entry m l i = (if i < prp_list_size l then Inr (list_entries m l ! i) else Inl list_overrun)"
  by (cases l) (simp_all add: page_entries_def list_overrun_def)

lemma entries_left_cases:
  "(if prpi it < prp_list_size (prpl it)
    then entries_left m it = list_entries m (prpl it) ! prpi it # entries_left m (it\<lparr>prpi := prpi it + 1\<rparr>)
    else entries_left m it = [])"
  by (simp add: entries_left_def Cons_nth_drop_Suc)

text \<open>One step of the iterator is one step along the chain.\<close>

lemma part_size_n:
  assumes "prp_is_data it" "prp_entry m (prpl it) (prpi it) = Inr e"
  shows "\<exists>k. prp_this_nbytes m it = Inr k \<and> unat k = min (4096 - unat e mod 4096) (unat (prp_nbytes it))"
proof -
  obtain k where k: "prp_this_nbytes m it = Inr k" using assms(2) by (simp add: prp_this_nbytes_def Let_def)
  then show ?thesis using assms by (auto elim!: prp_this_nbytes_Inr)
qed

lemma chain_step:
  fixes m :: mapping
  assumes it: "prp_is_data it" "\<not> prp_at_end it" and e: "prpi it < prp_list_size (prpl it)"
  defines "c \<equiv> list_entries m (prpl it) ! prpi it" and "rest \<equiv> entries_left m (it\<lparr>prpi := prpi it + 1\<rparr>)"
  obtains k where "prp_part m it = Inr (c, k)" "0 < unat k" "unat k \<le> unat (prp_nbytes it)"
    "chain_parts m (entries_left m it) (unat (prp_nbytes it)) =
      (case chain_parts m rest (unat (prp_nbytes it - k)) of (ps, err) \<Rightarrow> ((c, k) # ps, err))"
    "case prp_incr m it of
       Inr it' \<Rightarrow> prp_nbytes it' = prp_nbytes it - k \<and>
         (if prp_is_data it' \<or> prp_at_end it' then chain_parts m (entries_left m it') (unat (prp_nbytes it - k)) = chain_parts m rest (unat (prp_nbytes it - k))
          else prpi it' < prp_list_size (prpl it') \<and> chain_parts m rest (unat (prp_nbytes it - k)) = ([], Some list_overrun))
     | Inl x \<Rightarrow> chain_parts m rest (unat (prp_nbytes it - k)) = ([], Some x)"
proof -
  have c: "prp_entry m (prpl it) (prpi it) = Inr c" using e by (simp add: prp_entry_list c_def)
  obtain k where k: "prp_this_nbytes m it = Inr k" "unat k = min (4096 - unat c mod 4096) (unat (prp_nbytes it))"
    using part_size_n [OF it(1) c] by blast
  have b: "0 < unat k" "unat k \<le> unat (prp_nbytes it)" using prp_this_nbytes_bounds [OF k(1) it] by simp_all
  have nz: "unat (prp_nbytes it) \<noteq> 0" using it(2) by (simp add: prp_at_end_def unat_eq_zero)
  let ?n = "unat (prp_nbytes it - k)" and ?it1 = "it\<lparr>prp_nbytes := prp_nbytes it - k, prpi := prpi it + 1\<rparr>"
  have n: "?n = unat (prp_nbytes it) - unat k" by (rule unat_sub_small [OF b(2)])
  have left: "entries_left m it = c # rest" using e entries_left_cases [of it m] by (simp add: c_def rest_def)
  have rest1: "rest = entries_left m ?it1" by (simp add: rest_def entries_left_def)
  have len: "length rest = prp_list_size (prpl it) - prpi it - 1" by (simp add: rest_def entries_left_def)
  have d: "rest \<noteq> [] \<or> unat (prp_nbytes it) \<le> 4096"
    using it(1) e len by (auto simp: prp_is_data_def word_le_nat_alt)
  have mk: "min (4096 - unat c mod 4096) (unat (prp_nbytes it)) = unat k" using k(2) by simp
  have ch: "chain_parts m (entries_left m it) (unat (prp_nbytes it)) =
      (case chain_parts m rest ?n of (ps, err) \<Rightarrow> ((c, k) # ps, err))"
    unfolding left n using nz d by (subst chain_parts.simps) (simp add: Let_def mk)
  have incr: "case prp_incr m it of
       Inr it' \<Rightarrow> prp_nbytes it' = prp_nbytes it - k \<and>
         (if prp_is_data it' \<or> prp_at_end it' then chain_parts m (entries_left m it') ?n = chain_parts m rest ?n
          else prpi it' < prp_list_size (prpl it') \<and> chain_parts m rest ?n = ([], Some list_overrun))
     | Inl x \<Rightarrow> chain_parts m rest ?n = ([], Some x)"
  proof (cases "prp_is_data ?it1")
    case True
    then show ?thesis using it(2) k(1) rest1 by (simp add: prp_incr_def Let_def)
  next
    case False
    have more: "4096 < ?n" "prpi it + 1 = prp_list_size (prpl it) - 1"
      using False it(1) b(2) n e by (auto simp: prp_is_data_def word_le_nat_alt)
    obtain x where x: "rest = [x]" using more(2) len by (cases rest; cases "tl rest") auto
    have "prp_entry m (prpl it) (prpi it + 1) = Inr x"
      using x more(2) e by (simp add: prp_entry_list rest_def entries_left_def nth_via_drop)
    then have dx: "prp_deref m ?it1 = Inr x" using more(1) by (auto simp: prp_deref_def prp_at_end_def)
    have cx: "chain_parts m rest ?n = (case get_page m x of Inl y \<Rightarrow> ([], Some y)
        | Inr (off, cnt) \<Rightarrow> if cnt < 2 then ([], Some list_overrun) else chain_parts m (page_entries m off cnt) ?n)"
      unfolding x using more(1) by (subst chain_parts.simps) simp
    show ?thesis
    proof (cases "get_page m x")
      case (Inl y)
      then show ?thesis using False it(2) k(1) dx cx by (simp add: prp_incr_def Let_def)
    next
      case (Inr p)
      obtain off cnt where p: "p = (off, cnt)" by (cases p)
      then have "0 < cnt" using get_page_Inr(5) Inr by blast
      then show ?thesis
        using False it(2) k(1) dx cx Inr p more(1)
        by (auto simp: prp_incr_def Let_def entries_left_def prp_is_data_def prp_at_end_def word_le_nat_alt)
    qed
  qed
  show ?thesis by (rule that [OF _ b ch incr]) (use c k(1) it(2) in \<open>simp add: prp_part_def prp_deref_def\<close>)
qed

lemma prp_stuck_walk:
  assumes "\<not> prp_is_data it" "\<not> prp_at_end it" "fuel \<noteq> 0" "prpi it < prp_list_size (prpl it)"
  shows "prp_walk fuel m it = Some (Inl list_overrun)"
proof -
  obtain f where f: "fuel = Suc f" using assms(3) by (cases fuel) auto
  obtain e where e: "prp_entry m (prpl it) (prpi it) = Inr e" using assms(4) by (simp add: prp_entry_list)
  have last: "\<not> prpi it + 1 < prp_list_size (prpl it)" using assms(1,4) by (auto simp: prp_is_data_def)
  let ?it1 = "it\<lparr>prpi := prpi it + 1\<rparr>"
  have "\<not> prp_is_data ?it1" "prp_deref m ?it1 = Inl list_overrun"
    using assms(1,2) last by (auto simp: prp_is_data_def prp_deref_def prp_at_end_def prp_entry_list)
  then have "prp_incr m it = Inl list_overrun" using assms(1,2) e by (simp add: prp_incr_def prp_this_nbytes_def Let_def)
  then show ?thesis using assms(1,2) e by (simp add: f prp_walk_def prp_part_def prp_deref_def prp_this_nbytes_def Let_def)
qed

text \<open>So the walk is the chain, for any memory.\<close>

lemma prp_walk_chain:
  "prp_is_data it \<or> prp_at_end it \<Longrightarrow> unat (prp_nbytes it) \<le> fuel \<Longrightarrow>
   prp_walk fuel m it = Some (case chain_parts m (entries_left m it) (unat (prp_nbytes it)) of (ps, None) \<Rightarrow> Inr ps | (_, Some x) \<Rightarrow> Inl x)"
proof (induction fuel arbitrary: it)
  case 0
  then have "prp_at_end it" "unat (prp_nbytes it) = 0" by (simp_all add: prp_at_end_def unat_eq_zero)
  then show ?case by (cases "entries_left m it") (simp_all add: prp_walk_end chain_parts.simps)
next
  case (Suc fuel)
  show ?case
  proof (cases "prp_at_end it")
    case True
    then have "unat (prp_nbytes it) = 0" by (simp add: prp_at_end_def)
    then show ?thesis using True by (cases "entries_left m it") (simp_all add: prp_walk_end chain_parts.simps)
  next
    case False
    then have data: "prp_is_data it" using Suc.prems(1) by simp
    show ?thesis
    proof (cases "prpi it < prp_list_size (prpl it)")
      case nil: False
      then have "prp_part m it = Inl list_overrun" using False by (simp add: prp_part_def prp_deref_def prp_entry_list)
      moreover have "entries_left m it = []" using nil by (simp add: entries_left_def)
      moreover have "unat (prp_nbytes it) \<noteq> 0" using False by (simp add: prp_at_end_def unat_eq_zero)
      ultimately show ?thesis using False by (simp add: prp_walk_def chain_parts.simps)
    next
      case True
      obtain k where k: "prp_part m it = Inr (list_entries m (prpl it) ! prpi it, k)" "0 < unat k" "unat k \<le> unat (prp_nbytes it)"
        and ch: "chain_parts m (entries_left m it) (unat (prp_nbytes it)) =
          (case chain_parts m (entries_left m (it\<lparr>prpi := prpi it + 1\<rparr>)) (unat (prp_nbytes it - k)) of (ps, err) \<Rightarrow>
             ((list_entries m (prpl it) ! prpi it, k) # ps, err))"
        and inc: "case prp_incr m it of
           Inr it' \<Rightarrow> prp_nbytes it' = prp_nbytes it - k \<and>
             (if prp_is_data it' \<or> prp_at_end it'
              then chain_parts m (entries_left m it') (unat (prp_nbytes it - k)) = chain_parts m (entries_left m (it\<lparr>prpi := prpi it + 1\<rparr>)) (unat (prp_nbytes it - k))
              else prpi it' < prp_list_size (prpl it') \<and> chain_parts m (entries_left m (it\<lparr>prpi := prpi it + 1\<rparr>)) (unat (prp_nbytes it - k)) = ([], Some list_overrun))
         | Inl x \<Rightarrow> chain_parts m (entries_left m (it\<lparr>prpi := prpi it + 1\<rparr>)) (unat (prp_nbytes it - k)) = ([], Some x)"
        by (rule chain_step [OF data False True, of m])
      show ?thesis
      proof (cases "prp_incr m it")
        case (Inl x)
        then show ?thesis using False k(1) ch inc by (simp add: prp_walk_def)
      next
        case (Inr it')
        then have nb: "prp_nbytes it' = prp_nbytes it - k" using inc by simp
        then have le: "unat (prp_nbytes it') \<le> fuel" using Suc.prems(2) k(2,3) by (simp add: unat_sub_small)
        have w: "prp_walk (Suc fuel) m it = (case prp_walk fuel m it' of None \<Rightarrow> None
            | Some (Inl x) \<Rightarrow> Some (Inl x) | Some (Inr ps) \<Rightarrow> Some (Inr ((list_entries m (prpl it) ! prpi it, k) # ps)))"
          using False k(1) Inr by (simp add: prp_walk_def split: option.splits sum.splits)
        show ?thesis
        proof (cases "prp_is_data it' \<or> prp_at_end it'")
          case True
          then show ?thesis unfolding w Suc.IH [OF True le] using Inr inc nb ch by (simp split: prod.splits option.splits)
        next
          case stuck: False
          then have "prp_walk fuel m it' = Some (Inl list_overrun)" using prp_stuck_walk [of it' fuel m] stuck le inc Inr by (cases fuel) (auto simp: prp_at_end_def unat_eq_zero)
          then show ?thesis unfolding w using Inr inc nb ch stuck by simp
        qed
      qed
    qed
  qed
qed

section \<open>Buffers as NVMe lays them out\<close>

text \<open>
  The pages of a buffer, from the specification: the next \<open>k\<close> pages, from the list at an address. A list runs to the end of its page. When it has room
  for all pages that are left it holds them; otherwise its last entry is the address of the next list. \<open>None\<close> is a list that is not laid out like
  this: its address is not a multiple of 8, its page is not in memory, or a list with a successor has no room for a page.
\<close>

definition list_slots :: "u64 \<Rightarrow> nat" where
  "list_slots a = (NVME_PAGE_SIZE - unat a mod NVME_PAGE_SIZE) div 8"

function list_pages :: "mapping \<Rightarrow> u64 \<Rightarrow> nat \<Rightarrow> u64 list option" where
  "list_pages m a k =
     (if unat a mod 8 \<noteq> 0 \<or> unat (map_size m) < unat a + NVME_PAGE_SIZE then None
      else if k \<le> list_slots a then Some (page_entries m a k)
      else if list_slots a < 2 then None
      else map_option (\<lambda>ps. page_entries m a (list_slots a - 1) @ ps)
             (list_pages m (load_u64 m (unat a + 8 * (list_slots a - 1))) (k - (list_slots a - 1))))"
  by pat_completeness auto
termination by (relation "measure (\<lambda>(m, a, k). k)") auto

declare list_pages.simps [simp del]

text \<open>The sizes of the parts of a buffer: up to the first page boundary, then whole pages, then what remains.\<close>

definition part_sizes :: "u64 \<Rightarrow> u64 \<Rightarrow> nat list" where
  "part_sizes p1 nbytes = map snd (cluster_split (unat p1) (unat nbytes) NVME_PAGE_SHIFT)"

definition buffer_pages :: "mapping \<Rightarrow> u64 \<Rightarrow> u64 \<Rightarrow> u64 \<Rightarrow> u64 list option" where
  "buffer_pages m p1 p2 nbytes =
     (let k = length (part_sizes p1 nbytes) - 1
      in if k = 0 then Some [p1] else if k = 1 then Some [p1, p2] else map_option (Cons p1) (list_pages m p2 k))"

fun page_sizes :: "nat \<Rightarrow> nat list" where
  "page_sizes n = (if n = 0 then [] else min 4096 n # page_sizes (n - min 4096 n))"

declare page_sizes.simps [simp del]

lemma page_sizes_simps [simp]: "page_sizes 0 = []" "0 < n \<Longrightarrow> n \<le> 4096 \<Longrightarrow> page_sizes n = [n]"
  "4096 < n \<Longrightarrow> page_sizes n = 4096 # page_sizes (n - 4096)"
  by (simp_all add: page_sizes.simps)

lemma page_sizes_split: "a mod 4096 = 0 \<Longrightarrow> map snd (cluster_split a n 12) = page_sizes n"
proof (induction n arbitrary: a rule: page_sizes.induct)
  case (1 n)
  show ?case
  proof (cases "n = 0")
    case False
    let ?k = "min 4096 n"
    have "map snd (cluster_split (a + ?k) (n - ?k) 12) = page_sizes (n - ?k)"
    proof (cases "n - ?k = 0")
      case False
      then have "(a + ?k) mod 4096 = 0" using "1.prems" by (auto simp: min_def)
      then show ?thesis by (rule "1.IH" [OF \<open>n \<noteq> 0\<close>])
    qed simp
    then show ?thesis using False "1.prems" by (simp add: cluster_split.simps [of a n] page_sizes.simps [of n] Let_def min.commute)
  qed simp
qed

lemma page_sizes_length: "0 < n \<Longrightarrow> 4096 * (length (page_sizes n) - 1) < n" "n \<le> 4096 * length (page_sizes n)"
proof (induction n rule: page_sizes.induct)
  case (1 n)
  { case 1
    then show ?case using "1.IH" by (cases "n \<le> 4096") (auto simp: page_sizes.simps [of n] min_def) next
    case 2
    then show ?case using "1.IH" by (cases "n = 0") (auto simp: page_sizes.simps [of n] min_def) }
qed

text \<open>Aligned entries, each a whole page.\<close>

lemma chain_whole_pages:
  "\<forall>e\<in>set es. unat e mod 4096 = 0 \<Longrightarrow> es2 \<noteq> [] \<Longrightarrow> 4096 * length es < n \<Longrightarrow>
   chain_parts m (es @ es2) n = (case chain_parts m es2 (n - 4096 * length es) of (ps, err) \<Rightarrow> (map (\<lambda>e. (e, 4096)) es @ ps, err))"
proof (induction es arbitrary: n)
  case (Cons e es)
  have "chain_parts m ((e # es) @ es2) n = (case chain_parts m (es @ es2) (n - 4096) of (ps, err) \<Rightarrow> ((e, 4096) # ps, err))"
    using Cons.prems by (simp add: chain_parts.simps Let_def)
  also have "chain_parts m (es @ es2) (n - 4096) = (case chain_parts m es2 (n - 4096 - 4096 * length es) of (ps, err) \<Rightarrow> (map (\<lambda>e. (e, 4096)) es @ ps, err))"
    by (rule Cons.IH) (use Cons.prems in auto)
  finally show ?case by (simp add: split: prod.split)
qed (simp split: prod.split)

lemma chain_last_pages:
  "\<forall>e\<in>set (take (length (page_sizes n)) es). unat e mod 4096 = 0 \<Longrightarrow> length (page_sizes n) \<le> length es \<Longrightarrow>
   chain_parts m es n = (zip es (map of_nat (page_sizes n)), None)"
proof (induction es arbitrary: n)
  case Nil
  then have "n = 0" by (auto simp: page_sizes.simps [of n] split: if_splits)
  then show ?case by (simp add: chain_parts.simps)
next
  case (Cons e es)
  show ?case
  proof (cases "n = 0")
    case True
    then show ?thesis by (simp add: chain_parts.simps)
  next
    case False
    have ps: "page_sizes n = min 4096 n # page_sizes (n - min 4096 n)" using False by (simp add: page_sizes.simps [of n])
    have "chain_parts m es (n - min 4096 n) = (zip es (map of_nat (page_sizes (n - min 4096 n))), None)"
      by (rule Cons.IH) (use Cons.prems ps in auto)
    moreover have "es \<noteq> [] \<or> n \<le> 4096"
    proof (rule disjCI)
      assume "\<not> n \<le> 4096"
      then have "page_sizes (n - min 4096 n) \<noteq> []" by (simp add: page_sizes.simps [of "n - 4096"])
      then show "es \<noteq> []" using Cons.prems(2) ps by auto
    qed
    moreover have "unat e mod 4096 = 0" using Cons.prems(1) ps by simp
    ultimately show ?thesis using False by (subst chain_parts.simps) (simp add: Let_def ps)
  qed
qed

lemma page_sizes_after: "4096 * j < n \<Longrightarrow> page_sizes n = replicate j 4096 @ page_sizes (n - 4096 * j)"
proof (induction j arbitrary: n)
  case (Suc j)
  then have "page_sizes (n - 4096) = replicate j 4096 @ page_sizes (n - 4096 - 4096 * j)" by (intro Suc.IH) simp
  moreover have "page_sizes n = 4096 # page_sizes (n - 4096)" using Suc.prems by simp
  ultimately show ?case by simp
qed simp

text \<open>A list that is laid out as it should is followed page by page.\<close>

lemma get_page_ok:
  "unat a mod 8 = 0 \<Longrightarrow> unat a + 4096 \<le> unat (map_size m) \<Longrightarrow> get_page m a = Inr (a, list_slots a)"
proof -
  assume a: "unat a mod 8 = 0" "unat a + 4096 \<le> unat (map_size m)"
  let ?p = "a AND (of_nat NVME_PAGE_SIZE - 1) :: u64"
  have "(7 :: u64) = mask 3" by (simp add: mask_eq_exp_minus_1)
  then have "unat (?p AND 7) = unat a mod 4096 mod 8" by (simp only: unat_and_mask unat_page_off) simp
  also have "\<dots> = 0" using a(1) by (simp add: mod_mod_cancel)
  finally have "?p AND 7 = 0" by (simp only: unat_eq_zero)
  then obtain off n where "get_page m a = Inr (off, n)"
    using a(2) by (simp add: get_page_def check_span_iff Let_def)
  then show ?thesis using get_page_Inr(1,4) [of m a off n] by (simp add: list_slots_def)
qed

lemma zip_longer: "length ys \<le> length xs \<Longrightarrow> zip xs ys = zip (take (length ys) xs) ys"
  by (induction xs ys rule: list_induct2') auto

lemma chain_list_pages:
  "list_pages m a (length (page_sizes n)) = Some ps \<Longrightarrow> \<forall>p\<in>set ps. unat p mod 4096 = 0 \<Longrightarrow> 4096 < n \<Longrightarrow>
   chain_parts m [a] n = (zip ps (map of_nat (page_sizes n)), None)"
proof (induction n arbitrary: a ps rule: less_induct)
  case (less n)
  let ?k = "length (page_sizes n)" and ?c = "list_slots a"
  have ok: "unat a mod 8 = 0" "unat a + 4096 \<le> unat (map_size m)" using less.prems(1) by (auto simp: list_pages.simps split: if_splits)
  have "2 \<le> ?k" using page_sizes_length(2) [of n] less.prems(3) by linarith
  then have c2: "2 \<le> ?c" using less.prems(1) by (auto simp: list_pages.simps split: if_splits)
  have ch: "chain_parts m [a] n = chain_parts m (page_entries m a ?c) n"
    using less.prems(3) c2 get_page_ok [OF ok] by (subst chain_parts.simps) simp
  show ?case
  proof (cases "?k \<le> ?c")
    case True
    then have ps: "ps = page_entries m a ?k" using less.prems(1) ok by (simp add: list_pages.simps)
    have "take ?k (page_entries m a ?c) = ps" using True by (simp add: ps page_entries_def take_map)
    moreover have "length (page_entries m a ?c) = ?c" by (simp add: page_entries_def)
    ultimately have "chain_parts m (page_entries m a ?c) n = (zip (page_entries m a ?c) (map of_nat (page_sizes n)), None)"
      using True less.prems(2) by (intro chain_last_pages) auto
    also have "zip (page_entries m a ?c) (map of_nat (page_sizes n)) = zip ps (map of_nat (page_sizes n))"
      using \<open>take ?k (page_entries m a ?c) = ps\<close> True zip_longer [of "map of_nat (page_sizes n)" "page_entries m a ?c"]
      by (simp add: page_entries_def)
    finally show ?thesis using ch by simp
  next
    case False
    let ?b = "load_u64 m (unat a + 8 * (?c - 1))" and ?n = "n - 4096 * (?c - 1)"
    obtain qs where qs: "ps = page_entries m a (?c - 1) @ qs" "list_pages m ?b (?k - (?c - 1)) = Some qs"
      using less.prems(1) ok c2 False by (auto simp: list_pages.simps [of m a])
    have more: "4096 * (?c - 1) + 4096 < n"
    proof -
      have "4096 * ?c \<le> 4096 * (?k - 1)" using False by (intro mult_le_mono2) simp
      also have "\<dots> < n" using page_sizes_length(1) [of n] less.prems(3) by simp
      finally show ?thesis using c2 by (simp add: algebra_simps)
    qed
    have sz: "page_sizes n = replicate (?c - 1) 4096 @ page_sizes ?n" by (rule page_sizes_after) (use more in simp)
    then have len: "?k - (?c - 1) = length (page_sizes ?n)" by simp
    have IH: "chain_parts m [?b] ?n = (zip qs (map of_nat (page_sizes ?n)), None)"
      by (rule less.IH) (use qs less.prems(2) more c2 len in auto)
    have es: "page_entries m a ?c = page_entries m a (?c - 1) @ [?b]"
    proof -
      have "[0..<?c] = [0..<?c - 1] @ [?c - 1]" using c2 by (metis One_nat_def Suc_pred less_eq_Suc_le less_le_trans upt_Suc_append zero_less_numeral zero_order(1))
      then show ?thesis by (simp add: page_entries_def)
    qed
    have l1: "length (page_entries m a (?c - 1)) = ?c - 1" by (simp add: page_entries_def)
    have "chain_parts m (page_entries m a (?c - 1) @ [?b]) n =
        (map (\<lambda>e. (e, 4096)) (page_entries m a (?c - 1)) @ zip qs (map of_nat (page_sizes ?n)), None)"
      using chain_whole_pages [of "page_entries m a (?c - 1)" "[?b]" n m] less.prems(2) more qs(1) l1 IH by simp
    also have "map (\<lambda>e. (e, 4096)) (page_entries m a (?c - 1)) @ zip qs (map of_nat (page_sizes ?n)) =
        zip ps (map of_nat (page_sizes n))"
      unfolding qs(1) sz using l1 by (simp add: zip_append map_replicate zip_replicate2)
    finally show ?thesis using ch es by simp
  qed
qed

lemma list_pages_length: "list_pages m a k = Some ps \<Longrightarrow> length ps = k"
  by (induction m a k arbitrary: ps rule: list_pages.induct) (subst (asm) (2) list_pages.simps, auto simp: page_entries_def split: if_splits)

lemma part_sizes_first:
  fixes p1 nbytes :: u64
  defines "k \<equiv> min (4096 - unat p1 mod 4096) (unat nbytes)"
  assumes "nbytes \<noteq> 0"
  shows "part_sizes p1 nbytes = k # page_sizes (unat nbytes - k)"
proof -
  have n: "unat nbytes \<noteq> 0" using assms(2) by (simp add: unat_eq_zero)
  have "map snd (cluster_split (unat p1 + k) (unat nbytes - k) 12) = page_sizes (unat nbytes - k)"
  proof (cases "unat nbytes - k = 0")
    case False
    then have k: "k = 4096 - unat p1 mod 4096" by (auto simp: k_def min_def split: if_splits)
    have "unat p1 mod 4096 < 4096" by simp
    then have "unat p1 + k = unat p1 div 4096 * 4096 + 4096"
      unfolding k using div_mult_mod_eq [of "unat p1" 4096] by linarith
    then show ?thesis by (intro page_sizes_split) simp
  qed simp
  then show ?thesis
    using n by (simp add: part_sizes_def NVME_PAGE_SHIFT_def cluster_split.simps [of "unat p1" "unat nbytes"] Let_def k_def min.commute)
qed

lemma prp_init_chain:
  "prp_walk (unat nbytes) m (prp_init p1 p2 nbytes) =
     Some (case chain_parts m [p1, p2] (unat nbytes) of (ps, None) \<Rightarrow> Inr ps | (_, Some x) \<Rightarrow> Inl x)"
  using prp_walk_chain [of "prp_init p1 p2 nbytes" "unat nbytes" m] by (simp add: prp_init_def entries_left_def prp_is_data_def)

section \<open>Properties\<close>


text \<open>A guest memory of four pages: the page at 0x2000 is a list of two entries.\<close>

definition sample_mem :: mapping where
  "sample_mem = \<lparr>map_addr = 0x7f0000000000, map_size = 0x8000,
     map_byte = (\<lambda>i. if i = 0x2001 then 0x40 else if i = 0x2009 then 0x50 else 0)\<rparr>"

lemma sample_mem_size: "map_size sample_mem = 0x8000"
  by (simp add: sample_mem_def)

lemmas prp_eval = prp_walk_def prp_part_def prp_init_def prp_at_end_def prp_is_data_def prp_this_nbytes_def prp_deref_def
  prp_incr_def get_page_def check_span_def load_u64_def sample_mem_def Let_def upt_rec

lemma sample_walk:
  "prp_walk 3 sample_mem (prp_init 0x1200 0x2000 0x2000) =
     Some (Inr [(0x1200, 0xe00), (0x4000, 0x1000), (0x5000, 0x200)])"
  by (simp add: prp_eval numeral_3_eq_3)

lemma sample_walk_full:
  "prp_walk 0x2000 sample_mem (prp_init 0x1200 0x2000 0x2000) =
     Some (Inr [(0x1200, 0xe00), (0x4000, 0x1000), (0x5000, 0x200)])"
  unfolding prp_walk_def by (rule collect_mono [OF sample_walk [unfolded prp_walk_def]]) simp


text \<open>
  C14. For a buffer laid out as NVMe asks, the walk is the page-wise split of the buffer. When the second entry is the second page, or the address of lists in memory
  that hold the pages that are left, and every page after the first is page aligned, the walk meets no error and visits exactly these pages, in their order:
  the first from its offset to the end of its page, the others from their beginning, the last with what remains.
\<close>

theorem prp_walk_is_page_split:
  assumes "buffer_pages m p1 p2 nbytes = Some ps"
    and "\<forall>p \<in> set (tl ps). unat p mod NVME_PAGE_SIZE = 0" and "nbytes \<noteq> 0"
  shows "prp_walk (unat nbytes) m (prp_init p1 p2 nbytes) = Some (Inr (zip ps (map of_nat (part_sizes p1 nbytes)))) \<and>
    length ps = length (part_sizes p1 nbytes)"
proof -
  define k where "k = min (4096 - unat p1 mod 4096) (unat nbytes)"
  define n where "n = unat nbytes - k"
  have sz: "part_sizes p1 nbytes = k # page_sizes n" unfolding n_def k_def by (rule part_sizes_first [OF assms(3)])
  have nz: "unat nbytes \<noteq> 0" using assms(3) by (simp add: unat_eq_zero)
  obtain qs where qs: "ps = p1 # qs" using assms(1) by (auto simp: buffer_pages_def Let_def split: if_splits)
  have "chain_parts m [p2] n = (zip qs (map of_nat (page_sizes n)), None) \<and> length qs = length (page_sizes n)"
  proof -
    consider "n = 0" | "0 < n" "n \<le> 4096" | "4096 < n" by linarith
    then show ?thesis
    proof cases
      case 1
      then show ?thesis using assms(1) qs sz by (simp add: buffer_pages_def chain_parts.simps)
    next
      case 2
      then have "qs = [p2]" using assms(1) qs sz by (simp add: buffer_pages_def)
      then show ?thesis using chain_last_pages [of n "[p2]" m] assms(2) qs page_sizes_simps(2) [OF 2] by simp
    next
      case 3
      have "2 \<le> length (page_sizes n)" using page_sizes_length(2) [of n] 3 by linarith
      then have l: "list_pages m p2 (length (page_sizes n)) = Some qs" using assms(1) qs sz by (auto simp: buffer_pages_def Let_def split: if_splits)
      show ?thesis using chain_list_pages [OF l _ 3] assms(2) qs list_pages_length [OF l] by simp
    qed
  qed
  moreover have "chain_parts m [p1, p2] (unat nbytes) = (case chain_parts m [p2] n of (rs, err) \<Rightarrow> ((p1, of_nat k) # rs, err))"
    using nz unfolding n_def k_def by (subst chain_parts.simps) (simp add: Let_def)
  ultimately show ?thesis unfolding prp_init_chain sz qs by simp
qed

theorem prp_walk_is_page_split_witness:
  "buffer_pages sample_mem 0x1200 0x2000 0x2000 = Some [0x1200, 0x4000, 0x5000] \<and>
   prp_walk 0x2000 sample_mem (prp_init 0x1200 0x2000 0x2000) = Some (Inr (zip [0x1200, 0x4000, 0x5000] (map of_nat (part_sizes 0x1200 0x2000))))"
proof -
  have "part_sizes 0x1200 0x2000 = [0xe00, 0x1000, 0x200]"
    using part_sizes_first [of "0x2000" "0x1200"] by simp
  then have s: "length (part_sizes 0x1200 0x2000) = 3" by simp
  have e: "load_u64 sample_mem 0x2000 = 0x4000" "load_u64 sample_mem 0x2008 = 0x5000"
    by (simp_all add: load_u64_def sample_mem_def upt_conv_Cons)
  have "page_entries sample_mem 0x2000 2 = [0x4000, 0x5000]"
    using e by (simp add: page_entries_def upt_conv_Cons)
  then have "list_pages sample_mem 0x2000 2 = Some [0x4000, 0x5000]"
    by (subst list_pages.simps) (simp add: list_slots_def sample_mem_size)
  then have b: "buffer_pages sample_mem 0x1200 0x2000 0x2000 = Some [0x1200, 0x4000, 0x5000]"
    unfolding buffer_pages_def s by simp
  have al: "\<forall>p \<in> set (tl [0x1200, 0x4000, 0x5000 :: u64]). unat p mod NVME_PAGE_SIZE = 0" by simp
  have u: "unat (0x2000 :: u64) = 0x2000" and nz: "(0x2000 :: u64) \<noteq> 0" by simp_all
  show ?thesis using prp_walk_is_page_split [OF b al nz] b unfolding u by blast
qed

text \<open>
  A second entry that is not page aligned makes the iterator run off the end of the command's
  two entries: \<open>is_data\<close> holds as soon as at most one page remains, so nothing stops the index.
  The guest chooses this entry.
\<close>

theorem prp2_offset_overruns:
  "prp_walk 3 m (prp_init 0x1000 0x2008 0x2000) = Some (Inl (Undefined ''prp list index''))"
  by (simp add: prp_eval numeral_3_eq_3)

text \<open>
  A second entry that names the last slot of a page gives a list of one entry; when more than a
  page remains that entry is taken neither as data nor as a link, and the next step reads
  past the list.
\<close>

theorem one_entry_list_overruns:
  "prp_walk 3 sample_mem (prp_init 0x1000 0x2ff8 0x3000) = Some (Inl (Undefined ''prp list index''))"
  by (simp add: prp_eval numeral_3_eq_3)

end
