(* ===== verification/NvmeCtrl.thy ===== *)
theory NvmeCtrl
  imports Prp
begin

text \<open>
  The controller base class and its command iterators (\<open>nvme.hpp\<close>, \<open>nvme.cpp\<close>): the cached
  identify data of the virtual controller and its namespaces, the size check of a command, and
  the iterators that visit a command's buffer block by block or page by page.
\<close>

section \<open>Identify data\<close>

text \<open>
  The fields the code uses: \<open>mdts\<close> of the controller; of a namespace the format (\<open>flbas\<close> and the data sizes
  \<open>lbaf[].ds\<close>) and the sizes and hints that a controller may set.
\<close>

record nvme_id_ctrl =
  mdts :: u8

record nvme_id_ns =
  nsze :: u64
  ncap :: u64
  nuse :: u64
  nsfeat :: u8
  flbas :: u8
  noiob :: u16
  nvmcap :: "nat \<Rightarrow> u8"
  npwg :: u16
  npwa :: u16
  nows :: u16
  lbaf_ds :: "nat \<Rightarrow> u8"

text \<open>
  The kernel answers the two identify requests of the notification descriptor: an error number or
  the data. This is all the controller asks of it.
\<close>

record nvme_kernel =
  ioctl_id_vctrl :: "int + nvme_id_ctrl"
  ioctl_id_vns :: "u32 \<Rightarrow> int + nvme_id_ns"

definition MAX_VIRTUAL_NAMESPACES :: nat where "MAX_VIRTUAL_NAMESPACES = 16"

record nvme =
  nv_id :: "nvme_id_ctrl option"
  nv_idns :: "nat \<Rightarrow> nvme_id_ns option"

definition nvme_init :: nvme where
  "nvme_init = \<lparr>nv_id = None, nv_idns = (\<lambda>_. None)\<rparr>"

definition EINVAL :: int where "EINVAL = 22"

definition do_id_vctrl :: "nvme_kernel \<Rightarrow> (nvme, int) prog" where
  "do_id_vctrl k =
     sbind (sget nv_id) (\<lambda>i.
       if i \<noteq> None then return 0
       else case ioctl_id_vctrl k of
              Inl errno \<Rightarrow> return (- errno)
            | Inr d \<Rightarrow> sbind (smod (\<lambda>s. s\<lparr>nv_id := Some d\<rparr>)) (\<lambda>_. return 0))"

definition do_id_vns :: "nvme_kernel \<Rightarrow> u32 \<Rightarrow> (nvme, int) prog" where
  "do_id_vns k ns =
     (if ns = 0 \<or> MAX_VIRTUAL_NAMESPACES \<le> unat ns then return (- EINVAL)
      else sbind (sget (\<lambda>s. nv_idns s (unat ns))) (\<lambda>i.
        if i \<noteq> None then return 0
        else case ioctl_id_vns k ns of
               Inl errno \<Rightarrow> return (- errno)
             | Inr d \<Rightarrow> sbind (smod (\<lambda>s. s\<lparr>nv_idns := (nv_idns s)(unat ns := Some d)\<rparr>)) (\<lambda>_. return 0)))"

definition id_vctrl :: "nvme_kernel \<Rightarrow> (nvme, nvme_id_ctrl option) prog" where
  "id_vctrl k =
     sbind (sget nv_id) (\<lambda>i.
       if i = None
       then sbind (do_id_vctrl k) (\<lambda>r.
              if r < 0 then raise (Runtime_error ''cannot id vctrl'') else sget nv_id)
       else sget nv_id)"

definition id_vns :: "nvme_kernel \<Rightarrow> u32 \<Rightarrow> (nvme, nvme_id_ns option) prog" where
  "id_vns k ns =
     (if ns = 0 \<or> MAX_VIRTUAL_NAMESPACES \<le> unat ns
      then raise (Nvme_exception (NVME_SC_DNR OR NVME_SC_INVALID_NS))
      else sbind (sget (\<lambda>s. nv_idns s (unat ns))) (\<lambda>i.
        if i = None
        then sbind (do_id_vns k ns) (\<lambda>r.
               if r < 0 then raise (Nvme_exception (NVME_SC_DNR OR NVME_SC_INVALID_NS))
               else sget (\<lambda>s. nv_idns s (unat ns)))
        else sget (\<lambda>s. nv_idns s (unat ns))))"

section \<open>The size check\<close>

definition lba_shift :: "nvme_id_ns \<Rightarrow> nat" where
  "lba_shift idns = unat (lbaf_ds idns (unat (flbas idns AND 0xf)))"

text \<open>A shift by 64 or more of a 64-bit value is undefined.\<close>

definition check_nblocks :: "u64 \<Rightarrow> nat \<Rightarrow> nat \<Rightarrow> bool result" where
  "check_nblocks nblocks md lbas =
     (if 64 \<le> md \<or> 64 \<le> lbas then Inl (Undefined ''shift'')
      else Inr (nblocks \<le> drop_bit lbas (push_bit NVME_PAGE_SHIFT (push_bit md 1))))"

definition ns_lba_shift :: "nvme_kernel \<Rightarrow> u32 \<Rightarrow> (nvme, nat) prog" where
  "ns_lba_shift k ns =
     sbind (id_vns k ns) (\<lambda>i.
       case i of
         None \<Rightarrow> raise (Nvme_exception (NVME_SC_DNR OR NVME_SC_INVALID_NS))
       | Some idns \<Rightarrow> return (lba_shift idns))"

definition ns_cmd_check_nbytes :: "nvme_kernel \<Rightarrow> u64 \<Rightarrow> nat \<Rightarrow> (nvme, u64) prog" where
  "ns_cmd_check_nbytes k nblocks lbas =
     sbind (id_vctrl k) (\<lambda>i.
       case i of
         None \<Rightarrow> raise (Nvme_exception (NVME_SC_DNR OR NVME_SC_INVALID_NS))
       | Some idc \<Rightarrow>
           sbind (lift_result (check_nblocks nblocks (unat (mdts idc)) lbas)) (\<lambda>ok.
             if \<not> ok then raise (Nvme_exception (NVME_SC_DNR OR NVME_SC_INVALID_FIELD))
             else return (push_bit lbas nblocks)))"

section \<open>The block iterator\<close>

record nvme_cmd_lba_iter =
  li_lba_shift :: nat
  li_slba :: u64
  li_nbytes :: u64
  li_prp_iter :: prp_chain_iter
  li_cli :: u64
  li_pli :: u64

definition cmd_nblocks :: "nvme_command \<Rightarrow> u64" where
  "cmd_nblocks cmd = ucast (rw_length cmd) + 1"

definition lba_iter_init :: "nvme_kernel \<Rightarrow> nvme_command \<Rightarrow> (nvme, nvme_cmd_lba_iter) prog" where
  "lba_iter_init k cmd =
     sbind (ns_lba_shift k (nsid cmd)) (\<lambda>lbas.
       sbind (ns_cmd_check_nbytes k (cmd_nblocks cmd) lbas) (\<lambda>nbytes.
         return \<lparr>li_lba_shift = lbas, li_slba = rw_slba cmd, li_nbytes = nbytes,
                 li_prp_iter = prp_init (prp1 cmd) (prp2 cmd) nbytes, li_cli = 0, li_pli = 0\<rparr>))"

definition lba_iter_incr :: "mapping \<Rightarrow> nvme_cmd_lba_iter \<Rightarrow> nvme_cmd_lba_iter result" where
  "lba_iter_incr m it =
     (let pli = li_pli it + 1
      in rbind (prp_this_nbytes m (li_prp_iter it)) (\<lambda>n.
           if min (of_nat NVME_PAGE_SIZE) n \<le> push_bit (li_lba_shift it) pli
           then rbind (prp_incr m (li_prp_iter it)) (\<lambda>p.
                  Inr (it\<lparr>li_cli := li_cli it + pli, li_pli := 0, li_prp_iter := p\<rparr>))
           else Inr (it\<lparr>li_pli := pli\<rparr>)))"

definition lba_iter_deref :: "mapping \<Rightarrow> nvme_cmd_lba_iter \<Rightarrow> (u64 \<times> u64) result" where
  "lba_iter_deref m it =
     rbind (prp_deref m (li_prp_iter it)) (\<lambda>a.
       if 32 \<le> li_lba_shift it then Inl (Undefined ''shift'')
       else get_span m (a + push_bit (li_lba_shift it) (li_pli it)) (int_shl1 (li_lba_shift it)))"

definition cmd_lba_size :: "nvme_cmd_lba_iter \<Rightarrow> u64" where
  "cmd_lba_size it = push_bit (li_lba_shift it) 1"

definition command_lba_index :: "nvme_cmd_lba_iter \<Rightarrow> u64" where
  "command_lba_index it = li_cli it + li_pli it"

definition iter_lba :: "nvme_cmd_lba_iter \<Rightarrow> u64" where
  "iter_lba it = li_slba it + li_cli it + li_pli it"

definition lba_iter_at_end :: "nvme_cmd_lba_iter \<Rightarrow> bool" where
  "lba_iter_at_end it = prp_at_end (li_prp_iter it)"

text \<open>The loop over the blocks: the block number and the bytes of each.\<close>

definition lba_part :: "mapping \<Rightarrow> nvme_cmd_lba_iter \<Rightarrow> (u64 \<times> u64 \<times> u64) result" where
  "lba_part m it = rbind (lba_iter_deref m it) (\<lambda>sp. Inr (iter_lba it, sp))"

definition lba_walk :: "nat \<Rightarrow> mapping \<Rightarrow> nvme_cmd_lba_iter \<Rightarrow> (u64 \<times> u64 \<times> u64) list result option" where
  "lba_walk fuel m it = collect fuel lba_iter_at_end (lba_part m) (lba_iter_incr m) it"

section \<open>The page iterator\<close>

record nvme_cmd_page_iter =
  pgi_lba_shift :: nat
  pgi_slba :: u64
  pgi_nbytes :: u64
  pgi_prp_iter :: prp_chain_iter
  pgi_cli :: u64

definition page_iter_init :: "nvme_kernel \<Rightarrow> nvme_command \<Rightarrow> (nvme, nvme_cmd_page_iter) prog" where
  "page_iter_init k cmd =
     sbind (ns_lba_shift k (nsid cmd)) (\<lambda>lbas.
       sbind (ns_cmd_check_nbytes k (cmd_nblocks cmd) lbas) (\<lambda>nbytes.
         return \<lparr>pgi_lba_shift = lbas, pgi_slba = rw_slba cmd, pgi_nbytes = nbytes,
                 pgi_prp_iter = prp_init (prp1 cmd) (prp2 cmd) nbytes, pgi_cli = 0\<rparr>))"

definition page_iter_incr :: "mapping \<Rightarrow> nvme_cmd_page_iter \<Rightarrow> nvme_cmd_page_iter result" where
  "page_iter_incr m it = rbind (prp_incr m (pgi_prp_iter it)) (\<lambda>p. Inr (it\<lparr>pgi_prp_iter := p\<rparr>))"

definition page_iter_deref :: "mapping \<Rightarrow> nvme_cmd_page_iter \<Rightarrow> (u64 \<times> u64) result" where
  "page_iter_deref m it =
     rbind (prp_deref m (pgi_prp_iter it)) (\<lambda>a.
       rbind (prp_this_nbytes m (pgi_prp_iter it)) (\<lambda>n. get_span m a n))"

definition page_iter_lba :: "nvme_cmd_page_iter \<Rightarrow> u64" where
  "page_iter_lba it = pgi_slba it + pgi_cli it"

definition page_iter_at_end :: "nvme_cmd_page_iter \<Rightarrow> bool" where
  "page_iter_at_end it = prp_at_end (pgi_prp_iter it)"

definition page_walk :: "nat \<Rightarrow> mapping \<Rightarrow> nvme_cmd_page_iter \<Rightarrow> (u64 \<times> u64) list result option" where
  "page_walk fuel m it = collect fuel page_iter_at_end (page_iter_deref m) (page_iter_incr m) it"

section \<open>The blocks of a part\<close>

text \<open>
  The reference: a buffer part of \<open>n\<close> bytes at \<open>a\<close> holds \<open>n div 2 ^ s\<close> blocks, numbered on from
  the last part.
\<close>

definition part_blocks :: "nat \<Rightarrow> u64 \<Rightarrow> u64 \<Rightarrow> nat \<Rightarrow> nat \<Rightarrow> (u64 \<times> u64 \<times> u64) list" where
  "part_blocks s l a j k = map (\<lambda>i. (l + of_nat i, a + push_bit s (of_nat i), 2 ^ s)) [j..<k]"

fun all_blocks :: "nat \<Rightarrow> u64 \<Rightarrow> (u64 \<times> u64) list \<Rightarrow> (u64 \<times> u64 \<times> u64) list" where
  "all_blocks s l [] = []"
| "all_blocks s l ((a, n) # cs) =
     part_blocks s l a 0 (unat n div 2 ^ s) @ all_blocks s (l + of_nat (unat n div 2 ^ s)) cs"

definition li_pos :: "nvme_cmd_lba_iter \<Rightarrow> prp_chain_iter \<Rightarrow> u64 \<Rightarrow> u64 \<Rightarrow> nvme_cmd_lba_iter" where
  "li_pos b p c j = b\<lparr>li_prp_iter := p, li_cli := c, li_pli := j\<rparr>"

lemma int_shl1_exp: "n < 31 \<Longrightarrow> int_shl1 n = 2 ^ n"
  by (rule word_eq_unatI) simp

lemma unat_block_off:
  assumes "i * 2 ^ s \<le> 4096" "s \<le> 12"
  shows "unat (push_bit s (of_nat i :: u64)) = i * 2 ^ s"
proof -
  have "i \<le> i * 2 ^ s" by simp
  then have "i \<le> 4096" using assms(1) by linarith
  then have "i < 2 ^ 64" by simp
  then have i: "unat (of_nat i :: u64) = i" by (simp add: unat_of_nat)
  have "i * 2 ^ s < 2 ^ 64" using assms(1) by simp
  then show ?thesis by (subst unat_push_bit_small) (simp_all add: i)
qed

lemma lba_walk_part:
  assumes P: "prp_deref m P = Inr a" "prp_this_nbytes m P = Inr n" "prp_incr m P = Inr P'" "\<not> prp_at_end P"
    and n: "unat n = k * 2 ^ s" "unat n \<le> 4096" and s: "li_lba_shift b = s" "s \<le> 12"
    and span: "unat a + unat n \<le> unat (map_size m)"
  shows "j < k \<Longrightarrow>
    lba_walk (k - j + f) m (li_pos b P c (of_nat j)) =
      prepend (part_blocks s (li_slba b + c) a j k)
        (lba_walk f m (li_pos b P' (c + of_nat k) 0))"
proof (induction "k - j" arbitrary: j)
  case 0
  then show ?case by simp
next
  case (Suc d)
  let ?it = "li_pos b P c (of_nat j)"
  have nend: "\<not> lba_iter_at_end ?it" using P(4) by (simp add: lba_iter_at_end_def li_pos_def)
  have jk: "(j + 1) * 2 ^ s \<le> k * 2 ^ s" using Suc.prems by (intro mult_le_mono1) simp
  have off: "unat (push_bit s (of_nat j :: u64)) = j * 2 ^ s" "unat (push_bit s (of_nat (j + 1) :: u64)) = (j + 1) * 2 ^ s"
    using unat_block_off [of j s] unat_block_off [of "j + 1" s] jk n s by auto
  have "unat a < 2 ^ 64" using unat_bound [of "map_size m"] span by simp
  have lt64: "unat (map_size m) < 2 ^ 64" using unat_bound [of "map_size m"] by simp
  have sum: "unat a + j * 2 ^ s + 2 ^ s \<le> unat (map_size m)" using jk n(1) span by (simp add: algebra_simps)
  then have "unat (a + push_bit s (of_nat j)) = unat a + j * 2 ^ s"
    using lt64 off(1) by (subst unat_add_small) simp_all
  moreover have "unat (2 ^ s :: u64) = 2 ^ s" using s(2) by simp
  ultimately have part: "lba_part m ?it = Inr (li_slba b + c + of_nat j, a + push_bit s (of_nat j), 2 ^ s)"
    using P(1) s sum
    by (simp add: lba_part_def lba_iter_deref_def li_pos_def iter_lba_def get_span_def check_span_iff int_shl1_exp)
  have "n \<le> 4096" using n(2) by (simp add: word_le_nat_alt)
  then have "min 4096 n = n" by (rule min.absorb2)
  moreover have "k * 2 ^ s \<le> (j + 1) * 2 ^ s \<longleftrightarrow> k \<le> j + 1"
    by (simp only: mult_le_cancel2) simp
  ultimately have test: "min (of_nat NVME_PAGE_SIZE) n \<le> push_bit s (of_nat j + 1) \<longleftrightarrow> k \<le> j + 1"
    using off(2) n(1) by (simp add: word_le_nat_alt add.commute)
  show ?case
  proof (cases "j + 1 = k")
    case True
    then have "lba_iter_incr m ?it = Inr (li_pos b P' (c + of_nat k) 0)"
      using P(2,3) s(1) test by (auto simp: lba_iter_incr_def li_pos_def Let_def add.commute)
    moreover have "k - j = 1" using True by simp
    ultimately show ?thesis
      using nend part True by (simp add: lba_walk_def part_blocks_def upt_rec [of j k] prepend_Cons)
  next
    case False
    then have j1: "j + 1 < k" using Suc.prems by simp
    have "lba_iter_incr m ?it = Inr (li_pos b P c (of_nat (j + 1)))"
      using P(2) s(1) test j1 by (simp add: lba_iter_incr_def li_pos_def Let_def add.commute)
    moreover have "k - j + f = Suc (k - (j + 1) + f)" using j1 by simp
    moreover have "lba_walk (k - (j + 1) + f) m (li_pos b P c (of_nat (j + 1))) =
      prepend (part_blocks s (li_slba b + c) a (j + 1) k)
        (lba_walk f m (li_pos b P' (c + of_nat k) 0))"
      using Suc.hyps(1) [of "j + 1"] Suc.hyps(2) j1 by simp
    ultimately show ?thesis
      using nend part Suc.prems
      by (simp add: lba_walk_def part_blocks_def upt_rec [of j k] prepend_Cons prepend_prepend)
  qed
qed

lemma lba_walk_blocks:
  assumes s: "li_lba_shift b = s" "s \<le> 12"
  shows "prp_walk fuel m P = Some (Inr cs) \<Longrightarrow>
    \<forall>(a, n) \<in> set cs. 2 ^ s dvd unat n \<and> unat a + unat n \<le> unat (map_size m) \<Longrightarrow>
    lba_walk (sum_list (map (\<lambda>(a, n). unat n div 2 ^ s) cs)) m (li_pos b P c 0) =
      Some (Inr (all_blocks s (li_slba b + c) cs))"
proof (induction fuel arbitrary: P cs c)
  case 0
  then show ?case by (auto simp: lba_walk_def lba_iter_at_end_def li_pos_def dest!: prp_walk_0)
next
  case (Suc fuel)
  show ?case
  proof (cases "prp_at_end P")
    case True
    then show ?thesis
      using Suc.prems(1) by (auto simp: prp_walk_end lba_walk_def lba_iter_at_end_def li_pos_def)
  next
    case False
    with Suc.prems(1) obtain P' a n cs' where st: "prp_incr m P = Inr P'" "prp_deref m P = Inr a"
      "cs = (a, n) # cs'" "prp_walk fuel m P' = Some (Inr cs')" "0 < unat n" "unat a mod 4096 + unat n \<le> 4096"
      and nb: "prp_this_nbytes m P = Inr n"
      by (rule prp_walk_step)
    define k where "k = unat n div 2 ^ s"
    have dvd: "2 ^ s dvd unat n" and span: "unat a + unat n \<le> unat (map_size m)"
      using Suc.prems(2) st(3) by auto
    have k: "unat n = k * 2 ^ s" using dvd by (simp add: k_def)
    have k0: "0 < k" using k st(5) by (cases k) auto
    define f where "f = sum_list (map (\<lambda>(a, n). unat n div 2 ^ s) cs')"
    have "lba_walk (k - 0 + f) m (li_pos b P c (of_nat 0)) =
      prepend (part_blocks s (li_slba b + c) a 0 k)
        (lba_walk f m (li_pos b P' (c + of_nat k) 0))"
      by (rule lba_walk_part [OF st(2) nb st(1) False k _ s span k0]) (use st(6) in linarith)
    moreover have "lba_walk f m (li_pos b P' (c + of_nat k) 0) =
        Some (Inr (all_blocks s (li_slba b + (c + of_nat k)) cs'))"
      unfolding f_def by (rule Suc.IH [OF st(4)]) (use Suc.prems(2) st(3) in auto)
    ultimately show ?thesis
      by (simp add: st(3) f_def k_def [symmetric] add.assoc)
  qed
qed

lemma cluster_split_dvd:
  "d dvd a \<Longrightarrow> d dvd n \<Longrightarrow> d dvd 2 ^ c \<Longrightarrow> (x, k) \<in> set (cluster_split a n c) \<Longrightarrow> d dvd k"
proof (induction a n c rule: cluster_split.induct)
  case (1 a n c)
  define j where "j = min n (2 ^ c - a mod 2 ^ c)"
  have n0: "n \<noteq> 0" using "1.prems"(4) by (auto simp: cluster_split.simps [of a n c] split: if_splits)
  have "d dvd a mod 2 ^ c" using "1.prems"(1,3) by (simp add: dvd_mod_iff)
  then have j: "d dvd j" using "1.prems"(2,3) by (simp add: j_def min_def)
  have "(x, k) = (a, j) \<or> (x, k) \<in> set (cluster_split (a + j) (n - j) c)"
    using "1.prems"(4) n0 by (auto simp: cluster_split.simps [of a n c] j_def Let_def)
  moreover have "(x, k) \<in> set (cluster_split (a + j) (n - j) c) \<Longrightarrow> d dvd k"
    by (rule "1.IH" [OF n0 j_def]) (use "1.prems"(1-3) j in simp_all)
  ultimately show ?case using j by auto
qed

section \<open>Identify data is cached\<close>

definition nvme_caches :: "nvme_kernel \<Rightarrow> nvme \<Rightarrow> bool" where
  "nvme_caches k s \<longleftrightarrow> (\<forall>d. nv_id s = Some d \<longrightarrow> ioctl_id_vctrl k = Inr d) \<and>
     (\<forall>ns d. nv_idns s (unat ns) = Some d \<longrightarrow>
        0 < unat ns \<and> unat ns < MAX_VIRTUAL_NAMESPACES \<and> ioctl_id_vns k ns = Inr d)"

lemma nvme_init_caches [simp]: "nvme_caches k nvme_init"
  by (simp add: nvme_caches_def nvme_init_def)

lemma id_vctrl_Inr:
  assumes "id_vctrl k s = (Inr (Some d), s')" "nvme_caches k s"
  shows "ioctl_id_vctrl k = Inr d \<and> nvme_caches k s' \<and> nv_idns s' = nv_idns s"
  using assms
  by (auto simp: id_vctrl_def do_id_vctrl_def nvme_caches_def prog_simps split: if_splits sum.splits)

lemma id_vns_Inr:
  assumes "id_vns k ns s = (Inr (Some d), s')" "nvme_caches k s"
  shows "0 < unat ns \<and> unat ns < MAX_VIRTUAL_NAMESPACES \<and> ioctl_id_vns k ns = Inr d \<and> nvme_caches k s'"
  using assms
  by (auto simp: id_vns_def do_id_vns_def nvme_caches_def prog_simps not_le unat_gt_0 word_neq_0_conv
      dest: word_eq_unatI split: if_splits sum.splits)

lemma ns_lba_shift_Inr:
  assumes "ns_lba_shift k ns s = (Inr lbas, s')" "nvme_caches k s"
  obtains d where "0 < unat ns" "unat ns < MAX_VIRTUAL_NAMESPACES" "ioctl_id_vns k ns = Inr d" "lbas = lba_shift d"
    "nvme_caches k s'"
proof -
  obtain i s1 where i: "id_vns k ns s = (Inr i, s1)"
    "(case i of None \<Rightarrow> raise (Nvme_exception (NVME_SC_DNR OR NVME_SC_INVALID_NS))
      | Some idns \<Rightarrow> return (lba_shift idns)) s1 = (Inr lbas, s')"
    using assms(1) by (auto simp: ns_lba_shift_def sbind_Inr_iff)
  then obtain d where d: "i = Some d" "lbas = lba_shift d" "s1 = s'" by (cases i) auto
  then show ?thesis using that id_vns_Inr [OF _ assms(2), of ns d s'] i(1) by auto
qed

lemma ns_cmd_check_nbytes_Inr:
  assumes "ns_cmd_check_nbytes k nb lbas s = (Inr nbytes, s')" "nvme_caches k s"
  obtains d where "ioctl_id_vctrl k = Inr d" "check_nblocks nb (unat (mdts d)) lbas = Inr True"
    "nbytes = push_bit lbas nb" "nvme_caches k s'"
proof -
  obtain i s1 where i: "id_vctrl k s = (Inr i, s1)"
    "(case i of None \<Rightarrow> raise (Nvme_exception (NVME_SC_DNR OR NVME_SC_INVALID_NS))
      | Some idc \<Rightarrow> sbind (lift_result (check_nblocks nb (unat (mdts idc)) lbas)) (\<lambda>ok.
             if \<not> ok then raise (Nvme_exception (NVME_SC_DNR OR NVME_SC_INVALID_FIELD))
             else return (push_bit lbas nb))) s1 = (Inr nbytes, s')"
    using assms(1) by (auto simp: ns_cmd_check_nbytes_def sbind_Inr_iff)
  then obtain d where d: "i = Some d" by (cases i) auto
  have c: "check_nblocks nb (unat (mdts d)) lbas = Inr True" "nbytes = push_bit lbas nb" "s1 = s'"
    using i(2) d by (auto simp: sbind_Inr_iff split: if_splits)
  then show ?thesis using that id_vctrl_Inr [OF _ assms(2), of d s'] i(1) d by auto
qed

text \<open>A command that passes the check has a byte count that fits: nothing wraps.\<close>

lemma check_nblocks_bound:
  assumes "check_nblocks nb md lbas = Inr True" "md + 12 < 64"
  shows "unat nb * 2 ^ lbas \<le> 2 ^ (md + 12)" "unat (push_bit lbas nb) = unat nb * 2 ^ lbas"
proof -
  have "nb \<le> drop_bit lbas (push_bit NVME_PAGE_SHIFT (push_bit md 1))"
    using assms(1) by (auto simp: check_nblocks_def split: if_splits)
  also have "push_bit NVME_PAGE_SHIFT (push_bit md 1) = (2 ^ (md + 12) :: u64)"
    by (simp add: NVME_PAGE_SHIFT_def push_bit_of_1 [symmetric] add.commute del: push_bit_of_1)
  finally have "unat nb \<le> unat (drop_bit lbas (2 ^ (md + 12) :: u64))" by (simp add: word_le_nat_alt)
  also have "\<dots> = 2 ^ (md + 12) div 2 ^ lbas" unfolding unat_drop_bit using assms(2) by simp
  finally show le: "unat nb * 2 ^ lbas \<le> 2 ^ (md + 12)"
    using div_times_less_eq_dividend [of "2 ^ (md + 12) :: nat" "2 ^ lbas"] mult_le_mono1 le_trans by blast
  have "(2::nat) ^ (md + 12) < 2 ^ 64" by (rule power_strict_increasing) (use assms(2) in simp_all)
  then show "unat (push_bit lbas nb) = unat nb * 2 ^ lbas"
    by (intro unat_push_bit_small) (use le in simp)
qed

lemma check_nblocks_exact:
  assumes "md + 12 < 64" "lbas < 64"
  shows "check_nblocks nb md lbas = Inr (unat nb * 2 ^ lbas \<le> 2 ^ (md + 12))"
proof -
  have "push_bit NVME_PAGE_SHIFT (push_bit md 1) = (2 ^ (md + 12) :: u64)"
    by (simp add: NVME_PAGE_SHIFT_def push_bit_of_1 [symmetric] add.commute del: push_bit_of_1)
  moreover have "unat (drop_bit lbas (2 ^ (md + 12) :: u64)) = 2 ^ (md + 12) div 2 ^ lbas"
    unfolding unat_drop_bit using assms(1) by simp
  moreover have "unat nb \<le> 2 ^ (md + 12) div 2 ^ lbas \<longleftrightarrow> unat nb * 2 ^ lbas \<le> 2 ^ (md + 12)"
    by (simp add: less_eq_div_iff_mult_less_eq)
  ultimately show ?thesis using assms by (simp add: check_nblocks_def word_le_nat_alt)
qed

section \<open>Properties\<close>

lemma all_blocks_numbers:
  "map fst (all_blocks s l cs) = map (\<lambda>i. l + of_nat i) [0..<sum_list (map (\<lambda>(a, n). unat n div 2 ^ s) cs)]"
proof (induction cs arbitrary: l)
  case (Cons c cs)
  obtain a n where c: "c = (a, n)" by (cases c)
  let ?k = "unat n div 2 ^ s" and ?r = "sum_list (map (\<lambda>(a, n). unat n div 2 ^ s) cs)"
  have "map fst (all_blocks s l (c # cs)) =
      map (\<lambda>i. l + of_nat i) [0..<?k] @ map (\<lambda>i. l + of_nat ?k + of_nat i) [0..<?r]"
    using Cons.IH [of "l + of_nat ?k"] by (simp add: c part_blocks_def comp_def)
  also have "map (\<lambda>i. l + of_nat ?k + of_nat i) [0..<?r] = map (\<lambda>i. l + of_nat i) (map (\<lambda>i. ?k + i) [0..<?r])"
    by (simp add: add.assoc)
  also have "map (\<lambda>i. ?k + i) [0..<?r] = [?k..<?k + ?r]"
    using map_add_upt [of ?k ?r] by (simp add: add.commute)
  finally show ?case using upt_add_eq_append [of 0 ?k ?r] by (simp add: c)
qed simp

lemma sum_div_exact:
  "\<forall>(a, n) \<in> set cs. d dvd unat n \<Longrightarrow> 0 < d \<Longrightarrow>
   sum_list (map (\<lambda>(a, n). unat n div d) cs) * d = sum_list (map (unat \<circ> snd) cs)"
  by (induction cs) (auto simp: add_mult_distrib)

lemma unat_nblocks: "unat (cmd_nblocks cmd) = unat (rw_length cmd) + 1"
proof -
  have "unat (rw_length cmd) < 65536" using unat_bound [of "rw_length cmd"] by simp
  then show ?thesis by (simp add: cmd_nblocks_def unat_add_small unat_ucast_up)
qed

lemma lba_iter_init_Inr:
  assumes "lba_iter_init k cmd s = (Inr it, s')" "nvme_caches k s"
  obtains d c where "ioctl_id_vns k (nsid cmd) = Inr d" "ioctl_id_vctrl k = Inr c" "nvme_caches k s'"
    "check_nblocks (cmd_nblocks cmd) (unat (mdts c)) (lba_shift d) = Inr True"
    "it = \<lparr>li_lba_shift = lba_shift d, li_slba = rw_slba cmd, li_nbytes = push_bit (lba_shift d) (cmd_nblocks cmd),
      li_prp_iter = prp_init (prp1 cmd) (prp2 cmd) (push_bit (lba_shift d) (cmd_nblocks cmd)), li_cli = 0, li_pli = 0\<rparr>"
proof -
  obtain lbas s1 nbytes where 1: "ns_lba_shift k (nsid cmd) s = (Inr lbas, s1)"
    and 2: "ns_cmd_check_nbytes k (cmd_nblocks cmd) lbas s1 = (Inr nbytes, s')"
    and it: "it = \<lparr>li_lba_shift = lbas, li_slba = rw_slba cmd, li_nbytes = nbytes,
                 li_prp_iter = prp_init (prp1 cmd) (prp2 cmd) nbytes, li_cli = 0, li_pli = 0\<rparr>"
    using assms(1) by (auto simp: lba_iter_init_def sbind_Inr_iff)
  obtain d where d: "ioctl_id_vns k (nsid cmd) = Inr d" "lbas = lba_shift d" "nvme_caches k s1"
    using 1 assms(2) by (rule ns_lba_shift_Inr)
  obtain c where "ioctl_id_vctrl k = Inr c" "check_nblocks (cmd_nblocks cmd) (unat (mdts c)) lbas = Inr True"
    "nbytes = push_bit lbas (cmd_nblocks cmd)" "nvme_caches k s'"
    using 2 d(3) by (rule ns_cmd_check_nbytes_Inr)
  then show ?thesis using that d it by simp
qed

text \<open>The parts of a command that starts at a block boundary are whole blocks.\<close>

lemma walk_parts_whole:
  assumes walk: "prp_walk fuel m (prp_init p1 p2 nb) = Some (Inr cs)" and nb0: "0 < unat nb"
    and al: "\<forall>(a, n) \<in> set (tl cs). unat a mod NVME_PAGE_SIZE = 0" and sh: "sh \<le> 12" "2 ^ sh dvd unat p1" "2 ^ sh dvd unat nb"
  shows "sum_list (map (unat \<circ> snd) cs) = unat nb" "(a, n) \<in> set cs \<Longrightarrow> 2 ^ sh dvd unat n"
proof -
  show sum: "sum_list (map (unat \<circ> snd) cs) = unat nb" using prp_walk_covers [OF walk] by (simp add: prp_init_def)
  have "cs \<noteq> []" using sum nb0 by auto
  moreover have "fst (hd cs) = p1" using prp_walk_first [OF walk] nb0 by (simp add: unat_gt_0 word_neq_0_conv)
  ultimately have sizes: "map (unat \<circ> snd) cs = map snd (cluster_split (unat p1) (unat nb) 12)"
    using prp_walk_split [OF walk] al by (simp add: prp_init_def)
  assume "(a, n) \<in> set cs"
  then have "unat n \<in> set (map (unat \<circ> snd) cs)" by force
  then obtain x where x: "(x, unat n) \<in> set (cluster_split (unat p1) (unat nb) 12)" unfolding sizes by auto
  have "(2::nat) ^ sh dvd 2 ^ 12" by (rule le_imp_power_dvd [OF sh(1)])
  with sh(2,3) show "2 ^ sh dvd unat n" using x by (rule cluster_split_dvd)
qed

text \<open>
  C6. The block iterator visits exactly the command's blocks: for a namespace with blocks of at most
  a page, a buffer whose first entry is block aligned and whose later entries are page aligned, and
  spans inside guest memory, the loop ends without an error, it visits \<open>length + 1\<close> blocks, numbered
  consecutively from the command's starting block, and the buffer of each is the next block-sized
  piece of the buffer.
\<close>

theorem block_loop_visits_command:
  assumes "nvme_caches k s" and "lba_iter_init k cmd s = (Inr it, s')"
    and "ioctl_id_vctrl k = Inr c" and "unat (mdts c) + 12 < 64"
    and "li_lba_shift it \<le> NVME_PAGE_SHIFT" and "2 ^ li_lba_shift it dvd unat (prp1 cmd)"
    and "prp_walk fuel m (li_prp_iter it) = Some (Inr cs)"
    and "\<forall>(a, n) \<in> set (tl cs). unat a mod NVME_PAGE_SIZE = 0"
    and "\<forall>(a, n) \<in> set cs. unat a + unat n \<le> unat (map_size m)"
  shows "\<exists>bs. lba_walk (unat (li_nbytes it)) m it = Some (Inr bs) \<and>
    map fst bs = map (\<lambda>i. rw_slba cmd + of_nat i) [0..<unat (rw_length cmd) + 1] \<and>
    bs = all_blocks (li_lba_shift it) (rw_slba cmd) cs"
proof -
  obtain d where chk: "check_nblocks (cmd_nblocks cmd) (unat (mdts c)) (lba_shift d) = Inr True"
    and it: "it = \<lparr>li_lba_shift = lba_shift d, li_slba = rw_slba cmd,
      li_nbytes = push_bit (lba_shift d) (cmd_nblocks cmd),
      li_prp_iter = prp_init (prp1 cmd) (prp2 cmd) (push_bit (lba_shift d) (cmd_nblocks cmd)), li_cli = 0, li_pli = 0\<rparr>"
    using lba_iter_init_Inr [OF assms(2,1)] assms(3) by (metis sum.inject(2))
  define sh where "sh = li_lba_shift it"
  have sh: "sh = lba_shift d" "sh \<le> 12" "li_lba_shift it = sh" using it assms(5) by (auto simp: sh_def NVME_PAGE_SHIFT_def)
  define nb where "nb = push_bit sh (cmd_nblocks cmd)"
  have nb: "unat nb = (unat (rw_length cmd) + 1) * 2 ^ sh"
    using check_nblocks_bound(2) [OF chk assms(4)] sh by (simp add: nb_def unat_nblocks)
  have P: "li_prp_iter it = prp_init (prp1 cmd) (prp2 cmd) nb" "li_nbytes it = nb"
    using it sh by (auto simp: nb_def)
  have nb0: "0 < unat nb" unfolding nb by simp
  have walk: "prp_walk fuel m (prp_init (prp1 cmd) (prp2 cmd) nb) = Some (Inr cs)" using assms(7) P by simp
  have "2 ^ sh dvd unat (prp1 cmd)" "2 ^ sh dvd unat nb" using assms(6) sh(3) unfolding nb by simp_all
  note whole = walk_parts_whole [OF walk nb0 assms(8) sh(2) this]
  note sum = whole(1) and dvd = whole(2)
  let ?k = "sum_list (map (\<lambda>(a, n). unat n div 2 ^ sh) cs)"
  have "?k * 2 ^ sh = unat nb" using sum_div_exact [of cs "2 ^ sh"] dvd sum by auto
  then have k: "?k = unat (rw_length cmd) + 1" unfolding nb by (simp only: mult_cancel2) simp
  have "li_pos it (prp_init (prp1 cmd) (prp2 cmd) nb) 0 0 = it" using it sh by (simp add: li_pos_def nb_def)
  moreover have ok: "\<forall>(a, n) \<in> set cs. 2 ^ sh dvd unat n \<and> unat a + unat n \<le> unat (map_size m)"
    using dvd assms(9) by blast
  moreover have slba: "li_slba it = rw_slba cmd" using it by simp
  ultimately have "lba_walk ?k m it = Some (Inr (all_blocks sh (rw_slba cmd) cs))"
    using lba_walk_blocks [OF sh(3,2) walk, of 0] ok slba by simp
  moreover have "?k \<le> unat nb"
    unfolding nb k using mult_le_mono2 [of 1 "2 ^ sh" "unat (rw_length cmd) + 1"] by simp
  ultimately have "lba_walk (unat nb) m it = Some (Inr (all_blocks sh (rw_slba cmd) cs))"
    unfolding lba_walk_def by (rule collect_mono)
  then show ?thesis using all_blocks_numbers [of sh "rw_slba cmd" cs] k P sh by auto
qed

definition sample_kernel :: nvme_kernel where
  "sample_kernel = \<lparr>ioctl_id_vctrl = Inr \<lparr>mdts = 5\<rparr>,
     ioctl_id_vns = (\<lambda>ns. if ns = 1 then Inr \<lparr>nsze = 0, ncap = 0, nuse = 0, nsfeat = 0, flbas = 0, noiob = 0,
       nvmcap = (\<lambda>_. 0), npwg = 0, npwa = 0, nows = 0, lbaf_ds = (\<lambda>_. 9)\<rparr> else Inl 22)\<rparr>"

definition sample_rw :: "u64 \<Rightarrow> u64 \<Rightarrow> u32 \<Rightarrow> nvme_command" where
  "sample_rw p1 p2 len =
     \<lparr>opcode = nvme_cmd_read, flags = 0, command_id = 7, nsid = 1, cdw2_0 = 0, cdw2_1 = 0, metadata = 0,
      prp1 = p1, prp2 = p2, cdw10 = 100, cdw11 = 0, cdw12 = len, cdw13 = 0, cdw14 = 0, cdw15 = 0\<rparr>"

lemmas init_eval = lba_iter_init_def ns_lba_shift_def id_vns_def do_id_vns_def ns_cmd_check_nbytes_def
  id_vctrl_def do_id_vctrl_def check_nblocks_def lba_shift_def cmd_nblocks_def nvme_init_def
  sample_kernel_def sample_rw_def MAX_VIRTUAL_NAMESPACES_def NVME_PAGE_SHIFT_def rw_slba_def rw_length_def
  prog_simps

lemma sample_init:
  "fst (lba_iter_init sample_kernel (sample_rw p1 p2 15) nvme_init) =
     Inr \<lparr>li_lba_shift = 9, li_slba = 100, li_nbytes = 0x2000, li_prp_iter = prp_init p1 p2 0x2000,
          li_cli = 0, li_pli = 0\<rparr>"
  by (simp add: init_eval)

theorem block_loop_visits_command_witness:
  "\<exists>bs. lba_walk 0x2000 sample_mem
      \<lparr>li_lba_shift = 9, li_slba = 100, li_nbytes = 0x2000, li_prp_iter = prp_init 0x1200 0x2000 0x2000,
       li_cli = 0, li_pli = 0\<rparr> = Some (Inr bs) \<and>
    map fst bs = map (\<lambda>i. 100 + of_nat i) [0..<16]"
proof -
  let ?cmd = "sample_rw 0x1200 0x2000 15"
  let ?it = "\<lparr>li_lba_shift = 9, li_slba = 100, li_nbytes = 0x2000, li_prp_iter = prp_init 0x1200 0x2000 0x2000,
    li_cli = 0, li_pli = 0\<rparr>"
  obtain s' where run: "lba_iter_init sample_kernel ?cmd nvme_init = (Inr ?it, s')"
    using sample_init [of "0x1200" "0x2000"] by (metis prod.collapse)
  have cmd: "rw_slba ?cmd = 100" "unat (rw_length ?cmd) = 15" "prp1 ?cmd = 0x1200"
    by (simp_all add: sample_rw_def rw_slba_def rw_length_def)
  have "ioctl_id_vctrl sample_kernel = Inr \<lparr>mdts = 5\<rparr>" "unat (mdts \<lparr>mdts = 5\<rparr>) + 12 < 64"
    "li_lba_shift ?it \<le> NVME_PAGE_SHIFT" "2 ^ li_lba_shift ?it dvd unat (prp1 ?cmd)"
    "prp_walk 3 sample_mem (li_prp_iter ?it) = Some (Inr [(0x1200, 0xe00), (0x4000, 0x1000), (0x5000, 0x200)])"
    "\<forall>(a, n) \<in> set (tl [(0x1200 :: u64, 0xe00 :: u64), (0x4000, 0x1000), (0x5000, 0x200)]).
       unat a mod NVME_PAGE_SIZE = 0"
    "\<forall>(a, n) \<in> set [(0x1200 :: u64, 0xe00 :: u64), (0x4000, 0x1000), (0x5000, 0x200)].
       unat a + unat n \<le> unat (map_size sample_mem)"
    using sample_walk by (simp_all add: sample_kernel_def NVME_PAGE_SHIFT_def cmd(3) sample_mem_size)
  from block_loop_visits_command [OF nvme_init_caches run this] show ?thesis
    by (auto simp: cmd)
qed

text \<open>
  A first entry that is not block aligned breaks the block loop: a command of two 512-byte blocks
  whose buffer starts 256 bytes before a page end is visited as three blocks, one more than it has,
  and the first of them runs across the page end.
\<close>

theorem unaligned_prp1_visits_extra_block:
  "lba_walk 4 sample_mem
     \<lparr>li_lba_shift = 9, li_slba = 100, li_nbytes = 0x400, li_prp_iter = prp_init 0x1f00 0x3000 0x400,
      li_cli = 0, li_pli = 0\<rparr> =
   Some (Inr [(100, 0x1f00, 0x200), (101, 0x3000, 0x200), (102, 0x3200, 0x200)])"
proof -
  have four: "(4 :: nat) = Suc (Suc (Suc (Suc 0)))" by simp
  show ?thesis
    unfolding four
    by (simp add: lba_walk_def lba_iter_at_end_def lba_part_def lba_iter_deref_def lba_iter_incr_def
        iter_lba_def prp_eval get_span_def int_shl1_exp)
qed

text \<open>
  The identify data that a command is checked with: what an earlier command was told, or else what the kernel answers now.
\<close>

definition ns_data :: "nvme_kernel \<Rightarrow> nvme \<Rightarrow> u32 \<Rightarrow> int + nvme_id_ns" where
  "ns_data k s ns = (case nv_idns s (unat ns) of Some d \<Rightarrow> Inr d | None \<Rightarrow> ioctl_id_vns k ns)"

definition ctrl_data :: "nvme_kernel \<Rightarrow> nvme \<Rightarrow> int + nvme_id_ctrl" where
  "ctrl_data k s = (case nv_id s of Some c \<Rightarrow> Inr c | None \<Rightarrow> ioctl_id_vctrl k)"

definition with_ns :: "u32 \<Rightarrow> nvme_id_ns \<Rightarrow> nvme \<Rightarrow> nvme" where
  "with_ns ns d s = s\<lparr>nv_idns := (nv_idns s)(unat ns := Some d)\<rparr>"

text \<open>The transfer limit on the numbers themselves, and the outcome for every identify data.\<close>

definition cmd_bytes :: "nvme_command \<Rightarrow> nvme_id_ns \<Rightarrow> nat" where
  "cmd_bytes cmd d = (unat (rw_length cmd) + 1) * 2 ^ lba_shift d"

definition within_limit :: "nvme_command \<Rightarrow> nvme_id_ns \<Rightarrow> nvme_id_ctrl \<Rightarrow> bool" where
  "within_limit cmd d c \<longleftrightarrow> unat (mdts c) + NVME_PAGE_SHIFT < 64 \<and> cmd_bytes cmd d \<le> 2 ^ (unat (mdts c) + NVME_PAGE_SHIFT)"

definition check_result :: "nvme_command \<Rightarrow> nvme_id_ns \<Rightarrow> nvme_id_ctrl \<Rightarrow> nvme_cmd_lba_iter result" where
  "check_result cmd d c =
     (if 64 \<le> unat (mdts c) \<or> 64 \<le> lba_shift d then Inl (Undefined ''shift'')
      else if within_limit cmd d c
      then Inr \<lparr>li_lba_shift = lba_shift d, li_slba = rw_slba cmd, li_nbytes = of_nat (cmd_bytes cmd d),
             li_prp_iter = prp_init (prp1 cmd) (prp2 cmd) (of_nat (cmd_bytes cmd d)), li_cli = 0, li_pli = 0\<rparr>
      else Inl (Nvme_exception (NVME_SC_DNR OR NVME_SC_INVALID_FIELD)))"

lemma ns_lba_shift_data:
  assumes "nsid cmd \<noteq> 0" "unat (nsid cmd) < MAX_VIRTUAL_NAMESPACES" "\<And>e. ioctl_id_vns k (nsid cmd) = Inl e \<Longrightarrow> 0 < e"
  shows "ns_lba_shift k (nsid cmd) s =
    (case ns_data k s (nsid cmd) of
       Inl _ \<Rightarrow> (Inl (Nvme_exception (NVME_SC_DNR OR NVME_SC_INVALID_NS)), s)
     | Inr d \<Rightarrow> (Inr (lba_shift d), with_ns (nsid cmd) d s))"
  using assms
  by (auto simp: ns_lba_shift_def id_vns_def do_id_vns_def ns_data_def with_ns_def prog_simps fun_upd_idem split: option.split sum.split)

lemma check_nblocks_limit:
  assumes "lba_shift d < 64" "unat (mdts c) < 64"
  shows "check_nblocks (cmd_nblocks cmd) (unat (mdts c)) (lba_shift d) = Inr (within_limit cmd d c)"
    and "within_limit cmd d c \<Longrightarrow> push_bit (lba_shift d) (cmd_nblocks cmd) = of_nat (cmd_bytes cmd d)"
proof -
  show "check_nblocks (cmd_nblocks cmd) (unat (mdts c)) (lba_shift d) = Inr (within_limit cmd d c)"
  proof (cases "unat (mdts c) + 12 < 64")
    case True
    then show ?thesis
      using check_nblocks_exact [of "unat (mdts c)" "lba_shift d" "cmd_nblocks cmd"] assms
      by (simp add: unat_nblocks within_limit_def cmd_bytes_def NVME_PAGE_SHIFT_def)
  next
    case False
    have "push_bit NVME_PAGE_SHIFT (push_bit (unat (mdts c)) (1 :: u64)) = 0"
      using False by (intro bit_word_eqI) (auto simp: bit_simps NVME_PAGE_SHIFT_def)
    moreover have "cmd_nblocks cmd \<noteq> 0" using unat_nblocks [of cmd] by (auto simp: unat_eq_zero)
    ultimately show ?thesis using False assms by (simp add: check_nblocks_def within_limit_def NVME_PAGE_SHIFT_def)
  qed
next
  assume l: "within_limit cmd d c"
  then have "unat (cmd_nblocks cmd) * 2 ^ lba_shift d \<le> 2 ^ (unat (mdts c) + 12)" "unat (mdts c) + 12 < 64"
    by (simp_all add: within_limit_def cmd_bytes_def unat_nblocks NVME_PAGE_SHIFT_def)
  moreover have "(2 :: nat) ^ (unat (mdts c) + 12) < 2 ^ 64" by (rule power_strict_increasing) (use calculation in simp_all)
  ultimately have "unat (push_bit (lba_shift d) (cmd_nblocks cmd)) = unat (cmd_nblocks cmd) * 2 ^ lba_shift d"
    by (intro unat_push_bit_small) simp
  then have "unat (push_bit (lba_shift d) (cmd_nblocks cmd)) = cmd_bytes cmd d" by (simp add: cmd_bytes_def unat_nblocks)
  then show "push_bit (lba_shift d) (cmd_nblocks cmd) = of_nat (cmd_bytes cmd d)" by (metis of_nat_unat ucast_id)
qed

text \<open>
  C39. What a command's size check answers, and what it leaves in the caches, for every state of the caches and every outcome of the two identify requests
  (the kernel's error numbers being positive): an invalid namespace number, or a namespace that is not cached and that the kernel does not know, give \<open>INVALID_NS\<close> with \<open>DNR\<close>
  and change nothing; if then the controller's data is not cached and cannot be had, the check ends with the run-time error \<open>cannot id vctrl\<close>; a
  limit or a block size of \<open>2 ^ 64\<close> and more is an undefined shift; and otherwise a command passes exactly if its
  \<open>(length + 1) * 2 ^ lba_shift\<close> bytes are at most \<open>2 ^ (mdts + 12)\<close> and that limit is a 64-bit number, with an iterator over
  exactly these bytes, and is answered \<open>INVALID_FIELD\<close> with \<open>DNR\<close> if not.
\<close>

theorem command_check_outcomes:
  assumes "\<And>e. ioctl_id_vns k (nsid cmd) = Inl e \<Longrightarrow> 0 < e" and "\<And>e. ioctl_id_vctrl k = Inl e \<Longrightarrow> 0 < e"
  shows "lba_iter_init k cmd s =
    (if nsid cmd = 0 \<or> MAX_VIRTUAL_NAMESPACES \<le> unat (nsid cmd)
     then (Inl (Nvme_exception (NVME_SC_DNR OR NVME_SC_INVALID_NS)), s)
     else case ns_data k s (nsid cmd) of
       Inl _ \<Rightarrow> (Inl (Nvme_exception (NVME_SC_DNR OR NVME_SC_INVALID_NS)), s)
     | Inr d \<Rightarrow> (case ctrl_data k s of
         Inl _ \<Rightarrow> (Inl (Runtime_error ''cannot id vctrl''), with_ns (nsid cmd) d s)
       | Inr c \<Rightarrow> (check_result cmd d c, (with_ns (nsid cmd) d s)\<lparr>nv_id := Some c\<rparr>)))"
proof (cases "nsid cmd = 0 \<or> MAX_VIRTUAL_NAMESPACES \<le> unat (nsid cmd)")
  case True
  then show ?thesis by (simp add: lba_iter_init_def ns_lba_shift_def id_vns_def prog_simps)
next
  case False
  then have ns: "ns_lba_shift k (nsid cmd) s =
    (case ns_data k s (nsid cmd) of
       Inl _ \<Rightarrow> (Inl (Nvme_exception (NVME_SC_DNR OR NVME_SC_INVALID_NS)), s)
     | Inr d \<Rightarrow> (Inr (lba_shift d), with_ns (nsid cmd) d s))"
    using assms(1) by (intro ns_lba_shift_data) auto
  have ctrl: "id_vctrl k (with_ns n d s) =
    (case ctrl_data k s of
       Inl _ \<Rightarrow> (Inl (Runtime_error ''cannot id vctrl''), with_ns n d s)
     | Inr c \<Rightarrow> (Inr (Some c), (with_ns n d s)\<lparr>nv_id := Some c\<rparr>))" for n d
    using assms(2) by (auto simp: id_vctrl_def do_id_vctrl_def ctrl_data_def with_ns_def prog_simps split: option.split sum.split)
  have chk: "check_nblocks (cmd_nblocks cmd) (unat (mdts c)) (lba_shift d) =
     (if 64 \<le> unat (mdts c) \<or> 64 \<le> lba_shift d then Inl (Undefined ''shift'') else Inr (within_limit cmd d c))" for c d
    using check_nblocks_limit(1) [of d c cmd] by (auto simp: check_nblocks_def)
  show ?thesis
    using False check_nblocks_limit(2)
    by (auto simp: lba_iter_init_def ns ns_cmd_check_nbytes_def ctrl chk check_result_def not_le prog_simps split: sum.split)
qed

theorem command_check_outcomes_witness:
  "fst (lba_iter_init sample_kernel (sample_rw 0x1200 0x2000 511) nvme_init) =
     Inl (Nvme_exception (NVME_SC_DNR OR NVME_SC_INVALID_FIELD)) \<and>
   lba_iter_init sample_kernel ((sample_rw 0x1200 0x2000 15)\<lparr>nsid := 99\<rparr>) nvme_init =
     (Inl (Nvme_exception (NVME_SC_DNR OR NVME_SC_INVALID_NS)), nvme_init)"
proof -
  let ?big = "sample_rw 0x1200 0x2000 511" and ?bad = "(sample_rw 0x1200 0x2000 15)\<lparr>nsid := 99\<rparr>"
  have errno: "ioctl_id_vns sample_kernel n = Inl e \<Longrightarrow> 0 < e" "ioctl_id_vctrl sample_kernel = Inl e \<Longrightarrow> 0 < e" for n e
    by (auto simp: sample_kernel_def split: if_splits)
  have "nsid ?big = 1" "unat (rw_length ?big) = 511" "nsid ?bad = 99"
    by (simp_all add: sample_rw_def rw_length_def)
  then show ?thesis
    using command_check_outcomes [of sample_kernel ?big nvme_init, OF errno(1) [of "nsid ?big"] errno(2)] command_check_outcomes [of sample_kernel ?bad nvme_init, OF errno(1) [of "nsid ?bad"] errno(2)]
    by (simp add: sample_kernel_def lba_shift_def MAX_VIRTUAL_NAMESPACES_def nvme_init_def ns_data_def ctrl_data_def check_result_def
        within_limit_def cmd_bytes_def NVME_PAGE_SHIFT_def)
qed

end
