(* ===== verification/BlockWalk.thy ===== *)
theory BlockWalk
  imports NvmeCtrl
begin

text \<open>
  Facts about loops over the blocks of a command that the handlers share: how long such a loop can run, also when its body
  writes to guest memory, how it numbers the blocks, and which bytes of guest memory the iterator itself reads.
\<close>

section \<open>How long a block loop runs\<close>

text \<open>
  Memory may change under the iterator, so the number of turns is bounded by the blocks of a page for every byte that is left.
\<close>

definition lba_fuel :: "nvme_cmd_lba_iter \<Rightarrow> nat" where
  "lba_fuel it = NVME_PAGE_SIZE * unat (li_nbytes it)"

definition lba_left :: "nvme_cmd_lba_iter \<Rightarrow> nat" where
  "lba_left it = 4096 * unat (prp_nbytes (li_prp_iter it)) - unat (li_pli it)"

definition lba_ok :: "nvme_cmd_lba_iter \<Rightarrow> bool" where
  "lba_ok it \<longleftrightarrow> li_lba_shift it < 64 \<and> unat (li_pli it) * 2 ^ li_lba_shift it < 4096"

lemma lba_ok_pli: "lba_ok it \<Longrightarrow> unat (li_pli it) < 4096"
proof -
  assume "lba_ok it"
  moreover have "unat (li_pli it) \<le> unat (li_pli it) * 2 ^ li_lba_shift it" by simp
  ultimately show ?thesis unfolding lba_ok_def by linarith
qed

lemma lba_left_pos: "lba_ok it \<Longrightarrow> \<not> lba_iter_at_end it \<Longrightarrow> 0 < lba_left it"
  using lba_ok_pli [of it]
  by (auto simp: lba_left_def lba_iter_at_end_def prp_at_end_def unat_gt_0 [symmetric])

lemma pli_shift:
  assumes "lba_ok it"
  shows "unat (push_bit (li_lba_shift it) (li_pli it + 1)) = (unat (li_pli it) + 1) * 2 ^ li_lba_shift it"
proof -
  let ?s = "li_lba_shift it" and ?p = "unat (li_pli it)"
  have p: "?p < 4096" by (rule lba_ok_pli [OF assms])
  then have p1: "unat (li_pli it + 1) = ?p + 1" by (subst unat_add_small) simp_all
  have "(?p + 1) * 2 ^ ?s < 2 ^ 64"
  proof (cases "?s \<le> 12")
    case True
    then have "(2::nat) ^ ?s \<le> 2 ^ 12" by (rule power_increasing) simp
    then have "(?p + 1) * 2 ^ ?s \<le> 4096 * 2 ^ 12" using p by (intro mult_le_mono) simp_all
    then show ?thesis by simp
  next
    case False
    then have "(2::nat) ^ 13 \<le> 2 ^ ?s" by (intro power_increasing) simp_all
    then have "?p = 0" using assms by (cases "?p") (auto simp: lba_ok_def)
    moreover have "(2::nat) ^ ?s < 2 ^ 64" using assms by (intro power_strict_increasing) (simp_all add: lba_ok_def)
    ultimately show ?thesis by simp
  qed
  then show ?thesis using p1 by (subst unat_push_bit_small) simp_all
qed

lemma lba_iter_incr_cases:
  assumes "lba_iter_incr m it = Inr it'"
  obtains (page) n p where "prp_this_nbytes m (li_prp_iter it) = Inr n" "prp_incr m (li_prp_iter it) = Inr p"
      "it' = it\<lparr>li_cli := li_cli it + (li_pli it + 1), li_pli := 0, li_prp_iter := p\<rparr>"
    | (block) n where "prp_this_nbytes m (li_prp_iter it) = Inr n" "it' = it\<lparr>li_pli := li_pli it + 1\<rparr>"
      "push_bit (li_lba_shift it) (li_pli it + 1) < min 4096 n"
  using assms by (auto simp: lba_iter_incr_def Let_def rbind_Inr_iff not_le split: if_splits)

lemma lba_incr_left:
  assumes "lba_iter_incr m it = Inr it'" "lba_ok it" "\<not> lba_iter_at_end it"
  shows "lba_ok it' \<and> lba_left it' < lba_left it"
  using assms(1)
proof (cases rule: lba_iter_incr_cases)
  case (page n p)
  obtain a k where k: "prp_nbytes p = prp_nbytes (li_prp_iter it) - k" "0 < unat k"
    "unat k \<le> unat (prp_nbytes (li_prp_iter it))"
    using page(2) by (rule prp_incr_data)
  have "unat (prp_nbytes p) = unat (prp_nbytes (li_prp_iter it)) - unat k"
    unfolding k(1) by (rule unat_sub_small [OF k(3)])
  then have "lba_left it' + 4096 \<le> 4096 * unat (prp_nbytes (li_prp_iter it))"
    using k(2,3) by (simp add: lba_left_def page(3))
  then show ?thesis
    using lba_ok_pli [OF assms(2)] assms(2) by (auto simp: lba_left_def lba_ok_def page(3))
next
  case (block n)
  have "unat (push_bit (li_lba_shift it) (li_pli it + 1)) < unat (min 4096 n)" using block(3) by (simp only: word_less_nat_alt)
  then have lt: "(unat (li_pli it) + 1) * 2 ^ li_lba_shift it < 4096"
    unfolding pli_shift [OF assms(2)] by (simp add: unat_min)
  have p1: "unat (li_pli it + 1) = unat (li_pli it) + 1"
    using lba_ok_pli [OF assms(2)] by (subst unat_add_small) simp_all
  have "lba_ok it'" using lt assms(2) by (simp add: lba_ok_def block(2) p1)
  moreover have "lba_left it' < lba_left it"
    using lba_left_pos [OF assms(2,3)] by (simp add: lba_left_def block(2) p1)
  ultimately show ?thesis ..
qed

lemma lba_init_ok:
  assumes "lba_iter_init k cmd s = (Inr it, s')"
  shows "lba_ok it" "lba_left it = lba_fuel it"
proof -
  obtain s1 where 2: "ns_cmd_check_nbytes k (cmd_nblocks cmd) (li_lba_shift it) s1 = (Inr (li_nbytes it), s')"
    and it: "li_pli it = 0" "li_prp_iter it = prp_init (prp1 cmd) (prp2 cmd) (li_nbytes it)"
    using assms by (auto simp: lba_iter_init_def sbind_Inr_iff)
  have "li_lba_shift it < 64"
  proof (rule ccontr)
    assume "\<not> li_lba_shift it < 64"
    then show False
      using 2 by (auto simp: ns_cmd_check_nbytes_def check_nblocks_def sbind_Inr_iff split: option.splits)
  qed
  then show "lba_ok it" "lba_left it = lba_fuel it"
    using it by (simp_all add: lba_ok_def lba_left_def lba_fuel_def prp_init_def)
qed

section \<open>Block numbers\<close>

lemma iter_lba_incr:
  "lba_iter_incr m it = Inr it' \<Longrightarrow>
   iter_lba it' = iter_lba it + 1 \<and> command_lba_index it' = command_lba_index it + 1 \<and> li_lba_shift it' = li_lba_shift it \<and>
   li_slba it' = li_slba it"
  by (auto elim!: lba_iter_incr_cases simp: iter_lba_def command_lba_index_def)

lemma lba_walk_0: "lba_walk 0 m it = Some (Inr bs) \<Longrightarrow> lba_iter_at_end it \<and> bs = []"
  by (auto simp: lba_walk_def split: if_splits)

lemma lba_walk_end: "lba_iter_at_end it \<Longrightarrow> lba_walk fuel m it = Some (Inr bs) \<Longrightarrow> bs = []"
  by (cases fuel) (auto simp: lba_walk_def)

lemma lba_walk_step:
  assumes "lba_walk (Suc fuel) m it = Some (Inr bs)" "\<not> lba_iter_at_end it"
  obtains sp it' bs' where "lba_iter_deref m it = Inr sp" "lba_iter_incr m it = Inr it'" "bs = (iter_lba it, sp) # bs'"
    "lba_walk fuel m it' = Some (Inr bs')"
proof -
  obtain x it' bs' where 1: "lba_part m it = Inr x" "lba_iter_incr m it = Inr it'" "bs = x # bs'"
    "lba_walk fuel m it' = Some (Inr bs')"
    using assms unfolding lba_walk_def by (rule collect_step)
  then show ?thesis using that by (auto simp: lba_part_def rbind_Inr_iff)
qed

lemma lba_iter_deref_span:
  assumes "lba_iter_deref m it = Inr sp" "li_lba_shift it < 31"
  shows "unat (snd sp) = 2 ^ li_lba_shift it" "unat (fst sp) + 2 ^ li_lba_shift it \<le> unat (map_size m)"
  using assms by (auto simp: lba_iter_deref_def rbind_Inr_iff dest!: get_span_Inr)

lemma lba_walk_numbers:
  "lba_walk fuel m it = Some (Inr bs) \<Longrightarrow> map fst bs = map (\<lambda>i. iter_lba it + of_nat i) [0..<length bs]"
proof (induction fuel arbitrary: it bs)
  case 0
  then show ?case by (auto dest: lba_walk_0)
next
  case (Suc fuel)
  show ?case
  proof (cases "lba_iter_at_end it")
    case True
    then show ?thesis using lba_walk_end [OF True Suc.prems] by simp
  next
    case False
    with Suc.prems obtain sp it' bs' where st: "lba_iter_incr m it = Inr it'" "bs = (iter_lba it, sp) # bs'"
      "lba_walk fuel m it' = Some (Inr bs')"
      by (rule lba_walk_step)
    have "map fst bs' = map (\<lambda>i. iter_lba it + of_nat (Suc i)) [0..<length bs']"
      using Suc.IH [OF st(3)] iter_lba_incr [OF st(1)] by (simp add: add.assoc)
    also have "\<dots> = map (\<lambda>i. iter_lba it + of_nat i) (map Suc [0..<length bs'])"
      by (simp only: map_map comp_def)
    also have "map Suc [0..<length bs'] = [1..<Suc (length bs')]" by (simp only: map_Suc_upt One_nat_def)
    finally have "map fst bs = map (\<lambda>i. iter_lba it + of_nat i) (0 # [1..<Suc (length bs')])" by (simp add: st(2) del: upt_Suc)
    also have "0 # [1..<Suc (length bs')] = [0..<length bs]" by (simp add: st(2) upt_conv_Cons del: upt_Suc)
    finally show ?thesis .
  qed
qed

lemma lba_walk_spans:
  "lba_walk fuel m it = Some (Inr bs) \<Longrightarrow> li_lba_shift it < 31 \<Longrightarrow>
   \<forall>(l, sp) \<in> set bs. unat (snd sp) = 2 ^ li_lba_shift it \<and> unat (fst sp) + 2 ^ li_lba_shift it \<le> unat (map_size m)"
proof (induction fuel arbitrary: it bs)
  case 0
  then show ?case by (auto dest: lba_walk_0)
next
  case (Suc fuel)
  show ?case
  proof (cases "lba_iter_at_end it")
    case True
    then show ?thesis using lba_walk_end [OF True Suc.prems(1)] by simp
  next
    case False
    with Suc.prems(1) obtain sp it' bs' where st: "lba_iter_deref m it = Inr sp" "lba_iter_incr m it = Inr it'"
      "bs = (iter_lba it, sp) # bs'" "lba_walk fuel m it' = Some (Inr bs')"
      by (rule lba_walk_step)
    have "li_lba_shift it' = li_lba_shift it" using iter_lba_incr [OF st(2)] by simp
    then show ?thesis
      using Suc.IH [OF st(4)] lba_iter_deref_span [OF st(1)] Suc.prems(2) st(3) by auto
  qed
qed

section \<open>What the iterator reads\<close>

text \<open>The bytes of a list entry, and those that a block loop reads on its way.\<close>

fun entry_bytes :: "prp_list \<Rightarrow> nat \<Rightarrow> nat set" where
  "entry_bytes (Cmd_list es) i = {}"
| "entry_bytes (Page_list off n) i = {unat off + 8 * i ..< unat off + 8 * i + 8}"

fun lba_reads :: "nat \<Rightarrow> mapping \<Rightarrow> nvme_cmd_lba_iter \<Rightarrow> nat set" where
  "lba_reads 0 m it = {}"
| "lba_reads (Suc n) m it =
     (if lba_iter_at_end it then {}
      else let p = li_prp_iter it
           in entry_bytes (prpl p) (prpi p) \<union> entry_bytes (prpl p) (prpi p + 1) \<union>
              (case lba_iter_incr m it of Inr it' \<Rightarrow> lba_reads n m it' | Inl e \<Rightarrow> {}))"

definition agree_on :: "nat set \<Rightarrow> mapping \<Rightarrow> mapping \<Rightarrow> bool" where
  "agree_on A m m' \<longleftrightarrow> map_size m' = map_size m \<and> (\<forall>i \<in> A. map_byte m' i = map_byte m i)"

lemma agree_on_subset: "agree_on A m m' \<Longrightarrow> B \<subseteq> A \<Longrightarrow> agree_on B m m'"
  by (auto simp: agree_on_def)

lemma prp_entry_agree: "agree_on (entry_bytes l i) m m' \<Longrightarrow> prp_entry m' l i = prp_entry m l i"
proof (cases l)
  case (Page_list off n)
  assume "agree_on (entry_bytes l i) m m'"
  then have "\<forall>j<8. map_byte m' (unat off + 8 * i + j) = map_byte m (unat off + 8 * i + j)"
    by (auto simp: agree_on_def Page_list)
  then have "load_u64 m' (unat off + 8 * i) = load_u64 m (unat off + 8 * i)"
    unfolding load_u64_def by (intro fold_cong) auto
  then show ?thesis by (simp add: Page_list)
qed simp

lemma lba_step_agree:
  assumes "agree_on (entry_bytes (prpl p) (prpi p) \<union> entry_bytes (prpl p) (prpi p + 1)) m m'" "p = li_prp_iter it"
  shows "lba_iter_deref m' it = lba_iter_deref m it" "lba_iter_incr m' it = lba_iter_incr m it"
proof -
  have e: "prp_entry m' (prpl p) (prpi p) = prp_entry m (prpl p) (prpi p)"
    "prp_entry m' (prpl p) (prpi p + 1) = prp_entry m (prpl p) (prpi p + 1)"
    using assms(1) by (auto intro!: prp_entry_agree elim: agree_on_subset)
  have sz: "map_size m' = map_size m" using assms(1) by (simp add: agree_on_def)
  have "get_page m' = get_page m" by (rule ext) (simp add: get_page_def sz)
  moreover have "get_span m' = get_span m" by (intro ext) (simp add: get_span_def sz)
  moreover have "prp_deref m' q = prp_deref m q" if "prpl q = prpl p" "prpi q = prpi p \<or> prpi q = prpi p + 1" for q
    using that e by (auto simp: prp_deref_def)
  moreover have "prp_this_nbytes m' p = prp_this_nbytes m p" using e by (simp add: prp_this_nbytes_def)
  ultimately have "prp_incr m' p = prp_incr m p" "prp_deref m' p = prp_deref m p" "prp_this_nbytes m' p = prp_this_nbytes m p"
    "get_span m' = get_span m"
    by (simp_all add: prp_incr_def Let_def cong: if_cong)
  then show "lba_iter_deref m' it = lba_iter_deref m it" "lba_iter_incr m' it = lba_iter_incr m it"
    by (simp_all add: lba_iter_deref_def lba_iter_incr_def Let_def assms(2) [symmetric] cong: if_cong)
qed

section \<open>Commands whose loop visits their blocks\<close>

text \<open>
  The loop of a command succeeds, with one turn for each block of the command. Commands that conform to the specification
  do this, as shown for the block iterator.
\<close>

definition visits :: "nvme_kernel \<Rightarrow> nvme \<Rightarrow> mapping \<Rightarrow> nvme_command \<Rightarrow> nvme_cmd_lba_iter \<Rightarrow> (u64 \<times> u64 \<times> u64) list \<Rightarrow> bool" where
  "visits k nv m cmd it bs \<longleftrightarrow> fst (lba_iter_init k cmd nv) = Inr it \<and> lba_walk (lba_fuel it) m it = Some (Inr bs) \<and>
     length bs = unat (rw_length cmd) + 1 \<and> unat (li_nbytes it) = length bs * 2 ^ li_lba_shift it"

lemma id_vns_indep:
  assumes "nvme_caches k a" "nvme_caches k b" "id_vns k ns a = (Inr (Some d), a')"
  shows "\<exists>b'. id_vns k ns b = (Inr (Some d), b') \<and> nvme_caches k b'"
proof -
  have d: "0 < unat ns" "unat ns < MAX_VIRTUAL_NAMESPACES" "ioctl_id_vns k ns = Inr d"
    using id_vns_Inr [OF assms(3,1)] by auto
  show ?thesis
  proof (cases "nv_idns b (unat ns)")
    case None
    have "nvme_caches k (b\<lparr>nv_idns := (nv_idns b)(unat ns := Some d)\<rparr>)"
      using assms(2) d by (auto simp: nvme_caches_def dest: word_eq_unatI)
    then show ?thesis
      using None d by (auto simp: id_vns_def do_id_vns_def prog_simps unat_gt_0)
  next
    case (Some d')
    then have "d' = d" using assms(2) d(3) by (auto simp: nvme_caches_def)
    then show ?thesis using Some d assms(2) by (auto simp: id_vns_def prog_simps unat_gt_0)
  qed
qed

lemma id_vctrl_indep:
  assumes "nvme_caches k a" "nvme_caches k b" "id_vctrl k a = (Inr (Some d), a')"
  shows "\<exists>b'. id_vctrl k b = (Inr (Some d), b') \<and> nvme_caches k b'"
proof -
  have d: "ioctl_id_vctrl k = Inr d" using id_vctrl_Inr [OF assms(3,1)] by auto
  show ?thesis
  proof (cases "nv_id b")
    case None
    then show ?thesis using d assms(2) by (auto simp: id_vctrl_def do_id_vctrl_def prog_simps nvme_caches_def)
  next
    case (Some d')
    then have "d' = d" using assms(2) d by (auto simp: nvme_caches_def)
    then show ?thesis using Some assms(2) by (auto simp: id_vctrl_def prog_simps)
  qed
qed

text \<open>What a command's iterator is does not depend on what has been cached.\<close>

lemma lba_iter_init_indep:
  assumes a: "nvme_caches k a" and b: "nvme_caches k b" and r: "lba_iter_init k cmd a = (Inr it, a')"
  shows "\<exists>b'. lba_iter_init k cmd b = (Inr it, b') \<and> nvme_caches k b'"
proof -
  obtain i a1 where i: "id_vns k (nsid cmd) a = (Inr i, a1)" "i \<noteq> None"
    using r by (auto simp: lba_iter_init_def ns_lba_shift_def sbind_Inr_iff split: option.splits)
  then obtain d where d: "i = Some d" by auto
  have a1: "nvme_caches k a1" using id_vns_Inr i(1) a d by blast
  obtain b1 where b1: "id_vns k (nsid cmd) b = (Inr (Some d), b1)" "nvme_caches k b1"
    using id_vns_indep [OF a b, of "nsid cmd" d a1] i(1) d by auto
  obtain j a2 where j: "id_vctrl k a1 = (Inr j, a2)" "j \<noteq> None"
    using r i d by (auto simp: lba_iter_init_def ns_lba_shift_def ns_cmd_check_nbytes_def sbind_Inr_iff split: option.splits)
  then obtain c where c: "j = Some c" by auto
  obtain b2 where b2: "id_vctrl k b1 = (Inr (Some c), b2)" "nvme_caches k b2"
    using id_vctrl_indep [OF a1 b1(2), of c a2] j(1) c by auto
  have "lba_iter_init k cmd b = (Inr it, b2)"
    using r i(1) j(1) b1(1) b2(1) by (auto simp: lba_iter_init_def ns_lba_shift_def ns_cmd_check_nbytes_def prog_simps d c split: sum.splits if_splits)
  then show ?thesis using b2(2) by blast
qed

lemma visits_facts:
  assumes "visits k nv m cmd it bs" "nvme_caches k nv"
  shows "command_lba_index it = 0" "li_slba it = rw_slba cmd" "map fst bs = map (\<lambda>i. rw_slba cmd + of_nat i) [0..<length bs]"
    "lba_ok it" "lba_left it = lba_fuel it" "\<exists>d. ioctl_id_vns k (nsid cmd) = Inr d \<and> li_lba_shift it = lba_shift d"
proof -
  obtain nv' where r: "lba_iter_init k cmd nv = (Inr it, nv')" using assms(1) by (metis visits_def prod.collapse)
  obtain d c where d: "ioctl_id_vns k (nsid cmd) = Inr d"
    "it = \<lparr>li_lba_shift = lba_shift d, li_slba = rw_slba cmd, li_nbytes = push_bit (lba_shift d) (cmd_nblocks cmd),
      li_prp_iter = prp_init (prp1 cmd) (prp2 cmd) (push_bit (lba_shift d) (cmd_nblocks cmd)), li_cli = 0, li_pli = 0\<rparr>"
    using r assms(2) by (rule lba_iter_init_Inr)
  then show "command_lba_index it = 0" "li_slba it = rw_slba cmd" "\<exists>d. ioctl_id_vns k (nsid cmd) = Inr d \<and> li_lba_shift it = lba_shift d"
    by (simp_all add: command_lba_index_def)
  have "iter_lba it = rw_slba cmd" using d(2) by (simp add: iter_lba_def)
  then show "map fst bs = map (\<lambda>i. rw_slba cmd + of_nat i) [0..<length bs]"
    using lba_walk_numbers [of "lba_fuel it" m it bs] assms(1) by (simp add: visits_def)
  show "lba_ok it" "lba_left it = lba_fuel it" using lba_init_ok [OF r] by simp_all
qed


lemma lba_reads_enough: "lba_walk k m it = Some (Inr bs) \<Longrightarrow> lba_reads (k + j) m it = lba_reads k m it"
proof (induction k arbitrary: it bs)
  case 0
  then show ?case by (cases j) (auto dest: lba_walk_0)
next
  case (Suc k)
  show ?case
  proof (cases "lba_iter_at_end it")
    case False
    with Suc.prems obtain it' bs' where "lba_iter_incr m it = Inr it'" "lba_walk k m it' = Some (Inr bs')"
      by (rule lba_walk_step)
    then show ?thesis using Suc.IH False by simp
  qed simp
qed

text \<open>A command of two blocks in one page, on the sample namespace.\<close>

definition sample_iter :: "u64 \<Rightarrow> nvme_cmd_lba_iter" where
  "sample_iter p = \<lparr>li_lba_shift = 9, li_slba = 100, li_nbytes = 0x400, li_prp_iter = prp_init p 0 0x400, li_cli = 0, li_pli = 0\<rparr>"

lemmas lba_eval = numeral_3_eq_3 lba_walk_def lba_iter_at_end_def lba_part_def lba_iter_deref_def lba_iter_incr_def iter_lba_def prp_init_def
  prp_at_end_def prp_is_data_def prp_this_nbytes_def prp_deref_def prp_incr_def get_span_def check_span_def int_shl1_exp Let_def

lemma sample_walk_blocks:
  assumes "map_size m = 0x8000" "p = 0x1000 \<or> p = 0x3000"
  shows "lba_walk 3 m (sample_iter p) = Some (Inr [(100, p, 0x200), (101, p + 0x200, 0x200)])"
  using assms(2) by (elim disjE; simp add: assms(1) sample_iter_def lba_eval)

lemma sample_reads:
  assumes "map_size m = 0x8000" "p = 0x1000 \<or> p = 0x3000"
  shows "lba_reads 3 m (sample_iter p) = {}"
  using assms(2) by (elim disjE; simp add: assms(1) sample_iter_def lba_eval)

lemma sample_visits:
  assumes "map_size m = 0x8000" "p = 0x1000 \<or> p = 0x3000" "cmd = sample_rw p 0 1 \<or> cmd = (sample_rw p 0 1)\<lparr>opcode := nvme_cmd_write\<rparr>"
  shows "visits sample_kernel nvme_init m cmd (sample_iter p) [(100, p, 0x200), (101, p + 0x200, 0x200)]"
    "lba_reads (lba_fuel (sample_iter p)) m (sample_iter p) = {}"
proof -
  note w = sample_walk_blocks [OF assms(1,2)] sample_reads [OF assms(1,2)]
  have f: "lba_fuel (sample_iter p) = 3 + (4096 * 0x400 - 3)" by (simp add: lba_fuel_def sample_iter_def)
  have "lba_walk (lba_fuel (sample_iter p)) m (sample_iter p) = Some (Inr [(100, p, 0x200), (101, p + 0x200, 0x200)])"
    unfolding lba_walk_def by (rule collect_mono [OF w(1) [unfolded lba_walk_def]]) (simp add: f)
  moreover have "fst (lba_iter_init sample_kernel cmd nvme_init) = Inr (sample_iter p)" "rw_length cmd = 1"
    using assms(3) by (auto simp: init_eval sample_iter_def)
  ultimately show "visits sample_kernel nvme_init m cmd (sample_iter p) [(100, p, 0x200), (101, p + 0x200, 0x200)]"
    by (simp add: visits_def) (simp add: sample_iter_def)
  show "lba_reads (lba_fuel (sample_iter p)) m (sample_iter p) = {}"
    unfolding f lba_reads_enough [OF w(1)] by (rule w(2))
qed

end
