(* ===== verification/Cipher.thy ===== *)
theory Cipher
  imports NvmeCore
begin

text \<open>
  The tweakable block ciphers (\<open>crypto/tbc.hpp\<close>) and their two implementations, on Intel IPP (\<open>aes_xts_ipp.cpp\<close>) and on
  OpenSSL (\<open>aes_xts_libcrypto.cpp\<close>). The cipher libraries are arguments of the definitions.
\<close>

section \<open>The interface\<close>

text \<open>
  A cipher operation is given the bytes of the output span, the input and the block number; it tells whether it succeeded
  and what the output span then holds.
\<close>

type_synonym cipher_fn = "u8 list \<Rightarrow> u8 list \<Rightarrow> u64 \<Rightarrow> bool \<times> u8 list"

record tbc =
  tbc_encrypt :: cipher_fn
  tbc_decrypt :: cipher_fn

text \<open>The overloads that work in place.\<close>

definition encrypt_inplace :: "tbc \<Rightarrow> u8 list \<Rightarrow> u64 \<Rightarrow> bool \<times> u8 list" where
  "encrypt_inplace e dat lba = tbc_encrypt e dat dat lba"

definition decrypt_inplace :: "tbc \<Rightarrow> u8 list \<Rightarrow> u64 \<Rightarrow> bool \<times> u8 list" where
  "decrypt_inplace e dat lba = tbc_decrypt e dat dat lba"

definition xts_max_bytes :: nat where "xts_max_bytes = 2 ^ 20"

text \<open>The union of two 64-bit block numbers and sixteen bytes, the second number being 0.\<close>

definition xts_tweak :: "u64 \<Rightarrow> u8 list" where
  "xts_tweak lba = map (\<lambda>i. ucast (drop_bit (8 * i) lba)) [0..<8] @ replicate 8 0"

section \<open>Intel IPP\<close>

text \<open>
  The library: the status of \<open>XTSGetSize\<close>, whether \<open>calloc\<close> finds memory, the status of \<open>XTSInit\<close> for a key and the sizes
  of key and data unit in bits, and the two ciphers, which take the key, the input, the output span, the size in bits and the
  tweak, and give a status and the new contents of the output span.
\<close>

record ippcp =
  ipp_get_size :: int
  ipp_calloc :: bool
  ipp_init :: "u8 list \<Rightarrow> int \<Rightarrow> int \<Rightarrow> int"
  ipp_encrypt :: "u8 list \<Rightarrow> u8 list \<Rightarrow> u8 list \<Rightarrow> int \<Rightarrow> u8 list \<Rightarrow> int \<times> u8 list"
  ipp_decrypt :: "u8 list \<Rightarrow> u8 list \<Rightarrow> u8 list \<Rightarrow> int \<Rightarrow> u8 list \<Rightarrow> int \<times> u8 list"

definition ippStsNoErr :: int where "ippStsNoErr = 0"

definition ctx_create :: "ippcp \<Rightarrow> u8 list \<Rightarrow> nat \<Rightarrow> u8 list result" where
  "ctx_create L key block_size =
     (if xts_max_bytes < block_size then Inl (Out_of_range ''xts block size too large'')
      else if ipp_get_size L \<noteq> ippStsNoErr then Inl (System_error ''cannot get xts context size'')
      else if \<not> ipp_calloc L then Inl Bad_alloc
      else if ipp_init L key (int (length key) * 8) (int block_size * 8) \<noteq> ippStsNoErr
      then Inl (System_error ''cannot init xts engine'')
      else Inr key)"

text \<open>The context is kept as the key it was initialised with.\<close>

record aes_xts_ipp =
  ipp_bs :: nat
  ipp_ctx :: "u8 list option"

definition aes_xts_ipp_make :: "ippcp \<Rightarrow> u8 list \<Rightarrow> nat \<Rightarrow> aes_xts_ipp result" where
  "aes_xts_ipp_make L key block_size =
     rbind (ctx_create L key block_size) (\<lambda>ctx. Inr \<lparr>ipp_bs = block_size, ipp_ctx = Some ctx\<rparr>)"

definition ipp_block_encrypt :: "ippcp \<Rightarrow> aes_xts_ipp \<Rightarrow> cipher_fn" where
  "ipp_block_encrypt L x out dat lba =
     (case ipp_ctx x of
        None \<Rightarrow> (False, out)
      | Some key \<Rightarrow>
          if length out < length dat \<or> length dat \<noteq> ipp_bs x then (False, out)
          else case ipp_encrypt L key dat out (int (length dat) * 8) (xts_tweak lba) of
                 (st, out') \<Rightarrow> (st = ippStsNoErr, out'))"

definition ipp_block_decrypt :: "ippcp \<Rightarrow> aes_xts_ipp \<Rightarrow> cipher_fn" where
  "ipp_block_decrypt L x out dat lba =
     (case ipp_ctx x of
        None \<Rightarrow> (False, out)
      | Some key \<Rightarrow>
          if length out < length dat \<or> length dat \<noteq> ipp_bs x then (False, out)
          else case ipp_decrypt L key dat out (int (length dat) * 8) (xts_tweak lba) of
                 (st, out') \<Rightarrow> (st = ippStsNoErr, out'))"

definition ipp_engine :: "ippcp \<Rightarrow> aes_xts_ipp \<Rightarrow> tbc" where
  "ipp_engine L x = \<lparr>tbc_encrypt = ipp_block_encrypt L x, tbc_decrypt = ipp_block_decrypt L x\<rparr>"

section \<open>OpenSSL\<close>

text \<open>
  The library: sizes of the cipher's IV and key, whether contexts can be made and set up, and per block whether setting the
  IV, the update (with the new contents of the output span) and the final step succeed.
\<close>

record evp =
  evp_iv_length :: nat
  evp_key_length :: nat
  evp_ctx_new :: "bool \<Rightarrow> bool"
  evp_init :: "bool \<Rightarrow> u8 list \<Rightarrow> bool"
  evp_set_padding :: "bool \<Rightarrow> bool"
  evp_set_iv :: "bool \<Rightarrow> u8 list \<Rightarrow> bool"
  evp_update :: "bool \<Rightarrow> u8 list \<Rightarrow> u8 list \<Rightarrow> u8 list \<Rightarrow> u8 list \<Rightarrow> bool \<times> u8 list"
  evp_final :: "bool \<Rightarrow> bool"

record aes_xts_libcrypto =
  lc_enc :: "u8 list option"
  lc_dec :: "u8 list option"

text \<open>Making one of the two contexts; the flag is true for encryption.\<close>

definition evp_context :: "evp \<Rightarrow> bool \<Rightarrow> u8 list \<Rightarrow> u8 list result" where
  "evp_context L dir key =
     (if \<not> evp_ctx_new L dir then Inl (Runtime_error ''cannot create openssl context'')
      else if \<not> evp_init L dir key then Inl (Runtime_error ''cannot init EVP engine'')
      else if \<not> evp_set_padding L dir then Inl (Runtime_error ''cannot setup padding'')
      else Inr key)"

definition aes_xts_libcrypto_make :: "evp \<Rightarrow> u8 list \<Rightarrow> aes_xts_libcrypto result" where
  "aes_xts_libcrypto_make L key =
     (if evp_iv_length L \<noteq> 16 then Inl (Runtime_error ''unexpected: invalid iv size'')
      else if length key \<noteq> evp_key_length L then Inl (Length_error ''invalid key size'')
      else rbind (evp_context L True key) (\<lambda>enc. rbind (evp_context L False key) (\<lambda>dec. Inr \<lparr>lc_enc = Some enc, lc_dec = Some dec\<rparr>)))"

text \<open>The common part of the two operations.\<close>

definition lc_block :: "evp \<Rightarrow> bool \<Rightarrow> u8 list option \<Rightarrow> cipher_fn" where
  "lc_block L dir ctx out dat lba =
     (case ctx of
        None \<Rightarrow> (False, out)
      | Some key \<Rightarrow>
          if length out < length dat \<or> xts_max_bytes < length dat then (False, out)
          else if \<not> evp_set_iv L dir (xts_tweak lba) then (False, out)
          else case evp_update L dir key (xts_tweak lba) dat out of
                 (ok, out') \<Rightarrow> if \<not> ok then (False, out') else if \<not> evp_final L dir then (False, out') else (True, out'))"

definition lc_block_encrypt :: "evp \<Rightarrow> aes_xts_libcrypto \<Rightarrow> cipher_fn" where
  "lc_block_encrypt L x = lc_block L True (lc_enc x)"

definition lc_block_decrypt :: "evp \<Rightarrow> aes_xts_libcrypto \<Rightarrow> cipher_fn" where
  "lc_block_decrypt L x = lc_block L False (lc_dec x)"

definition lc_engine :: "evp \<Rightarrow> aes_xts_libcrypto \<Rightarrow> tbc" where
  "lc_engine L x = \<lparr>tbc_encrypt = lc_block_encrypt L x, tbc_decrypt = lc_block_decrypt L x\<rparr>"

section \<open>What the functions rely on\<close>

text \<open>
  An engine for blocks of \<open>n\<close> bytes: \<open>C\<close> and \<open>D\<close> are the two permutations of blocks it computes, inverse to each other for
  every block number, and both operations succeed on an output span of the block's size.
\<close>

definition block_engine :: "tbc \<Rightarrow> nat \<Rightarrow> (u8 list \<Rightarrow> u64 \<Rightarrow> u8 list) \<Rightarrow> (u8 list \<Rightarrow> u64 \<Rightarrow> u8 list) \<Rightarrow> bool" where
  "block_engine e n C D \<longleftrightarrow>
     (\<forall>out x lba. length x = n \<longrightarrow> length out = n \<longrightarrow>
        tbc_encrypt e out x lba = (True, C x lba) \<and> tbc_decrypt e out x lba = (True, D x lba) \<and>
        length (C x lba) = n \<and> length (D x lba) = n \<and> D (C x lba) lba = x)"

text \<open>
  The documented behaviour of the IPP ciphers, for a key: on whole blocks they report no error, keep the size, and
  decryption with the same tweak undoes encryption. Bytes of the output span after the block are not touched.
\<close>

definition ipp_xts_ok :: "ippcp \<Rightarrow> u8 list \<Rightarrow> nat \<Rightarrow> (u8 list \<Rightarrow> u8 list \<Rightarrow> u8 list) \<Rightarrow> (u8 list \<Rightarrow> u8 list \<Rightarrow> u8 list) \<Rightarrow> bool" where
  "ipp_xts_ok L key n C D \<longleftrightarrow>
     (\<forall>x out tw. length x = n \<longrightarrow> n \<le> length out \<longrightarrow>
        ipp_encrypt L key x out (int n * 8) tw = (ippStsNoErr, C x tw @ drop n out) \<and>
        ipp_decrypt L key x out (int n * 8) tw = (ippStsNoErr, D x tw @ drop n out) \<and>
        length (C x tw) = n \<and> length (D x tw) = n \<and> D (C x tw) tw = x)"

lemma ipp_block_engine:
  assumes "aes_xts_ipp_make L key n = Inr x" "ipp_xts_ok L key n C D"
  shows "block_engine (ipp_engine L x) n (\<lambda>b lba. C b (xts_tweak lba)) (\<lambda>b lba. D b (xts_tweak lba))"
proof -
  have "x = \<lparr>ipp_bs = n, ipp_ctx = Some key\<rparr>"
    using assms(1) by (auto simp: aes_xts_ipp_make_def ctx_create_def rbind_Inr_iff split: if_splits)
  moreover have "ipp_encrypt L key b out (int n * 8) tw = (ippStsNoErr, C b tw @ drop n out) \<and>
      ipp_decrypt L key b out (int n * 8) tw = (ippStsNoErr, D b tw @ drop n out) \<and>
      length (C b tw) = n \<and> length (D b tw) = n \<and> D (C b tw) tw = b" if "length b = n" "length out = n" for b out tw
    using assms(2) [unfolded ipp_xts_ok_def, rule_format, of b out] that by simp
  ultimately show ?thesis
    by (simp add: block_engine_def ipp_engine_def ipp_block_encrypt_def ipp_block_decrypt_def)
qed

text \<open>Different block numbers give different tweaks.\<close>

lemma xts_tweak_inject: "xts_tweak a = xts_tweak b \<longleftrightarrow> a = b"
proof
  assume eq: "xts_tweak a = xts_tweak b"
  have byte: "(ucast (drop_bit (8 * i) a) :: u8) = ucast (drop_bit (8 * i) b)" if "i < 8" for i
  proof -
    have "xts_tweak a ! i = xts_tweak b ! i" by (simp only: eq)
    then show ?thesis using that by (simp add: xts_tweak_def nth_append)
  qed
  show "a = b"
  proof (rule bit_word_eqI)
    fix n :: nat
    assume n: "n < LENGTH(64)"
    have "bit (ucast (drop_bit (8 * (n div 8)) a) :: u8) (n mod 8) = bit (ucast (drop_bit (8 * (n div 8)) b) :: u8) (n mod 8)"
      using byte [of "n div 8"] n by simp
    then show "bit a n = bit b n" by (simp add: bit_simps)
  qed
qed simp

lemma block_engine_inplace:
  assumes "block_engine e n C D" "length x = n"
  shows "encrypt_inplace e x lba = (True, C x lba)" "decrypt_inplace e x lba = (True, D x lba)"
  using assms by (simp_all add: block_engine_def encrypt_inplace_def decrypt_inplace_def)

text \<open>
  C37. The IPP engine: the constructor refuses a data unit above one megabyte; an engine it returns refuses every block whose
  size is not the data unit it was made for, without touching the output, and deciphers what it enciphered for the same block
  number, given that the library's ciphers undo each other for the same key and tweak. Distinct block numbers use distinct tweaks.
\<close>

theorem ipp_engine_correct:
  assumes "ipp_xts_ok L key n C D"
  shows "(xts_max_bytes < n \<longrightarrow> aes_xts_ipp_make L key n = Inl (Out_of_range ''xts block size too large'')) \<and>
    (\<forall>x. aes_xts_ipp_make L key n = Inr x \<longrightarrow>
       (\<forall>out b lba. length b \<noteq> n \<longrightarrow> ipp_block_encrypt L x out b lba = (False, out) \<and> ipp_block_decrypt L x out b lba = (False, out)) \<and>
       (\<forall>b lba. length b = n \<longrightarrow>
          (\<exists>c. encrypt_inplace (ipp_engine L x) b lba = (True, c) \<and> length c = n \<and>
             decrypt_inplace (ipp_engine L x) c lba = (True, b)))) \<and>
    (\<forall>a b. xts_tweak a = xts_tweak b \<longrightarrow> a = b)"
proof (intro conjI allI impI)
  assume "xts_max_bytes < n"
  then show "aes_xts_ipp_make L key n = Inl (Out_of_range ''xts block size too large'')"
    by (simp add: aes_xts_ipp_make_def ctx_create_def)
next
  fix x and out b :: "u8 list" and lba
  assume "aes_xts_ipp_make L key n = Inr x" "length b \<noteq> n"
  then show "ipp_block_encrypt L x out b lba = (False, out)" "ipp_block_decrypt L x out b lba = (False, out)"
    by (auto simp: aes_xts_ipp_make_def rbind_Inr_iff ipp_block_encrypt_def ipp_block_decrypt_def)
next
  fix x and b :: "u8 list" and lba
  assume x: "aes_xts_ipp_make L key n = Inr x" and b: "length b = n"
  let ?c = "C b (xts_tweak lba)"
  have e: "block_engine (ipp_engine L x) n (\<lambda>b lba. C b (xts_tweak lba)) (\<lambda>b lba. D b (xts_tweak lba))"
    by (rule ipp_block_engine [OF x assms])
  have "length ?c = n" "D ?c (xts_tweak lba) = b" using e b by (auto simp: block_engine_def)
  then show "\<exists>c. encrypt_inplace (ipp_engine L x) b lba = (True, c) \<and> length c = n \<and>
      decrypt_inplace (ipp_engine L x) c lba = (True, b)"
    using block_engine_inplace [OF e] b by auto
next
  fix a b
  assume "xts_tweak a = xts_tweak b"
  then show "a = b" by (simp only: xts_tweak_inject)
qed

text \<open>A library that mixes key and tweak into the data, as a concrete instance.\<close>

definition sample_mix :: "u8 list \<Rightarrow> u8 list \<Rightarrow> u8 list \<Rightarrow> u8 list" where
  "sample_mix key x tw = map (\<lambda>b. b XOR fold (XOR) (key @ tw) 0) x"

definition sample_ipp :: ippcp where
  "sample_ipp = \<lparr>ipp_get_size = 0, ipp_calloc = True, ipp_init = (\<lambda>key kb db. if kb = 256 then 0 else -1),
     ipp_encrypt = (\<lambda>key x out bits tw. (0, sample_mix key x tw @ drop (length x) out)),
     ipp_decrypt = (\<lambda>key x out bits tw. (0, sample_mix key x tw @ drop (length x) out))\<rparr>"

lemma sample_mix_mix [simp]: "sample_mix key (sample_mix key x tw) tw = x"
proof -
  have "(b XOR k) XOR k = b" for b k :: u8 by (rule bit_word_eqI) (auto simp: bit_simps)
  then show ?thesis by (simp add: sample_mix_def comp_def)
qed

lemma sample_ipp_ok: "ipp_xts_ok sample_ipp key n (sample_mix key) (sample_mix key)"
  by (simp add: ipp_xts_ok_def sample_ipp_def ippStsNoErr_def) (simp add: sample_mix_def)

lemma sample_ipp_make:
  "length key = 32 \<Longrightarrow> n \<le> xts_max_bytes \<Longrightarrow> aes_xts_ipp_make sample_ipp key n = Inr \<lparr>ipp_bs = n, ipp_ctx = Some key\<rparr>"
  by (simp add: aes_xts_ipp_make_def ctx_create_def sample_ipp_def ippStsNoErr_def)

theorem ipp_engine_correct_witness:
  "(\<exists>c. encrypt_inplace (ipp_engine sample_ipp \<lparr>ipp_bs = 2, ipp_ctx = Some (replicate 32 7)\<rparr>) [1, 2] 5 = (True, c) \<and> length c = 2 \<and>
     decrypt_inplace (ipp_engine sample_ipp \<lparr>ipp_bs = 2, ipp_ctx = Some (replicate 32 7)\<rparr>) c 5 = (True, [1, 2])) \<and>
   aes_xts_ipp_make sample_ipp (replicate 32 7) (2 ^ 21) = Inl (Out_of_range ''xts block size too large'')"
proof -
  have "aes_xts_ipp_make sample_ipp (replicate 32 7) 2 = Inr \<lparr>ipp_bs = 2, ipp_ctx = Some (replicate 32 7)\<rparr>"
    by (rule sample_ipp_make) (simp_all add: xts_max_bytes_def)
  then show ?thesis
    using ipp_engine_correct [OF sample_ipp_ok [of "replicate 32 7" 2]] ipp_engine_correct [OF sample_ipp_ok [of "replicate 32 7" "2 ^ 21"]]
    by (simp add: xts_max_bytes_def)
qed

end
