(* ===== verification/Encryptor.thy ===== *)
theory Encryptor
  imports BlockWalk Cipher
begin

text \<open>
  The encrypting function with its own writes (\<open>nvme_encryptor.hpp\<close>, \<open>nvme_encryptor.cpp\<close>): a read that the device has
  completed is deciphered in place in guest memory, a write is enciphered into a buffer and written to the block device.
\<close>

section \<open>The controller\<close>

text \<open>The block device is its bytes. \<open>pwrite\<close> decides how much of a request it takes; what it takes is on the device.\<close>

record enc_env =
  ee_kernel :: nvme_kernel
  ee_engine :: tbc
  ee_pwrite :: "u64 \<Rightarrow> nat \<Rightarrow> int"

record enc_ctrl =
  en_nvme :: nvme
  en_vm :: mapping
  en_dev :: "nat \<Rightarrow> u8"
  en_zerobuf :: "u8 list"
  en_encbuf :: "u8 list"

type_synonym 'a eprog = "(enc_ctrl, 'a) prog"

definition nvme_encryptor_make :: "mapping \<Rightarrow> (nat \<Rightarrow> u8) \<Rightarrow> enc_ctrl" where
  "nvme_encryptor_make vm dev = \<lparr>en_nvme = nvme_init, en_vm = vm, en_dev = dev, en_zerobuf = [], en_encbuf = []\<rparr>"

definition on_en_nvme :: "(nvme, 'a) prog \<Rightarrow> 'a eprog" where
  "on_en_nvme = zoom en_nvme (\<lambda>t s. s\<lparr>en_nvme := t\<rparr>)"

definition on_en_vm :: "(mapping \<Rightarrow> 'a result) \<Rightarrow> 'a eprog" where
  "on_en_vm g = sbind (sget en_vm) (\<lambda>m. lift_result (g m))"

section \<open>Buffers and the block device\<close>

definition vec_resize :: "nat \<Rightarrow> u8 list \<Rightarrow> u8 list" where
  "vec_resize n v = take n v @ replicate (n - length v) 0"

definition subspan :: "u8 list \<Rightarrow> nat \<Rightarrow> nat \<Rightarrow> u8 list result" where
  "subspan v off n = (if off + n \<le> length v then Inr (take n (drop off v)) else Inl (Undefined ''subspan''))"

definition put_at :: "nat \<Rightarrow> u8 list \<Rightarrow> u8 list \<Rightarrow> u8 list" where
  "put_at off bs v = take off v @ bs @ drop (off + length bs) v"

definition dev_put :: "nat \<Rightarrow> u8 list \<Rightarrow> (nat \<Rightarrow> u8) \<Rightarrow> nat \<Rightarrow> u8" where
  "dev_put off bs d = (\<lambda>i. if off \<le> i \<and> i < off + length bs then bs ! (i - off) else d i)"

definition dev_bytes :: "(nat \<Rightarrow> u8) \<Rightarrow> nat \<Rightarrow> nat \<Rightarrow> u8 list" where
  "dev_bytes d off n = map (\<lambda>i. d (off + i)) [0..<n]"

text \<open>
  The loop that writes a buffer out, from the position that \<open>remaining\<close> gives. It ends when all is written, when the device
  takes nothing any more, or with an exception. Every other turn makes \<open>remaining\<close> smaller.
\<close>

datatype pw_end = Pw_done | Pw_eof

function pwrite_loop :: "(u64 \<Rightarrow> nat \<Rightarrow> int) \<Rightarrow> u64 \<Rightarrow> u8 list \<Rightarrow> nat \<Rightarrow> (nat \<Rightarrow> u8) \<Rightarrow> pw_end result \<times> (nat \<Rightarrow> u8)" where
  "pwrite_loop pw base buf remaining d =
     (if remaining = 0 then (Inr Pw_done, d)
      else let boff = length buf - remaining; ret = pw (base + of_nat boff) remaining
           in if ret < 0 \<or> int remaining < ret then (Inl (System_error ''cannot write to blkdev''), d)
              else if ret = 0 then (Inr Pw_eof, d)
              else pwrite_loop pw base buf (remaining - nat ret)
                     (dev_put (unat (base + of_nat boff)) (take (nat ret) (drop boff buf)) d))"
  by pat_completeness auto
termination by (relation "measure (\<lambda>(pw, base, buf, remaining, d). remaining)") auto

declare pwrite_loop.simps [simp del]

definition en_pwrite :: "enc_env \<Rightarrow> u64 \<Rightarrow> u8 list \<Rightarrow> pw_end eprog" where
  "en_pwrite E base buf = (\<lambda>s.
     case pwrite_loop (ee_pwrite E) base buf (length buf) (en_dev s) of (r, d) \<Rightarrow> (r, s\<lparr>en_dev := d\<rparr>))"

section \<open>Reads\<close>

text \<open>The loop over the blocks of a command. The result is false when the cipher has failed.\<close>

fun decrypt_blocks :: "tbc \<Rightarrow> nat \<Rightarrow> nvme_cmd_lba_iter \<Rightarrow> (mapping, bool) prog" where
  "decrypt_blocks e 0 it = (if lba_iter_at_end it then return True else raise (Undefined ''loop without progress''))"
| "decrypt_blocks e (Suc n) it =
     (if lba_iter_at_end it then return True
      else sbind (\<lambda>m. (lba_iter_deref m it, m)) (\<lambda>sp.
           sbind (sget (\<lambda>m. span_bytes m sp)) (\<lambda>bs.
             case decrypt_inplace e bs (iter_lba it) of
               (ok, out) \<Rightarrow>
                 sbind (smod (write_bytes (unat (fst sp)) out)) (\<lambda>_.
                   if \<not> ok then return False
                   else sbind (\<lambda>m. (lba_iter_incr m it, m)) (decrypt_blocks e n)))))"

definition receive_read :: "enc_env \<Rightarrow> nvme_command \<Rightarrow> u16 eprog" where
  "receive_read E cmd =
     sbind (on_en_nvme (lba_iter_init (ee_kernel E) cmd)) (\<lambda>lit.
     sbind (zoom en_vm (\<lambda>t s. s\<lparr>en_vm := t\<rparr>) (decrypt_blocks (ee_engine E) (lba_fuel lit) lit)) (\<lambda>ok.
     return (if \<not> ok then NVME_SC_DNR OR NVME_SC_INTERNAL else NVME_SC_SUCCESS)))"

section \<open>Writes\<close>

text \<open>The same loop, enciphering from memory \<open>m\<close> into a buffer.\<close>

fun encrypt_blocks :: "tbc \<Rightarrow> mapping \<Rightarrow> nat \<Rightarrow> nvme_cmd_lba_iter \<Rightarrow> (u8 list, bool) prog" where
  "encrypt_blocks e m 0 it = (if lba_iter_at_end it then return True else raise (Undefined ''loop without progress''))"
| "encrypt_blocks e m (Suc n) it =
     (if lba_iter_at_end it then return True
      else let off = unat (push_bit (li_lba_shift it) (command_lba_index it))
           in sbind (\<lambda>buf. (subspan buf off (unat (cmd_lba_size it)), buf)) (\<lambda>old.
              sbind (lift_result (lba_iter_deref m it)) (\<lambda>sp.
                case tbc_encrypt e old (span_bytes m sp) (iter_lba it) of
                  (ok, out) \<Rightarrow>
                    sbind (smod (put_at off out)) (\<lambda>_.
                      if \<not> ok then return False
                      else sbind (lift_result (lba_iter_incr m it)) (encrypt_blocks e m n)))))"

text \<open>A buffer of at least \<open>n\<close> bytes, and working on its first \<open>n\<close> bytes.\<close>

definition grow_encbuf :: "nat \<Rightarrow> unit eprog" where
  "grow_encbuf n = smod (\<lambda>s. if length (en_encbuf s) < n then s\<lparr>en_encbuf := vec_resize n (en_encbuf s)\<rparr> else s)"

definition on_encbuf :: "nat \<Rightarrow> (u8 list, 'a) prog \<Rightarrow> 'a eprog" where
  "on_encbuf n = zoom (\<lambda>s. take n (en_encbuf s)) (\<lambda>v s. s\<lparr>en_encbuf := put_at 0 v (en_encbuf s)\<rparr>)"

definition receive_write_copyback :: "enc_env \<Rightarrow> nvme_command \<Rightarrow> u16 eprog" where
  "receive_write_copyback E cmd =
     sbind (on_en_nvme (lba_iter_init (ee_kernel E) cmd)) (\<lambda>lit.
     let nbytes = unat (li_nbytes lit)
     in sbind (grow_encbuf nbytes) (\<lambda>_.
        sbind (sget en_vm) (\<lambda>m.
        sbind (on_encbuf nbytes (encrypt_blocks (ee_engine E) m (lba_fuel lit) lit)) (\<lambda>ok.
          if \<not> ok then return (NVME_SC_DNR OR NVME_SC_INTERNAL)
          else sbind (sget (\<lambda>s. take nbytes (en_encbuf s))) (\<lambda>encbuf.
               sbind (en_pwrite E (push_bit (li_lba_shift lit) (li_slba lit)) encbuf) (\<lambda>_.
               return NVME_SC_SUCCESS))))))"

section \<open>Writing zeroes\<close>

definition wz_nblocks :: nat where "wz_nblocks = 512"

fun zero_cipher_blocks :: "tbc \<Rightarrow> u8 list \<Rightarrow> nat \<Rightarrow> u64 \<Rightarrow> nat \<Rightarrow> nat \<Rightarrow> (u8 list, bool) prog" where
  "zero_cipher_blocks e zerobuf lbas base pli 0 = return True"
| "zero_cipher_blocks e zerobuf lbas base pli (Suc n) =
     sbind (\<lambda>buf. (subspan buf (pli * 2 ^ lbas) (2 ^ lbas), buf)) (\<lambda>old.
       case tbc_encrypt e old zerobuf (base + of_nat pli) of
         (ok, out) \<Rightarrow>
           sbind (smod (put_at (pli * 2 ^ lbas) out)) (\<lambda>_.
             if \<not> ok then return False else zero_cipher_blocks e zerobuf lbas base (pli + 1) n))"

text \<open>
  The loop over the command in batches of \<open>wz_nblocks\<close>. Every turn that does not return advances \<open>cli\<close> by at least one block, so the
  number of blocks is enough fuel.
\<close>

fun write_zeroes_loop :: "enc_env \<Rightarrow> nat \<Rightarrow> u64 \<Rightarrow> nat \<Rightarrow> nat \<Rightarrow> nat \<Rightarrow> u16 eprog" where
  "write_zeroes_loop E lbas slba nblocks cli 0 =
     (if cli < nblocks then raise (Undefined ''loop without progress'') else return NVME_SC_SUCCESS)"
| "write_zeroes_loop E lbas slba nblocks cli (Suc n) =
     (if \<not> cli < nblocks then return NVME_SC_SUCCESS
      else let pli = min (nblocks - cli) wz_nblocks
           in sbind (sget (\<lambda>s. take (2 ^ lbas) (en_zerobuf s))) (\<lambda>zerobuf.
              sbind (on_encbuf (wz_nblocks * 2 ^ lbas)
                  (zero_cipher_blocks (ee_engine E) zerobuf lbas (slba + of_nat cli) 0 pli)) (\<lambda>ok.
                if \<not> ok then return (NVME_SC_DNR OR NVME_SC_INTERNAL)
                else sbind (sget (\<lambda>s. take (pli * 2 ^ lbas) (en_encbuf s))) (\<lambda>buf.
                     sbind (en_pwrite E (push_bit lbas (slba + of_nat cli)) buf) (\<lambda>r.
                       if r = Pw_eof then return (NVME_SC_DNR OR NVME_SC_LBA_RANGE)
                       else write_zeroes_loop E lbas slba nblocks (cli + pli) n)))))"

text \<open>The span over the zero buffer has \<open>1 << lbas\<close> bytes, an \<open>int\<close>: with 31 or more the size does not fit the buffer.\<close>

definition receive_write_zeroes :: "enc_env \<Rightarrow> nvme_command \<Rightarrow> u16 eprog" where
  "receive_write_zeroes E cmd =
     sbind (on_en_nvme (ns_lba_shift (ee_kernel E) (nsid cmd))) (\<lambda>lbas.
       if 31 \<le> lbas then raise (Undefined ''shift'')
       else sbind (smod (\<lambda>s. if length (en_zerobuf s) < 2 ^ lbas then s\<lparr>en_zerobuf := vec_resize (2 ^ lbas) (en_zerobuf s)\<rparr> else s)) (\<lambda>_.
            sbind (grow_encbuf (wz_nblocks * 2 ^ lbas)) (\<lambda>_.
            write_zeroes_loop E lbas (rw_slba cmd) (unat (cmd_nblocks cmd)) 0 (unat (cmd_nblocks cmd)))))"

section \<open>Dispatch\<close>

text \<open>
  The two handlers of \<open>receive\<close>: an \<open>nvme_exception\<close> gives its code, any other exception an internal error. Undefined
  behaviour is not an exception.
\<close>

definition catch_std :: "('s, u16) prog \<Rightarrow> ('s, u16) prog" where
  "catch_std m = (\<lambda>s.
     case m s of
       (Inl (Nvme_exception c), s') \<Rightarrow> (Inr c, s')
     | (Inl (Undefined u), s') \<Rightarrow> (Inl (Undefined u), s')
     | (Inl e, s') \<Rightarrow> (Inr (NVME_SC_DNR OR NVME_SC_INTERNAL), s')
     | (Inr x, s') \<Rightarrow> (Inr x, s'))"

definition receive :: "enc_env \<Rightarrow> nvme_command \<Rightarrow> u16 eprog" where
  "receive E cmd =
     catch_std
       (if opcode cmd = nvme_cmd_read
        then if flags cmd AND NVME_CMD_SGL_ALL = 0 then receive_read E cmd else return (NVME_SC_DNR OR NVME_SC_INVALID_FIELD)
        else if opcode cmd = nvme_cmd_write
        then if flags cmd AND NVME_CMD_SGL_ALL = 0 then receive_write_copyback E cmd else return (NVME_SC_DNR OR NVME_SC_INVALID_FIELD)
        else if opcode cmd = nvme_cmd_write_zeroes then receive_write_zeroes E cmd
        else return (NVME_SC_DNR OR NVME_SC_INTERNAL))"

end
