(* ===== verification/EncryptorProps.thy ===== *)
theory EncryptorProps
  imports Encryptor
begin

text \<open>
  What the encrypting function does with data: block loops written out, the round trip through the device, and the answers
  in the error cases.
\<close>

section \<open>Writing a buffer out\<close>

lemma dev_put_Nil [simp]: "dev_put off [] d = d"
  by (auto simp: dev_put_def fun_eq_iff)

lemma dev_put_append: "dev_put (off + length xs) ys (dev_put off xs d) = dev_put off (xs @ ys) d"
  by (auto simp: dev_put_def fun_eq_iff nth_append)

lemma dev_bytes_put: "dev_bytes (dev_put off bs d) off (length bs) = bs"
  by (rule nth_equalityI) (simp_all add: dev_bytes_def dev_put_def)

lemma dev_bytes_put_part:
  "j + n \<le> length bs \<Longrightarrow> dev_bytes (dev_put off bs d) (off + j) n = take n (drop j bs)"
  by (rule nth_equalityI) (simp_all add: dev_bytes_def dev_put_def)

text \<open>On every outcome the device holds a prefix of the buffer: all of it exactly when the loop reports that it is done.\<close>

lemma pwrite_loop_spec:
  assumes "remaining \<le> length buf" "unat base + length buf \<le> 2 ^ 64"
  shows "\<exists>k \<le> remaining. snd (pwrite_loop pw base buf remaining d) =
      dev_put (unat base + (length buf - remaining)) (take k (drop (length buf - remaining) buf)) d \<and>
    (case fst (pwrite_loop pw base buf remaining d) of
       Inr Pw_done \<Rightarrow> k = remaining
     | Inr Pw_eof \<Rightarrow> k < remaining
     | Inl e \<Rightarrow> k < remaining \<and> e = System_error ''cannot write to blkdev'')"
  using assms
proof (induction pw base buf remaining d rule: pwrite_loop.induct)
  case (1 pw base buf remaining d)
  show ?case
  proof (cases "remaining = 0")
    case True
    then show ?thesis by (subst (1 2) pwrite_loop.simps) (auto intro: exI [of _ 0])
  next
    case False
    define boff where "boff = length buf - remaining"
    define ret where "ret = pw (base + of_nat boff) remaining"
    show ?thesis
    proof (cases "ret < 0 \<or> int remaining < ret \<or> ret = 0")
      case True
      then show ?thesis
        using False
        by (subst (1 2) pwrite_loop.simps) (auto simp: Let_def boff_def [symmetric] ret_def [symmetric] intro: exI [of _ 0])
    next
      case ok: False
      define j where "j = nat ret"
      have j: "0 < j" "j \<le> remaining" using ok by (auto simp: j_def)
      have bl: "boff < length buf" using False "1.prems"(1) by (simp add: boff_def)
      have uo: "unat (of_nat boff :: u64) = boff" using bl "1.prems"(2) by (simp add: unat_of_nat)
      have off: "unat (base + of_nat boff) = unat base + boff"
        using bl "1.prems"(2) by (subst unat_add_small) (simp_all only: uo, simp)
      define d' where "d' = dev_put (unat base + boff) (take j (drop boff buf)) d"
      have run: "pwrite_loop pw base buf remaining d = pwrite_loop pw base buf (remaining - j) d'"
        using ok False by (subst pwrite_loop.simps) (simp add: Let_def boff_def [symmetric] ret_def [symmetric] j_def d'_def off)
      have pos: "length buf - (remaining - j) = boff + j" using j "1.prems"(1) by (simp add: boff_def)
      obtain k where k: "k \<le> remaining - j"
        "snd (pwrite_loop pw base buf (remaining - j) d') = dev_put (unat base + (boff + j)) (take k (drop (boff + j) buf)) d'"
        "case fst (pwrite_loop pw base buf (remaining - j) d') of
           Inr Pw_done \<Rightarrow> k = remaining - j | Inr Pw_eof \<Rightarrow> k < remaining - j
         | Inl e \<Rightarrow> k < remaining - j \<and> e = System_error ''cannot write to blkdev''"
        using "1.IH" [OF False boff_def ret_def] ok "1.prems" le_trans [OF diff_le_self "1.prems"(1), of j] unfolding j_def [symmetric]
        by (auto simp: pos off d'_def simp del: of_nat_diff)
      have len: "length (take j (drop boff buf)) = j" using j "1.prems"(1) by (simp add: boff_def)
      have "dev_put (unat base + (boff + j)) (take k (drop (boff + j) buf)) d' =
          dev_put (unat base + boff) (take j (drop boff buf) @ take k (drop (boff + j) buf)) d"
        using dev_put_append [of "unat base + boff" "take j (drop boff buf)"] len unfolding d'_def by (simp add: add.assoc)
      also have "take j (drop boff buf) @ take k (drop (boff + j) buf) = take (j + k) (drop boff buf)"
        by (simp add: take_add drop_drop add.commute)
      finally show ?thesis
        using j k by (intro exI [of _ "j + k"]) (auto simp: run boff_def [symmetric] split: sum.splits pw_end.splits)
    qed
  qed
qed

text \<open>A device that always takes something takes everything.\<close>

definition pw_progress :: "(u64 \<Rightarrow> nat \<Rightarrow> int) \<Rightarrow> bool" where
  "pw_progress pw \<longleftrightarrow> (\<forall>off n. 0 < n \<longrightarrow> 0 < pw off n \<and> pw off n \<le> int n)"

lemma pwrite_loop_progress:
  "pw_progress pw \<Longrightarrow> fst (pwrite_loop pw base buf remaining d) = Inr Pw_done"
proof (induction pw base buf remaining d rule: pwrite_loop.induct)
  case (1 pw base buf remaining d)
  let ?ret = "pw (base + of_nat (length buf - remaining)) remaining"
  show ?case
  proof (cases "remaining = 0")
    case True
    then show ?thesis by (subst pwrite_loop.simps) simp
  next
    case False
    then have "0 < ?ret \<and> ?ret \<le> int remaining" using "1.prems" unfolding pw_progress_def by blast
    then show ?thesis
      using "1.IH" [OF False refl refl] "1.prems" False by (subst pwrite_loop.simps) (simp add: Let_def)
  qed
qed

lemma pwrite_loop_no_eof:
  "\<forall>off n. 0 < n \<longrightarrow> pw off n \<noteq> 0 \<Longrightarrow> fst (pwrite_loop pw base buf remaining d) \<noteq> Inr Pw_eof"
proof (induction pw base buf remaining d rule: pwrite_loop.induct)
  case (1 pw base buf remaining d)
  show ?case
  proof (cases "remaining = 0")
    case False
    then have "pw (base + of_nat (length buf - remaining)) remaining \<noteq> 0" using "1.prems" by blast
    then show ?thesis
      using "1.IH" [OF False refl refl] "1.prems" False by (subst pwrite_loop.simps) (simp add: Let_def)
  qed (simp add: pwrite_loop.simps)
qed

lemma pwrite_all:
  assumes "pw_progress pw" "unat base + length buf \<le> 2 ^ 64"
  shows "pwrite_loop pw base buf (length buf) d = (Inr Pw_done, dev_put (unat base) buf d)"
proof -
  let ?r = "pwrite_loop pw base buf (length buf) d"
  have f: "fst ?r = Inr Pw_done" by (rule pwrite_loop_progress [OF assms(1)])
  moreover have "snd ?r = dev_put (unat base) buf d"
    using pwrite_loop_spec [of "length buf" buf base pw d] assms(2) f by auto
  ultimately show ?thesis by (cases ?r) simp
qed

lemma en_pwrite_all:
  assumes "pw_progress (ee_pwrite E)" "unat base + length buf \<le> 2 ^ 64"
  shows "en_pwrite E base buf s = (Inr Pw_done, s\<lparr>en_dev := dev_put (unat base) buf (en_dev s)\<rparr>)"
  by (simp add: en_pwrite_def pwrite_all [OF assms])

section \<open>Enciphering the blocks of a command\<close>

lemma put_at_length [simp]: "off + length bs \<le> length v \<Longrightarrow> length (put_at off bs v) = length v"
  by (simp add: put_at_def)

lemma put_at_take: "off + length bs \<le> length v \<Longrightarrow> take (off + length bs) (put_at off bs v) = take off v @ bs"
  by (simp add: put_at_def)

lemma put_at_drop: "off + length bs \<le> length v \<Longrightarrow> off + length bs \<le> j \<Longrightarrow> drop j (put_at off bs v) = drop j v"
  by (simp add: put_at_def)

text \<open>What a block becomes on the device.\<close>

definition cipher_of :: "(u8 list \<Rightarrow> u64 \<Rightarrow> u8 list) \<Rightarrow> mapping \<Rightarrow> (u64 \<times> u64 \<times> u64) list \<Rightarrow> u8 list" where
  "cipher_of C m bs = concat (map (\<lambda>(l, sp). C (span_bytes m sp) l) bs)"

lemma block_engineD:
  assumes "block_engine e n C D" "length x = n"
  shows "length (C x l) = n" "length (D x l) = n" "D (C x l) l = x" "length out = n \<Longrightarrow> tbc_encrypt e out x l = (True, C x l)"
    "decrypt_inplace e x l = (True, D x l)"
  using assms(1) [unfolded block_engine_def, rule_format, OF assms(2,2), of l]
    assms(1) [unfolded block_engine_def, rule_format, OF assms(2), of out l] block_engine_inplace(2) [OF assms, of l]
  by simp_all

lemma encrypt_blocks_walk:
  assumes eng: "block_engine e (2 ^ s) C D" and s: "s < 31"
  shows "lba_walk n m it = Some (Inr bs) \<Longrightarrow> li_lba_shift it = s \<Longrightarrow>
    (unat (command_lba_index it) + length bs) * 2 ^ s \<le> length buf \<Longrightarrow> length buf < 2 ^ 64 \<Longrightarrow>
    encrypt_blocks e m n it buf = (Inr True, take (unat (command_lba_index it) * 2 ^ s) buf @ cipher_of C m bs @
      drop ((unat (command_lba_index it) + length bs) * 2 ^ s) buf)"
proof (induction n arbitrary: it bs buf)
  case 0
  then show ?case by (auto simp: cipher_of_def dest!: lba_walk_0)
next
  case (Suc n)
  show ?case
  proof (cases "lba_iter_at_end it")
    case True
    then show ?thesis using lba_walk_end [OF True Suc.prems(1)] by (simp add: cipher_of_def)
  next
    case False
    with Suc.prems(1) obtain sp it' bs' where st: "lba_iter_deref m it = Inr sp" "lba_iter_incr m it = Inr it'"
      "bs = (iter_lba it, sp) # bs'" "lba_walk n m it' = Some (Inr bs')"
      by (rule lba_walk_step)
    define i where "i = unat (command_lba_index it)"
    let ?x = "span_bytes m sp" and ?off = "i * 2 ^ s"
    have x: "length ?x = 2 ^ s" using lba_iter_deref_span(1) [OF st(1)] Suc.prems(2) s by simp
    note C = block_engineD [OF eng x]
    have room: "?off + 2 ^ s \<le> length buf" "(i + 1 + length bs') * 2 ^ s \<le> length buf"
      using Suc.prems(3) by (auto simp: i_def [symmetric] st(3) algebra_simps)
    have off: "unat (push_bit s (command_lba_index it)) = ?off"
      using room(1) Suc.prems(4) by (subst unat_push_bit_small) (simp_all add: i_def [symmetric])
    have sz: "unat (cmd_lba_size it) = 2 ^ s" using Suc.prems(2) s by (simp add: cmd_lba_size_def)
    have "i + 1 \<le> (i + 1) * 2 ^ s" using mult_le_mono2 [of 1 "2 ^ s" "i + 1"] by simp
    also have "\<dots> < 2 ^ 64" using room(1) Suc.prems(4) by (simp add: algebra_simps)
    finally have i1: "unat (command_lba_index it') = i + 1" "li_lba_shift it' = s"
      using iter_lba_incr [OF st(2)] Suc.prems(2) by (simp_all add: i_def unat_add_small)
    let ?out = "C ?x (iter_lba it)"
    let ?buf = "put_at ?off ?out buf"
    have len: "length ?out = 2 ^ s" by (rule C(1))
    have "encrypt_blocks e m n it' ?buf = (Inr True, take ((i + 1) * 2 ^ s) ?buf @ cipher_of C m bs' @
        drop ((i + 1 + length bs') * 2 ^ s) ?buf)"
      using Suc.IH [OF st(4) i1(2), of ?buf] i1(1) room Suc.prems(4) len by simp
    moreover have "take ((i + 1) * 2 ^ s) ?buf = take ?off buf @ ?out"
      using put_at_take [of ?off ?out buf] room(1) len by (simp add: algebra_simps)
    moreover have "drop ((i + 1 + length bs') * 2 ^ s) ?buf = drop ((i + 1 + length bs') * 2 ^ s) buf"
      using put_at_drop [of ?off ?out buf] room(1) len by (simp add: algebra_simps)
    moreover have "tbc_encrypt e (take (2 ^ s) (drop ?off buf)) ?x (iter_lba it) = (True, ?out)"
      by (rule C(4)) (use room(1) in simp)
    ultimately show ?thesis
      using False st(1,2) room(1)
      by (simp add: Let_def off sz Suc.prems(2) i_def [symmetric] subspan_def prog_simps st(3) cipher_of_def min_def)
  qed
qed


section \<open>Deciphering the blocks of a command\<close>

definition dec_mem :: "(u8 list \<Rightarrow> u64 \<Rightarrow> u8 list) \<Rightarrow> (u64 \<times> u64 \<times> u64) list \<Rightarrow> mapping \<Rightarrow> mapping" where
  "dec_mem D bs m = foldl (\<lambda>m (l, sp). write_bytes (unat (fst sp)) (D (span_bytes m sp) l) m) m bs"

definition span_set :: "u64 \<times> u64 \<Rightarrow> nat set" where
  "span_set sp = {unat (fst sp) ..< unat (fst sp) + unat (snd sp)}"

fun spans_disjoint :: "(u64 \<times> u64) list \<Rightarrow> bool" where
  "spans_disjoint [] = True"
| "spans_disjoint (sp # sps) \<longleftrightarrow>
     (\<forall>t \<in> set sps. unat (fst sp) + unat (snd sp) \<le> unat (fst t) \<or> unat (fst t) + unat (snd t) \<le> unat (fst sp)) \<and> spans_disjoint sps"

lemma agree_on_write:
  assumes "agree_on A m m'" "length bs = unat (snd sp)" "span_set sp \<inter> A = {}"
  shows "agree_on A m (write_bytes (unat (fst sp)) bs m')"
proof -
  have "\<not> (unat (fst sp) \<le> i \<and> i < unat (fst sp) + unat (snd sp))" if "i \<in> A" for i
    using assms(3) that by (auto simp: span_set_def)
  then show ?thesis using assms(1,2) by (auto simp: agree_on_def write_bytes_def)
qed

lemma decrypt_blocks_walk:
  assumes eng: "block_engine e (2 ^ s) C D" and s: "s < 31"
  shows "lba_walk n m it = Some (Inr bs) \<Longrightarrow> li_lba_shift it = s \<Longrightarrow> agree_on (lba_reads n m it) m m' \<Longrightarrow>
    (\<forall>(l, sp) \<in> set bs. span_set sp \<inter> lba_reads n m it = {}) \<Longrightarrow>
    decrypt_blocks e n it m' = (Inr True, dec_mem D bs m')"
proof (induction n arbitrary: it bs m')
  case 0
  then show ?case by (auto simp: dec_mem_def dest!: lba_walk_0)
next
  case (Suc n)
  show ?case
  proof (cases "lba_iter_at_end it")
    case True
    then show ?thesis using lba_walk_end [OF True Suc.prems(1)] by (simp add: dec_mem_def)
  next
    case False
    with Suc.prems(1) obtain sp it' bs' where st: "lba_iter_deref m it = Inr sp" "lba_iter_incr m it = Inr it'"
      "bs = (iter_lba it, sp) # bs'" "lba_walk n m it' = Some (Inr bs')"
      by (rule lba_walk_step)
    let ?p = "li_prp_iter it"
    let ?R = "entry_bytes (prpl ?p) (prpi ?p) \<union> entry_bytes (prpl ?p) (prpi ?p + 1)"
    have reads: "lba_reads (Suc n) m it = ?R \<union> lba_reads n m it'" using False st(2) by (simp add: Let_def)
    let ?x = "span_bytes m' sp"
    have x: "length ?x = 2 ^ s" using lba_iter_deref_span(1) [OF st(1)] Suc.prems(2) s by simp
    note D = block_engineD [OF eng x]
    let ?m = "write_bytes (unat (fst sp)) (D ?x (iter_lba it)) m'"
    have ag: "agree_on (lba_reads (Suc n) m it) m ?m"
      by (rule agree_on_write [OF Suc.prems(3)]) (use Suc.prems(4) st(3) D(2) x in auto)
    have "agree_on ?R m m'" "agree_on ?R m ?m" using Suc.prems(3) ag unfolding reads by (auto elim: agree_on_subset)
    then have "lba_iter_deref m' it = Inr sp" "lba_iter_incr ?m it = Inr it'"
      using lba_step_agree [OF _ refl, of it m m'] lba_step_agree [OF _ refl, of it m ?m] st(1,2) by simp_all
    moreover have "decrypt_blocks e n it' ?m = (Inr True, dec_mem D bs' ?m)"
    proof (rule Suc.IH [OF st(4)])
      show "li_lba_shift it' = s" using iter_lba_incr [OF st(2)] Suc.prems(2) by simp
      show "agree_on (lba_reads n m it') m ?m" using ag unfolding reads by (rule agree_on_subset) simp
      show "\<forall>(l, sp) \<in> set bs'. span_set sp \<inter> lba_reads n m it' = {}"
        using Suc.prems(4) unfolding reads st(3) by auto
    qed
    ultimately show ?thesis
      using False D(5) by (simp add: prog_simps st(3) dec_mem_def)
  qed
qed

lemma dec_mem_other:
  assumes len: "\<And>x l. length x = n \<Longrightarrow> length (D x l) = n"
  shows "(\<forall>(l, t) \<in> set bs. unat (snd t) = n \<and> (unat (fst sp) + unat (snd sp) \<le> unat (fst t) \<or> unat (fst t) + n \<le> unat (fst sp))) \<Longrightarrow>
   span_bytes (dec_mem D bs m) sp = span_bytes m sp"
proof (induction bs arbitrary: m)
  case (Cons b bs)
  obtain l t where b: "b = (l, t)" by (cases b)
  let ?m = "write_bytes (unat (fst t)) (D (span_bytes m t) l) m"
  have "span_bytes (dec_mem D bs ?m) sp = span_bytes ?m sp"
    by (rule Cons.IH) (use Cons.prems in simp)
  moreover have "length (D (span_bytes m t) l) = n" by (rule len) (use Cons.prems b in simp)
  then have "span_bytes ?m sp = span_bytes m sp"
    by (intro span_bytes_write_other) (use Cons.prems b in simp)
  ultimately show ?case by (simp add: dec_mem_def b)
qed (simp add: dec_mem_def)

lemma dec_mem_span:
  assumes len: "\<And>x l. length x = n \<Longrightarrow> length (D x l) = n"
  shows "spans_disjoint (map snd bs) \<Longrightarrow> (\<forall>(l, sp) \<in> set bs. unat (snd sp) = n) \<Longrightarrow> i < length bs \<Longrightarrow>
    span_bytes (dec_mem D bs m) (snd (bs ! i)) = D (span_bytes m (snd (bs ! i))) (fst (bs ! i))"
proof (induction bs arbitrary: i m)
  case (Cons b bs)
  obtain l t where b: "b = (l, t)" by (cases b)
  let ?m = "write_bytes (unat (fst t)) (D (span_bytes m t) l) m"
  have run: "dec_mem D (b # bs) m = dec_mem D bs ?m" by (simp add: dec_mem_def b)
  have lt: "length (D (span_bytes m t) l) = unat (snd t)" using len Cons.prems(2) by (simp add: b)
  show ?case
  proof (cases i)
    case 0
    have "span_bytes (dec_mem D bs ?m) t = span_bytes ?m t"
    proof (rule dec_mem_other [OF len])
      show "\<forall>(l, u) \<in> set bs. unat (snd u) = n \<and> (unat (fst t) + unat (snd t) \<le> unat (fst u) \<or> unat (fst u) + n \<le> unat (fst t))"
        using Cons.prems(1,2) by (fastforce simp: b)
    qed
    then show ?thesis using span_bytes_write_same [OF lt] using run by (simp add: 0 b)
  next
    case (Suc j)
    then have j: "j < length bs" using Cons.prems(3) by simp
    have "span_bytes (dec_mem D bs ?m) (snd (bs ! j)) = D (span_bytes ?m (snd (bs ! j))) (fst (bs ! j))"
      by (rule Cons.IH) (use Cons.prems j in auto)
    moreover have "span_bytes ?m (snd (bs ! j)) = span_bytes m (snd (bs ! j))"
    proof (rule span_bytes_write_other)
      have "snd (bs ! j) \<in> set (map snd bs)" using j by simp
      then show "unat (fst (snd (bs ! j))) + unat (snd (snd (bs ! j))) \<le> unat (fst t) \<or>
          unat (fst t) + length (D (span_bytes m t) l) \<le> unat (fst (snd (bs ! j)))"
        using Cons.prems(1) lt by (auto simp: b)
    qed
    ultimately show ?thesis by (simp add: run Suc)
  qed
qed simp


section \<open>Fuel\<close>

text \<open>More fuel than the blocks of a page for every byte changes nothing, whatever the ciphers write to guest memory.\<close>

lemma decrypt_blocks_fuel:
  "lba_ok it \<Longrightarrow> lba_left it \<le> n \<Longrightarrow> decrypt_blocks e (n + k) it m = decrypt_blocks e n it m"
proof (induction n arbitrary: it m)
  case 0
  then have "lba_iter_at_end it" using lba_left_pos [of it] by auto
  then show ?case by (cases k) simp_all
next
  case (Suc n)
  show ?case
  proof (cases "lba_iter_at_end it")
    case False
    have "decrypt_blocks e (n + k) it' m' = decrypt_blocks e n it' m'" if "lba_iter_incr m1 it = Inr it'" for it' m' m1
      using lba_incr_left [OF that Suc.prems(1) False] Suc.prems(2) by (intro Suc.IH) auto
    then show ?thesis using False by (auto simp: prog_simps split: sum.splits prod.splits)
  qed simp
qed

lemma encrypt_blocks_fuel:
  "lba_ok it \<Longrightarrow> lba_left it \<le> n \<Longrightarrow> encrypt_blocks e m (n + k) it buf = encrypt_blocks e m n it buf"
proof (induction n arbitrary: it buf)
  case 0
  then have "lba_iter_at_end it" using lba_left_pos [of it] by auto
  then show ?case by (cases k) simp_all
next
  case (Suc n)
  show ?case
  proof (cases "lba_iter_at_end it")
    case False
    have "encrypt_blocks e m (n + k) it' buf' = encrypt_blocks e m n it' buf'" if "lba_iter_incr m it = Inr it'" for it' buf'
      using lba_incr_left [OF that Suc.prems(1) False] Suc.prems(2) by (intro Suc.IH) auto
    then show ?thesis using False by (auto simp: prog_simps Let_def split: sum.splits prod.splits)
  qed simp
qed


section \<open>Commands\<close>

lemma length_concat_same: "\<forall>x \<in> set xss. length x = n \<Longrightarrow> length (concat xss) = length xss * n"
  by (induction xss) simp_all

lemma concat_nth_block:
  "\<forall>x \<in> set xss. length x = n \<Longrightarrow> i < length xss \<Longrightarrow> take n (drop (i * n) (concat xss)) = xss ! i"
proof (induction xss arbitrary: i)
  case (Cons x xss)
  then show ?case by (cases i) auto
qed simp

lemma cipher_of_blocks:
  assumes "block_engine e n C D" "\<forall>(l, sp) \<in> set bs. unat (snd sp) = n"
  shows "length (cipher_of C m bs) = length bs * n"
    "i < length bs \<Longrightarrow> take n (drop (i * n) (cipher_of C m bs)) = C (span_bytes m (snd (bs ! i))) (fst (bs ! i))"
proof -
  let ?xs = "map (\<lambda>(l, sp). C (span_bytes m sp) l) bs"
  have all: "\<forall>x \<in> set ?xs. length x = n"
    using assms(2) block_engineD(1) [OF assms(1)] by auto
  show "length (cipher_of C m bs) = length bs * n" using length_concat_same [OF all] by (simp add: cipher_of_def)
  show "take n (drop (i * n) (cipher_of C m bs)) = C (span_bytes m (snd (bs ! i))) (fst (bs ! i))" if "i < length bs"
    using concat_nth_block [OF all, of i] that by (simp add: cipher_of_def case_prod_beta)
qed

text \<open>A write whose loop succeeds leaves the enciphered blocks on the device, one after the other.\<close>

lemma write_copyback_run:
  assumes vis: "visits (ee_kernel E) (en_nvme s) (en_vm s) cmd it bs" and ca: "nvme_caches (ee_kernel E) (en_nvme s)"
    and eng: "block_engine (ee_engine E) (2 ^ sh) C D" and sh: "li_lba_shift it = sh" "sh < 31"
  shows "\<exists>nv buf. nvme_caches (ee_kernel E) nv \<and> receive_write_copyback E cmd s =
    sbind (en_pwrite E (push_bit sh (rw_slba cmd)) (cipher_of C (en_vm s) bs)) (\<lambda>_. return NVME_SC_SUCCESS)
      (s\<lparr>en_nvme := nv, en_encbuf := buf\<rparr>)"
proof -
  let ?m = "en_vm s" and ?n = "unat (li_nbytes it)"
  obtain nv where r: "lba_iter_init (ee_kernel E) cmd (en_nvme s) = (Inr it, nv)" "nvme_caches (ee_kernel E) nv"
  proof -
    obtain nv where nv: "lba_iter_init (ee_kernel E) cmd (en_nvme s) = (Inr it, nv)"
      using vis by (metis visits_def prod.collapse)
    moreover have "nvme_caches (ee_kernel E) nv" using nv ca by (rule lba_iter_init_Inr)
    ultimately show ?thesis using that by blast
  qed
  note v = visits_facts [OF vis ca]
  have walk: "lba_walk (lba_fuel it) ?m it = Some (Inr bs)" and n: "?n = length bs * 2 ^ sh"
    using vis sh by (simp_all add: visits_def)
  have spans: "\<forall>(l, sp) \<in> set bs. unat (snd sp) = 2 ^ sh" using lba_walk_spans [OF walk] sh by auto
  note c = cipher_of_blocks(1) [OF eng spans, of ?m]
  define buf0 where "buf0 = (if length (en_encbuf s) < ?n then vec_resize ?n (en_encbuf s) else en_encbuf s)"
  have len: "?n \<le> length buf0" by (simp add: buf0_def vec_resize_def)
  have enc: "encrypt_blocks (ee_engine E) ?m (lba_fuel it) it (take ?n buf0) = (Inr True, cipher_of C ?m bs)"
    using encrypt_blocks_walk [OF eng sh(2) walk sh(1), of "take ?n buf0"] len n v(1) unat_bound [of "li_nbytes it"]
    by (simp add: min_def)
  have take: "take ?n (put_at 0 (cipher_of C ?m bs) buf0) = cipher_of C ?m bs" using c n by (simp add: put_at_def)
  have "receive_write_copyback E cmd s =
    sbind (en_pwrite E (push_bit sh (rw_slba cmd)) (cipher_of C ?m bs)) (\<lambda>_. return NVME_SC_SUCCESS)
      (s\<lparr>en_nvme := nv, en_encbuf := put_at 0 (cipher_of C ?m bs) buf0\<rparr>)"
    using enc take sh v(2)
    by (auto simp: receive_write_copyback_def on_en_nvme_def grow_encbuf_def on_encbuf_def zoom_apply sbind_apply r(1) Let_def buf0_def
        split: if_splits)
  then show ?thesis using r(2) by blast
qed

lemma read_run:
  assumes vis: "visits (ee_kernel E) nv0 (en_vm s) cmd it bs" and ca: "nvme_caches (ee_kernel E) nv0" "nvme_caches (ee_kernel E) (en_nvme s)"
    and eng: "block_engine (ee_engine E) (2 ^ sh) C D" and sh: "li_lba_shift it = sh" "sh < 31"
    and dis: "\<forall>(l, sp) \<in> set bs. span_set sp \<inter> lba_reads (lba_fuel it) (en_vm s) it = {}"
  shows "\<exists>s'. receive_read E cmd s = (Inr NVME_SC_SUCCESS, s') \<and> en_vm s' = dec_mem D bs (en_vm s) \<and> en_dev s' = en_dev s"
proof -
  obtain nv1 where "lba_iter_init (ee_kernel E) cmd nv0 = (Inr it, nv1)" using vis by (metis visits_def prod.collapse)
  then obtain nv where nv: "lba_iter_init (ee_kernel E) cmd (en_nvme s) = (Inr it, nv)"
    using lba_iter_init_indep [OF ca] by blast
  have walk: "lba_walk (lba_fuel it) (en_vm s) it = Some (Inr bs)" using vis by (simp add: visits_def)
  have "decrypt_blocks (ee_engine E) (lba_fuel it) it (en_vm s) = (Inr True, dec_mem D bs (en_vm s))"
    by (rule decrypt_blocks_walk [OF eng sh(2) walk sh(1) _ dis]) (simp add: agree_on_def)
  then show ?thesis by (simp add: receive_read_def on_en_nvme_def prog_simps nv)
qed


section \<open>Properties\<close>

lemma read_cmd_codes [simp]: "nvme_cmd_write \<noteq> nvme_cmd_read" "nvme_cmd_write_zeroes \<noteq> nvme_cmd_read"
  "nvme_cmd_write_zeroes \<noteq> nvme_cmd_write"
  by (simp_all add: nvme_opcode_defs)

lemma catch_std_Inr: "m s = (Inr x, s') \<Longrightarrow> catch_std m s = (Inr x, s')"
  by (simp add: catch_std_def)

lemma unat_base:
  fixes slba :: u64
  assumes "(unat slba + n) * 2 ^ sh \<le> 2 ^ 64" "0 < n"
  shows "unat (push_bit sh slba) = unat slba * 2 ^ sh"
proof (rule unat_push_bit_small)
  have "unat slba * 2 ^ sh < (unat slba + n) * 2 ^ sh" using assms(2) by (intro mult_strict_right_mono) simp_all
  from less_le_trans [OF this assms(1)] show "unat slba * 2 ^ sh < 2 ^ LENGTH(64)" by simp
qed

lemma catch_std_total: "case catch_std m s of (Inl e, s') \<Rightarrow> (\<exists>u. e = Undefined u) | (Inr st, s') \<Rightarrow> True"
proof (cases "m s")
  case (Pair r s')
  then show ?thesis
  proof (cases r)
    case (Inl e)
    then show ?thesis using Pair by (cases e) (simp_all add: catch_std_def)
  qed (simp add: catch_std_def)
qed

text \<open>The device has put a command's blocks into the buffer.\<close>

definition device_filled :: "(nat \<Rightarrow> u8) \<Rightarrow> nat \<Rightarrow> nvme_command \<Rightarrow> (u64 \<times> u64 \<times> u64) list \<Rightarrow> mapping \<Rightarrow> bool" where
  "device_filled d sh cmd bs m \<longleftrightarrow>
     (\<forall>i < length bs. span_bytes m (snd (bs ! i)) = dev_bytes d ((unat (rw_slba cmd) + i) * 2 ^ sh) (2 ^ sh))"

text \<open>A block of what such a write left on the device.\<close>

lemma stored_block:
  assumes "block_engine e (2 ^ sh) C D" "\<forall>(l, sp) \<in> set bs. unat (snd sp) = 2 ^ sh" "i < length bs"
  shows "dev_bytes (dev_put (a * 2 ^ sh) (cipher_of C m bs) d) ((a + i) * 2 ^ sh) (2 ^ sh) = C (span_bytes m (snd (bs ! i))) (fst (bs ! i))"
proof -
  note c = cipher_of_blocks [OF assms(1,2), where m = m]
  have "i * 2 ^ sh + 2 ^ sh \<le> length (cipher_of C m bs)"
    using c(1) mult_le_mono1 [of "i + 1" "length bs" "2 ^ sh"] assms(3) by simp
  then show ?thesis using dev_bytes_put_part c(2) [OF assms(3)] by (simp add: add_mult_distrib)
qed

lemma receive_write_stores:
  assumes eng: "block_engine (ee_engine E) (2 ^ sh) C D" and pw: "pw_progress (ee_pwrite E)"
    and ca: "nvme_caches (ee_kernel E) (en_nvme s)"
    and w: "opcode w = nvme_cmd_write" "flags w AND NVME_CMD_SGL_ALL = 0"
    and vis: "visits (ee_kernel E) (en_nvme s) (en_vm s) w itw bw" "li_lba_shift itw = sh" "sh < 31"
    and fits: "(unat (rw_slba w) + unat (rw_length w) + 1) * 2 ^ sh \<le> 2 ^ 64"
  shows "\<exists>s'. receive E w s = (Inr NVME_SC_SUCCESS, s') \<and> en_vm s' = en_vm s \<and> nvme_caches (ee_kernel E) (en_nvme s') \<and>
    en_dev s' = dev_put (unat (rw_slba w) * 2 ^ sh) (cipher_of C (en_vm s) bw) (en_dev s)"
proof -
  let ?c = "cipher_of C (en_vm s) bw" and ?base = "push_bit sh (rw_slba w)"
  have walk: "lba_walk (lba_fuel itw) (en_vm s) itw = Some (Inr bw)" and lw: "length bw = unat (rw_length w) + 1"
    using vis(1) by (simp_all add: visits_def)
  have "\<forall>(l, sp) \<in> set bw. unat (snd sp) = 2 ^ sh" using lba_walk_spans [OF walk] vis(2,3) by auto
  note c = cipher_of_blocks(1) [OF eng this, where m = "en_vm s"]
  have base: "unat ?base = unat (rw_slba w) * 2 ^ sh" by (rule unat_base [OF fits [unfolded add.assoc]]) simp
  obtain nv buf where nv: "nvme_caches (ee_kernel E) nv"
    and run: "receive_write_copyback E w s = sbind (en_pwrite E ?base ?c) (\<lambda>_. return NVME_SC_SUCCESS) (s\<lparr>en_nvme := nv, en_encbuf := buf\<rparr>)"
    using write_copyback_run [OF vis(1) ca eng vis(2,3)] by blast
  let ?s' = "s\<lparr>en_nvme := nv, en_encbuf := buf, en_dev := dev_put (unat ?base) ?c (en_dev s)\<rparr>"
  have "unat ?base + length ?c \<le> 2 ^ 64" using fits base c lw by (simp add: algebra_simps)
  then have "receive_write_copyback E w s = (Inr NVME_SC_SUCCESS, ?s')"
    using run en_pwrite_all [OF pw] by (simp add: prog_simps)
  then have "receive E w s = (Inr NVME_SC_SUCCESS, ?s')"
    using w by (simp add: receive_def catch_std_Inr)
  then show ?thesis using nv base by (intro exI [of _ ?s']) simp
qed

lemma receive_read_blocks:
  assumes eng: "block_engine (ee_engine E) (2 ^ sh) C D" and sh: "sh < 31"
    and ca: "nvme_caches (ee_kernel E) nv" "nvme_caches (ee_kernel E) (en_nvme s)"
    and r: "opcode r = nvme_cmd_read" "flags r AND NVME_CMD_SGL_ALL = 0"
    and vis: "visits (ee_kernel E) nv m r it bs" "li_lba_shift it = sh"
    and dis: "spans_disjoint (map snd bs)" "\<forall>(l, sp) \<in> set bs. span_set sp \<inter> lba_reads (lba_fuel it) m it = {}"
    and x: "\<And>i. i < length bs \<Longrightarrow> length (x i) = 2 ^ sh"
      "\<And>i. i < length bs \<Longrightarrow> span_bytes m (snd (bs ! i)) = C (x i) (fst (bs ! i))"
  shows "\<exists>s''. receive E r (s\<lparr>en_vm := m\<rparr>) = (Inr NVME_SC_SUCCESS, s'') \<and> (\<forall>i < length bs. span_bytes (en_vm s'') (snd (bs ! i)) = x i)"
proof -
  have walk: "lba_walk (lba_fuel it) m it = Some (Inr bs)" using vis by (simp add: visits_def)
  have spans: "\<forall>(l, sp) \<in> set bs. unat (snd sp) = 2 ^ sh" using lba_walk_spans [OF walk] vis(2) sh by auto
  obtain s2 where rd: "receive_read E r (s\<lparr>en_vm := m\<rparr>) = (Inr NVME_SC_SUCCESS, s2)" "en_vm s2 = dec_mem D bs m"
    using read_run [of E nv "s\<lparr>en_vm := m\<rparr>" r it bs, OF _ ca(1) _ eng vis(2) sh] vis(1) ca(2) dis(2) by auto
  have "span_bytes (dec_mem D bs m) (snd (bs ! i)) = x i" if "i < length bs" for i
    using dec_mem_span [OF block_engineD(2) [OF eng] dis(1) spans that, where m = m] block_engineD(3) [OF eng x(1) [OF that]] x(2) [OF that]
    by simp
  moreover have "receive E r (s\<lparr>en_vm := m\<rparr>) = (Inr NVME_SC_SUCCESS, s2)" using rd(1) r by (simp add: receive_def catch_std_Inr)
  ultimately show ?thesis using rd(2) by auto
qed

text \<open>
  C3. Data written through the encrypting function comes back: a write whose buffer the block loop can visit succeeds, and
  leaves guest memory as it was; when later a read of the same blocks, into any buffer that overlaps neither itself nor the
  command's own page lists, has been filled by the device from what the write left there, the function answers it with
  success and every block of the read's buffer holds what the write's buffer held. The cipher engine has to undo its own
  encryption for equal block numbers, and the device has to accept something of every write.
\<close>

theorem encrypted_write_then_read:
  assumes eng: "block_engine (ee_engine E) (2 ^ sh) C D" and pw: "pw_progress (ee_pwrite E)"
    and ca: "nvme_caches (ee_kernel E) (en_nvme s)"
    and w: "opcode w = nvme_cmd_write" "flags w AND NVME_CMD_SGL_ALL = 0"
    and vis: "visits (ee_kernel E) (en_nvme s) (en_vm s) w itw bw" "li_lba_shift itw = sh" "sh < 31"
    and fits: "(unat (rw_slba w) + unat (rw_length w) + 1) * 2 ^ sh \<le> 2 ^ 64"
  shows "\<exists>s'. receive E w s = (Inr NVME_SC_SUCCESS, s') \<and> en_vm s' = en_vm s \<and>
    (\<forall>r m itr br. opcode r = nvme_cmd_read \<longrightarrow> flags r AND NVME_CMD_SGL_ALL = 0 \<longrightarrow>
       nsid r = nsid w \<longrightarrow> rw_slba r = rw_slba w \<longrightarrow> rw_length r = rw_length w \<longrightarrow>
       visits (ee_kernel E) (en_nvme s) m r itr br \<longrightarrow> spans_disjoint (map snd br) \<longrightarrow>
       (\<forall>(l, sp) \<in> set br. span_set sp \<inter> lba_reads (lba_fuel itr) m itr = {}) \<longrightarrow>
       device_filled (en_dev s') sh r br m \<longrightarrow>
       (\<exists>s''. receive E r (s'\<lparr>en_vm := m\<rparr>) = (Inr NVME_SC_SUCCESS, s'') \<and>
          (\<forall>i < length br. span_bytes (en_vm s'') (snd (br ! i)) = span_bytes (en_vm s) (snd (bw ! i)))))"
proof -
  have walk: "lba_walk (lba_fuel itw) (en_vm s) itw = Some (Inr bw)" and lw: "length bw = unat (rw_length w) + 1"
    using vis(1) by (simp_all add: visits_def)
  have spans: "\<forall>(l, sp) \<in> set bw. unat (snd sp) = 2 ^ sh" using lba_walk_spans [OF walk] vis(2,3) by auto
  obtain s' where s': "receive E w s = (Inr NVME_SC_SUCCESS, s')" "en_vm s' = en_vm s" "nvme_caches (ee_kernel E) (en_nvme s')"
    "en_dev s' = dev_put (unat (rw_slba w) * 2 ^ sh) (cipher_of C (en_vm s) bw) (en_dev s)"
    using receive_write_stores [OF eng pw ca w vis fits] by blast
  have "\<exists>s''. receive E r (s'\<lparr>en_vm := m\<rparr>) = (Inr NVME_SC_SUCCESS, s'') \<and>
          (\<forall>i < length br. span_bytes (en_vm s'') (snd (br ! i)) = span_bytes (en_vm s) (snd (bw ! i)))"
    if r: "opcode r = nvme_cmd_read" "flags r AND NVME_CMD_SGL_ALL = 0" "nsid r = nsid w" "rw_slba r = rw_slba w" "rw_length r = rw_length w"
      and vr: "visits (ee_kernel E) (en_nvme s) m r itr br" and dis: "spans_disjoint (map snd br)"
        "\<forall>(l, sp) \<in> set br. span_set sp \<inter> lba_reads (lba_fuel itr) m itr = {}"
      and filled: "device_filled (en_dev s') sh r br m" for r m itr br
  proof (rule receive_read_blocks [OF eng vis(3) ca s'(3) r(1,2) vr _ dis])
    show "li_lba_shift itr = sh" using visits_facts(6) [OF vr ca] visits_facts(6) [OF vis(1) ca] r(3) vis(2) by auto
    have lr: "length br = length bw" using vr lw r(5) by (simp add: visits_def)
    have num: "map fst br = map fst bw" using visits_facts(3) [OF vr ca] visits_facts(3) [OF vis(1) ca] lr r(4) by simp
    fix i assume i: "i < length br"
    show "length (span_bytes (en_vm s) (snd (bw ! i))) = 2 ^ sh" using spans i lr nth_mem [of i bw] by (auto simp: case_prod_beta)
    have "dev_bytes (en_dev s') ((unat (rw_slba r) + i) * 2 ^ sh) (2 ^ sh) = C (span_bytes (en_vm s) (snd (bw ! i))) (fst (bw ! i))"
      unfolding s'(4) using stored_block [OF eng spans, of i] i lr r(4) by simp
    moreover have "fst (br ! i) = fst (bw ! i)" using num i lr by (metis nth_map)
    ultimately show "span_bytes m (snd (br ! i)) = C (span_bytes (en_vm s) (snd (bw ! i))) (fst (br ! i))"
      using filled i by (simp add: device_filled_def)
  qed
  then show ?thesis using s'(1,2) by blast
qed

text \<open>The sample: blocks of 512 bytes, a device that takes everything.\<close>

definition sample_key :: "u8 list" where "sample_key = replicate 32 7"

definition sample_enc :: enc_env where
  "sample_enc = \<lparr>ee_kernel = sample_kernel, ee_engine = ipp_engine sample_ipp \<lparr>ipp_bs = 512, ipp_ctx = Some sample_key\<rparr>,
     ee_pwrite = (\<lambda>off n. int n)\<rparr>"

definition sample_ctrl :: enc_ctrl where
  "sample_ctrl = nvme_encryptor_make sample_mem (\<lambda>_. 0xff)"

definition sample_write :: nvme_command where "sample_write = (sample_rw 0x1000 0 1)\<lparr>opcode := nvme_cmd_write\<rparr>"

lemma sample_engine:
  "block_engine (ee_engine sample_enc) (2 ^ 9) (\<lambda>b l. sample_mix sample_key b (xts_tweak l)) (\<lambda>b l. sample_mix sample_key b (xts_tweak l))"
proof -
  have "aes_xts_ipp_make sample_ipp sample_key 512 = Inr \<lparr>ipp_bs = 512, ipp_ctx = Some sample_key\<rparr>"
    by (rule sample_ipp_make) (simp_all add: sample_key_def xts_max_bytes_def)
  from ipp_block_engine [OF this sample_ipp_ok] show ?thesis by (simp add: sample_enc_def)
qed

lemma sample_rw_fields [simp]: "rw_slba (sample_rw p q n) = 100" "rw_length (sample_rw p q 1) = 1" "nsid (sample_rw p q n) = 1"
  "opcode (sample_rw p q n) = nvme_cmd_read" "flags (sample_rw p q n) = 0"
  by (simp_all add: sample_rw_def rw_slba_def rw_length_def)

lemma sample_cmd: "rw_slba sample_write = 100" "rw_length sample_write = 1" "nsid sample_write = 1" "opcode sample_write = nvme_cmd_write"
  "flags sample_write AND NVME_CMD_SGL_ALL = 0"
  by (simp_all add: sample_write_def sample_rw_def rw_slba_def rw_length_def)

lemma sample_write_visits:
  "visits (ee_kernel sample_enc) (en_nvme sample_ctrl) (en_vm sample_ctrl) sample_write (sample_iter 0x1000) [(100, 0x1000, 0x200), (101, 0x1200, 0x200)]"
  using sample_visits(1) [of sample_mem "0x1000" sample_write]
  by (simp add: sample_enc_def sample_ctrl_def nvme_encryptor_make_def sample_write_def sample_mem_size)

lemma sample_env: "pw_progress (ee_pwrite sample_enc)" "nvme_caches (ee_kernel sample_enc) (en_nvme sample_ctrl)" "li_lba_shift (sample_iter p) = 9"
  by (simp_all add: pw_progress_def sample_enc_def sample_ctrl_def nvme_encryptor_make_def sample_iter_def)

lemma span_bytes_write_part:
  "unat (fst sp) = off + j \<Longrightarrow> j + unat (snd sp) \<le> length bs \<Longrightarrow>
   span_bytes (write_bytes off bs m) sp = take (unat (snd sp)) (drop j bs)"
  by (rule nth_equalityI) (simp_all add: span_bytes_def write_bytes_def)

lemma dev_bytes_part: "j + n \<le> k \<Longrightarrow> take n (drop j (dev_bytes d off k)) = dev_bytes d (off + j) n"
  by (rule nth_equalityI) (simp_all add: dev_bytes_def add.assoc)

theorem encrypted_write_then_read_witness:
  "\<exists>s' m s''. receive sample_enc sample_write sample_ctrl = (Inr NVME_SC_SUCCESS, s') \<and>
     receive sample_enc (sample_rw 0x3000 0 1) (s'\<lparr>en_vm := m\<rparr>) = (Inr NVME_SC_SUCCESS, s'') \<and>
     span_bytes (en_vm s'') (0x3000, 0x200) = span_bytes sample_mem (0x1000, 0x200)"
proof -
  let ?r = "sample_rw 0x3000 0 1" and ?bs = "[(100, 0x3000, 0x200), (101, 0x3200, 0x200)] :: (u64 \<times> u64 \<times> u64) list"
  have r: "opcode ?r = nvme_cmd_read" "flags ?r AND NVME_CMD_SGL_ALL = 0" "nsid ?r = nsid sample_write" "rw_slba ?r = rw_slba sample_write"
    "rw_length ?r = rw_length sample_write"
    by (simp_all add: sample_cmd)
  have "(unat (rw_slba sample_write) + unat (rw_length sample_write) + 1) * 2 ^ 9 \<le> 2 ^ 64" by (simp add: sample_cmd)
  moreover have "(9 :: nat) < 31" by simp
  ultimately have "\<exists>s'. receive sample_enc sample_write sample_ctrl = (Inr NVME_SC_SUCCESS, s') \<and>
      (\<forall>m. visits (ee_kernel sample_enc) (en_nvme sample_ctrl) m ?r (sample_iter 0x3000) ?bs \<longrightarrow> spans_disjoint (map snd ?bs) \<longrightarrow>
       (\<forall>(l, sp) \<in> set ?bs. span_set sp \<inter> lba_reads (lba_fuel (sample_iter 0x3000)) m (sample_iter 0x3000) = {}) \<longrightarrow>
       device_filled (en_dev s') 9 ?r ?bs m \<longrightarrow>
       (\<exists>s''. receive sample_enc ?r (s'\<lparr>en_vm := m\<rparr>) = (Inr NVME_SC_SUCCESS, s'') \<and>
          (\<forall>i < length ?bs. span_bytes (en_vm s'') (snd (?bs ! i)) =
             span_bytes (en_vm sample_ctrl) (snd (([(100, 0x1000, 0x200), (101, 0x1200, 0x200)] :: (u64 \<times> u64 \<times> u64) list) ! i)))))"
    using encrypted_write_then_read [OF sample_engine sample_env(1,2) sample_cmd(4,5) sample_write_visits sample_env(3)] r by blast
  then obtain s' where s': "receive sample_enc sample_write sample_ctrl = (Inr NVME_SC_SUCCESS, s')" and
    rd: "\<And>m. visits (ee_kernel sample_enc) (en_nvme sample_ctrl) m ?r (sample_iter 0x3000) ?bs \<Longrightarrow> spans_disjoint (map snd ?bs) \<Longrightarrow>
       (\<forall>(l, sp) \<in> set ?bs. span_set sp \<inter> lba_reads (lba_fuel (sample_iter 0x3000)) m (sample_iter 0x3000) = {}) \<Longrightarrow>
       device_filled (en_dev s') 9 ?r ?bs m \<Longrightarrow>
       (\<exists>s''. receive sample_enc ?r (s'\<lparr>en_vm := m\<rparr>) = (Inr NVME_SC_SUCCESS, s'') \<and>
          (\<forall>i < length ?bs. span_bytes (en_vm s'') (snd (?bs ! i)) =
             span_bytes (en_vm sample_ctrl) (snd (([(100, 0x1000, 0x200), (101, 0x1200, 0x200)] :: (u64 \<times> u64 \<times> u64) list) ! i))))"
    by blast
  define m where "m = write_bytes 0x3000 (dev_bytes (en_dev s') (100 * 512) 1024) sample_mem"
  have sz: "map_size m = 0x8000" by (simp add: m_def sample_mem_size)
  have part: "span_bytes m (0x3000 + of_nat j, 0x200) = dev_bytes (en_dev s') (100 * 512 + j) 512" if "j = 0 \<or> j = 512" for j
    unfolding m_def using that dev_bytes_part [of j 512 1024 "en_dev s'" "100 * 512"]
    by (subst span_bytes_write_part [where j = j]) (auto simp: dev_bytes_def)
  have "device_filled (en_dev s') 9 ?r ?bs m"
    using part [of 0] part [of 512] by (auto simp: device_filled_def less_Suc_eq sample_rw_def rw_slba_def)
  moreover have "visits (ee_kernel sample_enc) (en_nvme sample_ctrl) m ?r (sample_iter 0x3000) ?bs"
    using sample_visits(1) [OF sz, of "0x3000" ?r] by (simp add: sample_enc_def sample_ctrl_def nvme_encryptor_make_def)
  ultimately obtain s'' where "receive sample_enc ?r (s'\<lparr>en_vm := m\<rparr>) = (Inr NVME_SC_SUCCESS, s'')"
    "span_bytes (en_vm s'') (0x3000, 0x200) = span_bytes (en_vm sample_ctrl) (0x1000, 0x200)"
    using rd [of m] sample_visits(2) [OF sz, of "0x3000" ?r] by auto
  then show ?thesis using s' by (auto simp: sample_ctrl_def nvme_encryptor_make_def)
qed

text \<open>
  C15. Every outcome of a write whose buffer can be visited: the function answers success or an internal error, and the device
  then holds a prefix of the enciphered blocks at the command's place and is otherwise unchanged. An internal error means that
  something is missing; where the device never reports an end of file, success means that nothing is.
\<close>

theorem encrypted_write_outcomes:
  assumes eng: "block_engine (ee_engine E) (2 ^ sh) C D" and ca: "nvme_caches (ee_kernel E) (en_nvme s)"
    and w: "opcode w = nvme_cmd_write" "flags w AND NVME_CMD_SGL_ALL = 0"
    and vis: "visits (ee_kernel E) (en_nvme s) (en_vm s) w itw bw" "li_lba_shift itw = sh" "sh < 31"
    and fits: "(unat (rw_slba w) + unat (rw_length w) + 1) * 2 ^ sh \<le> 2 ^ 64"
  shows "\<exists>st s' k. receive E w s = (Inr st, s') \<and> st \<in> {NVME_SC_SUCCESS, NVME_SC_DNR OR NVME_SC_INTERNAL} \<and> en_vm s' = en_vm s \<and>
    en_dev s' = dev_put (unat (rw_slba w) * 2 ^ sh) (take k (cipher_of C (en_vm s) bw)) (en_dev s) \<and>
    (st \<noteq> NVME_SC_SUCCESS \<longrightarrow> k < length bw * 2 ^ sh) \<and>
    (st = NVME_SC_SUCCESS \<longrightarrow> (\<forall>off n. 0 < n \<longrightarrow> ee_pwrite E off n \<noteq> 0) \<longrightarrow> length bw * 2 ^ sh \<le> k)"
proof -
  let ?c = "cipher_of C (en_vm s) bw" and ?base = "push_bit sh (rw_slba w)"
  have walk: "lba_walk (lba_fuel itw) (en_vm s) itw = Some (Inr bw)" and lw: "length bw = unat (rw_length w) + 1"
    using vis(1) by (simp_all add: visits_def)
  have "\<forall>(l, sp) \<in> set bw. unat (snd sp) = 2 ^ sh" using lba_walk_spans [OF walk] vis(2,3) by auto
  note c = cipher_of_blocks(1) [OF eng this, where m = "en_vm s"]
  have base: "unat ?base = unat (rw_slba w) * 2 ^ sh" by (rule unat_base [OF fits [unfolded add.assoc]]) simp
  obtain nv buf where run: "receive_write_copyback E w s =
      sbind (en_pwrite E ?base ?c) (\<lambda>_. return NVME_SC_SUCCESS) (s\<lparr>en_nvme := nv, en_encbuf := buf\<rparr>)"
    using write_copyback_run [OF vis(1) ca eng vis(2,3)] by blast
  obtain r d where l: "pwrite_loop (ee_pwrite E) ?base ?c (length ?c) (en_dev s) = (r, d)" by fastforce
  have "unat ?base + length ?c \<le> 2 ^ 64" using fits base c lw by (simp add: algebra_simps)
  from pwrite_loop_spec [OF order_refl this, of "ee_pwrite E" "en_dev s", unfolded l]
  obtain k where k: "d = dev_put (unat ?base) (take k ?c) (en_dev s)"
    "case r of Inr Pw_done \<Rightarrow> k = length ?c | Inr Pw_eof \<Rightarrow> k < length ?c | Inl e \<Rightarrow> k < length ?c \<and> e = System_error ''cannot write to blkdev''"
    by auto
  have eof: "r \<noteq> Inr Pw_eof" if "\<forall>off n. 0 < n \<longrightarrow> ee_pwrite E off n \<noteq> 0"
    using pwrite_loop_no_eof [of "ee_pwrite E" ?base ?c "length ?c" "en_dev s"] that by (simp add: l)
  let ?s' = "s\<lparr>en_nvme := nv, en_encbuf := buf, en_dev := d\<rparr>"
  have "receive_write_copyback E w s = (case r of Inl e \<Rightarrow> (Inl e, ?s') | Inr x \<Rightarrow> (Inr NVME_SC_SUCCESS, ?s'))"
    unfolding run by (simp add: en_pwrite_def sbind_apply l split: sum.split)
  then have rc: "receive E w s = (Inr (case r of Inl e \<Rightarrow> NVME_SC_DNR OR NVME_SC_INTERNAL | Inr x \<Rightarrow> NVME_SC_SUCCESS), ?s')"
    using w k(2) by (auto simp: receive_def catch_std_def split: sum.splits)
  have ne: "NVME_SC_DNR OR NVME_SC_INTERNAL \<noteq> NVME_SC_SUCCESS" by (simp add: nvme_status_defs)
  show ?thesis
    by (rule exI, rule exI, rule exI [of _ k], intro conjI, rule rc)
      (use k c eof base ne in \<open>auto split: sum.splits pw_end.splits\<close>)
qed

theorem encrypted_write_outcomes_witness:
  "\<exists>st s' k. receive (sample_enc\<lparr>ee_pwrite := (\<lambda>off n. if n < 100 then -1 else 7)\<rparr>) sample_write sample_ctrl = (Inr st, s') \<and>
     en_dev s' = dev_put 51200 (take k (cipher_of (\<lambda>b l. sample_mix sample_key b (xts_tweak l)) sample_mem
       [(100, 0x1000, 0x200), (101, 0x1200, 0x200)])) (\<lambda>_. 0xff) \<and>
     (st \<noteq> NVME_SC_SUCCESS \<longrightarrow> k < 1024) \<and> (st = NVME_SC_SUCCESS \<longrightarrow> 1024 \<le> k)"
proof -
  let ?E = "sample_enc\<lparr>ee_pwrite := (\<lambda>off n. if n < 100 then -1 else 7)\<rparr>"
  have fits: "(unat (rw_slba sample_write) + unat (rw_length sample_write) + 1) * 2 ^ 9 \<le> 2 ^ 64" by (simp add: sample_cmd)
  have "block_engine (ee_engine ?E) (2 ^ 9) (\<lambda>b l. sample_mix sample_key b (xts_tweak l)) (\<lambda>b l. sample_mix sample_key b (xts_tweak l))"
    "nvme_caches (ee_kernel ?E) (en_nvme sample_ctrl)"
    "visits (ee_kernel ?E) (en_nvme sample_ctrl) (en_vm sample_ctrl) sample_write (sample_iter 0x1000) [(100, 0x1000, 0x200), (101, 0x1200, 0x200)]"
    using sample_engine sample_env(2) sample_write_visits by simp_all
  from encrypted_write_outcomes [OF this(1,2) sample_cmd(4,5) this(3) sample_env(3) _ fits] obtain st s' k where
    "receive ?E sample_write sample_ctrl = (Inr st, s')" "st \<noteq> NVME_SC_SUCCESS \<longrightarrow> k < 1024" "st = NVME_SC_SUCCESS \<longrightarrow> 1024 \<le> k"
    "en_dev s' = dev_put 51200 (take k (cipher_of (\<lambda>b l. sample_mix sample_key b (xts_tweak l)) (en_vm sample_ctrl)
       [(100, 0x1000, 0x200), (101, 0x1200, 0x200)])) (en_dev sample_ctrl)"
    by (auto simp: sample_cmd split: if_splits)
  then show ?thesis by (auto simp: sample_ctrl_def nvme_encryptor_make_def)
qed

text \<open>
  When the device reports an end of file, a write is still answered with success, although nothing of it was stored.
\<close>

theorem eof_write_reports_success:
  assumes eng: "block_engine (ee_engine E) (2 ^ sh) C D" and ca: "nvme_caches (ee_kernel E) (en_nvme s)"
    and w: "opcode w = nvme_cmd_write" "flags w AND NVME_CMD_SGL_ALL = 0"
    and vis: "visits (ee_kernel E) (en_nvme s) (en_vm s) w itw bw" "li_lba_shift itw = sh" "sh < 31"
    and eof: "ee_pwrite E = (\<lambda>off n. 0)"
  shows "\<exists>s'. receive E w s = (Inr NVME_SC_SUCCESS, s') \<and> en_dev s' = en_dev s"
proof -
  obtain nv buf where run: "receive_write_copyback E w s =
      sbind (en_pwrite E (push_bit sh (rw_slba w)) (cipher_of C (en_vm s) bw)) (\<lambda>_. return NVME_SC_SUCCESS) (s\<lparr>en_nvme := nv, en_encbuf := buf\<rparr>)"
    using write_copyback_run [OF vis(1) ca eng vis(2,3)] by blast
  have "\<exists>r. pwrite_loop (ee_pwrite E) base v n d = (Inr r, d)" for base v n d
    by (subst pwrite_loop.simps) (simp add: eof Let_def)
  then obtain r where "pwrite_loop (ee_pwrite E) (push_bit sh (rw_slba w)) (cipher_of C (en_vm s) bw)
      (length (cipher_of C (en_vm s) bw)) (en_dev s) = (Inr r, en_dev s)" by blast
  then have "receive_write_copyback E w s = (Inr NVME_SC_SUCCESS, s\<lparr>en_nvme := nv, en_encbuf := buf\<rparr>)"
    unfolding run by (simp add: en_pwrite_def sbind_apply)
  then show ?thesis using w by (simp add: receive_def catch_std_Inr)
qed

theorem eof_write_reports_success_witness:
  "\<exists>s'. receive (sample_enc\<lparr>ee_pwrite := (\<lambda>off n. 0)\<rparr>) sample_write sample_ctrl = (Inr NVME_SC_SUCCESS, s') \<and> en_dev s' 51200 = 0xff"
proof -
  let ?E = "sample_enc\<lparr>ee_pwrite := (\<lambda>off n. 0)\<rparr>"
  have "block_engine (ee_engine ?E) (2 ^ 9) (\<lambda>b l. sample_mix sample_key b (xts_tweak l)) (\<lambda>b l. sample_mix sample_key b (xts_tweak l))"
    "nvme_caches (ee_kernel ?E) (en_nvme sample_ctrl)"
    "visits (ee_kernel ?E) (en_nvme sample_ctrl) (en_vm sample_ctrl) sample_write (sample_iter 0x1000) [(100, 0x1000, 0x200), (101, 0x1200, 0x200)]"
    using sample_engine sample_env(2) sample_write_visits by simp_all
  from eof_write_reports_success [OF this(1,2) sample_cmd(4,5) this(3) sample_env(3)] obtain s' where
    "receive ?E sample_write sample_ctrl = (Inr NVME_SC_SUCCESS, s')" "en_dev s' = en_dev sample_ctrl"
    by auto
  then show ?thesis by (auto simp: sample_ctrl_def nvme_encryptor_make_def)
qed





end
