(* ===== verification/Enclave.thy ===== *)
theory Enclave
  imports EncryptorProps
begin

text \<open>
  The trusted side of the encrypting function that keeps its key in an SGX enclave (\<open>encryptor-sgx/Enclave\<close>): the entry points of
  \<open>Enclave.cpp\<close> and the enclave's own versions of the guest memory, the page iterator, the block iterator and the cipher. These are
  built differently from the host's: spans check their contracts and throw, and assertions are compiled in.
\<close>

section \<open>Guest memory\<close>

definition ec_check_span :: "u64 \<Rightarrow> u64 \<Rightarrow> u64 \<Rightarrow> bool" where
  "ec_check_span len offset sz \<longleftrightarrow> \<not> (2 ^ 64 \<le> unat offset + unat sz \<or> len < offset + sz)"

definition ec_mapping_make :: "u64 \<Rightarrow> u64 \<Rightarrow> (nat \<Rightarrow> u8) \<Rightarrow> mapping" where
  "ec_mapping_make pvm pvm_size bytes = \<lparr>map_addr = pvm, map_size = pvm_size, map_byte = bytes\<rparr>"

definition ec_mapping_move_ctor :: "mapping \<Rightarrow> mapping \<times> mapping" where
  "ec_mapping_move_ctor other = (other, null_mapping)"

text \<open>The enclave does not own the memory: assigning forgets it, without \<open>munmap\<close>.\<close>

definition ec_mapping_move_assign :: "bool \<Rightarrow> mapping \<Rightarrow> mapping \<Rightarrow> mapping \<times> mapping" where
  "ec_mapping_move_assign same this other = (if same then (this, other) else (other, null_mapping))"

definition ec_mapping_eq :: "mapping \<Rightarrow> mapping \<Rightarrow> bool" where
  "ec_mapping_eq a b \<longleftrightarrow> map_addr a = map_addr b \<and> map_size a = map_size b"

definition ec_get_page :: "mapping \<Rightarrow> u64 \<Rightarrow> (u64 \<times> nat) result" where
  "ec_get_page m offset =
     (if \<not> ec_check_span (map_size m) offset (of_nat NVME_PAGE_SIZE) then Inl (Out_of_range ''offset is too far'')
      else let poff = offset AND (of_nat NVME_PAGE_SIZE - 1)
           in if poff AND (8 - 1) \<noteq> 0 then Inl (Invalid_argument ''offset is not aligned'')
              else Inr (offset, unat (of_nat NVME_PAGE_SIZE - poff) div 8))"

definition ec_get_u64 :: "mapping \<Rightarrow> u64 \<Rightarrow> u64 result" where
  "ec_get_u64 m offset =
     (if \<not> ec_check_span (map_size m) offset 8 then Inl (Out_of_range ''offset is too far'') else Inr (load_u64 m (unat offset)))"

text \<open>\<open>subspan\<close> checks its contract, in 64-bit arithmetic.\<close>

definition ec_subspan :: "u64 \<Rightarrow> u64 \<Rightarrow> u64 \<Rightarrow> (u64 \<times> u64) result" where
  "ec_subspan len offset count =
     (if offset \<le> len \<and> (count = U64_MAX \<or> offset + count \<le> len)
      then Inr (offset, if count = U64_MAX then len - offset else count) else Inl Contract_violation)"

definition ec_get_span :: "mapping \<Rightarrow> u64 \<Rightarrow> u64 \<Rightarrow> (u64 \<times> u64) result" where
  "ec_get_span m offset sz =
     (if \<not> ec_check_span (map_size m) offset sz then Inl (Out_of_range ''offset is too far'')
      else ec_subspan (map_size m) offset sz)"

section \<open>The page iterator\<close>

text \<open>Indexing a span outside its bounds throws.\<close>

fun ec_prp_entry :: "mapping \<Rightarrow> prp_list \<Rightarrow> nat \<Rightarrow> u64 result" where
  "ec_prp_entry m (Cmd_list es) i = (if i < length es then Inr (es ! i) else Inl Contract_violation)"
| "ec_prp_entry m (Page_list off n) i = (if i < n then Inr (load_u64 m (unat off + 8 * i)) else Inl Contract_violation)"

definition ec_prp_init :: "u64 \<Rightarrow> u64 \<Rightarrow> u64 \<Rightarrow> prp_chain_iter" where
  "ec_prp_init p1 p2 nbytes = \<lparr>prpl = Cmd_list [p1, p2], prpi = 0, prp_nbytes = nbytes\<rparr>"

definition ec_prp_at_end :: "prp_chain_iter \<Rightarrow> bool" where
  "ec_prp_at_end it \<longleftrightarrow> prp_nbytes it = 0"

definition ec_prp_is_data :: "prp_chain_iter \<Rightarrow> bool" where
  "ec_prp_is_data it \<longleftrightarrow>
     prp_list_size (prpl it) = 0 \<or> prpi it < prp_list_size (prpl it) - 1 \<or> prp_nbytes it \<le> of_nat NVME_PAGE_SIZE"

definition ec_prp_this_nbytes :: "mapping \<Rightarrow> prp_chain_iter \<Rightarrow> u64 result" where
  "ec_prp_this_nbytes m it =
     rbind (ec_prp_entry m (prpl it) (prpi it)) (\<lambda>e.
       let poff = e AND (of_nat NVME_PAGE_SIZE - 1)
       in Inr (if ec_prp_is_data it then min (of_nat NVME_PAGE_SIZE - poff) (prp_nbytes it) else 0))"

definition ec_assert :: "bool \<Rightarrow> 'a result \<Rightarrow> 'a result" where
  "ec_assert b r = (if b then r else Inl Assertion_failed)"

definition ec_prp_deref :: "mapping \<Rightarrow> prp_chain_iter \<Rightarrow> u64 result" where
  "ec_prp_deref m it =
     (if ec_prp_at_end it then Inl (Runtime_error ''tried to dereference prp iter beyond end'')
      else ec_assert (prpi it < prp_list_size (prpl it)) (ec_prp_entry m (prpl it) (prpi it)))"

definition ec_prp_incr :: "mapping \<Rightarrow> prp_chain_iter \<Rightarrow> prp_chain_iter result" where
  "ec_prp_incr m it =
     (if ec_prp_at_end it then Inl (Runtime_error ''tried to advance prp iter beyond end'')
      else rbind (ec_prp_this_nbytes m it) (\<lambda>n.
        ec_assert (n \<le> prp_nbytes it \<and> prpi it < prp_list_size (prpl it) \<and> ec_prp_is_data it)
          (let it1 = it\<lparr>prp_nbytes := prp_nbytes it - n, prpi := prpi it + 1\<rparr>
           in rbind (if \<not> ec_prp_is_data it1
                     then rbind (ec_prp_deref m it1) (\<lambda>next_prpl.
                          rbind (ec_get_page m next_prpl) (\<lambda>(off, n). Inr (it1\<lparr>prpl := Page_list off n, prpi := 0\<rparr>)))
                     else Inr it1)
                (\<lambda>it2. ec_assert (ec_prp_at_end it2 \<or> ec_prp_is_data it2) (Inr it2)))))"

section \<open>The block iterator\<close>

text \<open>
  \<open>nvme_cmd_lba_iter_en\<close> has the members of the host's iterator. It takes the block size as an argument and checks neither the
  size of the command nor its namespace.
\<close>

definition ec_iter_init :: "nvme_command \<Rightarrow> nat \<Rightarrow> nvme_cmd_lba_iter" where
  "ec_iter_init cmd lbas =
     (let nblocks = ucast (rw_length cmd) + 1; nbytes = push_bit lbas nblocks
      in \<lparr>li_lba_shift = lbas, li_slba = rw_slba cmd, li_nbytes = nbytes, li_prp_iter = ec_prp_init (prp1 cmd) (prp2 cmd) nbytes,
          li_cli = 0, li_pli = 0\<rparr>)"

definition ec_iter_incr :: "mapping \<Rightarrow> nvme_cmd_lba_iter \<Rightarrow> nvme_cmd_lba_iter result" where
  "ec_iter_incr m it =
     (let pli = li_pli it + 1
      in rbind (ec_prp_this_nbytes m (li_prp_iter it)) (\<lambda>n.
           if min (of_nat NVME_PAGE_SIZE) n \<le> push_bit (li_lba_shift it) pli
           then rbind (ec_prp_incr m (li_prp_iter it)) (\<lambda>p.
                  Inr (it\<lparr>li_cli := li_cli it + pli, li_pli := 0, li_prp_iter := p\<rparr>))
           else Inr (it\<lparr>li_pli := pli\<rparr>)))"

definition ec_iter_deref :: "mapping \<Rightarrow> nvme_cmd_lba_iter \<Rightarrow> (u64 \<times> u64) result" where
  "ec_iter_deref m it =
     rbind (ec_prp_deref m (li_prp_iter it)) (\<lambda>a.
       if 32 \<le> li_lba_shift it then Inl (Undefined ''shift'')
       else ec_get_span m (a + push_bit (li_lba_shift it) (li_pli it)) (int_shl1 (li_lba_shift it)))"

definition ec_iter_lba :: "nvme_cmd_lba_iter \<Rightarrow> u64" where
  "ec_iter_lba it = li_slba it + li_cli it + li_pli it"

definition ec_iter_at_end :: "nvme_cmd_lba_iter \<Rightarrow> bool" where
  "ec_iter_at_end it = ec_prp_at_end (li_prp_iter it)"

section \<open>The cipher\<close>

text \<open>The sizes go through \<open>int\<close> before they are turned into bits.\<close>

definition as_int :: "nat \<Rightarrow> int" where
  "as_int n = sint (of_nat n :: u32)"

definition ec_ctx_create :: "ippcp \<Rightarrow> u8 list \<Rightarrow> nat \<Rightarrow> u8 list result" where
  "ec_ctx_create L key block_size =
     (if xts_max_bytes < block_size then Inl (Out_of_range ''xts block size too large'')
      else if ipp_get_size L \<noteq> ippStsNoErr then Inl (System_error ''cannot get xts context size'')
      else if \<not> ipp_calloc L then Inl Bad_alloc
      else if ipp_init L key (as_int (length key) * 8) (as_int block_size * 8) \<noteq> ippStsNoErr
      then Inl (System_error ''cannot init xts engine'')
      else Inr key)"

definition ec_aes_xts_make :: "ippcp \<Rightarrow> u8 list \<Rightarrow> nat \<Rightarrow> aes_xts_ipp result" where
  "ec_aes_xts_make L key block_size =
     rbind (ec_ctx_create L key block_size) (\<lambda>ctx. Inr \<lparr>ipp_bs = block_size, ipp_ctx = Some ctx\<rparr>)"

definition ec_block_encrypt :: "ippcp \<Rightarrow> aes_xts_ipp \<Rightarrow> cipher_fn" where
  "ec_block_encrypt L x out dat lba =
     (case ipp_ctx x of
        None \<Rightarrow> (False, out)
      | Some key \<Rightarrow>
          if length out < length dat \<or> length dat \<noteq> ipp_bs x then (False, out)
          else case ipp_encrypt L key dat out (as_int (length dat) * 8) (xts_tweak lba) of
                 (st, out') \<Rightarrow> (st = ippStsNoErr, out'))"

definition ec_block_decrypt :: "ippcp \<Rightarrow> aes_xts_ipp \<Rightarrow> cipher_fn" where
  "ec_block_decrypt L x out dat lba =
     (case ipp_ctx x of
        None \<Rightarrow> (False, out)
      | Some key \<Rightarrow>
          if length out < length dat \<or> length dat \<noteq> ipp_bs x then (False, out)
          else case ipp_decrypt L key dat out (as_int (length dat) * 8) (xts_tweak lba) of
                 (st, out') \<Rightarrow> (st = ippStsNoErr, out'))"

definition ec_engine :: "ippcp \<Rightarrow> aes_xts_ipp \<Rightarrow> tbc" where
  "ec_engine L x = \<lparr>tbc_encrypt = ec_block_encrypt L x, tbc_decrypt = ec_block_decrypt L x\<rparr>"

section \<open>The entry points\<close>

text \<open>
  The state of the enclave: the engine, the block size (-1 before a key has been put), and whether the enclave has been lost:
  an exception that leaves an entry point, and a failed assertion, abort the enclave, and the run-time then refuses every call.
  The platform is an argument: the cipher library and which address ranges are outside of the enclave.
\<close>

record enclave =
  ec_cipher :: "aes_xts_ipp option"
  g_lba_shift :: int
  ec_lost :: bool

record sgx =
  sg_ipp :: ippcp
  sgx_is_outside_enclave :: "u64 \<Rightarrow> u64 \<Rightarrow> bool"

definition EPERM :: int where "EPERM = 1"
definition EFAULT :: int where "EFAULT = 14"
definition ec_EIO :: int where "ec_EIO = 5"

definition enclave_init :: enclave where
  "enclave_init = \<lparr>ec_cipher = None, g_lba_shift = -1, ec_lost = False\<rparr>"

text \<open>\<open>1 << lba_shift\<close> is an \<open>int\<close>.\<close>

definition put_key :: "sgx \<Rightarrow> u8 list \<Rightarrow> int \<Rightarrow> (enclave, int) prog" where
  "put_key G key sh =
     sbind (sget g_lba_shift) (\<lambda>old.
       if 0 \<le> old then return (- EPERM)
       else if sh < 0 \<or> 32 \<le> sh then raise (Undefined ''shift'')
       else sbind (lift_result (ec_aes_xts_make (sg_ipp G) key (unat (int_shl1 (nat sh))))) (\<lambda>x.
            sbind (smod (\<lambda>e. e\<lparr>ec_cipher := Some x, g_lba_shift := sh\<rparr>)) (\<lambda>_. return 0)))"

text \<open>Every entry point answers a broken contract with an error.\<close>

definition catch_contract :: "('s, int) prog \<Rightarrow> ('s, int) prog" where
  "catch_contract m = (\<lambda>s. case m s of (Inl Contract_violation, s') \<Rightarrow> (Inr (- EFAULT), s') | r \<Rightarrow> r)"

text \<open>
  The engine in the direction that the last argument of an entry point asks for. \<open>put_key\<close> sets the block size after the engine, so
  the engine is there when the block size is.
\<close>

definition ec_crypt :: "sgx \<Rightarrow> aes_xts_ipp \<Rightarrow> bool \<Rightarrow> cipher_fn" where
  "ec_crypt G x decrypt = (if decrypt then tbc_decrypt (ec_engine (sg_ipp G) x) else tbc_encrypt (ec_engine (sg_ipp G) x))"

definition with_engine :: "enclave \<Rightarrow> (aes_xts_ipp \<Rightarrow> ('s, int) prog) \<Rightarrow> ('s, int) prog" where
  "with_engine e f = (case ec_cipher e of None \<Rightarrow> raise (Undefined ''null pointer'') | Some x \<Rightarrow> f x)"

fun crypt_buffer_loop :: "cipher_fn \<Rightarrow> nat \<Rightarrow> u64 \<Rightarrow> nat \<Rightarrow> nat \<Rightarrow> int \<Rightarrow> (u8 list, int) prog" where
  "crypt_buffer_loop c lbas slba eli 0 bytes_done = return bytes_done"
| "crypt_buffer_loop c lbas slba eli (Suc n) bytes_done =
     sbind (\<lambda>buf. (ec_subspan (of_nat (length buf)) (push_bit lbas (of_nat eli)) (int_shl1 lbas), buf)) (\<lambda>sp.
     sbind (sget (\<lambda>buf. take (unat (snd sp)) (drop (unat (fst sp)) buf))) (\<lambda>src.
       case c src src (slba + of_nat eli) of
         (success, out) \<Rightarrow>
           sbind (smod (put_at (unat (fst sp)) out)) (\<lambda>_.
             if \<not> success then return (- ec_EIO)
             else crypt_buffer_loop c lbas slba (eli + 1) n (bytes_done + int (length src)))))"

text \<open>The buffer at \<open>buf\<close> is as long as the caller made it; the enclave believes the number of blocks it is given.\<close>

definition crypt_buffer_inplace :: "sgx \<Rightarrow> enclave \<Rightarrow> u64 \<Rightarrow> u64 \<Rightarrow> u64 \<Rightarrow> bool \<Rightarrow> (u8 list, int) prog" where
  "crypt_buffer_inplace G e slba addr nr_blocks decrypt =
     (if g_lba_shift e < 0 then return (- EPERM)
      else let lbas = nat (g_lba_shift e); n = push_bit lbas nr_blocks
           in if \<not> sgx_is_outside_enclave G addr n then return (- EFAULT)
              else (\<lambda>buf. if length buf < unat n then (Inl (Undefined ''buffer too small''), buf)
                    else zoom (take (unat n)) (\<lambda>v b. put_at 0 v b)
                           (with_engine e (\<lambda>x. catch_contract (crypt_buffer_loop (ec_crypt G x decrypt) lbas slba 0 (unat nr_blocks) 0))) buf))"

fun crypt_inplace_loop :: "cipher_fn \<Rightarrow> nat \<Rightarrow> nvme_cmd_lba_iter \<Rightarrow> int \<Rightarrow> (mapping, int) prog" where
  "crypt_inplace_loop c 0 it bytes_done = (if ec_iter_at_end it then return bytes_done else raise (Undefined ''loop without progress''))"
| "crypt_inplace_loop c (Suc n) it bytes_done =
     (if ec_iter_at_end it then return bytes_done
      else sbind (\<lambda>m. (ec_iter_deref m it, m)) (\<lambda>sp.
           sbind (sget (\<lambda>m. span_bytes m sp)) (\<lambda>src.
             case c src src (ec_iter_lba it) of
               (success, out) \<Rightarrow>
                 sbind (smod (write_bytes (unat (fst sp)) out)) (\<lambda>_.
                   if \<not> success then return (- ec_EIO)
                   else sbind (\<lambda>m. (ec_iter_incr m it, m)) (\<lambda>it'.
                        crypt_inplace_loop c n it' (bytes_done + int (length src)))))))"

definition crypt_command_inplace :: "sgx \<Rightarrow> enclave \<Rightarrow> nvme_command \<Rightarrow> bool \<Rightarrow> (mapping, int) prog" where
  "crypt_command_inplace G e cmd decrypt =
     (if g_lba_shift e < 0 then return (- EPERM)
      else sbind (sget (\<lambda>m. sgx_is_outside_enclave G (map_addr m) (map_size m))) (\<lambda>outside.
        if \<not> outside then return (- EFAULT)
        else let it = ec_iter_init cmd (nat (g_lba_shift e))
             in with_engine e (\<lambda>x. catch_contract (crypt_inplace_loop (ec_crypt G x decrypt) (lba_fuel it) it 0))))"

text \<open>
  The output span shrinks from the front: \<open>off\<close> is how much of it is used. The loop also ends when the rest is too small for a block.
\<close>

fun crypt_command_loop :: "cipher_fn \<Rightarrow> mapping \<Rightarrow> nat \<Rightarrow> nvme_cmd_lba_iter \<Rightarrow> nat \<Rightarrow> (u8 list, int) prog" where
  "crypt_command_loop c m 0 it off = (if ec_iter_at_end it then return (int off) else raise (Undefined ''loop without progress''))"
| "crypt_command_loop c m (Suc n) it off =
     (if ec_iter_at_end it then return (int off)
      else sbind (lift_result (ec_iter_deref m it)) (\<lambda>sp.
           sbind (sget (drop off)) (\<lambda>outspan.
             if length outspan < unat (snd sp) then return (int off)
             else case c outspan (span_bytes m sp) (ec_iter_lba it) of
                    (success, out) \<Rightarrow>
                      sbind (smod (put_at off out)) (\<lambda>_.
                        if \<not> success then return (- ec_EIO)
                        else sbind (lift_result (ec_iter_incr m it)) (\<lambda>it'. crypt_command_loop c m n it' (off + unat (snd sp)))))))"

definition crypt_command :: "sgx \<Rightarrow> enclave \<Rightarrow> mapping \<Rightarrow> nvme_command \<Rightarrow> u64 \<Rightarrow> bool \<Rightarrow> (u8 list, int) prog" where
  "crypt_command G e m cmd outbuf decrypt =
     (if g_lba_shift e < 0 then return (- EPERM)
      else sbind (sget length) (\<lambda>outbuf_size.
        if \<not> sgx_is_outside_enclave G (map_addr m) (map_size m) \<or> \<not> sgx_is_outside_enclave G outbuf (of_nat outbuf_size)
        then return (- EFAULT)
        else let it = ec_iter_init cmd (nat (g_lba_shift e))
             in with_engine e (\<lambda>x. catch_contract (crypt_command_loop (ec_crypt G x decrypt) m (lba_fuel it) it 0))))"

end
