(* ===== verification/EnclaveProps.thy ===== *)
theory EnclaveProps
  imports Enclave
begin

text \<open>
  What the enclave does with a command: where the host's iterators succeed on a whole command the enclave's do the same, and what the
  enclave's do the host's could do too.
\<close>

section \<open>The enclave's iterators and the host's\<close>

lemma ec_check_span: "ec_check_span = check_span"
  by (intro ext) (simp add: ec_check_span_def check_span_def)

lemma ec_get_page: "ec_get_page = get_page"
  by (intro ext) (simp add: ec_get_page_def get_page_def ec_check_span)

lemma ec_get_span: "ec_get_span = get_span"
proof (intro ext)
  fix m off n
  show "ec_get_span m off n = get_span m off n"
  proof (cases "check_span (map_size m) off n")
    case True
    then have le: "unat off + unat n \<le> unat (map_size m)" by (simp add: check_span_iff)
    then have "unat (off + n) = unat off + unat n" using unat_bound [of "map_size m"] by (intro unat_add_small) simp
    then have "off \<le> map_size m" "off + n \<le> map_size m" using le by (simp_all add: word_le_nat_alt)
    moreover have "map_size m - off = n" if "n = U64_MAX"
    proof -
      have "unat n = 2 ^ 64 - 1" by (simp add: that)
      then have "unat off = 0" "unat (map_size m) = 2 ^ 64 - 1" using le unat_bound [of "map_size m"] by simp_all
      then have "off = 0" "map_size m = n" using \<open>unat n = 2 ^ 64 - 1\<close> by (simp_all add: unat_eq_zero word_eq_unatI)
      then show ?thesis by simp
    qed
    ultimately show ?thesis using True by (simp add: ec_get_span_def get_span_def ec_check_span ec_subspan_def)
  qed (simp add: ec_get_span_def get_span_def ec_check_span)
qed

lemma ec_prp_simps: "ec_prp_at_end = prp_at_end" "ec_prp_is_data = prp_is_data" "ec_prp_init = prp_init" "ec_iter_at_end = lba_iter_at_end"
  "ec_iter_lba = iter_lba"
  by (intro ext, simp_all add: ec_prp_at_end_def prp_at_end_def ec_prp_is_data_def prp_is_data_def ec_prp_init_def prp_init_def
      ec_iter_at_end_def lba_iter_at_end_def ec_iter_lba_def iter_lba_def)+

lemma ec_prp_entry_Inr: "ec_prp_entry m l i = Inr e \<longleftrightarrow> prp_entry m l i = Inr e"
  by (cases l) auto

lemma prp_entry_index: "prp_entry m l i = Inr e \<Longrightarrow> i < prp_list_size l"
  by (cases l) (auto split: if_splits)

lemma ec_this_nbytes_Inr: "ec_prp_this_nbytes m it = Inr n \<longleftrightarrow> prp_this_nbytes m it = Inr n"
  by (auto simp: ec_prp_this_nbytes_def prp_this_nbytes_def rbind_Inr_iff ec_prp_entry_Inr ec_prp_simps)

lemma ec_deref_Inr: "ec_prp_deref m it = Inr a \<longleftrightarrow> prp_deref m it = Inr a"
  by (auto simp: ec_prp_deref_def prp_deref_def ec_prp_simps ec_assert_def ec_prp_entry_Inr dest: prp_entry_index)

lemma ec_incr_Inr: "ec_prp_incr m it = Inr it' \<longleftrightarrow> prp_incr m it = Inr it' \<and> (prp_at_end it' \<or> prp_is_data it')"
proof
  assume "ec_prp_incr m it = Inr it'"
  then show "prp_incr m it = Inr it' \<and> (prp_at_end it' \<or> prp_is_data it')"
    by (auto simp: ec_prp_incr_def prp_incr_def ec_prp_simps ec_assert_def Let_def rbind_Inr_iff ec_this_nbytes_Inr ec_deref_Inr ec_get_page
        split: if_splits)
next
  assume *: "prp_incr m it = Inr it' \<and> (prp_at_end it' \<or> prp_is_data it')"
  then obtain n where n: "prp_this_nbytes m it = Inr n" "0 < unat n" "unat n \<le> unat (prp_nbytes it)" by (blast elim: prp_incr_data)
  obtain e where e: "prp_entry m (prpl it) (prpi it) = Inr e" "unat n = (if prp_is_data it then min (4096 - unat e mod 4096) (unat (prp_nbytes it)) else 0)"
    using n(1) by (rule prp_this_nbytes_Inr)
  then have "prp_is_data it" "prpi it < prp_list_size (prpl it)" "n \<le> prp_nbytes it"
    using n(2,3) prp_entry_index by (auto simp: word_le_nat_alt split: if_splits)
  then show "ec_prp_incr m it = Inr it'"
    using * n(1)
    by (auto simp: ec_prp_incr_def prp_incr_def ec_prp_simps ec_assert_def Let_def rbind_Inr_iff ec_this_nbytes_Inr ec_deref_Inr ec_get_page
        split: if_splits)
qed

definition lba_live :: "nvme_cmd_lba_iter \<Rightarrow> bool" where
  "lba_live it \<longleftrightarrow> lba_iter_at_end it \<or> prp_is_data (li_prp_iter it)"

lemma ec_iter_incr_Inr:
  "lba_live it \<Longrightarrow> ec_iter_incr m it = Inr it' \<longleftrightarrow> lba_iter_incr m it = Inr it' \<and> lba_live it'"
  by (auto simp: ec_iter_incr_def lba_iter_incr_def Let_def rbind_Inr_iff ec_this_nbytes_Inr ec_incr_Inr lba_live_def lba_iter_at_end_def)

lemma ec_iter_deref_Inr: "ec_iter_deref m it = Inr sp \<longleftrightarrow> lba_iter_deref m it = Inr sp"
  by (auto simp: ec_iter_deref_def lba_iter_deref_def rbind_Inr_iff ec_deref_Inr ec_get_span)

text \<open>A loop that can go on has no iterator that is stuck.\<close>

lemma lba_incr_live:
  assumes "lba_iter_incr m it = Inr it'"
  shows "prp_is_data (li_prp_iter it)"
  using assms
proof (cases rule: lba_iter_incr_cases)
  case (page n p)
  then show ?thesis using prp_incr_stuck [of "li_prp_iter it" m] by (cases "prp_at_end (li_prp_iter it)") (auto simp: prp_incr_def)
next
  case (block n)
  show ?thesis
  proof (rule ccontr)
    assume "\<not> prp_is_data (li_prp_iter it)"
    then have "n = 0" using block(1) by (auto simp: prp_this_nbytes_def rbind_Inr_iff)
    then show False using block(3) by (simp add: word_less_nat_alt unat_min)
  qed
qed

lemma lba_walk_live: "lba_walk n m it = Some (Inr bs) \<Longrightarrow> lba_live it"
  by (cases n) (auto simp: lba_live_def dest: lba_walk_0 elim: lba_walk_step intro: lba_incr_live)

lemma ec_init: "fst (lba_iter_init k cmd nv) = Inr it \<Longrightarrow> ec_iter_init cmd (li_lba_shift it) = it"
  by (cases "lba_iter_init k cmd nv")
    (auto simp: lba_iter_init_def ec_iter_init_def sbind_Inr_iff ns_cmd_check_nbytes_def cmd_nblocks_def ec_prp_simps Let_def split: option.splits if_splits)

section \<open>The loops of the entry points\<close>

text \<open>What the loops need of a cipher: it replaces the first block of the output span.\<close>

definition block_fn :: "cipher_fn \<Rightarrow> nat \<Rightarrow> (u8 list \<Rightarrow> u64 \<Rightarrow> u8 list) \<Rightarrow> bool" where
  "block_fn c n C \<longleftrightarrow> (\<forall>out x l. length x = n \<longrightarrow> n \<le> length out \<longrightarrow> c out x l = (True, C x l @ drop n out) \<and> length (C x l) = n)"

lemma block_fnD:
  assumes "block_fn c n C" "length x = n"
  shows "n \<le> length out \<Longrightarrow> c out x l = (True, C x l @ drop n out)" "c x x l = (True, C x l)" "length (C x l) = n"
proof -
  show "n \<le> length out \<Longrightarrow> c out x l = (True, C x l @ drop n out)" using assms by (simp add: block_fn_def)
  have "c x x l = (True, C x l @ drop n x) \<and> length (C x l) = n"
    using assms(1) [unfolded block_fn_def, rule_format, of x x l] assms(2) by simp
  then show "c x x l = (True, C x l)" "length (C x l) = n" using assms(2) by simp_all
qed

lemma crypt_command_loop_walk:
  assumes c: "block_fn c (2 ^ s) C" and s: "s < 31"
  shows "lba_walk n m it = Some (Inr bs) \<Longrightarrow> li_lba_shift it = s \<Longrightarrow> off + length bs * 2 ^ s \<le> length buf \<Longrightarrow>
    crypt_command_loop c m n it off buf =
      (Inr (int (off + length bs * 2 ^ s)), take off buf @ cipher_of C m bs @ drop (off + length bs * 2 ^ s) buf)"
proof (induction n arbitrary: it bs off buf)
  case 0
  then show ?case by (auto simp: cipher_of_def ec_prp_simps dest!: lba_walk_0)
next
  case (Suc n)
  show ?case
  proof (cases "lba_iter_at_end it")
    case True
    then show ?thesis using lba_walk_end [OF True Suc.prems(1)] by (simp add: cipher_of_def ec_prp_simps)
  next
    case False
    with Suc.prems(1) obtain sp it' bs' where st: "lba_iter_deref m it = Inr sp" "lba_iter_incr m it = Inr it'"
      "bs = (iter_lba it, sp) # bs'" "lba_walk n m it' = Some (Inr bs')"
      by (rule lba_walk_step)
    have ec: "ec_iter_deref m it = Inr sp" "ec_iter_incr m it = Inr it'"
      using st lba_walk_live [OF st(4)] lba_walk_live [OF Suc.prems(1)] by (simp_all add: ec_iter_deref_Inr ec_iter_incr_Inr)
    let ?x = "span_bytes m sp"
    let ?y = "C ?x (iter_lba it)"
    let ?buf = "put_at off (?y @ drop (2 ^ s) (drop off buf)) buf"
    have sp: "unat (snd sp) = 2 ^ s" using lba_iter_deref_span(1) [OF st(1)] Suc.prems(2) s by simp
    note y = block_fnD [OF c, of ?x, simplified, OF sp]
    have room: "off + 2 ^ s + length bs' * 2 ^ s \<le> length buf" using Suc.prems(3) by (simp add: st(3) algebra_simps)
    have b: "?buf = take off buf @ ?y @ drop (off + 2 ^ s) buf" using y(3) room by (simp add: put_at_def add.commute)
    have "crypt_command_loop c m n it' (off + 2 ^ s) ?buf = (Inr (int (off + 2 ^ s + length bs' * 2 ^ s)),
        take (off + 2 ^ s) ?buf @ cipher_of C m bs' @ drop (off + 2 ^ s + length bs' * 2 ^ s) ?buf)"
      using Suc.IH [OF st(4), of "off + 2 ^ s" ?buf] iter_lba_incr [OF st(2)] Suc.prems(2) room y(3) unfolding b by simp
    moreover have "take (off + 2 ^ s) ?buf = take off buf @ ?y" unfolding b using y(3) room by simp
    moreover have "drop (off + 2 ^ s + length bs' * 2 ^ s) ?buf = drop (off + 2 ^ s + length bs' * 2 ^ s) buf"
      unfolding b using y(3) room by (simp add: add.commute)
    moreover have "\<not> length (drop off buf) < 2 ^ s" "2 ^ s \<le> length (drop off buf)" using room by simp_all
    ultimately show ?thesis
      using False ec y(1) [of "drop off buf"] room by (simp add: ec_prp_simps prog_simps sp st(3) cipher_of_def algebra_simps)
  qed
qed

lemma crypt_inplace_loop_walk:
  assumes c: "block_fn c (2 ^ s) D" and s: "s < 31"
  shows "lba_walk n m it = Some (Inr bs) \<Longrightarrow> li_lba_shift it = s \<Longrightarrow> agree_on (lba_reads n m it) m m' \<Longrightarrow>
    (\<forall>(l, sp) \<in> set bs. span_set sp \<inter> lba_reads n m it = {}) \<Longrightarrow>
    crypt_inplace_loop c n it k m' = (Inr (k + int (length bs * 2 ^ s)), dec_mem D bs m')"
proof (induction n arbitrary: it bs k m')
  case 0
  then show ?case by (auto simp: dec_mem_def ec_prp_simps dest!: lba_walk_0)
next
  case (Suc n)
  show ?case
  proof (cases "lba_iter_at_end it")
    case True
    then show ?thesis using lba_walk_end [OF True Suc.prems(1)] by (simp add: dec_mem_def ec_prp_simps)
  next
    case False
    with Suc.prems(1) obtain sp it' bs' where st: "lba_iter_deref m it = Inr sp" "lba_iter_incr m it = Inr it'"
      "bs = (iter_lba it, sp) # bs'" "lba_walk n m it' = Some (Inr bs')"
      by (rule lba_walk_step)
    let ?p = "li_prp_iter it"
    let ?R = "entry_bytes (prpl ?p) (prpi ?p) \<union> entry_bytes (prpl ?p) (prpi ?p + 1)"
    have reads: "lba_reads (Suc n) m it = ?R \<union> lba_reads n m it'" using False st(2) by (simp add: Let_def)
    let ?x = "span_bytes m' sp"
    have x: "length ?x = 2 ^ s" using lba_iter_deref_span(1) [OF st(1)] Suc.prems(2) s by simp
    note D = block_fnD [OF c x]
    let ?m = "write_bytes (unat (fst sp)) (D ?x (iter_lba it)) m'"
    have ag: "agree_on (lba_reads (Suc n) m it) m ?m"
      by (rule agree_on_write [OF Suc.prems(3)]) (use Suc.prems(4) st(3) D(3) x in auto)
    have "agree_on ?R m m'" "agree_on ?R m ?m" using Suc.prems(3) ag unfolding reads by (auto elim: agree_on_subset)
    then have "lba_iter_deref m' it = Inr sp" "lba_iter_incr ?m it = Inr it'"
      using lba_step_agree [OF _ refl, of it m m'] lba_step_agree [OF _ refl, of it m ?m] st(1,2) by simp_all
    then have "ec_iter_deref m' it = Inr sp" "ec_iter_incr ?m it = Inr it'"
      using lba_walk_live [OF st(4)] lba_walk_live [OF Suc.prems(1)] by (simp_all add: ec_iter_deref_Inr ec_iter_incr_Inr)
    moreover have "crypt_inplace_loop c n it' (k + 2 ^ s) ?m = (Inr (k + 2 ^ s + int (length bs' * 2 ^ s)), dec_mem D bs' ?m)"
    proof (rule Suc.IH [OF st(4)])
      show "li_lba_shift it' = s" using iter_lba_incr [OF st(2)] Suc.prems(2) by simp
      show "agree_on (lba_reads n m it') m ?m" using ag unfolding reads by (rule agree_on_subset) simp
      show "\<forall>(l, sp) \<in> set bs'. span_set sp \<inter> lba_reads n m it' = {}"
        using Suc.prems(4) unfolding reads st(3) by auto
    qed
    ultimately show ?thesis
      using False D(2) x by (simp add: ec_prp_simps prog_simps st(3) dec_mem_def algebra_simps)
  qed
qed

text \<open>
  The documented behaviour of the IPP ciphers makes the enclave's engine such a cipher, in both directions. The host's
  engine with the same key is the same.
\<close>

lemma as_int_small: "n \<le> 2 ^ 20 \<Longrightarrow> as_int n = int n"
  unfolding as_int_def signed_of_nat by (simp add: signed_take_bit_int_eq_self)

lemma ec_block_fn:
  assumes "ipp_xts_ok (sg_ipp G) key n C D" "n \<le> 2 ^ 20"
  shows "block_fn (ec_crypt G \<lparr>ipp_bs = n, ipp_ctx = Some key\<rparr> False) n (\<lambda>b l. C b (xts_tweak l))"
    "block_fn (ec_crypt G \<lparr>ipp_bs = n, ipp_ctx = Some key\<rparr> True) n (\<lambda>b l. D b (xts_tweak l))"
  using assms unfolding block_fn_def ipp_xts_ok_def
  by (auto simp: ec_crypt_def ec_engine_def ec_block_encrypt_def ec_block_decrypt_def as_int_small)

text \<open>What \<open>put_key\<close> leaves: a key, and a block size for which the cipher was set up.\<close>

lemma put_key_outcome:
  assumes "put_key G key sh enclave_init = (Inr r, e)"
  shows "r = 0" "0 \<le> sh" "sh \<le> 20" "e = \<lparr>ec_cipher = Some \<lparr>ipp_bs = 2 ^ nat sh, ipp_ctx = Some key\<rparr>, g_lba_shift = sh, ec_lost = False\<rparr>"
proof -
  have sh: "0 \<le> sh" "sh < 32" and r: "r = 0" and mk: "unat (int_shl1 (nat sh)) \<le> 2 ^ 20"
    and e: "e = enclave_init\<lparr>ec_cipher := Some \<lparr>ipp_bs = unat (int_shl1 (nat sh)), ipp_ctx = Some key\<rparr>, g_lba_shift := sh\<rparr>"
    using assms by (auto simp: put_key_def ec_aes_xts_make_def ec_ctx_create_def enclave_init_def xts_max_bytes_def prog_simps split: if_splits)
  have "nat sh < 31"
  proof (rule ccontr)
    assume "\<not> nat sh < 31"
    then have "nat sh = 31" using sh by simp
    then show False using mk by (simp add: int_shl1_def)
  qed
  then have p: "unat (int_shl1 (nat sh)) = 2 ^ nat sh" by (simp add: int_shl1_exp)
  then have "(2 :: nat) ^ nat sh \<le> 2 ^ 20" using mk by simp
  then have "nat sh \<le> 20" by (rule power_le_imp_le_exp [rotated]) simp
  then show "r = 0" "0 \<le> sh" "sh \<le> 20" "e = \<lparr>ec_cipher = Some \<lparr>ipp_bs = 2 ^ nat sh, ipp_ctx = Some key\<rparr>, g_lba_shift = sh, ec_lost = False\<rparr>"
    using r sh e p by (simp_all add: enclave_init_def)
qed

lemma catch_contract_Inr: "m s = (Inr r, s') \<Longrightarrow> catch_contract m s = (Inr r, s')"
  by (simp add: catch_contract_def)

text \<open>An enclave that holds a key for blocks of a size.\<close>

definition ec_ready :: "sgx \<Rightarrow> enclave \<Rightarrow> nat \<Rightarrow> (u8 list \<Rightarrow> u64 \<Rightarrow> u8 list) \<Rightarrow> (u8 list \<Rightarrow> u64 \<Rightarrow> u8 list) \<Rightarrow> bool" where
  "ec_ready G e s C D \<longleftrightarrow> s \<le> 20 \<and> g_lba_shift e = int s \<and> \<not> ec_lost e \<and>
     (\<exists>x. ec_cipher e = Some x \<and> block_fn (ec_crypt G x False) (2 ^ s) C \<and> block_fn (ec_crypt G x True) (2 ^ s) D)"

lemma crypt_command_run:
  assumes r: "ec_ready G e s C D" and v: "visits k nv m cmd it bs" "li_lba_shift it = s" and len: "length buf = unat (li_nbytes it)"
    and out: "sgx_is_outside_enclave G (map_addr m) (map_size m)" "sgx_is_outside_enclave G addr (li_nbytes it)"
  shows "crypt_command G e m cmd addr False buf = (Inr (int (length buf)), cipher_of C m bs)"
proof -
  obtain x where x: "s \<le> 20" "g_lba_shift e = int s" "ec_cipher e = Some x" "block_fn (ec_crypt G x False) (2 ^ s) C"
    using r by (auto simp: ec_ready_def)
  have it: "ec_iter_init cmd s = it" using ec_init v by (auto simp: visits_def)
  have w: "lba_walk (lba_fuel it) m it = Some (Inr bs)" "length buf = length bs * 2 ^ s" using v len by (simp_all add: visits_def)
  have "crypt_command_loop (ec_crypt G x False) m (lba_fuel it) it 0 buf = (Inr (int (length buf)), cipher_of C m bs)"
    using crypt_command_loop_walk [OF x(4) _ w(1) v(2), of 0 buf] w(2) x(1) by simp
  moreover have "of_nat (length buf) = li_nbytes it" using len by simp
  ultimately show ?thesis using x(2,3) out by (simp add: crypt_command_def prog_simps it with_engine_def catch_contract_Inr Let_def)
qed

lemma crypt_command_inplace_run:
  assumes r: "ec_ready G e s C D" and v: "visits k nv m cmd it bs" "li_lba_shift it = s"
    and out: "sgx_is_outside_enclave G (map_addr m) (map_size m)"
    and dis: "\<forall>(l, sp) \<in> set bs. span_set sp \<inter> lba_reads (lba_fuel it) m it = {}"
  shows "crypt_command_inplace G e cmd True m = (Inr (int (unat (li_nbytes it))), dec_mem D bs m)"
proof -
  obtain x where x: "s \<le> 20" "g_lba_shift e = int s" "ec_cipher e = Some x" "block_fn (ec_crypt G x True) (2 ^ s) D"
    using r by (auto simp: ec_ready_def)
  have it: "ec_iter_init cmd s = it" using ec_init v by (auto simp: visits_def)
  have w: "lba_walk (lba_fuel it) m it = Some (Inr bs)" "unat (li_nbytes it) = length bs * 2 ^ s" using v by (simp_all add: visits_def)
  have "crypt_inplace_loop (ec_crypt G x True) (lba_fuel it) it 0 m = (Inr (int (unat (li_nbytes it))), dec_mem D bs m)"
    using crypt_inplace_loop_walk [OF x(4) _ w(1) v(2) _ dis, of m 0] w(2) x(1) by (simp add: agree_on_def)
  then show ?thesis using x(2,3) out by (simp add: crypt_command_inplace_def prog_simps it with_engine_def catch_contract_Inr Let_def)
qed

lemma cipher_len:
  assumes r: "ec_ready G e s C D" and v: "visits k nv m cmd it bs" "li_lba_shift it = s"
  shows "length (cipher_of C m bs) = unat (li_nbytes it)"
proof -
  obtain x where x: "s \<le> 20" "block_fn (ec_crypt G x False) (2 ^ s) C" using r by (auto simp: ec_ready_def)
  have w: "lba_walk (lba_fuel it) m it = Some (Inr bs)" "unat (li_nbytes it) = length bs * 2 ^ s" using v by (simp_all add: visits_def)
  have "\<forall>y \<in> set (map (\<lambda>(l, sp). C (span_bytes m sp) l) bs). length y = 2 ^ s"
    using lba_walk_spans [OF w(1)] v(2) x(1) block_fnD(3) [OF x(2)] by fastforce
  from length_concat_same [OF this] show ?thesis by (simp add: cipher_of_def w(2))
qed

end
