(* ===== verification/EncryptorZero.thy ===== *)
theory EncryptorZero
  imports EncryptorProps
begin

text \<open>What the encrypting function does with write-zeroes commands.\<close>

section \<open>Writing zeroes\<close>

lemma zero_cipher_run:
  assumes eng: "block_engine e (2 ^ sh) C D" and z: "length z = 2 ^ sh"
  shows "(pli + n) * 2 ^ sh \<le> length buf \<Longrightarrow> zero_cipher_blocks e z sh base pli n buf =
    (Inr True, take (pli * 2 ^ sh) buf @ concat (map (\<lambda>i. C z (base + of_nat i)) [pli..<pli + n]) @ drop ((pli + n) * 2 ^ sh) buf)"
proof (induction n arbitrary: pli buf)
  case (Suc n)
  let ?out = "C z (base + of_nat pli)" and ?off = "pli * 2 ^ sh"
  note C = block_engineD [OF eng z]
  have room: "?off + 2 ^ sh \<le> length buf" using Suc.prems by (simp add: algebra_simps)
  have enc: "tbc_encrypt e (take (2 ^ sh) (drop ?off buf)) z (base + of_nat pli) = (True, ?out)"
    by (rule C(4)) (use room in simp)
  let ?buf = "put_at ?off ?out buf"
  have "zero_cipher_blocks e z sh base (pli + 1) n ?buf =
      (Inr True, take ((pli + 1) * 2 ^ sh) ?buf @ concat (map (\<lambda>i. C z (base + of_nat i)) [pli + 1..<pli + 1 + n]) @
        drop ((pli + 1 + n) * 2 ^ sh) ?buf)"
    by (rule Suc.IH) (use Suc.prems C(1) room in simp)
  moreover have "take ((pli + 1) * 2 ^ sh) ?buf = take ?off buf @ ?out"
    using put_at_take [of ?off ?out buf] room C(1) by (simp add: algebra_simps)
  moreover have "drop ((pli + 1 + n) * 2 ^ sh) ?buf = drop ((pli + 1 + n) * 2 ^ sh) buf"
    using put_at_drop [of ?off ?out buf] room C(1) by (simp add: algebra_simps)
  moreover have "[pli..<pli + Suc n] = pli # [pli + 1..<pli + 1 + n]" by (simp add: upt_conv_Cons del: upt_Suc)
  ultimately show ?case using enc room by (simp add: prog_simps subspan_def)
qed simp

text \<open>The enciphered zeroes of a range of blocks.\<close>

definition zero_cipher :: "(u8 list \<Rightarrow> u64 \<Rightarrow> u8 list) \<Rightarrow> nat \<Rightarrow> u64 \<Rightarrow> nat \<Rightarrow> nat \<Rightarrow> u8 list" where
  "zero_cipher C sh slba i j = concat (map (\<lambda>i. C (replicate (2 ^ sh) 0) (slba + of_nat i)) [i..<j])"

lemma length_zero_cipher:
  assumes "block_engine e (2 ^ sh) C D"
  shows "length (zero_cipher C sh slba i j) = (j - i) * 2 ^ sh"
  unfolding zero_cipher_def using block_engineD(1) [OF assms]
  by (subst length_concat_same [where n = "2 ^ sh"]) auto

lemma zero_cipher_append: "i \<le> j \<Longrightarrow> j \<le> k \<Longrightarrow> zero_cipher C sh slba i j @ zero_cipher C sh slba j k = zero_cipher C sh slba i k"
  unfolding zero_cipher_def using upt_add_eq_append [of i j "k - j"] by (simp add: concat_append [symmetric] del: concat_append)

lemma zero_cipher_shift: "zero_cipher C sh (slba + of_nat c) 0 p = zero_cipher C sh slba c (c + p)"
  unfolding zero_cipher_def by (rule arg_cong [of _ _ concat], rule nth_equalityI) (simp_all add: add.assoc)

text \<open>One batch: the buffer holds the enciphered zeroes, and they are written out.\<close>

lemma write_zeroes_batch:
  assumes eng: "block_engine (ee_engine E) (2 ^ sh) C D" and pw: "pw_progress (ee_pwrite E)"
    and z: "take (2 ^ sh) (en_zerobuf s) = replicate (2 ^ sh) 0" and buf: "wz_nblocks * 2 ^ sh \<le> length (en_encbuf s)"
    and cli: "cli < nblocks" "p = min (nblocks - cli) wz_nblocks" and fits: "(unat slba + nblocks) * 2 ^ sh \<le> 2 ^ 64"
  shows "\<exists>b. length b = length (en_encbuf s) \<and> write_zeroes_loop E sh slba nblocks cli (Suc n) s =
    write_zeroes_loop E sh slba nblocks (cli + p) n
      (s\<lparr>en_encbuf := b, en_dev := dev_put ((unat slba + cli) * 2 ^ sh) (zero_cipher C sh slba cli (cli + p)) (en_dev s)\<rparr>)"
proof -
  let ?c = "zero_cipher C sh slba cli (cli + p)" and ?N = "wz_nblocks * 2 ^ sh" and ?base = "slba + of_nat cli"
  have p: "p \<le> wz_nblocks" "cli + p \<le> nblocks" "0 < p" using cli by (auto simp: wz_nblocks_def)
  have pN: "p * 2 ^ sh \<le> ?N" using p(1) by (rule mult_le_mono1)
  note c = length_zero_cipher [OF eng, of slba cli "cli + p"]
  define b where "b = put_at 0 (?c @ drop (p * 2 ^ sh) (take ?N (en_encbuf s))) (en_encbuf s)"
  have enc: "zero_cipher_blocks (ee_engine E) (replicate (2 ^ sh) 0) sh ?base 0 p (take ?N (en_encbuf s)) =
      (Inr True, ?c @ drop (p * 2 ^ sh) (take ?N (en_encbuf s)))"
    using zero_cipher_run [OF eng, of "replicate (2 ^ sh) 0" 0 p "take ?N (en_encbuf s)" ?base] pN buf
      zero_cipher_shift [of C sh slba cli p] by (simp add: zero_cipher_def)
  have tb: "take (p * 2 ^ sh) b = ?c" "length b = length (en_encbuf s)"
    using c le_trans [OF pN buf] buf by (simp_all add: b_def put_at_def)
  have le: "unat slba + cli \<le> unat slba + nblocks" "unat slba + nblocks \<le> (unat slba + nblocks) * 2 ^ sh"
    using cli(1) mult_le_mono2 [of 1 "2 ^ sh" "unat slba + nblocks"] by simp_all
  then have lt: "unat slba + cli < 2 ^ 64" using fits cli(1) by linarith
  then have "unat (of_nat cli :: u64) = cli" by (simp add: unat_of_nat)
  then have u: "unat ?base = unat slba + cli" using lt by (subst unat_add_small) simp_all
  have "(unat ?base + (nblocks - cli)) * 2 ^ sh \<le> 2 ^ 64" using fits cli(1) by (simp add: u)
  then have off: "unat (push_bit sh ?base) = (unat slba + cli) * 2 ^ sh" using unat_base [of ?base "nblocks - cli" sh] cli(1) u by simp
  have "(unat slba + cli + p) * 2 ^ sh \<le> (unat slba + nblocks) * 2 ^ sh" using p(2) by (intro mult_le_mono1) simp
  then have "unat (push_bit sh ?base) + length ?c \<le> 2 ^ 64" using fits c off by (simp add: algebra_simps)
  note w = en_pwrite_all [OF pw this]
  have "write_zeroes_loop E sh slba nblocks cli (Suc n) s =
    write_zeroes_loop E sh slba nblocks (cli + p) n (s\<lparr>en_encbuf := b, en_dev := dev_put ((unat slba + cli) * 2 ^ sh) ?c (en_dev s)\<rparr>)"
    using cli(1) z enc tb(1) w off by (simp add: Let_def cli(2) [symmetric] prog_simps on_encbuf_def b_def [symmetric])
  then show ?thesis using tb(2) by blast
qed

lemma write_zeroes_run:
  assumes eng: "block_engine (ee_engine E) (2 ^ sh) C D" and pw: "pw_progress (ee_pwrite E)"
    and fits: "(unat slba + nblocks) * 2 ^ sh \<le> 2 ^ 64"
  shows "take (2 ^ sh) (en_zerobuf s) = replicate (2 ^ sh) 0 \<Longrightarrow> wz_nblocks * 2 ^ sh \<le> length (en_encbuf s) \<Longrightarrow>
    cli \<le> nblocks \<Longrightarrow> nblocks - cli \<le> n \<Longrightarrow>
    \<exists>s'. write_zeroes_loop E sh slba nblocks cli n s = (Inr NVME_SC_SUCCESS, s') \<and> en_vm s' = en_vm s \<and>
      en_dev s' = dev_put ((unat slba + cli) * 2 ^ sh) (zero_cipher C sh slba cli nblocks) (en_dev s)"
proof (induction n arbitrary: cli s)
  case 0
  then show ?case by (simp add: zero_cipher_def)
next
  case (Suc n)
  show ?case
  proof (cases "cli < nblocks")
    case False
    then show ?thesis using Suc.prems(3) by (simp add: zero_cipher_def)
  next
    case True
    define p where "p = min (nblocks - cli) wz_nblocks"
    let ?c = "zero_cipher C sh slba cli (cli + p)" and ?off = "(unat slba + cli) * 2 ^ sh"
    have p: "0 < p" "cli + p \<le> nblocks" using True by (auto simp: p_def wz_nblocks_def)
    obtain b where b: "length b = length (en_encbuf s)" "write_zeroes_loop E sh slba nblocks cli (Suc n) s =
      write_zeroes_loop E sh slba nblocks (cli + p) n (s\<lparr>en_encbuf := b, en_dev := dev_put ?off ?c (en_dev s)\<rparr>)"
      using write_zeroes_batch [OF eng pw Suc.prems(1,2) True p_def fits] by blast
    let ?s = "s\<lparr>en_encbuf := b, en_dev := dev_put ?off ?c (en_dev s)\<rparr>"
    have "\<exists>s'. write_zeroes_loop E sh slba nblocks (cli + p) n ?s = (Inr NVME_SC_SUCCESS, s') \<and> en_vm s' = en_vm ?s \<and>
      en_dev s' = dev_put ((unat slba + (cli + p)) * 2 ^ sh) (zero_cipher C sh slba (cli + p) nblocks) (en_dev ?s)"
      by (rule Suc.IH) (use Suc.prems b(1) p in simp_all)
    moreover have "(unat slba + (cli + p)) * 2 ^ sh = ?off + length ?c"
      by (simp add: length_zero_cipher [OF eng] algebra_simps)
    ultimately show ?thesis
      using b(2) zero_cipher_append [of cli "cli + p" nblocks C sh slba] p(2) by (simp add: dev_put_append)
  qed
qed

text \<open>The zero buffer holds zeroes.\<close>

definition zero_inv :: "enc_ctrl \<Rightarrow> bool" where
  "zero_inv s \<longleftrightarrow> set (en_zerobuf s) \<subseteq> {0}"

lemma zero_inv_take: "zero_inv s \<Longrightarrow> n \<le> length (en_zerobuf s) \<Longrightarrow> take n (en_zerobuf s) = replicate n 0"
  by (rule replicate_eqI [symmetric, THEN sym]) (auto simp: zero_inv_def dest: in_set_takeD)

lemma zero_inv_resize: "set v \<subseteq> {0} \<Longrightarrow> set (vec_resize n v) \<subseteq> {0}"
  by (auto simp: vec_resize_def dest: in_set_takeD)

lemma receive_write_zeroes_stores:
  assumes eng: "block_engine (ee_engine E) (2 ^ sh) C D" and pw: "pw_progress (ee_pwrite E)" and z: "zero_inv s"
    and ns: "ns_lba_shift (ee_kernel E) (nsid cmd) (en_nvme s) = (Inr sh, nv)" and sh: "sh < 31" and op: "opcode cmd = nvme_cmd_write_zeroes"
    and fits: "(unat (rw_slba cmd) + unat (rw_length cmd) + 1) * 2 ^ sh \<le> 2 ^ 64"
  shows "\<exists>s'. receive E cmd s = (Inr NVME_SC_SUCCESS, s') \<and> en_vm s' = en_vm s \<and> en_dev s' =
    dev_put (unat (rw_slba cmd) * 2 ^ sh) (zero_cipher C sh (rw_slba cmd) 0 (unat (rw_length cmd) + 1)) (en_dev s)"
proof -
  define z' where "z' = (if length (en_zerobuf s) < 2 ^ sh then vec_resize (2 ^ sh) (en_zerobuf s) else en_zerobuf s)"
  define b' where "b' = (if length (en_encbuf s) < wz_nblocks * 2 ^ sh then vec_resize (wz_nblocks * 2 ^ sh) (en_encbuf s) else en_encbuf s)"
  let ?s = "s\<lparr>en_nvme := nv, en_zerobuf := z', en_encbuf := b'\<rparr>"
  have "zero_inv ?s" "2 ^ sh \<le> length (en_zerobuf ?s)" "wz_nblocks * 2 ^ sh \<le> length (en_encbuf ?s)"
    using z zero_inv_resize by (auto simp: zero_inv_def z'_def b'_def vec_resize_def)
  then have "\<exists>s'. write_zeroes_loop E sh (rw_slba cmd) (unat (rw_length cmd) + 1) 0 (unat (rw_length cmd) + 1) ?s = (Inr NVME_SC_SUCCESS, s') \<and>
      en_vm s' = en_vm ?s \<and> en_dev s' = dev_put ((unat (rw_slba cmd) + 0) * 2 ^ sh) (zero_cipher C sh (rw_slba cmd) 0 (unat (rw_length cmd) + 1)) (en_dev ?s)"
    using write_zeroes_run [OF eng pw, of "rw_slba cmd" "unat (rw_length cmd) + 1" ?s 0 "unat (rw_length cmd) + 1"] fits zero_inv_take [of ?s "2 ^ sh"]
    by (simp add: add.assoc)
  then obtain s' where s': "write_zeroes_loop E sh (rw_slba cmd) (unat (rw_length cmd) + 1) 0 (unat (rw_length cmd) + 1) ?s = (Inr NVME_SC_SUCCESS, s')"
    "en_vm s' = en_vm s" "en_dev s' = dev_put (unat (rw_slba cmd) * 2 ^ sh) (zero_cipher C sh (rw_slba cmd) 0 (unat (rw_length cmd) + 1)) (en_dev s)"
    by auto
  have "receive_write_zeroes E cmd s = write_zeroes_loop E sh (rw_slba cmd) (unat (rw_length cmd) + 1) 0 (unat (rw_length cmd) + 1) ?s"
    using ns sh by (simp add: receive_write_zeroes_def on_en_nvme_def grow_encbuf_def prog_simps unat_nblocks z'_def b'_def)
  then have "receive E cmd s = (Inr NVME_SC_SUCCESS, s')" using s'(1) op by (simp add: receive_def catch_std_Inr)
  then show ?thesis using s'(2,3) by blast
qed

text \<open>
  C24. A write-zeroes command stores enciphered zeroes: it is answered with success, afterwards every block of the command's
  range holds the encryption of a block of zeroes under its own number, so that it deciphers to zeroes, and no other byte of
  the device and nothing of guest memory has changed. This holds as long as the shared zero buffer holds zeroes, which every
  command keeps up (next theorem).
\<close>

theorem write_zeroes_stores_zeroes:
  assumes eng: "block_engine (ee_engine E) (2 ^ sh) C D" and pw: "pw_progress (ee_pwrite E)" and z: "zero_inv s"
    and ns: "ns_lba_shift (ee_kernel E) (nsid cmd) (en_nvme s) = (Inr sh, nv)" and sh: "sh < 31" and op: "opcode cmd = nvme_cmd_write_zeroes"
    and fits: "(unat (rw_slba cmd) + unat (rw_length cmd) + 1) * 2 ^ sh \<le> 2 ^ 64"
  shows "\<exists>s'. receive E cmd s = (Inr NVME_SC_SUCCESS, s') \<and> en_vm s' = en_vm s \<and>
    (\<forall>i \<le> unat (rw_length cmd).
       D (dev_bytes (en_dev s') ((unat (rw_slba cmd) + i) * 2 ^ sh) (2 ^ sh)) (rw_slba cmd + of_nat i) = replicate (2 ^ sh) 0) \<and>
    (\<forall>a. a < unat (rw_slba cmd) * 2 ^ sh \<or> (unat (rw_slba cmd) + unat (rw_length cmd) + 1) * 2 ^ sh \<le> a \<longrightarrow> en_dev s' a = en_dev s a)"
proof -
  let ?z = "replicate (2 ^ sh) 0 :: u8 list" and ?n = "unat (rw_length cmd) + 1"
  let ?xs = "map (\<lambda>i. C ?z (rw_slba cmd + of_nat i)) [0..<?n]"
  obtain s' where s': "receive E cmd s = (Inr NVME_SC_SUCCESS, s')" "en_vm s' = en_vm s"
    "en_dev s' = dev_put (unat (rw_slba cmd) * 2 ^ sh) (concat ?xs) (en_dev s)"
    using receive_write_zeroes_stores [OF assms] unfolding zero_cipher_def by blast
  note C = block_engineD [OF eng, of ?z]
  have all: "\<forall>x \<in> set ?xs. length x = 2 ^ sh" using C(1) by auto
  have len: "length (concat ?xs) = ?n * 2 ^ sh" using length_concat_same [OF all] by simp
  have "D (dev_bytes (en_dev s') ((unat (rw_slba cmd) + i) * 2 ^ sh) (2 ^ sh)) (rw_slba cmd + of_nat i) = ?z" if "i \<le> unat (rw_length cmd)" for i
  proof -
    have "i * 2 ^ sh + 2 ^ sh \<le> length (concat ?xs)" unfolding len using that mult_le_mono1 [of "i + 1" ?n "2 ^ sh"] by simp
    then have "dev_bytes (en_dev s') ((unat (rw_slba cmd) + i) * 2 ^ sh) (2 ^ sh) = take (2 ^ sh) (drop (i * 2 ^ sh) (concat ?xs))"
      using dev_bytes_put_part [of "i * 2 ^ sh" "2 ^ sh" "concat ?xs"] by (simp add: s'(3) add_mult_distrib)
    also have "\<dots> = C ?z (rw_slba cmd + of_nat i)" using concat_nth_block [OF all, of i] that by (simp del: upt_Suc)
    finally show ?thesis using C(3) by simp
  qed
  moreover have "en_dev s' a = en_dev s a" if "a < unat (rw_slba cmd) * 2 ^ sh \<or> (unat (rw_slba cmd) + unat (rw_length cmd) + 1) * 2 ^ sh \<le> a" for a
    using that len by (auto simp: s'(3) dev_put_def algebra_simps)
  ultimately show ?thesis using s'(1,2) by blast
qed

definition sample_zero :: nvme_command where "sample_zero = (sample_rw 0 0 1)\<lparr>opcode := nvme_cmd_write_zeroes\<rparr>"

theorem write_zeroes_stores_zeroes_witness:
  "\<exists>s'. receive sample_enc sample_zero sample_ctrl = (Inr NVME_SC_SUCCESS, s') \<and>
     sample_mix sample_key (dev_bytes (en_dev s') 51200 512) (xts_tweak 100) = replicate 512 0 \<and> en_dev s' 0 = 0xff"
proof -
  have "zero_inv sample_ctrl" "opcode sample_zero = nvme_cmd_write_zeroes"
    by (simp_all add: zero_inv_def sample_ctrl_def nvme_encryptor_make_def sample_zero_def)
  moreover have "\<exists>nv. ns_lba_shift (ee_kernel sample_enc) (nsid sample_zero) (en_nvme sample_ctrl) = (Inr 9, nv)"
    by (simp add: sample_zero_def sample_enc_def sample_ctrl_def nvme_encryptor_make_def init_eval)
  moreover have f: "rw_slba sample_zero = 100" "rw_length sample_zero = 1" by (simp_all add: sample_zero_def rw_slba_def rw_length_def sample_rw_def)
  ultimately obtain s' where s': "receive sample_enc sample_zero sample_ctrl = (Inr NVME_SC_SUCCESS, s')"
    "\<forall>i \<le> unat (rw_length sample_zero). sample_mix sample_key (dev_bytes (en_dev s') ((unat (rw_slba sample_zero) + i) * 2 ^ 9) (2 ^ 9))
       (xts_tweak (rw_slba sample_zero + of_nat i)) = replicate (2 ^ 9) 0"
    "\<forall>a. a < unat (rw_slba sample_zero) * 2 ^ 9 \<or> (unat (rw_slba sample_zero) + unat (rw_length sample_zero) + 1) * 2 ^ 9 \<le> a \<longrightarrow>
       en_dev s' a = en_dev sample_ctrl a"
    using write_zeroes_stores_zeroes [OF sample_engine sample_env(1), of sample_ctrl sample_zero] by force
  have "en_dev s' 0 = en_dev sample_ctrl 0" using s'(3) by (simp add: f)
  moreover have "sample_mix sample_key (dev_bytes (en_dev s') 51200 512) (xts_tweak 100) = replicate 512 0" using spec [OF s'(2), of 0] by (simp add: f)
  ultimately show ?thesis using s'(1) by (auto simp: sample_ctrl_def nvme_encryptor_make_def)
qed

lemma on_en_keeps: "keeps zero_inv (on_en_nvme m)" "keeps zero_inv (on_encbuf n v)" "keeps zero_inv (grow_encbuf n)" "keeps zero_inv (en_pwrite E base buf)"
proof -
  show "keeps zero_inv (en_pwrite E base buf)" by (simp add: keeps_def en_pwrite_def zero_inv_def split: prod.split)
qed (auto simp: on_en_nvme_def on_encbuf_def grow_encbuf_def zero_inv_def intro!: keeps_zoom keeps_smod)

lemma write_zeroes_loop_keeps: "keeps zero_inv (write_zeroes_loop E lbas slba nblocks cli n)"
  by (induction n arbitrary: cli) (auto simp: Let_def intro!: on_en_keeps keeps_sbind keeps_if)

lemma keeps_catch_std: "keeps P m \<Longrightarrow> keeps P (catch_std m)"
  unfolding keeps_def catch_std_def by (auto split: prod.splits sum.splits cpp_exn.splits)

text \<open>
  The shared buffer of zeroes is empty at first and holds nothing but zeroes after any command, whatever the answer.
\<close>

theorem zero_buffer_invariant:
  "zero_inv (nvme_encryptor_make vm dev) \<and> (zero_inv s \<longrightarrow> zero_inv (snd (receive E cmd s)))"
proof -
  have "keeps zero_inv (receive_read E cmd)"
    unfolding receive_read_def by (intro keeps_sbind on_en_keeps keeps_zoom keeps_basic) (simp add: zero_inv_def)
  moreover have "keeps zero_inv (receive_write_copyback E cmd)"
    unfolding receive_write_copyback_def Let_def by (intro keeps_sbind on_en_keeps keeps_basic keeps_if)
  moreover have "keeps zero_inv (receive_write_zeroes E cmd)"
    unfolding receive_write_zeroes_def
    by (intro keeps_sbind on_en_keeps keeps_basic keeps_if write_zeroes_loop_keeps keeps_smod) (auto simp: zero_inv_def dest: zero_inv_resize)
  ultimately have "keeps zero_inv (receive E cmd)"
    unfolding receive_def by (intro keeps_catch_std keeps_if) auto
  then show ?thesis by (simp add: keeps_def zero_inv_def nvme_encryptor_make_def)
qed

theorem zero_buffer_invariant_witness: "zero_inv (snd (receive sample_enc sample_zero sample_ctrl))"
  using zero_buffer_invariant [of sample_mem "\<lambda>_. 0xff" sample_ctrl sample_enc sample_zero] by (simp add: sample_ctrl_def)

end
