(* ===== verification/Uring.thy ===== *)
theory Uring
  imports NvmeCore
begin

text \<open>
  The wrapper around \<open>io_uring\<close> (\<open>util/uring.hpp\<close>, \<open>util/uring.cpp\<close>): building scatter lists, queueing requests
  that carry a ticket, submitting them, and taking completions. What \<open>liburing\<close> answers is an argument of the
  definitions; the entries it has been handed are kept in order.
\<close>

section \<open>Scatter lists\<close>

record iovec =
  iov_base :: u64
  iov_len :: u64

definition iovec_append :: "iovec list \<Rightarrow> u64 \<Rightarrow> u64 \<Rightarrow> iovec list" where
  "iovec_append t base len =
     (if t \<noteq> [] \<and> base = iov_base (last t) + iov_len (last t)
      then butlast t @ [(last t)\<lparr>iov_len := iov_len (last t) + len\<rparr>]
      else t @ [\<lparr>iov_base = base, iov_len = len\<rparr>])"

definition iovec_try_append :: "iovec \<Rightarrow> u64 \<Rightarrow> u64 \<Rightarrow> bool \<times> iovec" where
  "iovec_try_append v base len =
     (if iov_base v \<noteq> 0 \<and> base = iov_base v + iov_len v
      then (True, v\<lparr>iov_len := iov_len v + len\<rparr>)
      else (False, \<lparr>iov_base = base, iov_len = len\<rparr>))"

section \<open>Requests\<close>

text \<open>Flags of the system interface that the callers pass.\<close>

definition RWF_DSYNC :: int where "RWF_DSYNC = 2"
definition IORING_FSYNC_DATASYNC :: u32 where "IORING_FSYNC_DATASYNC = 1"
definition FALLOC_FL_ZERO_RANGE :: int where "FALLOC_FL_ZERO_RANGE = 16"

text \<open>
  A buffer is an address or the memory that a ticket owns. The ticket is what the completion carries back; tickets are named
  by numbers.
\<close>

datatype uring_buf = Ptr u64 | Ticket_mem nat

datatype uring_op =
    Read_op uring_buf u32 int u64
  | Write_op uring_buf u32 int u64
  | Readv_op "iovec list" u64 int
  | Writev_op "iovec list" u64 int
  | Fallocate_op int u64 u64
  | Fsync_op u32

record sqe =
  sqe_op :: uring_op
  sqe_fd :: int
  sqe_async :: bool
  sqe_fixed :: bool
  sqe_link :: bool
  sqe_data :: nat

text \<open>
  The queue holds the entries prepared since the last submission, the log what was handed to the kernel.
\<close>

record uring =
  ur_fixed :: "int list"
  ur_bufs :: "iovec list"
  ur_sq :: "sqe list"
  ur_sent :: "sqe list"

text \<open>
  The answers of the library: setting up the ring and registering files and buffers, whether \<open>io_uring_get_sqe\<close>
  finds no free entry, and what \<open>io_uring_submit\<close> returns.
\<close>

record liburing =
  lu_queue_init :: "u32 \<Rightarrow> u32 \<Rightarrow> int"
  lu_register_files :: "int list \<Rightarrow> int"
  lu_register_buffers :: "iovec list \<Rightarrow> int"
  lu_sq_full :: "sqe list \<Rightarrow> bool"
  lu_submit :: "sqe list \<Rightarrow> int"

definition uring_create :: "liburing \<Rightarrow> u32 \<Rightarrow> u32 \<Rightarrow> unit result" where
  "uring_create L entries fl =
     (if lu_queue_init L entries fl < 0 then Inl (System_error ''cannot init uring'') else Inr ())"

definition uring_make :: "liburing \<Rightarrow> u32 \<Rightarrow> u32 \<Rightarrow> int list \<Rightarrow> iovec list \<Rightarrow> uring result" where
  "uring_make L entries fl files bufs =
     rbind (uring_create L entries fl) (\<lambda>_.
       if files \<noteq> [] \<and> lu_register_files L files < 0 then Inl (System_error ''cannot register uring files'')
       else if bufs \<noteq> [] \<and> lu_register_buffers L bufs < 0 then Inl (System_error ''cannot register uring buffers'')
       else Inr \<lparr>ur_fixed = files, ur_bufs = bufs, ur_sq = [], ur_sent = []\<rparr>)"

text \<open>\<open>is_in_range\<close> serves assertions only.\<close>

definition is_in_range :: "u64 \<Rightarrow> u64 \<Rightarrow> u64 \<Rightarrow> u64 \<Rightarrow> bool" where
  "is_in_range out_p out_s in_p in_s \<longleftrightarrow>
     \<not> 2 ^ 64 \<le> unat in_p + unat in_s \<and> out_p \<le> in_p \<and> in_p + in_s \<le> out_p + out_s"

text \<open>
  \<open>get_sqe\<close> together with the preparation that follows it in every caller. The result is the place of the new entry, through
  which a caller may still set flags.
\<close>

definition get_sqe :: "liburing \<Rightarrow> sqe \<Rightarrow> (uring, nat) prog" where
  "get_sqe L e =
     sbind (sget ur_sq) (\<lambda>q.
       if lu_sq_full L q then raise (Runtime_error ''sqe full'')
       else sbind (smod (\<lambda>u. u\<lparr>ur_sq := q @ [e]\<rparr>)) (\<lambda>_. return (length q)))"

definition mk_sqe :: "uring_op \<Rightarrow> int \<Rightarrow> bool \<Rightarrow> nat \<Rightarrow> sqe" where
  "mk_sqe op fid fixed ticket =
     \<lparr>sqe_op = op, sqe_fd = fid, sqe_async = True, sqe_fixed = fixed, sqe_link = False, sqe_data = ticket\<rparr>"

definition queue_read :: "liburing \<Rightarrow> nat \<Rightarrow> uring_buf \<Rightarrow> u32 \<Rightarrow> int \<Rightarrow> bool \<Rightarrow> int \<Rightarrow> u64 \<Rightarrow> (uring, nat) prog" where
  "queue_read L ticket buf nbytes buf_index fixed fid offset =
     get_sqe L (mk_sqe (Read_op buf nbytes (if 0 \<le> buf_index then buf_index else -1) offset) fid fixed ticket)"

definition queue_write :: "liburing \<Rightarrow> nat \<Rightarrow> uring_buf \<Rightarrow> u32 \<Rightarrow> int \<Rightarrow> bool \<Rightarrow> int \<Rightarrow> u64 \<Rightarrow> (uring, nat) prog" where
  "queue_write L ticket buf nbytes buf_index fixed fid offset =
     get_sqe L (mk_sqe (Write_op buf nbytes (if 0 \<le> buf_index then buf_index else -1) offset) fid fixed ticket)"

definition queue_readv :: "liburing \<Rightarrow> nat \<Rightarrow> iovec list \<Rightarrow> bool \<Rightarrow> int \<Rightarrow> u64 \<Rightarrow> int \<Rightarrow> (uring, nat) prog" where
  "queue_readv L ticket iovecs fixed fid offset fl = get_sqe L (mk_sqe (Readv_op iovecs offset fl) fid fixed ticket)"

definition queue_writev :: "liburing \<Rightarrow> nat \<Rightarrow> iovec list \<Rightarrow> bool \<Rightarrow> int \<Rightarrow> u64 \<Rightarrow> int \<Rightarrow> (uring, nat) prog" where
  "queue_writev L ticket iovecs fixed fid offset fl = get_sqe L (mk_sqe (Writev_op iovecs offset fl) fid fixed ticket)"

definition queue_fallocate :: "liburing \<Rightarrow> nat \<Rightarrow> bool \<Rightarrow> int \<Rightarrow> int \<Rightarrow> u64 \<Rightarrow> u64 \<Rightarrow> (uring, nat) prog" where
  "queue_fallocate L ticket fixed fid mode offset len = get_sqe L (mk_sqe (Fallocate_op mode offset len) fid fixed ticket)"

definition queue_fsync :: "liburing \<Rightarrow> nat \<Rightarrow> bool \<Rightarrow> int \<Rightarrow> u32 \<Rightarrow> (uring, nat) prog" where
  "queue_fsync L ticket fixed fid fl = get_sqe L (mk_sqe (Fsync_op fl) fid fixed ticket)"

text \<open>\<open>sqe->flags |= IOSQE_IO_LINK\<close> on a prepared entry.\<close>

definition sqe_set_link :: "nat \<Rightarrow> (uring, unit) prog" where
  "sqe_set_link i = smod (\<lambda>u. u\<lparr>ur_sq := (ur_sq u)[i := (ur_sq u ! i)\<lparr>sqe_link := True\<rparr>]\<rparr>)"

text \<open>A submission hands the first entries of the queue to the kernel, as many as it reports.\<close>

definition sq_kick :: "liburing \<Rightarrow> (uring, int) prog" where
  "sq_kick L =
     sbind (sget ur_sq) (\<lambda>q.
       let r = lu_submit L q; n = if r < 0 then 0 else nat r
       in sbind (smod (\<lambda>u. u\<lparr>ur_sq := drop n q, ur_sent := ur_sent u @ take n q\<rparr>)) (\<lambda>_. return r))"

section \<open>Completions\<close>

record cqe =
  cqe_data :: nat
  cqe_res :: int

text \<open>
  \<open>cq_get_ready\<close> gives a window on the entries that \<open>io_uring_peek_batch_cqe\<close> has put into the buffer; \<open>cq_commit\<close> copies
  out their tickets, at most as many as fit, and marks that many as seen.
\<close>

definition cq_get_ready :: "cqe list \<Rightarrow> nat \<Rightarrow> cqe list result" where
  "cq_get_ready cqebuf rdy = (if length cqebuf < rdy then Inl (Undefined ''subspan'') else Inr (take rdy cqebuf))"

fun cq_commit_loop :: "cqe list \<Rightarrow> nat \<Rightarrow> nat list" where
  "cq_commit_loop [] room = []"
| "cq_commit_loop (c # cs) 0 = []"
| "cq_commit_loop (c # cs) (Suc room) = cqe_data c # cq_commit_loop cs room"

definition cq_commit :: "cqe list \<Rightarrow> nat \<Rightarrow> nat list \<times> nat \<times> cqe list" where
  "cq_commit wnd room =
     (let ts = cq_commit_loop wnd room in (ts, length ts, drop (length ts) wnd))"

definition cq_commit_all :: "cqe list \<Rightarrow> nat" where
  "cq_commit_all wnd = length wnd"

section \<open>Facts\<close>

text \<open>The addresses a scatter list stands for, in order.\<close>

definition iovec_bytes :: "iovec list \<Rightarrow> u64 list" where
  "iovec_bytes t = concat (map (\<lambda>v. map (\<lambda>i. iov_base v + of_nat i) [0..<unat (iov_len v)]) t)"

lemma iovec_bytes_simps [simp]:
  "iovec_bytes [] = []" "iovec_bytes (t @ u) = iovec_bytes t @ iovec_bytes u"
  "iovec_bytes [v] = map (\<lambda>i. iov_base v + of_nat i) [0..<unat (iov_len v)]"
  by (simp_all add: iovec_bytes_def)

lemma iovec_merge_bytes:
  assumes "unat (iov_len v) + unat len < 2 ^ 64"
  shows "iovec_bytes [v\<lparr>iov_len := iov_len v + len\<rparr>] =
    iovec_bytes [v] @ map (\<lambda>i. iov_base v + iov_len v + of_nat i) [0..<unat len]"
proof -
  have n: "unat (iov_len v + len) = unat (iov_len v) + unat len" by (rule unat_add_small) (use assms in simp)
  have "[0..<unat (iov_len v) + unat len] = [0..<unat (iov_len v)] @ map (\<lambda>i. i + unat (iov_len v)) [0..<unat len]"
    using upt_add_eq_append [of 0 "unat (iov_len v)" "unat len"] map_add_upt [of "unat (iov_len v)" "unat len"]
    by (simp add: add.commute)
  then show ?thesis by (simp add: n)
qed

text \<open>
  Appending to a scatter list appends to the bytes it stands for, whether the new piece is merged into the last entry or
  becomes an entry of its own; and merging happens exactly when the piece starts where the last one ends.
\<close>

theorem iovec_append_appends:
  assumes "t \<noteq> [] \<longrightarrow> unat (iov_len (last t)) + unat len < 2 ^ 64"
  shows "iovec_bytes (iovec_append t base len) = iovec_bytes t @ map (\<lambda>i. base + of_nat i) [0..<unat len] \<and>
    length (iovec_append t base len) = (if t \<noteq> [] \<and> base = iov_base (last t) + iov_len (last t) then length t else length t + 1)"
proof (cases "t \<noteq> [] \<and> base = iov_base (last t) + iov_len (last t)")
  case True
  then obtain u v where t: "t = u @ [v]" by (cases t rule: rev_cases) auto
  have "unat (iov_len v) + unat len < 2 ^ 64" using assms by (simp add: t)
  then show ?thesis
    using True iovec_merge_bytes [of v len] by (simp add: iovec_append_def t del: iovec_bytes_simps(3))
qed (auto simp: iovec_append_def)

theorem iovec_append_appends_witness:
  "iovec_bytes (iovec_append [\<lparr>iov_base = 4096, iov_len = 2\<rparr>] 4098 1) = [4096, 4097, 4098]"
  using iovec_append_appends [of "[\<lparr>iov_base = 4096, iov_len = 2\<rparr>]" 1 4098] by (simp add: upt_rec)

lemma get_sqe_Inr:
  "get_sqe L e u = (Inr i, u') \<longleftrightarrow> \<not> lu_sq_full L (ur_sq u) \<and> i = length (ur_sq u) \<and> u' = u\<lparr>ur_sq := ur_sq u @ [e]\<rparr>"
  by (auto simp: get_sqe_def prog_simps)

lemma get_sqe_room:
  "\<not> lu_sq_full L (ur_sq u) \<Longrightarrow> get_sqe L e u = (Inr (length (ur_sq u)), u\<lparr>ur_sq := ur_sq u @ [e]\<rparr>)"
  by (simp add: get_sqe_def prog_simps)

lemmas queue_defs = queue_read_def queue_write_def queue_readv_def queue_writev_def queue_fallocate_def queue_fsync_def

lemma cq_commit_loop_take: "cq_commit_loop wnd room = map cqe_data (take room wnd)"
  by (induction wnd room rule: cq_commit_loop.induct) simp_all

lemma cq_commit_split:
  "cq_commit wnd room = (map cqe_data (take room wnd), min (length wnd) room, drop room wnd)"
  by (simp add: cq_commit_def cq_commit_loop_take Let_def drop_eq_Nil min_def)

definition sample_ring :: liburing where
  "sample_ring = \<lparr>lu_queue_init = (\<lambda>_ _. 0), lu_register_files = (\<lambda>_. 0), lu_register_buffers = (\<lambda>_. 0), lu_sq_full = (\<lambda>q. 2048 \<le> length q),
     lu_submit = (\<lambda>q. int (length q))\<rparr>"

end
