(* ===== verification/EncryptorAio.thy ===== *)
theory EncryptorAio
  imports EncryptorZero Uring
begin

text \<open>
  The encrypting functions that write through the asynchronous ring: one controller per worker (\<open>nvme_encryptor_aio.cpp\<close>) and
  several controllers, of several virtual machines, that share rings and an engine (\<open>nvme_encryptor_multi.cpp\<close>).
\<close>

section \<open>Controllers and tickets\<close>

text \<open>
  What a controller works on. Tickets carry the tag of their command and the memory they own, none for a flush; memory that has
  just been allocated holds arbitrary bytes.
\<close>

record mem_ticket = sq_ticket +
  mt_mem :: "u8 list"

record aio_env =
  ax_kernel :: nvme_kernel
  ax_engine :: tbc
  ax_uring :: liburing
  ax_garbage :: "nat \<Rightarrow> u8"

record aio_ctrl =
  ai_nvme :: nvme
  ai_vm :: mapping
  ai_ring :: uring
  ai_heap :: "nat \<Rightarrow> mem_ticket option"
  ai_fresh :: nat

type_synonym 'a aprog = "(aio_ctrl, 'a) prog"

definition on_ai_nvme :: "(nvme, 'a) prog \<Rightarrow> 'a aprog" where
  "on_ai_nvme = zoom ai_nvme (\<lambda>t s. s\<lparr>ai_nvme := t\<rparr>)"

definition on_ai_vm :: "(mapping, 'a) prog \<Rightarrow> 'a aprog" where
  "on_ai_vm = zoom ai_vm (\<lambda>t s. s\<lparr>ai_vm := t\<rparr>)"

definition on_ai_ring :: "(uring, 'a) prog \<Rightarrow> 'a aprog" where
  "on_ai_ring = zoom ai_ring (\<lambda>t s. s\<lparr>ai_ring := t\<rparr>)"

definition new_mem_ticket :: "aio_env \<Rightarrow> u32 \<Rightarrow> nat \<Rightarrow> nat aprog" where
  "new_mem_ticket E tag nbytes =
     sbind (sget ai_fresh) (\<lambda>i.
     sbind (smod (\<lambda>s. s\<lparr>ai_heap := (ai_heap s)(i \<mapsto> \<lparr>tk_tag = tag, mt_mem = map (ax_garbage E) [0..<nbytes]\<rparr>), ai_fresh := i + 1\<rparr>)) (\<lambda>_.
     return i))"

text \<open>Working on the memory of a ticket that has just been made.\<close>

definition on_ticket_mem :: "nat \<Rightarrow> (u8 list, 'a) prog \<Rightarrow> 'a aprog" where
  "on_ticket_mem t m =
     sbind (sget (\<lambda>s. ai_heap s t)) (\<lambda>k.
       case k of
         None \<Rightarrow> raise (Undefined ''use after free'')
       | Some k \<Rightarrow>
           zoom (\<lambda>s. mt_mem k) (\<lambda>v s. s\<lparr>ai_heap := (ai_heap s)(t \<mapsto> k\<lparr>mt_mem := v\<rparr>)\<rparr>) m)"

section \<open>One controller per worker\<close>

definition nvme_encryptor_aio_make :: "aio_env \<Rightarrow> mapping \<Rightarrow> int \<Rightarrow> aio_ctrl result" where
  "nvme_encryptor_aio_make E vm bfd =
     rbind (uring_make (ax_uring E) 2048 0 [bfd] []) (\<lambda>ring.
       Inr \<lparr>ai_nvme = nvme_init, ai_vm = vm, ai_ring = ring, ai_heap = (\<lambda>_. None), ai_fresh = 0\<rparr>)"

definition aio_receive_read :: "aio_env \<Rightarrow> nvme_command \<Rightarrow> u16 aprog" where
  "aio_receive_read E cmd =
     sbind (on_ai_nvme (lba_iter_init (ax_kernel E) cmd)) (\<lambda>lit.
     sbind (on_ai_vm (decrypt_blocks (ax_engine E) (lba_fuel lit) lit)) (\<lambda>ok.
     return (if \<not> ok then NVME_SC_DNR OR NVME_SC_INTERNAL else NVME_SC_SUCCESS)))"

definition aio_submit_write :: "aio_env \<Rightarrow> nvme_command \<Rightarrow> u32 \<Rightarrow> unit aprog" where
  "aio_submit_write E cmd tag =
     sbind (on_ai_nvme (lba_iter_init (ax_kernel E) cmd)) (\<lambda>lit.
     sbind (new_mem_ticket E tag (unat (li_nbytes lit))) (\<lambda>t.
     sbind (sget ai_vm) (\<lambda>m.
     sbind (on_ticket_mem t (encrypt_blocks (ax_engine E) m (lba_fuel lit) lit)) (\<lambda>ok.
       if \<not> ok then raise (Runtime_error ''cannot encrypt'')
       else sbind (on_ai_ring (queue_write (ax_uring E) t (Ticket_mem t) (ucast (li_nbytes lit)) (-1) True 0
              (push_bit (li_lba_shift lit) (li_slba lit)))) (\<lambda>_. return ())))))"

fun aio_zero_blocks :: "tbc \<Rightarrow> nat \<Rightarrow> nat \<Rightarrow> nat \<Rightarrow> (u8 list, unit) prog" where
  "aio_zero_blocks e lbas cli 0 = return ()"
| "aio_zero_blocks e lbas cli (Suc n) =
     sbind (\<lambda>buf. (subspan buf cli (2 ^ lbas), buf)) (\<lambda>ciphert.
       case tbc_encrypt e ciphert ciphert (of_nat cli) of
         (ok, out) \<Rightarrow>
           sbind (smod (put_at cli out)) (\<lambda>_.
             if \<not> ok then raise (Runtime_error ''cannot encrypt'') else aio_zero_blocks e lbas (cli + 1) n))"

definition aio_submit_write_zeroes :: "aio_env \<Rightarrow> nvme_command \<Rightarrow> u32 \<Rightarrow> unit aprog" where
  "aio_submit_write_zeroes E cmd tag =
     sbind (on_ai_nvme (ns_lba_shift (ax_kernel E) (nsid cmd))) (\<lambda>lbas.
       if 31 \<le> lbas then raise (Undefined ''shift'')
       else let nbytes = push_bit lbas (cmd_nblocks cmd)
            in sbind (new_mem_ticket E tag (unat nbytes)) (\<lambda>t.
               sbind (on_ticket_mem t (smod (\<lambda>buf. replicate (length buf) 0))) (\<lambda>_.
               sbind (on_ticket_mem t (aio_zero_blocks (ax_engine E) lbas 0 (unat (cmd_nblocks cmd)))) (\<lambda>_.
               sbind (on_ai_ring (queue_write (ax_uring E) t (Ticket_mem t) (ucast nbytes) (-1) True 0
                   (push_bit lbas (rw_slba cmd)))) (\<lambda>_. return ())))))"

definition aio_submit_flush :: "aio_env \<Rightarrow> u32 \<Rightarrow> unit aprog" where
  "aio_submit_flush E tag =
     sbind (new_mem_ticket E tag 0) (\<lambda>t.
     sbind (on_ai_ring (queue_fsync (ax_uring E) t True 0 IORING_FSYNC_DATASYNC)) (\<lambda>_. return ()))"

definition aio_submit_async :: "aio_env \<Rightarrow> nvme_command \<Rightarrow> u32 \<Rightarrow> u16 option aprog" where
  "aio_submit_async E cmd tag =
     (if opcode cmd = nvme_cmd_read then sbind (aio_receive_read E cmd) (\<lambda>st. return (Some st))
      else if opcode cmd = nvme_cmd_write \<and> flags cmd AND NVME_CMD_SGL_ALL = 0
      then sbind (aio_submit_write E cmd tag) (\<lambda>_. return None)
      else if opcode cmd = nvme_cmd_write_zeroes then sbind (aio_submit_write_zeroes E cmd tag) (\<lambda>_. return None)
      else if opcode cmd = nvme_cmd_flush then sbind (aio_submit_flush E tag) (\<lambda>_. return None)
      else return (Some (NVME_SC_DNR OR NVME_SC_INVALID_OPCODE)))"

section \<open>Controllers that share a ring\<close>

text \<open>The ring, the tickets in flight and the engine belong to the worker.\<close>

definition nvme_encryptor_multi_make :: "mapping \<Rightarrow> uring \<Rightarrow> (nat \<Rightarrow> mem_ticket option) \<Rightarrow> nat \<Rightarrow> aio_ctrl" where
  "nvme_encryptor_multi_make vm ring heap fresh = \<lparr>ai_nvme = nvme_init, ai_vm = vm, ai_ring = ring, ai_heap = heap, ai_fresh = fresh\<rparr>"

definition multi_receive_read :: "aio_env \<Rightarrow> nvme_command \<Rightarrow> u16 aprog" where
  "multi_receive_read E cmd =
     sbind (on_ai_nvme (lba_iter_init (ax_kernel E) cmd)) (\<lambda>lit.
     sbind (on_ai_vm (decrypt_blocks (ax_engine E) (lba_fuel lit) lit)) (\<lambda>ok.
     return (if \<not> ok then NVME_SC_DNR OR NVME_SC_INTERNAL else NVME_SC_SUCCESS)))"

definition multi_submit_write :: "aio_env \<Rightarrow> nvme_command \<Rightarrow> u32 \<Rightarrow> unit aprog" where
  "multi_submit_write E cmd tag =
     sbind (on_ai_nvme (lba_iter_init (ax_kernel E) cmd)) (\<lambda>lit.
     sbind (new_mem_ticket E tag (unat (li_nbytes lit))) (\<lambda>t.
     sbind (sget ai_vm) (\<lambda>m.
     sbind (on_ticket_mem t (encrypt_blocks (ax_engine E) m (lba_fuel lit) lit)) (\<lambda>ok.
       if \<not> ok then raise (Runtime_error ''cannot encrypt'')
       else sbind (on_ai_ring (queue_write (ax_uring E) t (Ticket_mem t) (ucast (li_nbytes lit)) (-1) True 0
              (push_bit (li_lba_shift lit) (li_slba lit)))) (\<lambda>_. return ())))))"

fun multi_zero_blocks :: "tbc \<Rightarrow> nat \<Rightarrow> nat \<Rightarrow> nat \<Rightarrow> (u8 list, unit) prog" where
  "multi_zero_blocks e lbas cli 0 = return ()"
| "multi_zero_blocks e lbas cli (Suc n) =
     sbind (\<lambda>buf. (subspan buf cli (2 ^ lbas), buf)) (\<lambda>ciphert.
       case tbc_encrypt e ciphert ciphert (of_nat cli) of
         (ok, out) \<Rightarrow>
           sbind (smod (put_at cli out)) (\<lambda>_.
             if \<not> ok then raise (Runtime_error ''cannot encrypt'') else multi_zero_blocks e lbas (cli + 1) n))"

definition multi_submit_write_zeroes :: "aio_env \<Rightarrow> nvme_command \<Rightarrow> u32 \<Rightarrow> unit aprog" where
  "multi_submit_write_zeroes E cmd tag =
     sbind (on_ai_nvme (ns_lba_shift (ax_kernel E) (nsid cmd))) (\<lambda>lbas.
       if 31 \<le> lbas then raise (Undefined ''shift'')
       else let nbytes = push_bit lbas (cmd_nblocks cmd)
            in sbind (new_mem_ticket E tag (unat nbytes)) (\<lambda>t.
               sbind (on_ticket_mem t (smod (\<lambda>buf. replicate (length buf) 0))) (\<lambda>_.
               sbind (on_ticket_mem t (multi_zero_blocks (ax_engine E) lbas 0 (unat (cmd_nblocks cmd)))) (\<lambda>_.
               sbind (on_ai_ring (queue_write (ax_uring E) t (Ticket_mem t) (ucast nbytes) (-1) True 0
                   (push_bit lbas (rw_slba cmd)))) (\<lambda>_. return ())))))"

definition multi_submit_flush :: "aio_env \<Rightarrow> u32 \<Rightarrow> unit aprog" where
  "multi_submit_flush E tag =
     sbind (new_mem_ticket E tag 0) (\<lambda>t.
     sbind (on_ai_ring (queue_fsync (ax_uring E) t True 0 IORING_FSYNC_DATASYNC)) (\<lambda>_. return ()))"

definition multi_submit_async :: "aio_env \<Rightarrow> nvme_command \<Rightarrow> u32 \<Rightarrow> u16 option aprog" where
  "multi_submit_async E cmd tag =
     (if opcode cmd = nvme_cmd_read then sbind (multi_receive_read E cmd) (\<lambda>st. return (Some st))
      else if opcode cmd = nvme_cmd_write \<and> flags cmd AND NVME_CMD_SGL_ALL = 0
      then sbind (multi_submit_write E cmd tag) (\<lambda>_. return None)
      else if opcode cmd = nvme_cmd_write_zeroes then sbind (multi_submit_write_zeroes E cmd tag) (\<lambda>_. return None)
      else if opcode cmd = nvme_cmd_flush then sbind (multi_submit_flush E tag) (\<lambda>_. return None)
      else return (Some (NVME_SC_DNR OR NVME_SC_INVALID_OPCODE)))"

section \<open>Properties\<close>

lemma multi_zero_blocks_eq: "multi_zero_blocks e lbas cli n = aio_zero_blocks e lbas cli n"
  by (induction n arbitrary: cli) (simp_all cong: if_cong)

lemma multi_is_aio: "multi_submit_async E cmd tag = aio_submit_async E cmd tag"
  unfolding multi_submit_async_def aio_submit_async_def multi_receive_read_def aio_receive_read_def multi_submit_write_def aio_submit_write_def
    multi_submit_write_zeroes_def aio_submit_write_zeroes_def multi_zero_blocks_eq multi_submit_flush_def aio_submit_flush_def
  by (rule refl)

text \<open>What a submitted write leaves: one more request in the queue, and its ticket with the enciphered blocks.\<close>

lemma aio_write_run:
  assumes vis: "visits (ax_kernel E) (ai_nvme s) (ai_vm s) w it bs" and ca: "nvme_caches (ax_kernel E) (ai_nvme s)"
    and eng: "block_engine (ax_engine E) (2 ^ sh) C D" and sh: "li_lba_shift it = sh" "sh < 31"
    and room: "\<not> lu_sq_full (ax_uring E) (ur_sq (ai_ring s))"
  shows "\<exists>s'. aio_submit_write E w tag s = (Inr (), s') \<and> ai_vm s' = ai_vm s \<and>
    ur_sq (ai_ring s') = ur_sq (ai_ring s) @ [mk_sqe (Write_op (Ticket_mem (ai_fresh s)) (ucast (li_nbytes it)) (-1) (push_bit sh (rw_slba w))) 0 True (ai_fresh s)] \<and>
    ai_heap s' = (ai_heap s)(ai_fresh s \<mapsto> \<lparr>tk_tag = tag, mt_mem = cipher_of C (ai_vm s) bs\<rparr>)"
proof -
  let ?m = "ai_vm s" and ?n = "unat (li_nbytes it)" and ?t = "ai_fresh s"
  obtain nv where nv: "lba_iter_init (ax_kernel E) w (ai_nvme s) = (Inr it, nv)" using vis by (metis visits_def prod.collapse)
  note v = visits_facts [OF vis ca]
  have walk: "lba_walk (lba_fuel it) ?m it = Some (Inr bs)" and n: "?n = length bs * 2 ^ sh"
    using vis sh by (simp_all add: visits_def)
  have enc: "encrypt_blocks (ax_engine E) ?m (lba_fuel it) it (map (ax_garbage E) [0..<?n]) = (Inr True, cipher_of C ?m bs)"
    using encrypt_blocks_walk [OF eng sh(2) walk sh(1), of "map (ax_garbage E) [0..<?n]"] n v(1) unat_bound [of "li_nbytes it"] by simp
  show ?thesis
    using enc v(2) sh(1) room
    by (simp add: aio_submit_write_def on_ai_nvme_def new_mem_ticket_def on_ticket_mem_def on_ai_ring_def queue_write_def get_sqe_def prog_simps nv fun_upd_def)
      (simp add: fun_eq_iff)
qed

text \<open>
  C20. The asynchronous functions store what the synchronous one stores: for a write that its block loop can visit, submitting it
  queues one request, whose buffer, written to the device at the request's offset, gives the same device contents
  that the synchronous function leaves; the answer is left to the completion, guest memory is not touched, and the function that
  serves several virtual machines does the same.
\<close>

theorem async_write_matches_sync:
  assumes eng: "block_engine (ax_engine E) (2 ^ sh) C D" and ca: "nvme_caches (ax_kernel E) (ai_nvme a)"
    and w: "opcode w = nvme_cmd_write" "flags w AND NVME_CMD_SGL_ALL = 0"
    and vis: "visits (ax_kernel E) (ai_nvme a) (ai_vm a) w it bs" "li_lba_shift it = sh" "sh < 31"
    and fits: "(unat (rw_slba w) + unat (rw_length w) + 1) * 2 ^ sh \<le> 2 ^ 64"
    and room: "\<not> lu_sq_full (ax_uring E) (ur_sq (ai_ring a))"
    and sync: "ee_kernel F = ax_kernel E" "ee_engine F = ax_engine E" "pw_progress (ee_pwrite F)" "en_nvme s = ai_nvme a" "en_vm s = ai_vm a"
  shows "\<exists>a' t off buf s'. aio_submit_async E w tag a = (Inr None, a') \<and> multi_submit_async E w tag a = (Inr None, a') \<and> ai_vm a' = ai_vm a \<and>
    ur_sq (ai_ring a') = ur_sq (ai_ring a) @ [mk_sqe (Write_op (Ticket_mem t) (ucast (li_nbytes it)) (-1) off) 0 True t] \<and>
    ai_heap a' = (ai_heap a)(t \<mapsto> \<lparr>tk_tag = tag, mt_mem = buf\<rparr>) \<and>
    receive F w s = (Inr NVME_SC_SUCCESS, s') \<and> en_dev s' = dev_put (unat off) buf (en_dev s)"
proof -
  obtain a' where a': "aio_submit_write E w tag a = (Inr (), a')" "ai_vm a' = ai_vm a"
    "ur_sq (ai_ring a') = ur_sq (ai_ring a) @ [mk_sqe (Write_op (Ticket_mem (ai_fresh a)) (ucast (li_nbytes it)) (-1) (push_bit sh (rw_slba w))) 0 True (ai_fresh a)]"
    "ai_heap a' = (ai_heap a)(ai_fresh a \<mapsto> \<lparr>tk_tag = tag, mt_mem = cipher_of C (ai_vm a) bs\<rparr>)"
    using aio_write_run [OF vis(1) ca eng vis(2,3) room] by blast
  have sub: "aio_submit_async E w tag a = (Inr None, a')" using w a'(1) by (simp add: aio_submit_async_def prog_simps)
  obtain s' where s': "receive F w s = (Inr NVME_SC_SUCCESS, s')"
    "en_dev s' = dev_put (unat (rw_slba w) * 2 ^ sh) (cipher_of C (en_vm s) bs) (en_dev s)"
    using receive_write_stores [of F sh C D s w it bs] eng ca w vis fits sync by auto
  have "unat (push_bit sh (rw_slba w)) = unat (rw_slba w) * 2 ^ sh" by (rule unat_base [OF fits [unfolded add.assoc]]) simp
  then have "en_dev s' = dev_put (unat (push_bit sh (rw_slba w))) (cipher_of C (ai_vm a) bs) (en_dev s)" using s'(2) sync(5) by simp
  then show ?thesis using sub multi_is_aio [of E w tag] a'(2-4) s'(1) by metis
qed

definition sample_aio :: aio_env where
  "sample_aio = \<lparr>ax_kernel = sample_kernel, ax_engine = ee_engine sample_enc, ax_uring = sample_ring, ax_garbage = (\<lambda>_. 0xcc)\<rparr>"

definition sample_aio_ctrl :: aio_ctrl where
  "sample_aio_ctrl = \<lparr>ai_nvme = nvme_init, ai_vm = sample_mem, ai_ring = \<lparr>ur_fixed = [5], ur_bufs = [], ur_sq = [], ur_sent = []\<rparr>,
     ai_heap = (\<lambda>_. None), ai_fresh = 0\<rparr>"

lemma sample_aio_simps [simp]: "ax_kernel sample_aio = ee_kernel sample_enc" "ax_engine sample_aio = ee_engine sample_enc"
  "en_nvme sample_ctrl = ai_nvme sample_aio_ctrl" "en_vm sample_ctrl = ai_vm sample_aio_ctrl" "\<not> lu_sq_full (ax_uring sample_aio) (ur_sq (ai_ring sample_aio_ctrl))"
  by (simp_all add: sample_aio_def sample_enc_def sample_ctrl_def nvme_encryptor_make_def sample_aio_ctrl_def sample_ring_def)

theorem async_write_matches_sync_witness:
  "\<exists>a' t off buf s'. aio_submit_async sample_aio sample_write 7 sample_aio_ctrl = (Inr None, a') \<and>
     ur_sq (ai_ring a') = [mk_sqe (Write_op (Ticket_mem t) 1024 (-1) off) 0 True t] \<and> ai_heap a' t = Some \<lparr>tk_tag = 7, mt_mem = buf\<rparr> \<and>
     receive sample_enc sample_write sample_ctrl = (Inr NVME_SC_SUCCESS, s') \<and> en_dev s' = dev_put (unat off) buf (en_dev sample_ctrl)"
proof -
  have fits: "(unat (rw_slba sample_write) + unat (rw_length sample_write) + 1) * 2 ^ 9 \<le> 2 ^ 64" by (simp add: sample_cmd)
  have nine: "(9 :: nat) < 31" by simp
  have n: "li_nbytes (sample_iter 0x1000) = 1024" "ur_sq (ai_ring sample_aio_ctrl) = []" by (simp_all add: sample_iter_def sample_aio_ctrl_def)
  obtain a' t off buf s' where
    "aio_submit_async sample_aio sample_write 7 sample_aio_ctrl = (Inr None, a')"
    "ur_sq (ai_ring a') = ur_sq (ai_ring sample_aio_ctrl) @ [mk_sqe (Write_op (Ticket_mem t) (ucast (li_nbytes (sample_iter 0x1000))) (-1) off) 0 True t]"
    "ai_heap a' = (ai_heap sample_aio_ctrl)(t \<mapsto> \<lparr>tk_tag = 7, mt_mem = buf\<rparr>)"
    "receive sample_enc sample_write sample_ctrl = (Inr NVME_SC_SUCCESS, s')" "en_dev s' = dev_put (unat off) buf (en_dev sample_ctrl)"
    using async_write_matches_sync [where E = sample_aio and a = sample_aio_ctrl and F = sample_enc and s = sample_ctrl and tag = 7,
        unfolded sample_aio_simps(1,2), OF sample_engine sample_env(2) [unfolded sample_aio_simps(3)] sample_cmd(4,5)
          sample_write_visits [unfolded sample_aio_simps(3,4)] sample_env(3) nine fits sample_aio_simps(5) refl refl sample_env(1) sample_aio_simps(3,4)]
    by blast
  then show ?thesis unfolding n by (intro exI [of _ a'] exI [of _ t] exI [of _ off] exI [of _ buf] exI [of _ s']) simp
qed

text \<open>
  The asynchronous write-zeroes does not store zeroes: for a command of one block, at whatever place, the stored block is enciphered
  under the number 0, the block's position in the command, while a read deciphers it under its number on the disk.
\<close>

theorem async_write_zeroes_wrong_number:
  assumes eng: "block_engine (ax_engine E) (2 ^ sh) C D" and sh: "sh < 31"
    and ns: "ns_lba_shift (ax_kernel E) (nsid cmd) (ai_nvme a) = (Inr sh, nv)" and op: "opcode cmd = nvme_cmd_write_zeroes" "rw_length cmd = 0"
    and room: "\<not> lu_sq_full (ax_uring E) (ur_sq (ai_ring a))"
  shows "\<exists>a' t. aio_submit_async E cmd tag a = (Inr None, a') \<and>
    ur_sq (ai_ring a') = ur_sq (ai_ring a) @ [mk_sqe (Write_op (Ticket_mem t) (2 ^ sh) (-1) (push_bit sh (rw_slba cmd))) 0 True t] \<and>
    ai_heap a' = (ai_heap a)(t \<mapsto> \<lparr>tk_tag = tag, mt_mem = C (replicate (2 ^ sh) 0) 0\<rparr>)"
proof -
  let ?z = "replicate (2 ^ sh) 0 :: u8 list"
  note C = block_engineD [OF eng, of ?z]
  have n: "unat (cmd_nblocks cmd) = 1" "push_bit sh (cmd_nblocks cmd) = 2 ^ sh" using op(2) by (simp_all add: cmd_nblocks_def)
  have "(ucast (2 ^ sh :: u64) :: u32) = 2 ^ sh" by (rule bit_word_eqI) (auto simp: bit_simps)
  then have u: "unat (2 ^ sh :: u64) = 2 ^ sh" "(ucast (2 ^ sh :: u64) :: u32) = 2 ^ sh" using sh by simp_all
  have enc: "aio_zero_blocks (ax_engine E) sh 0 (Suc 0) ?z = (Inr (), C ?z 0)"
    using C(1,4) by (simp add: prog_simps subspan_def put_at_def)
  have "aio_submit_write_zeroes E cmd tag a = (Inr (),
      a\<lparr>ai_nvme := nv, ai_heap := (ai_heap a)(ai_fresh a \<mapsto> \<lparr>tk_tag = tag, mt_mem = C ?z 0\<rparr>), ai_fresh := ai_fresh a + 1,
        ai_ring := (ai_ring a)\<lparr>ur_sq := ur_sq (ai_ring a) @ [mk_sqe (Write_op (Ticket_mem (ai_fresh a)) (2 ^ sh) (-1) (push_bit sh (rw_slba cmd))) 0 True (ai_fresh a)]\<rparr>\<rparr>)"
    using ns sh room enc n u
    by (simp add: aio_submit_write_zeroes_def on_ai_nvme_def new_mem_ticket_def on_ticket_mem_def on_ai_ring_def queue_write_def get_sqe_def
        prog_simps Let_def map_replicate_const fun_upd_def) (simp add: fun_eq_iff)
  then show ?thesis using op(1)
    by (intro exI [of _ "a\<lparr>ai_nvme := nv, ai_heap := (ai_heap a)(ai_fresh a \<mapsto> \<lparr>tk_tag = tag, mt_mem = C ?z 0\<rparr>), ai_fresh := ai_fresh a + 1,
        ai_ring := (ai_ring a)\<lparr>ur_sq := ur_sq (ai_ring a) @ [mk_sqe (Write_op (Ticket_mem (ai_fresh a)) (2 ^ sh) (-1) (push_bit sh (rw_slba cmd))) 0 True (ai_fresh a)]\<rparr>\<rparr>"] exI [of _ "ai_fresh a"])
      (simp add: aio_submit_async_def prog_simps nvme_opcode_defs)
qed

lemma sample_mix_numbers: "sample_mix sample_key (sample_mix sample_key [0] (xts_tweak 0)) (xts_tweak 100) = [100]"
proof -
  define k where "k = fold (XOR) sample_key (0 :: u8)"
  have z: "((XOR) (0 :: u8) ^^ n) x = x" for n x by (induction n) simp_all
  have "xts_tweak 100 = [100, 0, 0, 0, 0, 0, 0, 0] @ replicate 8 0" "xts_tweak 0 = [0, 0, 0, 0, 0, 0, 0, 0] @ replicate 8 0"
    unfolding xts_tweak_def by (simp_all add: upt_rec)
  then have "fold (XOR) (xts_tweak 100) k = 100 XOR k" "fold (XOR) (xts_tweak 0) k = k" by (simp_all add: z)
  moreover have "k XOR (100 XOR k) = 100" by (rule bit_word_eqI) (auto simp: bit_simps)
  ultimately show ?thesis by (simp add: sample_mix_def k_def [symmetric] fold_append)
qed

theorem async_write_zeroes_wrong_number_witness:
  "\<exists>a' t buf. aio_submit_async sample_aio (sample_zero\<lparr>cdw12 := 0\<rparr>) 7 sample_aio_ctrl = (Inr None, a') \<and>
     ur_sq (ai_ring a') = [mk_sqe (Write_op (Ticket_mem t) 512 (-1) 51200) 0 True t] \<and> ai_heap a' t = Some \<lparr>tk_tag = 7, mt_mem = buf\<rparr> \<and>
     sample_mix sample_key buf (xts_tweak 100) \<noteq> replicate 512 0"
proof -
  let ?cmd = "sample_zero\<lparr>cdw12 := 0\<rparr>"
  have "\<exists>nv. ns_lba_shift (ax_kernel sample_aio) (nsid ?cmd) (ai_nvme sample_aio_ctrl) = (Inr 9, nv)"
    by (simp add: sample_zero_def sample_enc_def sample_aio_ctrl_def init_eval)
  moreover have "opcode ?cmd = nvme_cmd_write_zeroes" "rw_length ?cmd = 0" "rw_slba ?cmd = 100"
    by (simp_all add: sample_zero_def sample_rw_def rw_length_def rw_slba_def)
  ultimately obtain a' t where r: "aio_submit_async sample_aio ?cmd 7 sample_aio_ctrl = (Inr None, a')"
    "ur_sq (ai_ring a') = [mk_sqe (Write_op (Ticket_mem t) 512 (-1) 51200) 0 True t]"
    "ai_heap a' t = Some \<lparr>tk_tag = 7, mt_mem = sample_mix sample_key (replicate 512 0) (xts_tweak 0)\<rparr>"
    using async_write_zeroes_wrong_number [of sample_aio 9 _ _ ?cmd sample_aio_ctrl _ 7] sample_engine
    by (force simp: sample_aio_ctrl_def sample_aio_def sample_ring_def)
  have "sample_mix sample_key (sample_mix sample_key (replicate 512 0) (xts_tweak 0)) (xts_tweak 100) ! 0 \<noteq> replicate 512 0 ! 0"
    using sample_mix_numbers by (simp add: sample_mix_def)
  then show ?thesis using r by metis
qed

end
