(* ===== verification/SgxEncryptor.thy ===== *)
theory SgxEncryptor
  imports EnclaveProps EncryptorAio
begin

text \<open>
  The untrusted side of the enclave (\<open>sgx/enclave.cpp\<close>, \<open>sgx/prp_en.hpp\<close>) and the two encrypting functions that use it, with their
  own writes (\<open>nvme_encryptor_sgx.cpp\<close>) and through the asynchronous ring (\<open>nvme_encryptor_sgx_aio.cpp\<close>).
\<close>

section \<open>Handles of enclaves\<close>

text \<open>
  Creation gives a status, 0 for success, and the identifier of the enclave; 0 is the handle that owns none. The list holds the
  enclaves that have been destroyed.
\<close>

definition sgx_enclave_make :: "int \<times> u64 \<Rightarrow> u64 result" where
  "sgx_enclave_make created = (if fst created \<noteq> 0 then Inl (System_error ''cannot create enclave'') else Inr (snd created))"

definition sgx_enclave_dispose :: "u64 \<Rightarrow> u64 list \<Rightarrow> u64 \<times> u64 list" where
  "sgx_enclave_dispose eid destroyed = (if eid \<noteq> 0 then (0, destroyed @ [eid]) else (eid, destroyed))"

definition sgx_enclave_move_ctor :: "u64 \<Rightarrow> u64 \<times> u64" where
  "sgx_enclave_move_ctor other = (other, 0)"

text \<open>The assignment does not look whether both are the same object.\<close>

definition sgx_enclave_move_assign :: "bool \<Rightarrow> u64 \<Rightarrow> u64 \<Rightarrow> u64 list \<Rightarrow> u64 \<times> u64 \<times> u64 list" where
  "sgx_enclave_move_assign same this other destroyed =
     (case sgx_enclave_dispose this destroyed of
        (this', destroyed') \<Rightarrow> if same then (this', this', destroyed') else (other, this', destroyed'))"

section \<open>Calls into the enclave\<close>

text \<open>
  A call that the run-time does not let in fails; a call that does not return to its caller inside takes the enclave down. Both
  are exceptions on this side.
\<close>

definition invoke :: "bool \<Rightarrow> ('s \<Rightarrow> enclave) \<Rightarrow> (enclave \<Rightarrow> 's \<Rightarrow> 's) \<Rightarrow> (enclave \<Rightarrow> ('s, int) prog) \<Rightarrow> ('s, int) prog" where
  "invoke enter get put call = (\<lambda>s.
     if \<not> enter \<or> ec_lost (get s) then (Inl (System_error ''sgx call failed''), s)
     else case call (get s) s of
            (Inr v, s') \<Rightarrow> (Inr v, s')
          | (Inl (Undefined u), s') \<Rightarrow> (Inl (Undefined u), s')
          | (Inl e, s') \<Rightarrow> (Inl (System_error ''sgx call failed''), put ((get s')\<lparr>ec_lost := True\<rparr>) s'))"

definition prp_en_make :: "bool \<Rightarrow> int \<times> u64 \<Rightarrow> sgx \<Rightarrow> u8 list \<Rightarrow> int \<Rightarrow> enclave result" where
  "prp_en_make enter created G key sh =
     rbind (sgx_enclave_make created) (\<lambda>eid.
       case invoke enter (\<lambda>e. e) (\<lambda>e _. e) (\<lambda>_. put_key G key sh) enclave_init of
         (Inl x, e) \<Rightarrow> Inl x
       | (Inr r, e) \<Rightarrow> if r < 0 then Inl (Runtime_error ''sgx put_key failed'') else Inr e)"

section \<open>The function with its own writes\<close>

record sgx_env =
  gx_kernel :: nvme_kernel
  gx_sgx :: sgx
  gx_enter :: bool
  gx_pwrite :: "u64 \<Rightarrow> nat \<Rightarrow> int"
  gx_heap :: u64

record sgx_ctrl =
  sc_nvme :: nvme
  sc_vm :: mapping
  sc_enclave :: enclave
  sc_dev :: "nat \<Rightarrow> u8"
  sc_zerobuf :: "u8 list"
  sc_encbuf :: "u8 list"

type_synonym 'a gprog = "(sgx_ctrl, 'a) prog"

definition nvme_encryptor_sgx_make :: "sgx_env \<Rightarrow> int \<times> u64 \<Rightarrow> mapping \<Rightarrow> (nat \<Rightarrow> u8) \<Rightarrow> u8 list \<Rightarrow> int \<Rightarrow> sgx_ctrl result" where
  "nvme_encryptor_sgx_make E created vm dev key sh =
     rbind (prp_en_make (gx_enter E) created (gx_sgx E) key sh) (\<lambda>e.
       Inr \<lparr>sc_nvme = nvme_init, sc_vm = vm, sc_enclave = e, sc_dev = dev, sc_zerobuf = [], sc_encbuf = []\<rparr>)"

definition on_sc_nvme :: "(nvme, 'a) prog \<Rightarrow> 'a gprog" where
  "on_sc_nvme = zoom sc_nvme (\<lambda>t s. s\<lparr>sc_nvme := t\<rparr>)"

definition sc_invoke :: "sgx_env \<Rightarrow> (enclave \<Rightarrow> int gprog) \<Rightarrow> int gprog" where
  "sc_invoke E = invoke (gx_enter E) sc_enclave (\<lambda>e s. s\<lparr>sc_enclave := e\<rparr>)"

text \<open>The first \<open>n\<close> bytes of the buffer, as the entry points get them.\<close>

definition on_sc_encbuf :: "nat \<Rightarrow> (u8 list, 'a) prog \<Rightarrow> 'a gprog" where
  "on_sc_encbuf n = zoom (\<lambda>s. take n (sc_encbuf s)) (\<lambda>v s. s\<lparr>sc_encbuf := put_at 0 v (sc_encbuf s)\<rparr>)"

definition pe_crypt_command_inplace :: "sgx_env \<Rightarrow> nvme_command \<Rightarrow> bool \<Rightarrow> int gprog" where
  "pe_crypt_command_inplace E cmd decrypt =
     sc_invoke E (\<lambda>e. zoom sc_vm (\<lambda>m s. s\<lparr>sc_vm := m\<rparr>) (crypt_command_inplace (gx_sgx E) e cmd decrypt))"

definition pe_crypt_command :: "sgx_env \<Rightarrow> nvme_command \<Rightarrow> nat \<Rightarrow> bool \<Rightarrow> int gprog" where
  "pe_crypt_command E cmd outbuf_size decrypt =
     sc_invoke E (\<lambda>e. sbind (sget sc_vm) (\<lambda>m.
       on_sc_encbuf outbuf_size (crypt_command (gx_sgx E) e m cmd (gx_heap E) decrypt)))"

definition pe_crypt_buffer_inplace :: "sgx_env \<Rightarrow> u64 \<Rightarrow> nat \<Rightarrow> u64 \<Rightarrow> bool \<Rightarrow> int gprog" where
  "pe_crypt_buffer_inplace E slba room nr_blocks decrypt =
     sc_invoke E (\<lambda>e. on_sc_encbuf room (crypt_buffer_inplace (gx_sgx E) e slba (gx_heap E) nr_blocks decrypt))"

definition sgx_receive_read :: "sgx_env \<Rightarrow> nvme_command \<Rightarrow> u16 gprog" where
  "sgx_receive_read E cmd =
     sbind (on_sc_nvme (lba_iter_init (gx_kernel E) cmd)) (\<lambda>lit.
     sbind (pe_crypt_command_inplace E cmd True) (\<lambda>ret.
       if ret \<noteq> sint (li_nbytes lit) then raise (Runtime_error ''unexpected length'') else return NVME_SC_SUCCESS))"

definition sc_grow_encbuf :: "nat \<Rightarrow> unit gprog" where
  "sc_grow_encbuf n = smod (\<lambda>s. if length (sc_encbuf s) < n then s\<lparr>sc_encbuf := vec_resize n (sc_encbuf s)\<rparr> else s)"

definition sc_pwrite :: "sgx_env \<Rightarrow> u64 \<Rightarrow> u8 list \<Rightarrow> pw_end gprog" where
  "sc_pwrite E base buf = (\<lambda>s.
     case pwrite_loop (gx_pwrite E) base buf (length buf) (sc_dev s) of (r, d) \<Rightarrow> (r, s\<lparr>sc_dev := d\<rparr>))"

definition sgx_receive_write_copyback :: "sgx_env \<Rightarrow> nvme_command \<Rightarrow> u16 gprog" where
  "sgx_receive_write_copyback E cmd =
     sbind (on_sc_nvme (lba_iter_init (gx_kernel E) cmd)) (\<lambda>lit.
     let nbytes = unat (li_nbytes lit)
     in sbind (sc_grow_encbuf nbytes) (\<lambda>_.
        sbind (pe_crypt_command E cmd nbytes False) (\<lambda>ret.
          if ret \<noteq> sint (li_nbytes lit) then raise (Runtime_error ''unexpected length'')
          else sbind (sget (\<lambda>s. take nbytes (sc_encbuf s))) (\<lambda>encbuf.
               sbind (sc_pwrite E (push_bit (li_lba_shift lit) (li_slba lit)) encbuf) (\<lambda>_.
               return NVME_SC_SUCCESS)))))"

definition sgx_wz_nblocks :: nat where "sgx_wz_nblocks = 512"

fun sgx_write_zeroes_loop :: "sgx_env \<Rightarrow> nat \<Rightarrow> u64 \<Rightarrow> nat \<Rightarrow> nat \<Rightarrow> nat \<Rightarrow> u16 gprog" where
  "sgx_write_zeroes_loop E lbas slba nblocks cli 0 =
     (if cli < nblocks then raise (Undefined ''loop without progress'') else return NVME_SC_SUCCESS)"
| "sgx_write_zeroes_loop E lbas slba nblocks cli (Suc n) =
     (if \<not> cli < nblocks then return NVME_SC_SUCCESS
      else let this_nblocks = min (nblocks - cli) sgx_wz_nblocks
           in sbind (pe_crypt_buffer_inplace E (slba + of_nat cli) (sgx_wz_nblocks * 2 ^ lbas) (of_nat this_nblocks) False) (\<lambda>ret.
                if ret \<noteq> int (this_nblocks * 2 ^ lbas) then raise (Runtime_error ''unexpected length'')
                else sbind (sget (\<lambda>s. take (this_nblocks * 2 ^ lbas) (sc_encbuf s))) (\<lambda>buf.
                     sbind (sc_pwrite E (push_bit lbas (slba + of_nat cli)) buf) (\<lambda>r.
                       if r = Pw_eof then return (NVME_SC_DNR OR NVME_SC_LBA_RANGE)
                       else sgx_write_zeroes_loop E lbas slba nblocks (cli + this_nblocks) n))))"

definition sgx_receive_write_zeroes :: "sgx_env \<Rightarrow> nvme_command \<Rightarrow> u16 gprog" where
  "sgx_receive_write_zeroes E cmd =
     sbind (on_sc_nvme (ns_lba_shift (gx_kernel E) (nsid cmd))) (\<lambda>lbas.
       if 31 \<le> lbas then raise (Undefined ''shift'')
       else sbind (smod (\<lambda>s. if length (sc_zerobuf s) < 2 ^ lbas then s\<lparr>sc_zerobuf := vec_resize (2 ^ lbas) (sc_zerobuf s)\<rparr> else s)) (\<lambda>_.
            sbind (sc_grow_encbuf (sgx_wz_nblocks * 2 ^ lbas)) (\<lambda>_.
            sgx_write_zeroes_loop E lbas (rw_slba cmd) (unat (cmd_nblocks cmd)) 0 (unat (cmd_nblocks cmd)))))"

definition sgx_receive :: "sgx_env \<Rightarrow> nvme_command \<Rightarrow> u16 gprog" where
  "sgx_receive E cmd =
     catch_std
       (if opcode cmd = nvme_cmd_read
        then if flags cmd AND NVME_CMD_SGL_ALL = 0 then sgx_receive_read E cmd else return (NVME_SC_DNR OR NVME_SC_INVALID_FIELD)
        else if opcode cmd = nvme_cmd_write
        then if flags cmd AND NVME_CMD_SGL_ALL = 0 then sgx_receive_write_copyback E cmd else return (NVME_SC_DNR OR NVME_SC_INVALID_FIELD)
        else if opcode cmd = nvme_cmd_write_zeroes then sgx_receive_write_zeroes E cmd
        else return (NVME_SC_DNR OR NVME_SC_INTERNAL))"

section \<open>The function on the asynchronous ring\<close>

record sgx_aio_env =
  ga_kernel :: nvme_kernel
  ga_sgx :: sgx
  ga_enter :: bool
  ga_uring :: liburing
  ga_garbage :: "nat \<Rightarrow> u8"
  ga_heap :: u64

record sgx_aio =
  sq_nvme :: nvme
  sq_vm :: mapping
  sq_enclave :: enclave
  sq_ring :: uring
  sq_heap :: "nat \<Rightarrow> mem_ticket option"
  sq_fresh :: nat

type_synonym 'a gaprog = "(sgx_aio, 'a) prog"

definition nvme_encryptor_sgx_aio_make :: "sgx_aio_env \<Rightarrow> int \<times> u64 \<Rightarrow> mapping \<Rightarrow> int \<Rightarrow> u8 list \<Rightarrow> int \<Rightarrow> sgx_aio result" where
  "nvme_encryptor_sgx_aio_make E created vm bfd key sh =
     rbind (prp_en_make (ga_enter E) created (ga_sgx E) key sh) (\<lambda>e.
     rbind (uring_make (ga_uring E) 2048 0 [bfd] []) (\<lambda>ring.
       Inr \<lparr>sq_nvme = nvme_init, sq_vm = vm, sq_enclave = e, sq_ring = ring, sq_heap = (\<lambda>_. None), sq_fresh = 0\<rparr>))"

definition on_sq_nvme :: "(nvme, 'a) prog \<Rightarrow> 'a gaprog" where
  "on_sq_nvme = zoom sq_nvme (\<lambda>t s. s\<lparr>sq_nvme := t\<rparr>)"

definition on_sq_ring :: "(uring, 'a) prog \<Rightarrow> 'a gaprog" where
  "on_sq_ring = zoom sq_ring (\<lambda>t s. s\<lparr>sq_ring := t\<rparr>)"

definition sq_invoke :: "sgx_aio_env \<Rightarrow> (enclave \<Rightarrow> int gaprog) \<Rightarrow> int gaprog" where
  "sq_invoke E = invoke (ga_enter E) sq_enclave (\<lambda>e s. s\<lparr>sq_enclave := e\<rparr>)"

definition sq_new_ticket :: "sgx_aio_env \<Rightarrow> u32 \<Rightarrow> nat \<Rightarrow> nat gaprog" where
  "sq_new_ticket E tag nbytes =
     sbind (sget sq_fresh) (\<lambda>i.
     sbind (smod (\<lambda>s. s\<lparr>sq_heap := (sq_heap s)(i \<mapsto> \<lparr>tk_tag = tag, mt_mem = map (ga_garbage E) [0..<nbytes]\<rparr>), sq_fresh := i + 1\<rparr>)) (\<lambda>_.
     return i))"

definition on_sq_mem :: "nat \<Rightarrow> (u8 list, 'a) prog \<Rightarrow> 'a gaprog" where
  "on_sq_mem t m =
     sbind (sget (\<lambda>s. sq_heap s t)) (\<lambda>k.
       case k of
         None \<Rightarrow> raise (Undefined ''use after free'')
       | Some k \<Rightarrow> zoom (\<lambda>s. mt_mem k) (\<lambda>v s. s\<lparr>sq_heap := (sq_heap s)(t \<mapsto> k\<lparr>mt_mem := v\<rparr>)\<rparr>) m)"

definition sgx_aio_receive_read :: "sgx_aio_env \<Rightarrow> nvme_command \<Rightarrow> u16 gaprog" where
  "sgx_aio_receive_read E cmd =
     sbind (on_sq_nvme (lba_iter_init (ga_kernel E) cmd)) (\<lambda>lit.
     sbind (sq_invoke E (\<lambda>e. zoom sq_vm (\<lambda>m s. s\<lparr>sq_vm := m\<rparr>) (crypt_command_inplace (ga_sgx E) e cmd True))) (\<lambda>ret.
       if ret \<noteq> sint (li_nbytes lit) then raise (Runtime_error ''unexpected length'') else return NVME_SC_SUCCESS))"

text \<open>What the enclave returns is not looked at.\<close>

definition sgx_aio_submit_write :: "sgx_aio_env \<Rightarrow> nvme_command \<Rightarrow> u32 \<Rightarrow> unit gaprog" where
  "sgx_aio_submit_write E cmd tag =
     sbind (on_sq_nvme (lba_iter_init (ga_kernel E) cmd)) (\<lambda>lit.
     sbind (sq_new_ticket E tag (unat (li_nbytes lit))) (\<lambda>t.
     sbind (sq_invoke E (\<lambda>e. sbind (sget sq_vm) (\<lambda>m. on_sq_mem t (crypt_command (ga_sgx E) e m cmd (ga_heap E) False)))) (\<lambda>_.
     sbind (on_sq_ring (queue_write (ga_uring E) t (Ticket_mem t) (ucast (li_nbytes lit)) (-1) True 0
         (push_bit (li_lba_shift lit) (li_slba lit)))) (\<lambda>_. return ()))))"

definition sgx_aio_submit_write_zeroes :: "sgx_aio_env \<Rightarrow> nvme_command \<Rightarrow> u32 \<Rightarrow> unit gaprog" where
  "sgx_aio_submit_write_zeroes E cmd tag =
     sbind (on_sq_nvme (ns_lba_shift (ga_kernel E) (nsid cmd))) (\<lambda>lbas.
       if 64 \<le> lbas then raise (Undefined ''shift'')
       else let nbytes = push_bit lbas (cmd_nblocks cmd)
            in sbind (sq_new_ticket E tag (unat nbytes)) (\<lambda>t.
               sbind (on_sq_mem t (smod (\<lambda>buf. replicate (length buf) 0))) (\<lambda>_.
               sbind (sq_invoke E (\<lambda>e. on_sq_mem t (crypt_buffer_inplace (ga_sgx E) e (rw_slba cmd) (ga_heap E) (cmd_nblocks cmd) False))) (\<lambda>_.
               sbind (on_sq_ring (queue_write (ga_uring E) t (Ticket_mem t) (ucast nbytes) (-1) True 0
                   (push_bit lbas (rw_slba cmd)))) (\<lambda>_. return ())))))"

definition sgx_aio_submit_flush :: "sgx_aio_env \<Rightarrow> u32 \<Rightarrow> unit gaprog" where
  "sgx_aio_submit_flush E tag =
     sbind (sq_new_ticket E tag 0) (\<lambda>t.
     sbind (on_sq_ring (queue_fsync (ga_uring E) t True 0 IORING_FSYNC_DATASYNC)) (\<lambda>_. return ()))"

definition sgx_aio_submit_async :: "sgx_aio_env \<Rightarrow> nvme_command \<Rightarrow> u32 \<Rightarrow> u16 option gaprog" where
  "sgx_aio_submit_async E cmd tag =
     (if opcode cmd = nvme_cmd_read then sbind (sgx_aio_receive_read E cmd) (\<lambda>st. return (Some st))
      else if opcode cmd = nvme_cmd_write \<and> flags cmd AND NVME_CMD_SGL_ALL = 0
      then sbind (sgx_aio_submit_write E cmd tag) (\<lambda>_. return None)
      else if opcode cmd = nvme_cmd_write_zeroes then sbind (sgx_aio_submit_write_zeroes E cmd tag) (\<lambda>_. return None)
      else if opcode cmd = nvme_cmd_flush then sbind (sgx_aio_submit_flush E tag) (\<lambda>_. return None)
      else return (Some (NVME_SC_DNR OR NVME_SC_INVALID_OPCODE)))"

end
