(* ===== verification/SgxProps.thy ===== *)
theory SgxProps
  imports SgxEncryptor
begin

text \<open>Properties of the encrypting functions that use an enclave.\<close>

section \<open>Reads and writes\<close>

lemma sint_small:
  fixes w :: u64
  assumes "unat w < 2 ^ 63"
  shows "sint w = int (unat w)"
proof -
  have "int (unat w) < int (2 ^ 63)" using assms by (simp only: of_nat_less_iff)
  then have "uint w < 2 ^ 63" by (simp only: uint_nat of_nat_power of_nat_numeral)
  then have "signed_take_bit 63 (uint w) = uint w"
    by (intro signed_take_bit_int_eq_self) (use uint_ge_0 [of w] in linarith)+
  then show ?thesis unfolding sint_uint by (simp only: uint_nat) simp
qed

lemma visits_nbytes:
  assumes "visits k nv m cmd it bs" "li_lba_shift it = s" "s \<le> 20"
  shows "sint (li_nbytes it) = int (unat (li_nbytes it))"
proof (rule sint_small)
  have "unat (rw_length cmd) < 2 ^ 16" using unat_bound [of "rw_length cmd"] by simp
  moreover have "(2 :: nat) ^ s \<le> 2 ^ 20" using assms(3) by (rule power_increasing) simp
  ultimately have "(unat (rw_length cmd) + 1) * 2 ^ s \<le> 2 ^ 16 * 2 ^ 20" by (intro mult_le_mono) simp_all
  then show "unat (li_nbytes it) < 2 ^ 63" using assms by (simp add: visits_def)
qed

lemma invoke_Inr: "enter \<Longrightarrow> \<not> ec_lost (get s) \<Longrightarrow> call (get s) s = (Inr v, s') \<Longrightarrow> invoke enter get put call s = (Inr v, s')"
  by (simp add: invoke_def)

lemma sc_pwrite_all:
  assumes "pw_progress (gx_pwrite E)" "unat base + length buf \<le> 2 ^ 64"
  shows "sc_pwrite E base buf s = (Inr Pw_done, s\<lparr>sc_dev := dev_put (unat base) buf (sc_dev s)\<rparr>)"
  by (simp add: sc_pwrite_def pwrite_all [OF assms])

lemma sgx_write_run:
  assumes vis: "visits (gx_kernel E) (sc_nvme s) (sc_vm s) cmd it bs" and ca: "nvme_caches (gx_kernel E) (sc_nvme s)"
    and e: "ec_ready (gx_sgx E) (sc_enclave s) sh C D" "gx_enter E" and sh: "li_lba_shift it = sh"
    and out: "sgx_is_outside_enclave (gx_sgx E) (map_addr (sc_vm s)) (map_size (sc_vm s))" "sgx_is_outside_enclave (gx_sgx E) (gx_heap E) (li_nbytes it)"
  shows "\<exists>nv buf. nvme_caches (gx_kernel E) nv \<and> sgx_receive_write_copyback E cmd s =
    sbind (sc_pwrite E (push_bit sh (rw_slba cmd)) (cipher_of C (sc_vm s) bs)) (\<lambda>_. return NVME_SC_SUCCESS)
      (s\<lparr>sc_nvme := nv, sc_encbuf := buf\<rparr>)"
proof -
  let ?m = "sc_vm s" and ?n = "unat (li_nbytes it)" and ?c = "cipher_of C (sc_vm s) bs"
  obtain nv where r: "lba_iter_init (gx_kernel E) cmd (sc_nvme s) = (Inr it, nv)" using vis by (metis visits_def prod.collapse)
  then have nv: "nvme_caches (gx_kernel E) nv" using ca by (rule lba_iter_init_Inr)
  have s20: "sh \<le> 20" "\<not> ec_lost (sc_enclave s)" using e by (auto simp: ec_ready_def)
  define buf0 where "buf0 = (if length (sc_encbuf s) < ?n then vec_resize ?n (sc_encbuf s) else sc_encbuf s)"
  have len: "?n \<le> length buf0" by (simp add: buf0_def vec_resize_def)
  let ?s1 = "s\<lparr>sc_nvme := nv, sc_encbuf := buf0\<rparr>"
  have cc: "crypt_command (gx_sgx E) (sc_enclave s) ?m cmd (gx_heap E) False (take ?n buf0) = (Inr (int ?n), ?c)"
    using crypt_command_run [OF e(1) vis sh, of "take ?n buf0", OF _ out] len by simp
  have c: "length ?c = ?n"
    using cc crypt_command_run [OF e(1) vis sh, of "take ?n buf0", OF _ out] len cipher_len [OF e(1) vis sh] by simp
  have "sc_invoke E (\<lambda>e. sbind (sget sc_vm) (\<lambda>m. on_sc_encbuf ?n (crypt_command (gx_sgx E) e m cmd (gx_heap E) False))) ?s1 =
      (Inr (int ?n), ?s1\<lparr>sc_encbuf := put_at 0 ?c buf0\<rparr>)"
    unfolding sc_invoke_def by (rule invoke_Inr) (use e(2) s20 cc in \<open>simp_all add: prog_simps on_sc_encbuf_def\<close>)
  moreover have "take ?n (put_at 0 ?c buf0) = ?c" using c by (simp add: put_at_def)
  ultimately have "sgx_receive_write_copyback E cmd s =
    sbind (sc_pwrite E (push_bit sh (rw_slba cmd)) ?c) (\<lambda>_. return NVME_SC_SUCCESS) (s\<lparr>sc_nvme := nv, sc_encbuf := put_at 0 ?c buf0\<rparr>)"
    using visits_facts(2) [OF vis ca] visits_nbytes [OF vis sh s20(1)] sh
    by (auto simp: sgx_receive_write_copyback_def on_sc_nvme_def sc_grow_encbuf_def pe_crypt_command_def zoom_apply sbind_apply r Let_def buf0_def
        split: if_splits)
  then show ?thesis using nv by blast
qed

lemma sgx_read_run:
  assumes vis: "visits (gx_kernel E) (sc_nvme s) (sc_vm s) cmd it bs"
    and e: "ec_ready (gx_sgx E) (sc_enclave s) sh C D" "gx_enter E" and sh: "li_lba_shift it = sh"
    and out: "sgx_is_outside_enclave (gx_sgx E) (map_addr (sc_vm s)) (map_size (sc_vm s))"
    and dis: "\<forall>(l, sp) \<in> set bs. span_set sp \<inter> lba_reads (lba_fuel it) (sc_vm s) it = {}"
  shows "\<exists>s'. sgx_receive_read E cmd s = (Inr NVME_SC_SUCCESS, s') \<and> sc_vm s' = dec_mem D bs (sc_vm s) \<and> sc_dev s' = sc_dev s"
proof -
  obtain nv where r: "lba_iter_init (gx_kernel E) cmd (sc_nvme s) = (Inr it, nv)" using vis by (metis visits_def prod.collapse)
  have s20: "sh \<le> 20" "\<not> ec_lost (sc_enclave s)" using e by (auto simp: ec_ready_def)
  let ?s1 = "s\<lparr>sc_nvme := nv\<rparr>"
  have "pe_crypt_command_inplace E cmd True ?s1 = (Inr (int (unat (li_nbytes it))), ?s1\<lparr>sc_vm := dec_mem D bs (sc_vm s)\<rparr>)"
    unfolding pe_crypt_command_inplace_def sc_invoke_def
    by (rule invoke_Inr) (use e(2) s20 crypt_command_inplace_run [OF e(1) vis sh out dis] in \<open>simp_all add: prog_simps\<close>)
  then show ?thesis
    using visits_nbytes [OF vis sh s20(1)] by (simp add: sgx_receive_read_def on_sc_nvme_def prog_simps r)
qed

text \<open>
  C13. An enclave changes where the key is, not what is stored by a write or shown by a read: for a write or a read that its block loop can visit, with an enclave
  that holds a key for the blocks of the namespace, and with the guest's memory and the function's work buffer outside of the enclave, the function that uses the enclave and the function that enciphers by itself with
  the same cipher both answer with success and leave the same bytes in guest memory and on the device.
\<close>

theorem enclave_function_matches_host:
  assumes e: "ec_ready (gx_sgx E) (sc_enclave s) sh C D" "gx_enter E" "pw_progress (gx_pwrite E)"
    and out: "sgx_is_outside_enclave (gx_sgx E) (map_addr (sc_vm s)) (map_size (sc_vm s))" "sgx_is_outside_enclave (gx_sgx E) (gx_heap E) (li_nbytes it)"
    and F: "ee_kernel F = gx_kernel E" "pw_progress (ee_pwrite F)" "block_engine (ee_engine F) (2 ^ sh) C D"
    and ca: "nvme_caches (gx_kernel E) (sc_nvme s)" and same: "en_nvme t = sc_nvme s" "en_vm t = sc_vm s" "en_dev t = sc_dev s"
    and vis: "visits (gx_kernel E) (sc_nvme s) (sc_vm s) cmd it bs" "li_lba_shift it = sh"
    and fits: "(unat (rw_slba cmd) + unat (rw_length cmd) + 1) * 2 ^ sh \<le> 2 ^ 64"
    and op: "opcode cmd = nvme_cmd_write \<or> opcode cmd = nvme_cmd_read \<and> (\<forall>(l, sp) \<in> set bs. span_set sp \<inter> lba_reads (lba_fuel it) (sc_vm s) it = {})"
      "flags cmd AND NVME_CMD_SGL_ALL = 0"
  shows "\<exists>s' t'. sgx_receive E cmd s = (Inr NVME_SC_SUCCESS, s') \<and> receive F cmd t = (Inr NVME_SC_SUCCESS, t') \<and>
    sc_vm s' = en_vm t' \<and> sc_dev s' = en_dev t'"
  using op(1)
proof
  have sh: "sh < 31" using e(1) by (simp add: ec_ready_def)
  assume w: "opcode cmd = nvme_cmd_write"
  have base: "unat (push_bit sh (rw_slba cmd)) = unat (rw_slba cmd) * 2 ^ sh" by (rule unat_base [OF fits [unfolded add.assoc]]) simp
  have len: "length (cipher_of C (sc_vm s) bs) = (unat (rw_length cmd) + 1) * 2 ^ sh"
    using cipher_len [OF e(1) vis] vis by (simp add: visits_def)
  have "unat (push_bit sh (rw_slba cmd)) + length (cipher_of C (sc_vm s) bs) \<le> 2 ^ 64"
    unfolding base len using fits by (simp add: algebra_simps)
  note pw = sc_pwrite_all [OF e(3) this]
  obtain nv buf where "sgx_receive_write_copyback E cmd s =
    sbind (sc_pwrite E (push_bit sh (rw_slba cmd)) (cipher_of C (sc_vm s) bs)) (\<lambda>_. return NVME_SC_SUCCESS) (s\<lparr>sc_nvme := nv, sc_encbuf := buf\<rparr>)"
    using sgx_write_run [OF vis(1) ca e(1,2) vis(2) out] by blast
  then obtain s' where s': "sgx_receive_write_copyback E cmd s = (Inr NVME_SC_SUCCESS, s')" "sc_vm s' = sc_vm s"
    "sc_dev s' = dev_put (unat (rw_slba cmd) * 2 ^ sh) (cipher_of C (sc_vm s) bs) (sc_dev s)"
    using pw base by (simp add: prog_simps)
  obtain t' where "receive F cmd t = (Inr NVME_SC_SUCCESS, t')" "en_vm t' = en_vm t"
    "en_dev t' = dev_put (unat (rw_slba cmd) * 2 ^ sh) (cipher_of C (en_vm t) bs) (en_dev t)"
    using receive_write_stores [OF F(3,2), of t cmd it bs] ca w op(2) vis fits sh F(1) same by auto
  then show ?thesis using s' w op(2) same by (auto simp: sgx_receive_def catch_std_Inr)
next
  have sh: "sh < 31" using e(1) by (simp add: ec_ready_def)
  assume r: "opcode cmd = nvme_cmd_read \<and> (\<forall>(l, sp) \<in> set bs. span_set sp \<inter> lba_reads (lba_fuel it) (sc_vm s) it = {})"
  obtain s' where s': "sgx_receive_read E cmd s = (Inr NVME_SC_SUCCESS, s')" "sc_vm s' = dec_mem D bs (sc_vm s)" "sc_dev s' = sc_dev s"
    using sgx_read_run [OF vis(1) e(1,2) vis(2) out(1)] r by blast
  obtain t' where t': "receive_read F cmd t = (Inr NVME_SC_SUCCESS, t')" "en_vm t' = dec_mem D bs (en_vm t)" "en_dev t' = en_dev t"
    using read_run [OF _ _ _ F(3) vis(2) sh, of "sc_nvme s" t cmd bs] vis(1) ca r F(1) same by auto
  show ?thesis using s' t' r op(2) same by (simp add: sgx_receive_def receive_def catch_std_Inr)
qed

text \<open>An enclave of one gigabyte: a range is outside of it when it ends before it or begins after it, and does not wrap around.\<close>

definition sample_sgx :: sgx where
  "sample_sgx = \<lparr>sg_ipp = sample_ipp, sgx_is_outside_enclave = (\<lambda>a n.
     unat a + unat n \<le> 0x600000000000 \<or> 0x600040000000 \<le> unat a \<and> unat a + unat n \<le> 2 ^ 64)\<rparr>"

definition sample_sgx_env :: sgx_env where
  "sample_sgx_env = \<lparr>gx_kernel = sample_kernel, gx_sgx = sample_sgx, gx_enter = True, gx_pwrite = (\<lambda>_ n. int n), gx_heap = 0x55550000\<rparr>"

definition sample_enclave :: enclave where
  "sample_enclave = \<lparr>ec_cipher = Some \<lparr>ipp_bs = 512, ipp_ctx = Some sample_key\<rparr>, g_lba_shift = 9, ec_lost = False\<rparr>"

definition sample_sgx_ctrl :: sgx_ctrl where
  "sample_sgx_ctrl = \<lparr>sc_nvme = nvme_init, sc_vm = sample_mem, sc_enclave = sample_enclave, sc_dev = (\<lambda>_. 0xff), sc_zerobuf = [], sc_encbuf = []\<rparr>"

lemmas sample_sgx_defs = sample_sgx_def sample_sgx_env_def sample_enclave_def sample_sgx_ctrl_def

lemma sample_sgx_ready:
  "ec_ready (gx_sgx sample_sgx_env) (sc_enclave sample_sgx_ctrl) 9 (\<lambda>b l. sample_mix sample_key b (xts_tweak l)) (\<lambda>b l. sample_mix sample_key b (xts_tweak l))"
  using ec_block_fn [of sample_sgx sample_key 512 "sample_mix sample_key" "sample_mix sample_key"] sample_ipp_ok [of sample_key 512]
  by (simp add: ec_ready_def sample_sgx_defs)

lemma sample_made:
  "nvme_encryptor_sgx_make sample_sgx_env (0, 2) sample_mem (\<lambda>_. 0xff) sample_key 9 = Inr sample_sgx_ctrl"
  by (simp add: nvme_encryptor_sgx_make_def prp_en_make_def sgx_enclave_make_def invoke_def put_key_def enclave_init_def prog_simps
      ec_aes_xts_make_def ec_ctx_create_def xts_max_bytes_def sample_ipp_def sample_sgx_defs as_int_small
      sample_key_def ippStsNoErr_def)

theorem enclave_function_matches_host_witness:
  "\<exists>s s' t'. nvme_encryptor_sgx_make sample_sgx_env (0, 2) sample_mem (\<lambda>_. 0xff) sample_key 9 = Inr s \<and>
     sgx_receive sample_sgx_env sample_write s = (Inr NVME_SC_SUCCESS, s') \<and>
     receive sample_enc sample_write sample_ctrl = (Inr NVME_SC_SUCCESS, t') \<and> sc_dev s' = en_dev t'"
proof -
  have fits: "(unat (rw_slba sample_write) + unat (rw_length sample_write) + 1) * 2 ^ 9 \<le> 2 ^ 64" by (simp add: sample_cmd)
  have eq: "ee_kernel sample_enc = gx_kernel sample_sgx_env" "sc_nvme sample_sgx_ctrl = en_nvme sample_ctrl" "sc_vm sample_sgx_ctrl = en_vm sample_ctrl"
    "sc_dev sample_sgx_ctrl = en_dev sample_ctrl" "gx_enter sample_sgx_env" "pw_progress (gx_pwrite sample_sgx_env)"
    by (simp_all add: sample_sgx_defs sample_enc_def sample_ctrl_def nvme_encryptor_make_def pw_progress_def)
  have out: "sgx_is_outside_enclave (gx_sgx sample_sgx_env) (map_addr (sc_vm sample_sgx_ctrl)) (map_size (sc_vm sample_sgx_ctrl))"
    "sgx_is_outside_enclave (gx_sgx sample_sgx_env) (gx_heap sample_sgx_env) (li_nbytes (sample_iter 0x1000))"
    by (simp_all add: sample_sgx_defs sample_mem_def sample_iter_def)
  have "\<exists>s' t'. sgx_receive sample_sgx_env sample_write sample_sgx_ctrl = (Inr NVME_SC_SUCCESS, s') \<and>
     receive sample_enc sample_write sample_ctrl = (Inr NVME_SC_SUCCESS, t') \<and> sc_vm s' = en_vm t' \<and> sc_dev s' = en_dev t'"
    by (rule enclave_function_matches_host [OF sample_sgx_ready eq(5,6) out eq(1) sample_env(1) sample_engine])
      (use sample_write_visits sample_env(2,3) eq fits sample_cmd in simp_all)
  then show ?thesis using sample_made by blast
qed

section \<open>Writing zeroes\<close>

lemma ec_subspan_block:
  assumes "(i + 1) * 2 ^ s \<le> n" "n < 2 ^ 64" "s < 31"
  shows "ec_subspan (of_nat n) (push_bit s (of_nat i)) (int_shl1 s) = Inr (push_bit s (of_nat i), 2 ^ s)" "unat (push_bit s (of_nat i) :: u64) = i * 2 ^ s"
proof -
  have le: "i * 2 ^ s + 2 ^ s \<le> n" using assms(1) by (simp add: algebra_simps)
  have "i \<le> i * 2 ^ s" by simp
  then have "i < 2 ^ 64" using le assms(2) by linarith
  then have ui: "unat (of_nat i :: u64) = i" by (simp add: unat_of_nat)
  have "i * 2 ^ s < 2 ^ 64" using le assms(2) by linarith
  then show u: "unat (push_bit s (of_nat i) :: u64) = i * 2 ^ s"
    using ui by (subst unat_push_bit_small) simp_all
  have two: "unat (2 ^ s :: u64) = 2 ^ s" using assms(3) by simp
  have un: "unat (of_nat n :: u64) = n" using assms(2) by (simp add: unat_of_nat)
  have "unat (push_bit s (of_nat i) + 2 ^ s :: u64) = i * 2 ^ s + 2 ^ s" using u two le assms(2) by (subst unat_add_small) simp_all
  then have "push_bit s (of_nat i) \<le> (of_nat n :: u64)" "push_bit s (of_nat i) + 2 ^ s \<le> (of_nat n :: u64)"
    using le u un unfolding word_le_nat_alt by simp_all
  moreover have "(2 :: nat) ^ s \<le> 2 ^ 30" using assms(3) by (intro power_increasing) simp_all
  then have "(2 ^ s :: u64) \<noteq> U64_MAX" using two by (auto dest: arg_cong [of _ _ unat])
  ultimately show "ec_subspan (of_nat n) (push_bit s (of_nat i)) (int_shl1 s) = Inr (push_bit s (of_nat i), 2 ^ s)"
    using assms(3) by (simp add: ec_subspan_def int_shl1_exp)
qed

definition blocks_cipher :: "(u8 list \<Rightarrow> u64 \<Rightarrow> u8 list) \<Rightarrow> nat \<Rightarrow> u64 \<Rightarrow> u8 list \<Rightarrow> nat \<Rightarrow> nat \<Rightarrow> u8 list" where
  "blocks_cipher C s slba buf i j = concat (map (\<lambda>i. C (take (2 ^ s) (drop (i * 2 ^ s) buf)) (slba + of_nat i)) [i..<j])"

lemma crypt_buffer_run:
  assumes c: "block_fn c (2 ^ s) C" and s: "s < 31"
  shows "(i + n) * 2 ^ s \<le> length buf \<Longrightarrow> length buf < 2 ^ 64 \<Longrightarrow> crypt_buffer_loop c s slba i n k buf =
    (Inr (k + int (n * 2 ^ s)), take (i * 2 ^ s) buf @ blocks_cipher C s slba buf i (i + n) @ drop ((i + n) * 2 ^ s) buf)"
proof (induction n arbitrary: i k buf)
  case (Suc n)
  let ?off = "i * 2 ^ s" and ?x = "take (2 ^ s) (drop (i * 2 ^ s) buf)"
  let ?y = "C ?x (slba + of_nat i)"
  let ?buf = "put_at ?off ?y buf"
  have room: "?off + 2 ^ s \<le> length buf" "(i + 1) * 2 ^ s \<le> length buf" using Suc.prems(1) by (simp_all add: algebra_simps)
  have x: "length ?x = 2 ^ s" using room by simp
  note y = block_fnD [OF c x]
  note sub = ec_subspan_block [OF room(2) Suc.prems(2) s]
  have keep: "take (2 ^ s) (drop (j * 2 ^ s) ?buf) = take (2 ^ s) (drop (j * 2 ^ s) buf)" if "i + 1 \<le> j" for j
    using put_at_drop [of ?off ?y buf "j * 2 ^ s"] room(1) y(3) mult_le_mono1 [OF that, of "2 ^ s"] by simp
  have "crypt_buffer_loop c s slba (i + 1) n (k + 2 ^ s) ?buf = (Inr (k + 2 ^ s + int (n * 2 ^ s)),
      take ((i + 1) * 2 ^ s) ?buf @ blocks_cipher C s slba ?buf (i + 1) (i + 1 + n) @ drop ((i + 1 + n) * 2 ^ s) ?buf)"
    by (rule Suc.IH) (use Suc.prems y(3) room in simp_all)
  moreover have "blocks_cipher C s slba ?buf (i + 1) (i + 1 + n) = blocks_cipher C s slba buf (i + 1) (i + 1 + n)"
    unfolding blocks_cipher_def by (intro arg_cong [of _ _ concat] map_cong refl) (auto simp: keep simp del: upt_Suc)
  moreover have "take ((i + 1) * 2 ^ s) ?buf = take ?off buf @ ?y"
    using put_at_take [of ?off ?y buf] room y(3) by (simp add: algebra_simps)
  moreover have "drop ((i + 1 + n) * 2 ^ s) ?buf = drop ((i + 1 + n) * 2 ^ s) buf"
    using put_at_drop [of ?off ?y buf] room y(3) by (simp add: algebra_simps)
  moreover have "blocks_cipher C s slba buf i (i + Suc n) = ?y @ blocks_cipher C s slba buf (i + 1) (i + 1 + n)"
    by (simp add: blocks_cipher_def upt_conv_Cons del: upt_Suc)
  moreover have "unat (2 ^ s :: u64) = 2 ^ s" using s by simp
  ultimately show ?case using sub y(2) x by (simp add: prog_simps algebra_simps)
qed (simp add: blocks_cipher_def)

lemma blocks_cipher_length:
  assumes "block_fn c (2 ^ s) C" "j * 2 ^ s \<le> length buf"
  shows "length (blocks_cipher C s slba buf i j) = (j - i) * 2 ^ s"
proof -
  have "length (C (take (2 ^ s) (drop (k * 2 ^ s) buf)) l) = 2 ^ s" if "k < j" for k l
    using block_fnD(3) [OF assms(1), of "take (2 ^ s) (drop (k * 2 ^ s) buf)"] assms(2) mult_le_mono1 [OF Suc_leI [OF that], of "2 ^ s"] by simp
  then show ?thesis unfolding blocks_cipher_def by (subst length_concat_same [where n = "2 ^ s"]) auto
qed

lemma blocks_cipher_nth:
  assumes "block_fn c (2 ^ s) C" "n * 2 ^ s \<le> length buf" "i < n"
  shows "take (2 ^ s) (drop (i * 2 ^ s) (blocks_cipher C s slba buf 0 n)) = C (take (2 ^ s) (drop (i * 2 ^ s) buf)) (slba + of_nat i)"
proof -
  have "length (C (take (2 ^ s) (drop (k * 2 ^ s) buf)) l) = 2 ^ s" if "k < n" for k l
    using block_fnD(3) [OF assms(1), of "take (2 ^ s) (drop (k * 2 ^ s) buf)"] assms(2) mult_le_mono1 [OF Suc_leI [OF that], of "2 ^ s"] by simp
  then show ?thesis
    using concat_nth_block [of "map (\<lambda>i. C (take (2 ^ s) (drop (i * 2 ^ s) buf)) (slba + of_nat i)) [0..<n]" "2 ^ s" i] assms(3)
    by (simp add: blocks_cipher_def)
qed

text \<open>The buffer as the function finds it after making it large enough.\<close>

definition wz_buffer :: "nat \<Rightarrow> u8 list \<Rightarrow> u8 list" where
  "wz_buffer s buf = (if length buf < sgx_wz_nblocks * 2 ^ s then vec_resize (sgx_wz_nblocks * 2 ^ s) buf else buf)"

lemma sgx_zero_run:
  assumes e: "ec_ready (gx_sgx E) (sc_enclave s) sh C D" "gx_enter E" "pw_progress (gx_pwrite E)" and sh: "sh \<le> 20"
    and out: "sgx_is_outside_enclave (gx_sgx E) (gx_heap E) (push_bit sh (of_nat n))"
    and n: "0 < n" "n \<le> sgx_wz_nblocks" and len: "sgx_wz_nblocks * 2 ^ sh \<le> length (sc_encbuf s)" and fits: "(unat slba + n) * 2 ^ sh \<le> 2 ^ 64"
  shows "\<exists>s'. sgx_write_zeroes_loop E sh slba n 0 n s = (Inr NVME_SC_SUCCESS, s') \<and>
    sc_dev s' = dev_put (unat slba * 2 ^ sh) (blocks_cipher C sh slba (sc_encbuf s) 0 n) (sc_dev s)"
proof -
  obtain x where x: "g_lba_shift (sc_enclave s) = int sh" "ec_cipher (sc_enclave s) = Some x"
    "block_fn (ec_crypt (gx_sgx E) x False) (2 ^ sh) C" "\<not> ec_lost (sc_enclave s)"
    using e(1) by (auto simp: ec_ready_def)
  let ?W = "sgx_wz_nblocks * 2 ^ sh" and ?N = "n * 2 ^ sh" and ?b = "sc_encbuf s"
  let ?c = "blocks_cipher C sh slba (sc_encbuf s) 0 n"
  have "(2 :: nat) ^ sh \<le> 2 ^ 20" using sh by (rule power_increasing) simp
  then have W: "?W \<le> 512 * 2 ^ 20" by (simp add: sgx_wz_nblocks_def)
  have NW: "?N \<le> ?W" using n(2) by (rule mult_le_mono1)
  have un: "unat (of_nat n :: u64) = n" using n(2) by (simp add: unat_of_nat sgx_wz_nblocks_def)
  have N64: "?N < 2 ^ 64" by (rule le_less_trans [OF le_trans [OF NW W]]) simp
  then have uN: "unat (push_bit sh (of_nat n) :: u64) = ?N" using un by (subst unat_push_bit_small) simp_all
  have c: "length ?c = ?N" using blocks_cipher_length [OF x(3), of n ?b slba 0] NW len by simp
  have same: "blocks_cipher C sh slba (take ?N ?b) 0 n = ?c"
  proof -
    have "take (2 ^ sh) (drop (i * 2 ^ sh) (take ?N ?b)) = take (2 ^ sh) (drop (i * 2 ^ sh) ?b)" if "i < n" for i
      using mult_le_mono1 [OF Suc_leI [OF that], of "2 ^ sh"] by (simp add: drop_take min_def)
    then show ?thesis unfolding blocks_cipher_def by (intro arg_cong [of _ _ concat] map_cong refl) auto
  qed
  have "crypt_buffer_loop (ec_crypt (gx_sgx E) x False) sh slba 0 n 0 (take ?N ?b) = (Inr (int ?N), ?c)"
    using crypt_buffer_run [OF x(3), of 0 n "take ?N ?b" slba 0] sh NW len N64 same by simp
  then have cb: "crypt_buffer_inplace (gx_sgx E) (sc_enclave s) slba (gx_heap E) (of_nat n) False (take ?W ?b) =
      (Inr (int ?N), put_at 0 ?c (take ?W ?b))"
    using x out uN un NW len
    by (simp add: crypt_buffer_inplace_def Let_def with_engine_def zoom_def catch_contract_Inr min_def)
  let ?s1 = "s\<lparr>sc_encbuf := put_at 0 (put_at 0 ?c (take ?W ?b)) ?b\<rparr>"
  have call: "pe_crypt_buffer_inplace E slba ?W (of_nat n) False s = (Inr (int ?N), ?s1)"
    unfolding pe_crypt_buffer_inplace_def sc_invoke_def by (rule invoke_Inr) (use e(2) x(4) cb in \<open>simp_all add: on_sc_encbuf_def prog_simps\<close>)
  have take: "take ?N (put_at 0 (put_at 0 ?c (take ?W ?b)) ?b) = ?c" using c NW len by (simp add: put_at_def)
  have base: "unat (push_bit sh slba) = unat slba * 2 ^ sh" using unat_base [OF fits] n(1) by simp
  have "unat (push_bit sh slba) + length ?c \<le> 2 ^ 64" using fits c base by (simp add: algebra_simps)
  note w = sc_pwrite_all [OF e(3) this, of ?s1]
  obtain k where k: "n = Suc k" using n(1) by (cases n) auto
  have m: "min n sgx_wz_nblocks = n" using n(2) by simp
  have "sgx_write_zeroes_loop E sh slba n 0 (Suc k) s = sgx_write_zeroes_loop E sh slba n n k (?s1\<lparr>sc_dev := dev_put (unat slba * 2 ^ sh) ?c (sc_dev s)\<rparr>)"
    using n(1) call take w base by (simp add: Let_def prog_simps m)
  moreover have "sgx_write_zeroes_loop E sh slba n n k t = (Inr NVME_SC_SUCCESS, t)" for t by (cases k) simp_all
  ultimately show ?thesis using k by simp
qed

text \<open>
  Writing zeroes through the enclave does not write zeroes: for a command of at most one batch, the function answers with success and
  leaves in every block of the command the encryption of whatever its work buffer held from earlier commands, which is what a
  read of the block then deciphers to. The buffer of zeroes that it prepares is never used.
\<close>

theorem enclave_write_zeroes_stores_old_buffer:
  assumes e: "ec_ready (gx_sgx E) (sc_enclave s) sh C D" "gx_enter E" "pw_progress (gx_pwrite E)"
    and out: "sgx_is_outside_enclave (gx_sgx E) (gx_heap E) (push_bit sh (cmd_nblocks cmd))"
    and inv: "\<And>b l. length b = 2 ^ sh \<Longrightarrow> D (C b l) l = b"
    and cmd: "opcode cmd = nvme_cmd_write_zeroes" "fst (ns_lba_shift (gx_kernel E) (nsid cmd) (sc_nvme s)) = Inr sh"
    and n: "unat (rw_length cmd) < sgx_wz_nblocks" and fits: "(unat (rw_slba cmd) + unat (rw_length cmd) + 1) * 2 ^ sh \<le> 2 ^ 64"
  shows "\<exists>s'. sgx_receive E cmd s = (Inr NVME_SC_SUCCESS, s') \<and>
    (\<forall>i \<le> unat (rw_length cmd). D (dev_bytes (sc_dev s') ((unat (rw_slba cmd) + i) * 2 ^ sh) (2 ^ sh)) (rw_slba cmd + of_nat i) =
       take (2 ^ sh) (drop (i * 2 ^ sh) (wz_buffer sh (sc_encbuf s))))"
proof -
  let ?n = "unat (rw_length cmd) + 1" and ?b = "wz_buffer sh (sc_encbuf s)" and ?slba = "rw_slba cmd"
  have sh: "sh \<le> 20" using e(1) by (simp add: ec_ready_def)
  obtain x where x: "block_fn (ec_crypt (gx_sgx E) x False) (2 ^ sh) C" using e(1) by (auto simp: ec_ready_def)
  obtain nv where nv: "ns_lba_shift (gx_kernel E) (nsid cmd) (sc_nvme s) = (Inr sh, nv)" using cmd(2) by (metis prod.collapse)
  define s1 where "s1 = s\<lparr>sc_nvme := nv, sc_zerobuf := (if length (sc_zerobuf s) < 2 ^ sh then vec_resize (2 ^ sh) (sc_zerobuf s) else sc_zerobuf s), sc_encbuf := ?b\<rparr>"
  have len: "sgx_wz_nblocks * 2 ^ sh \<le> length (sc_encbuf s1)" by (simp add: s1_def wz_buffer_def vec_resize_def)
  have nb: "unat (cmd_nblocks cmd) = ?n" by (rule unat_nblocks)
  obtain s' where run: "sgx_write_zeroes_loop E sh ?slba ?n 0 ?n s1 = (Inr NVME_SC_SUCCESS, s')"
    "sc_dev s' = dev_put (unat ?slba * 2 ^ sh) (blocks_cipher C sh ?slba ?b 0 ?n) (sc_dev s)"
    using sgx_zero_run [of E s1 sh C D ?n ?slba] e sh out n len fits by (auto simp: s1_def cmd_nblocks_def algebra_simps)
  have "sgx_receive_write_zeroes E cmd s = (Inr NVME_SC_SUCCESS, s')"
    using run(1) sh nb by (auto simp: sgx_receive_write_zeroes_def on_sc_nvme_def zoom_apply sbind_apply nv sc_grow_encbuf_def wz_buffer_def s1_def split: if_splits)
  then have rcv: "sgx_receive E cmd s = (Inr NVME_SC_SUCCESS, s')" using cmd(1) by (simp add: sgx_receive_def catch_std_Inr)
  have le: "?n * 2 ^ sh \<le> length ?b" using mult_le_mono1 [of ?n sgx_wz_nblocks "2 ^ sh"] n len by (simp add: s1_def)
  have "dev_bytes (sc_dev s') ((unat ?slba + i) * 2 ^ sh) (2 ^ sh) = C (take (2 ^ sh) (drop (i * 2 ^ sh) ?b)) (?slba + of_nat i)"
    "length (take (2 ^ sh) (drop (i * 2 ^ sh) ?b)) = 2 ^ sh" if "i < ?n" for i
  proof -
    have i: "(i + 1) * 2 ^ sh \<le> ?n * 2 ^ sh" using that by (intro mult_le_mono1) simp
    then show "length (take (2 ^ sh) (drop (i * 2 ^ sh) ?b)) = 2 ^ sh"
      using le_trans [OF i le] by (simp add: algebra_simps)
    have "length (blocks_cipher C sh ?slba ?b 0 ?n) = ?n * 2 ^ sh" using blocks_cipher_length [OF x le, of ?slba 0] by simp
    then show "dev_bytes (sc_dev s') ((unat ?slba + i) * 2 ^ sh) (2 ^ sh) = C (take (2 ^ sh) (drop (i * 2 ^ sh) ?b)) (?slba + of_nat i)"
      using dev_bytes_put_part [of "i * 2 ^ sh" "2 ^ sh" "blocks_cipher C sh ?slba ?b 0 ?n" "unat ?slba * 2 ^ sh" "sc_dev s"]
        blocks_cipher_nth [OF x le that, of ?slba] i run(2) by (simp add: algebra_simps)
  qed
  then show ?thesis using rcv inv by (intro exI [of _ s'] conjI) (simp_all add: less_Suc_eq_le [symmetric])
qed

theorem enclave_write_zeroes_stores_old_buffer_witness:
  "\<exists>s'. sgx_receive sample_sgx_env sample_zero (sample_sgx_ctrl\<lparr>sc_encbuf := replicate 0x40000 5\<rparr>) = (Inr NVME_SC_SUCCESS, s') \<and>
     sample_mix sample_key (dev_bytes (sc_dev s') 51200 512) (xts_tweak 100) = replicate 512 5"
proof -
  let ?s = "sample_sgx_ctrl\<lparr>sc_encbuf := replicate 0x40000 5\<rparr>" and ?C = "\<lambda>b l. sample_mix sample_key b (xts_tweak l)"
  have e: "ec_ready (gx_sgx sample_sgx_env) (sc_enclave ?s) 9 ?C ?C" using sample_sgx_ready by simp
  have g: "gx_enter sample_sgx_env" "pw_progress (gx_pwrite sample_sgx_env)" by (simp_all add: sample_sgx_defs pw_progress_def)
  have c: "opcode sample_zero = nvme_cmd_write_zeroes" "rw_slba sample_zero = 100" "rw_length sample_zero = 1"
    by (simp_all add: sample_zero_def rw_slba_def rw_length_def sample_rw_def)
  have sh: "fst (ns_lba_shift (gx_kernel sample_sgx_env) (nsid sample_zero) (sc_nvme ?s)) = Inr 9"
    by (simp add: sample_sgx_defs sample_zero_def init_eval)
  have b: "take 512 (wz_buffer 9 (sc_encbuf ?s)) = replicate 512 5" by (simp add: wz_buffer_def sgx_wz_nblocks_def)
  obtain s' where s': "sgx_receive sample_sgx_env sample_zero ?s = (Inr NVME_SC_SUCCESS, s')"
    "\<forall>i \<le> unat (rw_length sample_zero). ?C (dev_bytes (sc_dev s') ((unat (rw_slba sample_zero) + i) * 2 ^ 9) (2 ^ 9)) (rw_slba sample_zero + of_nat i) =
       take (2 ^ 9) (drop (i * 2 ^ 9) (wz_buffer 9 (sc_encbuf ?s)))"
    using enclave_write_zeroes_stores_old_buffer [OF e g _ _ c(1) sh] c by (auto simp: sgx_wz_nblocks_def sample_sgx_defs cmd_nblocks_def push_bit_eq_mult)
  show ?thesis using s'(1) s'(2) [rule_format, of 0] b c(2) by simp
qed

section \<open>The key\<close>

text \<open>
  C36. The key of an enclave: before a key has been put, no entry point touches the data it is given; putting a key either ends
  the enclave or makes it ready with that key and a block size of at most a megabyte; afterwards every attempt to put another key is refused
  and changes nothing.
\<close>

theorem enclave_keeps_first_key:
  "(\<forall>slba addr n d buf m cmd.
      crypt_buffer_inplace G enclave_init slba addr n d buf = (Inr (- EPERM), buf) \<and>
      crypt_command_inplace G enclave_init cmd d m = (Inr (- EPERM), m) \<and>
      crypt_command G enclave_init m cmd addr d buf = (Inr (- EPERM), buf)) \<and>
   (case put_key G key sh enclave_init of
      (Inl x, e) \<Rightarrow> e = enclave_init
    | (Inr r, e) \<Rightarrow> r = 0 \<and> 0 \<le> sh \<and> sh \<le> 20 \<and> ec_cipher e = Some \<lparr>ipp_bs = 2 ^ nat sh, ipp_ctx = Some key\<rparr> \<and> g_lba_shift e = sh \<and>
        (\<forall>key' sh'. put_key G key' sh' e = (Inr (- EPERM), e)))"
proof (rule conjI)
  show "\<forall>slba addr n d buf m cmd. crypt_buffer_inplace G enclave_init slba addr n d buf = (Inr (- EPERM), buf) \<and>
      crypt_command_inplace G enclave_init cmd d m = (Inr (- EPERM), m) \<and> crypt_command G enclave_init m cmd addr d buf = (Inr (- EPERM), buf)"
    by (simp add: crypt_buffer_inplace_def crypt_command_inplace_def crypt_command_def enclave_init_def)
  obtain r e where r: "put_key G key sh enclave_init = (r, e)" by fastforce
  show "case put_key G key sh enclave_init of
      (Inl x, e) \<Rightarrow> e = enclave_init
    | (Inr r, e) \<Rightarrow> r = 0 \<and> 0 \<le> sh \<and> sh \<le> 20 \<and> ec_cipher e = Some \<lparr>ipp_bs = 2 ^ nat sh, ipp_ctx = Some key\<rparr> \<and> g_lba_shift e = sh \<and>
        (\<forall>key' sh'. put_key G key' sh' e = (Inr (- EPERM), e))"
  proof (cases r)
    case (Inl x)
    then have "e = enclave_init" using r by (auto simp: put_key_def prog_simps split: if_splits sum.splits)
    then show ?thesis using r Inl by simp
  next
    case (Inr v)
    note k = put_key_outcome [OF r [unfolded Inr]]
    then have "put_key G key' sh' e = (Inr (- EPERM), e)" for key' sh' by (simp add: put_key_def prog_simps)
    then show ?thesis using r Inr k by simp
  qed
qed

section \<open>Losing the enclave\<close>

lemma lba_iter_init_throws: "lba_iter_init k cmd nv = (Inl (Nvme_exception c), nv') \<Longrightarrow> c \<noteq> NVME_SC_SUCCESS"
  by (auto simp: lba_iter_init_def ns_lba_shift_def id_vns_def do_id_vns_def ns_cmd_check_nbytes_def id_vctrl_def do_id_vctrl_def check_nblocks_def
      prog_simps NVME_SC_SUCCESS_def NVME_SC_DNR_def NVME_SC_INVALID_NS_def NVME_SC_INVALID_FIELD_def split: if_splits option.splits sum.splits prod.splits)

lemma catch_std_success:
  "catch_std m s = (Inr NVME_SC_SUCCESS, t) \<Longrightarrow> m s = (Inr NVME_SC_SUCCESS, t) \<or> m s = (Inl (Nvme_exception NVME_SC_SUCCESS), t)"
  by (auto simp: catch_std_def NVME_SC_DNR_def NVME_SC_INTERNAL_def NVME_SC_SUCCESS_def split: prod.splits sum.splits cpp_exn.splits)

lemma catch_std_state: "snd (catch_std m s) = snd (m s)"
  by (auto simp: catch_std_def split: prod.splits sum.splits cpp_exn.splits)

lemma lost_invoke: "ec_lost (sc_enclave t) \<Longrightarrow> sc_invoke E call t = (Inl (System_error ''sgx call failed''), t)"
  by (simp add: sc_invoke_def invoke_def)

lemma lost_handlers:
  assumes "ec_lost (sc_enclave t)" "h = sgx_receive_read E c \<or> h = sgx_receive_write_copyback E c"
  shows "\<exists>e nv buf. h t = (Inl e, t\<lparr>sc_nvme := nv, sc_encbuf := buf\<rparr>) \<and> e \<noteq> Nvme_exception NVME_SC_SUCCESS"
proof -
  obtain r nv where r: "lba_iter_init (gx_kernel E) c (sc_nvme t) = (r, nv)" by fastforce
  show ?thesis
  proof (cases r)
    case (Inl e)
    have "e \<noteq> Nvme_exception NVME_SC_SUCCESS" using lba_iter_init_throws r Inl by blast
    moreover have "h t = (Inl e, t\<lparr>sc_nvme := nv\<rparr>)"
      using assms(2) r Inl by (auto simp: sgx_receive_read_def sgx_receive_write_copyback_def on_sc_nvme_def prog_simps)
    moreover have "t\<lparr>sc_nvme := nv\<rparr> = t\<lparr>sc_nvme := nv, sc_encbuf := sc_encbuf t\<rparr>" by simp
    ultimately show ?thesis by metis
  next
    case (Inr it)
    let ?n = "unat (li_nbytes it)"
    have "h t = (Inl (System_error ''sgx call failed''), t\<lparr>sc_nvme := nv\<rparr>) \<or>
        h t = (Inl (System_error ''sgx call failed''), t\<lparr>sc_nvme := nv, sc_encbuf := vec_resize ?n (sc_encbuf t)\<rparr>)"
      using assms r Inr
      by (auto simp: sgx_receive_read_def sgx_receive_write_copyback_def on_sc_nvme_def prog_simps pe_crypt_command_def
        pe_crypt_command_inplace_def lost_invoke sc_grow_encbuf_def Let_def)
    moreover have "t\<lparr>sc_nvme := nv\<rparr> = t\<lparr>sc_nvme := nv, sc_encbuf := sc_encbuf t\<rparr>" by simp
    ultimately show ?thesis by (metis cpp_exn.distinct)
  qed
qed

lemma lost_enclave_refuses:
  assumes "ec_lost (sc_enclave t)" "opcode c = nvme_cmd_read \<or> opcode c = nvme_cmd_write" "sgx_receive E c t = (r, t')"
  shows "r \<noteq> Inr NVME_SC_SUCCESS \<and> sc_dev t' = sc_dev t \<and> sc_vm t' = sc_vm t \<and> ec_lost (sc_enclave t')"
proof (cases "flags c AND NVME_CMD_SGL_ALL = 0")
  case False
  then show ?thesis
    using assms by (auto simp: sgx_receive_def catch_std_def NVME_SC_DNR_def NVME_SC_INVALID_FIELD_def NVME_SC_SUCCESS_def)
next
  case True
  define h where "h = (if opcode c = nvme_cmd_read then sgx_receive_read E c else sgx_receive_write_copyback E c)"
  have h: "h = sgx_receive_read E c \<or> h = sgx_receive_write_copyback E c" "sgx_receive E c t = catch_std h t"
    using assms(2) True by (auto simp: sgx_receive_def h_def)
  obtain e nv buf where e: "h t = (Inl e, t\<lparr>sc_nvme := nv, sc_encbuf := buf\<rparr>)" "e \<noteq> Nvme_exception NVME_SC_SUCCESS"
    using lost_handlers [OF assms(1) h(1)] by blast
  have "r \<noteq> Inr NVME_SC_SUCCESS"
  proof
    assume "r = Inr NVME_SC_SUCCESS"
    then have "catch_std h t = (Inr NVME_SC_SUCCESS, t')" using h(2) assms(3) by simp
    then show False using catch_std_success e by fastforce
  qed
  moreover have "t' = t\<lparr>sc_nvme := nv, sc_encbuf := buf\<rparr>" using catch_std_state [of h t] h(2) assms(3) e(1) by (metis snd_conv)
  ultimately show ?thesis using assms(1) by simp
qed

lemma bad_address_aborts:
  assumes e: "ec_ready G e sh C D" and it: "ec_iter_init cmd sh = it" "prp1 cmd = p" and out: "unat (map_size m) < unat p + 2 ^ sh"
    and vm: "sgx_is_outside_enclave G (map_addr m) (map_size m)"
  shows "crypt_command_inplace G e cmd True m = (Inl (Out_of_range ''offset is too far''), m)"
proof -
  obtain x where x: "sh \<le> 20" "g_lba_shift e = int sh" "ec_cipher e = Some x"
    using e by (auto simp: ec_ready_def)
  have itd: "li_prp_iter it = prp_init p (prp2 cmd) (li_nbytes it)" "li_pli it = 0" "li_lba_shift it = sh" "li_nbytes it = push_bit sh (cmd_nblocks cmd)"
    using it by (auto simp: ec_iter_init_def Let_def ec_prp_simps cmd_nblocks_def)
  have "unat (cmd_nblocks cmd) \<le> 2 ^ 16" using unat_nblocks [of cmd] unat_bound [of "rw_length cmd"] by simp
  moreover have "(2 :: nat) ^ sh \<le> 2 ^ 20" using x(1) by (rule power_increasing) simp
  ultimately have "unat (cmd_nblocks cmd) * 2 ^ sh \<le> 2 ^ 16 * 2 ^ 20" by (rule mult_le_mono)
  then have "unat (li_nbytes it) = unat (cmd_nblocks cmd) * 2 ^ sh" unfolding itd(4) by (subst unat_push_bit_small) simp_all
  then have nb: "0 < unat (li_nbytes it)" using unat_nblocks [of cmd] by simp
  then have nend: "\<not> prp_at_end (prp_init p (prp2 cmd) (li_nbytes it))" by (auto simp: prp_at_end_def prp_init_def)
  obtain k where k: "lba_fuel it = Suc k" using nb by (cases "lba_fuel it") (auto simp: lba_fuel_def)
  have "\<not> check_span (map_size m) p (2 ^ sh)" using out x(1) by (simp add: check_span_iff)
  then have "ec_iter_deref m it = Inl (Out_of_range ''offset is too far'')"
    using nend x(1)
    by (simp add: ec_iter_deref_def itd ec_prp_deref_def ec_prp_simps ec_assert_def prp_init_def ec_get_span get_span_def int_shl1_exp)
  then have "crypt_inplace_loop (ec_crypt G x True) (lba_fuel it) it 0 m = (Inl (Out_of_range ''offset is too far''), m)"
    using nend by (simp add: k ec_prp_simps lba_iter_at_end_def itd(1) prog_simps)
  then show ?thesis using x(2,3) vm it(1) by (simp add: crypt_command_inplace_def prog_simps with_engine_def Let_def catch_contract_def)
qed

text \<open>
  One bad address ends the enclave: a read whose first page lies outside of guest memory makes the enclave's memory check throw
  an exception that its entry point does not catch. The command is answered with an internal error and changes neither memory nor
  device, but the enclave is gone: from then on no read or write of the guest succeeds or changes anything.
\<close>

theorem bad_address_ends_enclave:
  assumes e: "ec_ready (gx_sgx E) (sc_enclave s) sh C D" "gx_enter E"
    and cmd: "opcode cmd = nvme_cmd_read" "flags cmd AND NVME_CMD_SGL_ALL = 0"
    and it: "fst (lba_iter_init (gx_kernel E) cmd (sc_nvme s)) = Inr it" "li_lba_shift it = sh"
    and out: "unat (map_size (sc_vm s)) < unat (prp1 cmd) + 2 ^ sh" "sgx_is_outside_enclave (gx_sgx E) (map_addr (sc_vm s)) (map_size (sc_vm s))"
  shows "\<exists>s'. sgx_receive E cmd s = (Inr (NVME_SC_DNR OR NVME_SC_INTERNAL), s') \<and> sc_vm s' = sc_vm s \<and> sc_dev s' = sc_dev s \<and> ec_lost (sc_enclave s') \<and>
    (\<forall>t c r t'. ec_lost (sc_enclave t) \<longrightarrow> opcode c = nvme_cmd_read \<or> opcode c = nvme_cmd_write \<longrightarrow> sgx_receive E c t = (r, t') \<longrightarrow>
       r \<noteq> Inr NVME_SC_SUCCESS \<and> sc_dev t' = sc_dev t \<and> sc_vm t' = sc_vm t \<and> ec_lost (sc_enclave t'))"
proof -
  obtain nv where nv: "lba_iter_init (gx_kernel E) cmd (sc_nvme s) = (Inr it, nv)" using it(1) by (metis prod.collapse)
  let ?s' = "s\<lparr>sc_nvme := nv, sc_enclave := (sc_enclave s)\<lparr>ec_lost := True\<rparr>\<rparr>"
  have "ec_iter_init cmd sh = it" using ec_init [OF it(1)] it(2) by simp
  from bad_address_aborts [OF e(1) this refl out]
  have "crypt_command_inplace (gx_sgx E) (sc_enclave s) cmd True (sc_vm s) = (Inl (Out_of_range ''offset is too far''), sc_vm s)" .
  moreover have "\<not> ec_lost (sc_enclave s)" using e(1) by (simp add: ec_ready_def)
  ultimately have "sgx_receive_read E cmd s = (Inl (System_error ''sgx call failed''), ?s')"
    using e(2) by (simp add: sgx_receive_read_def on_sc_nvme_def prog_simps nv pe_crypt_command_inplace_def sc_invoke_def invoke_def)
  then have "sgx_receive E cmd s = (Inr (NVME_SC_DNR OR NVME_SC_INTERNAL), ?s')"
    using cmd by (simp add: sgx_receive_def catch_std_def)
  moreover have "\<forall>t c r t'. ec_lost (sc_enclave t) \<longrightarrow> opcode c = nvme_cmd_read \<or> opcode c = nvme_cmd_write \<longrightarrow> sgx_receive E c t = (r, t') \<longrightarrow>
       r \<noteq> Inr NVME_SC_SUCCESS \<and> sc_dev t' = sc_dev t \<and> sc_vm t' = sc_vm t \<and> ec_lost (sc_enclave t')"
    using lost_enclave_refuses by blast
  moreover have "sc_vm ?s' = sc_vm s" "sc_dev ?s' = sc_dev s" "ec_lost (sc_enclave ?s')" by simp_all
  ultimately show ?thesis by blast
qed

theorem bad_address_ends_enclave_witness:
  "\<exists>s' r s''. sgx_receive sample_sgx_env (sample_rw 0x8000 0 1) sample_sgx_ctrl = (Inr (NVME_SC_DNR OR NVME_SC_INTERNAL), s') \<and>
     sgx_receive sample_sgx_env (sample_rw 0x1000 0 1) s' = (r, s'') \<and> r \<noteq> Inr NVME_SC_SUCCESS"
proof -
  let ?c = "sample_rw 0x8000 0 1" and ?d = "sample_rw 0x1000 0 1"
  have it: "fst (lba_iter_init (gx_kernel sample_sgx_env) ?c (sc_nvme sample_sgx_ctrl)) = Inr (sample_iter 0x8000)"
    by (simp add: sample_sgx_defs init_eval sample_iter_def)
  have g: "gx_enter sample_sgx_env" and out: "unat (map_size (sc_vm sample_sgx_ctrl)) < unat (prp1 ?c) + 2 ^ 9"
    and vm: "sgx_is_outside_enclave (gx_sgx sample_sgx_env) (map_addr (sc_vm sample_sgx_ctrl)) (map_size (sc_vm sample_sgx_ctrl))"
    by (simp_all add: sample_sgx_defs sample_mem_def sample_rw_def)
  have c: "opcode ?c = nvme_cmd_read" "flags ?c AND NVME_CMD_SGL_ALL = 0" "opcode ?d = nvme_cmd_read" by simp_all
  obtain s' where s': "sgx_receive sample_sgx_env ?c sample_sgx_ctrl = (Inr (NVME_SC_DNR OR NVME_SC_INTERNAL), s')" "ec_lost (sc_enclave s')"
    and later: "\<And>t c r t'. ec_lost (sc_enclave t) \<Longrightarrow> opcode c = nvme_cmd_read \<or> opcode c = nvme_cmd_write \<Longrightarrow>
      sgx_receive sample_sgx_env c t = (r, t') \<Longrightarrow> r \<noteq> Inr NVME_SC_SUCCESS"
    using bad_address_ends_enclave [OF sample_sgx_ready g c(1,2) it sample_env(3) out vm] by blast
  obtain r s'' where "sgx_receive sample_sgx_env ?d s' = (r, s'')" by fastforce
  then show ?thesis using s' later c(3) by blast
qed

end
