(* ===== verification/Options.thy ===== *)
theory Options
  imports Prelude
begin

text \<open>
  The command lines of the programs: the functions of the C library they use (\<open>getopt\<close>, \<open>atoi\<close> and \<open>strtoull\<close>) and the loops over the
  options in the \<open>main\<close> functions of \<open>xcowsrv.cpp\<close>, the encryptors and the replicators.
\<close>

section \<open>Numbers\<close>

definition is_space :: "char \<Rightarrow> bool" where
  "is_space c \<longleftrightarrow> (let v = of_char c :: nat in v = 32 \<or> 9 \<le> v \<and> v \<le> 13)"

definition digit_value :: "char \<Rightarrow> nat option" where
  "digit_value c =
     (let v = of_char c :: nat
      in if 48 \<le> v \<and> v \<le> 57 then Some (v - 48)
         else if 97 \<le> v \<and> v \<le> 122 then Some (v - 87)
         else if 65 \<le> v \<and> v \<le> 90 then Some (v - 55)
         else None)"

text \<open>The value of the digits at the start of a string.\<close>

fun digits_value :: "nat \<Rightarrow> nat \<Rightarrow> string \<Rightarrow> nat" where
  "digits_value base acc [] = acc"
| "digits_value base acc (c # cs) =
     (case digit_value c of None \<Rightarrow> acc | Some d \<Rightarrow> if d < base then digits_value base (acc * base + d) cs else acc)"

definition split_sign :: "string \<Rightarrow> bool \<times> string" where
  "split_sign s =
     (case dropWhile is_space s of
        [] \<Rightarrow> (False, [])
      | c # cs \<Rightarrow> if c = CHR ''-'' then (True, cs) else if c = CHR ''+'' then (False, cs) else (False, c # cs))"

text \<open>\<open>atoi\<close> is \<open>strtol\<close> with base ten, which stops at the ends of its range, cut down to an \<open>int\<close>.\<close>

definition strtol10 :: "string \<Rightarrow> int" where
  "strtol10 s = (case split_sign s of (neg, cs) \<Rightarrow>
     let v = int (digits_value 10 0 cs) in if neg then max (- (2 ^ 63)) (- v) else min (2 ^ 63 - 1) v)"

definition atoi :: "string \<Rightarrow> int" where
  "atoi s = sint (word_of_int (strtol10 s) :: u32)"

text \<open>\<open>strtoull\<close> with base zero: the prefix tells the base; a minus sign negates modulo \<open>2\<^sup>6\<^sup>4\<close>.\<close>

definition prefix_base :: "string \<Rightarrow> nat \<times> string" where
  "prefix_base s =
     (case s of
        a # b # cs \<Rightarrow> if a = CHR ''0'' then (if b = CHR ''x'' \<or> b = CHR ''X'' then (16, cs) else (8, b # cs)) else (10, s)
      | _ \<Rightarrow> (10, s))"

definition strtoull0 :: "string \<Rightarrow> u64" where
  "strtoull0 s = (case split_sign s of (neg, cs) \<Rightarrow>
     case prefix_base cs of (base, ds) \<Rightarrow>
       let v = digits_value base 0 ds
       in if 2 ^ 64 \<le> v then U64_MAX else if neg then - of_nat v else of_nat v)"

text \<open>The decimal form of a number, and that it is read back.\<close>

fun decimal :: "nat \<Rightarrow> string" where
  "decimal n = (if n < 10 then [char_of (48 + n)] else decimal (n div 10) @ [char_of (48 + n mod 10)])"

declare decimal.simps [simp del]

lemma of_char_digit: "d < 10 \<Longrightarrow> of_char (char_of (48 + d) :: char) = 48 + d" for d :: nat
  by (simp add: take_bit_nat_eq_self_iff)

lemma digit_value_digit: "d < 10 \<Longrightarrow> digit_value (char_of (48 + d)) = Some d" for d :: nat
  by (simp add: digit_value_def Let_def of_char_digit del: of_char_of)

lemma digits_value_decimal: "digits_value 10 a (decimal n @ cs) = digits_value 10 (a * 10 ^ length (decimal n) + n) cs"
proof (induction n arbitrary: a cs rule: decimal.induct)
  case (1 n)
  show ?case
  proof (cases "n < 10")
    case True
    then show ?thesis by (simp add: decimal.simps [of n] digit_value_digit)
  next
    case False
    have "(a * 10 ^ length (decimal (n div 10)) + n div 10) * 10 + n mod 10 = a * 10 ^ Suc (length (decimal (n div 10))) + n"
      by (simp add: algebra_simps)
    then show ?thesis using False 1 [of a "char_of (48 + n mod 10) # cs"] by (simp add: decimal.simps [of n] digit_value_digit ac_simps)
  qed
qed

lemma decimal_head: "\<exists>d cs. decimal n = char_of (48 + d) # cs \<and> d < (10 :: nat)"
proof (induction n rule: decimal.induct)
  case (1 n)
  show ?case
  proof (cases "n < 10")
    case True
    then show ?thesis by (intro exI [of _ n]) (simp add: decimal.simps [of n])
  next
    case False
    with 1 obtain d cs where "decimal (n div 10) = char_of (48 + d) # cs" "d < (10 :: nat)" by blast
    then show ?thesis using False by (intro exI [of _ d]) (simp add: decimal.simps [of n])
  qed
qed

lemma split_sign_decimal: "split_sign (decimal n) = (False, decimal n)"
proof -
  obtain d cs where d: "decimal n = char_of (48 + d) # cs" "d < (10 :: nat)" using decimal_head by blast
  have "\<not> is_space (char_of (48 + d))" using d(2) by (simp add: is_space_def Let_def of_char_digit del: of_char_of)
  moreover have "char_of (48 + d) \<noteq> CHR ''-''" "char_of (48 + d) \<noteq> CHR ''+''"
    using of_char_digit [OF d(2)] by (auto simp del: of_char_of)
  ultimately show ?thesis by (simp add: split_sign_def d(1))
qed

lemma atoi_decimal: "n < 2 ^ 31 \<Longrightarrow> atoi (decimal n) = int n"
proof -
  assume n: "n < 2 ^ 31"
  then have "strtol10 (decimal n) = int n"
    using digits_value_decimal [of 0 n "[]"] by (simp add: strtol10_def split_sign_decimal)
  moreover have "int n < 2 ^ 31" using n by (simp add: zless_nat_eq_int_zless nat_less_iff [symmetric])
  then have "signed_take_bit 31 (int n) = int n" by (intro signed_take_bit_int_eq_self) auto
  ultimately show ?thesis by (simp add: atoi_def sint_sbintrunc' del: of_int_of_nat_eq)
qed

section \<open>getopt\<close>

text \<open>
  The letters of an option string; one that is followed by a colon takes an argument. The result for a letter is whether it takes one.
\<close>

fun opt_spec :: "string \<Rightarrow> char \<Rightarrow> bool option" where
  "opt_spec [] c = None"
| "opt_spec (x # xs) c = (if x = c \<and> c \<noteq> CHR '':'' then Some (xs \<noteq> [] \<and> hd xs = CHR '':'') else opt_spec xs c)"

text \<open>
  One word of options, without its dash: every letter is an option, until one takes an argument, which is the rest of the word or else the
  next word. A letter that is not in the option string, and an option without its argument, are reported as a question mark.
\<close>

fun getopt_word :: "string \<Rightarrow> string \<Rightarrow> string list \<Rightarrow> (char \<times> string) list \<times> string list" where
  "getopt_word spec [] ws = ([], ws)"
| "getopt_word spec (c # cs) ws =
     (case opt_spec spec c of
        None \<Rightarrow> (case getopt_word spec cs ws of (os, r) \<Rightarrow> ((CHR ''?'', []) # os, r))
      | Some False \<Rightarrow> (case getopt_word spec cs ws of (os, r) \<Rightarrow> ((c, []) # os, r))
      | Some True \<Rightarrow>
          if cs \<noteq> [] then ([(c, cs)], ws)
          else case ws of [] \<Rightarrow> ([(CHR ''?'', [])], []) | w # r \<Rightarrow> ([(c, w)], r))"

lemma getopt_word_rest: "length (snd (getopt_word spec w ws)) \<le> length ws"
  by (induction spec w ws rule: getopt_word.induct) (auto split: option.splits bool.splits list.splits prod.splits)

text \<open>All options of a command line. Words without a dash are passed over, wherever they stand; two dashes end the options.\<close>

function getopt :: "string \<Rightarrow> string list \<Rightarrow> (char \<times> string) list" where
  "getopt spec [] = []"
| "getopt spec (w # ws) =
     (if w = ''--'' then []
      else if w \<noteq> [] \<and> hd w = CHR ''-'' \<and> tl w \<noteq> []
      then fst (getopt_word spec (tl w) ws) @ getopt spec (snd (getopt_word spec (tl w) ws))
      else getopt spec ws)"
  by pat_completeness auto
termination
  by (relation "measure (\<lambda>(spec, ws). length ws)") (auto simp: less_Suc_eq_le getopt_word_rest)

text \<open>\<open>getopt\<close> reports letters of the option string and question marks only.\<close>

lemma getopt_word_letters: "(c, a) \<in> set (fst (getopt_word spec w ws)) \<Longrightarrow> c = CHR ''?'' \<or> opt_spec spec c \<noteq> None"
  by (induction spec w ws rule: getopt_word.induct) (auto split: option.splits bool.splits list.splits prod.splits if_splits)

lemma getopt_letters: "(c, a) \<in> set (getopt spec ws) \<Longrightarrow> c = CHR ''?'' \<or> opt_spec spec c \<noteq> None"
  by (induction spec ws rule: getopt.induct) (auto split: if_splits dest: getopt_word_letters)

text \<open>
  The words of a command line after which the next one is read as a word of its own: all options have their arguments, and there are no two dashes.
\<close>

fun takes_next :: "string \<Rightarrow> string \<Rightarrow> bool" where
  "takes_next spec [] = False"
| "takes_next spec (c # cs) = (if opt_spec spec c = Some True then cs = [] else takes_next spec cs)"

fun complete_words :: "string \<Rightarrow> string list \<Rightarrow> bool" where
  "complete_words spec [] = True"
| "complete_words spec (w # ws) =
     (w \<noteq> ''--'' \<and>
      (if hd (w @ [CHR ''x'']) = CHR ''-'' \<and> takes_next spec (tl w) then ws \<noteq> [] \<and> complete_words spec (tl ws) else complete_words spec ws))"

lemma getopt_word_append:
  "takes_next spec cs \<longrightarrow> ws \<noteq> [] \<Longrightarrow> getopt_word spec cs (ws @ vs) = (fst (getopt_word spec cs ws), snd (getopt_word spec cs ws) @ vs)"
  by (induction spec cs ws rule: getopt_word.induct) (auto split: option.splits bool.splits list.splits prod.splits if_splits)

lemma getopt_word_left: "snd (getopt_word spec cs ws) = (if takes_next spec cs then tl ws else ws)"
  by (induction spec cs ws rule: getopt_word.induct) (auto split: option.splits bool.splits list.splits prod.splits if_splits)

lemma getopt_append: "complete_words spec ws \<Longrightarrow> getopt spec (ws @ vs) = getopt spec ws @ getopt spec vs"
proof (induction spec ws rule: complete_words.induct)
  case (2 spec w ws)
  show ?case
  proof (cases "w \<noteq> [] \<and> hd w = CHR ''-'' \<and> tl w \<noteq> []")
    case True
    have "takes_next spec (tl w) \<longrightarrow> ws \<noteq> []" using 2(3) True by auto
    from getopt_word_append [OF this, of vs] show ?thesis
      using 2 True by (cases "takes_next spec (tl w)") (auto simp: getopt_word_left hd_append)
  next
    case False
    then have "\<not> (hd (w @ [CHR ''x'']) = CHR ''-'' \<and> takes_next spec (tl w))" by (cases w) auto
    then show ?thesis using 2 False by auto
  qed
qed simp

end
