(* ===== verification/Host.thy ===== *)
theory Host
  imports NvmeCore "HOL-Library.Signed_Division"
begin

text \<open>
  What the programs need of their host: opening the mediated device (\<open>mdev_open\<close>), mapping the memory of the virtual machine
  (\<open>mdev_vm_mmap\<close>, \<open>mdev_vm_mmap_hmb\<close>) of \<open>util/mdev.cpp\<close>, and the difference of two times of \<open>util/time.cpp\<close>. What the
  system calls return is an argument.
\<close>

section \<open>Times\<close>

text \<open>The program is compiled with wrap-around for signed integers; a \<open>long\<close> has 64 bits.\<close>

definition long_wrap :: "int \<Rightarrow> int" where
  "long_wrap = signed_take_bit 63"

record timespec =
  tv_sec :: int
  tv_nsec :: int

text \<open>One definition for both operators: the number of units in a second is \<open>10\<^sup>6\<close> for \<open>timeval\<close> and \<open>10\<^sup>9\<close> for \<open>timespec\<close>.\<close>

definition time_carry_up :: "int \<Rightarrow> timespec \<Rightarrow> timespec \<Rightarrow> timespec" where
  "time_carry_up unit x y =
     (if tv_nsec x < tv_nsec y
      then let nsec = long_wrap ((long_wrap (tv_nsec y - tv_nsec x) sdiv unit) + 1)
           in \<lparr>tv_sec = long_wrap (tv_sec y + nsec), tv_nsec = long_wrap (tv_nsec y - long_wrap (unit * nsec))\<rparr>
      else y)"

definition time_carry_down :: "int \<Rightarrow> timespec \<Rightarrow> timespec \<Rightarrow> timespec" where
  "time_carry_down unit x y =
     (if unit < long_wrap (tv_nsec x - tv_nsec y)
      then let nsec = long_wrap (tv_nsec x - tv_nsec y) sdiv unit
           in \<lparr>tv_sec = long_wrap (tv_sec y - nsec), tv_nsec = long_wrap (tv_nsec y + long_wrap (unit * nsec))\<rparr>
      else y)"

definition time_minus :: "int \<Rightarrow> timespec \<Rightarrow> timespec \<Rightarrow> int" where
  "time_minus unit x y0 =
     (let y = time_carry_down unit x (time_carry_up unit x y0);
          n = long_wrap (long_wrap (unit * long_wrap (tv_sec x - tv_sec y)) + long_wrap (tv_nsec x - tv_nsec y))
      in if tv_sec x < tv_sec y then long_wrap (- n) else n)"

definition timeval_minus :: "timespec \<Rightarrow> timespec \<Rightarrow> int" where
  "timeval_minus = time_minus 1000000"

definition timespec_minus :: "timespec \<Rightarrow> timespec \<Rightarrow> int" where
  "timespec_minus = time_minus 1000000000"

lemma long_wrap_id: "- (2 ^ 63) \<le> n \<Longrightarrow> n < 2 ^ 63 \<Longrightarrow> long_wrap n = n"
  by (simp add: long_wrap_def signed_take_bit_int_eq_self)

lemma sdiv_small: "0 \<le> a \<Longrightarrow> a < b \<Longrightarrow> a sdiv b = 0" for a b :: int
  by (simp add: signed_divide_int_def sgn_if)

text \<open>
  For times whose fractions are in range, the operator gives the distance between the times, whichever is the later: the sign is
  lost.
\<close>

theorem time_difference_is_distance:
  assumes unit: "unit = 1000000 \<or> unit = 1000000000"
    and x: "0 \<le> tv_nsec x" "tv_nsec x < unit" "0 \<le> tv_sec x" "tv_sec x < 2 ^ 32"
    and y: "0 \<le> tv_nsec y" "tv_nsec y < unit" "0 \<le> tv_sec y" "tv_sec y < 2 ^ 32"
  shows "time_minus unit x y = \<bar>(unit * tv_sec x + tv_nsec x) - (unit * tv_sec y + tv_nsec y)\<bar>"
proof -
  let ?c = "tv_nsec x < tv_nsec y"
  let ?y = "if ?c then \<lparr>tv_sec = tv_sec y + 1, tv_nsec = tv_nsec y - unit\<rparr> else y"
  have up: "time_carry_up unit x y = ?y"
  proof (cases ?c)
    case True
    have "long_wrap (tv_nsec y - tv_nsec x) sdiv unit = 0"
      using True unit x(1,2) y(1,2) by (subst long_wrap_id) (auto intro!: sdiv_small)
    then show ?thesis using True unit y by (auto simp: time_carry_up_def long_wrap_id)
  qed (simp add: time_carry_up_def)
  have down: "time_carry_down unit x ?y = ?y" using unit x y by (auto simp: time_carry_down_def long_wrap_id split: if_splits)
  have fr: "long_wrap (tv_nsec x - tv_nsec ?y) = tv_nsec x - tv_nsec ?y" using unit x y by (auto simp: long_wrap_id)
  have se: "long_wrap (tv_sec x - tv_sec ?y) = tv_sec x - tv_sec ?y" using x y by (auto simp: long_wrap_id)
  have un: "long_wrap (unit * (tv_sec x - tv_sec ?y)) = unit * (tv_sec x - tv_sec ?y)" using unit x y by (auto simp: long_wrap_id)
  let ?n = "unit * (tv_sec x - tv_sec ?y) + (tv_nsec x - tv_nsec ?y)"
  have n: "long_wrap ?n = ?n" "long_wrap (- ?n) = - ?n" using unit x y by (auto simp: long_wrap_id)
  have eq: "?n = (unit * tv_sec x + tv_nsec x) - (unit * tv_sec y + tv_nsec y)" by (auto simp: algebra_simps)
  have "time_minus unit x y = (if tv_sec x < tv_sec ?y then - ?n else ?n)"
    unfolding time_minus_def up down Let_def fr se un n ..
  also have "\<dots> = \<bar>?n\<bar>" using unit x y by auto
  finally show ?thesis by (simp only: eq)
qed

section \<open>Opening the device\<close>

text \<open>What \<open>open\<close> and the \<open>ioctl\<close> calls return, in the order they are made.\<close>

record vfio =
  vf_container :: int
  vf_api_known :: bool
  vf_type1 :: bool
  vf_group :: int
  vf_viable :: bool
  vf_set_container :: int
  vf_set_iommu :: int
  vf_device :: int
  vf_vq_count :: int
  vf_open_queue :: "nat \<Rightarrow> int"

text \<open>The descriptors that are closed when the function returns stand beside its result, in the order of their closing.\<close>

definition mdev_queues :: "vfio \<Rightarrow> int list \<Rightarrow> int list" where
  "mdev_queues V sqfd =
     (let qcount = if 1 < vf_vq_count V then min (vf_vq_count V) (int (length sqfd)) else int (length sqfd)
      in fold (\<lambda>i qs. qs[i := vf_open_queue V i]) [0..<nat qcount] (replicate (length sqfd) (-1)))"

definition mdev_open :: "vfio \<Rightarrow> int list \<Rightarrow> int \<times> int list \<times> int list" where
  "mdev_open V sqfd =
     (if vf_container V < 0 then (-1, sqfd, [])
      else if \<not> vf_api_known V \<or> \<not> vf_type1 V \<or> vf_group V < 0 then (-1, sqfd, [vf_container V])
      else if \<not> vf_viable V \<or> vf_set_container V < 0 \<or> vf_set_iommu V < 0 \<or> vf_device V < 0
      then (-1, sqfd, [vf_group V, vf_container V])
      else (0, mdev_queues V sqfd, [vf_device V, vf_group V, vf_container V]))"

lemma fold_updates: "n \<le> length qs \<Longrightarrow> fold (\<lambda>i qs. qs[i := f i]) [0..<n] qs = map f [0..<n] @ drop n qs"
proof (induction n)
  case (Suc n)
  have "(map f [0..<n] @ drop n qs)[n := f n] = map f [0..<n] @ (drop n qs)[0 := f n]" by (simp add: list_update_append)
  moreover have "(drop n qs)[0 := f n] = f n # drop (Suc n) qs" using Suc.prems by (simp add: Cons_nth_drop_Suc [symmetric])
  ultimately show ?case using Suc by simp
qed simp

text \<open>A program starts with one descriptor for each queue it has room for; the ones the device does not have, or does not open, are negative.\<close>

lemma mdev_queues_n:
  defines "q \<equiv> \<lambda>V n. if 1 < vf_vq_count V then min (nat (vf_vq_count V)) n else n"
  shows "mdev_queues V sqfd = map (vf_open_queue V) [0..<q V (length sqfd)] @ replicate (length sqfd - q V (length sqfd)) (-1)"
  unfolding mdev_queues_def Let_def by (subst fold_updates) (auto simp: q_def min_def nat_le_iff)

section \<open>The memory of the virtual machine\<close>

text \<open>
  The memory of a machine is a file; its beginning is the machine's memory below 4 GiB, the rest its memory from 4 GiB on. A mapping is
  its length, and for every offset into it the offset of the file behind it, if there is any. \<open>mmap\<close> maps whole pages, and
  refuses to map nothing.
\<close>

definition GIB4 :: u64 where
  "GIB4 = push_bit 30 4"

record vm_map =
  vm_len :: u64
  vm_file :: "nat \<Rightarrow> nat option"

definition map_fixed :: "nat \<Rightarrow> nat \<Rightarrow> nat \<Rightarrow> (nat \<Rightarrow> nat option) \<Rightarrow> nat \<Rightarrow> nat option" where
  "map_fixed off n foff file a = (if off \<le> a \<and> a < off + (n + 4095) div 4096 * 4096 then Some (foff + (a - off)) else file a)"

text \<open>What \<open>fstat\<close> says, and whether the calls of \<open>mmap\<close> and \<open>madvise\<close> succeed.\<close>

record host_mem =
  hm_stat :: "u64 option"
  hm_reserve :: bool
  hm_low :: bool
  hm_high :: bool
  hm_advise :: "nat \<Rightarrow> bool"

definition mdev_vm_mmap :: "host_mem \<Rightarrow> u64 \<Rightarrow> vm_map result" where
  "mdev_vm_mmap H below0 =
     (if below0 AND of_nat (NVME_PAGE_SIZE - 1) \<noteq> 0 then Inl (Invalid_argument ''low memory size is not page aligned'')
      else case hm_stat H of
             None \<Rightarrow> Inl (System_error ''cannot stat mem file'')
           | Some st_size \<Rightarrow>
               let small = sint st_size \<le> sint below0;
                   pvm_size = if small then st_size else GIB4 + st_size - below0;
                   below = if small then st_size else below0;
                   hisize = st_size - below;
                   low = map_fixed 0 (unat below) 0 (\<lambda>_. None);
                   high = map_fixed (unat GIB4) (unat hisize) (unat below) low
               in if \<not> hm_reserve H \<or> pvm_size = 0 then Inl (System_error ''cannot mmap vmmem region'')
                  else if \<not> hm_advise H 0 then Inl (System_error ''cannot madvise(MADV_DONTDUMP) vmmem region'')
                  else if \<not> hm_low H \<or> below = 0 then Inl (System_error ''cannot mmap low memory'')
                  else if \<not> hm_advise H 1 then Inl (System_error ''cannot madvise(MADV_DONTDUMP) low memory'')
                  else if 0 < hisize
                  then if \<not> hm_high H then Inl (System_error ''cannot mmap high memory'')
                       else if \<not> hm_advise H 2 then Inl (System_error ''cannot madvise(MADV_DONTDUMP) high memory'')
                       else Inr \<lparr>vm_len = pvm_size, vm_file = high\<rparr>
                  else Inr \<lparr>vm_len = pvm_size, vm_file = low\<rparr>)"

definition fileoff_to_vaddr :: "u64 \<Rightarrow> u64 \<Rightarrow> u64" where
  "fileoff_to_vaddr off below = (if off < below then off else GIB4 + off - below)"

definition vaddr_to_fileoff :: "u64 \<Rightarrow> u64 \<Rightarrow> u64" where
  "vaddr_to_fileoff addr below = (if addr < below then addr else if addr < GIB4 then U64_MAX else addr - GIB4 + below)"

text \<open>The buffer that the machine lends to the controller, from a list of page ranges. Lengths are shifted as 32-bit numbers.\<close>

record hmb_dl_entry =
  hd_badd :: u64
  hd_bpages :: u32

fun hmb_loop :: "(nat \<Rightarrow> bool) \<Rightarrow> u64 \<Rightarrow> u32 \<Rightarrow> hmb_dl_entry list \<Rightarrow> u32 \<Rightarrow> nat \<Rightarrow> (nat \<Rightarrow> nat option) \<Rightarrow> u32 \<times> (nat \<Rightarrow> nat option) option" where
  "hmb_loop ok below pages [] mapped start file = (mapped, Some file)"
| "hmb_loop ok below pages (e # es) mapped start file =
     (let add = hd_badd e AND NOT (of_nat (NVME_PAGE_SIZE - 1)); foff = vaddr_to_fileoff add below; count = hd_bpages e;
          n = unat (push_bit NVME_PAGE_SHIFT count)
      in if 2 ^ 32 \<le> unat mapped + unat count \<or> pages < mapped + count \<or> foff = U64_MAX then (mapped, Some file)
         else if \<not> ok (length es) \<or> n = 0 then (mapped, None)
         else hmb_loop ok below pages es (mapped + count) (start + n) (map_fixed start n (unat foff) file))"

definition mdev_vm_mmap_hmb :: "bool \<Rightarrow> bool \<Rightarrow> (nat \<Rightarrow> bool) \<Rightarrow> u64 \<Rightarrow> u32 \<Rightarrow> hmb_dl_entry list \<Rightarrow> (u32 \<times> (nat \<Rightarrow> nat option) option) result" where
  "mdev_vm_mmap_hmb reserve advise ok below pages hmdl =
     (if \<not> reserve \<or> push_bit NVME_PAGE_SHIFT pages = 0 then Inl (System_error ''cannot mmap hmb scaffolding'')
      else if \<not> advise then Inl (System_error ''cannot madvise(MADV_DONTDUMP) hmb scaffolding'')
      else Inr (hmb_loop ok below pages hmdl 0 0 (\<lambda>_. None)))"

lemma hmb_within: "mapped \<le> pages \<Longrightarrow> hmb_loop ok below pages es mapped start fm = (m, r) \<Longrightarrow> m \<le> pages"
proof (induction es arbitrary: mapped start fm)
  case (Cons e es)
  then show ?case by (auto simp: Let_def not_less split: if_splits)
qed simp

text \<open>The sizes as natural numbers.\<close>

lemma GIB4_n [simp]: "unat GIB4 = 4294967296"
  by (simp add: GIB4_def push_bit_eq_mult)

lemma sint_small_le: "unat v < 2 ^ 63 \<Longrightarrow> unat w < 2 ^ 63 \<Longrightarrow> sint v \<le> sint w \<longleftrightarrow> v \<le> w" for v w :: u64
proof -
  assume v: "unat v < 2 ^ 63" and w: "unat w < 2 ^ 63"
  have "sint u = uint u" if "unat u < 2 ^ 63" for u :: u64
  proof -
    have "uint u < 2 ^ 63" using that by (metis of_nat_less_numeral_power_cancel_iff of_nat_unat)
    moreover have "- (2 ^ 63) \<le> uint u" by (rule order_trans [OF _ uint_ge_0]) simp
    ultimately show ?thesis by (simp add: sint_uint signed_take_bit_int_eq_self)
  qed
  then show ?thesis using v w by (simp add: word_le_def)
qed

lemma unat_high: "unat below \<le> 4294967296 \<Longrightarrow> unat off < 2 ^ 62 \<Longrightarrow> below \<le> off \<Longrightarrow> unat (GIB4 + off - below) = 4294967296 + unat off - unat below"
  by (simp add: word_le_nat_alt unat_sub_if' unat_plus_if')

lemma unat_back: "GIB4 \<le> a \<Longrightarrow> unat below \<le> 4294967296 \<Longrightarrow> unat a < 2 ^ 63 \<Longrightarrow> unat (a - GIB4 + below) = unat a - 4294967296 + unat below"
  by (simp add: word_le_nat_alt unat_sub_if' unat_plus_if')

text \<open>The two translations, for addresses above the hole and for offsets in the file.\<close>

lemma vaddr_high:
  assumes "GIB4 \<le> a" "unat a < 2 ^ 63" "unat below \<le> 4294967296"
  shows "unat (vaddr_to_fileoff a below) = unat a - 4294967296 + unat below" "vaddr_to_fileoff a below \<noteq> U64_MAX"
proof -
  have u: "4294967296 \<le> unat a" using assms(1) by (simp add: word_le_nat_alt)
  have b: "unat (a - GIB4 + below) = unat a - 4294967296 + unat below" by (rule unat_back [OF assms(1)]) (use u assms in simp_all)
  have eq: "vaddr_to_fileoff a below = a - GIB4 + below"
    using u assms by (simp add: vaddr_to_fileoff_def word_less_nat_alt)
  show "unat (vaddr_to_fileoff a below) = unat a - 4294967296 + unat below" unfolding eq by (rule b)
  have "unat (a - GIB4 + below) < 2 ^ 63" using b u assms by linarith
  then show "vaddr_to_fileoff a below \<noteq> U64_MAX" unfolding eq by auto
qed

lemma offset_round_trip:
  assumes "unat off < 2 ^ 62" "unat below \<le> 4294967296"
  shows "vaddr_to_fileoff (fileoff_to_vaddr off below) below = off"
    "unat (fileoff_to_vaddr off below) = (if off < below then unat off else 4294967296 + unat off - unat below)"
proof -
  have "unat (GIB4 + off - below) = 4294967296 + unat off - unat below" if "\<not> off < below"
    by (rule unat_high) (use that assms in \<open>simp_all add: word_less_nat_alt word_le_nat_alt\<close>)
  moreover from this have "\<not> GIB4 + off - below < below" "\<not> GIB4 + off - below < GIB4" if "\<not> off < below"
    using that assms by (simp_all add: word_less_nat_alt)
  ultimately show "vaddr_to_fileoff (fileoff_to_vaddr off below) below = off"
    "unat (fileoff_to_vaddr off below) = (if off < below then unat off else 4294967296 + unat off - unat below)"
    by (simp_all add: fileoff_to_vaddr_def vaddr_to_fileoff_def)
qed

text \<open>
  C32. The machine's memory is mapped as its address space says. When \<open>mdev_vm_mmap\<close> succeeds on a memory file of whole pages, with at
  most 4 GiB of low memory, the byte behind every address of the mapping is the one \<open>vaddr_to_fileoff\<close> names, and the addresses for which it
  names none, between the low memory and 4 GiB, are not accessible. Every byte of the file has its place: \<open>fileoff_to_vaddr\<close> gives an address inside
  the mapping, which leads back to the byte.
\<close>

theorem guest_memory_layout:
  assumes ok: "mdev_vm_mmap H below = Inr vm" "hm_stat H = Some st"
    and sizes: "unat st < 2 ^ 62" "4096 dvd unat st" "unat below \<le> 4294967296" "4096 dvd unat below"
  shows "(\<forall>a < vm_len vm. vm_file vm (unat a) = (if vaddr_to_fileoff a below = U64_MAX then None else Some (unat (vaddr_to_fileoff a below)))) \<and>
    (\<forall>off < st. fileoff_to_vaddr off below < vm_len vm \<and> vaddr_to_fileoff (fileoff_to_vaddr off below) below = off)"
proof -
  have pages: "(n + 4095) div 4096 * 4096 = n" if "4096 dvd n" for n :: nat using that by (auto elim!: dvdE)
  have cmp: "sint st \<le> sint below \<longleftrightarrow> st \<le> below" by (rule sint_small_le) (use sizes in simp_all)
  have rt: "vaddr_to_fileoff (fileoff_to_vaddr off below) below = off" if "off < st" for off
    by (rule offset_round_trip) (use that sizes in \<open>simp_all add: word_less_nat_alt\<close>)
  show ?thesis
  proof (cases "st \<le> below")
    case True
    then have vm: "vm_len vm = st" "vm_file vm = map_fixed 0 (unat st) 0 (\<lambda>_. None)"
      using ok by (auto simp: mdev_vm_mmap_def cmp Let_def split: if_splits)
    have "a \<noteq> U64_MAX" if "a < st" for a using that sizes(1) by (auto simp: word_less_nat_alt)
    moreover have "vaddr_to_fileoff a below = a" "fileoff_to_vaddr a below = a" if "a < st" for a
      using that True by (auto simp: vaddr_to_fileoff_def fileoff_to_vaddr_def)
    ultimately show ?thesis using vm pages [OF sizes(2)] by (auto simp: map_fixed_def word_less_nat_alt)
  next
    case False
    then have lt: "unat below < unat st" by (simp add: word_less_nat_alt [symmetric] not_le)
    have hi: "unat (st - below) = unat st - unat below" using lt by (simp add: unat_sub word_le_nat_alt)
    have pos: "0 < st - below" using hi lt by (simp add: word_less_nat_alt)
    have vm: "vm_len vm = GIB4 + st - below"
      "vm_file vm = map_fixed 4294967296 (unat st - unat below) (unat below) (map_fixed 0 (unat below) 0 (\<lambda>_. None))"
      using ok False pos by (auto simp: mdev_vm_mmap_def cmp Let_def hi split: if_splits)
    have len: "unat (vm_len vm) = 4294967296 + unat st - unat below" using unat_high [of below st] sizes lt by (simp add: vm(1) word_le_nat_alt)
    have "vm_file vm (unat a) = (if vaddr_to_fileoff a below = U64_MAX then None else Some (unat (vaddr_to_fileoff a below)))" if a: "a < vm_len vm" for a
    proof (cases "GIB4 \<le> a")
      case True
      have u: "unat a < 4294967296 + unat st - unat below" "4294967296 \<le> unat a" using a True len by (simp_all add: word_less_nat_alt word_le_nat_alt)
      have "unat a < 2 ^ 63" using u(1) sizes(1) by simp
      moreover have "(unat st - unat below + 4095) div 4096 * 4096 = unat st - unat below" by (rule pages) (use sizes in \<open>simp add: dvd_diff_nat\<close>)
      ultimately show ?thesis using u lt vaddr_high [OF True _ sizes(3)] by (simp add: vm(2) map_fixed_def)
    next
      case False
      then have u: "unat a < 4294967296" by (simp add: word_le_nat_alt)
      then have "a \<noteq> U64_MAX" by auto
      then show ?thesis using u False pages [OF sizes(4)] by (auto simp: vaddr_to_fileoff_def vm(2) map_fixed_def word_less_nat_alt)
    qed
    moreover have "fileoff_to_vaddr off below < vm_len vm" if off: "off < st" for off
      using offset_round_trip(2) [of off below] off sizes lt len by (auto simp: word_less_nat_alt)
    ultimately show ?thesis using rt by blast
  qed
qed

definition sample_host :: host_mem where
  "sample_host = \<lparr>hm_stat = Some 0x180000000, hm_reserve = True, hm_low = True, hm_high = True, hm_advise = (\<lambda>_. True)\<rparr>"

theorem guest_memory_layout_witness:
  "\<exists>vm. mdev_vm_mmap sample_host 0x80000000 = Inr vm \<and> vm_len vm = 0x200000000 \<and> vm_file vm 0x100000000 = Some 0x80000000 \<and> vm_file vm 0x90000000 = None"
proof -
  have "\<exists>vm. mdev_vm_mmap sample_host 0x80000000 = Inr vm \<and> vm_len vm = 0x200000000"
    by (simp add: mdev_vm_mmap_def sample_host_def Let_def GIB4_def push_bit_eq_mult)
  then obtain vm where vm: "mdev_vm_mmap sample_host 0x80000000 = Inr vm" "vm_len vm = 0x200000000" by blast
  have f: "vm_file vm (unat a) = (if vaddr_to_fileoff a 0x80000000 = U64_MAX then None else Some (unat (vaddr_to_fileoff a 0x80000000)))"
    if "a < vm_len vm" for a
    using guest_memory_layout [OF vm(1), of "0x180000000"] that by (simp add: sample_host_def)
  show ?thesis
    using f [of "0x100000000"] f [of "0x90000000"] vm by (simp add: vaddr_to_fileoff_def GIB4_def push_bit_eq_mult)
qed

end
