(* ===== verification/Sender.thy ===== *)
theory Sender
  imports EncryptorProps Uring
begin

text \<open>
  The replicating functions (\<open>nvme_sender.cpp\<close>, \<open>nvme_sender_aio.cpp\<close>): they repeat a write on a second block device,
  synchronously or through the asynchronous ring.
\<close>

section \<open>The synchronous sender\<close>

text \<open>
  The system calls: how many bytes \<open>pwritev2\<close> takes (or a negative number), and the error numbers of \<open>fallocate\<close> and
  \<open>fdatasync\<close>, 0 for success.
\<close>

record sender_env =
  sd_kernel :: nvme_kernel
  sd_pwritev2 :: "iovec list \<Rightarrow> u64 \<Rightarrow> int \<Rightarrow> int"
  sd_fallocate :: "u64 \<Rightarrow> u64 \<Rightarrow> int"
  sd_fdatasync :: int

record sender_ctrl =
  sd_nvme :: nvme
  sd_vm :: mapping
  sd_dev :: "nat \<Rightarrow> u8"
  sd_wvec :: "iovec list"

type_synonym 'a sprog = "(sender_ctrl, 'a) prog"

definition on_sd_nvme :: "(nvme, 'a) prog \<Rightarrow> 'a sprog" where
  "on_sd_nvme = zoom sd_nvme (\<lambda>t s. s\<lparr>sd_nvme := t\<rparr>)"

text \<open>
  The constructor asks for the controller's data; the capacity it reserves has no effect. \<open>id_vctrl\<close> throws before it could return an
  empty pointer for an error, and \<open>1 << mdts\<close> is an \<open>int\<close>.
\<close>

definition nvme_sender_make :: "sender_env \<Rightarrow> mapping \<Rightarrow> (nat \<Rightarrow> u8) \<Rightarrow> sender_ctrl result" where
  "nvme_sender_make E vm dev =
     (case id_vctrl (sd_kernel E) nvme_init of
        (Inl e, nv) \<Rightarrow> Inl e
      | (Inr None, nv) \<Rightarrow> Inl (Undefined ''null pointer'')
      | (Inr (Some c), nv) \<Rightarrow>
          if 31 \<le> unat (mdts c) then Inl (Undefined ''shift'')
          else Inr \<lparr>sd_nvme = nv, sd_vm = vm, sd_dev = dev, sd_wvec = []\<rparr>)"

text \<open>The loop over the pages. Every step covers at least one byte, so the number of bytes is enough fuel.\<close>

fun wvec_loop :: "mapping \<Rightarrow> nat \<Rightarrow> prp_chain_iter \<Rightarrow> iovec list \<Rightarrow> iovec list result" where
  "wvec_loop m 0 it v = (if prp_at_end it then Inr v else Inl (Undefined ''loop without progress''))"
| "wvec_loop m (Suc n) it v =
     (if prp_at_end it then Inr v
      else rbind (prp_deref m it) (\<lambda>a.
           rbind (prp_this_nbytes m it) (\<lambda>k.
           rbind (get_span m a k) (\<lambda>lbad.
           rbind (prp_incr m it) (\<lambda>it'.
             wvec_loop m n it' (v @ [\<lparr>iov_base = map_addr m + fst lbad, iov_len = snd lbad\<rparr>]))))))"

text \<open>The bytes a scatter list stands for, in guest memory.\<close>

definition iov_data :: "mapping \<Rightarrow> iovec list \<Rightarrow> u8 list" where
  "iov_data m v = concat (map (\<lambda>x. span_bytes m (iov_base x - map_addr m, iov_len x)) v)"

definition sender_write :: "sender_env \<Rightarrow> nvme_command \<Rightarrow> u16 sprog" where
  "sender_write E cmd =
     sbind (on_sd_nvme (ns_lba_shift (sd_kernel E) (nsid cmd))) (\<lambda>lbas.
     sbind (on_sd_nvme (ns_cmd_check_nbytes (sd_kernel E) (cmd_nblocks cmd) lbas)) (\<lambda>nbytes.
     sbind (smod (\<lambda>s. s\<lparr>sd_wvec := []\<rparr>)) (\<lambda>_.
     sbind (\<lambda>s. (wvec_loop (sd_vm s) (unat nbytes) (prp_init (prp1 cmd) (prp2 cmd) nbytes) [], s)) (\<lambda>wvec.
     sbind (smod (\<lambda>s. s\<lparr>sd_wvec := wvec\<rparr>)) (\<lambda>_.
     let off = push_bit lbas (rw_slba cmd);
         ret = sd_pwritev2 E wvec off (if rw_control cmd AND NVME_RW_FUA \<noteq> 0 then RWF_DSYNC else 0)
     in sbind (smod (\<lambda>s. s\<lparr>sd_dev := dev_put (unat off) (take (nat ret) (iov_data (sd_vm s) wvec)) (sd_dev s)\<rparr>)) (\<lambda>_.
        return (if ret \<noteq> uint nbytes then NVME_SC_DNR OR NVME_SC_INTERNAL else NVME_SC_SUCCESS)))))))"

definition EFBIG :: int where "EFBIG = 27"
definition EIO :: int where "EIO = 5"

definition sender_write_zeroes :: "sender_env \<Rightarrow> nvme_command \<Rightarrow> u16 sprog" where
  "sender_write_zeroes E cmd =
     sbind (on_sd_nvme (ns_lba_shift (sd_kernel E) (nsid cmd))) (\<lambda>lbas.
       if 64 \<le> lbas then raise (Undefined ''shift'')
       else
         let off = push_bit lbas (rw_slba cmd); len = push_bit lbas (cmd_nblocks cmd); errno = sd_fallocate E off len
         in if errno \<noteq> 0
            then return (if errno = EFBIG then NVME_SC_DNR OR NVME_SC_LBA_RANGE
                         else if errno = EIO then NVME_SC_INTERNAL else NVME_SC_DNR OR NVME_SC_INTERNAL)
            else sbind (smod (\<lambda>s. s\<lparr>sd_dev := dev_put (unat off) (replicate (unat len) 0) (sd_dev s)\<rparr>)) (\<lambda>_.
                 return NVME_SC_SUCCESS))"

definition sender_flush :: "sender_env \<Rightarrow> u16 sprog" where
  "sender_flush E = return (if sd_fdatasync E \<noteq> 0 then NVME_SC_DNR OR NVME_SC_INTERNAL else NVME_SC_SUCCESS)"

definition sender_receive :: "sender_env \<Rightarrow> nvme_command \<Rightarrow> u16 sprog" where
  "sender_receive E cmd =
     catch_std
       (if opcode cmd = nvme_cmd_write \<and> flags cmd AND NVME_CMD_SGL_ALL = 0 then sender_write E cmd
        else if opcode cmd = nvme_cmd_write_zeroes then sender_write_zeroes E cmd
        else if opcode cmd = nvme_cmd_flush then sender_flush E
        else return (NVME_SC_DNR OR NVME_SC_INVALID_OPCODE))"

section \<open>The asynchronous sender\<close>

text \<open>A ticket owns the scatter list of its request.\<close>

record iovec_ticket = sq_ticket +
  it_iovecs :: "iovec list"

record sender_aio_env =
  sx_kernel :: nvme_kernel
  sx_uring :: liburing

record sender_aio =
  sa_nvme :: nvme
  sa_vm :: mapping
  sa_ring :: uring
  sa_heap :: "nat \<Rightarrow> iovec_ticket option"
  sa_fresh :: nat

type_synonym 'a saprog = "(sender_aio, 'a) prog"

definition on_sa_nvme :: "(nvme, 'a) prog \<Rightarrow> 'a saprog" where
  "on_sa_nvme = zoom sa_nvme (\<lambda>t s. s\<lparr>sa_nvme := t\<rparr>)"

definition on_sa_ring :: "(uring, 'a) prog \<Rightarrow> 'a saprog" where
  "on_sa_ring = zoom sa_ring (\<lambda>t s. s\<lparr>sa_ring := t\<rparr>)"

definition nvme_sender_aio_make :: "sender_aio_env \<Rightarrow> mapping \<Rightarrow> int \<Rightarrow> sender_aio result" where
  "nvme_sender_aio_make E vm bfd =
     rbind (uring_make (sx_uring E) 2048 0 [bfd] []) (\<lambda>ring.
       Inr \<lparr>sa_nvme = nvme_init, sa_vm = vm, sa_ring = ring, sa_heap = (\<lambda>_. None), sa_fresh = 0\<rparr>)"

definition new_iovec_ticket :: "u32 \<Rightarrow> nat saprog" where
  "new_iovec_ticket tag =
     sbind (sget sa_fresh) (\<lambda>i.
     sbind (smod (\<lambda>s. s\<lparr>sa_heap := (sa_heap s)(i \<mapsto> \<lparr>tk_tag = tag, it_iovecs = []\<rparr>), sa_fresh := i + 1\<rparr>)) (\<lambda>_. return i))"

definition set_iovecs :: "nat \<Rightarrow> iovec list \<Rightarrow> unit saprog" where
  "set_iovecs t v = smod (\<lambda>s. s\<lparr>sa_heap := (sa_heap s)(t := map_option (\<lambda>k. k\<lparr>it_iovecs := v\<rparr>) (sa_heap s t))\<rparr>)"

fun iovecs_loop :: "mapping \<Rightarrow> nat \<Rightarrow> prp_chain_iter \<Rightarrow> iovec list \<Rightarrow> iovec list result" where
  "iovecs_loop m 0 it v = (if prp_at_end it then Inr v else Inl (Undefined ''loop without progress''))"
| "iovecs_loop m (Suc n) it v =
     (if prp_at_end it then Inr v
      else rbind (prp_deref m it) (\<lambda>a.
           rbind (prp_this_nbytes m it) (\<lambda>k.
           rbind (get_span m a k) (\<lambda>sp.
           rbind (prp_incr m it) (\<lambda>it'. iovecs_loop m n it' (iovec_append v (map_addr m + fst sp) (snd sp)))))))"

definition sender_aio_submit_write :: "sender_aio_env \<Rightarrow> nvme_command \<Rightarrow> u32 \<Rightarrow> unit saprog" where
  "sender_aio_submit_write E cmd tag =
     sbind (on_sa_nvme (ns_lba_shift (sx_kernel E) (nsid cmd))) (\<lambda>lbas.
     sbind (on_sa_nvme (ns_cmd_check_nbytes (sx_kernel E) (cmd_nblocks cmd) lbas)) (\<lambda>nbytes.
     sbind (new_iovec_ticket tag) (\<lambda>t.
     sbind (\<lambda>s. (iovecs_loop (sa_vm s) (unat nbytes) (prp_init (prp1 cmd) (prp2 cmd) nbytes) [], s)) (\<lambda>v.
     sbind (set_iovecs t v) (\<lambda>_.
     sbind (on_sa_ring (queue_writev (sx_uring E) t v True 0 (push_bit lbas (rw_slba cmd))
         (if rw_control cmd AND NVME_RW_FUA \<noteq> 0 then RWF_DSYNC else 0))) (\<lambda>_. return ()))))))"

definition sender_aio_submit_write_zeroes :: "sender_aio_env \<Rightarrow> nvme_command \<Rightarrow> u32 \<Rightarrow> unit saprog" where
  "sender_aio_submit_write_zeroes E cmd tag =
     sbind (on_sa_nvme (ns_lba_shift (sx_kernel E) (nsid cmd))) (\<lambda>lbas.
       if 64 \<le> lbas then raise (Undefined ''shift'')
       else sbind (new_iovec_ticket tag) (\<lambda>t.
            sbind (on_sa_ring (queue_fallocate (sx_uring E) t True 0 FALLOC_FL_ZERO_RANGE (push_bit lbas (rw_slba cmd))
                (push_bit lbas (cmd_nblocks cmd)))) (\<lambda>_. return ())))"

definition sender_aio_submit_flush :: "sender_aio_env \<Rightarrow> u32 \<Rightarrow> unit saprog" where
  "sender_aio_submit_flush E tag =
     sbind (new_iovec_ticket tag) (\<lambda>t.
     sbind (on_sa_ring (queue_fsync (sx_uring E) t True 0 IORING_FSYNC_DATASYNC)) (\<lambda>_. return ()))"

definition sender_aio_submit_async :: "sender_aio_env \<Rightarrow> nvme_command \<Rightarrow> u32 \<Rightarrow> u16 saprog" where
  "sender_aio_submit_async E cmd tag =
     (if opcode cmd = nvme_cmd_write \<and> flags cmd AND NVME_CMD_SGL_ALL = 0
      then sbind (sender_aio_submit_write E cmd tag) (\<lambda>_. return NVME_SC_SUCCESS)
      else if opcode cmd = nvme_cmd_write_zeroes then sbind (sender_aio_submit_write_zeroes E cmd tag) (\<lambda>_. return NVME_SC_SUCCESS)
      else if opcode cmd = nvme_cmd_flush then sbind (sender_aio_submit_flush E tag) (\<lambda>_. return NVME_SC_SUCCESS)
      else return (NVME_SC_DNR OR NVME_SC_INVALID_OPCODE))"

section \<open>Properties\<close>

definition iov_of :: "mapping \<Rightarrow> u64 \<times> u64 \<Rightarrow> iovec" where
  "iov_of m sp = \<lparr>iov_base = map_addr m + fst sp, iov_len = snd sp\<rparr>"

definition buffer_bytes :: "mapping \<Rightarrow> (u64 \<times> u64) list \<Rightarrow> u8 list" where
  "buffer_bytes m cs = concat (map (span_bytes m) cs)"

definition in_memory :: "mapping \<Rightarrow> (u64 \<times> u64) list \<Rightarrow> bool" where
  "in_memory m cs \<longleftrightarrow> (\<forall>(a, n) \<in> set cs. unat a + unat n \<le> unat (map_size m))"

definition iov_ok :: "mapping \<Rightarrow> iovec list \<Rightarrow> bool" where
  "iov_ok m v \<longleftrightarrow> (\<forall>x \<in> set v. unat (iov_base x - map_addr m) + unat (iov_len x) \<le> unat (map_size m))"

lemma iov_data_simps [simp]: "iov_data m [] = []" "iov_data m (v @ w) = iov_data m v @ iov_data m w"
  "iov_data m [iov_of m sp] = span_bytes m sp"
  by (simp_all add: iov_data_def iov_of_def)

lemma buffer_bytes_simps [simp]: "buffer_bytes m [] = []" "buffer_bytes m (sp # cs) = span_bytes m sp @ buffer_bytes m cs"
  by (simp_all add: buffer_bytes_def)

lemma wvec_loop_walk:
  "prp_walk n m it = Some (Inr cs) \<Longrightarrow> in_memory m cs \<Longrightarrow> wvec_loop m n it v = Inr (v @ map (iov_of m) cs)"
proof (induction n arbitrary: it cs v)
  case 0
  then show ?case by (auto dest: prp_walk_0)
next
  case (Suc n)
  show ?case
  proof (cases "prp_at_end it")
    case True
    then show ?thesis using Suc.prems(1) by (simp add: prp_walk_end)
  next
    case False
    with Suc.prems(1) obtain it' a k cs' where st: "prp_incr m it = Inr it'" "prp_deref m it = Inr a" "prp_this_nbytes m it = Inr k"
      "cs = (a, k) # cs'" "prp_walk n m it' = Some (Inr cs')"
      by (rule prp_walk_step)
    have "get_span m a k = Inr (a, k)" using Suc.prems(2) st(4) by (simp add: get_span_def check_span_iff in_memory_def)
    then show ?thesis using Suc.IH [OF st(5)] Suc.prems(2) st False by (simp add: in_memory_def iov_of_def)
  qed
qed

lemma span_bytes_join:
  assumes "unat a + unat k + unat n \<le> unat (map_size m)"
  shows "span_bytes m (a, k + n) = span_bytes m (a, k) @ span_bytes m (a + k, n)"
proof -
  have lt: "unat (map_size m) < 2 ^ 64" using unat_bound [of "map_size m"] by simp
  have "unat (k + n) = unat k + unat n" "unat (a + k) = unat a + unat k"
    using assms lt by (auto intro!: unat_add_small)
  then show ?thesis by (intro nth_equalityI) (auto simp: span_bytes_def nth_append add.assoc)
qed

lemma iov_append_data:
  assumes "iov_ok m v" "unat a + unat n \<le> unat (map_size m)"
  shows "iov_data m (iovec_append v (map_addr m + a) n) = iov_data m v @ span_bytes m (a, n) \<and> iov_ok m (iovec_append v (map_addr m + a) n)"
proof (cases "v \<noteq> [] \<and> map_addr m + a = iov_base (last v) + iov_len (last v)")
  case False
  then have "iovec_append v (map_addr m + a) n = v @ [iov_of m (a, n)]" by (auto simp: iovec_append_def iov_of_def)
  then show ?thesis using assms by (simp add: iov_ok_def) (simp add: iov_of_def)
next
  case True
  then obtain u x where v: "v = u @ [x]" by (cases v rule: rev_cases) auto
  define b where "b = iov_base x - map_addr m"
  have x: "unat b + unat (iov_len x) \<le> unat (map_size m)" using assms(1) by (simp add: iov_ok_def v b_def)
  have a: "a = b + iov_len x" using True by (simp add: v b_def algebra_simps)
  have lt: "unat (map_size m) < 2 ^ 64" using unat_bound [of "map_size m"] by simp
  then have ua: "unat a = unat b + unat (iov_len x)" unfolding a using x by (intro unat_add_small) simp
  then have "unat (iov_len x + n) = unat (iov_len x) + unat n" using assms(2) lt by (intro unat_add_small) simp
  moreover have "span_bytes m (b, iov_len x + n) = span_bytes m (b, iov_len x) @ span_bytes m (a, n)"
    unfolding a by (rule span_bytes_join) (use assms(2) ua in simp)
  ultimately show ?thesis
    using True assms ua by (auto simp: iovec_append_def v iov_data_def iov_ok_def b_def [symmetric])
qed

lemma iovecs_loop_walk:
  "prp_walk n m it = Some (Inr cs) \<Longrightarrow> in_memory m cs \<Longrightarrow> iov_ok m v \<Longrightarrow>
   \<exists>w. iovecs_loop m n it v = Inr w \<and> iov_data m w = iov_data m v @ buffer_bytes m cs"
proof (induction n arbitrary: it cs v)
  case 0
  then show ?case by (auto dest: prp_walk_0)
next
  case (Suc n)
  show ?case
  proof (cases "prp_at_end it")
    case True
    then show ?thesis using Suc.prems(1) by (simp add: prp_walk_end)
  next
    case False
    with Suc.prems(1) obtain it' a k cs' where st: "prp_incr m it = Inr it'" "prp_deref m it = Inr a" "prp_this_nbytes m it = Inr k"
      "cs = (a, k) # cs'" "prp_walk n m it' = Some (Inr cs')"
      by (rule prp_walk_step)
    have ak: "unat a + unat k \<le> unat (map_size m)" and cs': "in_memory m cs'" using Suc.prems(2) st(4) by (auto simp: in_memory_def)
    note ap = iov_append_data [OF Suc.prems(3) ak]
    have "get_span m a k = Inr (a, k)" using ak by (simp add: get_span_def check_span_iff)
    then show ?thesis using Suc.IH [OF st(5) cs' conjunct2 [OF ap]] ap st False by simp
  qed
qed

text \<open>The command passes the size check, and its pages lie in guest memory.\<close>

definition sends :: "nvme_kernel \<Rightarrow> nvme \<Rightarrow> mapping \<Rightarrow> nvme_command \<Rightarrow> nat \<Rightarrow> u64 \<Rightarrow> (u64 \<times> u64) list \<Rightarrow> bool" where
  "sends k nv m cmd lbas nbytes cs \<longleftrightarrow> (\<exists>nv1 nv2. ns_lba_shift k (nsid cmd) nv = (Inr lbas, nv1) \<and>
     ns_cmd_check_nbytes k (cmd_nblocks cmd) lbas nv1 = (Inr nbytes, nv2)) \<and>
     prp_walk (unat nbytes) m (prp_init (prp1 cmd) (prp2 cmd) nbytes) = Some (Inr cs) \<and> in_memory m cs"

text \<open>
  C21. Replication sends the guest's buffer: for a write that passes the checks and whose pages lie in guest memory, the synchronous
  sender hands the pages of the buffer to \<open>pwritev2\<close>, one entry per page, at the command's place; whatever that takes is
  the beginning of the buffer's bytes, and the answer is success exactly if it took as many bytes as the command has. The asynchronous
  sender queues one request at the same place with the same flags whose scatter list, in which adjacent pages are merged, stands
  for the same bytes.
\<close>

theorem replication_sends_buffer:
  assumes w: "opcode cmd = nvme_cmd_write" "flags cmd AND NVME_CMD_SGL_ALL = 0"
    and snd: "sends (sd_kernel E) (sd_nvme s) (sd_vm s) cmd lbas nbytes cs"
    and same: "sx_kernel F = sd_kernel E" "sa_nvme a = sd_nvme s" "sa_vm a = sd_vm s" and room: "\<not> lu_sq_full (sx_uring F) (ur_sq (sa_ring a))"
  shows "let off = push_bit lbas (rw_slba cmd); fl = if rw_control cmd AND NVME_RW_FUA \<noteq> 0 then RWF_DSYNC else 0;
             ret = sd_pwritev2 E (map (iov_of (sd_vm s)) cs) off fl
    in (\<exists>s'. sender_receive E cmd s = (Inr (if ret = uint nbytes then NVME_SC_SUCCESS else NVME_SC_DNR OR NVME_SC_INTERNAL), s') \<and>
          sd_dev s' = dev_put (unat off) (take (nat ret) (buffer_bytes (sd_vm s) cs)) (sd_dev s)) \<and>
       (\<exists>a' v t. sender_aio_submit_async F cmd tag a = (Inr NVME_SC_SUCCESS, a') \<and>
          ur_sq (sa_ring a') = ur_sq (sa_ring a) @ [mk_sqe (Writev_op v off fl) 0 True t] \<and>
          sa_heap a' t = Some \<lparr>tk_tag = tag, it_iovecs = v\<rparr> \<and> iov_data (sd_vm s) v = buffer_bytes (sd_vm s) cs)"
proof -
  let ?m = "sd_vm s" and ?off = "push_bit lbas (rw_slba cmd)" and ?fl = "if rw_control cmd AND NVME_RW_FUA \<noteq> 0 then RWF_DSYNC else 0"
  let ?v = "map (iov_of ?m) cs"
  let ?ret = "sd_pwritev2 E ?v ?off ?fl"
  obtain nv1 nv2 where nv: "ns_lba_shift (sd_kernel E) (nsid cmd) (sd_nvme s) = (Inr lbas, nv1)"
    "ns_cmd_check_nbytes (sd_kernel E) (cmd_nblocks cmd) lbas nv1 = (Inr nbytes, nv2)"
    and walk: "prp_walk (unat nbytes) ?m (prp_init (prp1 cmd) (prp2 cmd) nbytes) = Some (Inr cs)" and mem: "in_memory ?m cs"
    using snd by (auto simp: sends_def)
  have data: "iov_data ?m ?v = buffer_bytes ?m cs" by (induction cs) (simp_all add: iov_data_def iov_of_def)
  have sync: "sender_receive E cmd s = (Inr (if ?ret = uint nbytes then NVME_SC_SUCCESS else NVME_SC_DNR OR NVME_SC_INTERNAL),
      s\<lparr>sd_nvme := nv2, sd_wvec := ?v, sd_dev := dev_put (unat ?off) (take (nat ?ret) (buffer_bytes ?m cs)) (sd_dev s)\<rparr>)"
    using w wvec_loop_walk [OF walk mem, of "[]"] data
    by (simp add: sender_receive_def sender_write_def catch_std_def prog_simps on_sd_nvme_def nv Let_def)
  obtain v where v: "iovecs_loop ?m (unat nbytes) (prp_init (prp1 cmd) (prp2 cmd) nbytes) [] = Inr v" "iov_data ?m v = buffer_bytes ?m cs"
    using iovecs_loop_walk [OF walk mem, of "[]"] by (auto simp: iov_ok_def)
  have "\<exists>a'. sender_aio_submit_async F cmd tag a = (Inr NVME_SC_SUCCESS, a') \<and>
      ur_sq (sa_ring a') = ur_sq (sa_ring a) @ [mk_sqe (Writev_op v ?off ?fl) 0 True (sa_fresh a)] \<and>
      sa_heap a' (sa_fresh a) = Some \<lparr>tk_tag = tag, it_iovecs = v\<rparr>"
    using w v(1) same room
    by (simp add: sender_aio_submit_async_def sender_aio_submit_write_def prog_simps on_sa_nvme_def nv new_iovec_ticket_def set_iovecs_def
        on_sa_ring_def queue_writev_def get_sqe_def)
  then have async: "\<exists>a' v t. sender_aio_submit_async F cmd tag a = (Inr NVME_SC_SUCCESS, a') \<and>
      ur_sq (sa_ring a') = ur_sq (sa_ring a) @ [mk_sqe (Writev_op v ?off ?fl) 0 True t] \<and>
      sa_heap a' t = Some \<lparr>tk_tag = tag, it_iovecs = v\<rparr> \<and> iov_data ?m v = buffer_bytes ?m cs"
    using v(2) by blast
  show ?thesis unfolding Let_def
  proof (rule conjI)
    show "\<exists>s'. sender_receive E cmd s = (Inr (if ?ret = uint nbytes then NVME_SC_SUCCESS else NVME_SC_DNR OR NVME_SC_INTERNAL), s') \<and>
        sd_dev s' = dev_put (unat ?off) (take (nat ?ret) (buffer_bytes ?m cs)) (sd_dev s)"
      unfolding sync by simp
  qed (rule async)
qed

definition sample_send :: nvme_command where "sample_send = (sample_rw 0x1200 0x2000 15)\<lparr>opcode := nvme_cmd_write\<rparr>"

definition sample_sender :: sender_env where
  "sample_sender = \<lparr>sd_kernel = sample_kernel, sd_pwritev2 = (\<lambda>v off fl. \<Sum>x\<leftarrow>v. uint (iov_len x)), sd_fallocate = (\<lambda>_ _. 0), sd_fdatasync = 0\<rparr>"

definition sample_sender_ctrl :: sender_ctrl where
  "sample_sender_ctrl = \<lparr>sd_nvme = nvme_init, sd_vm = sample_mem, sd_dev = (\<lambda>_. 0), sd_wvec = []\<rparr>"

definition sample_sender_aio :: sender_aio where
  "sample_sender_aio = \<lparr>sa_nvme = nvme_init, sa_vm = sample_mem, sa_ring = \<lparr>ur_fixed = [5], ur_bufs = [], ur_sq = [], ur_sent = []\<rparr>,
     sa_heap = (\<lambda>_. None), sa_fresh = 0\<rparr>"

lemmas sample_sender_defs = sample_sender_def sample_sender_ctrl_def sample_sender_aio_def

lemma sample_sends: "sends sample_kernel nvme_init sample_mem sample_send 9 0x2000 [(0x1200, 0xe00), (0x4000, 0x1000), (0x5000, 0x200)]"
proof -
  have "\<exists>nv1 nv2. ns_lba_shift sample_kernel (nsid sample_send) nvme_init = (Inr 9, nv1) \<and>
      ns_cmd_check_nbytes sample_kernel (cmd_nblocks sample_send) 9 nv1 = (Inr 0x2000, nv2)"
    by (simp add: init_eval sample_send_def)
  moreover have "prp1 sample_send = 0x1200" "prp2 sample_send = 0x2000" by (simp_all add: sample_send_def sample_rw_def)
  ultimately show ?thesis using sample_walk_full by (simp add: sends_def in_memory_def sample_mem_size)
qed

theorem replication_sends_buffer_witness:
  "(\<exists>s'. sender_receive sample_sender sample_send sample_sender_ctrl = (Inr NVME_SC_SUCCESS, s') \<and>
     sd_dev s' = dev_put 51200 (buffer_bytes sample_mem [(0x1200, 0xe00), (0x4000, 0x1000), (0x5000, 0x200)]) (\<lambda>_. 0)) \<and>
   (\<exists>a' v t. sender_aio_submit_async \<lparr>sx_kernel = sample_kernel, sx_uring = sample_ring\<rparr> sample_send 7 sample_sender_aio = (Inr NVME_SC_SUCCESS, a') \<and>
     ur_sq (sa_ring a') = [mk_sqe (Writev_op v 51200 0) 0 True t] \<and>
     iov_data sample_mem v = buffer_bytes sample_mem [(0x1200, 0xe00), (0x4000, 0x1000), (0x5000, 0x200)])"
proof -
  let ?cs = "[(0x1200, 0xe00), (0x4000, 0x1000), (0x5000, 0x200)] :: (u64 \<times> u64) list"
  have cmd: "opcode sample_send = nvme_cmd_write" "flags sample_send AND NVME_CMD_SGL_ALL = 0" "rw_slba sample_send = 100" "rw_control sample_send = 0"
    by (simp_all add: sample_send_def sample_rw_def rw_slba_def rw_control_def)
  have snd: "sends (sd_kernel sample_sender) (sd_nvme sample_sender_ctrl) (sd_vm sample_sender_ctrl) sample_send 9 0x2000 ?cs"
    using sample_sends by (simp add: sample_sender_defs)
  have len: "length (buffer_bytes sample_mem ?cs) = 8192" by (simp add: buffer_bytes_def)
  from replication_sends_buffer [OF cmd(1,2) snd, where F = "\<lparr>sx_kernel = sample_kernel, sx_uring = sample_ring\<rparr>" and a = sample_sender_aio and tag = 7]
  have "(\<exists>s'. sender_receive sample_sender sample_send sample_sender_ctrl = (Inr NVME_SC_SUCCESS, s') \<and>
     sd_dev s' = dev_put 51200 (buffer_bytes sample_mem ?cs) (\<lambda>_. 0)) \<and>
   (\<exists>a' v t. sender_aio_submit_async \<lparr>sx_kernel = sample_kernel, sx_uring = sample_ring\<rparr> sample_send 7 sample_sender_aio = (Inr NVME_SC_SUCCESS, a') \<and>
     ur_sq (sa_ring a') = [mk_sqe (Writev_op v 51200 0) 0 True t] \<and> sa_heap a' t = Some \<lparr>tk_tag = 7, it_iovecs = v\<rparr> \<and>
     iov_data sample_mem v = buffer_bytes sample_mem ?cs)"
    using len by (simp add: sample_sender_defs cmd sample_ring_def iov_of_def Let_def del: buffer_bytes_simps)
  then show ?thesis by blast
qed

end
