(* ===== verification/Workers.thy ===== *)
theory Workers
  imports SgxEncryptor Sender
begin

text \<open>
  The programs around the encrypting and replicating functions: \<open>encryptor-mt.cpp\<close>, \<open>encryptor-sgx.cpp\<close> and \<open>replicator.cpp\<close>, whose
  workers answer every command before they take the next, and \<open>encryptor-aio.cpp\<close>, \<open>encryptor-sgx-aio.cpp\<close>, \<open>encryptor-multi.cpp\<close>
  and \<open>replicator-aio.cpp\<close>, whose workers answer when the ring has completed. What the programs share is modelled once, over the
  controller they drive.
\<close>

section \<open>Queues\<close>

definition worker_burst :: nat where "worker_burst = 16"
definition worker_completions :: nat where "worker_completions = 128"
definition worker_tries :: nat where "worker_tries = 20"

text \<open>
  A worker and its queues, seen through the contract of the notification rings: the commands that wait in the submission ring and the
  responses that were put into the completion ring. The rings of a queue that is not open have not been mapped: their
  pointers are null.
\<close>

type_synonym wqueue = "(nvme_command list \<times> nmntfy_response list) option"

record 'c worker =
  wr_ctrl :: 'c
  wr_queues :: "wqueue list"

type_synonym ('c, 'a) wkprog = "('c worker, 'a) prog"

definition on_wr_ctrl :: "('c, 'a) prog \<Rightarrow> ('c, 'a) wkprog" where
  "on_wr_ctrl = zoom wr_ctrl (\<lambda>c w. w\<lparr>wr_ctrl := c\<rparr>)"

definition with_queue :: "nat \<Rightarrow> (nvme_command list \<times> nmntfy_response list \<Rightarrow> ('c, 'a) wkprog) \<Rightarrow> ('c, 'a) wkprog" where
  "with_queue i f =
     sbind (sget wr_queues) (\<lambda>qs.
       if length qs \<le> i then raise (Undefined ''vector index'')
       else case qs ! i of None \<Rightarrow> raise (Undefined ''null pointer'') | Some q \<Rightarrow> f q)"

definition set_queue :: "nat \<Rightarrow> nvme_command list \<times> nmntfy_response list \<Rightarrow> ('c, unit) wkprog" where
  "set_queue i q = smod (\<lambda>w. w\<lparr>wr_queues := (wr_queues w)[i := Some q]\<rparr>)"

text \<open>Taking a burst of commands, and putting responses; a full ring is waited for.\<close>

definition take_burst :: "nat \<Rightarrow> ('c, nvme_command list) wkprog" where
  "take_burst i = with_queue i (\<lambda>(sq, cq). sbind (set_queue i (drop worker_burst sq, cq)) (\<lambda>_. return (take worker_burst sq)))"

definition respond :: "nat \<Rightarrow> nmntfy_response list \<Rightarrow> ('c, unit) wkprog" where
  "respond i rs = with_queue i (\<lambda>(sq, cq). set_queue i (sq, cq @ rs))"

definition response :: "u16 \<Rightarrow> u16 \<Rightarrow> nmntfy_response" where
  "response ucid st = \<lparr>resp_ucid = ucid, resp_status = st, resp_aux = zero_aux\<rparr>"

text \<open>Nothing was found: after a while the worker sleeps, until \<open>poll\<close> returns.\<close>

definition rest :: "bool \<Rightarrow> bool \<Rightarrow> int \<Rightarrow> ('c, unit) wkprog" where
  "rest succeeded idle poll_res = (if \<not> succeeded \<and> idle \<and> poll_res < 0 then raise (System_error ''cannot poll queues'') else return ())"

section \<open>Workers that answer at once\<close>

definition receive_into :: "(nvme_command \<Rightarrow> ('c, u16) prog) \<Rightarrow> nvme_command \<Rightarrow> nmntfy_response list \<Rightarrow> ('c, nmntfy_response list) wkprog" where
  "receive_into rcv cmd rs = sbind (on_wr_ctrl (rcv cmd)) (\<lambda>st. return (rs @ [response (command_id cmd) st]))"

definition serve :: "(nvme_command \<Rightarrow> ('c, u16) prog) \<Rightarrow> nat \<Rightarrow> bool \<Rightarrow> ('c, bool) wkprog" where
  "serve rcv i succeeded =
     sbind (take_burst i) (\<lambda>cmds.
       if cmds = [] then return succeeded
       else sbind (sfold (receive_into rcv) cmds []) (\<lambda>resps. sbind (respond i resps) (\<lambda>_. return True)))"

definition serve_round :: "(nvme_command \<Rightarrow> ('c, u16) prog) \<Rightarrow> bool \<Rightarrow> ('c, bool) wkprog" where
  "serve_round rcv succeeded = sbind (sget (\<lambda>w. length (wr_queues w))) (\<lambda>n. sfold (serve rcv) [0..<n] succeeded)"

fun serve_tries :: "(nvme_command \<Rightarrow> ('c, u16) prog) \<Rightarrow> nat \<Rightarrow> bool \<Rightarrow> ('c, bool) wkprog" where
  "serve_tries rcv 0 succeeded = return succeeded"
| "serve_tries rcv (Suc n) succeeded = sbind (serve_round rcv succeeded) (serve_tries rcv n)"

definition sync_turn :: "(nvme_command \<Rightarrow> ('c, u16) prog) \<Rightarrow> bool \<Rightarrow> int \<Rightarrow> ('c, unit) wkprog" where
  "sync_turn rcv idle poll_res = sbind (serve_tries rcv worker_tries False) (\<lambda>succeeded. rest succeeded idle poll_res)"

section \<open>Workers that answer on completion\<close>

text \<open>
  What such a worker needs of its controller: submitting a command of a queue gives a status at once or nothing; kicking off
  what was submitted, given the queues that did; the tag of a ticket and its deletion; and whether a failed request is reported on the
  terminal, with the tag of the ticket, after its deletion.
\<close>

record 'c async_ops =
  ao_submit :: "nat \<Rightarrow> nvme_command \<Rightarrow> u32 \<Rightarrow> ('c, u16 option) prog"
  ao_kick :: "nat list \<Rightarrow> ('c, unit) prog"
  ao_tag :: "'c \<Rightarrow> nat \<Rightarrow> u32 option"
  ao_delete :: "nat \<Rightarrow> 'c \<Rightarrow> 'c"
  ao_reports :: bool

definition submit_cmd :: "'c async_ops \<Rightarrow> nat \<Rightarrow> nvme_command \<Rightarrow> nat list \<Rightarrow> ('c, nat list) wkprog" where
  "submit_cmd A qi cmd submitted =
     sbind (on_wr_ctrl (ao_submit A qi cmd (make_tag (of_nat qi) (command_id cmd)))) (\<lambda>r.
       case r of
         None \<Rightarrow> return (submitted @ [qi])
       | Some st \<Rightarrow> sbind (respond qi [response (command_id cmd) st]) (\<lambda>_. return submitted))"

definition submit_queue :: "'c async_ops \<Rightarrow> nat \<Rightarrow> bool \<times> nat list \<Rightarrow> ('c, bool \<times> nat list) wkprog" where
  "submit_queue A qi acc =
     sbind (take_burst qi) (\<lambda>cmds.
       if cmds = [] then return acc else sbind (sfold (submit_cmd A qi) cmds (snd acc)) (\<lambda>sub. return (True, sub)))"

definition submit_round :: "'c async_ops \<Rightarrow> bool \<times> nat list \<Rightarrow> ('c, bool \<times> nat list) wkprog" where
  "submit_round A acc = sbind (sget (\<lambda>w. length (wr_queues w))) (\<lambda>n. sfold (submit_queue A) [0..<n] acc)"

text \<open>Some of the programs stop trying at the first round that found a command.\<close>

fun submit_tries :: "'c async_ops \<Rightarrow> bool \<Rightarrow> nat \<Rightarrow> bool \<times> nat list \<Rightarrow> ('c, bool \<times> nat list) wkprog" where
  "submit_tries A brk 0 acc = return acc"
| "submit_tries A brk (Suc n) acc =
     sbind (submit_round A acc) (\<lambda>acc'. if brk \<and> fst acc' then return acc' else submit_tries A brk n acc')"

text \<open>The ticket is deleted once its tag has been read; the response goes to the queue that the tag names.\<close>

definition complete :: "'c async_ops \<Rightarrow> cqe \<Rightarrow> unit \<Rightarrow> ('c, unit) wkprog" where
  "complete A cqe u =
     sbind (sget (\<lambda>w. ao_tag A (wr_ctrl w) (cqe_data cqe))) (\<lambda>tag.
       case tag of
         None \<Rightarrow> raise (Undefined ''use after free'')
       | Some tag \<Rightarrow>
           (case unmake_tag tag of
              (qi, ucid) \<Rightarrow>
                sbind (smod (\<lambda>w. w\<lparr>wr_ctrl := ao_delete A (cqe_data cqe) (wr_ctrl w)\<rparr>)) (\<lambda>_.
                  if ao_reports A \<and> cqe_res cqe < 0 then raise (Undefined ''use after free'')
                  else respond (unat qi) [response ucid (if cqe_res cqe < 0 then NVME_SC_DNR OR NVME_SC_INTERNAL else NVME_SC_SUCCESS)])))"

text \<open>One turn. Its inputs are the completions that are ready in each ring, and what the clock and \<open>poll\<close> say.\<close>

definition async_turn :: "'c async_ops \<Rightarrow> bool \<Rightarrow> cqe list list \<Rightarrow> bool \<Rightarrow> int \<Rightarrow> ('c, unit) wkprog" where
  "async_turn A brk ready idle poll_res =
     sbind (submit_tries A brk worker_tries (False, [])) (\<lambda>(succeeded, sub).
     sbind (on_wr_ctrl (ao_kick A sub)) (\<lambda>_.
     sbind (sfold (\<lambda>r. sfold (complete A) (take worker_completions r)) ready ()) (\<lambda>_.
     rest succeeded idle poll_res)))"

section \<open>Starting the workers\<close>

text \<open>
  The queues, administration excluded, are dealt out to the workers in turn, open or not. A worker that gets none ends at once, as
  does one that has no memory; the block device has to open.
\<close>

definition deal_queues :: "nat \<Rightarrow> int list \<Rightarrow> (nat \<times> int) list list" where
  "deal_queues nthreads sqfds =
     (let n = if nthreads = 0 \<or> length sqfds < nthreads then length sqfds else nthreads
      in fold (\<lambda>i ws. ws[(i - 1) mod n := ws ! ((i - 1) mod n) @ [(i, sqfds ! i)]]) [1..<length sqfds] (replicate n []))"

definition queue_of :: "int \<Rightarrow> wqueue" where
  "queue_of fd = (if fd < 0 then None else Some ([], []))"

definition worker_start :: "mapping \<Rightarrow> int \<Rightarrow> (nat \<times> int) list \<Rightarrow> 'c result \<Rightarrow> 'c worker option result" where
  "worker_start vm bfd qs ctrl =
     (if map_addr vm = 0 \<or> map_size vm = 0 \<or> qs = [] then Inr None
      else if bfd < 0 then Inl (System_error ''cannot open blkdev file'')
      else rbind ctrl (\<lambda>c. Inr (Some \<lparr>wr_ctrl = c, wr_queues = map (queue_of \<circ> snd) qs\<rparr>)))"

section \<open>The programs\<close>

text \<open>\<open>encryptor-mt\<close>: the cipher is chosen by name.\<close>

definition mt_make_engine :: "ippcp \<Rightarrow> evp \<Rightarrow> u8 list \<Rightarrow> string \<Rightarrow> nat \<Rightarrow> tbc result" where
  "mt_make_engine L V key impl bs =
     (if impl = ''libcrypto'' then rbind (aes_xts_libcrypto_make V key) (\<lambda>x. Inr (lc_engine V x))
      else rbind (aes_xts_ipp_make L key bs) (\<lambda>x. Inr (ipp_engine L x)))"

definition mt_start :: "ippcp \<Rightarrow> evp \<Rightarrow> u8 list \<Rightarrow> string \<Rightarrow> nat \<Rightarrow> mapping \<Rightarrow> int \<Rightarrow> (nat \<Rightarrow> u8) \<Rightarrow> (nat \<times> int) list \<Rightarrow> (tbc \<times> enc_ctrl) worker option result" where
  "mt_start L V key impl bs vm bfd dev qs =
     worker_start vm bfd qs (rbind (mt_make_engine L V key impl bs) (\<lambda>e. Inr (e, nvme_encryptor_make vm dev)))"

text \<open>The engine belongs to the controller; the environment provides the rest.\<close>

definition mt_receive :: "enc_env \<Rightarrow> nvme_command \<Rightarrow> (tbc \<times> enc_ctrl, u16) prog" where
  "mt_receive E cmd = (\<lambda>(e, s). case receive (E\<lparr>ee_engine := e\<rparr>) cmd s of (r, s') \<Rightarrow> (r, (e, s')))"

definition mt_turn :: "enc_env \<Rightarrow> bool \<Rightarrow> int \<Rightarrow> (tbc \<times> enc_ctrl, unit) wkprog" where
  "mt_turn E = sync_turn (mt_receive E)"

text \<open>\<open>encryptor-sgx\<close>\<close>

definition sgx_start :: "sgx_env \<Rightarrow> int \<times> u64 \<Rightarrow> u8 list \<Rightarrow> int \<Rightarrow> mapping \<Rightarrow> int \<Rightarrow> (nat \<Rightarrow> u8) \<Rightarrow> (nat \<times> int) list \<Rightarrow> sgx_ctrl worker option result" where
  "sgx_start E created key sh vm bfd dev qs = worker_start vm bfd qs (nvme_encryptor_sgx_make E created vm dev key sh)"

definition sgx_turn :: "sgx_env \<Rightarrow> bool \<Rightarrow> int \<Rightarrow> (sgx_ctrl, unit) wkprog" where
  "sgx_turn E = sync_turn (sgx_receive E)"

text \<open>\<open>replicator\<close>\<close>

definition replicator_start :: "sender_env \<Rightarrow> mapping \<Rightarrow> int \<Rightarrow> (nat \<Rightarrow> u8) \<Rightarrow> (nat \<times> int) list \<Rightarrow> sender_ctrl worker option result" where
  "replicator_start E vm bfd dev qs = worker_start vm bfd qs (nvme_sender_make E vm dev)"

definition replicator_turn :: "sender_env \<Rightarrow> bool \<Rightarrow> int \<Rightarrow> (sender_ctrl, unit) wkprog" where
  "replicator_turn E = sync_turn (sender_receive E)"

text \<open>\<open>encryptor-aio\<close>\<close>

definition kick_ring :: "liburing \<Rightarrow> (uring, unit) prog" where
  "kick_ring L = sbind (sq_kick L) (\<lambda>_. return ())"

definition aio_make_engine :: "ippcp \<Rightarrow> evp \<Rightarrow> u8 list \<Rightarrow> string \<Rightarrow> nat \<Rightarrow> tbc result" where
  "aio_make_engine L V key impl bs =
     (if impl = ''libcrypto'' then rbind (aes_xts_libcrypto_make V key) (\<lambda>x. Inr (lc_engine V x))
      else rbind (aes_xts_ipp_make L key bs) (\<lambda>x. Inr (ipp_engine L x)))"

definition aio_start :: "aio_env \<Rightarrow> mapping \<Rightarrow> int \<Rightarrow> (nat \<times> int) list \<Rightarrow> aio_ctrl worker option result" where
  "aio_start E vm bfd qs = worker_start vm bfd qs (nvme_encryptor_aio_make E vm bfd)"

definition aio_ops :: "aio_env \<Rightarrow> aio_ctrl async_ops" where
  "aio_ops E = \<lparr>ao_submit = (\<lambda>qi. aio_submit_async E), ao_kick = (\<lambda>sub. if sub \<noteq> [] then on_ai_ring (kick_ring (ax_uring E)) else return ()),
     ao_tag = (\<lambda>c t. map_option tk_tag (ai_heap c t)), ao_delete = (\<lambda>t c. c\<lparr>ai_heap := (ai_heap c)(t := None)\<rparr>), ao_reports = True\<rparr>"

definition aio_turn :: "aio_env \<Rightarrow> cqe list \<Rightarrow> bool \<Rightarrow> int \<Rightarrow> (aio_ctrl, unit) wkprog" where
  "aio_turn E ready = async_turn (aio_ops E) True [ready]"

text \<open>\<open>encryptor-sgx-aio\<close>\<close>

definition sgx_aio_start :: "sgx_aio_env \<Rightarrow> int \<times> u64 \<Rightarrow> u8 list \<Rightarrow> int \<Rightarrow> mapping \<Rightarrow> int \<Rightarrow> (nat \<times> int) list \<Rightarrow> sgx_aio worker option result" where
  "sgx_aio_start E created key sh vm bfd qs = worker_start vm bfd qs (nvme_encryptor_sgx_aio_make E created vm bfd key sh)"

definition sgx_aio_ops :: "sgx_aio_env \<Rightarrow> sgx_aio async_ops" where
  "sgx_aio_ops E = \<lparr>ao_submit = (\<lambda>qi. sgx_aio_submit_async E), ao_kick = (\<lambda>sub. if sub \<noteq> [] then on_sq_ring (kick_ring (ga_uring E)) else return ()),
     ao_tag = (\<lambda>c t. map_option tk_tag (sq_heap c t)), ao_delete = (\<lambda>t c. c\<lparr>sq_heap := (sq_heap c)(t := None)\<rparr>), ao_reports = False\<rparr>"

definition sgx_aio_turn :: "sgx_aio_env \<Rightarrow> cqe list \<Rightarrow> bool \<Rightarrow> int \<Rightarrow> (sgx_aio, unit) wkprog" where
  "sgx_aio_turn E ready = async_turn (sgx_aio_ops E) True [ready]"

text \<open>\<open>replicator-aio\<close>: a status other than success is an answer; the ring is kicked in every turn.\<close>

definition replicator_aio_start :: "sender_aio_env \<Rightarrow> mapping \<Rightarrow> int \<Rightarrow> (nat \<times> int) list \<Rightarrow> sender_aio worker option result" where
  "replicator_aio_start E vm bfd qs = worker_start vm bfd qs (nvme_sender_aio_make E vm bfd)"

definition replicator_ops :: "sender_aio_env \<Rightarrow> sender_aio async_ops" where
  "replicator_ops E =
     \<lparr>ao_submit = (\<lambda>qi cmd tag. sbind (sender_aio_submit_async E cmd tag) (\<lambda>st. return (if st \<noteq> NVME_SC_SUCCESS then Some st else None))),
      ao_kick = (\<lambda>sub. on_sa_ring (kick_ring (sx_uring E))),
      ao_tag = (\<lambda>c t. map_option tk_tag (sa_heap c t)), ao_delete = (\<lambda>t c. c\<lparr>sa_heap := (sa_heap c)(t := None)\<rparr>), ao_reports = False\<rparr>"

definition replicator_aio_turn :: "sender_aio_env \<Rightarrow> cqe list \<Rightarrow> bool \<Rightarrow> int \<Rightarrow> (sender_aio, unit) wkprog" where
  "replicator_aio_turn E ready = async_turn (replicator_ops E) False [ready]"

text \<open>
  \<open>encryptor-multi\<close>: every queue of a worker has its own controller, on the memory and the ring of its virtual machine. The contexts
  of the workers come from dealing out the queues of all machines in turn.
\<close>

record worker_ctx =
  cx_sqid :: nat
  cx_sqfd :: int
  cx_bring :: nat
  cx_vm :: nat

definition deal_contexts :: "nat \<Rightarrow> int list list \<Rightarrow> worker_ctx list list" where
  "deal_contexts nthreads vms =
     (let cs = concat (map (\<lambda>v. map (\<lambda>i. \<lparr>cx_sqid = i, cx_sqfd = (vms ! v) ! i, cx_bring = v, cx_vm = v\<rparr>) [1..<length (vms ! v)]) [0..<length vms])
      in map (\<lambda>w. map (\<lambda>k. cs ! k) (filter (\<lambda>k. k mod nthreads = w) [0..<length cs])) [0..<nthreads])"

definition multi_make_engine :: "ippcp \<Rightarrow> evp \<Rightarrow> u8 list \<Rightarrow> string \<Rightarrow> nat \<Rightarrow> tbc result" where
  "multi_make_engine L V key impl bs =
     (if impl = ''libcrypto'' then rbind (aes_xts_libcrypto_make V key) (\<lambda>x. Inr (lc_engine V x))
      else rbind (aes_xts_ipp_make L key bs) (\<lambda>x. Inr (ipp_engine L x)))"

record multi_state =
  ms_ctxs :: "worker_ctx list"
  ms_nvmes :: "nvme list"
  ms_vms :: "mapping list"
  ms_rings :: "uring list"
  ms_heap :: "nat \<Rightarrow> mem_ticket option"
  ms_fresh :: nat

text \<open>The controller of a queue as the parts it shares, and its operations on them.\<close>

definition on_multi :: "nat \<Rightarrow> (aio_ctrl, 'a) prog \<Rightarrow> (multi_state, 'a) prog" where
  "on_multi qi m = (\<lambda>s.
     let x = ms_ctxs s ! qi; b = cx_bring x; v = cx_vm x
     in case m \<lparr>ai_nvme = ms_nvmes s ! qi, ai_vm = ms_vms s ! v, ai_ring = ms_rings s ! b, ai_heap = ms_heap s, ai_fresh = ms_fresh s\<rparr> of
          (r, c) \<Rightarrow> (r, s\<lparr>ms_nvmes := (ms_nvmes s)[qi := ai_nvme c], ms_vms := (ms_vms s)[v := ai_vm c], ms_rings := (ms_rings s)[b := ai_ring c],
                         ms_heap := ai_heap c, ms_fresh := ai_fresh c\<rparr>))"

definition multi_ops :: "aio_env \<Rightarrow> nat \<Rightarrow> multi_state async_ops" where
  "multi_ops E n =
     \<lparr>ao_submit = (\<lambda>qi cmd tag. on_multi qi (multi_submit_async E cmd tag)),
      ao_kick = (\<lambda>sub. sfold (\<lambda>qi u. if qi \<in> set sub then on_multi qi (on_ai_ring (kick_ring (ax_uring E))) else return ()) [0..<n] ()),
      ao_tag = (\<lambda>c t. map_option tk_tag (ms_heap c t)), ao_delete = (\<lambda>t c. c\<lparr>ms_heap := (ms_heap c)(t := None)\<rparr>), ao_reports = False\<rparr>"

definition multi_turn :: "aio_env \<Rightarrow> cqe list list \<Rightarrow> bool \<Rightarrow> int \<Rightarrow> (multi_state, unit) wkprog" where
  "multi_turn E ready idle poll_res = sbind (sget (\<lambda>w. length (wr_queues w))) (\<lambda>n. async_turn (multi_ops E n) True ready idle poll_res)"

end
