(* ===== verification/WorkersProps.thy ===== *)
theory WorkersProps
  imports Workers "HOL-Library.Multiset"
begin

text \<open>
  Properties of the workers: the workers that answer at once answer what they take, in order; the workers that answer on completion
  neither lose a command nor answer it twice.
\<close>

section \<open>The books of a worker\<close>

text \<open>
  Every command is known by its tag, which is made of the number of its queue and its identifier. The commands of a queue are the
  ones that wait and the ones that have a response.
\<close>

fun qtags :: "nat \<Rightarrow> wqueue \<Rightarrow> u32 multiset" where
  "qtags i None = {#}"
| "qtags i (Some (sq, cq)) = image_mset (\<lambda>c. make_tag (of_nat i) (command_id c)) (mset sq) + image_mset (\<lambda>r. make_tag (of_nat i) (resp_ucid r)) (mset cq)"

definition qledger :: "wqueue list \<Rightarrow> u32 multiset" where
  "qledger qs = (\<Sum>i<length qs. qtags i (qs ! i))"

text \<open>And the ones that have a ticket.\<close>

definition outstanding :: "'c async_ops \<Rightarrow> 'c \<Rightarrow> u32 multiset" where
  "outstanding A c = image_mset (\<lambda>t. the (ao_tag A c t)) (mset_set (dom (ao_tag A c)))"

definition ledger :: "'c async_ops \<Rightarrow> 'c worker \<Rightarrow> u32 multiset" where
  "ledger A w = qledger (wr_queues w) + outstanding A (wr_ctrl w)"

lemma qledger_update:
  assumes "i < length qs"
  shows "qledger (qs[i := q]) + qtags i (qs ! i) = qledger qs + qtags i q"
proof -
  have "(\<Sum>j\<in>{..<length qs} - {i}. qtags j (qs[i := q] ! j)) = (\<Sum>j\<in>{..<length qs} - {i}. qtags j (qs ! j))"
    by (rule sum.cong) simp_all
  then show ?thesis
    unfolding qledger_def using assms
    by (simp add: sum.remove [of "{..<length qs}" i] ac_simps)
qed

section \<open>Controllers with tickets\<close>

text \<open>What a worker relies on: a command that is not answered at once has got one new ticket with its tag, and nothing else touches the tickets.\<close>

locale ticketed =
  fixes A :: "'c async_ops" and inv :: "'c \<Rightarrow> bool"
  assumes submit_now: "inv c \<Longrightarrow> ao_submit A qi cmd tag c = (Inr (Some st), c') \<Longrightarrow> inv c' \<and> ao_tag A c' = ao_tag A c"
    and submit_later: "inv c \<Longrightarrow> ao_submit A qi cmd tag c = (Inr None, c') \<Longrightarrow> inv c' \<and> (\<exists>t. ao_tag A c t = None \<and> ao_tag A c' = (ao_tag A c)(t \<mapsto> tag))"
    and kick: "inv c \<Longrightarrow> ao_kick A sub c = (Inr u, c') \<Longrightarrow> inv c' \<and> ao_tag A c' = ao_tag A c"
    and delete: "inv c \<Longrightarrow> inv (ao_delete A t c) \<and> ao_tag A (ao_delete A t c) = (ao_tag A c)(t := None)"
    and finite_tags: "inv c \<Longrightarrow> finite (dom (ao_tag A c))"
begin

lemma outstanding_new:
  assumes "inv c" "ao_tag A c t = None" "ao_tag A c' = (ao_tag A c)(t \<mapsto> tag)"
  shows "outstanding A c' = outstanding A c + {#tag#}"
proof -
  have t: "t \<notin> dom (ao_tag A c)" using assms(2) by auto
  have "image_mset (\<lambda>x. the (((ao_tag A c)(t \<mapsto> tag)) x)) (mset_set (dom (ao_tag A c))) = outstanding A c"
    unfolding outstanding_def by (rule image_mset_cong) (use t finite_tags [OF assms(1)] in auto)
  then show ?thesis
    unfolding outstanding_def [of A c'] assms(3) using t finite_tags [OF assms(1)] by simp
qed

lemma outstanding_deleted:
  assumes "inv c" "ao_tag A c t = Some tag"
  shows "outstanding A (ao_delete A t c) + {#tag#} = outstanding A c"
proof -
  let ?c = "ao_delete A t c"
  have d: "inv ?c" "ao_tag A ?c = (ao_tag A c)(t := None)" using delete [OF assms(1)] by simp_all
  have "outstanding A c = outstanding A ?c + {#tag#}"
    by (rule outstanding_new [OF d(1)]) (use d(2) assms(2) in auto)
  then show ?thesis by simp
qed

text \<open>A program that adds a multiset of commands to the books.\<close>

definition books :: "u32 multiset \<Rightarrow> ('c, 'a) wkprog \<Rightarrow> bool" where
  "books T m \<longleftrightarrow> (\<forall>w r w'. inv (wr_ctrl w) \<longrightarrow> m w = (Inr r, w') \<longrightarrow> inv (wr_ctrl w') \<and> ledger A w' = ledger A w + T)"

lemma booksD: "books T m \<Longrightarrow> inv (wr_ctrl w) \<Longrightarrow> m w = (Inr r, w') \<Longrightarrow> inv (wr_ctrl w') \<and> ledger A w' = ledger A w + T"
  unfolding books_def by blast

lemma books_return: "books {#} (return x)"
  by (simp add: books_def)

lemma books_bind: "books S m \<Longrightarrow> (\<And>x. books T (f x)) \<Longrightarrow> books (S + T) (sbind m f)"
  unfolding books_def by (metis (no_types, lifting) sbind_InrE union_assoc)

lemma books_bind0: "books {#} m \<Longrightarrow> (\<And>x. books T (f x)) \<Longrightarrow> books T (sbind m f)"
  using books_bind [of "{#}" m T f] by simp

lemma books_sfold: "(\<And>x a. x \<in> set xs \<Longrightarrow> books (g x) (body x a)) \<Longrightarrow> books (\<Sum>x\<leftarrow>xs. g x) (sfold body xs acc)"
  by (induction xs arbitrary: acc) (auto intro: books_return books_bind)

lemma books_sfold0: "(\<And>x a. books {#} (body x a)) \<Longrightarrow> books {#} (sfold body xs acc)"
  using books_sfold [of xs "\<lambda>_. {#}" body acc] by (simp add: sum_list_0)

lemma respond_books: "books (image_mset (\<lambda>r. make_tag (of_nat i) (resp_ucid r)) (mset rs)) (respond i rs)"
proof -
  have "ledger A w' = ledger A w + image_mset (\<lambda>r. make_tag (of_nat i) (resp_ucid r)) (mset rs) \<and> wr_ctrl w' = wr_ctrl w"
    if run: "respond i rs w = (Inr r, w')" for w r w'
  proof -
    obtain sq cq where q: "i < length (wr_queues w)" "wr_queues w ! i = Some (sq, cq)" "w' = w\<lparr>wr_queues := (wr_queues w)[i := Some (sq, cq @ rs)]\<rparr>"
      using run by (auto simp: respond_def with_queue_def set_queue_def prog_simps split: if_splits option.splits)
    show ?thesis using qledger_update [OF q(1), of "Some (sq, cq @ rs)"] q(2) by (simp add: q(3) ledger_def ac_simps)
  qed
  then show ?thesis unfolding books_def by metis
qed

lemma take_burst_books:
  assumes "inv (wr_ctrl w)" "take_burst i w = (Inr cmds, w')"
  shows "inv (wr_ctrl w')" "ledger A w = ledger A w' + image_mset (\<lambda>c. make_tag (of_nat i) (command_id c)) (mset cmds)"
proof -
  obtain sq cq where q: "i < length (wr_queues w)" "wr_queues w ! i = Some (sq, cq)"
    "w' = w\<lparr>wr_queues := (wr_queues w)[i := Some (drop worker_burst sq, cq)]\<rparr>" "cmds = take worker_burst sq"
    using assms(2) by (auto simp: take_burst_def with_queue_def set_queue_def prog_simps split: if_splits option.splits)
  have "mset sq = mset (take worker_burst sq) + mset (drop worker_burst sq)" by (metis append_take_drop_id mset_append)
  then show "ledger A w = ledger A w' + image_mset (\<lambda>c. make_tag (of_nat i) (command_id c)) (mset cmds)"
    using qledger_update [OF q(1), of "Some (drop worker_burst sq, cq)"] q(2,4) by (simp add: q(3) ledger_def ac_simps)
  show "inv (wr_ctrl w')" using assms(1) q(3) by simp
qed

lemma submit_cmd_books: "books {#make_tag (of_nat qi) (command_id cmd)#} (submit_cmd A qi cmd sub)"
proof -
  let ?tag = "make_tag (of_nat qi) (command_id cmd)"
  have "inv (wr_ctrl w') \<and> ledger A w' = ledger A w + {#?tag#}"
    if inv: "inv (wr_ctrl w)" and run: "submit_cmd A qi cmd sub w = (Inr r, w')" for w r w'
  proof -
    obtain o' c where s: "ao_submit A qi cmd ?tag (wr_ctrl w) = (Inr o', c)"
      and rest: "(case o' of None \<Rightarrow> return (sub @ [qi]) | Some st \<Rightarrow> sbind (respond qi [response (command_id cmd) st]) (\<lambda>_. return sub)) (w\<lparr>wr_ctrl := c\<rparr>) = (Inr r, w')"
      using run by (auto simp: submit_cmd_def on_wr_ctrl_def prog_simps split: prod.splits sum.splits)
    show ?thesis
    proof (cases o')
      case None
      then obtain t where "inv c" "ao_tag A (wr_ctrl w) t = None" "ao_tag A c = (ao_tag A (wr_ctrl w))(t \<mapsto> ?tag)"
        using submit_later [OF inv s [unfolded None]] by blast
      then show ?thesis using rest None outstanding_new [OF inv] by (auto simp: ledger_def)
    next
      case (Some st)
      note c = submit_now [OF inv s [unfolded Some]]
      have "books {#?tag#} (sbind (respond qi [response (command_id cmd) st]) (\<lambda>_. return sub))"
        using books_bind [OF respond_books [of qi "[response (command_id cmd) st]"] books_return] by (simp add: response_def)
      then have "inv (wr_ctrl w') \<and> ledger A w' = ledger A (w\<lparr>wr_ctrl := c\<rparr>) + {#?tag#}"
        by (rule booksD) (use rest c Some in simp_all)
      moreover have "ledger A (w\<lparr>wr_ctrl := c\<rparr>) = ledger A w" using c by (simp add: ledger_def outstanding_def)
      ultimately show ?thesis by simp
    qed
  qed
  then show ?thesis unfolding books_def by blast
qed

lemma sum_singles: "(\<Sum>x\<leftarrow>xs. {#f x#}) = image_mset f (mset xs)"
  by (induction xs) simp_all

lemma submit_queue_books: "books {#} (submit_queue A qi acc)"
proof -
  have "inv (wr_ctrl w') \<and> ledger A w' = ledger A w" if inv: "inv (wr_ctrl w)" and run: "submit_queue A qi acc w = (Inr r, w')" for w r w'
  proof -
    obtain cmds w1 where t: "take_burst qi w = (Inr cmds, w1)"
      and rest: "(if cmds = [] then return acc else sbind (sfold (submit_cmd A qi) cmds (snd acc)) (\<lambda>sub. return (True, sub))) w1 = (Inr r, w')"
      using run by (auto simp: submit_queue_def sbind_Inr_iff)
    note b = take_burst_books [OF inv t]
    show ?thesis
    proof (cases "cmds = []")
      case True
      then show ?thesis using rest b by simp
    next
      case False
      have "books (image_mset (\<lambda>c. make_tag (of_nat qi) (command_id c)) (mset cmds)) (sfold (submit_cmd A qi) cmds (snd acc))"
        using books_sfold [of cmds "\<lambda>c. {#make_tag (of_nat qi) (command_id c)#}" "submit_cmd A qi" "snd acc"] submit_cmd_books
        by (simp add: sum_singles)
      then have "inv (wr_ctrl w') \<and> ledger A w' = ledger A w1 + image_mset (\<lambda>c. make_tag (of_nat qi) (command_id c)) (mset cmds)"
        using rest False b(1) by (auto simp: books_def sbind_Inr_iff)
      then show ?thesis using b(2) by simp
    qed
  qed
  then show ?thesis unfolding books_def by simp
qed

lemma submit_tries_books: "books {#} (submit_tries A brk n acc)"
proof (induction n arbitrary: acc)
  case (Suc n)
  have g: "books {#} (sget g)" for g :: "'c worker \<Rightarrow> nat" by (simp add: books_def)
  have "books {#} (submit_round A acc)"
    unfolding submit_round_def by (rule books_bind0 [OF g books_sfold0]) (rule submit_queue_books)
  then show ?case using Suc.IH books_return by (auto intro!: books_bind0)
qed (simp add: books_return)

lemma complete_books: "books {#} (complete A cqe u)"
proof -
  have "inv (wr_ctrl w') \<and> ledger A w' = ledger A w" if inv: "inv (wr_ctrl w)" and run: "complete A cqe u w = (Inr r, w')" for w r w'
  proof -
    let ?t = "cqe_data cqe"
    obtain tag where tag: "ao_tag A (wr_ctrl w) ?t = Some tag"
      using run by (cases "ao_tag A (wr_ctrl w) ?t") (auto simp: complete_def prog_simps)
    obtain qi ucid where ut: "unmake_tag tag = (qi, ucid)" by fastforce
    let ?w1 = "w\<lparr>wr_ctrl := ao_delete A ?t (wr_ctrl w)\<rparr>"
    obtain st where rs: "respond (unat qi) [response ucid st] ?w1 = (Inr r, w')"
      using run tag ut by (auto simp: complete_def prog_simps split: if_splits)
    have "make_tag qi ucid = tag" using make_unmake_tag [of tag] ut by simp
    then have "books {#tag#} (respond (unat qi) [response ucid st])"
      using respond_books [of "unat qi" "[response ucid st]"] by (simp add: response_def)
    then have "inv (wr_ctrl w') \<and> ledger A w' = ledger A ?w1 + {#tag#}"
      by (rule booksD) (use rs delete [OF inv] in simp_all)
    moreover have "ledger A ?w1 + {#tag#} = ledger A w" using outstanding_deleted [OF inv tag] by (simp add: ledger_def)
    ultimately show ?thesis by simp
  qed
  then show ?thesis unfolding books_def by simp
qed

lemma turn_books: "books {#} (async_turn A brk ready idle poll_res)"
proof -
  have k: "books {#} (on_wr_ctrl (ao_kick A sub))" for sub
    unfolding books_def on_wr_ctrl_def
    by (auto simp: prog_simps ledger_def outstanding_def dest: kick split: prod.splits)
  have "books {#} (rest s idle poll_res :: ('c, unit) wkprog)" for s by (auto simp: rest_def books_def)
  then have "books {#} (sbind (on_wr_ctrl (ao_kick A sub)) (\<lambda>_. sbind (sfold (\<lambda>r. sfold (complete A) (take worker_completions r)) ready ())
      (\<lambda>_. rest s idle poll_res)))" for s sub
    by (intro books_bind0 k books_sfold0 complete_books)
  then show ?thesis
    unfolding async_turn_def by (intro books_bind0 submit_tries_books) (auto split: prod.split)
qed

end

section \<open>The controllers have tickets\<close>

text \<open>The tags of the tickets of a heap; a heap is bounded when the addresses from the next free one on are unused.\<close>

definition tags_of :: "(nat \<Rightarrow> 'k sq_ticket_scheme option) \<Rightarrow> nat \<Rightarrow> u32 option" where
  "tags_of heap t = map_option tk_tag (heap t)"

definition heap_bounded :: "(nat \<Rightarrow> 'k sq_ticket_scheme option) \<Rightarrow> nat \<Rightarrow> bool" where
  "heap_bounded heap fresh \<longleftrightarrow> (\<forall>t\<ge>fresh. heap t = None)"

definition one_ticket :: "u32 \<Rightarrow> (nat \<Rightarrow> 'k sq_ticket_scheme option) \<times> nat \<Rightarrow> (nat \<Rightarrow> 'k sq_ticket_scheme option) \<times> nat \<Rightarrow> bool" where
  "one_ticket tag h h' \<longleftrightarrow> snd h' = snd h + 1 \<and> tags_of (fst h') = (tags_of (fst h))(snd h \<mapsto> tag)"

lemma tags_of_upd [simp]: "tags_of (h(t \<mapsto> k)) = (tags_of h)(t \<mapsto> tk_tag k)" "tags_of (h(t := None)) = (tags_of h)(t := None)"
  by (auto simp: tags_of_def fun_eq_iff)

lemma tags_of_None: "tags_of h t = None \<longleftrightarrow> h t = None"
  by (simp add: tags_of_def)

lemma one_ticket_tags:
  assumes "heap_bounded h n" "one_ticket tag (h, n) (h', n')"
  shows "heap_bounded h' n'" "tags_of h n = None" "tags_of h' = (tags_of h)(n \<mapsto> tag)"
proof -
  show n: "tags_of h n = None" "tags_of h' = (tags_of h)(n \<mapsto> tag)"
    using assms by (auto simp: heap_bounded_def one_ticket_def tags_of_def)
  have "h' t = None" if "n' \<le> t" for t
    using that assms n(2) tags_of_None [of h' t] tags_of_None [of h t] by (auto simp: heap_bounded_def one_ticket_def)
  then show "heap_bounded h' n'" by (simp add: heap_bounded_def)
qed

lemma heap_bounded_finite: "heap_bounded h n \<Longrightarrow> finite (dom (tags_of h))"
  by (rule finite_subset [of _ "{..<n}"]) (auto simp: heap_bounded_def dom_def tags_of_def not_le [symmetric])

text \<open>So a controller is ticketed when its programs are, seen through its heap.\<close>

lemma ticketedI:
  fixes A :: "'c async_ops" and heap :: "'c \<Rightarrow> nat \<Rightarrow> 'k sq_ticket_scheme option" and fresh :: "'c \<Rightarrow> nat"
  assumes tag: "ao_tag A = (\<lambda>c. tags_of (heap c))"
    and now: "\<And>c qi cmd tag st c'. ao_submit A qi cmd tag c = (Inr (Some st), c') \<Longrightarrow> heap c' = heap c \<and> fresh c' = fresh c"
    and later: "\<And>c qi cmd tag c'. ao_submit A qi cmd tag c = (Inr None, c') \<Longrightarrow> one_ticket tag (heap c, fresh c) (heap c', fresh c')"
    and kick: "\<And>c sub u c'. ao_kick A sub c = (Inr u, c') \<Longrightarrow> heap c' = heap c \<and> fresh c' = fresh c"
    and delete: "\<And>t c. heap (ao_delete A t c) = (heap c)(t := None) \<and> fresh (ao_delete A t c) = fresh c"
  shows "ticketed A (\<lambda>c. heap_bounded (heap c) (fresh c))"
proof (unfold_locales, goal_cases)
  case (1 c qi cmd tag st c')
  then show ?case using now [OF 1(2)] by (simp add: tag)
next
  case (2 c qi cmd tag c')
  then show ?case using one_ticket_tags [OF 2(1) later [OF 2(2)]] by (auto simp: tag)
next
  case (3 c sub u c')
  then show ?case using kick [OF 3(2)] by (simp add: tag)
next
  case (4 c t)
  then show ?case using delete [of t c] by (auto simp: tag heap_bounded_def)
next
  case (5 c)
  then show ?case using heap_bounded_finite by (simp add: tag)
qed

subsection \<open>The enciphering controller\<close>

lemmas aio_ticket_defs = on_ai_nvme_def on_ai_vm_def new_mem_ticket_def on_ticket_mem_def on_ai_ring_def prog_simps one_ticket_def Let_def

lemma aio_write_ticket: "aio_submit_write E cmd tag c = (Inr u, c') \<Longrightarrow> one_ticket tag (ai_heap c, ai_fresh c) (ai_heap c', ai_fresh c')"
  by (auto simp: aio_submit_write_def aio_ticket_defs split: prod.splits sum.splits if_splits)

lemma aio_zeroes_ticket: "aio_submit_write_zeroes E cmd tag c = (Inr u, c') \<Longrightarrow> one_ticket tag (ai_heap c, ai_fresh c) (ai_heap c', ai_fresh c')"
  by (auto simp: aio_submit_write_zeroes_def aio_ticket_defs split: prod.splits sum.splits if_splits)

lemma aio_flush_ticket: "aio_submit_flush E tag c = (Inr u, c') \<Longrightarrow> one_ticket tag (ai_heap c, ai_fresh c) (ai_heap c', ai_fresh c')"
  by (auto simp: aio_submit_flush_def aio_ticket_defs split: prod.splits sum.splits if_splits)

lemma aio_read_ticket: "aio_receive_read E cmd c = (Inr st, c') \<Longrightarrow> ai_heap c' = ai_heap c \<and> ai_fresh c' = ai_fresh c"
  by (auto simp: aio_receive_read_def aio_ticket_defs split: prod.splits sum.splits if_splits)

lemma aio_now: "aio_submit_async E cmd tag c = (Inr (Some st), c') \<Longrightarrow> ai_heap c' = ai_heap c \<and> ai_fresh c' = ai_fresh c"
  by (auto simp: aio_submit_async_def sbind_Inr_iff dest: aio_read_ticket split: if_splits)

lemma aio_later: "aio_submit_async E cmd tag c = (Inr None, c') \<Longrightarrow> one_ticket tag (ai_heap c, ai_fresh c) (ai_heap c', ai_fresh c')"
  by (auto simp: aio_submit_async_def sbind_Inr_iff dest: aio_write_ticket aio_zeroes_ticket aio_flush_ticket split: if_splits)

lemma aio_ticketed: "ticketed (aio_ops E) (\<lambda>c. heap_bounded (ai_heap c) (ai_fresh c))"
  by (rule ticketedI) (auto simp: aio_ops_def tags_of_def [abs_def] on_ai_ring_def prog_simps
      dest: aio_now aio_later split: prod.splits if_splits)

interpretation aio: ticketed "aio_ops E" "\<lambda>c. heap_bounded (ai_heap c) (ai_fresh c)" for E
  by (rule aio_ticketed)

subsection \<open>Its version for several machines\<close>

lemma multi_run: "on_multi qi m s = (r, s') \<Longrightarrow>
   \<exists>c c'. m c = (r, c') \<and> ai_heap c = ms_heap s \<and> ai_fresh c = ms_fresh s \<and> ai_heap c' = ms_heap s' \<and> ai_fresh c' = ms_fresh s'"
  by (fastforce simp: on_multi_def Let_def split: prod.splits)

lemma on_ai_ring_heap: "on_ai_ring m c = (r, c') \<Longrightarrow> ai_heap c' = ai_heap c \<and> ai_fresh c' = ai_fresh c"
  by (auto simp: on_ai_ring_def prog_simps split: prod.splits)

lemma multi_kick: "sfold (\<lambda>qi u. if qi \<in> S then on_multi qi (on_ai_ring (kick_ring L)) else return ()) qs () s = (Inr u, s') \<Longrightarrow>
   ms_heap s' = ms_heap s \<and> ms_fresh s' = ms_fresh s"
proof (induction qs arbitrary: s)
  case (Cons q qs)
  have "ms_heap s1 = ms_heap s \<and> ms_fresh s1 = ms_fresh s" if "on_multi q (on_ai_ring (kick_ring L)) s = (Inr u1, s1)" for u1 s1
    using multi_run [OF that] on_ai_ring_heap by metis
  then show ?case using Cons by (fastforce simp: sbind_Inr_iff split: if_splits)
qed simp

interpretation multi: ticketed "multi_ops E n" "\<lambda>s. heap_bounded (ms_heap s) (ms_fresh s)" for E n
proof (rule ticketedI, goal_cases)
  case (2 c qi cmd tag st c')
  then show ?case by (auto simp: multi_ops_def multi_is_aio dest!: multi_run aio_now)
next
  case (3 c qi cmd tag c')
  then obtain a a' where "aio_submit_async E cmd tag a = (Inr None, a')" "ai_heap a = ms_heap c" "ai_fresh a = ms_fresh c"
      "ai_heap a' = ms_heap c'" "ai_fresh a' = ms_fresh c'"
    using multi_run by (fastforce simp: multi_ops_def multi_is_aio)
  then show ?case using aio_later [of E cmd tag a a'] by simp
next
  case (4 c sub u c')
  then show ?case using multi_kick by (auto simp: multi_ops_def)
qed (auto simp: multi_ops_def tags_of_def [abs_def])

subsection \<open>The controller that enciphers in the enclave\<close>

lemmas sgx_ticket_defs = on_sq_nvme_def sq_new_ticket_def on_sq_mem_def on_sq_ring_def sq_invoke_def invoke_def prog_simps one_ticket_def Let_def

lemma sgx_write_ticket: "sgx_aio_submit_write E cmd tag c = (Inr u, c') \<Longrightarrow> one_ticket tag (sq_heap c, sq_fresh c) (sq_heap c', sq_fresh c')"
  by (auto simp: sgx_aio_submit_write_def sgx_ticket_defs split: prod.splits sum.splits if_splits cpp_exn.splits)

lemma sgx_zeroes_ticket: "sgx_aio_submit_write_zeroes E cmd tag c = (Inr u, c') \<Longrightarrow> one_ticket tag (sq_heap c, sq_fresh c) (sq_heap c', sq_fresh c')"
  by (auto simp: sgx_aio_submit_write_zeroes_def sgx_ticket_defs split: prod.splits sum.splits if_splits cpp_exn.splits)

lemma sgx_flush_ticket: "sgx_aio_submit_flush E tag c = (Inr u, c') \<Longrightarrow> one_ticket tag (sq_heap c, sq_fresh c) (sq_heap c', sq_fresh c')"
  by (auto simp: sgx_aio_submit_flush_def sgx_ticket_defs split: prod.splits sum.splits if_splits)

lemma sgx_read_ticket: "sgx_aio_receive_read E cmd c = (Inr st, c') \<Longrightarrow> sq_heap c' = sq_heap c \<and> sq_fresh c' = sq_fresh c"
  by (auto simp: sgx_aio_receive_read_def sgx_ticket_defs split: prod.splits sum.splits if_splits cpp_exn.splits)

lemma sgx_now: "sgx_aio_submit_async E cmd tag c = (Inr (Some st), c') \<Longrightarrow> sq_heap c' = sq_heap c \<and> sq_fresh c' = sq_fresh c"
  by (auto simp: sgx_aio_submit_async_def sbind_Inr_iff dest: sgx_read_ticket split: if_splits)

lemma sgx_later: "sgx_aio_submit_async E cmd tag c = (Inr None, c') \<Longrightarrow> one_ticket tag (sq_heap c, sq_fresh c) (sq_heap c', sq_fresh c')"
  by (auto simp: sgx_aio_submit_async_def sbind_Inr_iff dest: sgx_write_ticket sgx_zeroes_ticket sgx_flush_ticket split: if_splits)

interpretation sgx_aio: ticketed "sgx_aio_ops E" "\<lambda>c. heap_bounded (sq_heap c) (sq_fresh c)" for E
  by (rule ticketedI) (auto simp: sgx_aio_ops_def tags_of_def [abs_def] on_sq_ring_def prog_simps
      dest: sgx_now sgx_later split: prod.splits if_splits)

subsection \<open>The replicating controller\<close>

lemmas sender_ticket_defs = on_sa_nvme_def new_iovec_ticket_def set_iovecs_def on_sa_ring_def prog_simps one_ticket_def Let_def

lemma sender_write_ticket: "sender_aio_submit_write E cmd tag c = (Inr u, c') \<Longrightarrow> one_ticket tag (sa_heap c, sa_fresh c) (sa_heap c', sa_fresh c')"
  by (auto simp: sender_aio_submit_write_def sender_ticket_defs split: prod.splits sum.splits if_splits)

lemma sender_zeroes_ticket: "sender_aio_submit_write_zeroes E cmd tag c = (Inr u, c') \<Longrightarrow> one_ticket tag (sa_heap c, sa_fresh c) (sa_heap c', sa_fresh c')"
  by (auto simp: sender_aio_submit_write_zeroes_def sender_ticket_defs split: prod.splits sum.splits if_splits)

lemma sender_flush_ticket: "sender_aio_submit_flush E tag c = (Inr u, c') \<Longrightarrow> one_ticket tag (sa_heap c, sa_fresh c) (sa_heap c', sa_fresh c')"
  by (auto simp: sender_aio_submit_flush_def sender_ticket_defs split: prod.splits sum.splits if_splits)

lemma sender_now: "sender_aio_submit_async E cmd tag c = (Inr st, c') \<Longrightarrow> st \<noteq> NVME_SC_SUCCESS \<Longrightarrow> sa_heap c' = sa_heap c \<and> sa_fresh c' = sa_fresh c"
  by (auto simp: sender_aio_submit_async_def sbind_Inr_iff split: if_splits)

lemma invalid_opcode_not_success: "NVME_SC_DNR OR NVME_SC_INVALID_OPCODE \<noteq> NVME_SC_SUCCESS"
  by code_simp

lemma sender_later: "sender_aio_submit_async E cmd tag c = (Inr NVME_SC_SUCCESS, c') \<Longrightarrow> one_ticket tag (sa_heap c, sa_fresh c) (sa_heap c', sa_fresh c')"
  using invalid_opcode_not_success
  by (auto simp: sender_aio_submit_async_def sbind_Inr_iff dest: sender_write_ticket sender_zeroes_ticket sender_flush_ticket split: if_splits)

interpretation replicator: ticketed "replicator_ops E" "\<lambda>c. heap_bounded (sa_heap c) (sa_fresh c)" for E
  by (rule ticketedI) (auto simp: replicator_ops_def tags_of_def [abs_def] on_sa_ring_def prog_simps sbind_Inr_iff
      dest: sender_now sender_later split: prod.splits if_splits sum.splits)

section \<open>Workers that answer at once\<close>

text \<open>A queue after its first \<open>n\<close> commands were answered, in order, each under its own identifier.\<close>

definition responses :: "nvme_command list \<Rightarrow> u16 list \<Rightarrow> nmntfy_response list" where
  "responses cmds sts = map2 (\<lambda>cmd st. response (command_id cmd) st) cmds sts"

definition answered :: "nat \<Rightarrow> wqueue \<Rightarrow> wqueue \<Rightarrow> bool" where
  "answered n q q' \<longleftrightarrow> (\<exists>sq cq sts. q = Some (sq, cq) \<and> length sts = length (take n sq) \<and> q' = Some (drop n sq, cq @ responses (take n sq) sts))"

lemma responses_append: "length a = length s \<Longrightarrow> responses a s @ responses b t = responses (a @ b) (s @ t)"
  by (simp add: responses_def)

lemma answered_trans:
  assumes "answered m p q" "answered n q r"
  shows "answered (m + n) p r"
proof -
  obtain sq cq s where p: "p = Some (sq, cq)" "length s = length (take m sq)" "q = Some (drop m sq, cq @ responses (take m sq) s)"
    using assms(1) unfolding answered_def by blast
  obtain t where r: "length t = length (take n (drop m sq))" "r = Some (drop n (drop m sq), (cq @ responses (take m sq) s) @ responses (take n (drop m sq)) t)"
    using assms(2) p(3) unfolding answered_def by auto
  show ?thesis
    unfolding answered_def using p r responses_append [of "take m sq" s]
    by (intro exI [of _ sq] exI [of _ cq] exI [of _ "s @ t"]) (simp add: take_add drop_drop add.commute)
qed

lemma list_answered_trans: "list_all2 (answered m) ps qs \<Longrightarrow> list_all2 (answered n) qs rs \<Longrightarrow> list_all2 (answered (m + n)) ps rs"
  unfolding list_all2_conv_all_nth using answered_trans by metis

definition all_waiting :: "(nvme_command \<Rightarrow> bool) \<Rightarrow> wqueue list \<Rightarrow> bool" where
  "all_waiting Q qs \<longleftrightarrow> (\<forall>q\<in>set qs. case q of None \<Rightarrow> False | Some (sq, cq) \<Rightarrow> list_all Q sq)"

lemma all_waiting_nth: "all_waiting Q qs \<Longrightarrow> i < length qs \<Longrightarrow> \<exists>sq cq. qs ! i = Some (sq, cq) \<and> list_all Q sq"
  unfolding all_waiting_def using nth_mem [of i qs] by (fastforce split: option.splits)

lemma answered_waiting:
  assumes "all_waiting Q ps" "list_all2 (answered n) ps qs"
  shows "all_waiting Q qs"
proof -
  have "case qs ! i of None \<Rightarrow> False | Some (sq, cq) \<Rightarrow> list_all Q sq" if i: "i < length qs" for i
  proof -
    have l: "length ps = length qs" "answered n (ps ! i) (qs ! i)" using assms(2) i by (auto simp: list_all2_conv_all_nth)
    obtain sq cq where "ps ! i = Some (sq, cq)" "list_all Q sq" using all_waiting_nth [OF assms(1), of i] i l(1) by auto
    then show ?thesis using l(2) by (auto simp: answered_def list_all_iff dest!: in_set_dropD)
  qed
  then show ?thesis unfolding all_waiting_def by (auto simp: in_set_conv_nth)
qed

text \<open>A controller that answers the commands of interest as long as it is in order.\<close>

definition answers :: "(nvme_command \<Rightarrow> bool) \<Rightarrow> ('c \<Rightarrow> bool) \<Rightarrow> (nvme_command \<Rightarrow> ('c, u16) prog) \<Rightarrow> bool" where
  "answers Q P rcv \<longleftrightarrow> (\<forall>cmd c. Q cmd \<longrightarrow> P c \<longrightarrow> (\<exists>st c'. rcv cmd c = (Inr st, c') \<and> P c'))"

lemma receive_burst:
  assumes "answers Q P rcv" "P (wr_ctrl w)" "list_all Q cmds"
  shows "\<exists>sts c'. length sts = length cmds \<and> P c' \<and> sfold (receive_into rcv) cmds rs w = (Inr (rs @ responses cmds sts), w\<lparr>wr_ctrl := c'\<rparr>)"
  using assms(2,3)
proof (induction cmds arbitrary: rs w)
  case Nil
  then show ?case by (intro exI [of _ "[]"] exI [of _ "wr_ctrl w"]) (simp add: responses_def)
next
  case (Cons cmd cmds)
  then obtain st c1 where s: "rcv cmd (wr_ctrl w) = (Inr st, c1)" "P c1"
    using assms(1) unfolding answers_def by (metis list.pred_inject(2))
  let ?rs = "rs @ [response (command_id cmd) st]"
  obtain sts c' where r: "length sts = length cmds" "P c'"
      "sfold (receive_into rcv) cmds ?rs (w\<lparr>wr_ctrl := c1\<rparr>) = (Inr (?rs @ responses cmds sts), w\<lparr>wr_ctrl := c'\<rparr>)"
    using Cons.IH [of "w\<lparr>wr_ctrl := c1\<rparr>" ?rs] s(2) Cons.prems(2) by auto
  show ?case
    using r s by (intro exI [of _ "st # sts"] exI [of _ c'])
      (simp add: receive_into_def [of rcv cmd] on_wr_ctrl_def prog_simps responses_def)
qed

lemma serve_answers:
  assumes "answers Q P rcv" "P (wr_ctrl w)" "i < length (wr_queues w)" "wr_queues w ! i = Some (sq, cq)" "list_all Q sq"
  shows "\<exists>s' q c'. serve rcv i s w = (Inr s', w\<lparr>wr_ctrl := c', wr_queues := (wr_queues w)[i := q]\<rparr>) \<and> P c' \<and> answered worker_burst (wr_queues w ! i) q"
proof -
  let ?b = "take worker_burst sq"
  let ?w1 = "w\<lparr>wr_queues := (wr_queues w)[i := Some (drop worker_burst sq, cq)]\<rparr>"
  have t: "take_burst i w = (Inr ?b, ?w1)" using assms(3,4) by (simp add: take_burst_def with_queue_def set_queue_def prog_simps)
  have "list_all Q ?b" using assms(5) by (auto simp: list_all_iff dest: in_set_takeD)
  then obtain sts c' where r: "length sts = length ?b" "P c'" "sfold (receive_into rcv) ?b [] ?w1 = (Inr (responses ?b sts), ?w1\<lparr>wr_ctrl := c'\<rparr>)"
    using receive_burst [of Q P rcv ?w1 ?b "[]"] assms(1,2) by auto
  show ?thesis
  proof (cases "?b = []")
    case True
    then have "answered worker_burst (wr_queues w ! i) (Some (drop worker_burst sq, cq))"
      unfolding answered_def using assms(4) by (intro exI [of _ sq] exI [of _ cq] exI [of _ "[]"]) (use True in \<open>auto simp: responses_def\<close>)
    then show ?thesis using t True assms(2) by (intro exI [of _ s] exI [of _ "Some (drop worker_burst sq, cq)"] exI [of _ "wr_ctrl w"]) (simp add: serve_def prog_simps)
  next
    case False
    let ?q = "Some (drop worker_burst sq, cq @ responses ?b sts)"
    have "answered worker_burst (wr_queues w ! i) ?q" unfolding answered_def using assms(4) r(1) by auto
    moreover have "serve rcv i s w = (Inr True, w\<lparr>wr_ctrl := c', wr_queues := (wr_queues w)[i := ?q]\<rparr>)"
      using t r(3) False assms(3) by (simp add: serve_def respond_def with_queue_def set_queue_def prog_simps)
    ultimately show ?thesis using r(2) by blast
  qed
qed

lemma serve_from:
  assumes "answers Q P rcv" "P (wr_ctrl w)" "all_waiting Q (wr_queues w)"
  shows "\<exists>s' w'. sfold (serve rcv) [i..<length (wr_queues w)] s w = (Inr s', w') \<and> P (wr_ctrl w') \<and> length (wr_queues w') = length (wr_queues w) \<and>
     (\<forall>j<length (wr_queues w). if j < i then wr_queues w' ! j = wr_queues w ! j else answered worker_burst (wr_queues w ! j) (wr_queues w' ! j))"
  using assms(2,3)
proof (induction "length (wr_queues w) - i" arbitrary: i s w)
  case 0
  then show ?case by simp
next
  case (Suc n)
  let ?m = "length (wr_queues w)"
  have i: "i < ?m" "[i..<?m] = i # [Suc i..<?m]" using Suc.hyps(2) by (simp_all add: upt_conv_Cons)
  obtain sq cq where q: "wr_queues w ! i = Some (sq, cq)" "list_all Q sq" using all_waiting_nth [OF Suc.prems(2) i(1)] by blast
  obtain s1 q' c' where v: "serve rcv i s w = (Inr s1, w\<lparr>wr_ctrl := c', wr_queues := (wr_queues w)[i := q']\<rparr>)" "P c'"
      "answered worker_burst (wr_queues w ! i) q'"
    using serve_answers [OF assms(1) Suc.prems(1) i(1) q] by blast
  let ?w1 = "w\<lparr>wr_ctrl := c', wr_queues := (wr_queues w)[i := q']\<rparr>"
  have "list_all2 (answered worker_burst) [wr_queues w ! i] [q']" using v(3) by simp
  then have "all_waiting Q [q']" by (rule answered_waiting [rotated]) (use q in \<open>simp add: all_waiting_def\<close>)
  then have wt: "all_waiting Q (wr_queues ?w1)"
    using Suc.prems(2) by (auto simp: all_waiting_def dest!: subsetD [OF set_update_subset_insert])
  have n: "n = length (wr_queues ?w1) - Suc i" "P (wr_ctrl ?w1)" "length (wr_queues ?w1) = ?m" using Suc.hyps(2) v(2) by simp_all
  obtain s' w' where r: "sfold (serve rcv) [Suc i..<?m] s1 ?w1 = (Inr s', w')" "P (wr_ctrl w')" "length (wr_queues w') = ?m"
      "\<forall>j<?m. if j < Suc i then wr_queues w' ! j = wr_queues ?w1 ! j else answered worker_burst (wr_queues ?w1 ! j) (wr_queues w' ! j)"
    using Suc.hyps(1) [OF n(1,2) wt, of s1, unfolded n(3)] by (elim exE conjE) (rule that)
  have "sfold (serve rcv) [i..<?m] s w = (Inr s', w')" using v(1) r(1) i(2) by (simp add: sbind_Inr_iff)
  moreover have "if j < i then wr_queues w' ! j = wr_queues w ! j else answered worker_burst (wr_queues w ! j) (wr_queues w' ! j)" if "j < ?m" for j
    using r(4) [rule_format, OF that] v(3) i(1) by (cases "j = i") (auto split: if_splits)
  ultimately show ?case using r(2,3) by blast
qed

lemma serve_round_answers:
  assumes "answers Q P rcv" "P (wr_ctrl w)" "all_waiting Q (wr_queues w)"
  shows "\<exists>s' w'. serve_round rcv s w = (Inr s', w') \<and> P (wr_ctrl w') \<and> list_all2 (answered worker_burst) (wr_queues w) (wr_queues w')"
  using serve_from [OF assms, of 0 s] by (auto simp: serve_round_def prog_simps list_all2_conv_all_nth)

lemma serve_tries_answers:
  assumes "answers Q P rcv" "P (wr_ctrl w)" "all_waiting Q (wr_queues w)"
  shows "\<exists>s' w'. serve_tries rcv n s w = (Inr s', w') \<and> P (wr_ctrl w') \<and> list_all2 (answered (n * worker_burst)) (wr_queues w) (wr_queues w')"
  using assms(2,3)
proof (induction n arbitrary: s w)
  case 0
  have "answered 0 q q" if q: "q \<in> set (wr_queues w)" for q
  proof -
    obtain sq cq where "q = Some (sq, cq)" using q 0(2) by (fastforce simp: all_waiting_def split: option.splits)
    then show ?thesis by (auto simp: answered_def responses_def)
  qed
  then show ?case using 0 by (auto intro!: list.rel_refl_strong)
next
  case (Suc n)
  obtain s1 w1 where r: "serve_round rcv s w = (Inr s1, w1)" "P (wr_ctrl w1)" "list_all2 (answered worker_burst) (wr_queues w) (wr_queues w1)"
    using serve_round_answers [OF assms(1) Suc.prems] by blast
  obtain s' w' where t: "serve_tries rcv n s1 w1 = (Inr s', w')" "P (wr_ctrl w')" "list_all2 (answered (n * worker_burst)) (wr_queues w1) (wr_queues w')"
    using Suc.IH [OF r(2) answered_waiting [OF Suc.prems(2) r(3)]] by blast
  show ?case using r(1) t(1,2) list_answered_trans [OF r(3) t(3)] by (auto simp: sbind_Inr_iff)
qed

text \<open>
  C22. A worker that answers at once serves its queues: when the rings of all its queues are mapped, the controller answers the commands
  that wait (as it does short of undefined behaviour), and \<open>poll\<close> does not fail, a turn takes the first 320 commands of every queue, or
  all of them if there are fewer, and appends one response for each, in the order of the commands and under their identifiers. It holds for the
  programs \<open>encryptor-mt\<close>, \<open>encryptor-sgx\<close> and \<open>replicator\<close>, whose workers are this one.
\<close>

theorem sync_worker_answers_all:
  assumes "answers Q P rcv" "P (wr_ctrl w)" "all_waiting Q (wr_queues w)" "0 \<le> poll_res"
  shows "\<exists>w'. sync_turn rcv idle poll_res w = (Inr (), w') \<and> P (wr_ctrl w') \<and> list_all2 (answered 320) (wr_queues w) (wr_queues w')"
proof -
  obtain s' w' where "serve_tries rcv worker_tries False w = (Inr s', w')" "P (wr_ctrl w')"
      "list_all2 (answered (worker_tries * worker_burst)) (wr_queues w) (wr_queues w')"
    using serve_tries_answers [OF assms(1-3)] by blast
  then show ?thesis using assms(4) by (auto simp: sync_turn_def rest_def sbind_Inr_iff worker_tries_def worker_burst_def)
qed

text \<open>A worker of \<open>encryptor-mt\<close> with two queues and commands it refuses.\<close>

definition refused :: "nvme_command \<Rightarrow> bool" where
  "refused cmd \<longleftrightarrow> opcode cmd = nvme_cmd_flush"

definition sample_flush :: nvme_command where
  "sample_flush = sample_write\<lparr>opcode := nvme_cmd_flush\<rparr>"

definition sample_worker :: "(tbc \<times> enc_ctrl) worker" where
  "sample_worker = \<lparr>wr_ctrl = (ee_engine sample_enc, sample_ctrl), wr_queues = [Some ([sample_flush, sample_flush], []), Some (replicate 400 sample_flush, [])]\<rparr>"

theorem sync_worker_answers_all_witness:
  "\<exists>w' sts. mt_turn sample_enc True 0 sample_worker = (Inr (), w') \<and> length sts = 320 \<and>
     wr_queues w' ! 1 = Some (replicate 80 sample_flush, responses (replicate 320 sample_flush) sts)"
proof -
  have "answers refused (\<lambda>_. True) (mt_receive sample_enc)"
    unfolding answers_def by (auto simp: refused_def mt_receive_def receive_def catch_std_def nvme_opcode_defs split: prod.splits)
  moreover have "all_waiting refused (wr_queues sample_worker)"
    by (simp add: sample_worker_def all_waiting_def refused_def sample_flush_def list_all_iff)
  ultimately obtain w' where w: "sync_turn (mt_receive sample_enc) True 0 sample_worker = (Inr (), w')"
      "list_all2 (answered 320) (wr_queues sample_worker) (wr_queues w')"
    using sync_worker_answers_all [of refused "\<lambda>_. True" "mt_receive sample_enc" sample_worker 0 True] by auto
  have "answered 320 (wr_queues sample_worker ! 1) (wr_queues w' ! 1)" using w(2) by (rule list_all2_nthD) (simp add: sample_worker_def)
  then obtain sts where "length sts = 320" "wr_queues w' ! 1 = Some (replicate 80 sample_flush, responses (replicate 320 sample_flush) sts)"
    by (auto simp: answered_def sample_worker_def)
  then show ?thesis using w(1) by (auto simp: mt_turn_def)
qed

text \<open>
  The queues are dealt out to the workers whether they are open or not. A worker that got a queue that is not open reads through a null
  pointer in its first round, and so in every program but \<open>xcowsrv\<close>, which leaves such queues out.
\<close>

theorem closed_queue_read_through_null:
  "worker_start vm bfd [(1, -1)] (Inr c) = Inr (Some w) \<Longrightarrow> sync_turn rcv idle poll_res w = (Inl (Undefined ''null pointer''), w)"
  by (auto simp: worker_start_def queue_of_def sync_turn_def worker_tries_def eval_nat_numeral serve_round_def serve_def take_burst_def
      with_queue_def prog_simps split: if_splits)

section \<open>Workers that answer on completion\<close>

text \<open>A request that fails makes the worker of \<open>encryptor-aio\<close> read the ticket that it has just deleted.\<close>

theorem failed_request_reads_deleted_ticket:
  "ai_heap (wr_ctrl w) (cqe_data cqe) \<noteq> None \<Longrightarrow> cqe_res cqe < 0 \<Longrightarrow> fst (complete (aio_ops E) cqe () w) = Inl (Undefined ''use after free'')"
  by (auto simp: complete_def aio_ops_def prog_simps split: option.splits prod.splits)

text \<open>
  C7. No command is lost or answered twice. The books of a worker are its commands, each by the number of its queue and its identifier: the ones
  that wait in a submission ring, the ones that were answered, and the ones that have a ticket. A turn of the asynchronous
  encryptor, of its version in the enclave, of its version for several machines and of the replicator keeps the books, however many completions
  arrive and in whatever order.
\<close>

theorem commands_answered_once:
  "(heap_bounded (ai_heap (wr_ctrl wa)) (ai_fresh (wr_ctrl wa)) \<and> aio_turn Ea ready idle p wa = (Inr (), wa') \<longrightarrow>
      heap_bounded (ai_heap (wr_ctrl wa')) (ai_fresh (wr_ctrl wa')) \<and> ledger (aio_ops Ea) wa' = ledger (aio_ops Ea) wa) \<and>
   (heap_bounded (sq_heap (wr_ctrl wg)) (sq_fresh (wr_ctrl wg)) \<and> sgx_aio_turn Eg ready idle p wg = (Inr (), wg') \<longrightarrow>
      heap_bounded (sq_heap (wr_ctrl wg')) (sq_fresh (wr_ctrl wg')) \<and> ledger (sgx_aio_ops Eg) wg' = ledger (sgx_aio_ops Eg) wg) \<and>
   (heap_bounded (sa_heap (wr_ctrl wr)) (sa_fresh (wr_ctrl wr)) \<and> replicator_aio_turn Er ready idle p wr = (Inr (), wr') \<longrightarrow>
      heap_bounded (sa_heap (wr_ctrl wr')) (sa_fresh (wr_ctrl wr')) \<and> ledger (replicator_ops Er) wr' = ledger (replicator_ops Er) wr) \<and>
   (heap_bounded (ms_heap (wr_ctrl wm)) (ms_fresh (wr_ctrl wm)) \<and> multi_turn Em readym idle p wm = (Inr (), wm') \<longrightarrow>
      heap_bounded (ms_heap (wr_ctrl wm')) (ms_fresh (wr_ctrl wm')) \<and>
      ledger (multi_ops Em (length (wr_queues wm))) wm' = ledger (multi_ops Em (length (wr_queues wm))) wm)"
proof -
  show ?thesis
    using aio.booksD [OF aio.turn_books, of wa Ea True "[ready]" idle p "()" wa'] sgx_aio.booksD [OF sgx_aio.turn_books, of wg Eg True "[ready]" idle p "()" wg']
      replicator.booksD [OF replicator.turn_books, of wr Er False "[ready]" idle p "()" wr']
      multi.booksD [OF multi.turn_books, of wm Em "length (wr_queues wm)" True readym idle p "()" wm']
    by (simp add: aio_turn_def sgx_aio_turn_def replicator_aio_turn_def multi_turn_def prog_simps)
qed

text \<open>Two commands wait; the first is answered in the turn that takes it, the second gets a ticket.\<close>

definition sample_aio_worker :: "aio_ctrl worker" where
  "sample_aio_worker = \<lparr>wr_ctrl = sample_aio_ctrl, wr_queues = [Some ([sample_flush, sample_flush], [])]\<rparr>"

lemma flush_submitted:
  assumes "length (ur_sq (ai_ring c)) < 2048"
  shows "aio_submit_async sample_aio sample_flush tag c =
     (Inr None, c\<lparr>ai_heap := (ai_heap c)(ai_fresh c \<mapsto> \<lparr>tk_tag = tag, mt_mem = []\<rparr>), ai_fresh := ai_fresh c + 1,
        ai_ring := (ai_ring c)\<lparr>ur_sq := ur_sq (ai_ring c) @ [mk_sqe (Fsync_op IORING_FSYNC_DATASYNC) 0 True (ai_fresh c)]\<rparr>\<rparr>)"
  using assms
  by (simp add: aio_submit_async_def sample_flush_def nvme_opcode_defs aio_submit_flush_def new_mem_ticket_def on_ai_ring_def queue_fsync_def get_sqe_def
      sample_aio_def sample_ring_def prog_simps)

lemma sample_aio_turn:
  "\<exists>w'. aio_turn sample_aio [\<lparr>cqe_data = 0, cqe_res = 0\<rparr>] False 0 sample_aio_worker = (Inr (), w') \<and>
     wr_queues w' = [Some ([], [response (command_id sample_flush) NVME_SC_SUCCESS])]"
proof -
  let ?A = "aio_ops sample_aio" and ?tag = "make_tag 0 (command_id sample_flush)"
  let ?k = "\<lparr>tk_tag = ?tag, mt_mem = []\<rparr>" and ?q = "\<lambda>t. mk_sqe (Fsync_op IORING_FSYNC_DATASYNC) 0 True t"
  let ?c = "sample_aio_ctrl\<lparr>ai_heap := [0 \<mapsto> ?k, 1 \<mapsto> ?k], ai_fresh := 2, ai_ring := (ai_ring sample_aio_ctrl)\<lparr>ur_sq := [?q 0, ?q 1]\<rparr>\<rparr>"
  have t: "worker_tries = Suc 19" by (simp add: worker_tries_def)
  have s: "submit_tries ?A True worker_tries (False, []) sample_aio_worker = (Inr (True, [0, 0]), \<lparr>wr_ctrl = ?c, wr_queues = [Some ([], [])]\<rparr>)"
    unfolding t submit_tries.simps
    by (simp add: submit_round_def submit_queue_def take_burst_def with_queue_def set_queue_def sample_aio_worker_def worker_burst_def submit_cmd_def
        on_wr_ctrl_def aio_ops_def flush_submitted sample_aio_ctrl_def prog_simps)
  have A: "ao_kick ?A [0, 0] = on_ai_ring (kick_ring sample_ring)" "ao_tag ?A = (\<lambda>c t. map_option tk_tag (ai_heap c t))"
    "ao_delete ?A = (\<lambda>t c. c\<lparr>ai_heap := (ai_heap c)(t := None)\<rparr>)"
    by (simp_all add: aio_ops_def sample_aio_def)
  have u: "unmake_tag ?tag = (0, command_id sample_flush)" by (rule unmake_make_tag)
  show ?thesis
    using s u
    by (simp add: aio_turn_def async_turn_def sbind_def [abs_def] complete_def rest_def respond_def with_queue_def set_queue_def worker_completions_def
        on_wr_ctrl_def prog_simps A on_ai_ring_def kick_ring_def sq_kick_def Let_def sample_ring_def)
qed

theorem commands_answered_once_witness:
  "\<exists>w'. aio_turn sample_aio [\<lparr>cqe_data = 0, cqe_res = 0\<rparr>] False 0 sample_aio_worker = (Inr (), w') \<and>
     wr_queues w' = [Some ([], [response (command_id sample_flush) NVME_SC_SUCCESS])] \<and>
     ledger (aio_ops sample_aio) w' = ledger (aio_ops sample_aio) sample_aio_worker"
  using sample_aio_turn commands_answered_once [where wa = sample_aio_worker and Ea = sample_aio and ready = "[\<lparr>cqe_data = 0, cqe_res = 0\<rparr>]" and idle = False and p = 0]
  by (auto simp: sample_aio_worker_def sample_aio_ctrl_def heap_bounded_def)

end
