(* ===== verification/XcowFmt.thy ===== *)
theory XcowFmt
  imports Util
begin

text \<open>
  The metadata file of a copy-on-write disk: its memory mapping (\<open>deref.hpp\<close>, \<open>file_deref.hpp\<close>),
  its header and entry encodings (\<open>xcowfmt.hpp\<close>, \<open>xcow_snap.hpp\<close>, \<open>xcow_file.hpp\<close>), and the two table
  shapes it is made of (\<open>linked_table.hpp\<close>, \<open>nested_table.hpp\<close>).
\<close>

section \<open>The mapped file\<close>

text \<open>
  All metadata is made of 8-byte words, so the mapping is a function from word indices; the size
  is in bytes. A file object keeps the current snapshot list and the free list as spans of words:
  the index of the first word and the number of words.
\<close>

type_synonym cells = "nat \<times> nat"

record xcow_file =
  xf_mem :: "nat \<Rightarrow> u64"
  xf_size :: u64
  xf_snaps :: cells
  xf_flist :: cells

type_synonym 'a xprog = "(xcow_file, 'a) prog"

text \<open>
  \<open>FileDeref::deref\<close> takes a subspan; a range outside the mapping is undefined, and so is the
  access to a word at an address that is not a multiple of its size. The result is the index of the first
  word and the number of bytes.
\<close>

definition deref :: "u64 \<Rightarrow> u64 \<Rightarrow> (nat \<times> nat) xprog" where
  "deref off nbytes =
     sbind (sget xf_size) (\<lambda>sz.
       if unat sz < unat off + unat nbytes then raise (Undefined ''subspan'')
       else if unat off mod 8 \<noteq> 0 then raise (Undefined ''misaligned'')
       else return (unat off div 8, unat nbytes))"

text \<open>\<open>convert_span\<close> to entries of a given number of bytes.\<close>

definition convert_span :: "nat \<Rightarrow> nat \<times> nat \<Rightarrow> cells xprog" where
  "convert_span esize sp =
     (if snd sp mod esize \<noteq> 0 then raise (Runtime_error ''invalid span conversion'')
      else return (fst sp, snd sp div 8))"

definition cell_get :: "nat \<Rightarrow> u64 xprog" where
  "cell_get i =
     sbind (sget xf_size) (\<lambda>sz.
       if unat sz < 8 * i + 8 then raise (Undefined ''load'') else sget (\<lambda>f. xf_mem f i))"

definition cell_put :: "nat \<Rightarrow> u64 \<Rightarrow> unit xprog" where
  "cell_put i v =
     sbind (sget xf_size) (\<lambda>sz.
       if unat sz < 8 * i + 8 then raise (Undefined ''store'')
       else smod (\<lambda>f. f\<lparr>xf_mem := (xf_mem f)(i := v)\<rparr>))"

text \<open>Indexing a span, and filling one.\<close>

definition span_get :: "cells \<Rightarrow> nat \<Rightarrow> u64 xprog" where
  "span_get sp i = (if i < snd sp then cell_get (fst sp + i) else raise (Undefined ''span index''))"

definition span_put :: "cells \<Rightarrow> nat \<Rightarrow> u64 \<Rightarrow> unit xprog" where
  "span_put sp i v = (if i < snd sp then cell_put (fst sp + i) v else raise (Undefined ''span index''))"

definition span_fill :: "cells \<Rightarrow> u64 \<Rightarrow> unit xprog" where
  "span_fill sp v =
     sbind (sget xf_size) (\<lambda>sz.
       if unat sz < 8 * (fst sp + snd sp) then raise (Undefined ''store'')
       else smod (\<lambda>f. f\<lparr>xf_mem := (\<lambda>i. if fst sp \<le> i \<and> i < fst sp + snd sp then v else xf_mem f i)\<rparr>))"

text \<open>
  The copy loop of \<open>snap_create\<close> and \<open>translate_write\<close>: every entry of the source, with one bit cleared, into
  the destination, front to back. A destination that is too short is overrun.
\<close>

fun copy_masked :: "nat \<Rightarrow> cells \<Rightarrow> cells \<Rightarrow> u64 \<Rightarrow> nat \<Rightarrow> unit xprog" where
  "copy_masked 0 src dst m i = return ()"
| "copy_masked (Suc n) src dst m i =
     sbind (span_get src i) (\<lambda>v.
       sbind (span_put dst i (v AND m)) (\<lambda>_. copy_masked n src dst m (i + 1)))"

section \<open>The header\<close>

definition XCOW_MAGIC :: u64 where "XCOW_MAGIC = 0x306f7274654d564e"

text \<open>Two 32-bit fields share a word; the first one is its low half.\<close>

definition lo32 :: "u64 \<Rightarrow> u32" where "lo32 w = ucast w"
definition hi32 :: "u64 \<Rightarrow> u32" where "hi32 w = ucast (drop_bit 32 w)"
definition join32 :: "u32 \<Rightarrow> u32 \<Rightarrow> u64" where "join32 lo hi = ucast lo OR push_bit 32 (ucast hi)"

lemma lo_join [simp]: "lo32 (join32 l h) = l"
  by (simp add: lo32_def join32_def)

lemma hi_join [simp]: "hi32 (join32 l h) = h"
  unfolding hi32_def join32_def by (rule u32_hi_join)

definition hdr_magic :: "xcow_file \<Rightarrow> u64" where "hdr_magic f = xf_mem f 0"
definition hdr_fsize :: "xcow_file \<Rightarrow> u64" where "hdr_fsize f = xf_mem f 1"
definition hdr_cluster_bits :: "xcow_file \<Rightarrow> u32" where "hdr_cluster_bits f = lo32 (xf_mem f 2)"
definition hdr_hwm_limit :: "xcow_file \<Rightarrow> u32" where "hdr_hwm_limit f = lo32 (xf_mem f 3)"
definition hdr_hwm :: "xcow_file \<Rightarrow> u32" where "hdr_hwm f = hi32 (xf_mem f 3)"
definition hdr_disk_hwm_limit :: "xcow_file \<Rightarrow> u64" where "hdr_disk_hwm_limit f = xf_mem f 4"
definition hdr_snaplist :: "xcow_file \<Rightarrow> u64" where "hdr_snaplist f = xf_mem f 5"
definition hdr_freelist :: "xcow_file \<Rightarrow> u64" where "hdr_freelist f = xf_mem f 6"

definition XcowHeader_size :: u64 where "XcowHeader_size = 56"

section \<open>Entry encodings\<close>

definition xl_valid :: u64 where "xl_valid = 0x8000000000000000"
definition xl_writable :: u64 where "xl_writable = 0x2"
definition xl_decode_mask :: u64 where "xl_decode_mask = NOT (xl_valid OR xl_writable)"

definition encode_ref :: "u64 \<Rightarrow> bool \<Rightarrow> u64" where
  "encode_ref off w = off OR xl_valid OR (if w then xl_writable else 0)"

definition encode_leaf :: "u64 \<Rightarrow> bool \<Rightarrow> u64" where
  "encode_leaf off w = off OR xl_valid OR (if w then xl_writable else 0)"

definition decode_leaf :: "u64 \<Rightarrow> u64" where
  "decode_leaf t = t AND xl_decode_mask"

definition empty_leaf :: u64 where "empty_leaf = 0"

definition is_empty :: "u64 \<Rightarrow> bool" where
  "is_empty t \<longleftrightarrow> t AND xl_valid = 0"

definition needs_cow :: "u64 \<Rightarrow> bool" where
  "needs_cow prev \<longleftrightarrow> \<not> is_empty prev \<and> prev AND xl_writable = 0"

definition needs_alloc :: "u64 \<Rightarrow> bool" where
  "needs_alloc t \<longleftrightarrow> is_empty t \<or> needs_cow t"

definition file_valid :: u64 where "file_valid = 0x8000000000000000"
definition file_decode_mask :: u64 where "file_decode_mask = NOT file_valid"

definition encode_snap_ref :: "u64 \<Rightarrow> u64" where "encode_snap_ref off = off OR file_valid"
definition encode_snap_entry :: "u64 \<Rightarrow> u64 \<Rightarrow> u64 \<times> u64" where
  "encode_snap_entry off disk_hwm = (off OR file_valid, disk_hwm)"
definition decode_snap_entry :: "u64 \<times> u64 \<Rightarrow> u64" where
  "decode_snap_entry t = fst t AND file_decode_mask"
definition encode_free_ref :: "u64 \<Rightarrow> u64" where "encode_free_ref off = off OR file_valid"
definition encode_free_entry :: "u64 \<Rightarrow> u64" where "encode_free_entry off = off OR file_valid"
definition decode_free_entry :: "u64 \<Rightarrow> u64" where "decode_free_entry t = t AND file_decode_mask"

definition lt_decode :: "u64 \<Rightarrow> u64" where "lt_decode t = t AND file_decode_mask"
definition lt_valid :: "u64 \<Rightarrow> bool" where "lt_valid t \<longleftrightarrow> t AND file_valid \<noteq> 0"
definition nt_decode :: "u64 \<Rightarrow> u64" where "nt_decode t = t AND xl_decode_mask"
definition nt_valid :: "u64 \<Rightarrow> bool" where "nt_valid t \<longleftrightarrow> t AND xl_valid \<noteq> 0"

section \<open>Linked tables\<close>

text \<open>
  A table of a snapshot list: a link to the next table, the number of its entries, and the
  entries, two words each. The span given to the constructor is in bytes; the entries follow the
  16 bytes of the metadata.
\<close>

definition lt_make :: "nat \<Rightarrow> nat \<times> nat \<Rightarrow> cells xprog" where
  "lt_make esize sp =
     (if snd sp < 16 then raise (Undefined ''subspan'')
      else sbind (convert_span esize (fst sp + 2, snd sp - 16)) (\<lambda>_. return (fst sp, snd sp div 8)))"

definition lt_ref :: "xcow_file \<Rightarrow> cells \<Rightarrow> u64" where "lt_ref f t = xf_mem f (fst t)"
definition lt_end :: "xcow_file \<Rightarrow> cells \<Rightarrow> nat" where "lt_end f t = unat (lo32 (xf_mem f (fst t + 1)))"

definition lt_set_end :: "cells \<Rightarrow> nat \<Rightarrow> unit xprog" where
  "lt_set_end t n =
     sbind (cell_get (fst t + 1)) (\<lambda>w. cell_put (fst t + 1) (join32 (of_nat n) (hi32 w)))"

text \<open>The number of entries a table has room for, by the words of an entry.\<close>

definition lt_room :: "nat \<Rightarrow> cells \<Rightarrow> nat" where "lt_room ewords t = (snd t - 2) div ewords"

definition lt_format :: "nat \<Rightarrow> nat \<times> nat \<Rightarrow> cells xprog" where
  "lt_format esize sp =
     sbind (cell_put (fst sp) 0) (\<lambda>_.
       sbind (cell_put (fst sp + 1) 0) (\<lambda>_.
         sbind (lt_make esize sp) (\<lambda>t.
           sbind (span_fill (fst t + 2, snd t - 2) 0) (\<lambda>_. return t))))"

definition lt_next :: "nat \<Rightarrow> cells \<Rightarrow> cells option xprog" where
  "lt_next esize t =
     sbind (sget (\<lambda>f. lt_ref f t)) (\<lambda>r.
       if \<not> lt_valid r then return None
       else sbind (deref (lt_decode r) (of_nat (8 * snd t))) (\<lambda>sp.
              sbind (lt_make esize sp) (\<lambda>t'. return (Some t'))))"

text \<open>The snapshot list's entries are pairs of words.\<close>

definition sl_entry_cell :: "cells \<Rightarrow> nat \<Rightarrow> nat" where
  "sl_entry_cell t i = fst t + 2 + 2 * i"

definition sl_get :: "cells \<Rightarrow> nat \<Rightarrow> (u64 \<times> u64) xprog" where
  "sl_get t i =
     (if i < lt_room 2 t
      then sbind (cell_get (sl_entry_cell t i)) (\<lambda>v.
             sbind (cell_get (sl_entry_cell t i + 1)) (\<lambda>h. return (v, h)))
      else raise (Undefined ''span index''))"

definition sl_put :: "cells \<Rightarrow> nat \<Rightarrow> u64 \<times> u64 \<Rightarrow> unit xprog" where
  "sl_put t i e =
     (if i < lt_room 2 t
      then sbind (cell_put (sl_entry_cell t i) (fst e)) (\<lambda>_. cell_put (sl_entry_cell t i + 1) (snd e))
      else raise (Undefined ''span index''))"

definition sl_push_back :: "cells \<Rightarrow> u64 \<times> u64 \<Rightarrow> bool xprog" where
  "sl_push_back t e =
     sbind (sget (\<lambda>f. lt_end f t)) (\<lambda>n.
       if n = lt_room 2 t then return False
       else sbind (lt_set_end t (n + 1)) (\<lambda>_. sbind (sl_put t n e) (\<lambda>_. return True)))"

definition sl_pop_back :: "cells \<Rightarrow> bool xprog" where
  "sl_pop_back t =
     sbind (sget (\<lambda>f. lt_end f t)) (\<lambda>n.
       if n = 0 then raise (Logic_error ''current table is empty'')
       else sbind (lt_set_end t (n - 1)) (\<lambda>_.
              sbind (sl_put t (n - 1) (0, 0)) (\<lambda>_. return (n - 1 = 0))))"

text \<open>\<open>active_entries()\<close> takes a subspan of \<open>end\<close> entries; \<open>back()\<close> of an empty span is undefined.\<close>

definition sl_active :: "cells \<Rightarrow> nat xprog" where
  "sl_active t =
     sbind (sget (\<lambda>f. lt_end f t)) (\<lambda>n.
       if lt_room 2 t < n then raise (Undefined ''subspan'') else return n)"

definition sl_back :: "cells \<Rightarrow> nat xprog" where
  "sl_back t =
     sbind (sl_active t) (\<lambda>n. if n = 0 then raise (Undefined ''back of empty span'') else return (n - 1))"

text \<open>The iterator over a list of tables, newest entry first (\<open>LinkedTableIterator\<close>).\<close>

record lt_iter =
  lti_table :: "cells option"
  lti_off :: u64

definition lt_iter_make :: "cells option \<Rightarrow> lt_iter xprog" where
  "lt_iter_make t =
     (case t of
        None \<Rightarrow> return \<lparr>lti_table = None, lti_off = 0\<rparr>
      | Some t' \<Rightarrow> sbind (sl_active t') (\<lambda>n. return \<lparr>lti_table = Some t', lti_off = of_nat n\<rparr>))"

definition lt_iter_incr :: "lt_iter \<Rightarrow> lt_iter xprog" where
  "lt_iter_incr it =
     (let off = lti_off it - 1
      in if off \<noteq> 0 then return (it\<lparr>lti_off := off\<rparr>)
         else case lti_table it of
                None \<Rightarrow> raise (Undefined ''empty optional'')
              | Some t \<Rightarrow>
                  sbind (lt_next 16 t) (\<lambda>t'.
                    case t' of
                      None \<Rightarrow> return \<lparr>lti_table = None, lti_off = 0\<rparr>
                    | Some u \<Rightarrow> sbind (sl_active u) (\<lambda>n. return \<lparr>lti_table = Some u, lti_off = of_nat n\<rparr>)))"

definition lt_iter_deref :: "lt_iter \<Rightarrow> (u64 \<times> u64) xprog" where
  "lt_iter_deref it =
     (case lti_table it of
        None \<Rightarrow> raise (Runtime_error ''no table'')
      | Some t \<Rightarrow>
          if lti_off it = 0 then raise (Undefined ''span index'') else sl_get t (unat (lti_off it) - 1))"

definition lt_iter_at_end :: "lt_iter \<Rightarrow> bool" where
  "lt_iter_at_end it \<longleftrightarrow> lti_table it = None \<and> lti_off it = 0"

section \<open>Nested tables\<close>

definition nt_make :: "nat \<times> nat \<Rightarrow> cells xprog" where
  "nt_make sp = convert_span 8 sp"

definition nt_next :: "cells \<Rightarrow> nat \<Rightarrow> u64 \<Rightarrow> cells option xprog" where
  "nt_next t i next_nbytes =
     sbind (span_get t i) (\<lambda>r.
       if \<not> nt_valid r then return None
       else sbind (deref (nt_decode r) next_nbytes) (\<lambda>sp.
              sbind (nt_make sp) (\<lambda>t'. return (Some t'))))"

end
