(* ===== verification/XcowOps.thy ===== *)
theory XcowOps
  imports XcowFmt
begin

text \<open>
  The operations on a copy-on-write disk: opening and formatting the metadata file, opening,
  creating and dropping snapshots (\<open>xcow_file.hpp\<close>, \<open>xcow_file.cpp\<close>), and translating the address of a read
  or a write within a snapshot (\<open>xcow_snap.cpp\<close>).
\<close>

section \<open>Geometry\<close>

definition cluster_bits :: "xcow_file \<Rightarrow> nat" where
  "cluster_bits f = unat (hdr_cluster_bits f)"

text \<open>\<open>1 << cluster_bits\<close> and \<open>1 << l0_cover_bits()\<close> are shifts of an \<open>int\<close>.\<close>

definition cluster_size :: "xcow_file \<Rightarrow> u64" where
  "cluster_size f = int_shl1 (cluster_bits f)"

definition l0_cover_bits :: "xcow_file \<Rightarrow> nat" where
  "l0_cover_bits f = cluster_bits f * 2 - 3"

definition l0_cover_size :: "u64 xprog" where
  "l0_cover_size =
     sbind (sget id) (\<lambda>f.
       if cluster_bits f < 2 \<or> 32 \<le> l0_cover_bits f then raise (Undefined ''shift'')
       else return (int_shl1 (l0_cover_bits f)))"

definition l1_clusters :: "u64 xprog" where
  "l1_clusters =
     sbind l0_cover_size (\<lambda>cover.
       sget (\<lambda>f.
         let l0count = drop_bit (l0_cover_bits f) (hdr_fsize f + cover - 1)
         in drop_bit (cluster_bits f) (l0count * 8 + cluster_size f - 1)))"

text \<open>
  \<open>_hdr->hwm << cluster_bits()\<close> shifts a 32-bit value; only its result is widened. The limit is
  compared in 64 bits.
\<close>

definition alloc_meta_clusters :: "u64 \<Rightarrow> (u64 \<times> u64) xprog" where
  "alloc_meta_clusters count =
     sbind (sget id) (\<lambda>f.
       if ucast (hdr_hwm_limit f) < ucast (hdr_hwm f) + count then raise Hwm_exception
       else sbind (smod (\<lambda>f. f\<lparr>xf_mem := (xf_mem f)(3 := join32 (hdr_hwm_limit f) (hdr_hwm f + ucast count))\<rparr>))
              (\<lambda>_. return (ucast (push_bit (cluster_bits f) (hdr_hwm f)), push_bit (cluster_bits f) count)))"

definition alloc_meta_cluster :: "(u64 \<times> u64) xprog" where
  "alloc_meta_cluster = alloc_meta_clusters 1"

section \<open>Snapshots\<close>

text \<open>
  An opened snapshot: its root table, and the word that counts the data clusters in use. The pointer to
  that word is null for a snapshot that may not be written.
\<close>

record xcow_snap =
  xs_root :: cells
  xs_disk_hwm :: "nat option"

definition l1_off :: "xcow_file \<Rightarrow> u64 \<Rightarrow> nat" where
  "l1_off f addr_in = unat (drop_bit (l0_cover_bits f) addr_in)"

definition l0_off :: "u64 \<Rightarrow> nat xprog" where
  "l0_off addr_in =
     sbind l0_cover_size (\<lambda>cover.
       sget (\<lambda>f. unat (drop_bit (cluster_bits f) (addr_in AND (cover - 1)))))"

definition translate_read :: "xcow_snap \<Rightarrow> u64 \<Rightarrow> u64 xprog" where
  "translate_read s addr_in =
     sbind (sget id) (\<lambda>f.
       sbind (nt_next (xs_root s) (l1_off f addr_in) (cluster_size f)) (\<lambda>l0.
         case l0 of
           None \<Rightarrow> return empty_leaf
         | Some t \<Rightarrow> sbind (l0_off addr_in) (\<lambda>i. span_get t i)))"

definition alloc_data_clusters :: "xcow_snap \<Rightarrow> u64 \<Rightarrow> (u64 \<times> u64) xprog" where
  "alloc_data_clusters s count =
     (case xs_disk_hwm s of
        None \<Rightarrow> raise (Undefined ''null pointer'')
      | Some p \<Rightarrow>
          sbind (cell_get p) (\<lambda>hwm.
            sbind (sget id) (\<lambda>f.
              if hdr_disk_hwm_limit f < hwm + count then raise Disk_hwm_exception
              else sbind (cell_put p (hwm + count)) (\<lambda>_.
                     return (push_bit (cluster_bits f) hwm, push_bit (cluster_bits f) count)))))"

definition alloc_data_cluster :: "xcow_snap \<Rightarrow> (u64 \<times> u64) xprog" where
  "alloc_data_cluster s = alloc_data_clusters s 1"

text \<open>
  The first half of a write in two phases: find the second-level table, make one if there is none, and make a private copy, with the writable flags cleared, of
  one that may be shared. The result is the word of the cluster's entry.
\<close>

definition tx_write_prep :: "xcow_snap \<Rightarrow> u64 \<Rightarrow> nat xprog" where
  "tx_write_prep s addr_in =
     (if xs_disk_hwm s = None then raise (Logic_error ''snapshot is not writable'')
      else sbind (sget id) (\<lambda>f.
        let l1 = l1_off f addr_in
        in sbind (nt_next (xs_root s) l1 (cluster_size f)) (\<lambda>l0.
             sbind (case l0 of
                      None \<Rightarrow>
                        sbind alloc_meta_cluster (\<lambda>(off, nbytes).
                          sbind (deref off nbytes) (\<lambda>sp.
                            sbind (nt_make sp) (\<lambda>t.
                              sbind (span_fill t empty_leaf) (\<lambda>_.
                                sbind (span_put (xs_root s) l1 (encode_ref off True)) (\<lambda>_. return t)))))
                    | Some t0 \<Rightarrow>
                        sbind (span_get (xs_root s) l1) (\<lambda>r.
                          if r AND xl_writable = 0
                          then sbind alloc_meta_cluster (\<lambda>(off, nbytes).
                                 sbind (deref off nbytes) (\<lambda>sp.
                                   sbind (nt_make sp) (\<lambda>t.
                                     sbind (copy_masked (snd t0) t0 t (NOT xl_writable) 0) (\<lambda>_.
                                       sbind (span_put (xs_root s) l1 (encode_ref off True)) (\<lambda>_. return t)))))
                          else return t0)) (\<lambda>t.
               sbind (l0_off addr_in) (\<lambda>i.
                 if i < snd t then return (fst t + i) else raise (Undefined ''span index''))))))"

definition tx_write_commit :: "nat \<Rightarrow> u64 \<Rightarrow> (u64 \<times> u64) xprog" where
  "tx_write_commit ref tl0 =
     sbind (cell_get ref) (\<lambda>prev.
       if prev AND xl_valid = 0 \<or> prev AND xl_writable = 0
       then sbind (cell_put ref tl0) (\<lambda>_. return (tl0, prev))
       else return (prev, prev))"

text \<open>\<open>translate_write\<close> does all of it at once. It returns the entry in force and the one before.\<close>

definition translate_write :: "xcow_snap \<Rightarrow> u64 \<Rightarrow> (u64 \<times> u64) xprog" where
  "translate_write s addr_in =
     (if xs_disk_hwm s = None then raise (Logic_error ''snapshot is not writable'')
      else sbind (sget id) (\<lambda>f.
        let l1 = l1_off f addr_in
        in sbind (nt_next (xs_root s) l1 (cluster_size f)) (\<lambda>l0.
             sbind (case l0 of
                      None \<Rightarrow>
                        sbind alloc_meta_cluster (\<lambda>(off, nbytes).
                          sbind (deref off nbytes) (\<lambda>sp.
                            sbind (nt_make sp) (\<lambda>t.
                              sbind (span_fill t empty_leaf) (\<lambda>_.
                                sbind (span_put (xs_root s) l1 (encode_ref off True)) (\<lambda>_. return t)))))
                    | Some t0 \<Rightarrow>
                        sbind (span_get (xs_root s) l1) (\<lambda>r.
                          if r AND xl_writable = 0
                          then sbind alloc_meta_cluster (\<lambda>(off, nbytes).
                                 sbind (deref off nbytes) (\<lambda>sp.
                                   sbind (nt_make sp) (\<lambda>t.
                                     sbind (copy_masked (snd t0) t0 t (NOT xl_writable) 0) (\<lambda>_.
                                       sbind (span_put (xs_root s) l1 (encode_ref off True)) (\<lambda>_. return t)))))
                          else return t0)) (\<lambda>t.
               sbind (l0_off addr_in) (\<lambda>i.
                 sbind (span_get t i) (\<lambda>cur.
                   if cur AND xl_valid = 0 \<or> cur AND xl_writable = 0
                   then sbind (alloc_data_cluster s) (\<lambda>(off, nbytes).
                          sbind (span_put t i (encode_leaf off True)) (\<lambda>_. return (encode_leaf off True, cur)))
                   else return (cur, cur)))))))"

definition erase :: "xcow_snap \<Rightarrow> u64 \<Rightarrow> unit xprog" where
  "erase s addr_in =
     sbind (sget id) (\<lambda>f.
       sbind (nt_next (xs_root s) (l1_off f addr_in) (cluster_size f)) (\<lambda>l0.
         case l0 of
           None \<Rightarrow> return ()
         | Some t \<Rightarrow> sbind (l0_off addr_in) (\<lambda>i. span_put t i empty_leaf)))"

section \<open>The file\<close>

definition make_hdr :: "unit xprog" where
  "make_hdr =
     sbind (deref 0 XcowHeader_size) (\<lambda>_.
       sbind (sget id) (\<lambda>f.
         if hdr_magic f \<noteq> XCOW_MAGIC then raise (Runtime_error ''invalid snap magic'')
         else if hdr_cluster_bits f < 12 \<or> 24 < hdr_cluster_bits f
         then raise (Runtime_error ''unsupported cluster size'')
         else return ()))"

text \<open>
  The constructor. Its last statement, a read-ahead hint to the kernel, has no effect on the state and
  is left out (its argument shifts by \<open>cluster_size()\<close> instead of \<open>cluster_bits()\<close>).
\<close>

definition xcow_open :: "unit xprog" where
  "xcow_open =
     sbind make_hdr (\<lambda>_.
       sbind (sget id) (\<lambda>f.
         sbind (deref (lt_decode (hdr_snaplist f)) (cluster_size f)) (\<lambda>ssp.
           sbind (lt_make 16 ssp) (\<lambda>snaps.
             sbind (deref (lt_decode (hdr_freelist f)) (cluster_size f)) (\<lambda>fsp.
               sbind (lt_make 8 fsp) (\<lambda>flist.
                 smod (\<lambda>f. f\<lparr>xf_snaps := snaps, xf_flist := flist\<rparr>)))))))"

definition hdr_put :: "nat \<Rightarrow> u64 \<Rightarrow> unit xprog" where
  "hdr_put i v = cell_put i v"

definition xcow_format :: "u64 \<Rightarrow> u32 \<Rightarrow> u32 \<Rightarrow> u64 \<Rightarrow> unit xprog" where
  "xcow_format fsize cbits hwm_limit disk_hwm_limit =
     (if 32 \<le> unat cbits then raise (Undefined ''shift'')
      else
        let csize = int_shl1 (unat cbits);
            snapoff = push_bit (unat cbits) 1 :: u64;
            freeoff = push_bit (unat cbits) 2 :: u64
        in sbind (deref 0 csize) (\<lambda>hb.
             sbind (span_fill (fst hb, snd hb div 8) 0) (\<lambda>_.
             sbind (hdr_put 0 XCOW_MAGIC) (\<lambda>_.
             sbind (hdr_put 1 fsize) (\<lambda>_.
             sbind (hdr_put 2 (join32 cbits 0)) (\<lambda>_.
             sbind (hdr_put 3 (join32 hwm_limit 0)) (\<lambda>_.
             sbind (hdr_put 4 disk_hwm_limit) (\<lambda>_.
             sbind (deref snapoff csize) (\<lambda>ssp.
             sbind (lt_format 16 ssp) (\<lambda>snaps.
             sbind (hdr_put 5 (encode_snap_ref snapoff)) (\<lambda>_.
             sbind (deref freeoff csize) (\<lambda>fsp.
             sbind (lt_format 8 fsp) (\<lambda>flist.
             sbind (hdr_put 6 (encode_free_ref freeoff)) (\<lambda>_.
             sbind (hdr_put 3 (join32 hwm_limit 3)) (\<lambda>_.
             sbind (smod (\<lambda>f. f\<lparr>xf_snaps := snaps, xf_flist := flist\<rparr>)) (\<lambda>_.
             sbind l1_clusters (\<lambda>n.
             sbind (alloc_meta_clusters n) (\<lambda>(off, nbytes).
             sbind (deref off nbytes) (\<lambda>sp.
             sbind (nt_make sp) (\<lambda>s0.
             sbind (span_fill s0 0) (\<lambda>_.
             sbind (sl_push_back snaps (encode_snap_entry off 1)) (\<lambda>_.
             return ()))))))))))))))))))))))"

text \<open>
  The loop of \<open>open_read\<close> walks the entries of the current table backwards; \<open>pos\<close> is the number of
  entries still below the reverse iterator. At the start of a table it asks the first table, \<open>_snaps\<close>,
  for its successor. A successor with no entries would be asked for again without end; a loop
  without progress is undefined.
\<close>

fun open_read_loop :: "nat \<Rightarrow> cells \<Rightarrow> nat \<Rightarrow> (cells \<times> nat) xprog" where
  "open_read_loop 0 t pos = return (t, pos)"
| "open_read_loop (Suc snapi) t (Suc pos) = open_read_loop snapi t pos"
| "open_read_loop (Suc snapi) t 0 =
     sbind (sget xf_snaps) (\<lambda>snaps.
       sbind (lt_next 16 snaps) (\<lambda>t'.
         case t' of
           None \<Rightarrow> raise (Undefined ''empty optional'')
         | Some u \<Rightarrow>
             sbind (sl_active u) (\<lambda>n.
               if n = 0 then raise (Undefined ''loop without progress'')
               else open_read_loop snapi u (n - 1))))"

definition open_read :: "int \<Rightarrow> xcow_snap xprog" where
  "open_read snapi =
     sbind (sget xf_snaps) (\<lambda>snaps.
       sbind (sl_active snaps) (\<lambda>n.
         sbind (open_read_loop (nat snapi) snaps n) (\<lambda>(t, pos).
           if pos = 0 then raise (Undefined ''span index'')
           else sbind (sl_get t (pos - 1)) (\<lambda>e.
             sbind (sget cluster_size) (\<lambda>cs.
               sbind (deref (decode_snap_entry e) cs) (\<lambda>sp.
                 sbind (nt_make sp) (\<lambda>root. return \<lparr>xs_root = root, xs_disk_hwm = None\<rparr>)))))))"

definition open_write :: "xcow_snap xprog" where
  "open_write =
     sbind (sget xf_snaps) (\<lambda>snaps.
       sbind (sl_back snaps) (\<lambda>i.
         sbind (sl_get snaps i) (\<lambda>e.
           sbind (sget cluster_size) (\<lambda>cs.
             sbind (deref (decode_snap_entry e) cs) (\<lambda>sp.
               sbind (nt_make sp) (\<lambda>root.
                 return \<lparr>xs_root = root, xs_disk_hwm = Some (sl_entry_cell snaps i + 1)\<rparr>))))))"

text \<open>
  \<open>snap_create\<close> returns the new snapshot and the source, which it has made read-only.
\<close>

definition snap_create :: "xcow_snap \<Rightarrow> (xcow_snap \<times> xcow_snap) xprog" where
  "snap_create source =
     sbind l1_clusters (\<lambda>n.
     sbind (alloc_meta_clusters n) (\<lambda>(off, nbytes).
     sbind (deref off nbytes) (\<lambda>sp.
     sbind (nt_make sp) (\<lambda>snaproot.
     sbind (copy_masked (snd (xs_root source)) (xs_root source) snaproot (NOT xl_writable) 0) (\<lambda>_.
     sbind (sget xf_snaps) (\<lambda>snaps.
     sbind (sl_back snaps) (\<lambda>i.
     sbind (sl_get snaps i) (\<lambda>last_entry.
     sbind (sl_push_back snaps (encode_snap_entry off (snd last_entry))) (\<lambda>res.
     sbind (if res then return ()
            else sbind alloc_meta_cluster (\<lambda>(st_off, st_nbytes).
                 sbind (deref st_off st_nbytes) (\<lambda>st_sp.
                 sbind (lt_make 16 st_sp) (\<lambda>stnext.
                 sbind (sget hdr_snaplist) (\<lambda>old.
                 sbind (cell_put (fst stnext) old) (\<lambda>_.
                 sbind (hdr_put 5 (encode_snap_ref st_off)) (\<lambda>_.
                 sbind (smod (\<lambda>f. f\<lparr>xf_snaps := stnext\<rparr>)) (\<lambda>_.
                 sbind (sl_push_back stnext (encode_snap_entry off (snd last_entry))) (\<lambda>_. return ()))))))))) (\<lambda>_.
     sbind (sget xf_snaps) (\<lambda>snaps'.
     sbind (sl_back snaps') (\<lambda>j.
     return (\<lparr>xs_root = snaproot, xs_disk_hwm = Some (sl_entry_cell snaps' j + 1)\<rparr>,
             source\<lparr>xs_disk_hwm := None\<rparr>)))))))))))))"

definition peel :: "xcow_snap \<Rightarrow> unit xprog" where
  "peel source =
     (if xs_disk_hwm source = None then raise (Logic_error ''snapshot is not writable, cannot peel'')
      else sbind (sget xf_snaps) (\<lambda>snaps.
        sbind (sl_active snaps) (\<lambda>n.
          sbind (sget (\<lambda>f. lt_ref f snaps)) (\<lambda>r.
            if n = 1 \<and> r AND file_valid = 0 then raise (Logic_error ''cannot peel last snapshot'')
            else sbind (sl_pop_back snaps) (\<lambda>empty.
              if \<not> empty then return ()
              else sbind (sget (\<lambda>f. lt_ref f snaps)) (\<lambda>r'.
                sbind (hdr_put 5 r') (\<lambda>_.
                  sbind (lt_next 16 snaps) (\<lambda>t.
                    case t of
                      None \<Rightarrow> raise (Undefined ''empty optional'')
                    | Some u \<Rightarrow> smod (\<lambda>f. f\<lparr>xf_snaps := u\<rparr>)))))))))"

end
