(* ===== verification/XcowInv.thy ===== *)
theory XcowInv
  imports XcowOps
begin

text \<open>
  What the translation operations do, as functions on the words of the metadata file, and the invariant under
  which they run into no undefined behaviour: allocation below the high-water mark, no second-level table
  shared with a writable reference, and a root table that none of them overlaps.
\<close>

section \<open>Geometry\<close>

definition csz :: "xcow_file \<Rightarrow> nat" where
  "csz f = 2 ^ (cluster_bits f - 3)"

text \<open>
  The geometry for which the code's shifts are exact: clusters of 4 KiB to 64 KiB, a metadata file that
  holds all the clusters its limit allows, and offsets below 4 GiB.
\<close>

definition geom :: "xcow_file \<Rightarrow> bool" where
  "geom f \<longleftrightarrow> 12 \<le> cluster_bits f \<and> cluster_bits f \<le> 16 \<and>
     unat (hdr_hwm_limit f) * 2 ^ cluster_bits f \<le> unat (xf_size f) \<and>
     unat (hdr_hwm_limit f) * 2 ^ cluster_bits f \<le> 2 ^ 32 \<and>
     0 < unat (hdr_hwm f) \<and> unat (hdr_hwm f) \<le> unat (hdr_hwm_limit f)"

definition hwm_n :: "xcow_file \<Rightarrow> nat" where "hwm_n f = unat (hdr_hwm f)"

lemma csz_pos [simp]: "0 < csz f"
  by (simp add: csz_def)

lemma geom_bits: "geom f \<Longrightarrow> 2 ^ cluster_bits f = 8 * csz f"
proof -
  assume "geom f"
  then have "2 ^ cluster_bits f = (2::nat) ^ ((cluster_bits f - 3) + 3)" by (simp add: geom_def)
  also have "\<dots> = 8 * csz f" unfolding power_add csz_def by simp
  finally show ?thesis .
qed

lemma geom_csz_ge: "geom f \<Longrightarrow> 512 \<le> csz f"
proof -
  assume "geom f"
  then have "(2::nat) ^ 9 \<le> 2 ^ (cluster_bits f - 3)" by (intro power_increasing) (auto simp: geom_def)
  then show ?thesis by (simp add: csz_def)
qed

lemma cluster_size_n: "geom f \<Longrightarrow> unat (cluster_size f) = 8 * csz f"
proof -
  assume g: "geom f"
  then have "unat (cluster_size f) = 2 ^ cluster_bits f"
    unfolding cluster_size_def by (intro unat_int_shl1) (simp add: geom_def)
  then show ?thesis by (simp only: geom_bits [OF g])
qed

lemma mem_in_bounds: "geom f \<Longrightarrow> n \<le> unat (hdr_hwm_limit f) \<Longrightarrow> 8 * (n * csz f) \<le> unat (xf_size f)"
proof -
  assume g: "geom f" and n: "n \<le> unat (hdr_hwm_limit f)"
  have "n * (8 * csz f) \<le> unat (hdr_hwm_limit f) * (8 * csz f)" using n by (rule mult_le_mono1)
  moreover have "unat (hdr_hwm_limit f) * (8 * csz f) \<le> unat (xf_size f)"
    unfolding geom_bits [OF g, symmetric] using g by (simp only: geom_def)
  moreover have "8 * (n * csz f) = n * (8 * csz f)" by simp
  ultimately show ?thesis by linarith
qed

definition l0i :: "xcow_file \<Rightarrow> u64 \<Rightarrow> nat" where
  "l0i f a = unat a mod 2 ^ l0_cover_bits f div 2 ^ cluster_bits f"

lemma cover_split: "geom f \<Longrightarrow> 2 ^ l0_cover_bits f = csz f * 2 ^ cluster_bits f"
proof -
  assume "geom f"
  then have "l0_cover_bits f = (cluster_bits f - 3) + cluster_bits f" by (auto simp: l0_cover_bits_def geom_def)
  then show ?thesis by (simp add: csz_def power_add)
qed

lemma l0i_less: "geom f \<Longrightarrow> l0i f a < csz f"
  unfolding l0i_def using cover_split [of f] by (simp add: less_mult_imp_div_less)

lemma l0_cover_size_n:
  assumes "geom f"
  shows "l0_cover_size f = (Inr (2 ^ l0_cover_bits f), f)"
proof -
  have b: "l0_cover_bits f < 31" "\<not> cluster_bits f < 2" using assms by (auto simp: l0_cover_bits_def geom_def)
  have "int_shl1 (l0_cover_bits f) = 2 ^ l0_cover_bits f" by (rule word_eq_unatI) (use b in simp)
  then show ?thesis using b by (simp add: l0_cover_size_def prog_simps)
qed

lemma l0_off_n:
  assumes "geom f"
  shows "l0_off a f = (Inr (l0i f a), f)"
proof -
  have "unat (drop_bit (cluster_bits f) (a AND (2 ^ l0_cover_bits f - 1))) = l0i f a"
    unfolding l0i_def mask_eq_exp_minus_1 [symmetric] unat_drop_bit unat_and_mask by simp
  then show ?thesis by (simp add: l0_off_def prog_simps l0_cover_size_n [OF assms])
qed

section \<open>Loads and stores\<close>

lemma cell_get_n: "8 * i + 8 \<le> unat (xf_size f) \<Longrightarrow> cell_get i f = (Inr (xf_mem f i), f)"
  by (simp add: cell_get_def prog_simps)

lemma cell_put_n:
  "8 * i + 8 \<le> unat (xf_size f) \<Longrightarrow> cell_put i v f = (Inr (), f\<lparr>xf_mem := (xf_mem f)(i := v)\<rparr>)"
  by (simp add: cell_put_def prog_simps)

lemma span_get_n:
  "i < snd sp \<Longrightarrow> 8 * (fst sp + snd sp) \<le> unat (xf_size f) \<Longrightarrow> span_get sp i f = (Inr (xf_mem f (fst sp + i)), f)"
  by (simp add: span_get_def cell_get_n)

lemma span_put_n:
  "i < snd sp \<Longrightarrow> 8 * (fst sp + snd sp) \<le> unat (xf_size f) \<Longrightarrow>
   span_put sp i v f = (Inr (), f\<lparr>xf_mem := (xf_mem f)(fst sp + i := v)\<rparr>)"
  by (simp add: span_put_def cell_put_n)

lemma span_fill_n:
  "8 * (fst sp + snd sp) \<le> unat (xf_size f) \<Longrightarrow>
   span_fill sp v f = (Inr (), f\<lparr>xf_mem := (\<lambda>i. if fst sp \<le> i \<and> i < fst sp + snd sp then v else xf_mem f i)\<rparr>)"
  by (simp add: span_fill_def prog_simps)

text \<open>The copy loop over disjoint spans.\<close>

lemma copy_masked_n:
  assumes "snd src \<le> snd dst" "8 * (fst src + snd src) \<le> unat (xf_size f)" "8 * (fst dst + snd dst) \<le> unat (xf_size f)"
    and "fst src + snd src \<le> fst dst \<or> fst dst + snd dst \<le> fst src" and "i + n = snd src"
  shows "copy_masked n src dst m i f =
    (Inr (), f\<lparr>xf_mem := (\<lambda>c. if fst dst + i \<le> c \<and> c < fst dst + snd src
                               then xf_mem f (fst src + (c - fst dst)) AND m else xf_mem f c)\<rparr>)"
  using assms
proof (induction n arbitrary: i f)
  case 0
  have "(\<lambda>c. if fst dst + i \<le> c \<and> c < fst dst + snd src
             then xf_mem f (fst src + (c - fst dst)) AND m else xf_mem f c) = xf_mem f"
    using 0 by (auto simp: fun_eq_iff)
  then show ?case by simp
next
  case (Suc n)
  let ?f1 = "f\<lparr>xf_mem := (xf_mem f)(fst dst + i := xf_mem f (fst src + i) AND m)\<rparr>"
  have step: "copy_masked (Suc n) src dst m i f = copy_masked n src dst m (i + 1) ?f1"
    using Suc.prems by (simp add: prog_simps span_get_n span_put_n)
  have IH: "copy_masked n src dst m (i + 1) ?f1 =
    (Inr (), ?f1\<lparr>xf_mem := (\<lambda>c. if fst dst + (i + 1) \<le> c \<and> c < fst dst + snd src
                               then xf_mem ?f1 (fst src + (c - fst dst)) AND m else xf_mem ?f1 c)\<rparr>)"
    by (rule Suc.IH) (use Suc.prems in simp_all)
  have "(\<lambda>c. if fst dst + (i + 1) \<le> c \<and> c < fst dst + snd src
                               then xf_mem ?f1 (fst src + (c - fst dst)) AND m else xf_mem ?f1 c) =
      (\<lambda>c. if fst dst + i \<le> c \<and> c < fst dst + snd src
                               then xf_mem f (fst src + (c - fst dst)) AND m else xf_mem f c)"
    using Suc.prems by (auto simp: fun_eq_iff)
  then show ?case unfolding step IH by simp
qed

section \<open>References\<close>

lemma xl_valid_exp: "xl_valid = 2 ^ 63"
  by (simp add: xl_valid_def)

lemma xl_writable_exp: "xl_writable = 2 ^ 1"
  by (simp add: xl_writable_def)

lemma bit_xl_valid: "bit xl_valid n \<longleftrightarrow> n = 63"
  unfolding xl_valid_exp bit_exp_iff by auto

lemma bit_xl_writable: "bit xl_writable n \<longleftrightarrow> n = 1"
  unfolding xl_writable_exp bit_exp_iff by auto

lemma valid_bit: "r AND xl_valid = 0 \<longleftrightarrow> \<not> bit r 63"
  unfolding xl_valid_exp by (rule and_exp_eq_0_iff_not_bit)

lemma writable_bit: "r AND xl_writable = 0 \<longleftrightarrow> \<not> bit r 1"
  unfolding xl_writable_exp by (rule and_exp_eq_0_iff_not_bit)

lemma nt_valid_bit: "nt_valid r \<longleftrightarrow> bit r 63"
  by (simp add: nt_valid_def valid_bit)

lemma bit_nt_decode: "bit (nt_decode r) n \<longleftrightarrow> bit r n \<and> n \<noteq> 63 \<and> n \<noteq> 1"
  unfolding nt_decode_def xl_decode_mask_def
  by (auto simp: bit_and_iff bit_not_iff bit_or_iff bit_xl_valid bit_xl_writable dest: bit_imp_le_length)

lemma nt_decode_nw [simp]: "nt_decode (r AND NOT xl_writable) = nt_decode r"
  by (rule bit_word_eqI) (auto simp: bit_nt_decode bit_and_iff bit_not_iff bit_xl_writable)

lemma bit_63_nw [simp]: "bit (r AND NOT xl_writable) 63 = bit r 63"
  by (auto simp: bit_and_iff bit_not_iff bit_xl_writable dest: bit_imp_le_length)

lemma bit_1_nw [simp]: "\<not> bit (r AND NOT xl_writable) 1"
  by (simp add: bit_and_iff bit_not_iff bit_xl_writable)

text \<open>An offset that is a multiple of 4096 below \<open>2 ^ 63\<close> keeps clear of the flag bits.\<close>

lemma cluster_off_bits:
  fixes off :: u64
  assumes "unat off mod 4096 = 0" "unat off < 2 ^ 63"
  shows "\<not> bit off 63" "\<not> bit off 1"
proof -
  have bit: "bit off n \<longleftrightarrow> odd (unat off div 2 ^ n)" for n
  proof -
    have "bit off n \<longleftrightarrow> bit (unat off) n" by (simp add: bit_unsigned_iff)
    then show ?thesis by (simp only: bit_iff_odd [of "unat off"])
  qed
  show "\<not> bit off 63" using assms(2) by (simp add: bit)
  obtain q where "unat off = 4096 * q" using assms(1) by (metis mod_0_imp_dvd dvdE)
  then show "\<not> bit off 1" by (simp add: bit)
qed

lemma encode_decode:
  fixes off :: u64
  assumes "unat off mod 4096 = 0" "unat off < 2 ^ 63"
  shows "nt_decode (encode_ref off True) = off" "bit (encode_ref off True) 63" "bit (encode_ref off True) 1"
proof -
  show "nt_decode (encode_ref off True) = off"
    using cluster_off_bits [OF assms]
    by (intro bit_word_eqI) (auto simp: bit_nt_decode encode_ref_def bit_or_iff bit_xl_valid bit_xl_writable)
qed (simp_all add: encode_ref_def bit_or_iff bit_xl_valid bit_xl_writable)

lemma encode_leaf_ref: "encode_leaf = encode_ref"
  by (simp add: fun_eq_iff encode_leaf_def encode_ref_def)

definition ref_k :: "xcow_file \<Rightarrow> u64 \<Rightarrow> nat" where
  "ref_k f r = unat (nt_decode r) div (8 * csz f)"

definition ref_ok :: "xcow_file \<Rightarrow> u64 \<Rightarrow> bool" where
  "ref_ok f r \<longleftrightarrow> (bit r 63 \<longrightarrow>
     unat (nt_decode r) mod (8 * csz f) = 0 \<and> 0 < ref_k f r \<and> ref_k f r < hwm_n f)"

lemma ref_off: "ref_ok f r \<Longrightarrow> bit r 63 \<Longrightarrow> unat (nt_decode r) = 8 * (ref_k f r * csz f)"
  by (auto simp: ref_ok_def ref_k_def)

definition in_file :: "xcow_file \<Rightarrow> cells \<Rightarrow> bool" where
  "in_file f sp \<longleftrightarrow> fst sp + snd sp \<le> hwm_n f * csz f"

lemma geom_hwm: "geom f \<Longrightarrow> 8 * (hwm_n f * csz f) \<le> unat (xf_size f)"
  using mem_in_bounds [of f "hwm_n f"] by (simp add: hwm_n_def geom_def)

lemma in_file_bytes: "geom f \<Longrightarrow> in_file f sp \<Longrightarrow> 8 * (fst sp + snd sp) \<le> unat (xf_size f)"
  using geom_hwm [of f] by (simp add: in_file_def)

lemma cluster_in_file: "k < hwm_n f \<Longrightarrow> in_file f (k * csz f, csz f)"
  using mult_le_mono1 [of "k + 1" "hwm_n f" "csz f"] by (simp add: in_file_def)

lemma deref_n:
  assumes "unat off = 8 * c" "unat nb = 8 * n" "8 * (c + n) \<le> unat (xf_size f)"
  shows "deref off nb f = (Inr (c, 8 * n), f)"
  using assms by (simp add: deref_def prog_simps)

lemma nt_make_n: "nt_make (c, 8 * n) f = (Inr (c, n), f)"
  by (simp add: nt_make_def convert_span_def)

lemma nt_next_n:
  assumes "geom f" "in_file f root" "i < snd root" "ref_ok f (xf_mem f (fst root + i))"
  shows "nt_next root i (cluster_size f) f =
    (Inr (let r = xf_mem f (fst root + i) in if bit r 63 then Some (ref_k f r * csz f, csz f) else None), f)"
proof -
  let ?r = "xf_mem f (fst root + i)"
  have get: "span_get root i f = (Inr ?r, f)"
    by (rule span_get_n) (use assms in_file_bytes in auto)
  have "deref (nt_decode ?r) (cluster_size f) f = (Inr (ref_k f ?r * csz f, 8 * csz f), f)" if "bit ?r 63"
  proof (rule deref_n)
    show "unat (nt_decode ?r) = 8 * (ref_k f ?r * csz f)" using ref_off assms(4) that by blast
    show "unat (cluster_size f) = 8 * csz f" using assms(1) by (rule cluster_size_n)
    have "ref_k f ?r < hwm_n f" using assms(4) that by (simp add: ref_ok_def)
    then show "8 * (ref_k f ?r * csz f + csz f) \<le> unat (xf_size f)"
      using in_file_bytes [OF assms(1) cluster_in_file] by auto
  qed
  then show ?thesis by (simp add: nt_next_def prog_simps get nt_valid_bit nt_make_n Let_def)
qed

section \<open>Reading\<close>

text \<open>The translation a root table stands for: the entry of a virtual address.\<close>

definition leaf_at :: "xcow_file \<Rightarrow> cells \<Rightarrow> u64 \<Rightarrow> u64" where
  "leaf_at f root a =
     (let r = xf_mem f (fst root + l1_off f a)
      in if bit r 63 then xf_mem f (ref_k f r * csz f + l0i f a) else empty_leaf)"

definition root_ok :: "xcow_file \<Rightarrow> cells \<Rightarrow> bool" where
  "root_ok f root \<longleftrightarrow> csz f \<le> fst root \<and> in_file f root \<and>
     (\<forall>i < snd root. ref_ok f (xf_mem f (fst root + i)) \<and>
        (bit (xf_mem f (fst root + i)) 63 \<longrightarrow>
           (\<forall>j < snd root. ref_k f (xf_mem f (fst root + i)) \<noteq> (fst root + j) div csz f)))"

lemma translate_read_n:
  assumes "geom f" "root_ok f (xs_root s)" "l1_off f a < snd (xs_root s)"
  shows "translate_read s a f = (Inr (leaf_at f (xs_root s) a), f)"
proof -
  let ?r = "xf_mem f (fst (xs_root s) + l1_off f a)"
  have ok: "ref_ok f ?r" "in_file f (xs_root s)" using assms(2,3) by (auto simp: root_ok_def)
  have next0: "nt_next (xs_root s) (l1_off f a) (cluster_size f) f =
      (Inr (if bit ?r 63 then Some (ref_k f ?r * csz f, csz f) else None), f)"
    using nt_next_n [OF assms(1) ok(2) assms(3) ok(1)] by (simp add: Let_def)
  have "span_get (ref_k f ?r * csz f, csz f) (l0i f a) f = (Inr (xf_mem f (ref_k f ?r * csz f + l0i f a)), f)"
    if "bit ?r 63"
  proof -
    have "ref_k f ?r < hwm_n f" using ok(1) that by (simp add: ref_ok_def)
    then show ?thesis
      using span_get_n [of "l0i f a" "(ref_k f ?r * csz f, csz f)" f] l0i_less [OF assms(1)]
        in_file_bytes [OF assms(1) cluster_in_file] by simp
  qed
  then show ?thesis
    by (simp add: translate_read_def prog_simps next0 l0_off_n [OF assms(1)] leaf_at_def Let_def)
qed

section \<open>Writing\<close>

text \<open>Two states with the same geometry: only the high-water mark may differ.\<close>

definition same_geom :: "xcow_file \<Rightarrow> xcow_file \<Rightarrow> bool" where
  "same_geom f f' \<longleftrightarrow> xf_mem f' 2 = xf_mem f 2 \<and> hdr_hwm_limit f' = hdr_hwm_limit f \<and> xf_size f' = xf_size f"

lemma same_geom_bits:
  assumes "same_geom f f'"
  shows "cluster_bits f' = cluster_bits f" "csz f' = csz f" "cluster_size f' = cluster_size f"
    "l0_cover_bits f' = l0_cover_bits f" "l0i f' a = l0i f a" "l1_off f' a = l1_off f a"
    "ref_k f' r = ref_k f r" "xf_size f' = xf_size f" "hdr_hwm_limit f' = hdr_hwm_limit f"
proof -
  show cb: "cluster_bits f' = cluster_bits f"
    using assms by (simp add: same_geom_def cluster_bits_def hdr_cluster_bits_def)
  show "csz f' = csz f" "cluster_size f' = cluster_size f" "l0_cover_bits f' = l0_cover_bits f"
    "l0i f' a = l0i f a" "l1_off f' a = l1_off f a" "ref_k f' r = ref_k f r"
    by (simp_all add: csz_def cluster_size_def l0_cover_bits_def l0i_def l1_off_def ref_k_def cb)
  show "xf_size f' = xf_size f" "hdr_hwm_limit f' = hdr_hwm_limit f" using assms by (simp_all add: same_geom_def)
qed

lemma same_geom_geom:
  "same_geom f f' \<Longrightarrow> geom f \<Longrightarrow> 0 < hwm_n f' \<Longrightarrow> hwm_n f' \<le> unat (hdr_hwm_limit f) \<Longrightarrow> geom f'"
  using same_geom_bits [of f f'] by (simp add: geom_def hwm_n_def)

lemma meta_off_n:
  assumes "geom f" "hwm_n f < unat (hdr_hwm_limit f)"
  shows "unat (ucast (push_bit (cluster_bits f) (hdr_hwm f)) :: u64) = 8 * (hwm_n f * csz f)"
proof -
  have "hwm_n f * 2 ^ cluster_bits f < unat (hdr_hwm_limit f) * 2 ^ cluster_bits f" using assms(2) by simp
  also have "\<dots> \<le> 2 ^ 32" using assms(1) by (simp only: geom_def)
  finally have "unat (hdr_hwm f) * 2 ^ cluster_bits f < 2 ^ LENGTH(32)" by (simp add: hwm_n_def)
  then have "unat (push_bit (cluster_bits f) (hdr_hwm f)) = hwm_n f * 2 ^ cluster_bits f"
    unfolding hwm_n_def by (rule unat_push_bit_small)
  then show ?thesis unfolding geom_bits [OF assms(1)] by (simp add: unat_ucast_up mult.commute mult.left_commute)
qed

lemma u32_succ:
  fixes w l :: u32
  assumes "unat w < unat l"
  shows "unat (w + 1) = unat w + 1"
proof -
  have "unat w + unat (1 :: u32) < 2 ^ LENGTH(32)" using unat_bound [of l] assms by simp
  then show ?thesis by (subst unat_add_small) simp_all
qed

lemma hwm_check:
  "ucast (hdr_hwm_limit f) < (ucast (hdr_hwm f) + 1 :: u64) \<longleftrightarrow> \<not> hwm_n f < unat (hdr_hwm_limit f)"
proof -
  have "unat (hdr_hwm f) < 2 ^ 32" using unat_bound [of "hdr_hwm f"] by simp
  then have "unat (ucast (hdr_hwm f) + 1 :: u64) = hwm_n f + 1"
    by (subst unat_add_small) (simp_all add: unat_ucast_up hwm_n_def)
  then show ?thesis by (simp add: word_less_nat_alt unat_ucast_up) linarith
qed

lemma one_cluster_n: "geom f \<Longrightarrow> unat (push_bit (cluster_bits f) (1 :: u64)) = 8 * csz f"
proof -
  assume g: "geom f"
  then have "unat (push_bit (cluster_bits f) (1 :: u64)) = 2 ^ cluster_bits f"
    by (simp add: geom_def)
  then show ?thesis by (simp only: geom_bits [OF g])
qed

definition new_off :: "xcow_file \<Rightarrow> u64" where
  "new_off f = ucast (push_bit (cluster_bits f) (hdr_hwm f))"

definition bump_hwm :: "xcow_file \<Rightarrow> xcow_file" where
  "bump_hwm f = f\<lparr>xf_mem := (xf_mem f)(3 := join32 (hdr_hwm_limit f) (hdr_hwm f + 1))\<rparr>"

lemma alloc_meta_cluster_n:
  "alloc_meta_cluster f =
     (if hwm_n f < unat (hdr_hwm_limit f)
      then (Inr (new_off f, push_bit (cluster_bits f) 1), bump_hwm f) else (Inl Hwm_exception, f))"
  using hwm_check [of f]
  by (simp add: alloc_meta_cluster_def alloc_meta_clusters_def prog_simps new_off_def bump_hwm_def)

lemma bump_hwm_same [simp]: "same_geom f (bump_hwm f)"
  by (simp add: same_geom_def bump_hwm_def hdr_hwm_limit_def)

lemma hwm_n_bump: "hwm_n f < unat (hdr_hwm_limit f) \<Longrightarrow> hwm_n (bump_hwm f) = hwm_n f + 1"
  using u32_succ [of "hdr_hwm f" "hdr_hwm_limit f"] by (simp add: hwm_n_def bump_hwm_def hdr_hwm_def)

text \<open>A new second-level table in a fresh cluster, linked into the root.\<close>

definition link_new :: "xcow_file \<Rightarrow> nat \<Rightarrow> (nat \<Rightarrow> u64) \<Rightarrow> xcow_file" where
  "link_new f rc content =
     f\<lparr>xf_mem := (\<lambda>i. if i = rc then encode_ref (new_off f) True
                       else if i div csz f = hwm_n f then content (i - hwm_n f * csz f)
                       else if i = 3 then join32 (hdr_hwm_limit f) (hdr_hwm f + 1) else xf_mem f i)\<rparr>"

lemma in_cluster_div: "(c::nat) * n \<le> i \<and> i < c * n + n \<longleftrightarrow> i div n = c" if "0 < n"
proof
  assume "c * n \<le> i \<and> i < c * n + n"
  then show "i div n = c" using that by (intro div_nat_eqI) (auto simp: mult.commute)
next
  assume c: "i div n = c"
  have "i = c * n + i mod n" using c div_mult_mod_eq [of i n] by simp
  moreover have "i mod n < n" using that by simp
  ultimately show "c * n \<le> i \<and> i < c * n + n" by linarith
qed

lemma low_cell_div: "geom f \<Longrightarrow> i < 7 \<Longrightarrow> i div csz f = 0"
  using geom_csz_ge [of f] by simp

lemma same_geom_link:
  assumes "geom f" "csz f \<le> rc"
  shows "same_geom f (link_new f rc content)" "hdr_hwm (link_new f rc content) = hdr_hwm f + 1"
proof -
  have "rc \<noteq> 2" "rc \<noteq> 3" using assms geom_csz_ge [of f] by auto
  moreover have "hwm_n f \<noteq> 0" using assms(1) by (simp add: geom_def hwm_n_def)
  ultimately show "same_geom f (link_new f rc content)" "hdr_hwm (link_new f rc content) = hdr_hwm f + 1"
    using low_cell_div [OF assms(1)]
    by (simp_all add: same_geom_def link_new_def hdr_hwm_limit_def hdr_hwm_def)
qed

lemma fresh_cluster:
  assumes "geom f" "hwm_n f < unat (hdr_hwm_limit f)"
  shows "unat (new_off f) = 8 * (hwm_n f * csz f)" "8 * (hwm_n f * csz f + csz f) \<le> unat (xf_size f)"
    "unat (new_off f) mod 4096 = 0" "unat (new_off f) < 2 ^ 63"
proof -
  show off: "unat (new_off f) = 8 * (hwm_n f * csz f)"
    unfolding new_off_def by (rule meta_off_n [OF assms])
  show "8 * (hwm_n f * csz f + csz f) \<le> unat (xf_size f)"
    using mem_in_bounds [OF assms(1), of "hwm_n f + 1"] assms(2) by simp
  have "(2::nat) ^ 12 dvd 2 ^ cluster_bits f" by (rule le_imp_power_dvd) (use assms(1) in \<open>simp add: geom_def\<close>)
  then have "4096 dvd 8 * csz f" by (simp add: geom_bits [OF assms(1)])
  then have "4096 dvd hwm_n f * (8 * csz f)" by (rule dvd_mult)
  then show "unat (new_off f) mod 4096 = 0" unfolding off by (simp add: mult.left_commute)
  have "unat (hdr_hwm_limit f) * 2 ^ cluster_bits f \<le> 2 ^ 32" using assms(1) by (simp only: geom_def)
  moreover have "hwm_n f * 2 ^ cluster_bits f \<le> unat (hdr_hwm_limit f) * 2 ^ cluster_bits f"
    using assms(2) by simp
  ultimately have "hwm_n f * (8 * csz f) \<le> 2 ^ 32" unfolding geom_bits [OF assms(1)] by linarith
  then show "unat (new_off f) < 2 ^ 63" unfolding off by (simp add: mult.left_commute)
qed

text \<open>The two ways to make the new table: zeros, or a copy of the shared one.\<close>

lemma link_zeros:
  assumes "geom f" "hwm_n f < unat (hdr_hwm_limit f)" "in_file f root" "l1 < snd root"
  shows "(sbind (span_fill (hwm_n f * csz f, csz f) empty_leaf) (\<lambda>_.
      sbind (span_put root l1 (encode_ref (new_off f) True)) (\<lambda>_. return t))) (bump_hwm f) =
    (Inr t, link_new f (fst root + l1) (\<lambda>_. 0))"
proof -
  note fc = fresh_cluster [OF assms(1,2)] and rb = in_file_bytes [OF assms(1,3)]
  have sz: "xf_size (bump_hwm f) = xf_size f" by (simp add: bump_hwm_def)
  have "hwm_n f \<noteq> 0" using assms(1) by (simp add: geom_def hwm_n_def)
  then have h3: "3 div csz f \<noteq> hwm_n f" using low_cell_div [OF assms(1), of 3] by simp
  show ?thesis
    using fc(2) rb assms(4) sz h3
    by (simp add: prog_simps span_fill_n span_put_n in_cluster_div [of "csz f", simplified] link_new_def
        bump_hwm_def empty_leaf_def fun_eq_iff)
qed

lemma link_copy:
  assumes "geom f" "hwm_n f < unat (hdr_hwm_limit f)" "in_file f root" "l1 < snd root" "0 < k" "k < hwm_n f"
  shows "(sbind (copy_masked (csz f) (k * csz f, csz f) (hwm_n f * csz f, csz f) m 0) (\<lambda>_.
      sbind (span_put root l1 (encode_ref (new_off f) True)) (\<lambda>_. return t))) (bump_hwm f) =
    (Inr t, link_new f (fst root + l1) (\<lambda>j. xf_mem f (k * csz f + j) AND m))"
proof -
  note fc = fresh_cluster [OF assms(1,2)] and rb = in_file_bytes [OF assms(1,3)]
  have sz: "xf_size (bump_hwm f) = xf_size f" by (simp add: bump_hwm_def)
  have "hwm_n f \<noteq> 0" using assms(1) by (simp add: geom_def hwm_n_def)
  then have h3: "3 div csz f \<noteq> hwm_n f" using low_cell_div [OF assms(1), of 3] by simp
  have kb: "8 * (k * csz f + csz f) \<le> unat (xf_size f)"
    using in_file_bytes [OF assms(1) cluster_in_file [OF assms(6)]] by simp
  have sep: "k * csz f + csz f \<le> hwm_n f * csz f"
    using mult_le_mono1 [of "k + 1" "hwm_n f" "csz f"] assms(6) by simp
  have copy: "copy_masked (csz f) (k * csz f, csz f) (hwm_n f * csz f, csz f) m 0 (bump_hwm f) =
    (Inr (), (bump_hwm f)\<lparr>xf_mem := (\<lambda>c. if hwm_n f * csz f \<le> c \<and> c < hwm_n f * csz f + csz f
        then xf_mem (bump_hwm f) (k * csz f + (c - hwm_n f * csz f)) AND m else xf_mem (bump_hwm f) c)\<rparr>)"
    using copy_masked_n [of "(k * csz f, csz f)" "(hwm_n f * csz f, csz f)" "bump_hwm f" 0 "csz f" m,
        unfolded fst_conv snd_conv] kb fc(2) sep sz
    by simp
  have "csz f \<le> k * csz f" using assms(5) by simp
  then have k3: "k * csz f + j \<noteq> 3" for j
    using geom_csz_ge [OF assms(1)] by linarith
  show ?thesis
    using rb assms(4) sz h3 k3
    by (simp add: prog_simps copy span_put_n in_cluster_div [of "csz f", simplified] link_new_def)
      (auto simp: bump_hwm_def intro!: arg_cong [where f = "\<lambda>m. f\<lparr>xf_mem := m\<rparr>"])
qed

text \<open>What \<open>tx_write_prep\<close> does: nothing on a private table, else a new one, or the limit is reached.\<close>

definition prep_file :: "xcow_file \<Rightarrow> cells \<Rightarrow> nat \<Rightarrow> xcow_file" where
  "prep_file f root l1 =
     (let r = xf_mem f (fst root + l1)
      in if bit r 63 \<and> bit r 1 then f
         else link_new f (fst root + l1)
                (if bit r 63 then (\<lambda>j. xf_mem f (ref_k f r * csz f + j) AND NOT xl_writable) else (\<lambda>_. 0)))"

definition prep_k :: "xcow_file \<Rightarrow> cells \<Rightarrow> nat \<Rightarrow> nat" where
  "prep_k f root l1 =
     (let r = xf_mem f (fst root + l1) in if bit r 63 \<and> bit r 1 then ref_k f r else hwm_n f)"

definition prep_fits :: "xcow_file \<Rightarrow> cells \<Rightarrow> nat \<Rightarrow> bool" where
  "prep_fits f root l1 \<longleftrightarrow>
     (let r = xf_mem f (fst root + l1) in bit r 63 \<and> bit r 1 \<or> hwm_n f < unat (hdr_hwm_limit f))"

lemma prep_file_geom:
  assumes "geom f" "root_ok f root" "l1 < snd root" "prep_fits f root l1"
  shows "same_geom f (prep_file f root l1)" "geom (prep_file f root l1)"
    "hwm_n (prep_file f root l1) = (if bit (xf_mem f (fst root + l1)) 63 \<and> bit (xf_mem f (fst root + l1)) 1
       then hwm_n f else hwm_n f + 1)"
proof -
  let ?r = "xf_mem f (fst root + l1)"
  have rc: "csz f \<le> fst root + l1" using assms(2) by (simp add: root_ok_def)
  show same: "same_geom f (prep_file f root l1)"
    using same_geom_link(1) [OF assms(1) rc] by (simp add: prep_file_def Let_def same_geom_def)
  show h: "hwm_n (prep_file f root l1) = (if bit ?r 63 \<and> bit ?r 1 then hwm_n f else hwm_n f + 1)"
  proof (cases "bit ?r 63 \<and> bit ?r 1")
    case False
    then have "hwm_n f < unat (hdr_hwm_limit f)" using assms(4) by (auto simp: prep_fits_def Let_def)
    then have "unat (hdr_hwm f + 1) = hwm_n f + 1" unfolding hwm_n_def by (rule u32_succ)
    then show ?thesis
      using False same_geom_link(2) [OF assms(1) rc] by (auto simp: prep_file_def Let_def hwm_n_def)
  qed (simp add: prep_file_def Let_def)
  show "geom (prep_file f root l1)"
    by (rule same_geom_geom [OF same assms(1)])
      (use h assms(1,4) in \<open>auto simp: prep_fits_def Let_def geom_def hwm_n_def\<close>)
qed

text \<open>Making the table of the cluster taken last.\<close>

lemma make_fresh:
  fixes g :: "cells \<Rightarrow> cells xprog"
  assumes "geom f" "hwm_n f < unat (hdr_hwm_limit f)"
  shows "(sbind (deref (new_off f) (push_bit (cluster_bits f) 1)) (\<lambda>sp. sbind (nt_make sp) g)) (bump_hwm f) =
    g (hwm_n f * csz f, csz f) (bump_hwm f)"
proof -
  have "deref (new_off f) (push_bit (cluster_bits f) 1) (bump_hwm f) = (Inr (hwm_n f * csz f, 8 * csz f), bump_hwm f)"
    using fresh_cluster [OF assms] one_cluster_n [OF assms(1)] same_geom_bits(8) [OF bump_hwm_same, of f]
    by (intro deref_n) simp_all
  then show ?thesis by (simp add: prog_simps nt_make_n)
qed

lemma tx_write_prep_n:
  assumes "geom f" "root_ok f (xs_root s)" "l1_off f a < snd (xs_root s)" "xs_disk_hwm s \<noteq> None"
  shows "tx_write_prep s a f =
    (if prep_fits f (xs_root s) (l1_off f a)
     then (Inr (prep_k f (xs_root s) (l1_off f a) * csz f + l0i f a), prep_file f (xs_root s) (l1_off f a))
     else (Inl Hwm_exception, f))"
proof -
  let ?root = "xs_root s" and ?l1 = "l1_off f a"
  let ?r = "xf_mem f (fst ?root + ?l1)" and ?h = "hwm_n f * csz f"
  have ok: "ref_ok f ?r" "in_file f ?root" using assms(2,3) by (auto simp: root_ok_def)
  note nx = nt_next_n [OF assms(1) ok(2) assms(3) ok(1)]
  have k: "bit ?r 63 \<Longrightarrow> 0 < ref_k f ?r \<and> ref_k f ?r < hwm_n f" using ok(1) by (simp add: ref_ok_def)
  have get: "span_get ?root ?l1 f = (Inr ?r, f)"
    by (rule span_get_n) (use assms in_file_bytes ok(2) in auto)
  have fin: "l0_off a (prep_file f ?root ?l1) = (Inr (l0i f a), prep_file f ?root ?l1)" if "prep_fits f ?root ?l1"
    using l0_off_n [OF prep_file_geom(2) [OF assms(1-3) that], of a]
      same_geom_bits(5) [OF prep_file_geom(1) [OF assms(1-3) that]] by simp
  have less: "l0i f a < csz f" by (rule l0i_less [OF assms(1)])
  consider (priv) "bit ?r 63" "bit ?r 1" | (full) "\<not> (bit ?r 63 \<and> bit ?r 1)" "\<not> hwm_n f < unat (hdr_hwm_limit f)"
    | (shared) "bit ?r 63" "\<not> bit ?r 1" "hwm_n f < unat (hdr_hwm_limit f)" | (none) "\<not> bit ?r 63" "hwm_n f < unat (hdr_hwm_limit f)" by blast
  then show ?thesis
  proof cases
    case priv
    then have "prep_fits f ?root ?l1" "prep_file f ?root ?l1 = f" "prep_k f ?root ?l1 = ref_k f ?r"
      by (simp_all add: prep_fits_def prep_file_def prep_k_def Let_def)
    then show ?thesis
      using priv assms(4) fin less
      by (simp add: tx_write_prep_def sbind_apply nx get writable_bit Let_def)
  next
    case full
    then have "\<not> prep_fits f ?root ?l1" by (auto simp: prep_fits_def Let_def)
    then show ?thesis
      using full assms(4) by (cases "bit ?r 63") (simp_all add: tx_write_prep_def sbind_apply nx get writable_bit Let_def alloc_meta_cluster_n)
  next
    case shared
    then have p: "prep_fits f ?root ?l1" "prep_k f ?root ?l1 = hwm_n f"
      "prep_file f ?root ?l1 = link_new f (fst ?root + ?l1) (\<lambda>j. xf_mem f (ref_k f ?r * csz f + j) AND NOT xl_writable)"
      by (simp_all add: prep_fits_def prep_file_def prep_k_def Let_def)
    note lc = link_copy [OF assms(1) shared(3) ok(2) assms(3), of "ref_k f ?r" "NOT xl_writable" "(?h, csz f)"]
    show ?thesis
      using shared assms(4) fin [OF p(1)] less k lc make_fresh [OF assms(1) shared(3)] p
      by (simp add: tx_write_prep_def sbind_apply nx get writable_bit Let_def alloc_meta_cluster_n)
  next
    case none
    then have p: "prep_fits f ?root ?l1" "prep_k f ?root ?l1 = hwm_n f" "prep_file f ?root ?l1 = link_new f (fst ?root + ?l1) (\<lambda>_. 0)"
      by (simp_all add: prep_fits_def prep_file_def prep_k_def Let_def)
    note lz = link_zeros [OF assms(1) none(2) ok(2) assms(3), of "(?h, csz f)"]
    show ?thesis
      using none assms(4) fin [OF p(1)] less lz make_fresh [OF assms(1) none(2)] p
      by (simp add: tx_write_prep_def sbind_apply nx Let_def alloc_meta_cluster_n)
  qed
qed

section \<open>The two ways to write\<close>

text \<open>\<open>translate_write\<close> prepares as \<open>tx_write_prep\<close> does.\<close>

lemma translate_write_prep:
  "translate_write s addr_in =
     sbind (tx_write_prep s addr_in) (\<lambda>e.
       sbind (cell_get e) (\<lambda>cur.
         if cur AND xl_valid = 0 \<or> cur AND xl_writable = 0
         then sbind (alloc_data_cluster s) (\<lambda>(off, nbytes).
                sbind (cell_put e (encode_leaf off True)) (\<lambda>_. return (encode_leaf off True, cur)))
         else return (cur, cur)))"
proof -
  have entry: "sbind (span_get t i) (\<lambda>cur.
        if cur AND xl_valid = 0 \<or> cur AND xl_writable = 0
        then sbind (alloc_data_cluster s) (\<lambda>(off, nbytes).
               sbind (span_put t i (encode_leaf off True)) (\<lambda>_. return (encode_leaf off True, cur)))
        else return (cur, cur)) =
      sbind (if i < snd t then return (fst t + i) else raise (Undefined ''span index'')) (\<lambda>e.
        sbind (cell_get e) (\<lambda>cur.
          if cur AND xl_valid = 0 \<or> cur AND xl_writable = 0
          then sbind (alloc_data_cluster s) (\<lambda>(off, nbytes).
                 sbind (cell_put e (encode_leaf off True)) (\<lambda>_. return (encode_leaf off True, cur)))
          else return (cur, cur)))" for t i
  proof (cases "i < snd t")
    case True
    then have put: "span_put t i v = cell_put (fst t + i) v" for v by (simp add: span_put_def)
    show ?thesis unfolding put using True by (simp add: span_get_def)
  qed (simp add: span_get_def)
  show ?thesis
    unfolding translate_write_def tx_write_prep_def Let_def entry
    by (cases "xs_disk_hwm s") (simp_all add: sbind_assoc)
qed

end
