(* ===== verification/XcowCow.thy ===== *)
theory XcowCow
  imports XcowInv
begin

text \<open>
  Copy-on-write: the invariant of a writable snapshot, what a write changes, and that a snapshot taken
  before is not disturbed by it.
\<close>

section \<open>The invariant of a writable snapshot\<close>

abbreviation rref :: "xcow_file \<Rightarrow> cells \<Rightarrow> nat \<Rightarrow> u64" where
  "rref f root i \<equiv> xf_mem f (fst root + i)"

text \<open>
  The counter of data clusters lies outside the root and its tables, and a private table (one the root references
  with the writable flag) is referenced only once.
\<close>

definition winv :: "xcow_file \<Rightarrow> cells \<Rightarrow> nat \<Rightarrow> bool" where
  "winv f root d \<longleftrightarrow> geom f \<and> root_ok f root \<and> csz f \<le> d \<and> d < hwm_n f * csz f \<and>
     (\<forall>i < snd root. (fst root + i) div csz f \<noteq> d div csz f) \<and>
     (\<forall>i < snd root. bit (rref f root i) 63 \<longrightarrow> ref_k f (rref f root i) \<noteq> d div csz f) \<and>
     (\<forall>i < snd root. \<forall>j < snd root. i \<noteq> j \<longrightarrow> bit (rref f root i) 63 \<longrightarrow> bit (rref f root i) 1 \<longrightarrow>
        bit (rref f root j) 63 \<longrightarrow> ref_k f (rref f root i) \<noteq> ref_k f (rref f root j))"

lemma winvD:
  assumes "winv f root d"
  shows "geom f" "root_ok f root" "csz f \<le> d" "d < hwm_n f * csz f" "in_file f root" "csz f \<le> fst root"
  using assms by (auto simp: winv_def root_ok_def)

lemma winv_root: "winv f root d \<Longrightarrow> i < snd root \<Longrightarrow> (fst root + i) div csz f \<noteq> d div csz f"
  by (simp add: winv_def)

lemma winv_ref:
  assumes "winv f root d" "i < snd root" "bit (rref f root i) 63"
  shows "ref_k f (rref f root i) \<noteq> d div csz f" "0 < ref_k f (rref f root i)" "ref_k f (rref f root i) < hwm_n f"
    "j < snd root \<Longrightarrow> ref_k f (rref f root i) \<noteq> (fst root + j) div csz f"
  using assms by (auto simp: winv_def root_ok_def ref_ok_def)

lemma winv_unique:
  "winv f root d \<Longrightarrow> i < snd root \<Longrightarrow> j < snd root \<Longrightarrow> i \<noteq> j \<Longrightarrow> bit (rref f root i) 63 \<Longrightarrow> bit (rref f root i) 1 \<Longrightarrow>
   bit (rref f root j) 63 \<Longrightarrow> ref_k f (rref f root i) \<noteq> ref_k f (rref f root j)"
  unfolding winv_def by blast

lemma root_cell_less: "in_file f root \<Longrightarrow> i < snd root \<Longrightarrow> (fst root + i) div csz f < hwm_n f"
  unfolding in_file_def by (simp add: less_mult_imp_div_less)

lemma cell_of_div: "c = k * csz f + j \<Longrightarrow> j < csz f \<Longrightarrow> c div csz f = k"
  by simp

lemma cluster_cell_ge: "0 < k \<Longrightarrow> csz f \<le> k * csz f + j"
proof -
  assume "0 < k"
  then have "csz f \<le> k * csz f" by simp
  then show ?thesis by linarith
qed

text \<open>A store outside the root and the header keeps the invariant.\<close>

lemma store_same:
  assumes "geom f" "csz f \<le> c"
  shows "same_geom f (f\<lparr>xf_mem := (xf_mem f)(c := v)\<rparr>)" "hwm_n (f\<lparr>xf_mem := (xf_mem f)(c := v)\<rparr>) = hwm_n f"
proof -
  have "c \<noteq> 2" "c \<noteq> 3" using assms geom_csz_ge [of f] by auto
  then show "same_geom f (f\<lparr>xf_mem := (xf_mem f)(c := v)\<rparr>)" "hwm_n (f\<lparr>xf_mem := (xf_mem f)(c := v)\<rparr>) = hwm_n f"
    by (simp_all add: same_geom_def hdr_hwm_limit_def hwm_n_def hdr_hwm_def)
qed

lemma same_root_ok:
  assumes "same_geom f f'" "hwm_n f \<le> hwm_n f'" "\<And>i. i < snd root \<Longrightarrow> rref f' root i = rref f root i" "root_ok f root"
  shows "root_ok f' root"
proof -
  have "fst root + snd root \<le> hwm_n f * csz f" using assms(4) by (simp add: root_ok_def in_file_def)
  also have "\<dots> \<le> hwm_n f' * csz f" using assms(2) by (rule mult_le_mono1)
  finally have "in_file f' root" by (simp add: in_file_def same_geom_bits(2) [OF assms(1)])
  then show ?thesis
    using assms(2,3,4) same_geom_bits [OF assms(1)] by (auto simp: root_ok_def ref_ok_def)
qed

lemma winv_same:
  assumes w: "winv f root d" and "same_geom f f'" "hwm_n f' = hwm_n f" "\<And>i. i < snd root \<Longrightarrow> rref f' root i = rref f root i"
  shows "winv f' root d"
proof -
  note sg = same_geom_bits [OF assms(2)]
  have "geom f'"
    by (rule same_geom_geom [OF assms(2) winvD(1) [OF w]])
      (use winvD(1) [OF w] assms(3) in \<open>auto simp: geom_def hwm_n_def\<close>)
  moreover have "root_ok f' root" by (rule same_root_ok [OF assms(2) _ assms(4) winvD(2) [OF w]]) (simp_all add: assms(3))
  ultimately show ?thesis
    using w assms(4) unfolding winv_def by (simp add: sg assms(3))
qed

lemma winv_store:
  assumes "winv f root d" "csz f \<le> c" "\<And>i. i < snd root \<Longrightarrow> c \<noteq> fst root + i"
  shows "winv (f\<lparr>xf_mem := (xf_mem f)(c := v)\<rparr>) root d"
  by (rule winv_same [OF assms(1)])
    (use store_same [OF winvD(1) [OF assms(1)] assms(2)] assms(3) in \<open>auto\<close>)

section \<open>Preparing a write\<close>

lemma link_new_other:
  "c \<noteq> rc \<Longrightarrow> c div csz f \<noteq> hwm_n f \<Longrightarrow> c \<noteq> 3 \<Longrightarrow> xf_mem (link_new f rc content) c = xf_mem f c"
  by (simp add: link_new_def)

lemma link_new_content:
  "j < csz f \<Longrightarrow> rc div csz f \<noteq> hwm_n f \<Longrightarrow> xf_mem (link_new f rc content) (hwm_n f * csz f + j) = content j"
  by (auto simp: link_new_def)

lemma link_new_root: "xf_mem (link_new f rc content) rc = encode_ref (new_off f) True"
  by (simp add: link_new_def)

lemma new_ref:
  assumes "geom f" "hwm_n f < unat (hdr_hwm_limit f)"
  shows "bit (encode_ref (new_off f) True) 63" "bit (encode_ref (new_off f) True) 1"
    "ref_k f (encode_ref (new_off f) True) = hwm_n f"
    "unat (nt_decode (encode_ref (new_off f) True)) mod (8 * csz f) = 0"
  using encode_decode [OF fresh_cluster(3,4) [OF assms]] fresh_cluster(1) [OF assms]
  by (simp_all add: ref_k_def)

text \<open>The root after a new table was linked in: that reference is fresh, the others are as before.\<close>

lemma link_new_refs:
  assumes w: "winv f root d" and fits: "hwm_n f < unat (hdr_hwm_limit f)" and l1: "l1 < snd root" "i < snd root"
  shows "rref (link_new f (fst root + l1) content) root i =
    (if i = l1 then encode_ref (new_off f) True else rref f root i)"
proof -
  note wd = winvD [OF w]
  have "(fst root + i) div csz f < hwm_n f" using root_cell_less [OF wd(5) l1(2)] .
  moreover have "fst root + i \<noteq> 3" using wd(6) geom_csz_ge [OF wd(1)] by linarith
  ultimately show ?thesis by (auto simp: link_new_def)
qed

lemma winv_link:
  assumes w: "winv f root d" and fits: "hwm_n f < unat (hdr_hwm_limit f)" and l1: "l1 < snd root"
  shows "winv (link_new f (fst root + l1) content) root d" (is "winv ?f' root d")
proof -
  note wd = winvD [OF w] and nr = new_ref [OF winvD(1) [OF w] fits]
  have rc: "csz f \<le> fst root + l1" using wd(6) by simp
  note same = same_geom_link(1) [OF wd(1) rc, of content]
  have h: "hwm_n ?f' = hwm_n f + 1"
    using same_geom_link(2) [OF wd(1) rc] u32_succ [of "hdr_hwm f" "hdr_hwm_limit f"] fits by (simp add: hwm_n_def)
  note sg = same_geom_bits [OF same] and refs = link_new_refs [OF w fits l1]
  have "geom ?f'" by (rule same_geom_geom [OF same wd(1)]) (use h fits in simp_all)
  moreover have "root_ok ?f' root"
  proof -
    have "in_file ?f' root" using wd(5) by (simp add: in_file_def sg h)
    moreover have "ref_ok ?f' (rref ?f' root i) \<and>
        (bit (rref ?f' root i) 63 \<longrightarrow> (\<forall>j < snd root. ref_k ?f' (rref ?f' root i) \<noteq> (fst root + j) div csz ?f'))"
      if i: "i < snd root" for i
    proof (cases "i = l1")
      case True
      have "hwm_n f \<noteq> (fst root + j) div csz f" if "j < snd root" for j
        using root_cell_less [OF wd(5) that] by simp
      moreover have "0 < hwm_n f" using wd(1) by (simp add: geom_def hwm_n_def)
      ultimately show ?thesis using True nr i refs [of i] by (simp add: ref_ok_def sg h)
    next
      case False
      have "ref_ok f (rref f root i)" using wd(2) i by (simp add: root_ok_def)
      then show ?thesis using False winv_ref [OF w i] refs [OF i] by (auto simp: ref_ok_def sg h)
    qed
    ultimately show ?thesis using wd(6) by (simp add: root_ok_def sg)
  qed
  moreover have "d < hwm_n ?f' * csz ?f'" using wd(4) by (simp add: sg h)
  moreover have "ref_k ?f' (rref ?f' root i) \<noteq> d div csz ?f'" if "i < snd root" "bit (rref ?f' root i) 63" for i
  proof (cases "i = l1")
    case True
    have "d div csz f < hwm_n f" using wd(4) by (simp add: less_mult_imp_div_less)
    then show ?thesis using True nr refs [OF that(1)] by (simp add: sg)
  next
    case False
    then show ?thesis using that winv_ref(1) [OF w that(1)] refs [OF that(1)] by (simp add: sg)
  qed
  moreover have "ref_k ?f' (rref ?f' root i) \<noteq> ref_k ?f' (rref ?f' root j)"
    if "i < snd root" "j < snd root" "i \<noteq> j" "bit (rref ?f' root i) 63" "bit (rref ?f' root i) 1" "bit (rref ?f' root j) 63" for i j
    using that winv_unique [OF w that(1-3)] winv_ref(3) [OF w that(1)] winv_ref(3) [OF w that(2)] nr
      refs [OF that(1)] refs [OF that(2)]
    by (auto simp: sg split: if_splits)
  ultimately show ?thesis
    using wd(3) winv_root [OF w] unfolding winv_def by (simp add: sg)
qed

lemma winv_prep:
  assumes "winv f root d" "l1 < snd root" "prep_fits f root l1"
  shows "winv (prep_file f root l1) root d"
proof (cases "bit (rref f root l1) 63 \<and> bit (rref f root l1) 1")
  case False
  then have "hwm_n f < unat (hdr_hwm_limit f)" using assms(3) by (auto simp: prep_fits_def Let_def)
  then show ?thesis using winv_link [OF assms(1) _ assms(2)] False by (auto simp: prep_file_def Let_def)
qed (use assms(1) in \<open>simp add: prep_file_def Let_def\<close>)

section \<open>What a root shows after a write\<close>

definition same_cluster :: "xcow_file \<Rightarrow> u64 \<Rightarrow> u64 \<Rightarrow> bool" where
  "same_cluster f a b \<longleftrightarrow> unat a div 2 ^ cluster_bits f = unat b div 2 ^ cluster_bits f"

lemma same_cluster_iff:
  assumes "geom f"
  shows "same_cluster f a b \<longleftrightarrow> l1_off f a = l1_off f b \<and> l0i f a = l0i f b"
proof -
  let ?c = "2 ^ cluster_bits f :: nat" and ?n = "csz f"
  have split: "unat x div ?c = l1_off f x * ?n + l0i f x" for x
  proof -
    have "l1_off f x = unat x div (?n * ?c)"
      unfolding l1_off_def unat_drop_bit cover_split [OF assms] by (rule refl)
    moreover have "l0i f x = unat x div ?c mod ?n"
      unfolding l0i_def cover_split [OF assms] by (simp add: mult.commute [of ?n] mod_mult2_eq)
    moreover have "unat x div (?n * ?c) = unat x div ?c div ?n"
      by (simp add: div_mult2_eq [symmetric] mult.commute)
    ultimately show ?thesis using div_mult_mod_eq [of "unat x div ?c" ?n] by simp
  qed
  have "unat a div ?c = unat b div ?c \<longleftrightarrow> l1_off f a = l1_off f b \<and> l0i f a = l0i f b"
  proof
    assume eq: "unat a div ?c = unat b div ?c"
    have "l1_off f a = (unat a div ?c) div ?n" "l1_off f b = (unat b div ?c) div ?n"
      "l0i f a = (unat a div ?c) mod ?n" "l0i f b = (unat b div ?c) mod ?n"
      using split [of a] split [of b] l0i_less [OF assms, of a] l0i_less [OF assms, of b] by simp_all
    then show "l1_off f a = l1_off f b \<and> l0i f a = l0i f b" using eq by simp
  qed (simp add: split)
  then show ?thesis by (simp add: same_cluster_def)
qed

lemma leaf_at_cong: "geom f \<Longrightarrow> same_cluster f a b \<Longrightarrow> leaf_at f root b = leaf_at f root a"
  by (simp add: same_cluster_iff leaf_at_def Let_def)

text \<open>Preparing a write shows the same translations, except that a table that was copied lost its flags.\<close>

lemma leaf_at_prep:
  assumes w: "winv f root d" and l1: "l1 < snd root" and fits: "prep_fits f root l1" and b: "l1_off f b < snd root"
  shows "leaf_at (prep_file f root l1) root b =
    (if l1_off f b = l1 \<and> \<not> (bit (rref f root l1) 63 \<and> bit (rref f root l1) 1)
     then leaf_at f root b AND NOT xl_writable else leaf_at f root b)"
proof (cases "bit (rref f root l1) 63 \<and> bit (rref f root l1) 1")
  case True
  then show ?thesis by (simp add: prep_file_def Let_def)
next
  case False
  note wd = winvD [OF w]
  have h: "hwm_n f < unat (hdr_hwm_limit f)" using fits False by (auto simp: prep_fits_def Let_def)
  define content where "content = (if bit (rref f root l1) 63
      then (\<lambda>j. xf_mem f (ref_k f (rref f root l1) * csz f + j) AND NOT xl_writable) else (\<lambda>_. 0))"
  let ?f' = "link_new f (fst root + l1) content"
  have f': "prep_file f root l1 = ?f'" using False by (auto simp: prep_file_def Let_def content_def)
  have rc: "csz f \<le> fst root + l1" using wd(6) by simp
  note sg = same_geom_bits [OF same_geom_link(1) [OF wd(1) rc, of content]]
  note nr = new_ref [OF wd(1) h] and lt = l0i_less [OF wd(1), of b]
  have rcd: "(fst root + l1) div csz f \<noteq> hwm_n f" using root_cell_less [OF wd(5) l1] by simp
  show ?thesis
  proof (cases "l1_off f b = l1")
    case True
    have "leaf_at ?f' root b = content (l0i f b)"
      using link_new_root [of f "fst root + l1" content] nr link_new_content [OF lt rcd, of content] True
      by (simp add: leaf_at_def Let_def sg)
    moreover have "content (l0i f b) = leaf_at f root b AND NOT xl_writable"
      using True by (simp add: content_def leaf_at_def Let_def empty_leaf_def)
    ultimately show ?thesis using f' False True by simp
  next
    case neq: False
    let ?r = "rref f root (l1_off f b)"
    have r: "rref ?f' root (l1_off f b) = ?r" using link_new_refs [OF w h l1 b] neq by simp
    have "xf_mem ?f' (ref_k f ?r * csz f + l0i f b) = xf_mem f (ref_k f ?r * csz f + l0i f b)" if v: "bit ?r 63"
    proof (rule link_new_other)
      note wr = winv_ref [OF w b v]
      let ?c = "ref_k f ?r * csz f + l0i f b"
      have dv: "?c div csz f = ref_k f ?r" using lt by simp
      show "?c div csz f \<noteq> hwm_n f" using dv wr(3) by simp
      show "?c \<noteq> fst root + l1" using dv wr(4) [OF l1] by metis
      have "csz f \<le> ref_k f ?r * csz f" using wr(2) by simp
      then show "?c \<noteq> 3" using geom_csz_ge [OF wd(1)] by linarith
    qed
    then show ?thesis using f' False neq r by (simp add: leaf_at_def Let_def sg)
  qed
qed

text \<open>The reference the write goes through is private once it was prepared.\<close>

lemma prep_ref:
  assumes w: "winv f root d" and l1: "l1 < snd root" and fits: "prep_fits f root l1"
  shows "bit (rref (prep_file f root l1) root l1) 63" "bit (rref (prep_file f root l1) root l1) 1"
    "ref_k f (rref (prep_file f root l1) root l1) = prep_k f root l1"
proof -
  have "bit (rref (prep_file f root l1) root l1) 63 \<and> bit (rref (prep_file f root l1) root l1) 1 \<and>
    ref_k f (rref (prep_file f root l1) root l1) = prep_k f root l1"
  proof (cases "bit (rref f root l1) 63 \<and> bit (rref f root l1) 1")
    case True
    then show ?thesis by (simp add: prep_file_def prep_k_def Let_def)
  next
    case False
    then have "hwm_n f < unat (hdr_hwm_limit f)" using fits by (auto simp: prep_fits_def Let_def)
    then show ?thesis
      using False new_ref [OF winvD(1) [OF w]] by (auto simp: prep_file_def prep_k_def Let_def link_new_root)
  qed
  then show "bit (rref (prep_file f root l1) root l1) 63" "bit (rref (prep_file f root l1) root l1) 1"
    "ref_k f (rref (prep_file f root l1) root l1) = prep_k f root l1" by auto
qed

text \<open>Storing into an entry of a private table changes exactly that cluster's translation.\<close>

lemma leaf_at_store:
  assumes w: "winv f root d" and a: "l1_off f a < snd root" and b: "l1_off f b < snd root"
    and p: "bit (rref f root (l1_off f a)) 63" "bit (rref f root (l1_off f a)) 1"
    and c: "c = ref_k f (rref f root (l1_off f a)) * csz f + l0i f a"
  shows "leaf_at (f\<lparr>xf_mem := (xf_mem f)(c := v)\<rparr>) root b = (if same_cluster f a b then v else leaf_at f root b)"
proof -
  note wd = winvD [OF w] and wr = winv_ref [OF w a p(1)]
  have cd: "c div csz f = ref_k f (rref f root (l1_off f a))" using c l0i_less [OF wd(1), of a] by simp
  have cge: "csz f \<le> c" unfolding c by (rule cluster_cell_ge [OF wr(2)])
  note sg = same_geom_bits [OF store_same(1) [OF wd(1) cge, of v]]
  have nroot: "c \<noteq> fst root + i" if "i < snd root" for i using wr(4) [OF that] cd by metis
  let ?r = "rref f root (l1_off f b)"
  have "c = ref_k f ?r * csz f + l0i f b \<longleftrightarrow> same_cluster f a b" if v: "bit ?r 63"
  proof
    assume eq: "c = ref_k f ?r * csz f + l0i f b"
    then have k: "ref_k f ?r = ref_k f (rref f root (l1_off f a))" using cd l0i_less [OF wd(1), of b] by simp
    then have "l1_off f a = l1_off f b" using winv_unique [OF w a b _ p v] by metis
    moreover have "l0i f a = l0i f b" using eq unfolding k unfolding c by simp
    ultimately show "same_cluster f a b" unfolding same_cluster_iff [OF wd(1)] by blast
  qed (use c in \<open>simp add: same_cluster_iff [OF wd(1)]\<close>)
  moreover have "same_cluster f a b \<Longrightarrow> bit ?r 63" using p(1) by (simp add: same_cluster_iff [OF wd(1)])
  ultimately show ?thesis using nroot [OF b] by (auto simp: leaf_at_def Let_def sg)
qed

section \<open>Translating a write\<close>

definition entry_cell :: "xcow_file \<Rightarrow> cells \<Rightarrow> u64 \<Rightarrow> nat" where
  "entry_cell f root a = prep_k f root (l1_off f a) * csz f + l0i f a"

text \<open>
  The outcome of \<open>translate_write\<close>: the metadata limit, an entry that is already private, the disk
  limit, or a new data cluster.
\<close>

definition tw_outcome :: "xcow_file \<Rightarrow> cells \<Rightarrow> nat \<Rightarrow> u64 \<Rightarrow> (u64 \<times> u64) result \<times> xcow_file" where
  "tw_outcome f root d a =
     (let l1 = l1_off f a; f1 = prep_file f root l1; e = entry_cell f root a; cur = xf_mem f1 e; h = xf_mem f d;
          leaf = encode_leaf (push_bit (cluster_bits f) h) True
      in if \<not> prep_fits f root l1 then (Inl Hwm_exception, f)
         else if bit cur 63 \<and> bit cur 1 then (Inr (cur, cur), f1)
         else if hdr_disk_hwm_limit f < h + 1 then (Inl Disk_hwm_exception, f1)
         else (Inr (leaf, cur), f1\<lparr>xf_mem := (xf_mem f1)(d := h + 1, e := leaf)\<rparr>))"

lemma prep_file_cell:
  assumes w: "winv f root d" and l1: "l1 < snd root" and c: "c = d \<or> c < 7 \<and> c \<noteq> 3"
  shows "xf_mem (prep_file f root l1) c = xf_mem f c"
proof -
  note wd = winvD [OF w]
  have h0: "0 < hwm_n f" using wd(1) by (simp add: geom_def hwm_n_def)
  have "d div csz f < hwm_n f" using wd(4) by (simp add: less_mult_imp_div_less)
  then have "c div csz f \<noteq> hwm_n f" using c low_cell_div [OF wd(1), of c] h0 by auto
  moreover have "c \<noteq> fst root + l1"
    using c winv_root [OF w l1] wd(6) geom_csz_ge [OF wd(1)] by auto
  moreover have "c \<noteq> 3" using c wd(3) geom_csz_ge [OF wd(1)] by auto
  ultimately show ?thesis by (simp add: prep_file_def Let_def link_new_other)
qed

lemma entry_cell_facts:
  assumes w: "winv f root d" and l1: "l1_off f a < snd root" and fits: "prep_fits f root (l1_off f a)"
  shows "entry_cell f root a \<noteq> d" "csz f \<le> entry_cell f root a"
    "8 * entry_cell f root a + 8 \<le> unat (xf_size f)" "i < snd root \<Longrightarrow> entry_cell f root a \<noteq> fst root + i"
    "entry_cell f root a div csz f = prep_k f root (l1_off f a)"
proof -
  let ?f1 = "prep_file f root (l1_off f a)"
  note w1 = winv_prep [OF w l1 fits] and pr = prep_ref [OF w l1 fits]
  note sg = same_geom_bits [OF prep_file_geom(1) [OF winvD(1,2) [OF w] l1 fits]]
  note wr = winv_ref [OF w1 l1 pr(1)] and lt = l0i_less [OF winvD(1) [OF w], of a]
  have k: "ref_k ?f1 (rref ?f1 root (l1_off f a)) = prep_k f root (l1_off f a)" using pr(3) by (simp add: sg)
  show dv: "entry_cell f root a div csz f = prep_k f root (l1_off f a)" using lt by (simp add: entry_cell_def)
  show "entry_cell f root a \<noteq> d" using wr(1) dv k by (auto simp: sg)
  show "csz f \<le> entry_cell f root a" unfolding entry_cell_def by (rule cluster_cell_ge) (use wr(2) k in simp)
  show "entry_cell f root a \<noteq> fst root + i" if "i < snd root"
    using wr(4) [OF that] dv k by (auto simp: sg)
  have "8 * (prep_k f root (l1_off f a) * csz f + csz f) \<le> unat (xf_size f)"
    using in_file_bytes [OF winvD(1) [OF w1] cluster_in_file] wr(3) k by (simp add: sg)
  then show "8 * entry_cell f root a + 8 \<le> unat (xf_size f)" using lt by (simp add: entry_cell_def)
qed

lemma translate_write_n:
  assumes w: "winv f (xs_root s) d" and d: "xs_disk_hwm s = Some d" and l1: "l1_off f a < snd (xs_root s)"
  shows "translate_write s a f = tw_outcome f (xs_root s) d a"
proof -
  let ?root = "xs_root s" and ?f1 = "prep_file f (xs_root s) (l1_off f a)" and ?e = "entry_cell f (xs_root s) a"
  note wd = winvD [OF w]
  have prep: "tx_write_prep s a f = (if prep_fits f ?root (l1_off f a) then (Inr ?e, ?f1) else (Inl Hwm_exception, f))"
    using tx_write_prep_n [OF wd(1,2) l1] d by (simp add: entry_cell_def)
  show ?thesis
  proof (cases "prep_fits f ?root (l1_off f a)")
    case False
    then show ?thesis by (simp add: translate_write_prep prog_simps prep tw_outcome_def Let_def)
  next
    case True
    note sg = same_geom_bits [OF prep_file_geom(1) [OF wd(1,2) l1 True]]
    note ef = entry_cell_facts [OF w l1 True]
    have dget: "cell_get d ?f1 = (Inr (xf_mem f d), ?f1)"
    proof -
      have "8 * d + 8 \<le> 8 * (hwm_n f * csz f)" using wd(4) by linarith
      then show ?thesis
        using geom_hwm [OF wd(1)] prep_file_cell [OF w l1, of d] by (simp add: cell_get_n sg)
    qed
    have dput: "cell_put d v ?f1 = (Inr (), ?f1\<lparr>xf_mem := (xf_mem ?f1)(d := v)\<rparr>)" for v
    proof -
      have "8 * d + 8 \<le> 8 * (hwm_n f * csz f)" using wd(4) by linarith
      then show ?thesis using geom_hwm [OF wd(1)] by (simp add: cell_put_n sg)
    qed
    have eget: "cell_get ?e ?f1 = (Inr (xf_mem ?f1 ?e), ?f1)" using ef(3) by (simp add: cell_get_n sg)
    have lim: "hdr_disk_hwm_limit ?f1 = hdr_disk_hwm_limit f"
      using prep_file_cell [OF w l1, of 4] by (simp add: hdr_disk_hwm_limit_def)
    show ?thesis
      using True d ef(3)
      by (simp add: translate_write_prep prog_simps prep eget dget dput lim alloc_data_cluster_def
          alloc_data_clusters_def valid_bit writable_bit tw_outcome_def Let_def cell_put_n sg)
  qed
qed

lemma leaf_at_counter:
  assumes w: "winv f root d" and b: "l1_off f b < snd root"
  shows "leaf_at (f\<lparr>xf_mem := (xf_mem f)(d := v)\<rparr>) root b = leaf_at f root b"
proof -
  note wd = winvD [OF w] and sg = same_geom_bits [OF store_same(1) [OF winvD(1,3) [OF w], of v]]
  have "d \<noteq> fst root + l1_off f b" using winv_root [OF w b] by auto
  moreover have "d \<noteq> ref_k f (rref f root (l1_off f b)) * csz f + l0i f b" if "bit (rref f root (l1_off f b)) 63"
    using winv_ref(1) [OF w b that] l0i_less [OF wd(1), of b] by auto
  ultimately show ?thesis by (auto simp: leaf_at_def Let_def sg)
qed

lemma winv_counter: "winv f root d \<Longrightarrow> winv (f\<lparr>xf_mem := (xf_mem f)(d := v)\<rparr>) root d"
  using winv_store [of f root d d v] winvD(3) [of f root d] winv_root [of f root d] by force

text \<open>The four outcomes as a case rule.\<close>

lemma tw_cases:
  assumes w: "winv f root d" and l1: "l1_off f a < snd root"
  obtains (meta_full) "\<not> prep_fits f root (l1_off f a)" "tw_outcome f root d a = (Inl Hwm_exception, f)"
  | (priv) "prep_fits f root (l1_off f a)"
      "bit (xf_mem (prep_file f root (l1_off f a)) (entry_cell f root a)) 63"
      "bit (xf_mem (prep_file f root (l1_off f a)) (entry_cell f root a)) 1"
      "tw_outcome f root d a =
        (Inr (xf_mem (prep_file f root (l1_off f a)) (entry_cell f root a),
              xf_mem (prep_file f root (l1_off f a)) (entry_cell f root a)), prep_file f root (l1_off f a))"
  | (disk_full) "prep_fits f root (l1_off f a)" "hdr_disk_hwm_limit f < xf_mem f d + 1"
      "tw_outcome f root d a = (Inl Disk_hwm_exception, prep_file f root (l1_off f a))"
  | (alloc) "prep_fits f root (l1_off f a)" "\<not> hdr_disk_hwm_limit f < xf_mem f d + 1"
      "\<not> (bit (xf_mem (prep_file f root (l1_off f a)) (entry_cell f root a)) 63 \<and>
          bit (xf_mem (prep_file f root (l1_off f a)) (entry_cell f root a)) 1)"
      "tw_outcome f root d a =
        (Inr (encode_leaf (push_bit (cluster_bits f) (xf_mem f d)) True,
              xf_mem (prep_file f root (l1_off f a)) (entry_cell f root a)),
         (prep_file f root (l1_off f a))\<lparr>xf_mem := (xf_mem (prep_file f root (l1_off f a)))
            (d := xf_mem f d + 1, entry_cell f root a := encode_leaf (push_bit (cluster_bits f) (xf_mem f d)) True)\<rparr>)"
proof -
  let ?c = "xf_mem (prep_file f root (l1_off f a)) (entry_cell f root a)"
  consider "\<not> prep_fits f root (l1_off f a)" | "prep_fits f root (l1_off f a)" "bit ?c 63" "bit ?c 1"
    | "prep_fits f root (l1_off f a)" "\<not> (bit ?c 63 \<and> bit ?c 1)" "hdr_disk_hwm_limit f < xf_mem f d + 1"
    | "prep_fits f root (l1_off f a)" "\<not> (bit ?c 63 \<and> bit ?c 1)" "\<not> hdr_disk_hwm_limit f < xf_mem f d + 1"
    by blast
  then show thesis
  proof cases
    case 1
    then show ?thesis by (intro meta_full) (simp_all add: tw_outcome_def Let_def)
  next
    case 2
    then show ?thesis by (intro priv) (simp_all add: tw_outcome_def Let_def)
  next
    case 3
    then show ?thesis by (intro disk_full) (auto simp: tw_outcome_def Let_def)
  next
    case 4
    then show ?thesis by (intro alloc) (auto simp: tw_outcome_def Let_def)
  qed
qed

lemma two_stores:
  "f\<lparr>xf_mem := (xf_mem f)(d := x, e := y)\<rparr> =
   (f\<lparr>xf_mem := (xf_mem f)(d := x)\<rparr>)\<lparr>xf_mem := (xf_mem (f\<lparr>xf_mem := (xf_mem f)(d := x)\<rparr>))(e := y)\<rparr>"
  by simp

lemma tw_winv:
  assumes w: "winv f root d" and l1: "l1_off f a < snd root"
  shows "winv (snd (tw_outcome f root d a)) root d"
  using w l1
proof (cases rule: tw_cases)
  case alloc
  let ?f1 = "prep_file f root (l1_off f a)"
  let ?f2 = "?f1\<lparr>xf_mem := (xf_mem ?f1)(d := xf_mem f d + 1)\<rparr>"
  note w1 = winv_prep [OF w l1 alloc(1)] and ef = entry_cell_facts [OF w l1 alloc(1)]
  note sg = same_geom_bits [OF prep_file_geom(1) [OF winvD(1,2) [OF w] l1 alloc(1)]]
  note w2 = winv_counter [OF w1, of "xf_mem f d + 1"]
  have c2: "csz ?f2 = csz f"
    using same_geom_bits(2) [OF store_same(1) [OF winvD(1,3) [OF w1]]] by (simp add: sg)
  have "winv (?f2\<lparr>xf_mem := (xf_mem ?f2)(entry_cell f root a := v)\<rparr>) root d" for v
    by (rule winv_store [OF w2]) (use ef(2,4) c2 in auto)
  then show ?thesis using alloc(4) by (simp add: two_stores [symmetric])
qed (use w winv_prep [OF w l1] in simp_all)

text \<open>A successful write: the entry returned is private, the cluster is mapped to it, and no other cluster moves.\<close>

lemma tw_leaf:
  assumes w: "winv f root d" and l1: "l1_off f a < snd root" and b: "l1_off f b < snd root"
    and ok: "tw_outcome f root d a = (Inr (leaf, prev), f')"
  shows "bit leaf 63" "bit leaf 1" "same_cluster f a b \<Longrightarrow> leaf_at f' root b = leaf"
    "\<not> same_cluster f a b \<Longrightarrow> leaf_at f' root b AND NOT xl_writable = leaf_at f root b AND NOT xl_writable"
    "prev AND NOT xl_writable = leaf_at f root a AND NOT xl_writable"
proof -
  let ?f1 = "prep_file f root (l1_off f a)"
  have fits: "prep_fits f root (l1_off f a)"
    using ok by (auto simp: tw_outcome_def Let_def split: if_splits)
  note w1 = winv_prep [OF w l1 fits] and pr = prep_ref [OF w l1 fits]
  note sg = same_geom_bits [OF prep_file_geom(1) [OF winvD(1,2) [OF w] l1 fits]]
  have e: "entry_cell f root a = ref_k ?f1 (rref ?f1 root (l1_off ?f1 a)) * csz ?f1 + l0i ?f1 a"
    using pr(3) by (simp add: entry_cell_def sg)
  have cur: "leaf_at ?f1 root a = xf_mem ?f1 (entry_cell f root a)"
    using pr(1) e by (simp add: leaf_at_def Let_def sg)
  have masked: "leaf_at ?f1 root x AND NOT xl_writable = leaf_at f root x AND NOT xl_writable" if "l1_off f x < snd root" for x
    using leaf_at_prep [OF w l1 fits that] by (simp add: and.assoc)
  have sc: "same_cluster ?f1 x y = same_cluster f x y" for x y by (simp add: same_cluster_def sg)
  have "bit leaf 63 \<and> bit leaf 1 \<and> (same_cluster f a b \<longrightarrow> leaf_at f' root b = leaf) \<and>
    (\<not> same_cluster f a b \<longrightarrow> leaf_at f' root b = leaf_at ?f1 root b) \<and> prev = xf_mem ?f1 (entry_cell f root a)"
    using w l1
  proof (cases rule: tw_cases)
    case priv
    have "leaf_at ?f1 root b = leaf_at ?f1 root a" if "same_cluster f a b"
      by (rule leaf_at_cong [OF winvD(1) [OF w1]]) (use that sc in simp)
    then show ?thesis using priv ok cur by auto
  next
    case alloc
    let ?f2 = "?f1\<lparr>xf_mem := (xf_mem ?f1)(d := xf_mem f d + 1)\<rparr>"
    note w2 = winv_counter [OF w1, of "xf_mem f d + 1"]
    note s2 = same_geom_bits [OF store_same(1) [OF winvD(1,3) [OF w1], of "xf_mem f d + 1"]]
    have dn: "d \<noteq> fst root + i" if "i < snd root" for i using winv_root [OF w that] by auto
    have r2: "rref ?f2 root (l1_off f a) = rref ?f1 root (l1_off f a)" using dn [OF l1] by simp
    have e2: "entry_cell f root a = ref_k ?f2 (rref ?f2 root (l1_off ?f2 a)) * csz ?f2 + l0i ?f2 a"
      using e dn [OF l1] by (simp add: s2 sg)
    have pp: "bit (rref ?f2 root (l1_off ?f2 a)) 63" "bit (rref ?f2 root (l1_off ?f2 a)) 1"
      using pr(1,2) dn [OF l1] by (simp_all add: s2 sg)
    have "leaf_at (?f2\<lparr>xf_mem := (xf_mem ?f2)(entry_cell f root a := leaf)\<rparr>) root b =
        (if same_cluster ?f2 a b then leaf else leaf_at ?f2 root b)"
      by (rule leaf_at_store [OF w2 _ _ pp e2]) (use l1 b in \<open>simp_all add: s2 sg\<close>)
    moreover have "leaf_at ?f2 root b = leaf_at ?f1 root b"
      by (rule leaf_at_counter [OF w1]) (use b in \<open>simp add: sg\<close>)
    moreover have "same_cluster ?f2 a b = same_cluster f a b" by (simp add: same_cluster_def s2 sg)
    moreover have "leaf = encode_leaf (push_bit (cluster_bits f) (xf_mem f d)) True"
      "f' = ?f2\<lparr>xf_mem := (xf_mem ?f2)(entry_cell f root a := leaf)\<rparr>" "prev = xf_mem ?f1 (entry_cell f root a)"
      using alloc(4) ok by (auto simp: two_stores [symmetric])
    ultimately show ?thesis
      by (simp add: encode_leaf_def bit_or_iff bit_xl_valid bit_xl_writable)
  qed (use ok in simp_all)
  then show "bit leaf 63" "bit leaf 1" "same_cluster f a b \<Longrightarrow> leaf_at f' root b = leaf"
    "\<not> same_cluster f a b \<Longrightarrow> leaf_at f' root b AND NOT xl_writable = leaf_at f root b AND NOT xl_writable"
    "prev AND NOT xl_writable = leaf_at f root a AND NOT xl_writable"
    using masked [OF b] masked [OF l1] cur by auto
qed

section \<open>Snapshots are isolated\<close>

text \<open>
  Another root is frozen with respect to the writable one: the two tables, the counter and the private tables
  of the writable one are no part of what the other root reaches.
\<close>

definition privref :: "xcow_file \<Rightarrow> cells \<Rightarrow> nat \<Rightarrow> bool" where
  "privref f root i \<longleftrightarrow> i < snd root \<and> bit (rref f root i) 63 \<and> bit (rref f root i) 1"

definition clear_of :: "xcow_file \<Rightarrow> cells \<Rightarrow> nat \<Rightarrow> nat \<Rightarrow> bool" where
  "clear_of f root d k \<longleftrightarrow> k < hwm_n f \<and> k \<noteq> d div csz f \<and> (\<forall>i < snd root. k \<noteq> (fst root + i) div csz f) \<and>
     (\<forall>i. privref f root i \<longrightarrow> k \<noteq> ref_k f (rref f root i))"

definition frozen :: "xcow_file \<Rightarrow> cells \<Rightarrow> nat \<Rightarrow> cells \<Rightarrow> bool" where
  "frozen f root d old \<longleftrightarrow> root_ok f old \<and>
     (\<forall>j < snd old. clear_of f root d ((fst old + j) div csz f)) \<and>
     (\<forall>j < snd old. bit (rref f old j) 63 \<longrightarrow> clear_of f root d (ref_k f (rref f old j)))"

text \<open>No write touches a word of a cluster that is clear of the writable snapshot, the header's apart.\<close>

lemma prep_frame:
  assumes w: "winv f root d" and l1: "l1 < snd root" and c: "clear_of f root d (c div csz f)" "csz f \<le> c"
  shows "xf_mem (prep_file f root l1) c = xf_mem f c"
proof -
  have "c \<noteq> fst root + l1" "c div csz f \<noteq> hwm_n f" using c(1) l1 by (auto simp: clear_of_def)
  moreover have "c \<noteq> 3" using c(2) geom_csz_ge [OF winvD(1) [OF w]] by linarith
  ultimately show ?thesis by (simp add: prep_file_def Let_def link_new_other)
qed

lemma prep_k_cases:
  assumes "l1 < snd root"
  shows "prep_k f root l1 = hwm_n f \<or> (privref f root l1 \<and> prep_k f root l1 = ref_k f (rref f root l1))"
  using assms by (auto simp: prep_k_def privref_def Let_def)

lemma tw_frame:
  assumes w: "winv f root d" and l1: "l1_off f a < snd root" and c: "clear_of f root d (c div csz f)" "csz f \<le> c"
  shows "xf_mem (snd (tw_outcome f root d a)) c = xf_mem f c"
  using w l1
proof (cases rule: tw_cases)
  case alloc
  have "c \<noteq> d" using c(1) by (auto simp: clear_of_def)
  moreover have "c div csz f \<noteq> prep_k f root (l1_off f a)"
    using prep_k_cases [OF l1, of f] c(1) by (auto simp: clear_of_def)
  then have "c \<noteq> entry_cell f root a" using entry_cell_facts(5) [OF w l1 alloc(1)] by auto
  ultimately show ?thesis using alloc(4) prep_frame [OF w l1 c] by simp
qed (use prep_frame [OF w l1 c] in simp_all)

lemma tw_geom:
  assumes w: "winv f root d" and l1: "l1_off f a < snd root"
  shows "same_geom f (snd (tw_outcome f root d a))" "hwm_n f \<le> hwm_n (snd (tw_outcome f root d a))"
proof -
  have "same_geom f (snd (tw_outcome f root d a)) \<and> hwm_n f \<le> hwm_n (snd (tw_outcome f root d a))"
    using w l1
  proof (cases rule: tw_cases)
    case meta_full
    then show ?thesis by (simp add: same_geom_def)
  next
    case priv
    then show ?thesis using prep_file_geom [OF winvD(1,2) [OF w] l1 priv(1)] by simp
  next
    case disk_full
    then show ?thesis using prep_file_geom [OF winvD(1,2) [OF w] l1 disk_full(1)] by simp
  next
    case alloc
    let ?f1 = "prep_file f root (l1_off f a)"
    note p = prep_file_geom [OF winvD(1,2) [OF w] l1 alloc(1)] and ef = entry_cell_facts [OF w l1 alloc(1)]
    have "d \<noteq> 2" "d \<noteq> 3" "entry_cell f root a \<noteq> 2" "entry_cell f root a \<noteq> 3"
      using winvD(3) [OF w] ef(2) geom_csz_ge [OF winvD(1) [OF w]] by auto
    then have "same_geom ?f1 (snd (tw_outcome f root d a))" "hwm_n (snd (tw_outcome f root d a)) = hwm_n ?f1"
      using alloc(4) by (simp_all add: same_geom_def hdr_hwm_limit_def hwm_n_def hdr_hwm_def)
    then show ?thesis using p by (auto simp: same_geom_def)
  qed
  then show "same_geom f (snd (tw_outcome f root d a))" "hwm_n f \<le> hwm_n (snd (tw_outcome f root d a))" by auto
qed

text \<open>Every private reference after a write was private before or names a fresh cluster.\<close>

lemma tw_priv:
  assumes w: "winv f root d" and l1: "l1_off f a < snd root"
    and p: "privref (snd (tw_outcome f root d a)) root i"
  shows "privref f root i \<and> rref (snd (tw_outcome f root d a)) root i = rref f root i \<or>
    ref_k f (rref (snd (tw_outcome f root d a)) root i) = hwm_n f"
proof -
  let ?f' = "snd (tw_outcome f root d a)" and ?f1 = "prep_file f root (l1_off f a)"
  have i: "i < snd root" using p by (simp add: privref_def)
  have "rref ?f' root i = rref f root i \<or> ref_k f (rref ?f' root i) = hwm_n f"
  proof (cases "prep_fits f root (l1_off f a)")
    case False
    then have "?f' = f" by (simp add: tw_outcome_def Let_def)
    then show ?thesis by simp
  next
    case True
    have "rref ?f' root i = rref ?f1 root i"
      using w l1
    proof (cases rule: tw_cases)
      case alloc
      then show ?thesis
        using entry_cell_facts(4) [OF w l1 alloc(1) i] winv_root [OF w i] by auto
    qed (use True in simp_all)
    moreover have "rref ?f1 root i = rref f root i \<or> ref_k f (rref ?f1 root i) = hwm_n f"
    proof (cases "bit (rref f root (l1_off f a)) 63 \<and> bit (rref f root (l1_off f a)) 1")
      case False
      then have h: "hwm_n f < unat (hdr_hwm_limit f)" using True by (auto simp: prep_fits_def Let_def)
      then show ?thesis
        using False link_new_refs [OF w h l1 i] new_ref(3) [OF winvD(1) [OF w] h]
        by (auto simp: prep_file_def Let_def)
    qed (simp add: prep_file_def Let_def)
    ultimately show ?thesis by simp
  qed
  then show ?thesis using p by (auto simp: privref_def)
qed

lemma clear_of_write:
  assumes w: "winv f root d" and l1: "l1_off f a < snd root" and c: "clear_of f root d k"
  shows "clear_of (snd (tw_outcome f root d a)) root d k"
proof -
  note sg = same_geom_bits [OF tw_geom(1) [OF w l1]] and h = tw_geom(2) [OF w l1]
  have "k \<noteq> ref_k f (rref (snd (tw_outcome f root d a)) root i)"
    if "privref (snd (tw_outcome f root d a)) root i" for i
    using tw_priv [OF w l1 that] c by (auto simp: clear_of_def)
  then show ?thesis using c h by (simp add: clear_of_def sg)
qed

lemma frozen_write:
  assumes w: "winv f root d" and l1: "l1_off f a < snd root" and fz: "frozen f root d old"
  shows "frozen (snd (tw_outcome f root d a)) root d old"
    and "l1_off f b < snd old \<Longrightarrow> leaf_at (snd (tw_outcome f root d a)) old b = leaf_at f old b"
proof -
  let ?f' = "snd (tw_outcome f root d a)"
  note sg = same_geom_bits [OF tw_geom(1) [OF w l1]]
  have ok: "root_ok f old" and cl: "\<And>j. j < snd old \<Longrightarrow> clear_of f root d ((fst old + j) div csz f)"
    and ct: "\<And>j. j < snd old \<Longrightarrow> bit (rref f old j) 63 \<Longrightarrow> clear_of f root d (ref_k f (rref f old j))"
    using fz by (auto simp: frozen_def)
  have refs: "rref ?f' old j = rref f old j" if "j < snd old" for j
    by (rule tw_frame [OF w l1 cl [OF that]]) (use ok in \<open>simp add: root_ok_def\<close>)
  have "root_ok ?f' old" by (rule same_root_ok [OF tw_geom(1,2) [OF w l1] refs ok])
  then show "frozen ?f' root d old"
    using cl ct refs clear_of_write [OF w l1] by (simp add: frozen_def sg)
  assume b: "l1_off f b < snd old"
  let ?r = "rref f old (l1_off f b)"
  have "xf_mem ?f' (ref_k f ?r * csz f + l0i f b) = xf_mem f (ref_k f ?r * csz f + l0i f b)" if v: "bit ?r 63"
  proof (rule tw_frame [OF w l1])
    have "ref_ok f ?r" using ok b by (simp add: root_ok_def)
    then show "csz f \<le> ref_k f ?r * csz f + l0i f b" using v by (intro cluster_cell_ge) (simp add: ref_ok_def)
    show "clear_of f root d ((ref_k f ?r * csz f + l0i f b) div csz f)"
      using ct [OF b v] l0i_less [OF winvD(1) [OF w], of b] by simp
  qed
  then show "leaf_at ?f' old b = leaf_at f old b" using refs [OF b] by (simp add: leaf_at_def Let_def sg)
qed

end
