(* ===== verification/XcowSnapshot.thy ===== *)
theory XcowSnapshot
  imports XcowCow
begin

text \<open>
  Taking a snapshot: \<open>snap_create\<close> gives a new writable snapshot that shows what its source shows and leaves the source frozen.
\<close>

section \<open>The snapshot table\<close>

definition tab_ok :: "xcow_file \<Rightarrow> cells \<Rightarrow> nat \<Rightarrow> bool" where
  "tab_ok f t tk \<longleftrightarrow> t = (tk * csz f, csz f) \<and> 0 < tk \<and> tk < hwm_n f \<and> lt_end f t \<le> lt_room 2 t"

lemma room_n: "lt_room 2 (x, csz f) = csz f div 2 - 1"
  by (simp add: lt_room_def)

lemma sl_cell_in:
  assumes "geom f" "i < csz f div 2 - 1"
  shows "2 + 2 * i + 1 < csz f"
  using assms by linarith

lemma csz_le: "geom f \<Longrightarrow> csz f \<le> 2 ^ 13"
  unfolding csz_def by (rule power_increasing) (auto simp: geom_def)

lemma tab_cell:
  assumes g: "geom f" and t: "tab_ok f t tk" and j: "j < csz f"
  shows "(fst t + j) div csz f = tk" "8 * (fst t + j) + 8 \<le> unat (xf_size f)" "csz f \<le> fst t + j"
proof -
  have tk: "t = (tk * csz f, csz f)" "0 < tk" "tk < hwm_n f" using t by (auto simp: tab_ok_def)
  show "(fst t + j) div csz f = tk" using tk(1) j by simp
  have "8 * (tk * csz f + csz f) \<le> unat (xf_size f)" using in_file_bytes [OF g cluster_in_file [OF tk(3)]] by simp
  then show "8 * (fst t + j) + 8 \<le> unat (xf_size f)" using tk(1) j by simp
  show "csz f \<le> fst t + j" using cluster_cell_ge [OF tk(2), of f j] tk(1) by simp
qed

lemma sl_active_n: "tab_ok f t tk \<Longrightarrow> sl_active t f = (Inr (lt_end f t), f)"
  by (auto simp: sl_active_def prog_simps tab_ok_def)

lemma sl_back_n: "tab_ok f t tk \<Longrightarrow> 0 < lt_end f t \<Longrightarrow> sl_back t f = (Inr (lt_end f t - 1), f)"
  by (simp add: sl_back_def prog_simps sl_active_n)

lemma sl_entry_cell_t: "sl_entry_cell t i = fst t + (2 + 2 * i)"
  by (simp add: sl_entry_cell_def)

lemma sl_get_n:
  assumes "geom f" "tab_ok f t tk" "i < csz f div 2 - 1"
  shows "sl_get t i f = (Inr (xf_mem f (sl_entry_cell t i), xf_mem f (sl_entry_cell t i + 1)), f)"
proof -
  have j: "2 + 2 * i + 1 < csz f" by (rule sl_cell_in [OF assms(1,3)])
  have "i < lt_room 2 t" using assms by (auto simp: tab_ok_def room_n)
  moreover have "8 * sl_entry_cell t i + 8 \<le> unat (xf_size f)" "8 * (sl_entry_cell t i + 1) + 8 \<le> unat (xf_size f)"
    using tab_cell(2) [OF assms(1,2), of "2 + 2 * i"] tab_cell(2) [OF assms(1,2), of "2 + 2 * i + 1"] j
    by (simp_all add: sl_entry_cell_t)
  ultimately show ?thesis by (simp add: sl_get_def prog_simps cell_get_n)
qed

definition pushed :: "xcow_file \<Rightarrow> cells \<Rightarrow> u64 \<times> u64 \<Rightarrow> xcow_file" where
  "pushed f t e =
     f\<lparr>xf_mem := (xf_mem f)(fst t + 1 := join32 (of_nat (lt_end f t + 1)) (hi32 (xf_mem f (fst t + 1))),
        sl_entry_cell t (lt_end f t) := fst e, sl_entry_cell t (lt_end f t) + 1 := snd e)\<rparr>"

lemma sl_push_back_n:
  assumes g: "geom f" and t: "tab_ok f t tk" and n: "lt_end f t < csz f div 2 - 1"
  shows "sl_push_back t e f = (Inr True, pushed f t e)"
proof -
  let ?n = "lt_end f t"
  have j: "2 + 2 * ?n + 1 < csz f" by (rule sl_cell_in [OF g n])
  have room: "lt_room 2 t = csz f div 2 - 1" using t by (auto simp: tab_ok_def room_n)
  have b1: "8 * (fst t + 1) + 8 \<le> unat (xf_size f)" using tab_cell(2) [OF g t, of 1] geom_csz_ge [OF g] by simp
  have b2: "8 * sl_entry_cell t ?n + 8 \<le> unat (xf_size f)" "8 * (sl_entry_cell t ?n + 1) + 8 \<le> unat (xf_size f)"
    using tab_cell(2) [OF g t, of "2 + 2 * ?n"] tab_cell(2) [OF g t, of "2 + 2 * ?n + 1"] j
    by (simp_all add: sl_entry_cell_t)
  show ?thesis
    using n room b1 b2
    by (simp add: sl_push_back_def prog_simps lt_set_end_def cell_get_n cell_put_n sl_put_def pushed_def)
qed

lemma pushed_cell:
  assumes "c \<noteq> fst t + 1" "c \<noteq> sl_entry_cell t (lt_end f t)" "c \<noteq> sl_entry_cell t (lt_end f t) + 1"
  shows "xf_mem (pushed f t e) c = xf_mem f c"
  using assms by (simp add: pushed_def)

lemma pushed_other:
  assumes g: "geom f" and t: "tab_ok f t tk" and n: "lt_end f t < csz f div 2 - 1" and c: "c div csz f \<noteq> tk"
  shows "xf_mem (pushed f t e) c = xf_mem f c"
proof (rule pushed_cell)
  have j: "2 + 2 * lt_end f t + 1 < csz f" by (rule sl_cell_in [OF g n])
  show "c \<noteq> fst t + 1" using c tab_cell(1) [OF g t, of 1] geom_csz_ge [OF g] by auto
  show "c \<noteq> sl_entry_cell t (lt_end f t)" "c \<noteq> sl_entry_cell t (lt_end f t) + 1"
    using c tab_cell(1) [OF g t, of "2 + 2 * lt_end f t"] tab_cell(1) [OF g t, of "2 + 2 * lt_end f t + 1"] j
    by (auto simp: sl_entry_cell_t)
qed

lemma pushed_geom:
  assumes g: "geom f" and t: "tab_ok f t tk" and n: "lt_end f t < csz f div 2 - 1"
  shows "same_geom f (pushed f t e)" "hwm_n (pushed f t e) = hwm_n f"
proof -
  have tk: "0 < tk" using t by (simp add: tab_ok_def)
  have "xf_mem (pushed f t e) 2 = xf_mem f 2" "xf_mem (pushed f t e) 3 = xf_mem f 3"
    using pushed_other [OF g t n, of 2] pushed_other [OF g t n, of 3] low_cell_div [OF g, of 2] low_cell_div [OF g, of 3] tk
    by simp_all
  then show "same_geom f (pushed f t e)" "hwm_n (pushed f t e) = hwm_n f"
    by (simp_all add: same_geom_def hwm_n_def hdr_hwm_def hdr_hwm_limit_def) (simp add: pushed_def)
qed

lemma pushed_end:
  assumes g: "geom f" and t: "tab_ok f t tk" and n: "lt_end f t < csz f div 2 - 1"
  shows "lt_end (pushed f t e) t = lt_end f t + 1"
proof -
  have "csz f \<le> 2 ^ 13" by (rule csz_le [OF g])
  then have "lt_end f t + 1 < 2 ^ 32" using n by simp
  then have "unat (of_nat (lt_end f t + 1) :: u32) = lt_end f t + 1" by (simp only: unat_of_nat) simp
  moreover have "xf_mem (pushed f t e) (fst t + 1) = join32 (of_nat (lt_end f t + 1)) (hi32 (xf_mem f (fst t + 1)))"
    by (simp add: pushed_def sl_entry_cell_t)
  ultimately show ?thesis unfolding lt_end_def [of "pushed f t e"] by (simp only: lo_join)
qed

section \<open>The number of root clusters\<close>

lemma l1_clusters_n:
  assumes g: "geom f" and fs: "0 < unat (hdr_fsize f)" "unat (hdr_fsize f) \<le> csz f * 2 ^ l0_cover_bits f"
  shows "l1_clusters f = (Inr 1, f)"
proof -
  let ?cb = "l0_cover_bits f" and ?n = "csz f"
  define l0 where "l0 = drop_bit ?cb (hdr_fsize f + 2 ^ ?cb - 1)"
  have cb: "?cb \<le> 29" using g by (auto simp: l0_cover_bits_def geom_def)
  have nle: "?n \<le> 2 ^ 13" by (rule csz_le [OF g])
  have cov: "(2::nat) ^ ?cb \<le> 2 ^ 29" by (rule power_increasing [OF cb]) simp
  have "?n * 2 ^ ?cb \<le> 2 ^ 13 * 2 ^ 29" using nle cov by (rule mult_le_mono)
  then have small: "unat (hdr_fsize f) \<le> 2 ^ 42" using fs(2) by simp
  have pe: "unat (2 ^ ?cb :: u64) = 2 ^ ?cb" using cb by simp
  have "unat (hdr_fsize f + 2 ^ ?cb) = unat (hdr_fsize f) + 2 ^ ?cb"
    by (subst unat_add_small) (use small cov pe in simp_all)
  then have "unat (hdr_fsize f + 2 ^ ?cb - 1) = unat (hdr_fsize f) + 2 ^ ?cb - 1"
    by (subst unat_sub_small) (use fs(1) in simp_all)
  then have l0n: "unat l0 = (unat (hdr_fsize f) + 2 ^ ?cb - 1) div 2 ^ ?cb" unfolding l0_def unat_drop_bit by simp
  have "1 \<le> unat l0"
  proof -
    have "2 ^ ?cb div 2 ^ ?cb \<le> (unat (hdr_fsize f) + 2 ^ ?cb - 1) div (2 ^ ?cb :: nat)" by (rule div_le_mono) (use fs(1) in simp)
    then show ?thesis unfolding l0n by simp
  qed
  moreover have "unat l0 \<le> ?n"
  proof -
    have "unat (hdr_fsize f) + 2 ^ ?cb - 1 < (?n + 1) * 2 ^ ?cb" using fs by simp
    then show ?thesis unfolding l0n by (metis less_mult_imp_div_less less_Suc_eq_le Suc_eq_plus1)
  qed
  ultimately have l0b: "1 \<le> unat l0" "unat l0 \<le> ?n" by auto
  have cs: "unat (cluster_size f) = 8 * ?n" by (rule cluster_size_n [OF g])
  have m8: "unat (l0 * 8) = unat l0 * 8"
  proof -
    have "unat l0 * unat (8 :: u64) < 2 ^ LENGTH(64)" using l0b(2) nle by simp
    then have "unat (l0 * 8) = unat l0 * unat (8 :: u64)" by (simp only: unat_mult_lem)
    then show ?thesis by simp
  qed
  have "unat (l0 * 8 + cluster_size f) = unat l0 * 8 + 8 * ?n"
    by (subst unat_add_small) (use l0b(2) nle m8 cs in simp_all)
  then have "unat (l0 * 8 + cluster_size f - 1) = unat l0 * 8 + 8 * ?n - 1"
    by (subst unat_sub_small) (use l0b(1) in simp_all)
  then have "unat (drop_bit (cluster_bits f) (l0 * 8 + cluster_size f - 1)) = (unat l0 * 8 + 8 * ?n - 1) div (8 * ?n)"
    unfolding unat_drop_bit geom_bits [OF g] by simp
  also have "\<dots> = 1" by (rule div_nat_eqI) (use l0b csz_pos [of f] in \<open>linarith, simp\<close>)
  finally have "drop_bit (cluster_bits f) (l0 * 8 + cluster_size f - 1) = 1" by (intro word_eq_unatI) simp
  then show ?thesis
    by (simp add: l1_clusters_def prog_simps l0_cover_size_n [OF g] Let_def l0_def)
qed

section \<open>Taking a snapshot\<close>

text \<open>The state a writable snapshot is opened in: its counter is the second word of the last entry of the list.\<close>

definition snap_state :: "xcow_file \<Rightarrow> cells \<Rightarrow> nat \<Rightarrow> nat \<Rightarrow> bool" where
  "snap_state f root d tk \<longleftrightarrow> winv f root d \<and> snd root = csz f \<and> tab_ok f (xf_snaps f) tk \<and> 0 < lt_end f (xf_snaps f) \<and>
     d = sl_entry_cell (xf_snaps f) (lt_end f (xf_snaps f) - 1) + 1 \<and>
     0 < unat (hdr_fsize f) \<and> unat (hdr_fsize f) \<le> csz f * 2 ^ l0_cover_bits f"

definition copied_root :: "xcow_file \<Rightarrow> cells \<Rightarrow> xcow_file" where
  "copied_root f root =
     f\<lparr>xf_mem := (\<lambda>c. if c div csz f = hwm_n f then xf_mem f (fst root + (c - hwm_n f * csz f)) AND NOT xl_writable
                       else if c = 3 then join32 (hdr_hwm_limit f) (hdr_hwm f + 1) else xf_mem f c)\<rparr>"

definition snapped :: "xcow_file \<Rightarrow> cells \<Rightarrow> nat \<Rightarrow> xcow_file" where
  "snapped f root d =
     pushed (copied_root f root) (xf_snaps f) (encode_snap_entry (new_off f) (xf_mem f d))"

lemma copied_root_cell:
  assumes "c div csz f \<noteq> hwm_n f" "c \<noteq> 3"
  shows "xf_mem (copied_root f root) c = xf_mem f c"
  using assms by (simp add: copied_root_def)

lemma copied_root_geom:
  assumes g: "geom f" and h: "hwm_n f < unat (hdr_hwm_limit f)"
  shows "same_geom f (copied_root f root)" "hwm_n (copied_root f root) = hwm_n f + 1" "geom (copied_root f root)"
    "xf_snaps (copied_root f root) = xf_snaps f"
proof -
  have h0: "hwm_n f \<noteq> 0" using g by (simp add: geom_def hwm_n_def)
  show same: "same_geom f (copied_root f root)"
    using h0 low_cell_div [OF g, of 2] low_cell_div [OF g, of 3]
    by (simp add: same_geom_def hdr_hwm_limit_def copied_root_def)
  show hw: "hwm_n (copied_root f root) = hwm_n f + 1"
    using h0 low_cell_div [OF g, of 3] u32_succ [of "hdr_hwm f" "hdr_hwm_limit f"] h
    by (simp add: hwm_n_def hdr_hwm_def copied_root_def)
  show "geom (copied_root f root)" by (rule same_geom_geom [OF same g]) (use hw h in simp_all)
  show "xf_snaps (copied_root f root) = xf_snaps f" by (simp add: copied_root_def)
qed

lemma copy_root_n:
  assumes g: "geom f" and h: "hwm_n f < unat (hdr_hwm_limit f)" and r: "in_file f root" "snd root = csz f" "csz f \<le> fst root"
  shows "copy_masked (csz f) root (hwm_n f * csz f, csz f) (NOT xl_writable) 0 (bump_hwm f) = (Inr (), copied_root f root)"
proof -
  note fc = fresh_cluster [OF g h]
  have sz: "xf_size (bump_hwm f) = xf_size f" by (simp add: bump_hwm_def)
  have h0: "hwm_n f \<noteq> 0" using g by (simp add: geom_def hwm_n_def)
  then have h3: "3 div csz f \<noteq> hwm_n f" using low_cell_div [OF g, of 3] by simp
  have sep: "fst root + csz f \<le> hwm_n f * csz f" using r by (simp add: in_file_def)
  have r3: "fst root + j \<noteq> 3" for j using r(3) geom_csz_ge [OF g] by linarith
  have "copy_masked (csz f) root (hwm_n f * csz f, csz f) (NOT xl_writable) 0 (bump_hwm f) =
    (Inr (), (bump_hwm f)\<lparr>xf_mem := (\<lambda>c. if hwm_n f * csz f \<le> c \<and> c < hwm_n f * csz f + csz f
        then xf_mem (bump_hwm f) (fst root + (c - hwm_n f * csz f)) AND NOT xl_writable else xf_mem (bump_hwm f) c)\<rparr>)"
    using copy_masked_n [of root "(hwm_n f * csz f, csz f)" "bump_hwm f" 0 "csz f" "NOT xl_writable",
        unfolded fst_conv snd_conv] r(2) fc(2) in_file_bytes [OF g r(1)] sep sz
    by simp
  also have "(bump_hwm f)\<lparr>xf_mem := (\<lambda>c. if hwm_n f * csz f \<le> c \<and> c < hwm_n f * csz f + csz f
        then xf_mem (bump_hwm f) (fst root + (c - hwm_n f * csz f)) AND NOT xl_writable else xf_mem (bump_hwm f) c)\<rparr> =
      copied_root f root"
    using h3 r3
    by (simp add: in_cluster_div [of "csz f", simplified] copied_root_def)
      (auto simp: bump_hwm_def intro!: arg_cong [where f = "\<lambda>m. f\<lparr>xf_mem := m\<rparr>"])
  finally show ?thesis .
qed

lemma snap_stateD:
  assumes "snap_state f root d tk"
  shows "winv f root d" "snd root = csz f" "tab_ok f (xf_snaps f) tk" "0 < lt_end f (xf_snaps f)"
    "d = sl_entry_cell (xf_snaps f) (lt_end f (xf_snaps f) - 1) + 1" "geom f" "d div csz f = tk"
    "lt_end f (xf_snaps f) \<le> csz f div 2 - 1"
proof -
  show w: "winv f root d" and "snd root = csz f" and t: "tab_ok f (xf_snaps f) tk" and n: "0 < lt_end f (xf_snaps f)"
    and d: "d = sl_entry_cell (xf_snaps f) (lt_end f (xf_snaps f) - 1) + 1"
    using assms by (auto simp: snap_state_def)
  show g: "geom f" by (rule winvD(1) [OF w])
  show le: "lt_end f (xf_snaps f) \<le> csz f div 2 - 1" using t by (auto simp: tab_ok_def room_n)
  have "2 + 2 * (lt_end f (xf_snaps f) - 1) + 1 < csz f" by (rule sl_cell_in [OF g]) (use le n in linarith)
  then show "d div csz f = tk"
    using tab_cell(1) [OF g t, of "2 + 2 * (lt_end f (xf_snaps f) - 1) + 1"] d by (simp add: sl_entry_cell_t)
qed

lemma tab_ok_same:
  assumes "tab_ok f t tk" "same_geom f f'" "hwm_n f \<le> hwm_n f'" "xf_mem f' (fst t + 1) = xf_mem f (fst t + 1)"
  shows "tab_ok f' t tk"
proof -
  have "lt_end f' t = lt_end f t" unfolding lt_end_def assms(4) ..
  then show ?thesis using assms(1,3) same_geom_bits(2) [OF assms(2)] unfolding tab_ok_def by auto
qed

lemma snap_tab_copied:
  assumes s: "snap_state f root d tk" and h: "hwm_n f < unat (hdr_hwm_limit f)"
  shows "tab_ok (copied_root f root) (xf_snaps f) tk" "lt_end (copied_root f root) (xf_snaps f) = lt_end f (xf_snaps f)"
    "j < csz f \<Longrightarrow> xf_mem (copied_root f root) (fst (xf_snaps f) + j) = xf_mem f (fst (xf_snaps f) + j)"
proof -
  note sd = snap_stateD [OF s] and cg = copied_root_geom [OF snap_stateD(6) [OF s] h, of root]
  have tk: "tk < hwm_n f" "0 < tk" using sd(3) by (auto simp: tab_ok_def)
  show cell: "xf_mem (copied_root f root) (fst (xf_snaps f) + j) = xf_mem f (fst (xf_snaps f) + j)" if "j < csz f" for j
    using tab_cell(1,3) [OF sd(6,3) that] tk geom_csz_ge [OF sd(6)] by (intro copied_root_cell) auto
  have one: "xf_mem (copied_root f root) (fst (xf_snaps f) + 1) = xf_mem f (fst (xf_snaps f) + 1)"
    by (rule cell) (use geom_csz_ge [OF sd(6)] in simp)
  show "tab_ok (copied_root f root) (xf_snaps f) tk" by (rule tab_ok_same [OF sd(3) cg(1) _ one]) (use cg(2) in simp)
  show "lt_end (copied_root f root) (xf_snaps f) = lt_end f (xf_snaps f)" unfolding lt_end_def one ..
qed

text \<open>\<open>snap_create\<close> while the current table of the list has room.\<close>

lemma snap_create_n:
  assumes st: "snap_state f (xs_root s) d tk" and h: "hwm_n f < unat (hdr_hwm_limit f)"
    and room: "lt_end f (xf_snaps f) < csz f div 2 - 1"
  shows "snap_create s f =
    (Inr (\<lparr>xs_root = (hwm_n f * csz f, csz f), xs_disk_hwm = Some (sl_entry_cell (xf_snaps f) (lt_end f (xf_snaps f)) + 1)\<rparr>,
          s\<lparr>xs_disk_hwm := None\<rparr>),
     snapped f (xs_root s) d)"
proof -
  note sd = snap_stateD [OF st] and tc = snap_tab_copied [OF st h]
  let ?f1 = "copied_root f (xs_root s)" and ?t = "xf_snaps f" and ?n = "lt_end f (xf_snaps f)"
  note cg = copied_root_geom [OF sd(6) h, of "xs_root s"] and sg = same_geom_bits [OF copied_root_geom(1) [OF sd(6) h], of "xs_root s"]
  have l1: "l1_clusters f = (Inr 1, f)"
    by (rule l1_clusters_n) (use st sd(6) in \<open>auto simp: snap_state_def\<close>)
  have al: "alloc_meta_clusters 1 f = (Inr (new_off f, push_bit (cluster_bits f) 1), bump_hwm f)"
    using alloc_meta_cluster_n [of f] h by (simp add: alloc_meta_cluster_def)
  have de: "deref (new_off f) (push_bit (cluster_bits f) 1) (bump_hwm f) = (Inr (hwm_n f * csz f, 8 * csz f), bump_hwm f)"
    using fresh_cluster [OF sd(6) h] one_cluster_n [OF sd(6)] same_geom_bits(8) [OF bump_hwm_same, of f]
    by (intro deref_n) simp_all
  have cp: "copy_masked (snd (xs_root s)) (xs_root s) (hwm_n f * csz f, csz f) (NOT xl_writable) 0 (bump_hwm f) = (Inr (), ?f1)"
    using copy_root_n [OF sd(6) h winvD(5) [OF sd(1)] sd(2) winvD(6) [OF sd(1)]] sd(2) by simp
  have bk: "sl_back ?t ?f1 = (Inr (?n - 1), ?f1)" using sl_back_n [OF tc(1)] tc(2) sd(4) by simp
  have nlt: "?n - 1 < csz ?f1 div 2 - 1" using room sd(4) by (simp add: sg)
  have j: "2 + 2 * (?n - 1) + 1 < csz f" by (rule sl_cell_in [OF sd(6)]) (use nlt sg in simp)
  have dcell: "xf_mem ?f1 (sl_entry_cell ?t (?n - 1) + 1) = xf_mem f d"
    using tc(3) [OF j] sd(5) by (simp add: sl_entry_cell_t)
  have gt: "sl_get ?t (?n - 1) ?f1 = (Inr (xf_mem ?f1 (sl_entry_cell ?t (?n - 1)), xf_mem f d), ?f1)"
    using sl_get_n [OF cg(3) tc(1) nlt] dcell by simp
  have room1: "lt_end ?f1 ?t < csz ?f1 div 2 - 1" using room tc(2) by (simp add: sg)
  have pu: "sl_push_back ?t (encode_snap_entry (new_off f) (xf_mem f d)) ?f1 = (Inr True, snapped f (xs_root s) d)"
    using sl_push_back_n [OF cg(3) tc(1) room1] by (simp add: snapped_def)
  have t2: "tab_ok (snapped f (xs_root s) d) ?t tk"
  proof -
    note pg = pushed_geom [OF cg(3) tc(1) room1, of "encode_snap_entry (new_off f) (xf_mem f d)"]
    have "lt_end (snapped f (xs_root s) d) ?t \<le> lt_room 2 ?t"
      using pushed_end [OF cg(3) tc(1) room1] room tc(2) sd(3) by (auto simp: snapped_def tab_ok_def room_n)
    then show ?thesis
      using tc(1) pg same_geom_bits(2) [OF pg(1)] by (auto simp: tab_ok_def snapped_def)
  qed
  have e2: "lt_end (snapped f (xs_root s) d) ?t = ?n + 1"
    using pushed_end [OF cg(3) tc(1) room1] tc(2) by (simp add: snapped_def)
  have sn: "xf_snaps ?f1 = ?t" "xf_snaps (snapped f (xs_root s) d) = ?t" using cg(4) by (simp_all add: snapped_def pushed_def)
  show ?thesis
    by (simp add: snap_create_def prog_simps l1 al de nt_make_n cp bk gt [unfolded One_nat_def] pu sn sl_back_n [OF t2] e2
        del: push_bit_of_1)
qed

text \<open>The new root is a copy without the writable flags; the old one and everything below it are as they were.\<close>

definition new_root :: "xcow_file \<Rightarrow> cells" where
  "new_root f = (hwm_n f * csz f, csz f)"

definition new_counter :: "xcow_file \<Rightarrow> nat" where
  "new_counter f = sl_entry_cell (xf_snaps f) (lt_end f (xf_snaps f)) + 1"

text \<open>A snapshot can be taken: there is room for a root in the file and for an entry in the list.\<close>

definition snap_room :: "xcow_file \<Rightarrow> cells \<Rightarrow> nat \<Rightarrow> nat \<Rightarrow> bool" where
  "snap_room f root d tk \<longleftrightarrow> snap_state f root d tk \<and> hwm_n f < unat (hdr_hwm_limit f) \<and>
     lt_end f (xf_snaps f) < csz f div 2 - 1"

lemma snap_roomD:
  assumes "snap_room f root d tk"
  shows "snap_state f root d tk" "hwm_n f < unat (hdr_hwm_limit f)" "lt_end f (xf_snaps f) < csz f div 2 - 1"
  using assms by (auto simp: snap_room_def)


lemma snapped_geom:
  assumes sr: "snap_room f root d tk"
  shows "same_geom f (snapped f root d)" "hwm_n (snapped f root d) = hwm_n f + 1" "geom (snapped f root d)"
proof -
  note st = snap_roomD(1) [OF sr] and h = snap_roomD(2) [OF sr] and room = snap_roomD(3) [OF sr]
  note sd = snap_stateD [OF st] and tc = snap_tab_copied [OF st h] and cg = copied_root_geom [OF snap_stateD(6) [OF st] h, of root]
  have room1: "lt_end (copied_root f root) (xf_snaps f) < csz (copied_root f root) div 2 - 1"
    using room tc(2) same_geom_bits(2) [OF cg(1)] by simp
  note pg = pushed_geom [OF cg(3) tc(1) room1, of "encode_snap_entry (new_off f) (xf_mem f d)"]
  show same: "same_geom f (snapped f root d)" using cg(1) pg(1) by (simp add: same_geom_def snapped_def)
  show hw: "hwm_n (snapped f root d) = hwm_n f + 1" using cg(2) pg(2) by (simp add: snapped_def)
  show "geom (snapped f root d)" by (rule same_geom_geom [OF same sd(6)]) (use hw h in simp_all)
qed

lemma snapped_cell:
  assumes sr: "snap_room f root d tk" and "c div csz f \<noteq> hwm_n f" "c div csz f \<noteq> tk" "csz f \<le> c"
  shows "xf_mem (snapped f root d) c = xf_mem f c"
proof -
  note st = snap_roomD(1) [OF sr] and h = snap_roomD(2) [OF sr] and room = snap_roomD(3) [OF sr]
  note sd = snap_stateD [OF st] and tc = snap_tab_copied [OF st h] and cg = copied_root_geom [OF snap_stateD(6) [OF st] h, of root]
  note sg = same_geom_bits(2) [OF cg(1)]
  have room1: "lt_end (copied_root f root) (xf_snaps f) < csz (copied_root f root) div 2 - 1"
    using room tc(2) sg by simp
  have "xf_mem (snapped f root d) c = xf_mem (copied_root f root) c"
    unfolding snapped_def by (rule pushed_other [OF cg(3) tc(1) room1]) (use assms(3) sg in simp)
  also have "\<dots> = xf_mem f c"
    by (rule copied_root_cell) (use assms geom_csz_ge [OF sd(6)] in auto)
  finally show ?thesis .
qed

lemma snapped_new_root:
  assumes sr: "snap_room f root d tk" and "i < csz f"
  shows "rref (snapped f root d) (new_root f) i = rref f root i AND NOT xl_writable"
proof -
  note st = snap_roomD(1) [OF sr] and h = snap_roomD(2) [OF sr] and room = snap_roomD(3) [OF sr]
  note sd = snap_stateD [OF st] and tc = snap_tab_copied [OF st h] and cg = copied_root_geom [OF snap_stateD(6) [OF st] h, of root]
  note sg = same_geom_bits(2) [OF cg(1)]
  have room1: "lt_end (copied_root f root) (xf_snaps f) < csz (copied_root f root) div 2 - 1"
    using room tc(2) sg by simp
  have tk: "tk < hwm_n f" using sd(3) by (simp add: tab_ok_def)
  have "xf_mem (snapped f root d) (hwm_n f * csz f + i) = xf_mem (copied_root f root) (hwm_n f * csz f + i)"
    unfolding snapped_def by (rule pushed_other [OF cg(3) tc(1) room1]) (use assms sg tk in simp)
  then show ?thesis using assms by (simp add: new_root_def copied_root_def)
qed

lemma snapped_old_root:
  assumes sr: "snap_room f root d tk" and i: "i < snd root"
  shows "rref (snapped f root d) root i = rref f root i"
proof (rule snapped_cell [OF sr])
  note st = snap_roomD(1) [OF sr] and h = snap_roomD(2) [OF sr] and room = snap_roomD(3) [OF sr]
  note sd = snap_stateD [OF st]
  show "(fst root + i) div csz f \<noteq> hwm_n f" using root_cell_less [OF winvD(5) [OF sd(1)] i] by simp
  show "(fst root + i) div csz f \<noteq> tk" using winv_root [OF sd(1) i] sd(7) by simp
  show "csz f \<le> fst root + i" using winvD(6) [OF sd(1)] by simp
qed

lemma snapped_table:
  assumes sr: "snap_room f root d tk" and "i < snd root" "bit (rref f root i) 63" "j < csz f"
  shows "xf_mem (snapped f root d) (ref_k f (rref f root i) * csz f + j) = xf_mem f (ref_k f (rref f root i) * csz f + j)"
proof (rule snapped_cell [OF sr])
  note st = snap_roomD(1) [OF sr] and h = snap_roomD(2) [OF sr] and room = snap_roomD(3) [OF sr]
  note sd = snap_stateD [OF st] and wr = winv_ref [OF snap_stateD(1) [OF st] assms(2,3)]
  have dv: "(ref_k f (rref f root i) * csz f + j) div csz f = ref_k f (rref f root i)" using assms(4) by simp
  show "(ref_k f (rref f root i) * csz f + j) div csz f \<noteq> hwm_n f" using dv wr(3) by simp
  show "(ref_k f (rref f root i) * csz f + j) div csz f \<noteq> tk" using dv wr(1) sd(7) by simp
  show "csz f \<le> ref_k f (rref f root i) * csz f + j" by (rule cluster_cell_ge [OF wr(2)])
qed

lemma new_counter_div:
  assumes sr: "snap_room f root d tk"
  shows "new_counter f div csz f = tk" "csz f \<le> new_counter f"
proof -
  note st = snap_roomD(1) [OF sr] and h = snap_roomD(2) [OF sr] and room = snap_roomD(3) [OF sr]
  note sd = snap_stateD [OF st]
  have j: "2 + 2 * lt_end f (xf_snaps f) + 1 < csz f" by (rule sl_cell_in [OF sd(6) room])
  show "new_counter f div csz f = tk" "csz f \<le> new_counter f"
    using tab_cell(1,3) [OF sd(6,3) j] by (simp_all add: new_counter_def sl_entry_cell_t)
qed

lemma snapped_winv:
  assumes sr: "snap_room f root d tk"
  shows "winv (snapped f root d) (new_root f) (new_counter f)"
proof -
  note st = snap_roomD(1) [OF sr] and h = snap_roomD(2) [OF sr] and room = snap_roomD(3) [OF sr]
  note sd = snap_stateD [OF st] and g' = snapped_geom [OF sr] and sg = same_geom_bits [OF snapped_geom(1) [OF sr]]
  have tk: "tk < hwm_n f" "0 < tk" using sd(3) by (auto simp: tab_ok_def)
  have nr: "fst (new_root f) = hwm_n f * csz f" "snd (new_root f) = csz f" by (simp_all add: new_root_def)
  have rdiv: "(fst (new_root f) + i) div csz f = hwm_n f" if "i < csz f" for i using that nr by simp
  have refs: "bit (rref (snapped f root d) (new_root f) i) 63 \<longleftrightarrow> bit (rref f root i) 63"
    "\<not> bit (rref (snapped f root d) (new_root f) i) 1"
    "ref_k f (rref (snapped f root d) (new_root f) i) = ref_k f (rref f root i)"
    "ref_ok (snapped f root d) (rref (snapped f root d) (new_root f) i)" if i: "i < csz f" for i
  proof -
    have ok: "ref_ok f (rref f root i)" using winvD(2) [OF sd(1)] i sd(2) by (simp add: root_ok_def)
    show "bit (rref (snapped f root d) (new_root f) i) 63 \<longleftrightarrow> bit (rref f root i) 63"
      "\<not> bit (rref (snapped f root d) (new_root f) i) 1"
      "ref_k f (rref (snapped f root d) (new_root f) i) = ref_k f (rref f root i)"
      unfolding snapped_new_root [OF sr i] using bit_1_nw by (simp_all add: ref_k_def)
    show "ref_ok (snapped f root d) (rref (snapped f root d) (new_root f) i)"
      unfolding snapped_new_root [OF sr i] using ok by (auto simp: ref_ok_def sg g'(2) ref_k_def)
  qed
  have small: "ref_k f (rref f root i) \<noteq> hwm_n f" "ref_k f (rref f root i) \<noteq> tk"
    if "i < csz f" "bit (rref f root i) 63" for i
    using winv_ref(1,3) [OF sd(1) _ that(2)] that(1) sd(2,7) by simp_all
  have "root_ok (snapped f root d) (new_root f)"
  proof -
    have "csz f \<le> hwm_n f * csz f" using tk by simp
    then show ?thesis
      using refs small by (auto simp: root_ok_def nr sg in_file_def g'(2))
  qed
  moreover have "new_counter f < hwm_n (snapped f root d) * csz f"
  proof -
    have "new_counter f div csz f < hwm_n f + 1" using new_counter_div(1) [OF sr] tk by simp
    then show ?thesis unfolding g'(2) by (simp add: div_less_iff_less_mult)
  qed
  moreover have "hwm_n f \<noteq> tk" using tk by simp
  ultimately show ?thesis
    using g'(3) new_counter_div [OF sr] refs small rdiv by (auto simp: winv_def nr sg)
qed

lemma snapped_frozen:
  assumes sr: "snap_room f root d tk"
  shows "frozen (snapped f root d) (new_root f) (new_counter f) root"
proof -
  note st = snap_roomD(1) [OF sr] and h = snap_roomD(2) [OF sr] and room = snap_roomD(3) [OF sr]
  note sd = snap_stateD [OF st] and g' = snapped_geom [OF sr] and sg = same_geom_bits [OF snapped_geom(1) [OF sr]]
  have nopriv: "\<not> privref (snapped f root d) (new_root f) i" for i
    using snapped_new_root [OF sr, of i] bit_1_nw by (auto simp: privref_def new_root_def)
  have clear: "clear_of (snapped f root d) (new_root f) (new_counter f) k" if "k < hwm_n f" "k \<noteq> tk" for k
    using that nopriv new_counter_div(1) [OF sr] by (auto simp: clear_of_def g'(2) sg new_root_def)
  have "root_ok (snapped f root d) root"
    by (rule same_root_ok [OF g'(1) _ snapped_old_root [OF sr] winvD(2) [OF sd(1)]]) (use g'(2) in simp_all)
  moreover have "clear_of (snapped f root d) (new_root f) (new_counter f) ((fst root + j) div csz f)" if "j < snd root" for j
    by (rule clear) (use root_cell_less [OF winvD(5) [OF sd(1)] that] winv_root [OF sd(1) that] sd(7) in simp_all)
  moreover have "clear_of (snapped f root d) (new_root f) (new_counter f) (ref_k f (rref f root j))"
    if "j < snd root" "bit (rref f root j) 63" for j
    by (rule clear) (use winv_ref(1,3) [OF sd(1) that] sd(7) in simp_all)
  ultimately show ?thesis using snapped_old_root [OF sr] by (simp add: frozen_def sg)
qed

text \<open>Both snapshots show what the source showed.\<close>

lemma snapped_leaf:
  assumes sr: "snap_room f root d tk" and "l1_off f b < csz f"
  shows "leaf_at (snapped f root d) (new_root f) b = leaf_at f root b" "leaf_at (snapped f root d) root b = leaf_at f root b"
proof -
  note st = snap_roomD(1) [OF sr] and h = snap_roomD(2) [OF sr] and room = snap_roomD(3) [OF sr]
  note sd = snap_stateD [OF st] and sg = same_geom_bits [OF snapped_geom(1) [OF sr]]
  have b: "l1_off f b < snd root" using assms sd(2) by simp
  note lt = l0i_less [OF sd(6), of b]
  have nw: "bit (r AND NOT xl_writable) 63 = bit r 63" "ref_k f (r AND NOT xl_writable) = ref_k f r" for r
    by (simp_all add: ref_k_def)
  show "leaf_at (snapped f root d) (new_root f) b = leaf_at f root b"
    using snapped_new_root [OF sr assms(2)] snapped_table [OF sr b _ lt] by (simp add: leaf_at_def Let_def sg nw)
  show "leaf_at (snapped f root d) root b = leaf_at f root b"
    using snapped_old_root [OF sr b] snapped_table [OF sr b _ lt] by (simp add: leaf_at_def Let_def sg)
qed

end
