(* ===== verification/XcowFormat.thy ===== *)
theory XcowFormat
  imports XcowSnapshot
begin

text \<open>
  What \<open>XcowFile::format\<close> leaves in the file, and that the constructor and \<open>open_write\<close> find an empty disk
  there that satisfies the invariant of a writable snapshot.
\<close>

text \<open>The arguments for which the code's shifts are exact and the four initial clusters fit.\<close>

definition fmt_ok :: "u64 \<Rightarrow> u64 \<Rightarrow> u32 \<Rightarrow> u32 \<Rightarrow> bool" where
  "fmt_ok sz fsize cbits hl \<longleftrightarrow> 12 \<le> unat cbits \<and> unat cbits \<le> 16 \<and> 4 \<le> unat hl \<and>
     unat hl * 2 ^ unat cbits \<le> unat sz \<and> unat hl * 2 ^ unat cbits \<le> 2 ^ 32 \<and>
     0 < unat fsize \<and> unat fsize \<le> 2 ^ (unat cbits - 3) * 2 ^ (unat cbits * 2 - 3)"

definition fmt_n :: "u32 \<Rightarrow> nat" where "fmt_n cbits = 2 ^ (unat cbits - 3)"

definition fmt_mem :: "u64 \<Rightarrow> u32 \<Rightarrow> u32 \<Rightarrow> u64 \<Rightarrow> (nat \<Rightarrow> u64) \<Rightarrow> nat \<Rightarrow> u64" where
  "fmt_mem fsize cbits hl dl m c =
     (let n = fmt_n cbits
      in if c = 0 then XCOW_MAGIC else if c = 1 then fsize else if c = 2 then join32 cbits 0
         else if c = 3 then join32 hl 4 else if c = 4 then dl
         else if c = 5 then encode_snap_ref (of_nat (8 * n)) else if c = 6 then encode_free_ref (of_nat (16 * n))
         else if c = n + 1 then join32 1 0 else if c = n + 2 then of_nat (24 * n) OR file_valid
         else if c = n + 3 then 1 else if c < 4 * n then 0 else m c)"

definition formatted :: "u64 \<Rightarrow> u32 \<Rightarrow> u32 \<Rightarrow> u64 \<Rightarrow> xcow_file \<Rightarrow> xcow_file" where
  "formatted fsize cbits hl dl f =
     f\<lparr>xf_mem := fmt_mem fsize cbits hl dl (xf_mem f), xf_snaps := (fmt_n cbits, fmt_n cbits),
       xf_flist := (2 * fmt_n cbits, fmt_n cbits)\<rparr>"

lemma fmt_n_facts:
  assumes "fmt_ok sz fsize cbits hl"
  shows "2 ^ unat cbits = 8 * fmt_n cbits" "512 \<le> fmt_n cbits" "fmt_n cbits \<le> 2 ^ 13" "32 * fmt_n cbits \<le> unat sz"
    "fmt_n cbits mod 2 = 0"
proof -
  have c: "12 \<le> unat cbits" "unat cbits \<le> 16" "4 \<le> unat hl" "unat hl * 2 ^ unat cbits \<le> unat sz"
    using assms by (simp_all add: fmt_ok_def)
  have "2 ^ unat cbits = (2::nat) ^ ((unat cbits - 3) + 3)" using c by simp
  also have "\<dots> = 8 * fmt_n cbits" unfolding power_add fmt_n_def by simp
  finally show p: "2 ^ unat cbits = 8 * fmt_n cbits" .
  have "(2::nat) ^ 9 \<le> 2 ^ (unat cbits - 3)" by (rule power_increasing) (use c in auto)
  then show "512 \<le> fmt_n cbits" by (simp add: fmt_n_def)
  have "(2::nat) ^ (unat cbits - 3) \<le> 2 ^ 13" by (rule power_increasing) (use c in auto)
  then show "fmt_n cbits \<le> 2 ^ 13" by (simp add: fmt_n_def)
  have "4 * (8 * fmt_n cbits) \<le> unat hl * (8 * fmt_n cbits)" using c(3) by (rule mult_le_mono1)
  then show "32 * fmt_n cbits \<le> unat sz" using c(4) unfolding p by linarith
  have "unat cbits - 3 = Suc (unat cbits - 4)" using c by simp
  then show "fmt_n cbits mod 2 = 0" by (simp add: fmt_n_def)
qed

text \<open>The file after the header and the two list heads are written, before the first root is allocated.\<close>

definition fmt_head :: "u64 \<Rightarrow> u32 \<Rightarrow> u32 \<Rightarrow> u64 \<Rightarrow> xcow_file \<Rightarrow> xcow_file" where
  "fmt_head fsize cbits hl dl f =
     (let n = fmt_n cbits
      in f\<lparr>xf_mem := (\<lambda>c. if c = 0 then XCOW_MAGIC else if c = 1 then fsize else if c = 2 then join32 cbits 0
         else if c = 3 then join32 hl 3 else if c = 4 then dl
         else if c = 5 then encode_snap_ref (of_nat (8 * n)) else if c = 6 then encode_free_ref (of_nat (16 * n))
         else if c < 3 * n then 0 else xf_mem f c),
         xf_snaps := (n, n), xf_flist := (2 * n, n)\<rparr>)"

lemma fmt_head_geom:
  assumes "fmt_ok (xf_size f) fsize cbits hl"
  shows "geom (fmt_head fsize cbits hl dl f)" "cluster_bits (fmt_head fsize cbits hl dl f) = unat cbits"
    "csz (fmt_head fsize cbits hl dl f) = fmt_n cbits" "hwm_n (fmt_head fsize cbits hl dl f) = 3"
    "hdr_hwm_limit (fmt_head fsize cbits hl dl f) = hl" "hdr_fsize (fmt_head fsize cbits hl dl f) = fsize"
    "hdr_hwm (fmt_head fsize cbits hl dl f) = 3" "xf_size (fmt_head fsize cbits hl dl f) = xf_size f"
proof -
  let ?f = "fmt_head fsize cbits hl dl f"
  show cb: "cluster_bits ?f = unat cbits" by (simp add: cluster_bits_def hdr_cluster_bits_def fmt_head_def Let_def)
  show hl: "hdr_hwm_limit ?f = hl" by (simp add: hdr_hwm_limit_def fmt_head_def Let_def)
  show hw: "hwm_n ?f = 3" "hdr_hwm ?f = 3" by (simp_all add: hwm_n_def hdr_hwm_def fmt_head_def Let_def)
  show "hdr_fsize ?f = fsize" by (simp add: hdr_fsize_def fmt_head_def Let_def)
  show "csz ?f = fmt_n cbits" by (simp add: csz_def cb fmt_n_def)
  show sz: "xf_size ?f = xf_size f" by (simp add: fmt_head_def Let_def)
  show "geom ?f" using assms hw by (simp add: geom_def cb hl sz fmt_ok_def)
qed

lemma fmt_geom:
  assumes "fmt_ok (xf_size f) fsize cbits hl"
  shows "geom (formatted fsize cbits hl dl f)" "cluster_bits (formatted fsize cbits hl dl f) = unat cbits"
    "csz (formatted fsize cbits hl dl f) = fmt_n cbits" "hwm_n (formatted fsize cbits hl dl f) = 4"
    "hdr_hwm_limit (formatted fsize cbits hl dl f) = hl" "hdr_fsize (formatted fsize cbits hl dl f) = fsize"
    "xf_size (formatted fsize cbits hl dl f) = xf_size f" "xf_snaps (formatted fsize cbits hl dl f) = (fmt_n cbits, fmt_n cbits)"
proof -
  let ?f = "formatted fsize cbits hl dl f"
  show cb: "cluster_bits ?f = unat cbits" by (simp add: cluster_bits_def hdr_cluster_bits_def formatted_def fmt_mem_def Let_def)
  show hl: "hdr_hwm_limit ?f = hl" by (simp add: hdr_hwm_limit_def formatted_def fmt_mem_def Let_def)
  have hw: "hdr_hwm ?f = 4" by (simp_all add: hwm_n_def hdr_hwm_def formatted_def fmt_mem_def Let_def)
  then show "hwm_n ?f = 4" by (simp add: hwm_n_def)
  show "hdr_fsize ?f = fsize" by (simp add: hdr_fsize_def formatted_def fmt_mem_def Let_def)
  show "csz ?f = fmt_n cbits" by (simp add: csz_def cb fmt_n_def)
  show sz: "xf_size ?f = xf_size f" "xf_snaps ?f = (fmt_n cbits, fmt_n cbits)" by (simp_all add: formatted_def)
  show "geom ?f" using assms hw by (simp add: geom_def cb hl sz fmt_ok_def)
qed

lemma fmt_words:
  assumes ok: "fmt_ok sz fsize cbits hl"
  shows "unat (int_shl1 (unat cbits)) = 8 * fmt_n cbits" "push_bit (unat cbits) (1 :: u64) = of_nat (8 * fmt_n cbits)"
    "push_bit (unat cbits) (2 :: u64) = of_nat (16 * fmt_n cbits)"
    "k \<le> 64 \<Longrightarrow> unat (of_nat (k * fmt_n cbits) :: u64) = k * fmt_n cbits"
proof -
  note nf = fmt_n_facts [OF ok]
  have "unat cbits < 31" using ok by (simp add: fmt_ok_def)
  then show "unat (int_shl1 (unat cbits)) = 8 * fmt_n cbits" unfolding nf(1) [symmetric] by simp
  have "push_bit (unat cbits) (w :: u64) = of_nat (8 * fmt_n cbits) * w" for w
    unfolding push_bit_eq_mult nf(1) [symmetric] by (simp add: mult.commute)
  from this [of 1] this [of 2] show "push_bit (unat cbits) (1 :: u64) = of_nat (8 * fmt_n cbits)"
    "push_bit (unat cbits) (2 :: u64) = of_nat (16 * fmt_n cbits)" by simp_all
  assume "k \<le> 64"
  then have "k * fmt_n cbits \<le> 64 * 2 ^ 13" by (rule mult_le_mono [OF _ nf(3)])
  then have "k * fmt_n cbits < 2 ^ LENGTH(64)" by simp
  then show "unat (of_nat (k * fmt_n cbits) :: u64) = k * fmt_n cbits" by (simp only: unat_of_nat mod_less)
qed

lemma lt_make_n:
  assumes "16 \<le> 8 * n" "esize = 8 \<or> esize = 16" "n mod 2 = 0"
  shows "lt_make esize (c, 8 * n) f = (Inr (c, n), f)"
proof -
  obtain q where q: "n = 2 * q" using assms(3) by (metis mod_0_imp_dvd dvdE)
  have "(8 * n - 16) mod esize = 0" using assms(1,2) unfolding q by auto
  then show ?thesis using assms(1) by (simp add: lt_make_def convert_span_def prog_simps)
qed

lemma lt_format_n:
  assumes "16 \<le> 8 * n" "esize = 8 \<or> esize = 16" "n mod 2 = 0" "8 * (c + n) \<le> unat (xf_size f)"
  shows "lt_format esize (c, 8 * n) f =
    (Inr (c, n), f\<lparr>xf_mem := (\<lambda>i. if c \<le> i \<and> i < c + n then 0 else xf_mem f i)\<rparr>)"
proof -
  show ?thesis
    using assms by (simp add: lt_format_def prog_simps cell_put_n lt_make_n span_fill_n)
      (rule xcow_file.equality; auto simp: fun_eq_iff)
qed

text \<open>Writing the header and the two list heads.\<close>

lemma fmt_head_n:
  assumes ok: "fmt_ok (xf_size f) fsize cbits hl"
  shows "sbind (deref 0 (int_shl1 (unat cbits))) (\<lambda>hb.
             sbind (span_fill (fst hb, snd hb div 8) 0) (\<lambda>_.
             sbind (hdr_put 0 XCOW_MAGIC) (\<lambda>_.
             sbind (hdr_put 1 fsize) (\<lambda>_.
             sbind (hdr_put 2 (join32 cbits 0)) (\<lambda>_.
             sbind (hdr_put 3 (join32 hl 0)) (\<lambda>_.
             sbind (hdr_put 4 dl) (\<lambda>_.
             sbind (deref (push_bit (unat cbits) 1) (int_shl1 (unat cbits))) (\<lambda>ssp.
             sbind (lt_format 16 ssp) (\<lambda>snaps.
             sbind (hdr_put 5 (encode_snap_ref (push_bit (unat cbits) 1))) (\<lambda>_.
             sbind (deref (push_bit (unat cbits) 2) (int_shl1 (unat cbits))) (\<lambda>fsp.
             sbind (lt_format 8 fsp) (\<lambda>flist.
             sbind (hdr_put 6 (encode_free_ref (push_bit (unat cbits) 2))) (\<lambda>_.
             sbind (hdr_put 3 (join32 hl 3)) (\<lambda>_.
             sbind (smod (\<lambda>f. f\<lparr>xf_snaps := snaps, xf_flist := flist\<rparr>)) (\<lambda>_. rest snaps))))))))))))))) f =
    rest (fmt_n cbits, fmt_n cbits) (fmt_head fsize cbits hl dl f)"
proof -
  let ?n = "fmt_n cbits" and ?b = "unat cbits"
  note nf = fmt_n_facts [OF ok] and fw = fmt_words [OF ok]
  have d0: "deref 0 (int_shl1 ?b) f' = (Inr (0, 8 * ?n), f')" if "xf_size f' = xf_size f" for f'
    by (rule deref_n) (use fw(1) nf(4) that in simp_all)
  have d1: "deref (push_bit ?b 1) (int_shl1 ?b) f' = (Inr (?n, 8 * ?n), f')" if "xf_size f' = xf_size f" for f'
    by (rule deref_n) (use fw(1) fw(4) [of 8] nf(4) that in \<open>simp_all add: fw(2) del: push_bit_of_1\<close>)
  have d2: "deref (push_bit ?b 2) (int_shl1 ?b) f' = (Inr (2 * ?n, 8 * ?n), f')" if "xf_size f' = xf_size f" for f'
    by (rule deref_n) (use fw(1) fw(4) [of 16] nf(4) that in \<open>simp_all add: fw(3)\<close>)
  have put: "hdr_put i v f' = (Inr (), f'\<lparr>xf_mem := (xf_mem f')(i := v)\<rparr>)" if "xf_size f' = xf_size f" "i < 7" for f' i v
    unfolding hdr_put_def by (rule cell_put_n) (use that nf in simp)
  have fill: "span_fill (0, 8 * ?n div 8) 0 f = (Inr (), f\<lparr>xf_mem := (\<lambda>i. if i < ?n then 0 else xf_mem f i)\<rparr>)"
    by (subst span_fill_n) (use nf in simp_all)
  have l1: "lt_format 16 (?n, 8 * ?n) f' = (Inr (?n, ?n), f'\<lparr>xf_mem := (\<lambda>i. if ?n \<le> i \<and> i < ?n + ?n then 0 else xf_mem f' i)\<rparr>)"
    if "xf_size f' = xf_size f" for f'
    by (rule lt_format_n) (use nf that in simp_all)
  have l2: "lt_format 8 (2 * ?n, 8 * ?n) f' =
      (Inr (2 * ?n, ?n), f'\<lparr>xf_mem := (\<lambda>i. if 2 * ?n \<le> i \<and> i < 2 * ?n + ?n then 0 else xf_mem f' i)\<rparr>)"
    if "xf_size f' = xf_size f" for f'
    by (rule lt_format_n) (use nf that in simp_all)
  show ?thesis
    apply (simp add: prog_simps d0 fill [simplified] d1 d2 put l1 l2 del: push_bit_of_1)
    apply (rule arg_cong [where f = "rest (?n, ?n)"])
    apply (rule xcow_file.equality; insert nf(2))
       apply (auto simp: fmt_head_def Let_def fun_eq_iff fw simp del: push_bit_of_1)
    done
qed

text \<open>The first snapshot's entry goes into the list of the formatted file.\<close>

lemma fmt_push_snap:
  fixes dl :: u64
  assumes ok: "fmt_ok (xf_size f) fsize cbits hl"
  defines "n \<equiv> fmt_n cbits" and "h \<equiv> fmt_head fsize cbits hl dl f"
  defines "p \<equiv> (bump_hwm h)\<lparr>xf_mem := (\<lambda>i. if 3 * n \<le> i \<and> i < 4 * n then 0 else xf_mem (bump_hwm h) i)\<rparr>"
  shows "sl_push_back (n, n) (encode_snap_entry (of_nat (24 * n)) 1) p = (Inr True, formatted fsize cbits hl dl f)"
proof -
  note nf = fmt_n_facts [OF ok, folded n_def] and hg = fmt_head_geom [OF ok, of dl, folded n_def h_def]
  let ?p1 = "p\<lparr>xf_mem := (xf_mem p)(Suc n := join32 1 0)\<rparr>"
  have e: "lt_end p (n, n) = 0" and w0: "xf_mem p (Suc n) = 0"
    using nf(2) by (simp_all add: p_def lt_end_def bump_hwm_def h_def n_def fmt_head_def Let_def lo32_def)
  have room: "lt_room 2 (n, n) \<noteq> 0" using nf(2) by (simp add: lt_room_def)
  have sz: "xf_size p = xf_size f" by (simp add: p_def bump_hwm_def hg)
  have am: "xf_mem (bump_hwm h) = (xf_mem h)(3 := join32 hl 4)" "xf_snaps (bump_hwm h) = (n, n)" "xf_flist (bump_hwm h) = (2 * n, n)"
    by (simp_all add: bump_hwm_def hg) (simp_all add: h_def n_def fmt_head_def Let_def)
  have cp: "cell_put i v f' = (Inr (), f'\<lparr>xf_mem := (xf_mem f')(i := v)\<rparr>)" if "i \<le> n + 3" "xf_size f' = xf_size f" for i v f'
    by (rule cell_put_n) (use that nf in simp)
  have cg: "cell_get (Suc n) p = (Inr 0, p)"
    using cell_get_n [of "Suc n" p] nf sz w0 by simp
  have "lt_set_end (n, n) 1 p = (Inr (), ?p1)"
    by (simp add: lt_set_end_def prog_simps cg cp sz hi32_def)
  moreover have "sl_put (n, n) 0 (encode_snap_entry (of_nat (24 * n)) 1) ?p1 =
      (Inr (), ?p1\<lparr>xf_mem := (xf_mem ?p1)(Suc (Suc n) := of_nat (24 * n) OR file_valid, Suc (Suc (Suc n)) := 1)\<rparr>)"
    using room nf(2) by (simp add: sl_put_def prog_simps sl_entry_cell_def cp sz encode_snap_entry_def)
  moreover have "?p1\<lparr>xf_mem := (xf_mem ?p1)(Suc (Suc n) := of_nat (24 * n) OR file_valid, Suc (Suc (Suc n)) := 1)\<rparr> = formatted fsize cbits hl dl f"
    using nf(2) sz by (intro xcow_file.equality) (auto simp: p_def formatted_def fmt_mem_def Let_def fun_eq_iff am n_def [symmetric],
      auto simp: h_def n_def fmt_head_def Let_def)
  ultimately show ?thesis using room e by (simp add: sl_push_back_def prog_simps)
qed

lemma xcow_format_n:
  assumes ok: "fmt_ok (xf_size f) fsize cbits hl"
  shows "xcow_format fsize cbits hl dl f = (Inr (), formatted fsize cbits hl dl f)"
proof -
  let ?n = "fmt_n cbits" and ?b = "unat cbits" and ?h = "fmt_head fsize cbits hl dl f"
  note nf = fmt_n_facts [OF ok] and hg = fmt_head_geom [OF ok, of dl] and fw = fmt_words [OF ok]
  let ?a = "bump_hwm ?h" and ?s = "(\<lambda>i. if 3 * ?n \<le> i \<and> i < 4 * ?n then 0 else xf_mem (bump_hwm ?h) i)"
  have h: "hwm_n ?h < unat (hdr_hwm_limit ?h)" using ok hg by (simp add: fmt_ok_def)
  have l1: "l1_clusters ?h = (Inr 1, ?h)"
    by (rule l1_clusters_n [OF hg(1)]) (use ok in \<open>simp_all add: hg l0_cover_bits_def fmt_ok_def fmt_n_def\<close>)
  have al: "alloc_meta_clusters 1 ?h = (Inr (new_off ?h, push_bit ?b 1), ?a)"
    using alloc_meta_cluster_n [of ?h] h by (simp add: alloc_meta_cluster_def hg del: push_bit_of_1)
  have no: "new_off ?h = of_nat (24 * ?n)"
    by (rule word_eq_unatI) (use meta_off_n [OF hg(1) h] fw(4) [of 24] in \<open>simp add: hg new_off_def\<close>)
  have de: "deref (new_off ?h) (push_bit ?b 1) ?a = (Inr (3 * ?n, 8 * ?n), ?a)"
    by (rule deref_n) (use fw(2) fw(4) [of 24] fw(4) [of 8] nf(4) in \<open>simp_all add: no bump_hwm_def hg del: push_bit_of_1\<close>)
  have fi: "span_fill (3 * ?n, ?n) 0 ?a = (Inr (), ?a\<lparr>xf_mem := ?s\<rparr>)"
    by (subst span_fill_n) (use nf in \<open>simp_all add: bump_hwm_def hg\<close>)
  have pu: "sl_push_back (?n, ?n) (encode_snap_entry (new_off ?h) 1) (?a\<lparr>xf_mem := ?s\<rparr>) = (Inr True, formatted fsize cbits hl dl f)"
    unfolding no by (rule fmt_push_snap [OF ok])
  have lt: "\<not> 32 \<le> ?b" using ok by (simp add: fmt_ok_def)
  show ?thesis
    unfolding xcow_format_def Let_def if_not_P [OF lt]
    by (subst fmt_head_n [OF ok]) (simp add: prog_simps l1 al de fi pu nt_make_n del: push_bit_of_1)
qed

section \<open>Opening\<close>

lemma bit_file_valid: "bit file_valid n \<longleftrightarrow> n = 63"
  using bit_xl_valid by (simp add: file_valid_def xl_valid_def)

lemma decode_file_valid:
  fixes off :: u64
  assumes "unat off < 2 ^ 63"
  shows "(off OR file_valid) AND file_decode_mask = off"
proof (rule bit_word_eqI)
  fix n
  have "bit off 63 \<longleftrightarrow> bit (unat off) 63" by (simp add: bit_unsigned_iff)
  also have "\<dots> \<longleftrightarrow> odd (unat off div 2 ^ 63)" by (simp only: bit_iff_odd)
  finally have "\<not> bit off 63" using assms by simp
  moreover assume "n < LENGTH(64)"
  ultimately show "bit ((off OR file_valid) AND file_decode_mask) n = bit off n"
    by (auto simp: file_decode_mask_def bit_and_iff bit_or_iff bit_not_iff bit_file_valid)
qed

text \<open>The entry of the writable snapshot in the list is the offset of its root.\<close>

definition last_entry_ok :: "xcow_file \<Rightarrow> cells \<Rightarrow> nat \<Rightarrow> bool" where
  "last_entry_ok f root d \<longleftrightarrow> unat (xf_mem f (d - 1) AND file_decode_mask) = 8 * fst root"

lemma open_write_n:
  assumes s: "snap_state f root d tk" and e: "last_entry_ok f root d"
  shows "open_write f = (Inr \<lparr>xs_root = root, xs_disk_hwm = Some d\<rparr>, f)"
proof -
  note sd = snap_stateD [OF s]
  let ?i = "lt_end f (xf_snaps f) - 1"
  have ge: "sl_get (xf_snaps f) ?i f = (Inr (xf_mem f (d - 1), xf_mem f d), f)"
    using sl_get_n [OF sd(6,3), of ?i] sd(4,5,8) by simp
  have "deref (xf_mem f (d - 1) AND file_decode_mask) (cluster_size f) f = (Inr (fst root, 8 * csz f), f)"
  proof (rule deref_n)
    show "unat (xf_mem f (d - 1) AND file_decode_mask) = 8 * fst root" using e by (simp add: last_entry_ok_def)
    show "unat (cluster_size f) = 8 * csz f" by (rule cluster_size_n [OF sd(6)])
    show "8 * (fst root + csz f) \<le> unat (xf_size f)"
      using in_file_bytes [OF sd(6) winvD(5) [OF sd(1)]] sd(2) by simp
  qed
  moreover have "(fst root, csz f) = root" using sd(2) by (metis prod.collapse)
  ultimately show ?thesis
    using sd(5) by (simp add: open_write_def prog_simps sl_back_n [OF sd(3,4)] ge [unfolded One_nat_def] decode_snap_entry_def nt_make_n)
qed

lemma formatted_state:
  assumes ok: "fmt_ok (xf_size f) fsize cbits hl"
  shows "snap_state (formatted fsize cbits hl dl f) (3 * fmt_n cbits, fmt_n cbits) (fmt_n cbits + 3) 1"
    "last_entry_ok (formatted fsize cbits hl dl f) (3 * fmt_n cbits, fmt_n cbits) (fmt_n cbits + 3)"
    "leaf_at (formatted fsize cbits hl dl f) (3 * fmt_n cbits, fmt_n cbits) a = empty_leaf \<or>
     \<not> l1_off (formatted fsize cbits hl dl f) a < fmt_n cbits"
proof -
  let ?f = "formatted fsize cbits hl dl f" and ?n = "fmt_n cbits"
  note fg = fmt_geom [OF ok, of dl] and nf = fmt_n_facts [OF ok] and fw = fmt_words [OF ok]
  have mem: "xf_mem ?f = fmt_mem fsize cbits hl dl (xf_mem f)" by (simp add: formatted_def)
  have root: "rref ?f (3 * ?n, ?n) i = 0" if "i < ?n" for i
    using nf(2) that by (auto simp: mem fmt_mem_def Let_def)
  have en: "lt_end ?f (?n, ?n) = 1" using nf(2) by (simp add: lt_end_def mem fmt_mem_def Let_def)
  have dv: "(3 * ?n + i) div ?n = 3" "(?n + 3) div ?n = 1" if "i < ?n" for i
    using that nf(2) by (simp_all add: div_nat_eqI)
  have "root_ok ?f (3 * ?n, ?n)"
    using root by (simp add: root_ok_def fg in_file_def ref_ok_def)
  then have w: "winv ?f (3 * ?n, ?n) (?n + 3)"
    using fg(1) root dv nf(2) by (simp add: winv_def fg)
  show "snap_state ?f (3 * ?n, ?n) (?n + 3) 1"
    using w en ok nf(2)
    by (simp add: snap_state_def tab_ok_def fg lt_room_def sl_entry_cell_def fmt_ok_def l0_cover_bits_def fmt_n_def)
  show "last_entry_ok ?f (3 * ?n, ?n) (?n + 3)"
  proof -
    have "xf_mem ?f (?n + 2) = of_nat (24 * ?n) OR file_valid" using nf(2) by (simp add: mem fmt_mem_def Let_def)
    moreover have "unat (of_nat (24 * ?n) :: u64) = 24 * ?n" by (rule fw(4)) simp
    moreover have "24 * ?n < 2 ^ 63" using nf(3) by simp
    ultimately show ?thesis using decode_file_valid [of "of_nat (24 * ?n)"] by (simp add: last_entry_ok_def)
  qed
  show "leaf_at ?f (3 * ?n, ?n) a = empty_leaf \<or> \<not> l1_off ?f a < ?n"
    using root [of "l1_off ?f a"] by (auto simp: leaf_at_def Let_def)
qed

text \<open>The constructor finds the two lists again.\<close>

lemma xcow_open_formatted:
  assumes ok: "fmt_ok (xf_size f) fsize cbits hl"
  shows "xcow_open (formatted fsize cbits hl dl f) = (Inr (), formatted fsize cbits hl dl f)"
proof -
  let ?f = "formatted fsize cbits hl dl f" and ?n = "fmt_n cbits"
  note fg = fmt_geom [OF ok, of dl] and nf = fmt_n_facts [OF ok] and fw = fmt_words [OF ok]
  have mem: "xf_mem ?f = fmt_mem fsize cbits hl dl (xf_mem f)" by (simp add: formatted_def)
  have sz: "32 * ?n \<le> unat (xf_size ?f)" using nf(4) fg(7) by simp
  have cb: "\<not> hdr_cluster_bits ?f < 12" "\<not> 24 < hdr_cluster_bits ?f"
    using ok fg(2) by (auto simp: word_less_nat_alt cluster_bits_def fmt_ok_def)
  have dec: "lt_decode (encode_snap_ref (of_nat (8 * ?n))) = of_nat (8 * ?n)" "lt_decode (encode_free_ref (of_nat (16 * ?n))) = of_nat (16 * ?n)"
    unfolding lt_decode_def encode_snap_ref_def encode_free_ref_def
    using decode_file_valid [of "of_nat (8 * ?n)"] decode_file_valid [of "of_nat (16 * ?n)"] fw(4) [of 8] fw(4) [of 16] nf(3)
    by simp_all
  have cs: "unat (cluster_size ?f) = 8 * ?n" using cluster_size_n [OF fg(1)] fg(3) by simp
  have d: "deref 0 XcowHeader_size ?f = (Inr (0, 8 * 7), ?f)"
    by (rule deref_n) (use nf sz in \<open>simp_all add: XcowHeader_size_def\<close>)
  have d1: "deref (of_nat (8 * ?n)) (cluster_size ?f) ?f = (Inr (?n, 8 * ?n), ?f)"
    by (rule deref_n) (use fw(4) [of 8] cs sz in simp_all)
  have d2: "deref (of_nat (16 * ?n)) (cluster_size ?f) ?f = (Inr (2 * ?n, 8 * ?n), ?f)"
    by (rule deref_n) (use fw(4) [of 16] cs sz in simp_all)
  have hd: "hdr_magic ?f = XCOW_MAGIC" "hdr_snaplist ?f = encode_snap_ref (of_nat (8 * ?n))"
    "hdr_freelist ?f = encode_free_ref (of_nat (16 * ?n))"
    by (simp_all add: hdr_magic_def hdr_snaplist_def hdr_freelist_def mem fmt_mem_def Let_def)
  have lt: "lt_make 16 (?n, 8 * ?n) ?f = (Inr (?n, ?n), ?f)" "lt_make 8 (2 * ?n, 8 * ?n) ?f = (Inr (2 * ?n, ?n), ?f)"
    using nf by (simp_all add: lt_make_n)
  have id: "?f\<lparr>xf_snaps := (?n, ?n), xf_flist := (2 * ?n, ?n)\<rparr> = ?f" by (simp add: formatted_def)
  show ?thesis
    unfolding xcow_open_def make_hdr_def
    by (simp only: prog_simps d hd dec d1 d2 lt cb id if_False if_True not_not simp_thms prod.case sum.case id_apply)
qed

end
