(* ===== verification/XcowDisk.thy ===== *)
theory XcowDisk
  imports XcowFormat
begin

text \<open>
  Sequences of writes and snapshots. Both operations keep the state a writable snapshot is opened in, and a root that
  is frozen stays frozen; the locale states this contract and what follows from it for every sequence.
\<close>

section \<open>Writes keep the snapshot list\<close>

lemma tw_snaps: "xf_snaps (snd (tw_outcome f root d a)) = xf_snaps f"
  by (simp add: tw_outcome_def Let_def prep_file_def link_new_def)

lemma prep_list_cell:
  assumes w: "winv f root d" and l1: "l1 < snd root" and c: "c div csz f = d div csz f"
  shows "xf_mem (prep_file f root l1) c = xf_mem f c"
proof -
  have d: "d div csz f < hwm_n f" using winvD(4) [OF w] by (simp add: less_mult_imp_div_less)
  have "0 < d div csz f" using winvD(3) [OF w] by (simp add: div_greater_zero_iff)
  then have "c \<noteq> 3" using c low_cell_div [OF winvD(1) [OF w], of 3] by auto
  moreover have "c \<noteq> fst root + l1" using winv_root [OF w l1] c by auto
  ultimately show ?thesis using d c by (simp add: prep_file_def Let_def link_new_other)
qed

lemma prep_k_not_list:
  assumes w: "winv f root d" and l1: "l1 < snd root"
  shows "prep_k f root l1 \<noteq> d div csz f"
proof -
  have d: "d div csz f < hwm_n f" using winvD(4) [OF w] by (simp add: less_mult_imp_div_less)
  then show ?thesis using prep_k_cases [OF l1, of f] winv_ref(1) [OF w l1] by (auto simp: privref_def)
qed

lemma tw_list_cell:
  assumes w: "winv f root d" and l1: "l1_off f a < snd root" and c: "c div csz f = d div csz f" "c \<noteq> d"
  shows "xf_mem (snd (tw_outcome f root d a)) c = xf_mem f c"
  using w l1
proof (cases rule: tw_cases)
  case alloc
  have "c \<noteq> entry_cell f root a"
    using entry_cell_facts(5) [OF w l1 alloc(1)] prep_k_not_list [OF w l1] c(1) by auto
  then show ?thesis using alloc(4) c prep_list_cell [OF w l1 c(1)] by simp
qed (use prep_list_cell [OF w l1 c(1)] in simp_all)

lemma tw_header:
  assumes w: "winv f root d" and l1: "l1_off f a < snd root" and c: "c < 7" "c \<noteq> 3"
  shows "xf_mem (snd (tw_outcome f root d a)) c = xf_mem f c"
proof -
  have p: "xf_mem (prep_file f root (l1_off f a)) c = xf_mem f c" by (rule prep_file_cell [OF w l1]) (use c in simp)
  show ?thesis
    using w l1
  proof (cases rule: tw_cases)
    case alloc
    have "c \<noteq> entry_cell f root a" "c \<noteq> d"
      using entry_cell_facts(2) [OF w l1 alloc(1)] winvD(3) [OF w] geom_csz_ge [OF winvD(1) [OF w]] c by auto
    then show ?thesis using alloc(4) p by simp
  qed (use p in simp_all)
qed

lemma tw_hwm:
  assumes w: "winv f root d" and l1: "l1_off f a < snd root"
  shows "hwm_n (snd (tw_outcome f root d a)) \<le> hwm_n f + 1"
  using w l1
proof (cases rule: tw_cases)
  case alloc
  have "entry_cell f root a \<noteq> 3" "d \<noteq> 3"
    using entry_cell_facts(2) [OF w l1 alloc(1)] winvD(3) [OF w] geom_csz_ge [OF winvD(1) [OF w]] by auto
  then show ?thesis
    using alloc(4) prep_file_geom(3) [OF winvD(1,2) [OF w] l1 alloc(1)] by (simp add: hwm_n_def hdr_hwm_def)
qed (use prep_file_geom(3) [OF winvD(1,2) [OF w] l1] in simp_all)

lemma snap_fsize:
  assumes "snap_state f root d tk"
  shows "0 < unat (hdr_fsize f)" "unat (hdr_fsize f) \<le> csz f * 2 ^ l0_cover_bits f"
  using assms unfolding snap_state_def by blast+

lemma tw_snap_state:
  assumes s: "snap_state f root d tk" and l1: "l1_off f a < snd root"
  shows "snap_state (snd (tw_outcome f root d a)) root d tk"
    "lt_end (snd (tw_outcome f root d a)) (xf_snaps f) = lt_end f (xf_snaps f)"
    "xf_mem (snd (tw_outcome f root d a)) (d - 1) = xf_mem f (d - 1)"
proof -
  let ?f = "snd (tw_outcome f root d a)" and ?t = "xf_snaps f"
  note sd = snap_stateD [OF s] and tg = tw_geom [OF snap_stateD(1) [OF s] l1]
  note sg = same_geom_bits [OF tg(1)]
  have j: "2 + 2 * (lt_end f ?t - 1) + 1 < csz f" by (rule sl_cell_in [OF sd(6)]) (use sd(4,8) in linarith)
  have dc: "d = fst ?t + (2 + 2 * (lt_end f ?t - 1) + 1)" using sd(5) by (simp add: sl_entry_cell_t)
  have cell: "xf_mem ?f (fst ?t + i) = xf_mem f (fst ?t + i)" if "i < csz f" "fst ?t + i \<noteq> d" for i
    by (rule tw_list_cell [OF sd(1) l1]) (use tab_cell(1) [OF sd(6,3) that(1)] sd(7) that(2) in simp_all)
  have one: "xf_mem ?f (fst ?t + 1) = xf_mem f (fst ?t + 1)" by (rule cell) (use geom_csz_ge [OF sd(6)] dc in auto)
  show en: "lt_end ?f ?t = lt_end f ?t" unfolding lt_end_def one ..
  have t': "tab_ok ?f ?t tk" by (rule tab_ok_same [OF sd(3) tg(1,2) one])
  have fs: "hdr_fsize ?f = hdr_fsize f" using tw_header [OF sd(1) l1, of 1] by (simp add: hdr_fsize_def)
  show "snap_state ?f root d tk"
    unfolding snap_state_def tw_snaps sg en fs by (intro conjI tw_winv [OF sd(1) l1] sd(2,4,5) t' snap_fsize [OF s])
  have "d - 1 = fst ?t + (2 + 2 * (lt_end f ?t - 1))" "d - 1 \<noteq> d" using dc by simp_all
  then show "xf_mem ?f (d - 1) = xf_mem f (d - 1)" using cell [of "2 + 2 * (lt_end f ?t - 1)"] j by simp
qed

section \<open>Snapshots keep it too\<close>

lemma snapped_list:
  assumes sr: "snap_room f root d tk"
  shows "xf_snaps (snapped f root d) = xf_snaps f" "lt_end (snapped f root d) (xf_snaps f) = lt_end f (xf_snaps f) + 1"
    "xf_mem (snapped f root d) (new_counter f - 1) = new_off f OR file_valid"
    "xf_mem (snapped f root d) (new_counter f) = xf_mem f d"
proof -
  note st = snap_roomD(1) [OF sr] and h = snap_roomD(2) [OF sr] and room = snap_roomD(3) [OF sr]
  note sd = snap_stateD [OF st] and tc = snap_tab_copied [OF st h] and cg = copied_root_geom [OF snap_stateD(6) [OF st] h, of root]
  have room1: "lt_end (copied_root f root) (xf_snaps f) < csz (copied_root f root) div 2 - 1"
    using room tc(2) same_geom_bits(2) [OF cg(1)] by simp
  show "xf_snaps (snapped f root d) = xf_snaps f" by (simp add: snapped_def pushed_def copied_root_def)
  show "lt_end (snapped f root d) (xf_snaps f) = lt_end f (xf_snaps f) + 1"
    using pushed_end [OF cg(3) tc(1) room1] tc(2) by (simp add: snapped_def)
  show "xf_mem (snapped f root d) (new_counter f - 1) = new_off f OR file_valid"
    "xf_mem (snapped f root d) (new_counter f) = xf_mem f d"
    using tc(2) by (simp_all add: snapped_def pushed_def new_counter_def encode_snap_entry_def)
qed

lemma snapped_fsize:
  assumes sr: "snap_room f root d tk"
  shows "hdr_fsize (snapped f root d) = hdr_fsize f"
proof -
  note sd = snap_stateD [OF snap_roomD(1) [OF sr]]
  have tk: "xf_snaps f = (tk * csz f, csz f)" "0 < tk" "tk < hwm_n f" using sd(3) by (auto simp: tab_ok_def)
  have "xf_mem (snapped f root d) 1 = xf_mem (copied_root f root) 1"
    unfolding snapped_def
    by (rule pushed_cell) (use tk cluster_cell_ge [OF tk(2), of f 0] geom_csz_ge [OF sd(6)] in \<open>auto simp: sl_entry_cell_t\<close>)
  also have "\<dots> = xf_mem f 1" by (rule copied_root_cell) (use low_cell_div [OF sd(6), of 1] tk in simp_all)
  finally show ?thesis by (simp add: hdr_fsize_def)
qed

lemma snapped_state:
  assumes sr: "snap_room f root d tk"
  shows "snap_state (snapped f root d) (new_root f) (new_counter f) tk"
    "last_entry_ok (snapped f root d) (new_root f) (new_counter f)"
proof -
  let ?f = "snapped f root d" and ?t = "xf_snaps f"
  note st = snap_roomD(1) [OF sr] and room = snap_roomD(3) [OF sr]
  note sd = snap_stateD [OF st] and sl = snapped_list [OF sr] and g = snapped_geom [OF sr]
  note sg = same_geom_bits [OF g(1)]
  have tk: "?t = (tk * csz f, csz f)" "0 < tk" "tk < hwm_n f" using sd(3) by (auto simp: tab_ok_def)
  have t': "tab_ok ?f ?t tk" using tk sl(2) g(2) room by (simp add: tab_ok_def sg lt_room_def)
  note fs = snapped_fsize [OF sr]
  have nc: "new_counter f = sl_entry_cell ?t (lt_end f ?t + 1 - 1) + 1" by (simp add: new_counter_def)
  show "snap_state ?f (new_root f) (new_counter f) tk"
    unfolding snap_state_def sl(1,2) sg fs
    by (intro conjI snapped_winv [OF sr] t' nc snap_fsize [OF st]) (simp_all add: new_root_def)
  have "unat (new_off f) = 8 * (hwm_n f * csz f)"
    using meta_off_n [OF sd(6) snap_roomD(2) [OF sr]] by (simp add: new_off_def)
  moreover have "unat (new_off f) < 2 ^ 63" by (rule fresh_cluster(4) [OF sd(6) snap_roomD(2) [OF sr]])
  ultimately show "last_entry_ok ?f (new_root f) (new_counter f)"
    using decode_file_valid [of "new_off f"] by (simp add: last_entry_ok_def sl(3) [unfolded One_nat_def] new_root_def)
qed

text \<open>A root that was frozen before the snapshot is frozen after it, and shows the same.\<close>

lemma snapped_frozen_older:
  assumes sr: "snap_room f root d tk" and fz: "frozen f root d old"
  shows "frozen (snapped f root d) (new_root f) (new_counter f) old"
    "l1_off f b < snd old \<Longrightarrow> leaf_at (snapped f root d) old b = leaf_at f old b"
proof -
  let ?f = "snapped f root d"
  note st = snap_roomD(1) [OF sr]
  note sd = snap_stateD [OF st] and g = snapped_geom [OF sr]
  note sg = same_geom_bits [OF g(1)]
  have ok: "root_ok f old" and cl: "\<And>j. j < snd old \<Longrightarrow> clear_of f root d ((fst old + j) div csz f)"
    and ct: "\<And>j. j < snd old \<Longrightarrow> bit (rref f old j) 63 \<Longrightarrow> clear_of f root d (ref_k f (rref f old j))"
    using fz by (auto simp: frozen_def)
  have nopriv: "\<not> privref ?f (new_root f) i" for i
    using snapped_new_root [OF sr, of i] bit_1_nw by (auto simp: privref_def new_root_def)
  have clear: "clear_of ?f (new_root f) (new_counter f) k" if "clear_of f root d k" for k
    using that nopriv new_counter_div(1) [OF sr] sd(7) by (auto simp: clear_of_def g(2) sg new_root_def)
  have cell: "xf_mem ?f c = xf_mem f c" if "clear_of f root d (c div csz f)" "csz f \<le> c" for c
    by (rule snapped_cell [OF sr]) (use that sd(7) in \<open>auto simp: clear_of_def\<close>)
  have refs: "rref ?f old j = rref f old j" if "j < snd old" for j
    by (rule cell [OF cl [OF that]]) (use ok in \<open>simp add: root_ok_def\<close>)
  have "root_ok ?f old" by (rule same_root_ok [OF g(1) _ refs ok]) (use g(2) in simp)
  then show "frozen ?f (new_root f) (new_counter f) old"
    using cl ct refs clear by (simp add: frozen_def sg)
  assume b: "l1_off f b < snd old"
  let ?r = "rref f old (l1_off f b)"
  have "xf_mem ?f (ref_k f ?r * csz f + l0i f b) = xf_mem f (ref_k f ?r * csz f + l0i f b)" if v: "bit ?r 63"
  proof (rule cell)
    have "ref_ok f ?r" using ok b by (simp add: root_ok_def)
    then show "csz f \<le> ref_k f ?r * csz f + l0i f b" using v by (intro cluster_cell_ge) (simp add: ref_ok_def)
    show "clear_of f root d ((ref_k f ?r * csz f + l0i f b) div csz f)"
      using ct [OF b v] l0i_less [OF sd(6), of b] by simp
  qed
  then show "leaf_at ?f old b = leaf_at f old b" using refs [OF b] by (simp add: leaf_at_def Let_def sg)
qed

section \<open>Dropping a snapshot\<close>

lemma winv_mono:
  assumes w: "winv f root d" and "same_geom f f'" "hwm_n f \<le> hwm_n f'" "geom f'"
    "\<And>i. i < snd root \<Longrightarrow> rref f' root i = rref f root i"
  shows "winv f' root d"
proof -
  note sg = same_geom_bits [OF assms(2)]
  have "root_ok f' root" by (rule same_root_ok [OF assms(2,3,5) winvD(2) [OF w]])
  moreover have "d < hwm_n f' * csz f" using winvD(4) [OF w] mult_le_mono1 [OF assms(3), of "csz f"] by linarith
  ultimately show ?thesis
    using w assms(4,5) unfolding winv_def by (simp add: sg)
qed

section \<open>The contract of a copy-on-write store\<close>

text \<open>What the users of a disk do to it: write to an address, or take a snapshot and go on with the new one.\<close>

datatype 'a disk_op = Write 'a | Snapshot

fun run_ops :: "('f \<Rightarrow> 's \<Rightarrow> 'a \<Rightarrow> 'f) \<Rightarrow> ('f \<Rightarrow> 's \<Rightarrow> 'f \<times> ('s \<times> 's) option) \<Rightarrow>
    'a disk_op list \<Rightarrow> 'f \<times> 's \<times> 's list \<Rightarrow> 'f \<times> 's \<times> 's list" where
  "run_ops wr sn [] st = st"
| "run_ops wr sn (Write a # ops) (f, s, olds) = run_ops wr sn ops (wr f s a, s, olds)"
| "run_ops wr sn (Snapshot # ops) (f, s, olds) =
     run_ops wr sn ops
       (case sn f s of (f', None) \<Rightarrow> (f', s, olds) | (f', Some (s', s0)) \<Rightarrow> (f', s', s0 # olds))"

definition snapshots :: "'a disk_op list \<Rightarrow> nat" where
  "snapshots ops = length (filter (\<lambda>x. x = Snapshot) ops)"

definition addresses :: "'a disk_op list \<Rightarrow> 'a set" where
  "addresses ops = {a. Write a \<in> set ops}"

lemma ops_simps [simp]:
  "snapshots [] = 0" "snapshots (Write a # ops) = snapshots ops" "snapshots (Snapshot # ops) = Suc (snapshots ops)"
  "addresses [] = {}" "addresses (Write a # ops) = insert a (addresses ops)" "addresses (Snapshot # ops) = addresses ops"
  by (auto simp: snapshots_def addresses_def)

locale cow_store =
  fixes inv :: "'f \<Rightarrow> 's \<Rightarrow> bool"
    and frz :: "'f \<Rightarrow> 's \<Rightarrow> 's \<Rightarrow> bool"
    and view :: "'f \<Rightarrow> 's \<Rightarrow> 'a \<Rightarrow> 'v"
    and room :: "'f \<Rightarrow> nat"
    and dm :: "'f \<Rightarrow> 'a \<Rightarrow> bool"
    and wr :: "'f \<Rightarrow> 's \<Rightarrow> 'a \<Rightarrow> 'f"
    and sn :: "'f \<Rightarrow> 's \<Rightarrow> 'f \<times> ('s \<times> 's) option"
  assumes wr_inv: "inv f s \<Longrightarrow> dm f a \<Longrightarrow> inv (wr f s a) s"
    and wr_room: "inv f s \<Longrightarrow> dm f a \<Longrightarrow> room (wr f s a) = room f"
    and wr_dm: "inv f s \<Longrightarrow> dm f a \<Longrightarrow> dm (wr f s a) b = dm f b"
    and wr_frz: "inv f s \<Longrightarrow> dm f a \<Longrightarrow> frz f s old \<Longrightarrow> frz (wr f s a) s old"
    and wr_view: "inv f s \<Longrightarrow> dm f a \<Longrightarrow> frz f s old \<Longrightarrow> dm f b \<Longrightarrow> view (wr f s a) old b = view f old b"
    and sn_none: "inv f s \<Longrightarrow> 0 < room f \<Longrightarrow> sn f s = (f', None) \<Longrightarrow> f' = f"
    and sn_inv: "inv f s \<Longrightarrow> 0 < room f \<Longrightarrow> sn f s = (f', Some (s', s0)) \<Longrightarrow> inv f' s'"
    and sn_room: "inv f s \<Longrightarrow> 0 < room f \<Longrightarrow> sn f s = (f', Some (s', s0)) \<Longrightarrow> room f' + 1 = room f"
    and sn_dm: "inv f s \<Longrightarrow> 0 < room f \<Longrightarrow> sn f s = (f', Some (s', s0)) \<Longrightarrow> dm f' b = dm f b"
    and sn_frz: "inv f s \<Longrightarrow> 0 < room f \<Longrightarrow> sn f s = (f', Some (s', s0)) \<Longrightarrow> frz f' s' s0"
    and sn_view: "inv f s \<Longrightarrow> 0 < room f \<Longrightarrow> sn f s = (f', Some (s', s0)) \<Longrightarrow> dm f b \<Longrightarrow>
      view f' s' b = view f s b \<and> view f' s0 b = view f s b"
    and sn_frz_older: "inv f s \<Longrightarrow> 0 < room f \<Longrightarrow> sn f s = (f', Some (s', s0)) \<Longrightarrow> frz f s old \<Longrightarrow>
      frz f' s' old \<and> (dm f b \<longrightarrow> view f' old b = view f old b)"
begin

text \<open>Every sequence keeps the invariant, and what a frozen snapshot shows.\<close>

lemma run_keeps:
  assumes "inv f s" "\<And>x. x \<in> set olds \<Longrightarrow> frz f s x" "\<And>a. a \<in> addresses ops \<Longrightarrow> dm f a" "snapshots ops \<le> room f"
    and "run_ops wr sn ops (f, s, olds) = (f', s', olds')"
  shows "inv f' s' \<and> (\<forall>x \<in> set olds'. frz f' s' x) \<and> (\<exists>new. olds' = new @ olds) \<and> (\<forall>b. dm f' b = dm f b) \<and>
    (\<forall>x \<in> set olds. \<forall>b. dm f b \<longrightarrow> view f' x b = view f x b)"
  using assms
proof (induction ops arbitrary: f s olds)
  case Nil
  then show ?case by auto
next
  case (Cons op ops)
  note p = Cons.prems(1)
  show ?case
  proof (cases op)
    case (Write a)
    have d: "dm f a" by (rule Cons.prems(3)) (simp add: Write)
    have "inv f' s' \<and> (\<forall>x \<in> set olds'. frz f' s' x) \<and> (\<exists>new. olds' = new @ olds) \<and> (\<forall>b. dm f' b = dm (wr f s a) b) \<and>
      (\<forall>x \<in> set olds. \<forall>b. dm (wr f s a) b \<longrightarrow> view f' x b = view (wr f s a) x b)"
      by (rule Cons.IH [OF wr_inv [OF p d]])
        (use Cons.prems wr_frz [OF p d] wr_dm [OF p d] wr_room [OF p d] in \<open>auto simp: Write\<close>)
    then show ?thesis using wr_dm [OF p d] wr_view [OF p d] Cons.prems(2) by auto
  next
    case Snapshot
    have r: "0 < room f" using Cons.prems(4) by (simp add: Snapshot)
    obtain f1 r1 where sn0: "sn f s = (f1, r1)" by force
    show ?thesis
    proof (cases r1)
      case None
      then have "f1 = f" using sn_none [OF p r] sn0 by simp
      then show ?thesis
        by (intro Cons.IH [OF p]) (use Cons.prems sn0 None in \<open>auto simp: Snapshot\<close>)
    next
      case (Some n)
      obtain s1 s0 where n: "n = (s1, s0)" by force
      note sn1 = sn0 [unfolded Some n]
      have "inv f' s' \<and> (\<forall>x \<in> set olds'. frz f' s' x) \<and> (\<exists>new. olds' = new @ s0 # olds) \<and> (\<forall>b. dm f' b = dm f1 b) \<and>
        (\<forall>x \<in> set (s0 # olds). \<forall>b. dm f1 b \<longrightarrow> view f' x b = view f1 x b)"
        by (rule Cons.IH [OF sn_inv [OF p r sn1]])
          (use Cons.prems sn1 sn_frz [OF p r sn1] sn_frz_older [OF p r sn1] sn_dm [OF p r sn1] sn_room [OF p r sn1]
            in \<open>auto simp: Snapshot\<close>)
      then show ?thesis using sn_dm [OF p r sn1] sn_frz_older [OF p r sn1] Cons.prems(2) by auto
    qed
  qed
qed

text \<open>What was shown when a snapshot was taken, it shows from then on.\<close>

lemma snapshot_is_lasting:
  assumes "inv f s" "sn f s = (f1, Some (s1, s0))" "\<And>a. a \<in> addresses ops \<Longrightarrow> dm f a" "snapshots ops < room f" "dm f b"
    and "run_ops wr sn ops (f1, s1, [s0]) = (f', s', olds')"
  shows "view f' s0 b = view f s b" "inv f' s'"
proof -
  have r: "0 < room f" using assms(4) by simp
  note sn1 = sn_inv [OF assms(1) r assms(2)] sn_frz [OF assms(1) r assms(2)] sn_dm [OF assms(1) r assms(2)]
    sn_view [OF assms(1) r assms(2) assms(5)]
  have "snapshots ops \<le> room f1" using assms(4) sn_room [OF assms(1) r assms(2)] by linarith
  then have "inv f' s' \<and> (\<forall>x \<in> set [s0]. \<forall>b. dm f1 b \<longrightarrow> view f' x b = view f1 x b)"
    using run_keeps [OF sn1(1), of "[s0]" ops f' s' olds'] sn1(2,3) assms(3,6) by auto
  then show "view f' s0 b = view f s b" "inv f' s'" using sn1(3,4) assms(5) by auto
qed

end

section \<open>The disk is such a store\<close>

definition disk_inv :: "xcow_file \<Rightarrow> xcow_snap \<Rightarrow> bool" where
  "disk_inv f s \<longleftrightarrow> (\<exists>d tk. xs_disk_hwm s = Some d \<and> snap_state f (xs_root s) d tk \<and> last_entry_ok f (xs_root s) d)"

definition disk_frozen :: "xcow_file \<Rightarrow> xcow_snap \<Rightarrow> xcow_snap \<Rightarrow> bool" where
  "disk_frozen f s old \<longleftrightarrow>
     (\<exists>d. xs_disk_hwm s = Some d \<and> frozen f (xs_root s) d (xs_root old)) \<and> snd (xs_root old) = csz f"

definition disk_view :: "xcow_file \<Rightarrow> xcow_snap \<Rightarrow> u64 \<Rightarrow> u64 result" where
  "disk_view f s b = fst (translate_read s b f)"

definition on_disk :: "xcow_file \<Rightarrow> u64 \<Rightarrow> bool" where
  "on_disk f a \<longleftrightarrow> l1_off f a < csz f"

definition list_room :: "xcow_file \<Rightarrow> nat" where
  "list_room f = csz f div 2 - 1 - lt_end f (xf_snaps f)"

definition disk_write :: "xcow_file \<Rightarrow> xcow_snap \<Rightarrow> u64 \<Rightarrow> xcow_file" where
  "disk_write f s a = snd (translate_write s a f)"

definition disk_snap :: "xcow_file \<Rightarrow> xcow_snap \<Rightarrow> xcow_file \<times> (xcow_snap \<times> xcow_snap) option" where
  "disk_snap f s = (case snap_create s f of (Inl e, f') \<Rightarrow> (f', None) | (Inr r, f') \<Rightarrow> (f', Some r))"

lemma disk_invE:
  assumes "disk_inv f s"
  obtains d tk where "xs_disk_hwm s = Some d" "snap_state f (xs_root s) d tk" "last_entry_ok f (xs_root s) d"
    "snd (xs_root s) = csz f" "winv f (xs_root s) d"
  using assms snap_stateD(1,2) by (auto simp: disk_inv_def)

lemma snap_create_full:
  assumes st: "snap_state f (xs_root s) d tk" and h: "\<not> hwm_n f < unat (hdr_hwm_limit f)"
  shows "snap_create s f = (Inl Hwm_exception, f)"
proof -
  have l1: "l1_clusters f = (Inr 1, f)" by (rule l1_clusters_n [OF snap_stateD(6) [OF st] snap_fsize [OF st]])
  have "alloc_meta_clusters 1 f = (Inl Hwm_exception, f)"
    using alloc_meta_cluster_n [of f] h by (simp add: alloc_meta_cluster_def)
  then show ?thesis by (simp add: snap_create_def prog_simps l1)
qed

lemma disk_snap_cases:
  assumes st: "snap_state f (xs_root s) d tk" and r: "0 < list_room f"
  obtains "hwm_n f < unat (hdr_hwm_limit f)" "snap_room f (xs_root s) d tk"
      "disk_snap f s = (snapped f (xs_root s) d,
         Some (\<lparr>xs_root = new_root f, xs_disk_hwm = Some (new_counter f)\<rparr>, s\<lparr>xs_disk_hwm := None\<rparr>))"
  | "\<not> hwm_n f < unat (hdr_hwm_limit f)" "disk_snap f s = (f, None)"
proof (cases "hwm_n f < unat (hdr_hwm_limit f)")
  case True
  have room: "lt_end f (xf_snaps f) < csz f div 2 - 1" using r by (simp add: list_room_def)
  then have "snap_room f (xs_root s) d tk" using st True by (simp add: snap_room_def)
  then show ?thesis
    using that True snap_create_n [OF st True room] by (simp add: disk_snap_def new_root_def new_counter_def)
next
  case False
  then show ?thesis using that snap_create_full [OF st False] by (simp add: disk_snap_def)
qed

lemma disk_view_leaf:
  "geom f \<Longrightarrow> root_ok f (xs_root s) \<Longrightarrow> l1_off f b < snd (xs_root s) \<Longrightarrow> disk_view f s b = Inr (leaf_at f (xs_root s) b)"
  by (simp add: disk_view_def translate_read_n)

text \<open>A read never changes the file.\<close>

lemma translate_read_file: "snd (translate_read s b f) = f"
  by (auto simp: translate_read_def nt_next_def span_get_def cell_get_def deref_def nt_make_def XcowFmt.convert_span_def l0_off_def
      l0_cover_size_def sbind_def split: prod.splits sum.splits if_splits option.splits)

text \<open>What a write does to the disk, and what a snapshot does.\<close>

lemma disk_write_laws:
  assumes i: "disk_inv f s" and a: "on_disk f a"
  shows "disk_inv (disk_write f s a) s" "list_room (disk_write f s a) = list_room f"
    "on_disk (disk_write f s a) b = on_disk f b"
    "disk_frozen f s old \<Longrightarrow> disk_frozen (disk_write f s a) s old"
    "disk_frozen f s old \<Longrightarrow> on_disk f b \<Longrightarrow> disk_view (disk_write f s a) old b = disk_view f old b"
proof -
  from i obtain d tk where d: "xs_disk_hwm s = Some d" and st: "snap_state f (xs_root s) d tk"
    and le: "last_entry_ok f (xs_root s) d" and sz: "snd (xs_root s) = csz f" and w: "winv f (xs_root s) d" by (rule disk_invE)
  have l1: "l1_off f a < snd (xs_root s)" using a sz by (simp add: on_disk_def)
  have eq: "disk_write f s a = snd (tw_outcome f (xs_root s) d a)"
    by (simp add: disk_write_def translate_write_n [OF w d l1])
  note ts = tw_snap_state [OF st l1] and sg = same_geom_bits [OF tw_geom(1) [OF w l1]]
  show "disk_inv (disk_write f s a) s"
    using ts(1,3) d le by (auto simp: disk_inv_def eq last_entry_ok_def)
  show "list_room (disk_write f s a) = list_room f" by (simp add: list_room_def eq sg tw_snaps ts(2))
  show "on_disk (disk_write f s a) b = on_disk f b" by (simp add: on_disk_def eq sg)
  show "disk_frozen (disk_write f s a) s old" if "disk_frozen f s old"
    using frozen_write(1) [OF w l1] that d by (auto simp: disk_frozen_def eq sg)
  show "disk_view (disk_write f s a) old b = disk_view f old b" if fz: "disk_frozen f s old" and b: "on_disk f b"
  proof -
    have fr: "frozen f (xs_root s) d (xs_root old)" "snd (xs_root old) = csz f" using fz d by (auto simp: disk_frozen_def)
    have lb: "l1_off f b < snd (xs_root old)" using b fr(2) by (simp add: on_disk_def)
    have ok: "root_ok f (xs_root old)" "root_ok (disk_write f s a) (xs_root old)"
      using fr(1) frozen_write(1) [OF w l1 fr(1)] by (simp_all add: frozen_def eq)
    have g: "geom (disk_write f s a)" using tw_winv [OF w l1] by (simp add: eq winvD)
    show ?thesis
      using disk_view_leaf [OF winvD(1) [OF w] ok(1) lb] disk_view_leaf [OF g ok(2), of b] lb frozen_write(2) [OF w l1 fr(1) lb]
      by (simp add: eq sg)
  qed
qed

lemma disk_snap_laws:
  assumes i: "disk_inv f s" and r: "0 < list_room f" and sn: "disk_snap f s = (f', Some (s', s0))"
  shows "disk_inv f' s'" "list_room f' + 1 = list_room f" "on_disk f' b = on_disk f b" "disk_frozen f' s' s0"
    "on_disk f b \<Longrightarrow> disk_view f' s' b = disk_view f s b \<and> disk_view f' s0 b = disk_view f s b"
    "disk_frozen f s old \<Longrightarrow> disk_frozen f' s' old \<and> (on_disk f b \<longrightarrow> disk_view f' old b = disk_view f old b)"
proof -
  from i obtain d tk where d: "xs_disk_hwm s = Some d" and st: "snap_state f (xs_root s) d tk"
    and le: "last_entry_ok f (xs_root s) d" and sz: "snd (xs_root s) = csz f" and w: "winv f (xs_root s) d" by (rule disk_invE)
  obtain sr: "snap_room f (xs_root s) d tk" and eq: "f' = snapped f (xs_root s) d"
    "s' = \<lparr>xs_root = new_root f, xs_disk_hwm = Some (new_counter f)\<rparr>" "s0 = s\<lparr>xs_disk_hwm := None\<rparr>"
    using st r by (cases rule: disk_snap_cases) (use sn in auto)
  note ss = snapped_state [OF sr] and sl = snapped_list [OF sr] and sg = same_geom_bits [OF snapped_geom(1) [OF sr]]
  note w' = snapped_winv [OF sr] and g' = snapped_geom(3) [OF sr] and fz = snapped_frozen [OF sr]
  have nr: "snd (new_root f) = csz f" by (simp add: new_root_def)
  show "disk_inv f' s'" using ss by (auto simp: disk_inv_def eq)
  show "list_room f' + 1 = list_room f"
    using snap_roomD(3) [OF sr] by (simp add: list_room_def eq sl sg)
  show "on_disk f' b = on_disk f b" by (simp add: on_disk_def eq sg)
  show "disk_frozen f' s' s0" using fz sz by (simp add: disk_frozen_def eq sg)
  show "disk_view f' s' b = disk_view f s b \<and> disk_view f' s0 b = disk_view f s b" if b: "on_disk f b"
  proof -
    have lb: "l1_off f b < csz f" using b by (simp add: on_disk_def)
    have ok: "root_ok f' (new_root f)" "root_ok f' (xs_root s)" using winvD(2) [OF w'] fz by (simp_all add: eq frozen_def)
    show ?thesis
      using disk_view_leaf [OF winvD(1,2) [OF w], of b] disk_view_leaf [of f' s' b] disk_view_leaf [of f' s0 b]
        ok g' snapped_leaf [OF sr lb] lb sz nr by (simp add: eq sg)
  qed
  assume of: "disk_frozen f s old"
  have fr: "frozen f (xs_root s) d (xs_root old)" "snd (xs_root old) = csz f" using of d by (auto simp: disk_frozen_def)
  note fo = snapped_frozen_older [OF sr fr(1)]
  have "disk_view f' old b = disk_view f old b" if "on_disk f b"
  proof -
    have lb: "l1_off f b < snd (xs_root old)" using that fr(2) by (simp add: on_disk_def)
    have ok: "root_ok f (xs_root old)" "root_ok f' (xs_root old)" using fr(1) fo(1) by (simp_all add: frozen_def eq)
    show ?thesis
      using disk_view_leaf [OF winvD(1) [OF w] ok(1) lb] disk_view_leaf [of f' old b] ok(2) g' fo(2) [OF lb] lb
      by (simp add: eq sg)
  qed
  then show "disk_frozen f' s' old \<and> (on_disk f b \<longrightarrow> disk_view f' old b = disk_view f old b)"
    using fo(1) fr(2) by (simp add: disk_frozen_def eq sg)
qed

lemma disk_snap_none: "disk_inv f s \<Longrightarrow> 0 < list_room f \<Longrightarrow> disk_snap f s = (f', None) \<Longrightarrow> f' = f"
  by (erule disk_invE, erule disk_snap_cases) auto

interpretation xdisk: cow_store disk_inv disk_frozen disk_view list_room on_disk disk_write disk_snap
  by unfold_locales (rule disk_write_laws disk_snap_laws disk_snap_none; assumption)+

end
