(* ===== verification/XcowPeel.thy ===== *)
theory XcowPeel
  imports XcowDisk
begin

text \<open>
  Dropping the newest snapshot (\<open>XcowFile::peel\<close>), after it has been written to: the snapshot it was taken of is the writable
  one again, and shows what it showed then.
\<close>

section \<open>The last entry of the list\<close>

definition popped :: "xcow_file \<Rightarrow> xcow_file" where
  "popped f =
     (let t = xf_snaps f; n = lt_end f t - 1
      in f\<lparr>xf_mem := (xf_mem f)(fst t + 1 := join32 (of_nat n) (hi32 (xf_mem f (fst t + 1))),
           sl_entry_cell t n := 0, sl_entry_cell t n + 1 := 0)\<rparr>)"

lemma peel_n:
  assumes st: "snap_state f root d tk" and n: "1 < lt_end f (xf_snaps f)" and s: "xs_disk_hwm s = Some d"
  shows "peel s f = (Inr (), popped f)"
proof -
  let ?t = "xf_snaps f" and ?n = "lt_end f (xf_snaps f) - 1"
  note sd = snap_stateD [OF st]
  have act: "sl_active ?t f = (Inr (lt_end f ?t), f)" by (rule sl_active_n [OF sd(3)])
  have lt: "?n < csz f div 2 - 1" using sd(4,8) by linarith
  have room: "lt_room 2 ?t = csz f div 2 - 1" using sd(3) by (auto simp: tab_ok_def room_n)
  have j: "2 + 2 * ?n + 1 < csz f" by (rule sl_cell_in [OF sd(6) lt])
  have b: "8 * (fst ?t + 1) + 8 \<le> unat (xf_size f)" "8 * sl_entry_cell ?t ?n + 8 \<le> unat (xf_size f)"
    "8 * (sl_entry_cell ?t ?n + 1) + 8 \<le> unat (xf_size f)"
    using tab_cell(2) [OF sd(6,3), of 1] tab_cell(2) [OF sd(6,3), of "2 + 2 * ?n"] tab_cell(2) [OF sd(6,3), of "2 + 2 * ?n + 1"] j
    by (simp_all add: sl_entry_cell_t)
  have "sl_pop_back ?t f = (Inr False, popped f)"
    using b lt room n
    by (simp add: sl_pop_back_def prog_simps lt_set_end_def cell_get_n cell_put_n sl_put_def popped_def Let_def)
  then show ?thesis using act n s by (simp add: peel_def prog_simps)
qed

text \<open>Only the table of the list changes.\<close>

lemma popped_cell:
  assumes st: "snap_state f root d tk" and c: "c div csz f \<noteq> tk"
  shows "xf_mem (popped f) c = xf_mem f c"
proof -
  let ?t = "xf_snaps f" and ?n = "lt_end f (xf_snaps f) - 1"
  note sd = snap_stateD [OF st]
  have j: "2 + 2 * ?n + 1 < csz f" by (rule sl_cell_in [OF sd(6)]) (use sd(4,8) in linarith)
  have "c \<noteq> fst ?t + 1" "c \<noteq> sl_entry_cell ?t ?n" "c \<noteq> sl_entry_cell ?t ?n + 1"
    using c tab_cell(1) [OF sd(6,3), of 1] tab_cell(1) [OF sd(6,3), of "2 + 2 * ?n"]
      tab_cell(1) [OF sd(6,3), of "2 + 2 * ?n + 1"] j geom_csz_ge [OF sd(6)]
    by (auto simp: sl_entry_cell_t)
  then show ?thesis by (simp add: popped_def Let_def)
qed

lemma popped_geom:
  assumes st: "snap_state f root d tk"
  shows "i < 7 \<Longrightarrow> xf_mem (popped f) i = xf_mem f i" "same_geom f (popped f)" "hwm_n (popped f) = hwm_n f" "xf_snaps (popped f) = xf_snaps f"
proof -
  note sd = snap_stateD [OF st]
  have low: "xf_mem (popped f) i = xf_mem f i" if "i < 7" for i
    by (rule popped_cell [OF st]) (use low_cell_div [OF sd(6) that] sd(3) in \<open>simp add: tab_ok_def\<close>)
  then show "i < 7 \<Longrightarrow> xf_mem (popped f) i = xf_mem f i" .
  show "xf_snaps (popped f) = xf_snaps f" by (simp add: popped_def Let_def)
  have "xf_size (popped f) = xf_size f" by (simp add: popped_def Let_def)
  then show "same_geom f (popped f)" "hwm_n (popped f) = hwm_n f"
    using low [of 2] low [of 3] by (simp_all add: same_geom_def hwm_n_def hdr_hwm_def hdr_hwm_limit_def)
qed

section \<open>What the newest snapshot leaves alone\<close>

text \<open>
  A file with one entry more in its list, in which the old root reaches what it reached, and the old entry and the header, up to
  the metadata counter, are as they were.
\<close>

definition newer :: "xcow_file \<Rightarrow> cells \<Rightarrow> nat \<Rightarrow> xcow_file \<Rightarrow> bool" where
  "newer f root d f' \<longleftrightarrow> same_geom f f' \<and> hwm_n f \<le> hwm_n f' \<and> geom f' \<and> xf_snaps f' = xf_snaps f \<and> xf_flist f' = xf_flist f \<and>
     lt_end f' (xf_snaps f) = lt_end f (xf_snaps f) + 1 \<and> (\<forall>i < 7. i \<noteq> 3 \<longrightarrow> xf_mem f' i = xf_mem f i) \<and>
     xf_mem f' (d - 1) = xf_mem f (d - 1) \<and> xf_mem f' d = xf_mem f d \<and> (\<forall>i < snd root. rref f' root i = rref f root i) \<and>
     (\<forall>b. l1_off f b < csz f \<longrightarrow> leaf_at f' root b = leaf_at f root b)"

lemma newerD:
  assumes "newer f root d f'"
  shows "same_geom f f'" "hwm_n f \<le> hwm_n f'" "geom f'" "xf_snaps f' = xf_snaps f" "xf_flist f' = xf_flist f"
    "lt_end f' (xf_snaps f) = lt_end f (xf_snaps f) + 1" "i < 7 \<Longrightarrow> i \<noteq> 3 \<Longrightarrow> xf_mem f' i = xf_mem f i"
    "xf_mem f' (d - 1) = xf_mem f (d - 1)" "xf_mem f' d = xf_mem f d" "i < snd root \<Longrightarrow> rref f' root i = rref f root i"
    "l1_off f b < csz f \<Longrightarrow> leaf_at f' root b = leaf_at f root b"
  using assms unfolding newer_def by blast+

text \<open>A snapshot makes such a file.\<close>

lemma newer_snapped:
  assumes sr: "snap_room f root d tk"
  shows "newer f root d (snapped f root d)"
proof -
  let ?f = "snapped f root d" and ?t = "xf_snaps f" and ?n = "lt_end f (xf_snaps f)"
  note st = snap_roomD(1) [OF sr] and h = snap_roomD(2) [OF sr] and g = snapped_geom [OF sr] and sl = snapped_list [OF sr]
  note sd = snap_stateD [OF st] and tc = snap_tab_copied [OF st h]
  have n: "?n < csz f div 2 - 1" by (rule snap_roomD(3) [OF sr])
  have j: "2 + 2 * ?n + 1 < csz f" by (rule sl_cell_in [OF sd(6) n])
  have tk: "?t = (tk * csz f, csz f)" "0 < tk" "tk < hwm_n f" using sd(3) by (auto simp: tab_ok_def)
  have big: "512 \<le> fst ?t" using tab_cell(3) [OF sd(6,3), of 0] geom_csz_ge [OF sd(6)] by linarith
  have entry: "xf_mem ?f (fst ?t + (2 + i)) = xf_mem f (fst ?t + (2 + i))" if "i < 2 * ?n" for i
  proof -
    have "xf_mem ?f (fst ?t + (2 + i)) = xf_mem (copied_root f root) (fst ?t + (2 + i))"
      unfolding snapped_def by (rule pushed_cell) (use that tc(2) in \<open>auto simp: sl_entry_cell_t\<close>)
    also have "\<dots> = xf_mem f (fst ?t + (2 + i))" by (rule tc(3)) (use j that in simp)
    finally show ?thesis .
  qed
  have low: "xf_mem ?f i = xf_mem f i" if "i < 7" "i \<noteq> 3" for i
  proof -
    have "xf_mem ?f i = xf_mem (copied_root f root) i"
      unfolding snapped_def
      by (rule pushed_cell) (use big that in \<open>auto simp: sl_entry_cell_t\<close>)
    also have "\<dots> = xf_mem f i" by (rule copied_root_cell) (use low_cell_div [OF sd(6) that(1)] tk that in simp_all)
    finally show ?thesis .
  qed
  have d: "d - 1 = fst ?t + (2 + (2 * ?n - 2))" "d = fst ?t + (2 + (2 * ?n - 1))"
    using sd(4,5) by (simp_all add: sl_entry_cell_t)
  have "xf_mem ?f (d - 1) = xf_mem f (d - 1)" "xf_mem ?f d = xf_mem f d"
    using entry [of "2 * ?n - 2"] entry [of "2 * ?n - 1"] sd(4) unfolding d [symmetric] by simp_all
  moreover have "xf_flist ?f = xf_flist f" by (simp add: snapped_def pushed_def copied_root_def)
  ultimately show ?thesis
    using g sl(1,2) low snapped_old_root [OF sr] snapped_leaf(2) [OF sr] by (simp add: newer_def)
qed

text \<open>A write to the newest snapshot keeps it so.\<close>

lemma newer_write:
  assumes nw: "newer f root d f'" and st0: "snap_state f root d tk0" and st: "snap_state f' r1 d1 tk" and fz: "frozen f' r1 d1 root"
    and l1: "l1_off f' a < snd r1"
  shows "newer f root d (snd (tw_outcome f' r1 d1 a))"
proof -
  let ?f = "snd (tw_outcome f' r1 d1 a)" and ?t = "xf_snaps f" and ?n = "lt_end f (xf_snaps f)"
  note n = newerD [OF nw] and sd0 = snap_stateD [OF st0] and sd = snap_stateD [OF st]
  note w = sd(1) and tg = tw_geom [OF sd(1) l1] and ts = tw_snap_state [OF st l1]
  note sg = same_geom_bits [OF n(1)]
  have d1: "d1 = fst ?t + (2 + 2 * ?n + 1)" using sd(5) n(4,6) by (simp add: sl_entry_cell_t)
  have d: "d = fst ?t + (2 * ?n + 1)" "0 < ?n" using sd0(4,5) by (simp_all add: sl_entry_cell_t)
  have j: "2 + 2 * ?n + 1 < csz f'" by (rule sl_cell_in [OF sd(6)]) (use sd(8) n(4,6) in simp)
  have list: "xf_mem ?f c = xf_mem f' c" if "c = fst ?t + i" "i < 2 + 2 * ?n" for c i
    by (rule tw_list_cell [OF w l1]) (use tab_cell(1) [OF sd(6,3), of i] n(4) that j sd(7) d1 in simp_all)
  have "same_geom f ?f" "hwm_n f \<le> hwm_n ?f" "geom ?f"
    using n(1,2) tg winvD(1) [OF tw_winv [OF w l1]] by (auto simp: same_geom_def)
  moreover have "xf_flist ?f = xf_flist f" using n(5) by (simp add: tw_outcome_def Let_def prep_file_def link_new_def)
  moreover have "xf_mem ?f (d - 1) = xf_mem f (d - 1)" "xf_mem ?f d = xf_mem f d"
    using list [of "d - 1" "2 * ?n"] list [of d "2 * ?n + 1"] d n(8,9) by simp_all
  moreover have "rref ?f root i = rref f root i" if "i < snd root" for i
  proof -
    have "clear_of f' r1 d1 ((fst root + i) div csz f')" "csz f' \<le> fst root + i" using fz that by (auto simp: frozen_def root_ok_def)
    then show ?thesis using tw_frame [OF w l1] n(10) [OF that] by simp
  qed
  moreover have "leaf_at ?f root b = leaf_at f root b" if "l1_off f b < csz f" for b
    using frozen_write(2) [OF w l1 fz, of b] n(11) [OF that] that sd0(2) by (simp add: sg)
  moreover have "xf_mem ?f i = xf_mem f i" if "i < 7" "i \<noteq> 3" for i
    using tw_header [OF w l1 that] n(7) [OF that] by simp
  ultimately show ?thesis using ts(2) n(4,6) by (simp add: newer_def tw_snaps)
qed

section \<open>Back to the older snapshot\<close>

lemma popped_state:
  assumes nw: "newer f root d f'" and st0: "snap_state f root d tk" and le: "last_entry_ok f root d" and st: "snap_state f' r1 d1 tk1"
  shows "snap_state (popped f') root d tk" "last_entry_ok (popped f') root d" "xf_mem (popped f') d = xf_mem f d"
    "l1_off f b < csz f \<Longrightarrow> leaf_at (popped f') root b = leaf_at f root b"
proof -
  let ?p = "popped f'" and ?t = "xf_snaps f" and ?n = "lt_end f (xf_snaps f)"
  note n = newerD [OF nw] and sd0 = snap_stateD [OF st0] and sd = snap_stateD [OF st] and pg = popped_geom [OF st]
  note sg1 = same_geom_bits [OF n(1)]
  have same: "same_geom f ?p" using n(1) pg(2) by (simp add: same_geom_def)
  note sg = same_geom_bits [OF same]
  have "tab_ok f' ?t tk1" using sd(3) n(4) by simp
  then have tk: "tk1 = tk" "?t = (tk * csz f, csz f)" "0 < tk" using sd0(3) geom_csz_ge [OF sd0(6)] by (auto simp: tab_ok_def sg1)
  have out: "xf_mem ?p c = xf_mem f' c" if "c div csz f \<noteq> tk" for c
    by (rule popped_cell [OF st]) (use that tk(1) sg1 in simp)
  have gp: "geom ?p" by (rule same_geom_geom [OF pg(2) n(3)]) (use pg(3) n(3) in \<open>simp_all add: geom_def hwm_n_def\<close>)
  have refs: "rref ?p root i = rref f root i" if "i < snd root" for i
    using out [of "fst root + i"] winv_root [OF sd0(1) that] sd0(7) n(10) [OF that] by simp
  have w: "winv ?p root d" by (rule winv_mono [OF sd0(1) same _ gp refs]) (use pg(3) n(2) in simp_all)
  have one: "xf_mem ?p (fst ?t + 1) = join32 (of_nat ?n) (hi32 (xf_mem f' (fst ?t + 1)))"
    using n(4,6) by (simp add: popped_def Let_def sl_entry_cell_t)
  have "csz f \<le> 2 ^ 13" by (rule csz_le [OF sd0(6)])
  then have "unat (of_nat ?n :: u32) = ?n" using sd0(8) by (simp only: unat_of_nat) simp
  then have en: "lt_end ?p ?t = ?n" unfolding lt_end_def [of ?p] one by (simp only: lo_join)
  have "tk < hwm_n ?p" using sd0(3) pg(3) n(2) by (auto simp: tab_ok_def)
  then have t': "tab_ok ?p ?t tk" using tk en sd0(3) by (simp add: tab_ok_def sg)
  have xs: "xf_snaps ?p = ?t" using pg(4) n(4) by simp
  have fs: "hdr_fsize ?p = hdr_fsize f" using pg(1) [of 1] n(7) [of 1] by (simp add: hdr_fsize_def)
  show "snap_state ?p root d tk"
    unfolding snap_state_def xs sg en fs by (intro conjI w sd0(2,4,5) t' snap_fsize [OF st0])
  have "xf_mem ?p (d - 1) = xf_mem f' (d - 1)" "xf_mem ?p d = xf_mem f' d"
    using sd0(4,5) n(4,6) by (auto simp: popped_def Let_def sl_entry_cell_t)
  then show "last_entry_ok ?p root d" "xf_mem ?p d = xf_mem f d" using le n(8,9) by (simp_all add: last_entry_ok_def)
  assume b: "l1_off f b < csz f"
  then have lb: "l1_off f b < snd root" using sd0(2) by simp
  let ?r = "rref f root (l1_off f b)"
  have "xf_mem ?p (ref_k f ?r * csz f + l0i f b) = xf_mem f' (ref_k f ?r * csz f + l0i f b)" if v: "bit ?r 63"
    using out [of "ref_k f ?r * csz f + l0i f b"] winv_ref(1) [OF sd0(1) lb v] sd0(7) l0i_less [OF sd0(6), of b] by simp
  then have "leaf_at ?p root b = leaf_at f' root b" using refs [OF lb] n(10) [OF lb] by (simp add: leaf_at_def Let_def sg sg1)
  then show "leaf_at ?p root b = leaf_at f root b" using n(11) [OF b] by simp
qed

section \<open>Snapshot, writes, and back\<close>

text \<open>A sequence of writes to a snapshot, successful or not.\<close>

definition disk_writes :: "xcow_snap \<Rightarrow> u64 list \<Rightarrow> xcow_file \<Rightarrow> xcow_file" where
  "disk_writes s as f = fold (\<lambda>a f. disk_write f s a) as f"

lemma newer_writes:
  assumes "newer f root d f1" "snap_state f root d tk" "disk_inv f1 s1" "disk_frozen f1 s1 s" "xs_root s = root" "\<And>a. a \<in> set as \<Longrightarrow> on_disk f1 a"
  shows "newer f root d (disk_writes s1 as f1) \<and> disk_inv (disk_writes s1 as f1) s1"
  using assms
proof (induction as arbitrary: f1)
  case (Cons a as)
  from Cons.prems(3) obtain d1 tk1 where d1: "xs_disk_hwm s1 = Some d1" and st: "snap_state f1 (xs_root s1) d1 tk1"
    and sz: "snd (xs_root s1) = csz f1" and w: "winv f1 (xs_root s1) d1" by (rule disk_invE)
  have a: "on_disk f1 a" using Cons.prems(6) by simp
  then have l1: "l1_off f1 a < snd (xs_root s1)" using sz by (simp add: on_disk_def)
  have eq: "disk_write f1 s1 a = snd (tw_outcome f1 (xs_root s1) d1 a)" by (simp add: disk_write_def translate_write_n [OF w d1 l1])
  have "frozen f1 (xs_root s1) d1 root" using Cons.prems(4,5) d1 by (auto simp: disk_frozen_def)
  from newer_write [OF Cons.prems(1,2) st this l1] have "newer f root d (disk_write f1 s1 a)" unfolding eq .
  from Cons.IH [OF this Cons.prems(2) disk_write_laws(1) [OF Cons.prems(3) a] disk_write_laws(4) [OF Cons.prems(3) a Cons.prems(4)] Cons.prems(5)]
  show ?case using Cons.prems(6) disk_write_laws(3) [OF Cons.prems(3) a] by (simp add: disk_writes_def)
qed (simp add: disk_writes_def)

lemma peel_reverts:
  assumes i: "disk_inv f s" and room: "0 < list_room f" and cr: "snap_create s f = (Inr (s1, s0), f1)" and as: "\<And>a. a \<in> set as \<Longrightarrow> on_disk f a"
  defines "f2 \<equiv> disk_writes s1 as f1" and "f3 \<equiv> popped (disk_writes s1 as f1)"
  shows "disk_inv f2 s1" "peel s1 f2 = (Inr (), f3)" "open_write f3 = (Inr s, f3)" "disk_inv f3 s" "on_disk f b \<Longrightarrow> disk_view f3 s b = disk_view f s b"
    "list_room f3 = list_room f" "on_disk f3 b = on_disk f b" "xf_mem f3 (the (xs_disk_hwm s)) = xf_mem f (the (xs_disk_hwm s))"
    "k < 7 \<Longrightarrow> k \<noteq> 3 \<Longrightarrow> xf_mem f3 k = xf_mem f k \<and> xf_mem f2 k = xf_mem f k"
    "xf_size f3 = xf_size f \<and> xf_size f2 = xf_size f" "xf_snaps f3 = xf_snaps f \<and> xf_snaps f2 = xf_snaps f" "xf_flist f3 = xf_flist f \<and> xf_flist f2 = xf_flist f"
proof -
  from i obtain d tk where d: "xs_disk_hwm s = Some d" and st: "snap_state f (xs_root s) d tk"
    and le: "last_entry_ok f (xs_root s) d" and sz: "snd (xs_root s) = csz f" and w: "winv f (xs_root s) d" by (rule disk_invE)
  have sn: "disk_snap f s = (f1, Some (s1, s0))" using cr by (simp add: disk_snap_def)
  obtain sr: "snap_room f (xs_root s) d tk" and eq: "f1 = snapped f (xs_root s) d" "s0 = s\<lparr>xs_disk_hwm := None\<rparr>"
    using st room by (cases rule: disk_snap_cases) (use sn in auto)
  note laws = disk_snap_laws [OF i room sn]
  have fz: "disk_frozen f1 s1 s" using laws(4) eq(2) by (simp add: disk_frozen_def)
  have nw: "newer f (xs_root s) d f2" and i2: "disk_inv f2 s1"
    using newer_writes [OF newer_snapped [OF sr, folded eq(1)] st laws(1) fz refl, of as] as laws(3) by (simp_all add: f2_def)
  from i2 obtain d1 tk1 where d1: "xs_disk_hwm s1 = Some d1" and st1: "snap_state f2 (xs_root s1) d1 tk1" by (rule disk_invE)
  note n = newerD [OF nw] and pg = popped_geom [OF st1] and ps = popped_state [OF nw st le st1]
  have f3: "f3 = popped f2" by (simp add: f3_def f2_def)
  show "disk_inv f2 s1" by (rule i2)
  show "peel s1 f2 = (Inr (), f3)"
    unfolding f3 by (rule peel_n [OF st1 _ d1]) (use n(4,6) snap_stateD(4) [OF st] in simp)
  have s: "\<lparr>xs_root = xs_root s, xs_disk_hwm = Some d\<rparr> = s" using d by (cases s) simp
  show "open_write f3 = (Inr s, f3)" using open_write_n [OF ps(1,2)] s unfolding f3 by simp
  show "disk_inv f3 s" using ps(1,2) d by (auto simp: disk_inv_def f3)
  have same: "same_geom f f3" using n(1) pg(2) by (simp add: same_geom_def f3)
  note sg = same_geom_bits [OF same]
  show "on_disk f3 b = on_disk f b" by (simp add: on_disk_def sg)
  show "disk_view f3 s b = disk_view f s b" if "on_disk f b"
  proof -
    have lb: "l1_off f b < csz f" using that by (simp add: on_disk_def)
    have "disk_view f3 s b = Inr (leaf_at f3 (xs_root s) b)"
      by (rule disk_view_leaf) (use winvD(1,2) [OF snap_stateD(1) [OF ps(1)]] lb sz in \<open>simp_all add: f3 [symmetric] sg\<close>)
    also have "leaf_at f3 (xs_root s) b = leaf_at f (xs_root s) b" using ps(4) [OF lb] by (simp add: f3)
    finally show ?thesis using disk_view_leaf [OF winvD(1,2) [OF w], of b] lb sz by simp
  qed
  have "xf_snaps f3 = xf_snaps f" using pg(4) n(4) by (simp add: f3)
  moreover have "d = sl_entry_cell (xf_snaps f) (lt_end f3 (xf_snaps f) - 1) + 1" "0 < lt_end f3 (xf_snaps f)"
    using snap_stateD(4,5) [OF ps(1)] calculation by (simp_all add: f3)
  then have "lt_end f3 (xf_snaps f) = lt_end f (xf_snaps f)" using snap_stateD(4,5) [OF st] by (simp add: sl_entry_cell_t)
  ultimately show "list_room f3 = list_room f" "xf_snaps f3 = xf_snaps f \<and> xf_snaps f2 = xf_snaps f" using n(4) by (simp_all add: list_room_def sg)
  show "xf_mem f3 (the (xs_disk_hwm s)) = xf_mem f (the (xs_disk_hwm s))" using ps(3) d by (simp add: f3)
  show "xf_mem f3 k = xf_mem f k \<and> xf_mem f2 k = xf_mem f k" if "k < 7" "k \<noteq> 3" using pg(1) [OF that(1)] n(7) [OF that] by (simp add: f3)
  show "xf_size f3 = xf_size f \<and> xf_size f2 = xf_size f" using sg(8) same_geom_bits(8) [OF n(1)] by simp
  show "xf_flist f3 = xf_flist f \<and> xf_flist f2 = xf_flist f" using n(5) by (simp add: f3 popped_def Let_def)
qed

end
