(* ===== verification/XcowProps.thy ===== *)
theory XcowProps
  imports XcowPeel
begin

text \<open>
  What the copy-on-write disk guarantees, and where it falls short. The properties are about the operations of
  \<open>XcowFile\<close> and \<open>XcowSnap\<close>; the lemmas on words and clusters they rest on are in the theories below.
\<close>

section \<open>A disk to try them on\<close>

text \<open>A metadata file of sixteen 4 KiB clusters for a disk of 1 MiB with room for a hundred data clusters.\<close>

definition blank_file :: xcow_file where
  "blank_file = \<lparr>xf_mem = (\<lambda>_. 0), xf_size = 65536, xf_snaps = (0, 0), xf_flist = (0, 0)\<rparr>"

definition demo_file :: xcow_file where
  "demo_file = formatted 1048576 12 16 100 blank_file"

definition demo_snap :: xcow_snap where
  "demo_snap = \<lparr>xs_root = (1536, 512), xs_disk_hwm = Some 515\<rparr>"

lemma demo_fmt: "fmt_ok (xf_size blank_file) 1048576 12 16"
  by (simp add: fmt_ok_def blank_file_def)

lemma demo_n: "fmt_n 12 = 512"
  by (simp add: fmt_n_def)

lemma demo_inv: "disk_inv demo_file demo_snap"
  using formatted_state(1,2) [OF demo_fmt, of 100]
  by (auto simp: disk_inv_def demo_file_def demo_snap_def demo_n)

lemma demo_geom: "geom demo_file" "cluster_bits demo_file = 12" "csz demo_file = 512" "hwm_n demo_file = 4"
  "hdr_hwm_limit demo_file = 16" "xf_snaps demo_file = (512, 512)"
  using fmt_geom [OF demo_fmt, of 100] by (simp_all add: demo_file_def demo_n)

lemma demo_on_disk: "unat a < 1048576 \<Longrightarrow> on_disk demo_file a"
  unfolding on_disk_def l1_off_def unat_drop_bit l0_cover_bits_def demo_geom by simp

section \<open>Writing\<close>

lemma masked_bits:
  "t AND NOT xl_writable = u AND NOT xl_writable \<Longrightarrow> is_empty t = is_empty u \<and> decode_leaf t = decode_leaf u"
  using nt_decode_nw [of t] nt_decode_nw [of u] bit_63_nw [of t] bit_63_nw [of u]
  by (simp add: is_empty_def valid_bit decode_leaf_def nt_decode_def)

lemma tw_masked:
  assumes w: "winv f root d" and l1: "l1_off f a < snd root" and b: "l1_off f b < snd root"
    and no: "tw_outcome f root d a = (Inl e, f')"
  shows "leaf_at f' root b AND NOT xl_writable = leaf_at f root b AND NOT xl_writable \<and>
    (e = Hwm_exception \<and> f' = f \<or> e = Disk_hwm_exception)"
  using w l1
proof (cases rule: tw_cases)
  case disk_full
  then show ?thesis using no leaf_at_prep [OF w l1 disk_full(1) b] by (simp add: and.assoc)
qed (use no in simp_all)

lemma write_effect:
  assumes "disk_inv f s" "on_disk f a" "on_disk f b"
  shows "case translate_write s a f of
      (Inr (leaf, prev), f') \<Rightarrow>
        disk_inv f' s \<and> \<not> is_empty leaf \<and> \<not> needs_cow leaf \<and>
        (\<exists>t u. disk_view f s b = Inr t \<and> disk_view f' s b = Inr u \<and>
           (if same_cluster f a b then u = leaf \<and> prev AND NOT xl_writable = t AND NOT xl_writable
            else u AND NOT xl_writable = t AND NOT xl_writable))
    | (Inl e, f') \<Rightarrow>
        disk_inv f' s \<and> (e = Hwm_exception \<and> f' = f \<or> e = Disk_hwm_exception) \<and>
        (\<exists>t u. disk_view f s b = Inr t \<and> disk_view f' s b = Inr u \<and> u AND NOT xl_writable = t AND NOT xl_writable)"
proof -
  from assms(1) obtain d tk where d: "xs_disk_hwm s = Some d" and st: "snap_state f (xs_root s) d tk"
    and sz: "snd (xs_root s) = csz f" and w: "winv f (xs_root s) d" by (rule disk_invE)
  have l1: "l1_off f a < snd (xs_root s)" "l1_off f b < snd (xs_root s)" using assms(2,3) sz by (simp_all add: on_disk_def)
  note tw = translate_write_n [OF w d l1(1)]
  have inv: "disk_inv (snd (tw_outcome f (xs_root s) d a)) s"
    using disk_write_laws(1) [OF assms(1,2)] by (simp add: disk_write_def tw)
  note w' = tw_winv [OF w l1(1)] and sg = same_geom_bits [OF tw_geom(1) [OF w l1(1)]]
  have v: "disk_view f s b = Inr (leaf_at f (xs_root s) b)"
    "disk_view (snd (tw_outcome f (xs_root s) d a)) s b = Inr (leaf_at (snd (tw_outcome f (xs_root s) d a)) (xs_root s) b)"
    using disk_view_leaf [OF winvD(1,2) [OF w] l1(2)] disk_view_leaf [OF winvD(1,2) [OF w']] l1(2) by (simp_all add: sg)
  obtain r f' where o: "tw_outcome f (xs_root s) d a = (r, f')" by force
  show ?thesis
  proof (cases r)
    case (Inl e)
    then show ?thesis using inv v o tw_masked [OF w l1, of e f'] by (simp add: tw)
  next
    case (Inr p)
    obtain leaf prev where p: "p = (leaf, prev)" by force
    note tl = tw_leaf [OF w l1 o [unfolded Inr p]]
    have "same_cluster f a b \<Longrightarrow> leaf_at f (xs_root s) b = leaf_at f (xs_root s) a" by (rule leaf_at_cong [OF winvD(1) [OF w]])
    then show ?thesis
      using inv v o Inr p tl by (auto simp: tw is_empty_def needs_cow_def valid_bit writable_bit)
  qed
qed

text \<open>
  C11. A write to an address of the disk has one of three outcomes, and none is undefined behaviour. On success the
  address's cluster is mapped to the returned entry, which is valid and writable, as every later read shows. If the
  metadata file is full the file is unchanged; if the data disk is full, the error is its own. In every case every other
  cluster keeps its translation up to the writable flag, and the disk stays well formed.
\<close>

theorem write_outcome:
  assumes "disk_inv f s" "on_disk f a" "on_disk f b"
  shows "case translate_write s a f of
      (Inr (leaf, prev), f') \<Rightarrow>
        disk_inv f' s \<and> \<not> is_empty leaf \<and> \<not> needs_cow leaf \<and>
        (\<exists>t u. disk_view f s b = Inr t \<and> disk_view f' s b = Inr u \<and>
           (if same_cluster f a b then u = leaf \<and> prev AND NOT xl_writable = t AND NOT xl_writable
            else u AND NOT xl_writable = t AND NOT xl_writable))
    | (Inl e, f') \<Rightarrow>
        disk_inv f' s \<and> (e = Hwm_exception \<and> f' = f \<or> e = Disk_hwm_exception) \<and>
        (\<exists>t u. disk_view f s b = Inr t \<and> disk_view f' s b = Inr u \<and> u AND NOT xl_writable = t AND NOT xl_writable)"
  using assms by (rule write_effect)

theorem write_outcome_witness:
  "disk_inv demo_file demo_snap \<and> on_disk demo_file 8192 \<and>
   (case translate_write demo_snap 8192 demo_file of
      (Inr (leaf, prev), f') \<Rightarrow> \<not> is_empty leaf \<and> disk_view f' demo_snap 8192 = Inr leaf
    | (Inl e, f') \<Rightarrow> e = Hwm_exception \<and> f' = demo_file \<or> e = Disk_hwm_exception)"
  using write_outcome [of demo_file demo_snap 8192 8192] demo_inv demo_on_disk [of 8192]
  by (auto simp: same_cluster_def split: prod.splits sum.splits)

section \<open>Data clusters\<close>

definition counter :: "xcow_file \<Rightarrow> xcow_snap \<Rightarrow> nat" where
  "counter f s = unat (xf_mem f (the (xs_disk_hwm s)))"

text \<open>Every data cluster a snapshot maps lies below a limit; no two clusters are mapped to the same one.\<close>

definition below :: "xcow_file \<Rightarrow> xcow_snap \<Rightarrow> nat \<Rightarrow> bool" where
  "below f s n \<longleftrightarrow> (\<forall>b t. on_disk f b \<longrightarrow> disk_view f s b = Inr t \<longrightarrow> \<not> is_empty t \<longrightarrow>
     unat (decode_leaf t) < n * 2 ^ cluster_bits f)"

definition unshared :: "xcow_file \<Rightarrow> xcow_snap \<Rightarrow> bool" where
  "unshared f s \<longleftrightarrow> (\<forall>a b t u. on_disk f a \<longrightarrow> on_disk f b \<longrightarrow> \<not> same_cluster f a b \<longrightarrow>
     disk_view f s a = Inr t \<longrightarrow> disk_view f s b = Inr u \<longrightarrow> \<not> is_empty t \<longrightarrow> \<not> is_empty u \<longrightarrow> decode_leaf t \<noteq> decode_leaf u)"

definition data_inv :: "xcow_file \<Rightarrow> xcow_snap \<Rightarrow> bool" where
  "data_inv f s \<longleftrightarrow> disk_inv f s \<and> unat (hdr_disk_hwm_limit f) * 2 ^ cluster_bits f \<le> 2 ^ 63 \<and>
     counter f s \<le> unat (hdr_disk_hwm_limit f) \<and> below f s (counter f s) \<and> unshared f s"

lemma new_leaf:
  assumes g: "geom f" and lim: "unat (hdr_disk_hwm_limit f) * 2 ^ cluster_bits f \<le> 2 ^ 63" and h: "unat h < unat (hdr_disk_hwm_limit f)"
  shows "unat (decode_leaf (encode_leaf (push_bit (cluster_bits f) h) True)) = unat h * 2 ^ cluster_bits f"
proof -
  let ?off = "push_bit (cluster_bits f) h"
  have "unat h * 2 ^ cluster_bits f < unat (hdr_disk_hwm_limit f) * 2 ^ cluster_bits f" using h by simp
  then have lt: "unat h * 2 ^ cluster_bits f < 2 ^ 63" using lim by linarith
  then have off: "unat ?off = unat h * 2 ^ cluster_bits f" by (intro unat_push_bit_small) simp
  have "unat ?off mod 4096 = 0"
  proof -
    have "(2::nat) ^ cluster_bits f = 2 ^ (12 + (cluster_bits f - 12))" using g by (simp add: geom_def)
    then have "(2::nat) ^ cluster_bits f = 2 ^ 12 * 2 ^ (cluster_bits f - 12)" by (simp only: power_add)
    then show ?thesis unfolding off by (simp add: mult.left_commute)
  qed
  then have "nt_decode (encode_ref ?off True) = ?off" by (rule encode_decode(1)) (use off lt in simp)
  then show ?thesis using off by (simp add: decode_leaf_def nt_decode_def encode_leaf_ref)
qed

text \<open>The data counter and the limit after a write.\<close>

lemma write_counter:
  assumes w: "winv f root d" and l1: "l1_off f a < snd root"
  shows "xf_mem (snd (tw_outcome f root d a)) d = xf_mem f d \<and> (\<forall>leaf prev f'. tw_outcome f root d a = (Inr (leaf, prev), f') \<longrightarrow> leaf = prev) \<or>
    (\<exists>prev f'. tw_outcome f root d a = (Inr (encode_leaf (push_bit (cluster_bits f) (xf_mem f d)) True, prev), f') \<and>
       \<not> hdr_disk_hwm_limit f < xf_mem f d + 1 \<and> xf_mem f' d = xf_mem f d + 1)"
  using w l1
proof (cases rule: tw_cases)
  case alloc
  then show ?thesis using entry_cell_facts(1) [OF w l1 alloc(1)] by auto
qed (use prep_file_cell [OF w l1, of d] in auto)

lemma same_views:
  assumes v: "\<And>b. on_disk f b \<Longrightarrow> \<exists>t u. disk_view f s b = Inr t \<and> disk_view f' s' b = Inr u \<and> u AND NOT xl_writable = t AND NOT xl_writable"
    and d: "\<And>b. on_disk f' b = on_disk f b" and c: "cluster_bits f' = cluster_bits f"
  shows "below f' s' n = below f s n" "unshared f' s' = unshared f s"
proof -
  have e: "\<exists>t. disk_view f s b = Inr t \<and> (\<exists>u. disk_view f' s' b = Inr u \<and> is_empty u = is_empty t \<and> decode_leaf u = decode_leaf t)"
    if "on_disk f b" for b
    using v [OF that] masked_bits by blast
  show "below f' s' n = below f s n"
    unfolding below_def d c by (intro iffI allI impI; drule spec; use e in fastforce)
  show "unshared f' s' = unshared f s"
    unfolding unshared_def d same_cluster_def c
    apply (intro iffI allI impI)
    subgoal premises p for a b t u using p(1) p(2-) e [OF p(2)] e [OF p(3)] by fastforce
    subgoal premises p for a b t u using p(1) p(2-) e [OF p(2)] e [OF p(3)] by fastforce
    done
qed

text \<open>A write that allocates: the new entry is fresh, and the two conditions are kept.\<close>

lemma alloc_keeps:
  assumes di: "data_inv f s" and a: "on_disk f a" and b: "\<And>b. on_disk f' b = on_disk f b" and c: "cluster_bits f' = cluster_bits f"
    and n: "unat (decode_leaf leaf) = counter f s * 2 ^ cluster_bits f"
    and v: "\<And>b. on_disk f b \<Longrightarrow> \<exists>t u. disk_view f s b = Inr t \<and> disk_view f' s b = Inr u \<and>
      (if same_cluster f a b then u = leaf else u AND NOT xl_writable = t AND NOT xl_writable)"
  shows "below f' s (counter f s + 1)" "unshared f' s"
proof -
  have lo: "unat (decode_leaf t) < counter f s * 2 ^ cluster_bits f" if "on_disk f b" "disk_view f s b = Inr t" "\<not> is_empty t" for b t
    using di that by (auto simp: data_inv_def below_def)
  have e: "u = leaf \<and> same_cluster f a b \<or>
      \<not> same_cluster f a b \<and> (\<exists>t. disk_view f s b = Inr t \<and> is_empty u = is_empty t \<and> decode_leaf u = decode_leaf t)"
    if "on_disk f b" "disk_view f' s b = Inr u" for b u
  proof -
    note vb = v [OF that(1)]
    obtain t u' where t: "disk_view f s b = Inr t" "disk_view f' s b = Inr u'"
      "if same_cluster f a b then u' = leaf else u' AND NOT xl_writable = t AND NOT xl_writable"
      using vb by blast
    have "u' = u" using t(2) that(2) by simp
    then show ?thesis using t(1,3) masked_bits [of u t] by (cases "same_cluster f a b") simp_all
  qed
  have sc: "same_cluster f' x y = same_cluster f x y" for x y by (simp add: same_cluster_def c)
  show "below f' s (counter f s + 1)"
    unfolding below_def b c
  proof (intro allI impI)
    fix b u
    assume u: "on_disk f b" "disk_view f' s b = Inr u" "\<not> is_empty u"
    from e [OF u(1,2)] show "unat (decode_leaf u) < (counter f s + 1) * 2 ^ cluster_bits f"
      using n u(3) lo [OF u(1)] by (auto intro: trans_less_add2)
  qed
  have ne: "decode_leaf t \<noteq> decode_leaf leaf" if "on_disk f b" "disk_view f s b = Inr t" "\<not> is_empty t" for b t
    using lo [OF that] n by auto
  show "unshared f' s"
    unfolding unshared_def b sc
  proof (intro allI impI)
    fix x y t u
    assume p: "on_disk f x" "on_disk f y" "\<not> same_cluster f x y" "disk_view f' s x = Inr t" "disk_view f' s y = Inr u"
      "\<not> is_empty t" "\<not> is_empty u"
    have not2: "\<not> (same_cluster f a x \<and> same_cluster f a y)" using p(3) by (auto simp: same_cluster_def)
    have "unshared f s" using di by (simp add: data_inv_def)
    then have old: "decode_leaf t' \<noteq> decode_leaf u'"
      if "disk_view f s x = Inr t'" "disk_view f s y = Inr u'" "\<not> is_empty t'" "\<not> is_empty u'" for t' u'
      using that p(1-3) unfolding unshared_def by blast
    show "decode_leaf t \<noteq> decode_leaf u"
      using e [OF p(1,4)] e [OF p(2,5)] not2 ne [OF p(1)] ne [OF p(2)] old p(6,7) by metis
  qed
qed

lemma write_data:
  assumes di: "data_inv f s" and a: "on_disk f a"
  shows "data_inv (disk_write f s a) s \<and>
    (case translate_write s a f of
       (Inr (leaf, prev), f') \<Rightarrow> needs_alloc prev \<longrightarrow>
         unat (decode_leaf leaf) = counter f s * 2 ^ cluster_bits f \<and> counter f' s = counter f s + 1
     | (Inl e, f') \<Rightarrow> counter f' s = counter f s)"
proof -
  have i: "disk_inv f s" using di by (simp add: data_inv_def)
  from i obtain d tk where d: "xs_disk_hwm s = Some d" and st: "snap_state f (xs_root s) d tk"
    and sz: "snd (xs_root s) = csz f" and w: "winv f (xs_root s) d" by (rule disk_invE)
  have l1: "l1_off f a < snd (xs_root s)" using a sz by (simp add: on_disk_def)
  note tw = translate_write_n [OF w d l1] and laws = disk_write_laws [OF i a] and sg = same_geom_bits [OF tw_geom(1) [OF w l1]]
  obtain r f' where o: "tw_outcome f (xs_root s) d a = (r, f')" by force
  have dw: "disk_write f s a = f'" by (simp add: disk_write_def tw o)
  have lim: "hdr_disk_hwm_limit f' = hdr_disk_hwm_limit f"
    using tw_header [OF w l1, of 4] o by (simp add: hdr_disk_hwm_limit_def)
  have cb: "cluster_bits f' = cluster_bits f" using sg(1) o by simp
  have od: "on_disk f' b = on_disk f b" for b using laws(3) dw by simp
  have cn: "counter f s = unat (xf_mem f d)" "counter f' s = unat (xf_mem f' d)" by (simp_all add: counter_def d)
  note eff = write_effect [OF i a, unfolded tw o]
  from write_counter [OF w l1] show ?thesis
  proof (elim disjE conjE exE)
    assume same: "xf_mem (snd (tw_outcome f (xs_root s) d a)) d = xf_mem f d"
      and lp: "\<forall>leaf prev f'. tw_outcome f (xs_root s) d a = (Inr (leaf, prev), f') \<longrightarrow> leaf = prev"
    have "\<exists>t u. disk_view f s b = Inr t \<and> disk_view f' s b = Inr u \<and> u AND NOT xl_writable = t AND NOT xl_writable"
      if "on_disk f b" for b
      using eff [OF that] lp o by (auto split: sum.splits if_splits)
    note sv = same_views [OF this od cb]
    have "data_inv f' s" using di laws(1) dw same o cn lim by (simp add: data_inv_def cb sv)
    moreover have "\<not> needs_alloc prev" if "r = Inr (leaf, prev)" for leaf prev
      using eff [OF a] lp o that by (auto simp: needs_alloc_def)
    ultimately show ?thesis using same o cn by (auto simp: tw dw split: sum.splits)
  next
    fix prev f''
    assume al: "tw_outcome f (xs_root s) d a = (Inr (encode_leaf (push_bit (cluster_bits f) (xf_mem f d)) True, prev), f'')"
      and fit: "\<not> hdr_disk_hwm_limit f < xf_mem f d + 1" and c1: "xf_mem f'' d = xf_mem f d + 1"
    let ?leaf = "encode_leaf (push_bit (cluster_bits f) (xf_mem f d)) True"
    have r: "r = Inr (?leaf, prev)" "f'' = f'" using al o by auto
    have bnd: "unat (hdr_disk_hwm_limit f) \<le> 2 ^ 63" "counter f s \<le> unat (hdr_disk_hwm_limit f)"
      "unat (hdr_disk_hwm_limit f) * 2 ^ cluster_bits f \<le> 2 ^ 63" using di
      by (auto simp: data_inv_def intro: order_trans [rotated])
    have nx: "unat (xf_mem f d + 1) = counter f s + 1"
      by (subst unat_add_small) (use bnd(1,2) cn in simp_all)
    then have lt: "counter f s < unat (hdr_disk_hwm_limit f)" using fit by (simp add: word_less_nat_alt)
    have nl: "unat (decode_leaf ?leaf) = counter f s * 2 ^ cluster_bits f"
      using new_leaf [OF winvD(1) [OF w] bnd(3), of "xf_mem f d"] lt cn by simp
    have "\<exists>t u. disk_view f s b = Inr t \<and> disk_view f' s b = Inr u \<and>
        (if same_cluster f a b then u = ?leaf else u AND NOT xl_writable = t AND NOT xl_writable)" if "on_disk f b" for b
      using eff [OF that] r by (auto split: if_splits)
    note ak = alloc_keeps [OF di a od cb nl this]
    have "data_inv f' s" using ak laws(1) dw lt bnd(3) nx c1 r cn lim by (simp add: data_inv_def cb)
    then show ?thesis using nl nx c1 r cn by (simp add: tw dw o)
  qed
qed

lemma formatted_view:
  assumes "fmt_ok (xf_size f) fsize cbits hl" "on_disk (formatted fsize cbits hl dl f) b"
    "xs_root s = (3 * fmt_n cbits, fmt_n cbits)"
  shows "disk_view (formatted fsize cbits hl dl f) s b = Inr empty_leaf"
proof -
  let ?f = "formatted fsize cbits hl dl f"
  note fs = formatted_state [OF assms(1), of dl]
  have "l1_off ?f b < fmt_n cbits" using assms(2) fmt_geom(3) [OF assms(1)] by (simp add: on_disk_def)
  then show ?thesis
    using fs(3) [of b] disk_view_leaf [of ?f s b] winvD(1,2) [OF snap_stateD(1) [OF fs(1)]] assms(3) by simp
qed

lemma demo_view: "on_disk demo_file b \<Longrightarrow> disk_view demo_file demo_snap b = Inr empty_leaf"
  unfolding demo_file_def by (rule formatted_view [OF demo_fmt]) (simp_all add: demo_snap_def demo_n)

lemma demo_data_inv: "data_inv demo_file demo_snap"
proof -
  have "hdr_disk_hwm_limit demo_file = 100" "counter demo_file demo_snap = 1"
    by (simp_all add: hdr_disk_hwm_limit_def counter_def demo_snap_def demo_file_def formatted_def fmt_mem_def Let_def demo_n)
  then show ?thesis
    using demo_inv demo_view
    by (auto simp: data_inv_def demo_geom below_def unshared_def is_empty_def empty_leaf_def)
qed

text \<open>
  C16. No two clusters of a snapshot are ever mapped to the same data cluster, and a newly allocated data cluster is one
  that no snapshot known to lie below the counter uses: a write that allocates takes exactly the cluster the counter names and
  counts it, a failed one counts nothing, and the invariant is kept.
\<close>

theorem data_clusters_not_shared:
  assumes "data_inv f s" "on_disk f a"
  shows "data_inv (disk_write f s a) s \<and>
    (case translate_write s a f of
       (Inr (leaf, prev), f') \<Rightarrow> needs_alloc prev \<longrightarrow>
         unat (decode_leaf leaf) = counter f s * 2 ^ cluster_bits f \<and> counter f' s = counter f s + 1 \<and>
         (\<forall>old b t. below f old (counter f s) \<longrightarrow> on_disk f b \<longrightarrow> disk_view f old b = Inr t \<longrightarrow> \<not> is_empty t \<longrightarrow>
            decode_leaf t \<noteq> decode_leaf leaf)
     | (Inl e, f') \<Rightarrow> counter f' s = counter f s)"
proof -
  have "decode_leaf t \<noteq> decode_leaf leaf"
    if "unat (decode_leaf leaf) = counter f s * 2 ^ cluster_bits f" "below f old (counter f s)" "on_disk f b"
      "disk_view f old b = Inr t" "\<not> is_empty t" for leaf old b t
    using that unfolding below_def by fastforce
  then show ?thesis using write_data [OF assms] by (auto split: prod.splits sum.splits)
qed

theorem data_clusters_not_shared_witness:
  "data_inv demo_file demo_snap \<and> on_disk demo_file 4096 \<and> data_inv (disk_write demo_file demo_snap 4096) demo_snap"
  using data_clusters_not_shared [of demo_file demo_snap 4096] demo_data_inv demo_on_disk [of 4096] by simp

section \<open>Snapshots\<close>

lemma snapshot_effect:
  assumes "disk_inv f s" "0 < list_room f" "on_disk f b"
  shows "case snap_create s f of
      (Inr (s', s0), f') \<Rightarrow>
        disk_inv f' s' \<and> disk_view f' s' b = disk_view f s b \<and> disk_view f' s0 b = disk_view f s b \<and>
        translate_write s0 b f' = (Inl (Logic_error ''snapshot is not writable''), f')
    | (Inl e, f') \<Rightarrow> e = Hwm_exception \<and> f' = f"
proof -
  from assms(1) obtain d tk where st: "snap_state f (xs_root s) d tk" by (rule disk_invE)
  show ?thesis
  proof (cases "hwm_n f < unat (hdr_hwm_limit f)")
    case True
    have room: "lt_end f (xf_snaps f) < csz f div 2 - 1" using assms(2) by (simp add: list_room_def)
    obtain s' s0 f' where c: "snap_create s f = (Inr (s', s0), f')" "xs_disk_hwm s0 = None"
      using snap_create_n [OF st True room] by simp
    then have "disk_snap f s = (f', Some (s', s0))" by (simp add: disk_snap_def)
    note laws = disk_snap_laws(1,5) [OF assms(1,2) this]
    show ?thesis using c laws assms(3) by (simp add: translate_write_def)
  next
    case False
    then show ?thesis using snap_create_full [OF st False] by simp
  qed
qed

text \<open>
  C23. Taking a snapshot, while the list has room for its entry, either succeeds or fails with \<open>hwm_exception\<close> and changes
  nothing. On success the new snapshot and the source both show exactly what the source showed, the new one is the writable
  one, and every write to the source is refused from then on.
\<close>

theorem snapshot_shows_the_same:
  assumes "disk_inv f s" "0 < list_room f" "on_disk f b"
  shows "case snap_create s f of
      (Inr (s', s0), f') \<Rightarrow>
        disk_inv f' s' \<and> disk_view f' s' b = disk_view f s b \<and> disk_view f' s0 b = disk_view f s b \<and>
        translate_write s0 b f' = (Inl (Logic_error ''snapshot is not writable''), f')
    | (Inl e, f') \<Rightarrow> e = Hwm_exception \<and> f' = f"
  using assms by (rule snapshot_effect)

lemma demo_room: "list_room demo_file = 254"
proof -
  have "lt_end demo_file (512, 512) = 1"
    by (simp add: lt_end_def demo_file_def formatted_def fmt_mem_def Let_def demo_n)
  then show ?thesis by (simp add: list_room_def demo_geom)
qed

theorem snapshot_shows_the_same_witness:
  "disk_inv demo_file demo_snap \<and> 0 < list_room demo_file \<and> on_disk demo_file 0 \<and>
   (case snap_create demo_snap demo_file of
      (Inr (s', s0), f') \<Rightarrow> disk_view f' s' 0 = Inr empty_leaf \<and> disk_view f' s0 0 = Inr empty_leaf
    | (Inl e, f') \<Rightarrow> f' = demo_file)"
  using snapshot_shows_the_same [of demo_file demo_snap 0] demo_inv demo_room demo_on_disk [of 0] demo_view [of 0]
  by (auto split: prod.splits sum.splits)

text \<open>
  C1. Snapshots last: after a snapshot, no sequence of writes to the new one and of further snapshots (as many as the list has
  room for) changes what the old one shows at any address, whether the operations succeed or fail; and the disk stays well
  formed.
\<close>

theorem snapshots_last:
  assumes "disk_inv f s" "disk_snap f s = (f1, Some (s1, s0))" "\<And>a. a \<in> addresses ops \<Longrightarrow> on_disk f a"
    "snapshots ops < list_room f" "on_disk f b" "run_ops disk_write disk_snap ops (f1, s1, [s0]) = (f', s', olds)"
  shows "disk_view f' s0 b = disk_view f s b \<and> disk_inv f' s'"
  using xdisk.snapshot_is_lasting [OF assms] by simp

theorem snapshots_last_witness:
  "\<exists>f1 s1 s0 f' s' olds. disk_snap demo_file demo_snap = (f1, Some (s1, s0)) \<and>
     run_ops disk_write disk_snap [Write 4096, Snapshot, Write 0] (f1, s1, [s0]) = (f', s', olds) \<and>
     disk_view f' s0 4096 = Inr empty_leaf"
proof -
  from demo_inv obtain d tk where st: "snap_state demo_file (xs_root demo_snap) d tk" by (rule disk_invE)
  have "disk_snap demo_file demo_snap \<noteq> (demo_file, None)"
    using st demo_room by (auto elim!: disk_snap_cases simp: demo_geom)
  then obtain f1 s1 s0 where sn: "disk_snap demo_file demo_snap = (f1, Some (s1, s0))"
    using disk_snap_none [OF demo_inv] demo_room by (cases "disk_snap demo_file demo_snap"; cases "snd (disk_snap demo_file demo_snap)") auto
  obtain f' s' olds where r: "run_ops disk_write disk_snap [Write 4096, Snapshot, Write 0] (f1, s1, [s0]) = (f', s', olds)"
    by (metis prod.exhaust)
  have "disk_view f' s0 4096 = disk_view demo_file demo_snap 4096 \<and> disk_inv f' s'"
    by (rule snapshots_last [OF demo_inv sn _ _ _ r]) (auto simp: demo_room demo_on_disk)
  then show ?thesis using sn r demo_view [of 4096] demo_on_disk [of 4096] by auto
qed

section \<open>Two-phase writes\<close>

lemma needs_alloc_bits: "needs_alloc t \<longleftrightarrow> t AND xl_valid = 0 \<or> t AND xl_writable = 0"
  by (auto simp: needs_alloc_def needs_cow_def is_empty_def)

lemma alloc_data_other:
  assumes "alloc_data_cluster s f = (Inr (off, nb), f')" "xs_disk_hwm s = Some d" "e \<noteq> d"
  shows "cell_get e f' = (map_sum id id (fst (cell_get e f)), f')" "xf_size f' = xf_size f" "xf_mem f' e = xf_mem f e"
proof -
  have "f' = f\<lparr>xf_mem := (xf_mem f)(d := xf_mem f d + 1)\<rparr>"
    using assms(1,2)
    by (auto simp: alloc_data_cluster_def alloc_data_clusters_def prog_simps cell_get_def cell_put_def split: if_splits)
  then show "cell_get e f' = (map_sum id id (fst (cell_get e f)), f')" "xf_size f' = xf_size f" "xf_mem f' e = xf_mem f e"
    using assms(3) by (simp_all add: cell_get_def prog_simps)
qed

lemma two_phase_effect:
  assumes "disk_inv f s" "on_disk f a"
  shows "sbind (tx_write_prep s a) (\<lambda>e.
      sbind (cell_get e) (\<lambda>cur.
        if needs_alloc cur
        then sbind (alloc_data_cluster s) (\<lambda>(off, nbytes). tx_write_commit e (encode_leaf off True))
        else return (cur, cur))) f = translate_write s a f \<and>
    (\<not> needs_alloc (xf_mem f e) \<longrightarrow> 8 * e + 8 \<le> unat (xf_size f) \<longrightarrow>
       tx_write_commit e t f = (Inr (xf_mem f e, xf_mem f e), f))"
proof -
  from assms(1) obtain d tk where d: "xs_disk_hwm s = Some d" and sz: "snd (xs_root s) = csz f" and w: "winv f (xs_root s) d"
    by (rule disk_invE)
  have l1: "l1_off f a < snd (xs_root s)" using assms(2) sz by (simp add: on_disk_def)
  have prep: "tx_write_prep s a f =
      (if prep_fits f (xs_root s) (l1_off f a) then (Inr (entry_cell f (xs_root s) a), prep_file f (xs_root s) (l1_off f a))
       else (Inl Hwm_exception, f))"
    using tx_write_prep_n [OF winvD(1,2) [OF w] l1] d by (simp add: entry_cell_def)
  have "sbind (tx_write_prep s a) (\<lambda>e.
      sbind (cell_get e) (\<lambda>cur.
        if needs_alloc cur
        then sbind (alloc_data_cluster s) (\<lambda>(off, nbytes). tx_write_commit e (encode_leaf off True))
        else return (cur, cur))) f = translate_write s a f"
  proof (cases "prep_fits f (xs_root s) (l1_off f a)")
    case True
    let ?e = "entry_cell f (xs_root s) a" and ?f1 = "prep_file f (xs_root s) (l1_off f a)"
    note ef = entry_cell_facts [OF w l1 True] and sg = same_geom_bits(8) [OF prep_file_geom(1) [OF winvD(1,2) [OF w] l1 True]]
    have g: "cell_get ?e ?f1 = (Inr (xf_mem ?f1 ?e), ?f1)" by (rule cell_get_n) (use ef(3) sg in simp)
    have "(case alloc_data_cluster s ?f1 of (Inl x, s') \<Rightarrow> (Inl x, s')
         | (Inr x, s') \<Rightarrow> (case x of (off, nb) \<Rightarrow> tx_write_commit ?e (encode_leaf off True)) s') =
        (case alloc_data_cluster s ?f1 of (Inl x, s') \<Rightarrow> (Inl x, s')
         | (Inr x, s') \<Rightarrow> (case x of (off, nb) \<Rightarrow>
             sbind (cell_put ?e (encode_leaf off True)) (\<lambda>_. return (encode_leaf off True, xf_mem ?f1 ?e))) s')"
      if na: "needs_alloc (xf_mem ?f1 ?e)"
    proof (cases "alloc_data_cluster s ?f1")
      case (Pair r f2)
      show ?thesis
      proof (cases r)
        case (Inr p)
        obtain off nb where p: "p = (off, nb)" by force
        note ad = alloc_data_other [OF _ d ef(1), of ?f1 off nb f2]
        show ?thesis
          using Pair Inr p ad g na by (simp add: tx_write_commit_def prog_simps needs_alloc_bits)
      qed (use Pair in simp)
    qed
    then show ?thesis
      using True g by (auto simp: translate_write_prep sbind_apply prep needs_alloc_bits)
  qed (simp add: translate_write_prep sbind_apply prep)
  then show ?thesis
    by (auto simp: tx_write_commit_def prog_simps cell_get_n needs_alloc_bits)
qed

text \<open>
  C19. Writing in two phases, as the controller does around an asynchronous copy, is the same as writing at once: preparing the
  entry, allocating a data cluster when the entry needs one and committing it give the same result and the same file as
  \<open>translate_write\<close>, errors included. And the first commit wins: once an entry is private, a second commit returns it and
  changes nothing.
\<close>

theorem two_phase_write:
  assumes "disk_inv f s" "on_disk f a"
  shows "sbind (tx_write_prep s a) (\<lambda>e.
      sbind (cell_get e) (\<lambda>cur.
        if needs_alloc cur
        then sbind (alloc_data_cluster s) (\<lambda>(off, nbytes). tx_write_commit e (encode_leaf off True))
        else return (cur, cur))) f = translate_write s a f \<and>
    (\<not> needs_alloc (xf_mem f e) \<longrightarrow> 8 * e + 8 \<le> unat (xf_size f) \<longrightarrow>
       tx_write_commit e t f = (Inr (xf_mem f e, xf_mem f e), f))"
  using assms by (rule two_phase_effect)

theorem two_phase_write_witness:
  "disk_inv demo_file demo_snap \<and> on_disk demo_file 4096 \<and>
   sbind (tx_write_prep demo_snap 4096) (\<lambda>e.
      sbind (cell_get e) (\<lambda>cur.
        if needs_alloc cur
        then sbind (alloc_data_cluster demo_snap) (\<lambda>(off, nbytes). tx_write_commit e (encode_leaf off True))
        else return (cur, cur))) demo_file = translate_write demo_snap 4096 demo_file"
  using two_phase_write [of demo_file demo_snap 4096] demo_inv demo_on_disk [of 4096] by simp

section \<open>Formatting and reopening\<close>

text \<open>
  C34. Formatting succeeds for every geometry the code can handle, and leaves a file that the constructor accepts unchanged and
  whose writable snapshot maps nothing.
\<close>

theorem format_gives_empty_disk:
  assumes "fmt_ok (xf_size f) fsize cbits hl"
  shows "\<exists>f' s. xcow_format fsize cbits hl dl f = (Inr (), f') \<and> xcow_open f' = (Inr (), f') \<and> open_write f' = (Inr s, f') \<and>
    disk_inv f' s \<and> (\<forall>b. on_disk f' b \<longrightarrow> disk_view f' s b = Inr empty_leaf)"
proof -
  let ?f = "formatted fsize cbits hl dl f" and ?s = "\<lparr>xs_root = (3 * fmt_n cbits, fmt_n cbits), xs_disk_hwm = Some (fmt_n cbits + 3)\<rparr>"
  note fs = formatted_state [OF assms, of dl]
  have "disk_inv ?f ?s" using fs(1,2) by (auto simp: disk_inv_def)
  moreover have "disk_view ?f ?s b = Inr empty_leaf" if "on_disk ?f b" for b
    by (rule formatted_view [OF assms that]) simp
  ultimately show ?thesis
    using xcow_format_n [OF assms] xcow_open_formatted [OF assms] open_write_n [OF fs(1,2)] by blast
qed

theorem format_gives_empty_disk_witness:
  "fmt_ok (xf_size blank_file) 1048576 12 16 \<and> (\<exists>f' s. xcow_format 1048576 12 16 100 blank_file = (Inr (), f') \<and> open_write f' = (Inr s, f'))"
  using format_gives_empty_disk [OF demo_fmt, of 100] demo_fmt by blast

text \<open>
  The file always leads back to the writable snapshot: after any sequence of writes and snapshots, opening the file for writing
  returns exactly the snapshot in use, root and data counter.
\<close>

theorem reopen_finds_current_snapshot:
  assumes "disk_inv f s" "\<And>a. a \<in> addresses ops \<Longrightarrow> on_disk f a" "snapshots ops \<le> list_room f"
    "run_ops disk_write disk_snap ops (f, s, []) = (f', s', olds)"
  shows "open_write f' = (Inr s', f')"
proof -
  have "disk_inv f' s'" using xdisk.run_keeps [OF assms(1), of "[]" ops f' s' olds] assms(2-4) by simp
  then obtain d tk where "xs_disk_hwm s' = Some d" "snap_state f' (xs_root s') d tk" "last_entry_ok f' (xs_root s') d"
    by (rule disk_invE)
  then show ?thesis using open_write_n [of f' "xs_root s'" d tk] by (cases s') simp
qed

theorem reopen_finds_current_snapshot_witness:
  "\<exists>f' s' olds. run_ops disk_write disk_snap [Write 0, Snapshot, Write 4096] (demo_file, demo_snap, []) = (f', s', olds) \<and>
     open_write f' = (Inr s', f')"
proof -
  obtain f' s' olds where r: "run_ops disk_write disk_snap [Write 0, Snapshot, Write 4096] (demo_file, demo_snap, []) = (f', s', olds)"
    by (metis prod.exhaust)
  have "open_write f' = (Inr s', f')"
    by (rule reopen_finds_current_snapshot [OF demo_inv _ _ r]) (auto simp: demo_room demo_on_disk)
  then show ?thesis using r by blast
qed

section \<open>Dropping a snapshot\<close>

text \<open>
  C35. Peeling goes back to the snapshot: take a snapshot, write to the new one as often as you like, with or without
  success, then drop it. Dropping it succeeds, and opening the file for writing then gives back the source as it was when the
  snapshot was taken: its root, its counter of data clusters, and every translation, whatever was written since.
\<close>

theorem peel_undoes_snapshot:
  assumes "disk_inv f s" "0 < list_room f" "snap_create s f = (Inr (s1, s0), f1)" "\<And>a. a \<in> set as \<Longrightarrow> on_disk f a"
  shows "\<exists>f3. peel s1 (disk_writes s1 as f1) = (Inr (), f3) \<and> open_write f3 = (Inr s, f3) \<and> disk_inv f3 s \<and> counter f3 s = counter f s \<and>
    (\<forall>b. on_disk f b \<longrightarrow> disk_view f3 s b = disk_view f s b)"
  using peel_reverts [OF assms] by (simp add: counter_def)

lemma demo_snapshot:
  obtains s' s0 f' where "snap_create demo_snap demo_file = (Inr (s', s0), f')"
proof -
  from demo_inv obtain d tk where st: "snap_state demo_file (xs_root demo_snap) d tk" by (rule disk_invE)
  have "lt_end demo_file (xf_snaps demo_file) < csz demo_file div 2 - 1"
    using demo_room by (simp add: list_room_def)
  then show ?thesis using that snap_create_n [OF st] demo_geom by auto
qed

theorem peel_undoes_snapshot_witness:
  "\<exists>s1 s0 f1 f3. snap_create demo_snap demo_file = (Inr (s1, s0), f1) \<and> peel s1 (disk_writes s1 [0, 4096] f1) = (Inr (), f3) \<and>
     open_write f3 = (Inr demo_snap, f3) \<and> disk_view f3 demo_snap 4096 = Inr empty_leaf"
proof -
  obtain s1 s0 f1 where c: "snap_create demo_snap demo_file = (Inr (s1, s0), f1)" by (rule demo_snapshot)
  have "on_disk demo_file a" if "a \<in> set [0, 4096]" for a using that demo_on_disk by auto
  from peel_undoes_snapshot [of demo_file demo_snap s1 s0 f1 "[0, 4096]", OF demo_inv _ c this] demo_room obtain f3 where "peel s1 (disk_writes s1 [0, 4096] f1) = (Inr (), f3)"
    "open_write f3 = (Inr demo_snap, f3)" "disk_view f3 demo_snap 4096 = disk_view demo_file demo_snap 4096"
    using demo_on_disk [of 4096] by auto
  then show ?thesis using c demo_view [of 4096] demo_on_disk [of 4096] by auto
qed

section \<open>Where isolation is lost\<close>

lemma demo_write:
  obtains leaf prev f1 where "translate_write demo_snap 4096 demo_file = (Inr (leaf, prev), f1)" "disk_inv f1 demo_snap"
    "0 < list_room f1" "hwm_n f1 < unat (hdr_hwm_limit f1)" "on_disk f1 4096"
proof -
  from demo_inv obtain d tk where d: "xs_disk_hwm demo_snap = Some d" and st: "snap_state demo_file (xs_root demo_snap) d tk"
    and sz: "snd (xs_root demo_snap) = csz demo_file" and w: "winv demo_file (xs_root demo_snap) d" by (rule disk_invE)
  have od: "on_disk demo_file 4096" by (rule demo_on_disk) simp
  then have l1: "l1_off demo_file 4096 < snd (xs_root demo_snap)" using sz by (simp add: on_disk_def)
  have "d = 515" using d by (simp add: demo_snap_def)
  have lim: "\<not> hdr_disk_hwm_limit demo_file < xf_mem demo_file d + 1"
    unfolding \<open>d = 515\<close>
    by (simp add: hdr_disk_hwm_limit_def demo_file_def formatted_def fmt_mem_def Let_def demo_n)
  note laws = disk_write_laws [OF demo_inv od]
  have tw: "translate_write demo_snap 4096 demo_file = tw_outcome demo_file (xs_root demo_snap) d 4096"
    by (rule translate_write_n [OF w d l1])
  have hw: "hwm_n (snd (tw_outcome demo_file (xs_root demo_snap) d 4096)) \<le> hwm_n demo_file + 1"
    by (rule tw_hwm [OF w l1])
  have hl: "hdr_hwm_limit (snd (tw_outcome demo_file (xs_root demo_snap) d 4096)) = hdr_hwm_limit demo_file"
    by (rule same_geom_bits(9) [OF tw_geom(1) [OF w l1]])
  have "\<exists>leaf prev f1. tw_outcome demo_file (xs_root demo_snap) d 4096 = (Inr (leaf, prev), f1)"
    using w l1
  proof (cases rule: tw_cases)
    case meta_full
    then show ?thesis using demo_geom by (simp add: prep_fits_def Let_def)
  qed (use lim in auto)
  then obtain leaf prev f1 where o: "tw_outcome demo_file (xs_root demo_snap) d 4096 = (Inr (leaf, prev), f1)" by blast
  have f1: "disk_write demo_file demo_snap 4096 = f1" by (simp add: disk_write_def tw o)
  show ?thesis
    by (rule that [of leaf prev f1]) (use tw o laws f1 od demo_room hw hl demo_geom in auto)
qed

text \<open>
  After a snapshot a read still claims the cluster is writable. The entry of a cluster that the source had written is
  returned unchanged, writable flag included, to a read of the new snapshot, although the data cluster is now shared with the
  source: the flags are only cleared when the second-level table is copied, and a read does not copy it.
\<close>

theorem read_after_snapshot_claims_writable:
  assumes "disk_inv f s" "on_disk f a" "translate_write s a f = (Inr (leaf, prev), f1)" "0 < list_room f1"
    "snap_create s f1 = (Inr (s', s0), f2)"
  shows "translate_read s' a f2 = (Inr leaf, f2) \<and> translate_read s0 a f2 = (Inr leaf, f2) \<and> leaf AND xl_writable \<noteq> 0"
proof -
  have dw: "disk_write f s a = f1" using assms(3) by (simp add: disk_write_def)
  have i1: "disk_inv f1 s" and o1: "on_disk f1 a" using disk_write_laws(1,3) [OF assms(1,2)] dw assms(2) by simp_all
  have v: "disk_view f1 s a = Inr leaf" "\<not> is_empty leaf" "\<not> needs_cow leaf"
    using write_effect [OF assms(1,2,2)] assms(3) by (auto simp: same_cluster_def)
  have sn: "disk_snap f1 s = (f2, Some (s', s0))" using assms(5) by (simp add: disk_snap_def)
  note laws = disk_snap_laws [OF i1 assms(4) sn]
  have "disk_view f2 s' a = Inr leaf" "disk_view f2 s0 a = Inr leaf" using laws(5) [OF o1] v(1) by simp_all
  moreover have "snd (translate_read x a f2) = f2" for x
    by (rule translate_read_file)
  ultimately show ?thesis
    using v by (auto simp: disk_view_def needs_cow_def prod_eq_iff)
qed

theorem read_after_snapshot_claims_writable_witness:
  "\<exists>leaf s' s0 f2. translate_read s' 4096 f2 = (Inr leaf, f2) \<and> translate_read s0 4096 f2 = (Inr leaf, f2) \<and>
     leaf AND xl_writable \<noteq> 0"
proof -
  obtain leaf prev f1 where w: "translate_write demo_snap 4096 demo_file = (Inr (leaf, prev), f1)" "disk_inv f1 demo_snap"
    "0 < list_room f1" "hwm_n f1 < unat (hdr_hwm_limit f1)" by (rule demo_write)
  from w(2) obtain d tk where st: "snap_state f1 (xs_root demo_snap) d tk" by (rule disk_invE)
  have "lt_end f1 (xf_snaps f1) < csz f1 div 2 - 1" using w(3) by (simp add: list_room_def)
  then obtain s' s0 f2 where "snap_create demo_snap f1 = (Inr (s', s0), f2)" using snap_create_n [OF st w(4)] by simp
  then show ?thesis
    using read_after_snapshot_claims_writable [OF demo_inv demo_on_disk w(1,3)] by auto
qed

lemma erase_n:
  assumes g: "geom f" and r: "root_ok f (xs_root s)" and l1: "l1_off f a < snd (xs_root s)"
    and v: "bit (rref f (xs_root s) (l1_off f a)) 63"
  shows "erase s a f = (Inr (), f\<lparr>xf_mem := (xf_mem f)(ref_k f (rref f (xs_root s) (l1_off f a)) * csz f + l0i f a := empty_leaf)\<rparr>)"
proof -
  let ?r = "rref f (xs_root s) (l1_off f a)"
  have ok: "ref_ok f ?r" "in_file f (xs_root s)" using r l1 by (auto simp: root_ok_def)
  have nx: "nt_next (xs_root s) (l1_off f a) (cluster_size f) f = (Inr (Some (ref_k f ?r * csz f, csz f)), f)"
    using nt_next_n [OF g ok(2) l1 ok(1)] v by (simp add: Let_def)
  have "ref_k f ?r < hwm_n f" using ok(1) v by (simp add: ref_ok_def)
  then have "span_put (ref_k f ?r * csz f, csz f) (l0i f a) x f =
      (Inr (), f\<lparr>xf_mem := (xf_mem f)(ref_k f ?r * csz f + l0i f a := x)\<rparr>)" for x
    using span_put_n [of "l0i f a" "(ref_k f ?r * csz f, csz f)" f x] l0i_less [OF g] in_file_bytes [OF g cluster_in_file] by simp
  then show ?thesis by (simp add: erase_def prog_simps nx l0_off_n [OF g])
qed

text \<open>Erasing through a table that another root shares.\<close>

lemma erase_shared:
  assumes g: "geom f" and r: "root_ok f old" and l1: "l1_off f a < snd old" and v: "bit (rref f old (l1_off f a)) 63"
    and k: "ref_k f r = ref_k f (rref f old (l1_off f a))"
    and f': "f' = f\<lparr>xf_mem := (xf_mem f)(ref_k f r * csz f + l0i f a := empty_leaf)\<rparr>"
  shows "geom f'" "root_ok f' old" "leaf_at f' old a = empty_leaf" "l1_off f' a = l1_off f a"
proof -
  let ?r = "rref f old (l1_off f a)" and ?c = "ref_k f r * csz f + l0i f a"
  have ok: "0 < ref_k f ?r" "\<And>j. j < snd old \<Longrightarrow> ref_k f ?r \<noteq> (fst old + j) div csz f"
    using r l1 v by (auto simp: root_ok_def ref_ok_def)
  have c: "csz f \<le> ?c" unfolding k by (rule cluster_cell_ge [OF ok(1)])
  have cd: "?c div csz f = ref_k f ?r" unfolding k using l0i_less [OF g, of a] by simp
  note sm = store_same [OF g c, of empty_leaf]
  note sg = same_geom_bits [OF sm(1) [folded f']]
  have e: "xf_mem f' ?c = empty_leaf" by (simp add: f')
  have refs: "rref f' old j = rref f old j" if "j < snd old" for j
  proof -
    have "fst old + j \<noteq> ?c" using ok(2) [OF that] cd by auto
    then show ?thesis by (simp add: f')
  qed
  show "geom f'" unfolding f' by (rule same_geom_geom [OF sm(1) g]) (use sm(2) g in \<open>simp_all add: geom_def hwm_n_def\<close>)
  show "root_ok f' old" by (rule same_root_ok [OF _ _ refs r]) (use sm in \<open>simp_all add: f'\<close>)
  show "l1_off f' a = l1_off f a" by (simp add: sg)
  show "leaf_at f' old a = empty_leaf"
    using refs [OF l1] v k e by (simp add: leaf_at_def Let_def sg)
qed

text \<open>
  Erasing reaches into older snapshots: erasing, in the new snapshot, a cluster the source had written also removes it from the
  source, because \<open>erase\<close> clears the entry in the second-level table both of them share.
\<close>

theorem erase_reaches_older_snapshot:
  assumes "disk_inv f s" "on_disk f a" "translate_write s a f = (Inr (leaf, prev), f1)" "0 < list_room f1"
    "snap_create s f1 = (Inr (s', s0), f2)"
  shows "\<exists>f3. erase s' a f2 = (Inr (), f3) \<and> translate_read s0 a f3 = (Inr empty_leaf, f3)"
proof -
  have dw: "disk_write f s a = f1" using assms(3) by (simp add: disk_write_def)
  have i1: "disk_inv f1 s" and o1: "on_disk f1 a" using disk_write_laws(1,3) [OF assms(1,2)] dw assms(2) by simp_all
  from i1 obtain d tk where st: "snap_state f1 (xs_root s) d tk" and sz: "snd (xs_root s) = csz f1" and w: "winv f1 (xs_root s) d"
    by (rule disk_invE)
  have v: "disk_view f1 s a = Inr leaf" "\<not> is_empty leaf"
    using write_effect [OF assms(1,2,2)] assms(3) by (auto simp: same_cluster_def)
  have sn: "disk_snap f1 s = (f2, Some (s', s0))" using assms(5) by (simp add: disk_snap_def)
  obtain sr: "snap_room f1 (xs_root s) d tk" and eq: "f2 = snapped f1 (xs_root s) d" "xs_root s' = new_root f1" "xs_root s0 = xs_root s"
    using st assms(4) by (cases rule: disk_snap_cases) (use sn in auto)
  have l1: "l1_off f1 a < csz f1" using o1 by (simp add: on_disk_def)
  have "leaf_at f1 (xs_root s) a = leaf" using disk_view_leaf [OF winvD(1,2) [OF w]] v(1) l1 sz by simp
  then have b: "bit (rref f1 (xs_root s) (l1_off f1 a)) 63"
    using v(2) by (auto simp: leaf_at_def Let_def is_empty_def empty_leaf_def split: if_splits)
  note sg = same_geom_bits [OF snapped_geom(1) [OF sr]] and w' = snapped_winv [OF sr] and fz = snapped_frozen [OF sr]
  let ?r = "rref f2 (new_root f1) (l1_off f2 a)"
  have r: "?r = rref f1 (xs_root s) (l1_off f1 a) AND NOT xl_writable" using snapped_new_root [OF sr l1] by (simp add: eq sg)
  have er: "erase s' a f2 = (Inr (), f2\<lparr>xf_mem := (xf_mem f2)(ref_k f2 ?r * csz f2 + l0i f2 a := empty_leaf)\<rparr>)"
    using erase_n [of f2 s' a] winvD(1,2) [OF w'] b r l1 by (simp add: eq sg new_root_def)
  have old: "rref f2 (xs_root s) (l1_off f2 a) = rref f1 (xs_root s) (l1_off f1 a)"
    using snapped_old_root [OF sr] l1 sz by (simp add: eq sg)
  note es = erase_shared [of f2 "xs_root s" a ?r, OF _ _ _ _ _ refl]
  have rk: "ref_k f2 ?r = ref_k f2 (rref f2 (xs_root s) (l1_off f2 a))" unfolding old r by (simp add: ref_k_def)
  have pre: "geom f2" "root_ok f2 (xs_root s)" "l1_off f2 a < snd (xs_root s)" "bit (rref f2 (xs_root s) (l1_off f2 a)) 63"
    using winvD(1) [OF w'] fz l1 sz b old by (simp_all add: eq sg frozen_def)
  note es = es [OF pre rk]
  show ?thesis
    unfolding er using translate_read_n [OF es(1), of s0 a] es(2-4) eq(3) pre(3) by simp
qed

theorem erase_reaches_older_snapshot_witness:
  "\<exists>s' s0 f2 f3 leaf. translate_read s0 4096 f2 = (Inr leaf, f2) \<and> erase s' 4096 f2 = (Inr (), f3) \<and>
     translate_read s0 4096 f3 = (Inr empty_leaf, f3)"
proof -
  obtain leaf prev f1 where w: "translate_write demo_snap 4096 demo_file = (Inr (leaf, prev), f1)" "disk_inv f1 demo_snap"
    "0 < list_room f1" "hwm_n f1 < unat (hdr_hwm_limit f1)" "on_disk f1 4096" by (rule demo_write)
  from w(2) obtain d tk where st: "snap_state f1 (xs_root demo_snap) d tk" by (rule disk_invE)
  have "lt_end f1 (xf_snaps f1) < csz f1 div 2 - 1" using w(3) by (simp add: list_room_def)
  then obtain s' s0 f2 where sn: "snap_create demo_snap f1 = (Inr (s', s0), f2)" using snap_create_n [OF st w(4)] by simp
  from w(2) obtain d' where wv: "winv f1 (xs_root demo_snap) d'" "snd (xs_root demo_snap) = csz f1" by (rule disk_invE)
  have "l1_off f1 4096 < snd (xs_root demo_snap)" using w(5) wv(2) by (simp add: on_disk_def)
  then have "disk_view f1 demo_snap 4096 = Inr (leaf_at f1 (xs_root demo_snap) 4096)"
    by (rule disk_view_leaf [OF winvD(1,2) [OF wv(1)]])
  moreover have "disk_view f2 s0 4096 = disk_view f1 demo_snap 4096"
    using disk_snap_laws(5) [OF w(2,3) _ w(5), of f2 s' s0] sn by (simp add: disk_snap_def)
  ultimately obtain t where "translate_read s0 4096 f2 = (Inr t, f2)"
    using translate_read_file [of s0 4096 f2] by (cases "translate_read s0 4096 f2") (auto simp: disk_view_def)
  then show ?thesis
    using erase_reaches_older_snapshot [OF demo_inv demo_on_disk w(1,3) sn] by auto
qed

end
