(* ===== verification/Handles.thy ===== *)
theory Handles
  imports Prelude "HOL-Library.Multiset"
begin

text \<open>
  The classes that own a resource and give it back: \<open>auto_handle\<close> and \<open>cleanup\<close> of \<open>util.hpp\<close>, \<open>FileDescriptor\<close> of
  \<open>fildes.hpp\<close>, and the three mappings of a \<open>cmdbuf\<close>. An operation is a function on the owners it touches, which also
  tells what it gave back, in order.
\<close>

section \<open>What an owner promises\<close>

text \<open>
  Programs construct owners, move them and drop them. The owners of a scope are a list, in the order of their construction; at the end of
  the scope they are destroyed in the reverse order.
\<close>

datatype 'h owner_op =
    Construct 'h
  | Move_construct nat
  | Move_assign nat nat
  | Reset nat

fun owner_step ::
  "('h \<Rightarrow> 'h \<times> 'v list) \<Rightarrow> ('h \<Rightarrow> 'h \<times> 'h) \<Rightarrow> (bool \<Rightarrow> 'h \<Rightarrow> 'h \<Rightarrow> 'h \<times> 'h \<times> 'v list) \<Rightarrow>
   'h owner_op \<Rightarrow> 'h list \<times> 'v list \<Rightarrow> 'h list \<times> 'v list" where
  "owner_step dispose move_ctor move_assign (Construct h) (hs, log) = (hs @ [h], log)"
| "owner_step dispose move_ctor move_assign (Move_construct i) (hs, log) =
     (if i < length hs then case move_ctor (hs ! i) of (new, old) \<Rightarrow> (hs[i := old] @ [new], log) else (hs, log))"
| "owner_step dispose move_ctor move_assign (Move_assign i j) (hs, log) =
     (if i < length hs \<and> j < length hs
      then case move_assign (i = j) (hs ! i) (hs ! j) of (this, other, freed) \<Rightarrow> (hs[i := this, j := other], log @ freed) else (hs, log))"
| "owner_step dispose move_ctor move_assign (Reset i) (hs, log) =
     (if i < length hs then case dispose (hs ! i) of (h, freed) \<Rightarrow> (hs[i := h], log @ freed) else (hs, log))"

fun leave_scope :: "('h \<Rightarrow> 'h \<times> 'v list) \<Rightarrow> 'h list \<Rightarrow> 'v list \<Rightarrow> 'v list" where
  "leave_scope dispose [] log = log"
| "leave_scope dispose (h # hs) log = (case dispose h of (_, freed) \<Rightarrow> leave_scope dispose hs (log @ freed))"

text \<open>What a scope gives back: everything its operations do, and then its owners from the last to the first.\<close>

definition scope ::
  "('h \<Rightarrow> 'h \<times> 'v list) \<Rightarrow> ('h \<Rightarrow> 'h \<times> 'h) \<Rightarrow> (bool \<Rightarrow> 'h \<Rightarrow> 'h \<Rightarrow> 'h \<times> 'h \<times> 'v list) \<Rightarrow> 'h owner_op list \<Rightarrow> 'v list" where
  "scope dispose move_ctor move_assign ops =
     (case fold (owner_step dispose move_ctor move_assign) ops ([], []) of (hs, log) \<Rightarrow> leave_scope dispose (rev hs) log)"

definition held :: "('h \<Rightarrow> 'v multiset) \<Rightarrow> 'h list \<Rightarrow> 'v multiset" where
  "held holds hs = (\<Sum>h\<leftarrow>hs. holds h)"

fun taken :: "('h \<Rightarrow> 'v multiset) \<Rightarrow> 'h owner_op list \<Rightarrow> 'v multiset" where
  "taken holds [] = {#}"
| "taken holds (Construct h # xs) = holds h + taken holds xs"
| "taken holds (_ # xs) = taken holds xs"

lemma held_simps [simp]: "held holds [] = {#}" "held holds (h # hs) = holds h + held holds hs" "held holds (hs @ gs) = held holds hs + held holds gs"
  by (simp_all add: held_def)

lemma taken_Cons: "taken holds (x # xs) = taken holds [x] + taken holds xs"
  by (cases x) (simp_all add: ac_simps)

text \<open>
  The contract: an owner holds a multiset of resources; giving back leaves it with none; moving hands everything over and gives back what
  the target held. An assignment is told whether its two sides are the same object; then it changes nothing.
\<close>

locale owner =
  fixes holds :: "'h \<Rightarrow> 'v multiset"
    and dispose :: "'h \<Rightarrow> 'h \<times> 'v list"
    and move_ctor :: "'h \<Rightarrow> 'h \<times> 'h"
    and move_assign :: "bool \<Rightarrow> 'h \<Rightarrow> 'h \<Rightarrow> 'h \<times> 'h \<times> 'v list"
  assumes dispose_gives_back: "dispose h = (h', freed) \<Longrightarrow> holds h' = {#} \<and> mset freed = holds h"
    and move_ctor_keeps: "move_ctor h = (new, old) \<Longrightarrow> holds new + holds old = holds h"
    and move_assign_keeps: "move_assign False this other = (this', other', freed) \<Longrightarrow> holds this' + holds other' + mset freed = holds this + holds other"
    and move_assign_self: "move_assign True h h = (h, h, [])"
begin

lemma held_update: "i < length hs \<Longrightarrow> held holds (hs[i := h]) + holds (hs ! i) = held holds hs + holds h"
  by (induction hs arbitrary: i) (auto simp: ac_simps split: nat.splits)

lemma held_update2:
  assumes "i < length hs" "j < length hs" "i \<noteq> j"
  shows "held holds (hs[i := g, j := h]) + (holds (hs ! i) + holds (hs ! j)) = held holds hs + (holds g + holds h)"
  using held_update [of i hs g] held_update [of j "hs[i := g]" h] assms by (simp add: ac_simps)

lemma step_keeps: "owner_step dispose move_ctor move_assign x (hs, log) = (hs', log') \<Longrightarrow> held holds hs' + mset log' = held holds hs + mset log + taken holds [x]"
proof (cases x)
  case (Move_construct i)
  show ?thesis if run: "owner_step dispose move_ctor move_assign x (hs, log) = (hs', log')"
  proof (cases "i < length hs")
    case True
    obtain new old where m: "move_ctor (hs ! i) = (new, old)" by fastforce
    have "(holds new + held holds (hs[i := old])) + holds old = held holds hs + holds old"
      using held_update [OF True, of old] unfolding move_ctor_keeps [OF m, symmetric] by (simp add: ac_simps)
    then show ?thesis using run Move_construct True m by (auto simp: ac_simps)
  qed (use run Move_construct in simp)
next
  case (Move_assign i j)
  show ?thesis if run: "owner_step dispose move_ctor move_assign x (hs, log) = (hs', log')"
  proof (cases "i < length hs \<and> j < length hs \<and> i \<noteq> j")
    case True
    obtain this other freed where m: "move_assign False (hs ! i) (hs ! j) = (this, other, freed)" by (metis prod.exhaust)
    have "held holds (hs[i := this, j := other]) + (holds (hs ! i) + holds (hs ! j)) = held holds hs + (holds this + holds other)"
      using held_update2 True by blast
    then have "held holds (hs[i := this, j := other]) + mset freed = held holds hs"
      unfolding move_assign_keeps [OF m, symmetric] by (simp add: ac_simps)
    then show ?thesis using run Move_assign True m by (auto simp: ac_simps)
  qed (use run Move_assign move_assign_self in \<open>auto split: if_splits\<close>)
next
  case (Reset i)
  show ?thesis if run: "owner_step dispose move_ctor move_assign x (hs, log) = (hs', log')"
  proof (cases "i < length hs")
    case True
    obtain h freed where m: "dispose (hs ! i) = (h, freed)" by fastforce
    show ?thesis using run Reset True m held_update [OF True, of h] dispose_gives_back [OF m] by (auto simp: ac_simps)
  qed (use run Reset in simp)
qed (auto simp: ac_simps)

lemma run_keeps: "fold (owner_step dispose move_ctor move_assign) ops (hs, log) = (hs', log') \<Longrightarrow>
   held holds hs' + mset log' = held holds hs + mset log + taken holds ops"
proof (induction ops arbitrary: hs log)
  case (Cons x xs)
  obtain hs1 log1 where s: "owner_step dispose move_ctor move_assign x (hs, log) = (hs1, log1)" by fastforce
  show ?case using Cons.IH [of hs1 log1] Cons.prems s step_keeps [OF s] taken_Cons [of holds x xs] by (simp add: ac_simps)
qed simp

lemma leave_gives_back: "mset (leave_scope dispose hs log) = held holds hs + mset log"
proof (induction hs arbitrary: log)
  case (Cons h hs)
  obtain g freed where d: "dispose h = (g, freed)" by fastforce
  show ?case using Cons.IH [of "log @ freed"] d dispose_gives_back [OF d] by (simp add: ac_simps)
qed simp

text \<open>Whatever a scope does, when it is left everything that was taken has been given back, as often as it was taken.\<close>

lemma scope_gives_back: "mset (scope dispose move_ctor move_assign ops) = taken holds ops"
proof -
  obtain hs log where r: "fold (owner_step dispose move_ctor move_assign) ops ([], []) = (hs, log)" by fastforce
  have "held holds (rev hs) = held holds hs" by (simp add: held_def rev_map [symmetric])
  then show ?thesis using run_keeps [OF r] leave_gives_back [of "rev hs" log] by (simp add: scope_def r)
qed

end

section \<open>\<open>auto_handle\<close>\<close>

definition ah_dispose :: "'v \<Rightarrow> 'v \<Rightarrow> 'v \<times> 'v list" where
  "ah_dispose invalid p = (invalid, if p \<noteq> invalid then [p] else [])"

definition ah_move_ctor :: "'v \<Rightarrow> 'v \<Rightarrow> 'v \<times> 'v" where
  "ah_move_ctor invalid other = (other, invalid)"

text \<open>The assignment compares what the handles hold, not the handles.\<close>

definition ah_move_assign :: "'v \<Rightarrow> bool \<Rightarrow> 'v \<Rightarrow> 'v \<Rightarrow> 'v \<times> 'v \<times> 'v list" where
  "ah_move_assign invalid same this other =
     (if this \<noteq> other then case ah_dispose invalid this of (p, freed) \<Rightarrow> (other, p, freed) else (this, other, []))"

definition ah_release :: "'v \<Rightarrow> 'v \<Rightarrow> 'v \<times> 'v" where
  "ah_release invalid p = (p, invalid)"

definition ah_holds :: "'v \<Rightarrow> 'v \<Rightarrow> 'v multiset" where
  "ah_holds invalid p = (if p \<noteq> invalid then {#p#} else {#})"

interpretation auto_handle: owner "ah_holds invalid" "ah_dispose invalid" "ah_move_ctor invalid" "ah_move_assign invalid" for invalid
  by unfold_locales (auto simp: ah_holds_def ah_dispose_def ah_move_ctor_def ah_move_assign_def split: if_splits)

section \<open>\<open>cleanup\<close>\<close>

text \<open>What is given back is the callback, which is run; \<open>neutralize\<close> forgets it.\<close>

definition cl_dispose :: "'v option \<Rightarrow> 'v option \<times> 'v list" where
  "cl_dispose c = (case c of Some f \<Rightarrow> (None, [f]) | None \<Rightarrow> (None, []))"

definition cl_move_ctor :: "'v option \<Rightarrow> 'v option \<times> 'v option" where
  "cl_move_ctor other = (other, None)"

definition cl_move_assign :: "bool \<Rightarrow> 'v option \<Rightarrow> 'v option \<Rightarrow> 'v option \<times> 'v option \<times> 'v list" where
  "cl_move_assign same this other = (if same then (this, other, []) else case cl_dispose this of (c, called) \<Rightarrow> (other, c, called))"

definition cl_neutralize :: "'v option \<Rightarrow> 'v option" where
  "cl_neutralize c = None"

definition cl_holds :: "'v option \<Rightarrow> 'v multiset" where
  "cl_holds c = (case c of Some f \<Rightarrow> {#f#} | None \<Rightarrow> {#})"

interpretation cleanup: owner cl_holds cl_dispose cl_move_ctor cl_move_assign
  by unfold_locales (auto simp: cl_holds_def cl_dispose_def cl_move_ctor_def cl_move_assign_def split: option.splits)

section \<open>\<open>FileDescriptor\<close>\<close>

record file_descriptor =
  fd_fd :: int
  fd_errno :: int

definition fd_init :: file_descriptor where
  "fd_init = \<lparr>fd_fd = -1, fd_errno = 0\<rparr>"

text \<open>Opening, given what \<open>open\<close> returns and the error number it sets.\<close>

definition fd_open :: "int \<Rightarrow> int \<Rightarrow> file_descriptor" where
  "fd_open res err = \<lparr>fd_fd = res, fd_errno = (if res < 0 then err else 0)\<rparr>"

definition fd_dispose :: "file_descriptor \<Rightarrow> file_descriptor \<times> int list" where
  "fd_dispose d = (if 0 \<le> fd_fd d then (\<lparr>fd_fd = -1, fd_errno = 0\<rparr>, [fd_fd d]) else (d, []))"

definition fd_move_ctor :: "file_descriptor \<Rightarrow> file_descriptor \<times> file_descriptor" where
  "fd_move_ctor other = (other, fd_init)"

definition fd_move_assign :: "bool \<Rightarrow> file_descriptor \<Rightarrow> file_descriptor \<Rightarrow> file_descriptor \<times> file_descriptor \<times> int list" where
  "fd_move_assign same this other = (if same then (this, other, []) else case fd_dispose this of (d, closed) \<Rightarrow> (other, d, closed))"

definition fd_holds :: "file_descriptor \<Rightarrow> int multiset" where
  "fd_holds d = (if 0 \<le> fd_fd d then {#fd_fd d#} else {#})"

interpretation file_descriptor: owner fd_holds fd_dispose fd_move_ctor fd_move_assign
  by unfold_locales (auto simp: fd_holds_def fd_dispose_def fd_move_ctor_def fd_move_assign_def fd_init_def split: if_splits)

section \<open>The mappings of a ring\<close>

text \<open>Pointers are addresses; the null pointer is 0.\<close>

record ring_map =
  rm_cmdbuf :: u64
  rm_head :: u64
  rm_tail :: u64

definition rm_init :: ring_map where
  "rm_init = \<lparr>rm_cmdbuf = 0, rm_head = 0, rm_tail = 0\<rparr>"

text \<open>
  The constructor maps the entries, then a page for the head and one for the tail, behind each other in the file; \<open>mmap\<close> is given the
  page offset and the length and returns an address, or nothing. When it fails the exception leaves the constructor, and the
  mappings made so far stay: they are returned beside the error.
\<close>

definition rm_make :: "(nat \<Rightarrow> nat \<Rightarrow> u64 option) \<Rightarrow> nat \<Rightarrow> int \<Rightarrow> nat \<Rightarrow> ring_map result \<times> u64 list" where
  "rm_make mmap bytes fd pg =
     (if fd < 0 then (Inr rm_init, [])
      else case mmap pg bytes of
             None \<Rightarrow> (Inl (System_error ''cannot map cmdbuf''), [])
           | Some b \<Rightarrow>
               let pg' = pg + bytes div 4096
               in case mmap pg' 4096 of
                    None \<Rightarrow> (Inl (System_error ''cannot map head''), [b])
                  | Some h \<Rightarrow>
                      (case mmap (pg' + 1) 4096 of
                         None \<Rightarrow> (Inl (System_error ''cannot map tail''), [b, h])
                       | Some t \<Rightarrow> (Inr \<lparr>rm_cmdbuf = b, rm_head = h, rm_tail = t\<rparr>, [b, h, t])))"

definition rm_dispose :: "ring_map \<Rightarrow> ring_map \<times> u64 list" where
  "rm_dispose r =
     (rm_init, (if rm_tail r \<noteq> 0 then [rm_tail r] else []) @ (if rm_head r \<noteq> 0 then [rm_head r] else []) @ (if rm_cmdbuf r \<noteq> 0 then [rm_cmdbuf r] else []))"

definition rm_move_ctor :: "ring_map \<Rightarrow> ring_map \<times> ring_map" where
  "rm_move_ctor other = (other, rm_init)"

definition rm_move_assign :: "bool \<Rightarrow> ring_map \<Rightarrow> ring_map \<Rightarrow> ring_map \<times> ring_map \<times> u64 list" where
  "rm_move_assign same this other = (if same then (this, other, []) else case rm_dispose this of (r, unmapped) \<Rightarrow> (other, r, unmapped))"

definition rm_holds :: "ring_map \<Rightarrow> u64 multiset" where
  "rm_holds r = filter_mset (\<lambda>p. p \<noteq> 0) {#rm_cmdbuf r, rm_head r, rm_tail r#}"

interpretation ring_map: owner rm_holds rm_dispose rm_move_ctor rm_move_assign
  by unfold_locales (auto simp: rm_holds_def rm_dispose_def rm_move_ctor_def rm_move_assign_def rm_init_def split: if_splits)

section \<open>Resources are given back once\<close>

text \<open>
  C33. Every resource is given back exactly once. For each of the four owning classes, whatever sequence of constructions, moves,
  self-moves and resets a scope performs, when the scope has been left, what was closed, run or unmapped is exactly what was taken, each
  as often as it was taken: nothing leaks and nothing is given back twice.
\<close>

theorem resources_given_back_once:
  "mset (scope (ah_dispose invalid) (ah_move_ctor invalid) (ah_move_assign invalid) handles) = taken (ah_holds invalid) handles \<and>
   mset (scope cl_dispose cl_move_ctor cl_move_assign cleanups) = taken cl_holds cleanups \<and>
   mset (scope fd_dispose fd_move_ctor fd_move_assign fds) = taken fd_holds fds \<and>
   mset (scope rm_dispose rm_move_ctor rm_move_assign rings) = taken rm_holds rings"
  by (simp add: auto_handle.scope_gives_back cleanup.scope_gives_back file_descriptor.scope_gives_back ring_map.scope_gives_back)

text \<open>A ring whose constructor fails half-way leaves the mappings it has made: there is no object that would give them back.\<close>

theorem failed_ring_leaks: "mmap pg bytes = Some b \<Longrightarrow> 0 \<le> fd \<Longrightarrow> mmap (pg + bytes div 4096) 4096 = None \<Longrightarrow>
   rm_make mmap bytes fd pg = (Inl (System_error ''cannot map head''), [b])"
  by (simp add: rm_make_def Let_def)

end
