(* ===== verification/XcowCtl.thy ===== *)
theory XcowCtl
  imports XcowProps Handles
begin

text \<open>
  The tools around the metadata file: mapping and locking it (\<open>file_deref.cpp\<close>, \<open>file_deref.hpp\<close>), the administration program
  \<open>xcowctl.cpp\<close> that formats it and lists, creates and drops snapshots, and the listing that \<open>xcowdump.cpp\<close> prints.
\<close>

section \<open>The mapped file\<close>

text \<open>What the system calls on the metadata file return.\<close>

record map_env =
  me_open :: "int \<times> int"
  me_lock :: bool
  me_lseek :: int
  me_mmap :: bool
  me_madvise :: bool

definition file_lock :: "map_env \<Rightarrow> unit xprog" where
  "file_lock M = (if me_lock M then return () else raise (System_error ''fcntl(F_OFD_SETLK)''))"

definition file_deref_make :: "map_env \<Rightarrow> unit xprog" where
  "file_deref_make M =
     (if me_lseek M < 0 then raise (System_error ''lseek'')
      else if \<not> me_mmap M then raise (System_error ''mmap'')
      else if \<not> me_madvise M then raise (System_error ''cannot madvise(MADV_DONTDUMP) deref memory'')
      else smod (\<lambda>f. f\<lparr>xf_size := word_of_int (me_lseek M)\<rparr>))"

text \<open>
  \<open>commit\<close> extends its range downwards to the start of a page, because \<open>msync\<close> wants a page address; the result is the range it
  passes on. \<open>prefetch\<close> passes its range on as it is.
\<close>

definition file_deref_commit :: "(nat \<times> nat \<Rightarrow> bool) \<Rightarrow> u64 \<Rightarrow> u64 \<Rightarrow> (nat \<times> nat) xprog" where
  "file_deref_commit msync off nbytes =
     (let poff = off AND of_nat (NVME_PAGE_SIZE - 1);
          (off', nbytes') = if poff \<noteq> 0 then (off - poff, nbytes + poff) else (off, nbytes)
      in sbind (sget xf_size) (\<lambda>sz.
           if unat sz < unat off' + unat nbytes' then raise (Undefined ''subspan'')
           else if \<not> msync (unat off', unat nbytes') then raise (System_error ''msync'')
           else return (unat off', unat nbytes')))"

definition file_deref_prefetch :: "(nat \<times> nat \<Rightarrow> bool) \<Rightarrow> u64 \<Rightarrow> u64 \<Rightarrow> (nat \<times> nat) xprog" where
  "file_deref_prefetch madvise off nbytes =
     sbind (sget xf_size) (\<lambda>sz.
       if unat sz < unat off + unat nbytes then raise (Undefined ''subspan'')
       else if \<not> madvise (unat off, unat nbytes) then raise (System_error ''madvise(MADV_WILLNEED)'')
       else return (unat off, unat nbytes))"

lemma commit_covers:
  assumes "unat off + unat nbytes \<le> unat (xf_size f)" "unat (xf_size f) < 2 ^ 63" "\<And>r. msync r"
  shows "\<exists>o' n'. file_deref_commit msync off nbytes f = (Inr (o', n'), f) \<and> o' mod NVME_PAGE_SIZE = 0 \<and> o' \<le> unat off \<and>
    o' + n' = unat off + unat nbytes \<and> n' < unat nbytes + NVME_PAGE_SIZE"
proof -
  define p where "p = off AND of_nat (NVME_PAGE_SIZE - 1)"
  have p: "unat p = unat off mod 4096" using unat_and_mask [of off 12] by (simp add: p_def mask_eq_exp_minus_1)
  have "unat (off - p) = unat off - unat off mod 4096" by (subst unat_sub_small) (simp_all add: p)
  moreover have "unat (nbytes + p) = unat nbytes + unat off mod 4096"
    by (subst unat_add_small) (use assms(1,2) mod_less_divisor [of 4096 "unat off"] p in \<open>simp_all\<close>)
  moreover have "unat off - unat off mod 4096 + (unat nbytes + unat off mod 4096) = unat off + unat nbytes"
    using mod_less_eq_dividend [of "unat off" 4096] by linarith
  moreover have "unat off mod 4096 = 0" if "p = 0" using p that by simp
  ultimately show ?thesis
    using assms unfolding file_deref_commit_def p_def [symmetric]
    by (cases "p = 0") (auto simp: prog_simps Let_def minus_mod_eq_mult_div)
qed

section \<open>xcowctl\<close>

text \<open>The options, as the option parser gives them to \<open>main\<close>, and what the system calls on the data disk return.\<close>

record ctl_args =
  ca_op :: string
  ca_fsize :: u64
  ca_cluster_bits :: u32
  ca_snap_index :: "int option"

record ctl_env =
  ce_map :: map_env
  ce_blkdev :: "int \<times> int"
  ce_metasize :: int
  ce_disksize :: int
  ce_fallocate :: "u64 \<Rightarrow> bool"

datatype ctl_out = Snap_line nat u64 u64 u64 | Hwm_line u64

definition open_or_throw :: "int \<times> int \<Rightarrow> string \<Rightarrow> unit xprog" where
  "open_or_throw r what = (if fd_errno (fd_open (fst r) (snd r)) \<noteq> 0 then raise (System_error what) else return ())"

text \<open>The loop of \<open>snap-list\<close>. A list of tables that runs in a circle is printed without end; \<open>None\<close> is a loop that has not ended.\<close>

fun snap_lines :: "nat \<Rightarrow> lt_iter \<Rightarrow> nat \<Rightarrow> ctl_out list option xprog" where
  "snap_lines 0 it i = return None"
| "snap_lines (Suc fuel) it i =
     (if lt_iter_at_end it then return (Some [])
      else sbind (lt_iter_deref it) (\<lambda>e.
        sbind (lt_iter_incr it) (\<lambda>it'.
          sbind (snap_lines fuel it' (i + 1)) (\<lambda>ls.
            return (map_option (Cons (Snap_line i (fst e) (decode_snap_entry e) (snd e))) ls)))))"

definition ctl_index :: "ctl_args \<Rightarrow> int" where
  "ctl_index A = (case ca_snap_index A of None \<Rightarrow> 0 | Some i \<Rightarrow> i)"

definition ctl_format :: "ctl_env \<Rightarrow> ctl_args \<Rightarrow> unit xprog" where
  "ctl_format E A =
     (let cb = unat (ca_cluster_bits A)
      in sbind (open_or_throw (ce_blkdev E) ''cannot open blkdev'') (\<lambda>_.
           if ce_metasize E < 0 then raise (System_error ''metasize'')
           else if ce_disksize E < 0 then raise (System_error ''disksize'')
           else if 64 \<le> cb then raise (Undefined ''shift'')
           else if \<not> ce_fallocate E (push_bit cb 1) then raise (System_error ''fallocate'')
           else xcow_format (ca_fsize A) (ca_cluster_bits A) (word_of_int (drop_bit cb (ce_metasize E))) (word_of_int (drop_bit cb (ce_disksize E)))))"

definition ctl_snap_create :: "ctl_args \<Rightarrow> xcow_snap xprog" where
  "ctl_snap_create A = sbind (open_read (ctl_index A)) (\<lambda>snap. sbind (snap_create snap) (\<lambda>(new, old). return new))"

definition ctl_snap_peel :: "unit xprog" where
  "ctl_snap_peel = sbind open_write peel"

definition ctl_hwm :: "xcow_snap \<Rightarrow> u64 xprog" where
  "ctl_hwm s = (case xs_disk_hwm s of None \<Rightarrow> raise (Undefined ''null pointer'') | Some d \<Rightarrow> cell_get d)"

definition xcowctl :: "nat \<Rightarrow> ctl_env \<Rightarrow> ctl_args \<Rightarrow> ctl_out list option xprog" where
  "xcowctl fuel E A =
     sbind (open_or_throw (me_open (ce_map E)) ''cannot open mapfile'') (\<lambda>_.
     sbind (file_lock (ce_map E)) (\<lambda>_.
     sbind (file_deref_make (ce_map E)) (\<lambda>_.
       if ca_op A = ''format'' then sbind (ctl_format E A) (\<lambda>_. return (Some []))
       else sbind xcow_open (\<lambda>_.
         if ca_op A = ''snap-list''
         then sbind (sget xf_snaps) (\<lambda>t. sbind (lt_iter_make (Some t)) (\<lambda>it. snap_lines fuel it 0))
         else if ca_op A = ''snap-create'' then sbind (ctl_snap_create A) (\<lambda>_. return (Some []))
         else if ca_op A = ''snap-peel'' then sbind ctl_snap_peel (\<lambda>_. return (Some []))
         else if ca_op A = ''snap-recreate''
         then sbind ctl_snap_peel (\<lambda>_. sbind (ctl_snap_create A) (\<lambda>new. sbind (ctl_hwm new) (\<lambda>h. return (Some [Hwm_line h]))))
         else raise (Runtime_error ''unknown operation'')))))"

section \<open>xcowdump\<close>

text \<open>The loops over the tables of the snapshot list, newest entry first, and over those of the free list.\<close>

fun dump_entries :: "cells \<Rightarrow> nat \<Rightarrow> (u64 \<times> u64) list xprog" where
  "dump_entries t 0 = return []"
| "dump_entries t (Suc n) = sbind (sl_get t n) (\<lambda>e. sbind (dump_entries t n) (\<lambda>es. return (e # es)))"

fun dump_snaps :: "nat \<Rightarrow> cells option \<Rightarrow> (u64 \<times> u64) list option xprog" where
  "dump_snaps 0 sl = return None"
| "dump_snaps (Suc fuel) None = return (Some [])"
| "dump_snaps (Suc fuel) (Some t) =
     sbind (sl_active t) (\<lambda>n.
       sbind (dump_entries t n) (\<lambda>es.
         sbind (lt_next 16 t) (\<lambda>t'.
           sbind (dump_snaps fuel t') (\<lambda>rest. return (map_option (append es) rest)))))"

definition fl_active :: "cells \<Rightarrow> nat xprog" where
  "fl_active t = sbind (sget (\<lambda>f. lt_end f t)) (\<lambda>n. if lt_room 1 t < n then raise (Undefined ''subspan'') else return n)"

fun dump_frees :: "cells \<Rightarrow> nat \<Rightarrow> nat \<Rightarrow> u64 list xprog" where
  "dump_frees t i 0 = return []"
| "dump_frees t i (Suc n) =
     sbind (span_get (fst t + 2, snd t - 2) i) (\<lambda>e. sbind (dump_frees t (i + 1) n) (\<lambda>es. return (decode_free_entry e # es)))"

fun dump_free :: "nat \<Rightarrow> cells option \<Rightarrow> u64 list option xprog" where
  "dump_free 0 fl = return None"
| "dump_free (Suc fuel) None = return (Some [])"
| "dump_free (Suc fuel) (Some t) =
     sbind (fl_active t) (\<lambda>n.
       sbind (dump_frees t 0 n) (\<lambda>es.
         sbind (lt_next 8 t) (\<lambda>t'.
           sbind (dump_free fuel t') (\<lambda>rest. return (map_option (append es) rest)))))"

section \<open>Opening and creating\<close>

text \<open>All system calls succeed, and the file is as long as it was.\<close>

definition ctl_ready :: "ctl_env \<Rightarrow> xcow_file \<Rightarrow> bool" where
  "ctl_ready E f \<longleftrightarrow> 0 \<le> fst (me_open (ce_map E)) \<and> me_lock (ce_map E) \<and> 0 \<le> me_lseek (ce_map E) \<and> me_mmap (ce_map E) \<and> me_madvise (ce_map E) \<and>
     word_of_int (me_lseek (ce_map E)) = xf_size f"

lemma ctl_prologue:
  assumes "ctl_ready E f"
  shows "sbind (open_or_throw (me_open (ce_map E)) w) (\<lambda>_. sbind (file_lock (ce_map E)) (\<lambda>_. sbind (file_deref_make (ce_map E)) (\<lambda>_. rest))) f = rest f"
proof -
  have "f\<lparr>xf_size := word_of_int (me_lseek (ce_map E))\<rparr> = f" using assms by (simp add: ctl_ready_def)
  then show ?thesis
    using assms by (simp add: ctl_ready_def open_or_throw_def fd_open_def file_lock_def file_deref_make_def prog_simps)
qed

text \<open>The constructor depends on the header and the size of the file only.\<close>

lemma xcow_open_same:
  assumes "xcow_open f = (Inr (), f)" "\<And>k. k < 7 \<Longrightarrow> k \<noteq> 3 \<Longrightarrow> xf_mem f' k = xf_mem f k"
    "xf_size f' = xf_size f" "xf_snaps f' = xf_snaps f" "xf_flist f' = xf_flist f"
  shows "xcow_open f' = (Inr (), f')"
proof -
  have h: "hdr_magic f' = hdr_magic f" "hdr_cluster_bits f' = hdr_cluster_bits f" "hdr_snaplist f' = hdr_snaplist f" "hdr_freelist f' = hdr_freelist f"
    "cluster_size f' = cluster_size f"
    using assms(2) by (simp_all add: hdr_magic_def hdr_cluster_bits_def hdr_snaplist_def hdr_freelist_def cluster_size_def cluster_bits_def)
  have d: "deref a n f' = (fst (deref a n f), f')" "snd (deref a n f) = f" for a n using assms(3) by (simp_all add: deref_def prog_simps)
  have l: "lt_make e sp f' = (fst (lt_make e sp f), f')" "snd (lt_make e sp f) = f" for e sp
    by (simp_all add: lt_make_def XcowFmt.convert_span_def prog_simps)
  have m: "make_hdr f' = (fst (make_hdr f), f')" using h d [of 0 XcowHeader_size] by (auto simp: make_hdr_def prog_simps split: sum.splits prod.splits)
  have keep: "make_hdr g = (r, g') \<longleftrightarrow> g' = g \<and> fst (make_hdr g) = r" "deref a n g = (r', g') \<longleftrightarrow> g' = g \<and> fst (deref a n g) = r'"
    "lt_make e sp g = (r'', g') \<longleftrightarrow> g' = g \<and> fst (lt_make e sp g) = r''" for g g' a n e sp r r' r''
    by (auto simp: make_hdr_def deref_def lt_make_def XcowFmt.convert_span_def prog_simps split: if_splits sum.splits prod.splits)
  have upd: "g = g\<lparr>xf_snaps := a, xf_flist := b\<rparr> \<Longrightarrow> xf_snaps g = a \<and> xf_flist g = b" for g a b by (cases g) simp
  obtain ssp snaps fsp flist where r: "make_hdr f = (Inr (), f)" "deref (lt_decode (hdr_snaplist f)) (cluster_size f) f = (Inr ssp, f)"
      "lt_make 16 ssp f = (Inr snaps, f)" "deref (lt_decode (hdr_freelist f)) (cluster_size f) f = (Inr fsp, f)" "lt_make 8 fsp f = (Inr flist, f)"
      "xf_snaps f = snaps" "xf_flist f = flist"
    using assms(1) unfolding xcow_open_def sbind_Inr_iff by (auto simp: keep dest!: upd [OF sym])
  have "f'\<lparr>xf_snaps := snaps, xf_flist := flist\<rparr> = f'" using r(6,7) assms(4,5) by (cases f') simp
  then show ?thesis unfolding xcow_open_def by (simp add: prog_simps m d(1) l(1) h r)
qed

lemma open_read_last:
  assumes st: "snap_state f root d tk" and e: "last_entry_ok f root d" and i: "i \<le> 0"
  shows "open_read i f = (Inr \<lparr>xs_root = root, xs_disk_hwm = None\<rparr>, f)"
proof -
  note sd = snap_stateD [OF st]
  let ?i = "lt_end f (xf_snaps f) - 1"
  have ge: "sl_get (xf_snaps f) ?i f = (Inr (xf_mem f (d - 1), xf_mem f d), f)"
    using sl_get_n [OF sd(6,3), of ?i] sd(4,5,8) by simp
  have "deref (xf_mem f (d - 1) AND file_decode_mask) (cluster_size f) f = (Inr (fst root, 8 * csz f), f)"
    by (rule deref_n) (use e cluster_size_n [OF sd(6)] in_file_bytes [OF sd(6) winvD(5) [OF sd(1)]] sd(2) in \<open>simp_all add: last_entry_ok_def\<close>)
  moreover have "(fst root, csz f) = root" using sd(2) by (metis prod.collapse)
  ultimately show ?thesis
    using sd(4) i sl_active_n [OF sd(3)] ge by (simp add: open_read_def prog_simps decode_snap_entry_def nt_make_n)
qed

lemma snap_create_root: "xs_root s = xs_root s' \<Longrightarrow> snap_create s = snap_create s'"
proof -
  assume r: "xs_root s = xs_root s'"
  then have e: "s\<lparr>xs_disk_hwm := None\<rparr> = s'\<lparr>xs_disk_hwm := None\<rparr>" by (cases s; cases s') simp
  show ?thesis unfolding snap_create_def r e ..
qed

lemma ctl_snap_create_n:
  assumes "disk_inv f s" "ctl_index A \<le> 0"
  shows "ctl_snap_create A f = (case snap_create s f of (Inl e, f') \<Rightarrow> (Inl e, f') | (Inr (new, old), f') \<Rightarrow> (Inr new, f'))"
proof -
  from assms(1) obtain d tk where "snap_state f (xs_root s) d tk" "last_entry_ok f (xs_root s) d" by (rule disk_invE)
  from open_read_last [OF this assms(2)] show ?thesis
    using snap_create_root [of "\<lparr>xs_root = xs_root s, xs_disk_hwm = None\<rparr>" s]
    by (simp add: ctl_snap_create_def prog_simps split: sum.splits prod.splits)
qed

lemma open_write_inv: "disk_inv f s \<Longrightarrow> open_write f = (Inr s, f)"
proof -
  assume "disk_inv f s"
  then obtain d tk where "xs_disk_hwm s = Some d" "snap_state f (xs_root s) d tk" "last_entry_ok f (xs_root s) d" by (rule disk_invE)
  then show ?thesis using open_write_n [of f "xs_root s" d tk] by (cases s) simp
qed

section \<open>Going back to a snapshot\<close>

lemma snap_create_outcome:
  assumes "disk_inv f s" "0 < list_room f" "snap_create s f = (Inl e, f')"
  shows "e = Hwm_exception \<and> f' = f"
proof -
  from assms(1) obtain d tk where st: "snap_state f (xs_root s) d tk" by (rule disk_invE)
  have "lt_end f (xf_snaps f) < csz f div 2 - 1" using assms(2) by (simp add: list_room_def)
  then show ?thesis
    using assms(3) snap_create_n [OF st] snap_create_full [OF st] by (cases "hwm_n f < unat (hdr_hwm_limit f)") auto
qed

lemma ctl_snap_peel_n:
  assumes "disk_inv f s" "peel s f = (Inr (), f')"
  shows "ctl_snap_peel f = (Inr (), f')"
  using open_write_inv [OF assms(1)] assms(2) by (simp add: ctl_snap_peel_def prog_simps)

lemma ctl_hwm_n:
  assumes "disk_inv f s"
  shows "\<exists>h. ctl_hwm s f = (Inr h, f) \<and> unat h = counter f s"
proof -
  from assms obtain d tk where d: "xs_disk_hwm s = Some d" and st: "snap_state f (xs_root s) d tk" and w: "winv f (xs_root s) d" by (rule disk_invE)
  have "d < hwm_n f * csz f" "8 * (hwm_n f * csz f) \<le> unat (xf_size f)" using winvD(4) [OF w] geom_hwm [OF winvD(1) [OF w]] by simp_all
  then have "8 * d + 8 \<le> unat (xf_size f)" by linarith
  then show ?thesis using d by (simp add: ctl_hwm_def cell_get_n counter_def)
qed

lemma ctl_create_run:
  assumes "ctl_ready E f" "xcow_open f = (Inr (), f)" "disk_inv f s" "ca_op A = ''snap-create''" "ctl_index A \<le> 0"
  shows "xcowctl fuel E A f = (case snap_create s f of (Inl e, f') \<Rightarrow> (Inl e, f') | (Inr (new, old), f') \<Rightarrow> (Inr (Some []), f'))"
  unfolding xcowctl_def ctl_prologue [OF assms(1)]
  by (simp add: assms(4) prog_simps assms(2) ctl_snap_create_n [OF assms(3,5)] split: sum.splits prod.splits)

text \<open>
  C30. The administration program takes the disk back to a snapshot. Create a snapshot with \<open>snap-create\<close>, and let the server write to
  the disk as often as you like. Then \<open>snap-peel\<close> succeeds and makes the old snapshot the writable one; and \<open>snap-recreate\<close> makes a new
  snapshot of the old one, prints its counter of data clusters, or, when the metadata file is full, ends
  with \<open>hwm_exception\<close> and leaves what \<open>snap-peel\<close> leaves. In each case the disk shows again, at every address, what it showed
  when the snapshot was created.
\<close>

theorem tool_takes_disk_back:
  assumes inv: "disk_inv f s" "xcow_open f = (Inr (), f)" "0 < list_room f" and E: "ctl_ready E f"
    and create: "ca_op A = ''snap-create''" "ctl_index A \<le> 0" "xcowctl fuel E A f = (Inr out, f1)" "open_write f1 = (Inr s1, f1)"
    and writes: "\<And>a. a \<in> set as \<Longrightarrow> on_disk f a"
    and ops: "ca_op P = ''snap-peel''" "ca_op R = ''snap-recreate''" "ctl_index R \<le> 0"
  shows "(\<exists>f3. xcowctl fuel E P (disk_writes s1 as f1) = (Inr (Some []), f3) \<and> open_write f3 = (Inr s, f3) \<and> disk_inv f3 s \<and>
      (\<forall>b. on_disk f b \<longrightarrow> disk_view f3 s b = disk_view f s b) \<and>
      (case xcowctl fuel E R (disk_writes s1 as f1) of
         (Inl e, f4) \<Rightarrow> e = Hwm_exception \<and> f4 = f3
       | (Inr lines, f4) \<Rightarrow> \<exists>s4 h. lines = Some [Hwm_line h] \<and> unat h = counter f4 s4 \<and> open_write f4 = (Inr s4, f4) \<and> disk_inv f4 s4 \<and>
           (\<forall>b. on_disk f b \<longrightarrow> disk_view f4 s4 b = disk_view f s b)))"
proof -
  have "xcowctl fuel E A f = (case snap_create s f of (Inl e, f') \<Rightarrow> (Inl e, f') | (Inr (new, old), f') \<Rightarrow> (Inr (Some []), f'))"
    by (rule ctl_create_run [OF E inv(2,1) create(1,2)])
  then obtain new s0 where cr: "snap_create s f = (Inr (new, s0), f1)" using create(3) by (auto split: sum.splits prod.splits)
  have i1: "disk_inv f1 new" using disk_snap_laws(1) [OF inv(1,3)] cr by (simp add: disk_snap_def)
  have new: "new = s1" using open_write_inv [OF i1] create(4) by simp
  note pr = peel_reverts [where as = as, OF inv(1,3) cr [unfolded new] writes]
  let ?f2 = "disk_writes s1 as f1" and ?f3 = "popped (disk_writes s1 as f1)"
  have E2: "ctl_ready E ?f2" using E pr(10) by (simp add: ctl_ready_def)
  have o2: "xcow_open ?f2 = (Inr (), ?f2)" by (rule xcow_open_same [OF inv(2)]) (use pr(9-12) in simp_all)
  have p: "ctl_snap_peel ?f2 = (Inr (), ?f3)" by (rule ctl_snap_peel_n [OF pr(1,2)])
  have peeled: "xcowctl fuel E P ?f2 = (Inr (Some []), ?f3)"
    unfolding xcowctl_def ctl_prologue [OF E2] by (simp add: ops(1) prog_simps o2 p)
  have rec: "xcowctl fuel E R ?f2 = sbind (ctl_snap_create R) (\<lambda>new. sbind (ctl_hwm new) (\<lambda>h. return (Some [Hwm_line h]))) ?f3"
    unfolding xcowctl_def ctl_prologue [OF E2] by (simp add: ops(2) prog_simps o2 p)
  have rec2: "case xcowctl fuel E R ?f2 of
         (Inl e, f4) \<Rightarrow> e = Hwm_exception \<and> f4 = ?f3
       | (Inr lines, f4) \<Rightarrow> \<exists>s4 h. lines = Some [Hwm_line h] \<and> unat h = counter f4 s4 \<and> open_write f4 = (Inr s4, f4) \<and> disk_inv f4 s4 \<and>
           (\<forall>b. on_disk f b \<longrightarrow> disk_view f4 s4 b = disk_view f s b)"
  proof (cases "snap_create s ?f3")
    case (Pair r f4)
    have room: "0 < list_room ?f3" using pr(6) inv(3) by simp
    note cc = ctl_snap_create_n [OF pr(4) ops(3), unfolded Pair]
    show ?thesis
    proof (cases r)
      case (Inl e)
      have "e = Hwm_exception \<and> f4 = ?f3" using snap_create_outcome [OF pr(4) room] Pair Inl by simp
      then show ?thesis using Inl cc by (simp add: rec prog_simps)
    next
      case (Inr p)
      obtain s4 s0' where "p = (s4, s0')" by force
      then have sn: "disk_snap ?f3 s = (f4, Some (s4, s0'))" using Pair Inr by (simp add: disk_snap_def)
      note laws = disk_snap_laws [OF pr(4) room sn]
      obtain h where "ctl_hwm s4 f4 = (Inr h, f4)" "unat h = counter f4 s4" using ctl_hwm_n [OF laws(1)] by blast
      then show ?thesis
        using cc Inr \<open>p = _\<close> open_write_inv [OF laws(1)] laws(1,5) pr(5,7) by (auto simp: rec prog_simps)
    qed
  qed
  show ?thesis using peeled pr(3-5) rec2 by (intro exI [of _ ?f3]) simp
qed

definition sample_ctl :: ctl_env where
  "sample_ctl = \<lparr>ce_map = \<lparr>me_open = (3, 0), me_lock = True, me_lseek = 65536, me_mmap = True, me_madvise = True\<rparr>,
     ce_blkdev = (4, 0), ce_metasize = 65536, ce_disksize = 409600, ce_fallocate = (\<lambda>_. True)\<rparr>"

definition sample_op :: "string \<Rightarrow> ctl_args" where
  "sample_op op = \<lparr>ca_op = op, ca_fsize = 0, ca_cluster_bits = 16, ca_snap_index = None\<rparr>"

lemma demo_ready: "ctl_ready sample_ctl demo_file"
  by (simp add: ctl_ready_def sample_ctl_def demo_file_def formatted_def blank_file_def)

lemma demo_open: "xcow_open demo_file = (Inr (), demo_file)"
  unfolding demo_file_def by (rule xcow_open_formatted [OF demo_fmt])

theorem tool_takes_disk_back_witness:
  "\<exists>f1 s1 f3. xcowctl 0 sample_ctl (sample_op ''snap-create'') demo_file = (Inr (Some []), f1) \<and> open_write f1 = (Inr s1, f1) \<and>
     xcowctl 0 sample_ctl (sample_op ''snap-peel'') (disk_writes s1 [0, 4096] f1) = (Inr (Some []), f3) \<and>
     disk_view f3 demo_snap 4096 = Inr empty_leaf"
proof -
  obtain s1 s0 f1 where c: "snap_create demo_snap demo_file = (Inr (s1, s0), f1)" by (rule demo_snapshot)
  have room: "0 < list_room demo_file" using demo_room by simp
  have run: "xcowctl 0 sample_ctl (sample_op ''snap-create'') demo_file = (Inr (Some []), f1)"
    by (subst ctl_create_run [OF demo_ready demo_open demo_inv]) (simp_all add: sample_op_def ctl_index_def c)
  have ow: "open_write f1 = (Inr s1, f1)" by (rule open_write_inv) (use disk_snap_laws(1) [OF demo_inv room] c in \<open>simp add: disk_snap_def\<close>)
  have od: "on_disk demo_file a" if "a \<in> set [0, 4096]" for a using that demo_on_disk by auto
  obtain f3 where "xcowctl 0 sample_ctl (sample_op ''snap-peel'') (disk_writes s1 [0, 4096] f1) = (Inr (Some []), f3)"
    "\<forall>b. on_disk demo_file b \<longrightarrow> disk_view f3 demo_snap b = disk_view demo_file demo_snap b"
    using tool_takes_disk_back [OF demo_inv demo_open room demo_ready _ _ run ow od, of "[0, 4096]" "sample_op ''snap-peel''" "sample_op ''snap-recreate''"]
    by (auto simp: sample_op_def ctl_index_def)
  then show ?thesis using run ow demo_view [of 4096] demo_on_disk [of 4096] by auto
qed

section \<open>Listing\<close>

definition entry_at :: "xcow_file \<Rightarrow> cells \<Rightarrow> nat \<Rightarrow> u64 \<times> u64" where
  "entry_at f t i = (xf_mem f (sl_entry_cell t i), xf_mem f (sl_entry_cell t i + 1))"

text \<open>The entries of a table, newest first.\<close>

definition table_entries :: "xcow_file \<Rightarrow> cells \<Rightarrow> nat \<Rightarrow> (u64 \<times> u64) list" where
  "table_entries f t n = map (\<lambda>j. entry_at f t (n - 1 - j)) [0..<n]"

lemma table_entries_Suc: "table_entries f t (Suc n) = entry_at f t n # table_entries f t n"
  by (simp add: table_entries_def map_upt_Suc del: upt_Suc)

lemma table_entries_simps [simp]: "table_entries f t 0 = []" "length (table_entries f t n) = n"
  by (simp_all add: table_entries_def)

definition line_of :: "nat \<Rightarrow> u64 \<times> u64 \<Rightarrow> ctl_out" where
  "line_of i e = Snap_line i (fst e) (decode_snap_entry e) (snd e)"

lemma snap_lines_table:
  assumes g: "geom f" and t: "tab_ok f t tk" and nx: "\<not> lt_valid (lt_ref f t)" and n: "n \<le> csz f div 2 - 1" "n < fuel" "0 < n"
  shows "snap_lines fuel \<lparr>lti_table = Some t, lti_off = of_nat n\<rparr> i f =
    (Inr (Some (map (\<lambda>(j, e). line_of (i + j) e) (enumerate 0 (table_entries f t n)))), f)"
  using n
proof (induction n arbitrary: i fuel)
  case (Suc n)
  have small: "csz f \<le> 2 ^ 13" by (rule csz_le [OF g])
  have u: "unat (of_nat (Suc n) :: u64) = Suc n" by (subst unat_of_nat) (use Suc.prems(1) small in simp)
  then have ne: "(of_nat (Suc n) :: u64) \<noteq> 0" by (metis nat.distinct(1) unat_0)
  have de: "lt_iter_deref \<lparr>lti_table = Some t, lti_off = of_nat (Suc n)\<rparr> f = (Inr (entry_at f t n), f)"
    using sl_get_n [OF g t, of n] Suc.prems(1) u ne by (simp add: lt_iter_deref_def entry_at_def del: of_nat_Suc)
  obtain fuel' where fu: "fuel = Suc fuel'" using Suc.prems(2) by (cases fuel) auto
  show ?case
  proof (cases n)
    case 0
    have "lt_iter_incr \<lparr>lti_table = Some t, lti_off = of_nat (Suc n)\<rparr> f = (Inr \<lparr>lti_table = None, lti_off = 0\<rparr>, f)"
      using nx 0 by (simp add: lt_iter_incr_def lt_next_def prog_simps)
    moreover obtain fuel'' where "fuel' = Suc fuel''" using Suc.prems(2) fu 0 by (cases fuel') auto
    ultimately show ?thesis
      using de ne 0 by (simp add: fu prog_simps lt_iter_at_end_def table_entries_Suc line_of_def del: of_nat_Suc)
  next
    case (Suc m)
    have "(of_nat n :: u64) \<noteq> 0"
    proof -
      have "unat (of_nat n :: u64) = n" by (subst unat_of_nat) (use Suc.prems(1) small in simp)
      then show ?thesis using Suc by (metis nat.distinct(1) unat_0)
    qed
    then have ic: "lt_iter_incr \<lparr>lti_table = Some t, lti_off = of_nat (Suc n)\<rparr> f = (Inr \<lparr>lti_table = Some t, lti_off = of_nat n\<rparr>, f)"
      by (simp add: lt_iter_incr_def)
    have "snap_lines fuel' \<lparr>lti_table = Some t, lti_off = of_nat n\<rparr> (i + 1) f =
        (Inr (Some (map (\<lambda>(j, e). line_of (i + 1 + j) e) (enumerate 0 (table_entries f t n)))), f)"
      by (rule Suc.IH) (use Suc.prems fu Suc in simp_all)
    then show ?thesis
      using de ic by (simp add: fu prog_simps lt_iter_at_end_def table_entries_Suc line_of_def enumerate_Suc_eq split_def del: of_nat_Suc)
  qed
qed simp

lemma dump_entries_table:
  assumes "geom f" "tab_ok f t tk" "n \<le> csz f div 2 - 1"
  shows "dump_entries t n f = (Inr (table_entries f t n), f)"
  using assms(3)
proof (induction n)
  case (Suc n)
  then show ?case using sl_get_n [OF assms(1,2), of n] by (simp add: prog_simps table_entries_Suc entry_at_def)
qed simp

lemma open_read_loop_table: "i \<le> n \<Longrightarrow> open_read_loop i t n f = (Inr (t, n - i), f)"
proof (induction i arbitrary: n)
  case (Suc i)
  then obtain m where "n = Suc m" by (cases n) auto
  then show ?case using Suc by simp
qed simp



end
