(* ===== verification/NvmeXcow.thy ===== *)
theory NvmeXcow
  imports NvmeCtrl XcowProps Uring LbaCache BlkIter
begin

text \<open>
  The copy-on-write controller (\<open>nvme_xcow.hpp\<close>, \<open>nvme_xcow.cpp\<close>): what it does with a command that the classifier hands
  to it. Commands that need an allocation or a copy go through the asynchronous ring with a ticket that locks the cluster;
  commands that meet a locked cluster wait in a work queue.
\<close>

section \<open>Replies, tickets and queued work\<close>

definition set_aux_addr :: "u64 \<Rightarrow> u32 \<Rightarrow> nmntfy_aux" where
  "set_aux_addr paddr a0 = \<lparr>aux0 = a0, aux1 = ucast (paddr AND 0xffffffff), aux2 = ucast (drop_bit 32 paddr)\<rparr>"

definition set_aux_leaf :: "u64 \<Rightarrow> u32 \<Rightarrow> nmntfy_aux" where
  "set_aux_leaf tl0 a0 =
     (let a1 = if tl0 AND xl_valid \<noteq> 0 then a0 OR AUXBITS_VALID else a0;
          a2 = if tl0 AND xl_writable \<noteq> 0 then a1 OR AUXBITS_WRITABLE else a1
      in set_aux_addr (decode_leaf tl0) a2)"

record nm_reply =
  rp_tag :: u32
  rp_status :: u16
  rp_aux :: nmntfy_aux

definition mk_reply :: "u32 \<Rightarrow> u16 \<Rightarrow> nmntfy_aux \<Rightarrow> nm_reply" where
  "mk_reply tag st a = \<lparr>rp_tag = tag, rp_status = st, rp_aux = a\<rparr>"

text \<open>
  A ticket of the ring. \<open>xt_last\<close> is the action its destructor runs: committing an entry, named by its word in
  the metadata file. The scatter lists and the bounce buffer are owned by the ticket.
\<close>

record xcow_ticket = multi_ticket +
  xt_aux :: nmntfy_aux
  xt_locked_cluster :: u64
  xt_last :: "(nat \<times> u64) option"
  xt_iovecss :: "iovec list list"
  xt_mem :: "u64 option"

definition new_xcow_ticket :: "u32 \<Rightarrow> xcow_ticket" where
  "new_xcow_ticket tag =
     \<lparr>tk_tag = tag, tk_count = 0, xt_aux = zero_aux, xt_locked_cluster = U64_MAX, xt_last = None, xt_iovecss = [], xt_mem = None\<rparr>"

datatype nm_outcome = Nothing | Reply nm_reply | Ticket nat

text \<open>
  The closures in the work queue: the write of one cluster of a larger command (its tag, its ticket, which scatter list, the
  entry's word, offset and flags), and the answer to a command within one cluster (its tag and the entry's word).
\<close>

datatype xwork =
    Write_work u32 nat nat nat u64 int
  | Reply_work u32 nat

definition translate_uring_status :: "int \<Rightarrow> u16" where
  "translate_uring_status us = (if us < 0 then NVME_SC_DNR OR NVME_SC_INTERNAL else NVME_SC_SUCCESS)"

section \<open>The controller\<close>

record xcow_ctrl =
  xc_nvme :: nvme
  xc_vm :: mapping
  xc_file :: xcow_file
  xc_snap :: xcow_snap
  xc_ring :: uring
  xc_clock :: "bool list"
  xc_wq :: "(u64 \<times> xwork) list"
  xc_heap :: "nat \<Rightarrow> xcow_ticket option"
  xc_fresh :: nat

type_synonym 'a cprog = "(xcow_ctrl, 'a) prog"

text \<open>What the controller is given from outside: the identify ioctls, and the ring library.\<close>

record xcow_env =
  xe_kernel :: nvme_kernel
  xe_uring :: liburing
  xe_set_id_vns :: "nvme_id_ns \<Rightarrow> int"

definition on_nvme :: "(nvme, 'a) prog \<Rightarrow> 'a cprog" where
  "on_nvme = zoom xc_nvme (\<lambda>t s. s\<lparr>xc_nvme := t\<rparr>)"

definition on_file :: "'a xprog \<Rightarrow> 'a cprog" where
  "on_file = zoom xc_file (\<lambda>t s. s\<lparr>xc_file := t\<rparr>)"

definition on_ring :: "(uring, 'a) prog \<Rightarrow> 'a cprog" where
  "on_ring = zoom xc_ring (\<lambda>t s. s\<lparr>xc_ring := t\<rparr>)"

definition on_vm :: "(mapping \<Rightarrow> 'a result) \<Rightarrow> 'a cprog" where
  "on_vm g = sbind (sget xc_vm) (\<lambda>m. lift_result (g m))"

text \<open>Tickets on the heap. Using or deleting one that is gone is undefined.\<close>

definition new_ticket :: "xcow_ticket \<Rightarrow> nat cprog" where
  "new_ticket t =
     sbind (sget xc_fresh) (\<lambda>i.
       sbind (smod (\<lambda>s. s\<lparr>xc_heap := (xc_heap s)(i \<mapsto> t), xc_fresh := i + 1\<rparr>)) (\<lambda>_. return i))"

definition get_ticket :: "nat \<Rightarrow> xcow_ticket cprog" where
  "get_ticket i =
     sbind (sget (\<lambda>s. xc_heap s i)) (\<lambda>t. case t of None \<Rightarrow> raise (Undefined ''use after free'') | Some x \<Rightarrow> return x)"

definition upd_ticket :: "nat \<Rightarrow> (xcow_ticket \<Rightarrow> xcow_ticket) \<Rightarrow> unit cprog" where
  "upd_ticket i g =
     sbind (get_ticket i) (\<lambda>t. smod (\<lambda>s. s\<lparr>xc_heap := (xc_heap s)(i \<mapsto> g t)\<rparr>))"

definition count_up :: "int \<Rightarrow> nat \<Rightarrow> unit cprog" where
  "count_up n i = upd_ticket i (\<lambda>t. t\<lparr>tk_count := tk_count t + n\<rparr>)"

text \<open>Deleting a ticket runs the action it holds.\<close>

definition delete_ticket :: "nat \<Rightarrow> unit cprog" where
  "delete_ticket i =
     sbind (get_ticket i) (\<lambda>t.
       sbind (smod (\<lambda>s. s\<lparr>xc_heap := (xc_heap s)(i := None)\<rparr>)) (\<lambda>_.
         case xt_last t of
           None \<Rightarrow> return ()
         | Some (e, leaf) \<Rightarrow> sbind (on_file (tx_write_commit e leaf)) (\<lambda>_. return ())))"

text \<open>\<open>std::vector<bool>\<close>: an index out of range is undefined.\<close>

definition get_lock :: "u64 \<Rightarrow> bool cprog" where
  "get_lock vblk =
     sbind (sget xc_clock) (\<lambda>c.
       if unat vblk < length c then return (c ! unat vblk) else raise (Undefined ''vector index''))"

definition set_lock :: "u64 \<Rightarrow> bool \<Rightarrow> unit cprog" where
  "set_lock vblk b =
     sbind (sget xc_clock) (\<lambda>c.
       if unat vblk < length c then smod (\<lambda>s. s\<lparr>xc_clock := c[unat vblk := b]\<rparr>) else raise (Undefined ''vector index''))"

definition wq_emplace :: "u64 \<Rightarrow> xwork \<Rightarrow> unit cprog" where
  "wq_emplace vblk w = smod (\<lambda>s. s\<lparr>xc_wq := xc_wq s @ [(vblk, w)]\<rparr>)"

section \<open>Constructing a controller\<close>

text \<open>
  The constructor opens the writable snapshot, adjusts the cached data of namespace 1, hands it to the kernel, and makes
  the lock vector. The ring has 8192 entries and one fixed file, the block device.
\<close>

definition nvme_xcow_make :: "xcow_env \<Rightarrow> mapping \<Rightarrow> int \<Rightarrow> xcow_file \<Rightarrow> xcow_ctrl result" where
  "nvme_xcow_make E vm bfd f =
     rbind (fst (open_write f)) (\<lambda>snap.
     rbind (uring_make (xe_uring E) 8192 0 [bfd] []) (\<lambda>ring.
     case id_vns (xe_kernel E) 1 nvme_init of
       (Inl e, _) \<Rightarrow> Inl e
     | (Inr None, _) \<Rightarrow> Inl (Undefined ''null pointer'')
     | (Inr (Some idns), nv) \<Rightarrow>
         if 32 \<le> lba_shift idns then Inl (Undefined ''shift'')
         else
           let fsize = hdr_fsize f;
               sz = drop_bit (lba_shift idns) fsize;
               iob = ucast (cluster_size f div int_shl1 (lba_shift idns)) :: u16;
               idns' = idns\<lparr>nsze := sz, ncap := sz, nuse := 0, nvmcap := (\<lambda>_. 0), noiob := iob,
                            nsfeat := nsfeat idns OR 16, npwg := iob - 1, npwa := iob - 1, nows := iob - 1\<rparr>
           in if xe_set_id_vns E idns' < 0 then Inl (System_error ''cannot set ns1 id data'')
              else Inr \<lparr>xc_nvme = nv\<lparr>nv_idns := (nv_idns nv)(1 := Some idns')\<rparr>, xc_vm = vm, xc_file = f, xc_snap = snap,
                        xc_ring = ring, xc_clock = replicate (unat (drop_bit (cluster_bits f) fsize)) False,
                        xc_wq = [], xc_heap = (\<lambda>_. None), xc_fresh = 0\<rparr>))"

section \<open>Snapshots and flushes\<close>

definition do_snapshot :: "xcow_env \<Rightarrow> nvme_command \<Rightarrow> u32 \<Rightarrow> nm_outcome cprog" where
  "do_snapshot E cmd tag =
     sbind (on_nvme (id_vns (xe_kernel E) (nsid cmd))) (\<lambda>i.
       if i = None then return (Reply (mk_reply tag (NVME_SC_DNR OR NVME_SC_INVALID_NS) zero_aux))
       else if cdw2_0 cmd \<noteq> 0 \<or> cdw2_1 cmd \<noteq> 0 \<or> metadata cmd \<noteq> 0 \<or> prp1 cmd \<noteq> 0 \<or> prp2 cmd \<noteq> 0 \<or> cdw10 cmd \<noteq> 0 \<or>
               cdw11 cmd \<noteq> 0 \<or> cdw12 cmd \<noteq> 0 \<or> cdw13 cmd \<noteq> 0 \<or> cdw14 cmd \<noteq> 0 \<or> cdw15 cmd \<noteq> 0
       then return (Reply (mk_reply tag (NVME_SC_DNR OR NVME_SC_INVALID_FIELD) zero_aux))
       else sbind (sget xc_snap) (\<lambda>s.
              sbind (on_file (snap_create s)) (\<lambda>(s', s0).
                sbind (smod (\<lambda>c. c\<lparr>xc_snap := s'\<rparr>)) (\<lambda>_.
                  return (Reply (mk_reply tag NVME_SC_SUCCESS zero_aux))))))"

definition do_flush :: "xcow_env \<Rightarrow> u32 \<Rightarrow> nm_outcome cprog" where
  "do_flush E tag =
     sbind (new_ticket (new_xcow_ticket tag)) (\<lambda>t.
     sbind (count_up 1 t) (\<lambda>_.
     sbind (on_ring (queue_fsync (xe_uring E) t True 0 IORING_FSYNC_DATASYNC)) (\<lambda>_.
     sbind (upd_ticket t (\<lambda>k. k\<lparr>xt_aux := (xt_aux k)\<lparr>aux0 := AUXCMD_KEEP OR AUXCMD_FORWARD\<rparr>\<rparr>)) (\<lambda>_.
     return (Ticket t)))))"

section \<open>Reads\<close>

text \<open>\<open>cluster_bits() - lbas\<close>; a namespace whose blocks are larger than clusters would shift by a huge amount.\<close>

definition clus_lba_shift :: "nat \<Rightarrow> nat cprog" where
  "clus_lba_shift lbas =
     sbind (sget (\<lambda>c. cluster_bits (xc_file c))) (\<lambda>cb.
       if cb < lbas then raise (Undefined ''shift'') else return (cb - lbas))"

text \<open>\<open>std::fill\<close> of a span of guest memory with zeros.\<close>

definition zero_span :: "u64 \<times> u64 \<Rightarrow> unit cprog" where
  "zero_span sp = smod (\<lambda>c. c\<lparr>xc_vm := write_bytes (unat (fst sp)) (replicate (unat (snd sp)) 0) (xc_vm c)\<rparr>)"

fun zero_blocks :: "nat \<Rightarrow> nvme_cmd_lba_iter \<Rightarrow> nvme_cmd_lba_iter cprog" where
  "zero_blocks 0 lit = return lit"
| "zero_blocks (Suc n) lit =
     sbind (on_vm (\<lambda>m. lba_iter_deref m lit)) (\<lambda>dt.
     sbind (zero_span dt) (\<lambda>_.
     sbind (on_vm (\<lambda>m. lba_iter_incr m lit)) (zero_blocks n)))"

fun gather_blocks :: "nat \<Rightarrow> nvme_cmd_lba_iter \<Rightarrow> iovec list \<Rightarrow> (iovec list \<times> nvme_cmd_lba_iter) cprog" where
  "gather_blocks 0 lit iovecs = return (iovecs, lit)"
| "gather_blocks (Suc n) lit iovecs =
     sbind (on_vm (\<lambda>m. rbind (lba_iter_deref m lit) (\<lambda>sp. Inr (map_addr m + fst sp, snd sp)))) (\<lambda>(base, len).
     sbind (on_vm (\<lambda>m. lba_iter_incr m lit)) (\<lambda>lit'. gather_blocks n lit' (iovec_append iovecs base len)))"

text \<open>Zeroing a command's buffer page by page. Every step covers at least one byte, so the number of bytes is enough fuel.\<close>

fun zero_pages :: "nat \<Rightarrow> nvme_cmd_page_iter \<Rightarrow> unit cprog" where
  "zero_pages 0 pit = (if page_iter_at_end pit then return () else raise (Undefined ''loop without progress''))"
| "zero_pages (Suc n) pit =
     (if page_iter_at_end pit then return ()
      else sbind (on_vm (\<lambda>m. page_iter_deref m pit)) (\<lambda>dt.
           sbind (zero_span dt) (\<lambda>_.
           sbind (on_vm (\<lambda>m. page_iter_incr m pit)) (zero_pages n))))"

text \<open>The clusters of a command, from \<open>blk_iter\<close>: first block and number of blocks.\<close>

definition cmd_clusters :: "nvme_command \<Rightarrow> nat \<Rightarrow> (u64 \<times> u64) list cprog" where
  "cmd_clusters cmd shift =
     (case blk_run (unat (cmd_nblocks cmd)) (blk_iter_init (rw_slba cmd) (cmd_nblocks cmd) shift) of
        None \<Rightarrow> raise (Undefined ''loop without progress'')
      | Some bs \<Rightarrow> return bs)"

text \<open>\<open>*bi % (1 << clus_lba_shift)\<close>, whose modulus is an \<open>int\<close>.\<close>

definition in_cluster_off :: "u64 \<Rightarrow> nat \<Rightarrow> u64 result" where
  "in_cluster_off a shift = (if 32 \<le> shift then Inl (Undefined ''shift'') else Inr (a mod int_shl1 shift))"

definition do_read_part :: "xcow_env \<Rightarrow> nat \<Rightarrow> nat \<Rightarrow> nat \<Rightarrow> u64 \<times> u64 \<Rightarrow> nvme_cmd_lba_iter \<Rightarrow> nvme_cmd_lba_iter cprog" where
  "do_read_part E t lbas shift b lit =
     sbind (sget xc_snap) (\<lambda>s.
     sbind (on_file (translate_read s (push_bit lbas (fst b)))) (\<lambda>tl0.
     sbind (lift_result (in_cluster_off (fst b) shift)) (\<lambda>off.
       if is_empty tl0 then zero_blocks (unat (snd b)) lit
       else sbind (gather_blocks (unat (snd b)) lit []) (\<lambda>(iovecs, lit').
            sbind (upd_ticket t (\<lambda>k. k\<lparr>xt_iovecss := xt_iovecss k @ [iovecs]\<rparr>)) (\<lambda>_.
            sbind (count_up 1 t) (\<lambda>_.
            sbind (on_ring (queue_readv (xe_uring E) t iovecs True 0 (decode_leaf tl0 + push_bit lbas off) 0)) (\<lambda>_.
            return lit')))))))"

definition do_read :: "xcow_env \<Rightarrow> nvme_command \<Rightarrow> u32 \<Rightarrow> nm_outcome cprog" where
  "do_read E cmd tag =
     sbind (on_nvme (ns_lba_shift (xe_kernel E) (nsid cmd))) (\<lambda>lbas.
     sbind (clus_lba_shift lbas) (\<lambda>shift.
       if drop_bit shift (rw_slba cmd) \<noteq> drop_bit shift (rw_slba cmd + ucast (rw_length cmd))
       then sbind (cmd_clusters cmd shift) (\<lambda>bs.
            sbind (on_nvme (lba_iter_init (xe_kernel E) cmd)) (\<lambda>lit.
            sbind (new_ticket (new_xcow_ticket tag)) (\<lambda>t.
            sbind (if rw_control cmd AND NVME_RW_FUA \<noteq> 0
                   then sbind (count_up 1 t) (\<lambda>_.
                        sbind (on_ring (queue_fsync (xe_uring E) t True 0 IORING_FSYNC_DATASYNC)) (\<lambda>i.
                        on_ring (sqe_set_link i)))
                   else return ()) (\<lambda>_.
            sbind (sfold (do_read_part E t lbas shift) bs lit) (\<lambda>_.
            sbind (get_ticket t) (\<lambda>k.
              if 0 < tk_count k
              then sbind (upd_ticket t (\<lambda>k. k\<lparr>xt_aux := (xt_aux k)\<lparr>aux0 := AUXCMD_KEEP\<rparr>\<rparr>)) (\<lambda>_. return (Ticket t))
              else sbind (delete_ticket t) (\<lambda>_.
                   return (Reply (mk_reply tag NVME_SC_SUCCESS (set_aux_addr U64_MAX AUXCMD_KEEP)))))))))) 
       else sbind (sget xc_snap) (\<lambda>s.
            sbind (on_file (translate_read s (push_bit lbas (rw_slba cmd)))) (\<lambda>tl0.
              if is_empty tl0
              then sbind (on_nvme (page_iter_init (xe_kernel E) cmd)) (\<lambda>pit.
                   sbind (zero_pages (unat (pgi_nbytes pit)) pit) (\<lambda>_.
                   return (Reply (mk_reply tag NVME_SC_SUCCESS (set_aux_addr 0 AUXBITS_VALID)))))
              else return (Reply (mk_reply tag NVME_SC_SUCCESS (set_aux_leaf tl0 AUXCMD_FORWARD)))))))"

section \<open>Writes\<close>

definition do_cow :: "xcow_env \<Rightarrow> u32 \<Rightarrow> u64 \<Rightarrow> u64 \<Rightarrow> u64 \<Rightarrow> (nat \<times> nat) cprog" where
  "do_cow E tag inoff outoff nbytes =
     sbind (new_ticket ((new_xcow_ticket tag)\<lparr>xt_mem := Some nbytes\<rparr>)) (\<lambda>t.
     sbind (count_up 2 t) (\<lambda>_.
     sbind (on_ring (queue_read (xe_uring E) t (Ticket_mem t) (ucast nbytes) (-1) True 0 inoff)) (\<lambda>r.
     sbind (on_ring (sqe_set_link r)) (\<lambda>_.
     sbind (on_ring (queue_write (xe_uring E) t (Ticket_mem t) (ucast nbytes) (-1) True 0 outoff)) (\<lambda>w.
     return (t, w))))))"

definition do_alloc_one_tx :: "xcow_env \<Rightarrow> u32 \<Rightarrow> u64 \<Rightarrow> nat \<Rightarrow> (nat \<times> u64 \<times> u64) cprog" where
  "do_alloc_one_tx E tag vblk entry =
     sbind (sget xc_snap) (\<lambda>s.
     sbind (on_file (alloc_data_cluster s)) (\<lambda>(outoff, tmp).
     sbind (on_file (cell_get entry)) (\<lambda>cur.
     sbind (sget (\<lambda>c. cluster_size (xc_file c))) (\<lambda>csize.
     sbind (if is_empty cur
            then sbind (new_ticket (new_xcow_ticket tag)) (\<lambda>t.
                 sbind (count_up 1 t) (\<lambda>_.
                 sbind (on_ring (queue_fallocate (xe_uring E) t True 0 FALLOC_FL_ZERO_RANGE outoff csize)) (\<lambda>_.
                 return (t, U64_MAX))))
            else sbind (do_cow E tag (decode_leaf cur) outoff csize) (\<lambda>(t, w). return (t, decode_leaf cur))) (\<lambda>(t, inoff).
     sbind (upd_ticket t (\<lambda>k. k\<lparr>xt_locked_cluster := vblk, xt_last := Some (entry, encode_leaf outoff True)\<rparr>)) (\<lambda>_.
     return (t, inoff, outoff)))))))"

definition do_write_one :: "xcow_env \<Rightarrow> nat \<Rightarrow> nat \<Rightarrow> nat \<Rightarrow> u64 \<Rightarrow> int \<Rightarrow> nm_outcome cprog" where
  "do_write_one E t iv entry off fl =
     sbind (on_file (cell_get entry)) (\<lambda>cur.
     sbind (get_ticket t) (\<lambda>k.
       if length (xt_iovecss k) \<le> iv then raise (Undefined ''use after free'')
       else sbind (on_ring (queue_writev (xe_uring E) t (xt_iovecss k ! iv) True 0 (decode_leaf cur + off) fl)) (\<lambda>_.
            return (Ticket t))))"

definition do_write_part :: "xcow_env \<Rightarrow> nvme_command \<Rightarrow> u32 \<Rightarrow> nat \<Rightarrow> nat \<Rightarrow> nat \<Rightarrow> u64 \<times> u64 \<Rightarrow> nvme_cmd_lba_iter \<Rightarrow> nvme_cmd_lba_iter cprog" where
  "do_write_part E cmd tag t lbas shift b lit =
     sbind (gather_blocks (unat (snd b)) lit []) (\<lambda>(iovecs, lit').
     sbind (get_ticket t) (\<lambda>k.
     sbind (upd_ticket t (\<lambda>k. k\<lparr>xt_iovecss := xt_iovecss k @ [iovecs]\<rparr>)) (\<lambda>_.
     sbind (sget xc_snap) (\<lambda>s.
     sbind (on_file (tx_write_prep s (push_bit lbas (fst b)))) (\<lambda>entry.
     sbind (lift_result (in_cluster_off (fst b) shift)) (\<lambda>off.
     sbind (on_file (cell_get entry)) (\<lambda>cur.
     sbind (get_lock (drop_bit shift (fst b))) (\<lambda>locked.
     sbind (if needs_alloc cur \<and> \<not> locked
            then sbind (do_alloc_one_tx E noop_tag (drop_bit shift (fst b)) entry) (\<lambda>_. set_lock (drop_bit shift (fst b)) True)
            else return ()) (\<lambda>_.
     let fl = if rw_control cmd AND NVME_RW_FUA \<noteq> 0 then RWF_DSYNC else 0; iv = length (xt_iovecss k)
     in sbind (count_up 1 t) (\<lambda>_.
        sbind (get_lock (drop_bit shift (fst b))) (\<lambda>locked'.
        sbind (if locked' then wq_emplace (drop_bit shift (fst b)) (Write_work tag t iv entry off fl)
               else sbind (do_write_one E t iv entry off fl) (\<lambda>_. return ())) (\<lambda>_.
        return lit'))))))))))))"

definition do_write :: "xcow_env \<Rightarrow> nvme_command \<Rightarrow> u32 \<Rightarrow> nm_outcome cprog" where
  "do_write E cmd tag =
     sbind (on_nvme (ns_lba_shift (xe_kernel E) (nsid cmd))) (\<lambda>lbas.
     sbind (clus_lba_shift lbas) (\<lambda>shift.
       let vblk = drop_bit shift (rw_slba cmd)
       in if vblk \<noteq> drop_bit shift (rw_slba cmd + ucast (rw_length cmd))
          then sbind (cmd_clusters cmd shift) (\<lambda>bs.
               sbind (on_nvme (lba_iter_init (xe_kernel E) cmd)) (\<lambda>lit.
               sbind (new_ticket (new_xcow_ticket tag)) (\<lambda>t.
               sbind (sfold (do_write_part E cmd tag t lbas shift) bs lit) (\<lambda>_. return (Ticket t)))))
          else sbind (sget xc_snap) (\<lambda>s.
               sbind (on_file (tx_write_prep s (push_bit lbas (rw_slba cmd)))) (\<lambda>entry.
               sbind (on_file (cell_get entry)) (\<lambda>cur.
               sbind (get_lock vblk) (\<lambda>locked.
                 if needs_alloc cur \<and> \<not> locked
                 then sbind (do_alloc_one_tx E tag vblk entry) (\<lambda>(t, inoff, outoff).
                      sbind (set_lock vblk True) (\<lambda>_.
                      sbind (upd_ticket t (\<lambda>k. k\<lparr>xt_aux :=
                          set_aux_addr outoff (AUXBITS_VALID OR AUXBITS_WRITABLE OR AUXCMD_FORWARD)\<rparr>)) (\<lambda>_.
                      return (Ticket t))))
                 else if locked then sbind (wq_emplace vblk (Reply_work tag entry)) (\<lambda>_. return Nothing)
                 else return (Reply (mk_reply tag NVME_SC_SUCCESS (set_aux_leaf cur AUXCMD_FORWARD)))))))))"

section \<open>Zeroing\<close>

text \<open>The handler for write-zeroes commands, which \<open>submit_async\<close> does not call at present.\<close>

definition do_zero_part :: "xcow_env \<Rightarrow> nat \<Rightarrow> nat \<Rightarrow> nat \<Rightarrow> u64 \<times> u64 \<Rightarrow> unit \<Rightarrow> unit cprog" where
  "do_zero_part E t lbas shift b u =
     sbind (sget xc_snap) (\<lambda>s.
     sbind (on_file (translate_read s (push_bit lbas (fst b)))) (\<lambda>old.
     sbind (lift_result (in_cluster_off (fst b) shift)) (\<lambda>off.
       if is_empty old then return ()
       else if snd b = int_shl1 shift then on_file (erase s (push_bit lbas (fst b)))
       else if old AND xl_writable \<noteq> 0
       then sbind (count_up 1 t) (\<lambda>_.
            sbind (on_ring (queue_fallocate (xe_uring E) t True 0 FALLOC_FL_ZERO_RANGE
                (decode_leaf old + push_bit lbas off) (push_bit lbas (snd b)))) (\<lambda>_. return ()))
       else sbind (on_file (translate_write s (push_bit lbas (fst b)))) (\<lambda>(tl0, prev).
            sbind (sget (\<lambda>c. cluster_size (xc_file c))) (\<lambda>csize.
            sbind (do_cow E noop_tag (decode_leaf prev) (decode_leaf tl0) csize) (\<lambda>(ct, w).
            sbind (on_ring (sqe_set_link w)) (\<lambda>_.
            sbind (count_up 1 t) (\<lambda>_.
            sbind (on_ring (queue_fallocate (xe_uring E) t True 0 FALLOC_FL_ZERO_RANGE
                (decode_leaf tl0 + push_bit lbas off) (push_bit lbas (snd b)))) (\<lambda>_. return ())))))))))"

definition do_write_zeroes :: "xcow_env \<Rightarrow> nvme_command \<Rightarrow> u32 \<Rightarrow> nm_outcome cprog" where
  "do_write_zeroes E cmd tag =
     sbind (on_nvme (ns_lba_shift (xe_kernel E) (nsid cmd))) (\<lambda>lbas.
     sbind (clus_lba_shift lbas) (\<lambda>shift.
       if drop_bit shift (rw_slba cmd) \<noteq> drop_bit shift (rw_slba cmd + ucast (rw_length cmd))
       then sbind (cmd_clusters cmd shift) (\<lambda>bs.
            sbind (new_ticket (new_xcow_ticket tag)) (\<lambda>t.
            sbind (sfold (do_zero_part E t lbas shift) bs ()) (\<lambda>_.
            sbind (get_ticket t) (\<lambda>k.
              if 0 < tk_count k then return (Ticket t)
              else sbind (delete_ticket t) (\<lambda>_. return (Reply (mk_reply tag NVME_SC_SUCCESS zero_aux)))))))
       else sbind (sget xc_snap) (\<lambda>s.
            sbind (on_file (translate_read s (push_bit lbas (rw_slba cmd)))) (\<lambda>old.
              if is_empty old then return (Reply (mk_reply tag NVME_SC_SUCCESS zero_aux))
              else if 32 \<le> shift then raise (Undefined ''shift'')
              else if cmd_nblocks cmd = int_shl1 shift
              then sbind (on_file (erase s (push_bit lbas (rw_slba cmd)))) (\<lambda>_.
                   return (Reply (mk_reply tag NVME_SC_SUCCESS zero_aux)))
              else if old AND xl_writable = 0
              then sbind (on_file (translate_write s (push_bit lbas (rw_slba cmd)))) (\<lambda>(tl0, prev).
                   sbind (sget (\<lambda>c. cluster_size (xc_file c))) (\<lambda>csize.
                   sbind (do_cow E noop_tag (decode_leaf prev) (decode_leaf tl0) csize) (\<lambda>(ct, w).
                   sbind (upd_ticket ct (\<lambda>k. k\<lparr>xt_aux := set_aux_leaf tl0 AUXCMD_FORWARD\<rparr>)) (\<lambda>_.
                   return (Ticket ct)))))
              else return (Reply (mk_reply tag NVME_SC_SUCCESS (set_aux_leaf old AUXCMD_FORWARD)))))))"

section \<open>Dispatch\<close>

definition catch_hwm :: "u32 \<Rightarrow> nm_outcome cprog \<Rightarrow> nm_outcome cprog" where
  "catch_hwm tag m = (\<lambda>c.
     case m c of
       (Inl Hwm_exception, c') \<Rightarrow> (Inr (Reply (mk_reply tag (NVME_SC_DNR OR NVME_SC_CAP_EXCEEDED) zero_aux)), c')
     | (Inl Disk_hwm_exception, c') \<Rightarrow> (Inr (Reply (mk_reply tag (NVME_SC_DNR OR NVME_SC_CAP_EXCEEDED) zero_aux)), c')
     | r \<Rightarrow> r)"

definition OPCODE_SNAPSHOT :: u8 where "OPCODE_SNAPSHOT = 0x81"

definition submit_async :: "xcow_env \<Rightarrow> nat \<Rightarrow> nvme_command \<Rightarrow> u32 \<Rightarrow> nm_outcome cprog" where
  "submit_async E sq cmd tag =
     catch_hwm tag
       (if sq = 0 then return (Reply (mk_reply tag (NVME_SC_DNR OR NVME_SC_INVALID_OPCODE) zero_aux))
        else if opcode cmd = nvme_cmd_read then do_read E cmd tag
        else if opcode cmd = nvme_cmd_write then do_write E cmd tag
        else if opcode cmd = nvme_cmd_flush then do_flush E tag
        else if opcode cmd = OPCODE_SNAPSHOT then do_snapshot E cmd tag
        else return (Reply (mk_reply tag (NVME_SC_DNR OR NVME_SC_INVALID_OPCODE) zero_aux)))"

end
