(* ===== verification/XcowSrv.thy ===== *)
theory XcowSrv
  imports NvmeXcow
begin

text \<open>
  The copy-on-write server (\<open>xcowsrv.cpp\<close>): the worker that polls the notification queues, hands commands to the controller, and
  turns ring completions into responses, running the work that waited for a cluster.
\<close>

section \<open>The worker\<close>

definition NOTIFYFD_BURST :: nat where "NOTIFYFD_BURST = 16"
definition COMPLETION_BURST :: nat where "COMPLETION_BURST = 128"
definition busypoll_loops :: nat where "busypoll_loops = 20"
definition MAX_VIRTUAL_QUEUES :: nat where "MAX_VIRTUAL_QUEUES = 16"

text \<open>
  The notification rings are seen through their contract: the commands waiting in each submission ring, and the responses put into
  each completion ring, in order. The administration queue is present only in the first worker.
\<close>

record xworker =
  wk_ctrl :: xcow_ctrl
  wk_sqids :: "nat list"
  wk_sq :: "nvme_command list list"
  wk_cq :: "nmntfy_response list list"
  wk_adm :: "(nvme_command list \<times> nmntfy_response list) option"

type_synonym 'a wprog = "(xworker, 'a) prog"

definition on_ctrl :: "'a cprog \<Rightarrow> 'a wprog" where
  "on_ctrl = zoom wk_ctrl (\<lambda>t s. s\<lparr>wk_ctrl := t\<rparr>)"

definition mk_response :: "u16 \<Rightarrow> nm_reply \<Rightarrow> nmntfy_response" where
  "mk_response ucid r = \<lparr>resp_ucid = ucid, resp_status = rp_status r, resp_aux = rp_aux r\<rparr>"

text \<open>\<open>process_reply\<close> on a queue of the worker, or on the administration queue.\<close>

definition process_reply :: "u16 \<Rightarrow> u16 \<Rightarrow> nm_reply \<Rightarrow> unit wprog" where
  "process_reply qi ucid r =
     (if qi = qi_admin
      then sbind (sget wk_adm) (\<lambda>a.
             case a of
               None \<Rightarrow> raise (Undefined ''empty optional'')
             | Some (sq, cq) \<Rightarrow> smod (\<lambda>w. w\<lparr>wk_adm := Some (sq, cq @ [mk_response ucid r])\<rparr>))
      else sbind (sget wk_cq) (\<lambda>cqs.
             if length cqs \<le> unat qi then raise (Undefined ''vector index'')
             else smod (\<lambda>w. w\<lparr>wk_cq := cqs[unat qi := cqs ! unat qi @ [mk_response ucid r]]\<rparr>)))"

section \<open>Polling\<close>

definition submit_one :: "xcow_env \<Rightarrow> u16 \<Rightarrow> nat \<Rightarrow> nvme_command \<Rightarrow> bool \<Rightarrow> bool wprog" where
  "submit_one E qi sq cmd submitted =
     sbind (on_ctrl (submit_async E sq cmd (make_tag qi (command_id cmd)))) (\<lambda>out.
       case out of
         Ticket t \<Rightarrow> return True
       | Reply r \<Rightarrow> sbind (process_reply qi (command_id cmd) r) (\<lambda>_. return submitted)
       | Nothing \<Rightarrow> return submitted)"

definition take_commands :: "u16 \<Rightarrow> nvme_command list wprog" where
  "take_commands qi =
     (if qi = qi_admin
      then sbind (sget wk_adm) (\<lambda>a.
             case a of
               None \<Rightarrow> raise (Undefined ''empty optional'')
             | Some (sq, cq) \<Rightarrow>
                 sbind (smod (\<lambda>w. w\<lparr>wk_adm := Some (drop NOTIFYFD_BURST sq, cq)\<rparr>)) (\<lambda>_. return (take NOTIFYFD_BURST sq)))
      else sbind (sget wk_sq) (\<lambda>sqs.
             if length sqs \<le> unat qi then raise (Undefined ''vector index'')
             else sbind (smod (\<lambda>w. w\<lparr>wk_sq := sqs[unat qi := drop NOTIFYFD_BURST (sqs ! unat qi)]\<rparr>)) (\<lambda>_.
                  return (take NOTIFYFD_BURST (sqs ! unat qi)))))"

definition queue_poll_once :: "xcow_env \<Rightarrow> u16 \<Rightarrow> nat \<Rightarrow> (bool \<times> bool) wprog" where
  "queue_poll_once E qi sq =
     sbind (take_commands qi) (\<lambda>cmds.
     sbind (sfold (submit_one E qi sq) cmds False) (\<lambda>submitted.
     return (cmds \<noteq> [], submitted)))"

text \<open>One round over all queues, and the busy-polling loop that ends at the first round that found a command.\<close>

definition poll_round :: "xcow_env \<Rightarrow> bool \<times> bool \<Rightarrow> (bool \<times> bool) wprog" where
  "poll_round E acc =
     sbind (sget wk_sqids) (\<lambda>ids.
       sfold (\<lambda>qi (suc, sub).
         sbind (queue_poll_once E (of_nat qi) (ids ! qi)) (\<lambda>(s1, s2). return (suc \<or> s1, sub \<or> s2)))
         [0..<length ids] acc)"

fun busy_poll :: "xcow_env \<Rightarrow> nat \<Rightarrow> bool \<times> bool \<Rightarrow> (bool \<times> bool) wprog" where
  "busy_poll E 0 acc = return acc"
| "busy_poll E (Suc n) acc =
     sbind (poll_round E acc) (\<lambda>(suc, sub). if suc then return (suc, sub) else busy_poll E n (suc, sub))"

section \<open>Completions\<close>

text \<open>
  \<open>extract\<close> takes one of the entries with the key out of the multimap; which one, when there are several, is left to the
  library, and given here by \<open>pick\<close>.
\<close>

definition wq_matches :: "u64 \<Rightarrow> (u64 \<times> xwork) list \<Rightarrow> nat list" where
  "wq_matches vblk wq = filter (\<lambda>i. fst (wq ! i) = vblk) [0..<length wq]"

definition wq_extract :: "(nat \<Rightarrow> nat) \<Rightarrow> u64 \<Rightarrow> (u64 \<times> xwork) list \<Rightarrow> (xwork \<times> (u64 \<times> xwork) list) option" where
  "wq_extract pick vblk wq =
     (let ms = wq_matches vblk wq
      in if ms = [] then None
         else let i = ms ! (pick (length ms) mod length ms)
              in Some (snd (wq ! i), take i wq @ drop (i + 1) wq))"

text \<open>The closures that \<open>do_write\<close> puts into the queue.\<close>

fun run_work :: "xcow_env \<Rightarrow> xwork \<Rightarrow> int \<Rightarrow> nm_outcome cprog" where
  "run_work E (Write_work tag t iv entry off fl) us =
     (if us < 0
      then sbind (count_up (-1) t) (\<lambda>_.
           sbind (get_ticket t) (\<lambda>k.
           sbind (if tk_count k = 0 then delete_ticket t else return ()) (\<lambda>_.
           return (Reply (mk_reply tag (translate_uring_status us) zero_aux)))))
      else do_write_one E t iv entry off fl)"
| "run_work E (Reply_work tag entry) us =
     sbind (on_file (cell_get entry)) (\<lambda>cur.
       return (Reply (mk_reply tag (translate_uring_status us) (set_aux_leaf cur AUXCMD_FORWARD))))"

text \<open>
  The loop that drains the work of a cluster. Every turn removes an entry and none adds one, so the length of the queue is
  enough fuel. The result tells whether it ended at a submitted write.
\<close>

fun drain :: "xcow_env \<Rightarrow> (nat \<Rightarrow> nat) \<Rightarrow> nat \<Rightarrow> u64 \<Rightarrow> int \<Rightarrow> bool wprog" where
  "drain E pick 0 vblk us =
     sbind (sget (\<lambda>w. wq_extract pick vblk (xc_wq (wk_ctrl w)))) (\<lambda>x.
       if x = None then return False else raise (Undefined ''loop without progress''))"
| "drain E pick (Suc n) vblk us =
     sbind (sget (\<lambda>w. wq_extract pick vblk (xc_wq (wk_ctrl w)))) (\<lambda>x.
       case x of
         None \<Rightarrow> return False
       | Some (we, rest) \<Rightarrow>
           sbind (on_ctrl (smod (\<lambda>c. c\<lparr>xc_wq := rest\<rparr>))) (\<lambda>_.
           sbind (on_ctrl (run_work E we us)) (\<lambda>out.
             case out of
               Ticket t \<Rightarrow> return True
             | Reply r \<Rightarrow>
                 (case unmake_tag (rp_tag r) of
                    (qi, ucid) \<Rightarrow>
                      sbind (if qi \<noteq> qi_invalid then process_reply qi ucid r else return ()) (\<lambda>_. drain E pick n vblk us))
             | Nothing \<Rightarrow> drain E pick n vblk us)))"

definition handle_cqe :: "xcow_env \<Rightarrow> (nat \<Rightarrow> nat) \<Rightarrow> cqe \<Rightarrow> bool \<Rightarrow> bool wprog" where
  "handle_cqe E pick cqe submitted =
     (let t = cqe_data cqe; res = cqe_res cqe
      in sbind (on_ctrl (count_up (-1) t)) (\<lambda>_.
         sbind (on_ctrl (get_ticket t)) (\<lambda>k.
           if tk_count k \<noteq> 0 then return submitted
           else
             sbind (if tk_tag k \<noteq> noop_tag
                    then case unmake_tag (tk_tag k) of
                           (qi, ucid) \<Rightarrow> process_reply qi ucid (mk_reply (tk_tag k) (translate_uring_status res) (xt_aux k))
                    else return ()) (\<lambda>_.
             sbind (if res < 0 then on_ctrl (upd_ticket t (\<lambda>k. k\<lparr>xt_last := None\<rparr>)) else return ()) (\<lambda>_.
             sbind (on_ctrl (delete_ticket t)) (\<lambda>_.
               if xt_locked_cluster k = U64_MAX then return submitted
               else sbind (on_ctrl (set_lock (xt_locked_cluster k) False)) (\<lambda>_.
                    sbind (sget (\<lambda>w. length (xc_wq (wk_ctrl w)))) (\<lambda>n.
                    sbind (drain E pick n (xt_locked_cluster k) res) (\<lambda>s. return (submitted \<or> s))))))))))"

definition kick :: "xcow_env \<Rightarrow> bool \<Rightarrow> unit wprog" where
  "kick E submitted =
     (if submitted then sbind (on_ctrl (on_ring (sq_kick (xe_uring E)))) (\<lambda>_. return ()) else return ())"

text \<open>
  One turn of the worker's endless loop. Its inputs are the completions that are ready, whether the last command is long ago,
  and what \<open>poll\<close> returns.
\<close>

definition run_iter :: "xcow_env \<Rightarrow> (nat \<Rightarrow> nat) \<Rightarrow> cqe list \<Rightarrow> bool \<Rightarrow> int \<Rightarrow> unit wprog" where
  "run_iter E pick ready idle poll_res =
     sbind (busy_poll E busypoll_loops (False, False)) (\<lambda>(succeeded, submitted).
     sbind (kick E submitted) (\<lambda>_.
     sbind (lift_result (cq_get_ready (take COMPLETION_BURST ready) (min COMPLETION_BURST (length ready)))) (\<lambda>wnd.
     sbind (sfold (handle_cqe E pick) wnd False) (\<lambda>sub2.
     sbind (kick E sub2) (\<lambda>_.
       if succeeded then return ()
       else
         sbind (sget wk_adm) (\<lambda>a.
         sbind (if a \<noteq> None
                then sbind (queue_poll_once E qi_admin 0) (\<lambda>(s1, s2). kick E s2)
                else return ()) (\<lambda>_.
           if idle \<and> poll_res < 0 then raise (System_error ''cannot poll queues'') else return ())))))))"

section \<open>Distributing the queues over the workers\<close>

text \<open>
  The loop of \<open>main\<close> over the queue descriptors, administration queue excluded: every open one goes to the next worker in
  turn, as its number and its descriptor.
\<close>

fun assign_loop :: "nat \<Rightarrow> nat \<Rightarrow> nat \<Rightarrow> int list \<Rightarrow> (nat \<times> int) list list \<Rightarrow> (nat \<times> int) list list" where
  "assign_loop n i active [] ws = ws"
| "assign_loop n i active (fd # fds) ws =
     (if 0 \<le> fd
      then assign_loop n (i + 1) (active + 1) fds (ws[active mod n := ws ! (active mod n) @ [(i, fd)]])
      else assign_loop n (i + 1) active fds ws)"

definition assign_queues :: "nat \<Rightarrow> int list \<Rightarrow> (nat \<times> int) list list" where
  "assign_queues nthreads sqfds =
     (let n = if nthreads = 0 \<or> length sqfds < nthreads then length sqfds else nthreads
      in assign_loop n 1 0 (tl sqfds) (replicate n []))"

end
