(* ===== verification/XcowStart.thy ===== *)
theory XcowStart
  imports XcowCtl XcowSrv
begin

text \<open>
  Starting the workers of the copy-on-write server (\<open>xcowsrv.cpp\<close>). Every worker opens the metadata file for itself and locks it. Such a lock
  belongs to the opening: while one opening has it, another cannot get it.
\<close>

record server =
  sv_locked :: bool
  sv_file :: xcow_file

definition on_sv_file :: "'a xprog \<Rightarrow> (server, 'a) prog" where
  "on_sv_file = zoom sv_file (\<lambda>f s. s\<lparr>sv_file := f\<rparr>)"

definition srv_lock :: "map_env \<Rightarrow> (server, unit) prog" where
  "srv_lock M =
     sbind (sget sv_locked) (\<lambda>held.
       if held then raise (System_error ''fcntl(F_OFD_SETLK)'')
       else sbind (on_sv_file (file_lock M)) (\<lambda>_. smod (\<lambda>s. s\<lparr>sv_locked := True\<rparr>)))"

definition xworker_make :: "xcow_env \<Rightarrow> map_env \<Rightarrow> int \<Rightarrow> mapping \<Rightarrow> (nat \<times> int) list \<Rightarrow> int \<Rightarrow> (server, xworker) prog" where
  "xworker_make E M bfd vm qs adm =
     (if map_addr vm = 0 \<or> map_size vm = 0 \<or> qs = [] then raise (Invalid_argument ''worker_arg'')
      else if bfd < 0 then raise (System_error ''cannot open blkdev file'')
      else sbind (on_sv_file (open_or_throw (me_open M) ''cannot open mapfile'')) (\<lambda>_.
           sbind (srv_lock M) (\<lambda>_.
           sbind (on_sv_file (file_deref_make M)) (\<lambda>_.
           sbind (on_sv_file xcow_open) (\<lambda>_.
           sbind (sget sv_file) (\<lambda>f.
           sbind (lift_result (nvme_xcow_make E vm bfd f)) (\<lambda>c.
             return \<lparr>wk_ctrl = c, wk_sqids = map fst qs, wk_sq = map (\<lambda>_. []) qs, wk_cq = map (\<lambda>_. []) qs,
                     wk_adm = (if 0 \<le> adm then Some ([], []) else None)\<rparr>)))))))"

end
