(* ===== verification/Programs.thy ===== *)
theory Programs
  imports Options Host WorkersProps XcowStart
begin

text \<open>
  The \<open>main\<close> functions of the programs that serve a virtual machine: their options, the key, opening the device and the machine's memory,
  and starting the workers. All but \<open>encryptor-multi\<close> read their options with \<open>getopt\<close>.
\<close>

section \<open>The options\<close>

record options =
  op_iommu_group :: "string option"
  op_mdev_uuid :: "string option"
  op_memfile :: "string option"
  op_mapfile :: "string option"
  op_blkdev :: "string option"
  op_keyfile :: "string option"
  op_crypto_impl :: string
  op_block_size :: u64
  op_lba_shift :: int
  op_nthreads :: u64
  op_below_4g :: u64

definition options_init :: "u64 \<Rightarrow> options" where
  "options_init nthreads =
     \<lparr>op_iommu_group = None, op_mdev_uuid = None, op_memfile = None, op_mapfile = None, op_blkdev = None, op_keyfile = None,
      op_crypto_impl = ''ippcp'', op_block_size = 512, op_lba_shift = 9, op_nthreads = nthreads, op_below_4g = push_bit 30 2\<rparr>"

text \<open>The \<open>switch\<close> of each program; \<open>None\<close> is its default, which ends the program.\<close>

type_synonym opt_switch = "char \<Rightarrow> string \<Rightarrow> options \<Rightarrow> options option"

text \<open>The cases all programs have.\<close>

definition common_switch :: opt_switch where
  "common_switch c optarg opts =
     (if c = CHR ''g'' then Some (opts\<lparr>op_iommu_group := Some optarg\<rparr>)
      else if c = CHR ''d'' then Some (opts\<lparr>op_mdev_uuid := Some optarg\<rparr>)
      else if c = CHR ''m'' then Some (opts\<lparr>op_memfile := Some optarg\<rparr>)
      else if c = CHR ''b'' then Some (opts\<lparr>op_blkdev := Some optarg\<rparr>)
      else if c = CHR ''j'' then Some (opts\<lparr>op_nthreads := word_of_int (atoi optarg)\<rparr>)
      else if c = CHR ''l'' then Some (opts\<lparr>op_below_4g := strtoull0 optarg\<rparr>)
      else None)"

definition mt_switch :: opt_switch where
  "mt_switch c optarg opts =
     (if c = CHR ''e'' then Some (opts\<lparr>op_crypto_impl := optarg\<rparr>)
      else if c = CHR ''B'' then Some (opts\<lparr>op_block_size := word_of_int (atoi optarg)\<rparr>)
      else if c = CHR ''k'' then Some (opts\<lparr>op_keyfile := Some optarg\<rparr>)
      else if c = CHR ''i'' then Some opts
      else common_switch c optarg opts)"

definition aio_switch :: opt_switch where
  "aio_switch = mt_switch"

definition sgx_switch :: opt_switch where
  "sgx_switch c optarg opts =
     (if c = CHR ''S'' then Some (opts\<lparr>op_lba_shift := atoi optarg\<rparr>)
      else if c = CHR ''k'' then Some (opts\<lparr>op_keyfile := Some optarg\<rparr>)
      else common_switch c optarg opts)"

definition sgx_aio_switch :: opt_switch where
  "sgx_aio_switch = sgx_switch"

definition replicator_switch :: opt_switch where
  "replicator_switch = common_switch"

definition replicator_aio_switch :: opt_switch where
  "replicator_aio_switch = common_switch"

definition xcowsrv_switch :: opt_switch where
  "xcowsrv_switch c optarg opts =
     (if c = CHR ''M'' then Some (opts\<lparr>op_mapfile := Some optarg\<rparr>) else common_switch c optarg opts)"

fun parse_options :: "opt_switch \<Rightarrow> (char \<times> string) list \<Rightarrow> options \<Rightarrow> options option" where
  "parse_options sw [] opts = Some opts"
| "parse_options sw ((c, a) # os) opts = (case sw c a opts of None \<Rightarrow> None | Some opts' \<Rightarrow> parse_options sw os opts')"

section \<open>The host\<close>

text \<open>
  What a program finds: the device behind a group and an identifier, memory files (their sizes and the outcome of mapping them, their
  bytes), key files, the descriptors and contents of block devices, and the address of the mapping, which is not null.
\<close>

record host =
  ho_vfio :: "string \<Rightarrow> string \<Rightarrow> vfio"
  ho_mem :: "string \<Rightarrow> host_mem option"
  ho_bytes :: "string \<Rightarrow> nat \<Rightarrow> u8"
  ho_base :: u64
  ho_key :: "string \<Rightarrow> u8 list option"
  ho_blk :: "string \<Rightarrow> int"
  ho_dev :: "string \<Rightarrow> nat \<Rightarrow> u8"

definition read_key :: "host \<Rightarrow> string \<Rightarrow> u8 list result" where
  "read_key H file =
     (case ho_key H file of
        None \<Rightarrow> Inl (System_error ''cannot open key file'')
      | Some bytes \<Rightarrow> if length (take 32 bytes) \<noteq> 32 then Inl (System_error ''cannot read key file'') else Inr (take 32 bytes))"

text \<open>A mapping, with the bytes of the file behind it. The hole between low and high memory has none; the program does not know of it.\<close>

definition vm_mapping :: "u64 \<Rightarrow> (nat \<Rightarrow> u8) \<Rightarrow> vm_map \<Rightarrow> mapping" where
  "vm_mapping base bytes vm =
     \<lparr>map_addr = base, map_size = vm_len vm, map_byte = (\<lambda>a. case vm_file vm a of None \<Rightarrow> 0 | Some off \<Rightarrow> bytes off)\<rparr>"

section \<open>The programs\<close>

text \<open>
  A program ends with an exit status, or its workers run. The constructors of the workers run in their threads: an exception that
  leaves one of them ends the program.
\<close>

datatype 'w run = Exit int | Run "'w list"

text \<open>
  Opening the device and the memory, which all programs do in the same way: the descriptors of the queues and the mapping, or nothing when the
  device does not open. Then the workers start, by their number.
\<close>

definition open_machine :: "host \<Rightarrow> options \<Rightarrow> (int list \<times> mapping) option result" where
  "open_machine H opts =
     (case mdev_open (ho_vfio H (the (op_iommu_group opts)) (the (op_mdev_uuid opts))) (replicate MAX_VIRTUAL_QUEUES 0) of
        (r, sqfds, _) \<Rightarrow>
          if r < 0 then Inr None
          else case ho_mem H (the (op_memfile opts)) of
                 None \<Rightarrow> Inl (System_error ''cannot open mem file'')
               | Some M \<Rightarrow> rbind (mdev_vm_mmap M (op_below_4g opts)) (\<lambda>vm. Inr (Some (sqfds, vm_mapping (ho_base H) (ho_bytes H (the (op_memfile opts))) vm))))"

definition start_workers :: "host \<Rightarrow> options \<Rightarrow> (nat \<Rightarrow> mapping \<Rightarrow> (nat \<times> int) list \<Rightarrow> 'w) \<Rightarrow> 'w run result" where
  "start_workers H opts start =
     rbind (open_machine H opts) (\<lambda>m.
       case m of
         None \<Rightarrow> Inr (Exit 1)
       | Some (sqfds, vm) \<Rightarrow> Inr (Run (map (\<lambda>(tid, qs). start tid vm qs) (enumerate 0 (deal_queues (unat (op_nthreads opts)) sqfds)))))"

definition mt_main :: "ippcp \<Rightarrow> evp \<Rightarrow> host \<Rightarrow> string list \<Rightarrow> (tbc \<times> enc_ctrl) worker option result run result" where
  "mt_main L V H args =
     (case parse_options mt_switch (getopt ''g:d:m:b:e:B:k:j:il:'' args) (options_init 0) of
        None \<Rightarrow> Inr (Exit 1)
      | Some opts \<Rightarrow>
          if op_iommu_group opts = None \<or> op_mdev_uuid opts = None \<or> op_memfile opts = None \<or> op_blkdev opts = None \<or> op_keyfile opts = None then Inr (Exit 1)
          else rbind (read_key H (the (op_keyfile opts))) (\<lambda>key.
                 start_workers H opts (\<lambda>tid vm qs.
                   mt_start L V key (op_crypto_impl opts) (unat (op_block_size opts)) vm (ho_blk H (the (op_blkdev opts))) (ho_dev H (the (op_blkdev opts))) qs)))"

text \<open>The engine of an asynchronous worker stands beside its controller.\<close>

definition aio_main :: "ippcp \<Rightarrow> evp \<Rightarrow> aio_env \<Rightarrow> host \<Rightarrow> string list \<Rightarrow> (tbc \<times> aio_ctrl) worker option result run result" where
  "aio_main L V E H args =
     (case parse_options aio_switch (getopt ''g:d:m:b:e:B:k:j:il:'' args) (options_init 0) of
        None \<Rightarrow> Inr (Exit 1)
      | Some opts \<Rightarrow>
          if op_iommu_group opts = None \<or> op_mdev_uuid opts = None \<or> op_memfile opts = None \<or> op_blkdev opts = None \<or> op_keyfile opts = None then Inr (Exit 1)
          else rbind (read_key H (the (op_keyfile opts))) (\<lambda>key.
                 start_workers H opts (\<lambda>tid vm qs.
                   let bfd = ho_blk H (the (op_blkdev opts))
                   in worker_start vm bfd qs
                        (rbind (aio_make_engine L V key (op_crypto_impl opts) (unat (op_block_size opts))) (\<lambda>e.
                         rbind (nvme_encryptor_aio_make (E\<lparr>ax_engine := e\<rparr>) vm bfd) (\<lambda>c. Inr (e, c)))))))"

text \<open>Every worker has its own enclave; what creating it gives depends on the worker.\<close>

definition sgx_main :: "sgx_env \<Rightarrow> (nat \<Rightarrow> int \<times> u64) \<Rightarrow> host \<Rightarrow> string list \<Rightarrow> sgx_ctrl worker option result run result" where
  "sgx_main E created H args =
     (case parse_options sgx_switch (getopt ''g:d:m:b:e:B:k:j:il:'' args) (options_init 0) of
        None \<Rightarrow> Inr (Exit 1)
      | Some opts \<Rightarrow>
          if op_iommu_group opts = None \<or> op_mdev_uuid opts = None \<or> op_memfile opts = None \<or> op_blkdev opts = None \<or> op_keyfile opts = None then Inr (Exit 1)
          else rbind (read_key H (the (op_keyfile opts))) (\<lambda>key.
                 start_workers H opts (\<lambda>tid vm qs.
                   sgx_start E (created tid) key (op_lba_shift opts) vm (ho_blk H (the (op_blkdev opts))) (ho_dev H (the (op_blkdev opts))) qs)))"

definition sgx_aio_main :: "sgx_aio_env \<Rightarrow> (nat \<Rightarrow> int \<times> u64) \<Rightarrow> host \<Rightarrow> string list \<Rightarrow> sgx_aio worker option result run result" where
  "sgx_aio_main E created H args =
     (case parse_options sgx_aio_switch (getopt ''g:d:m:b:e:B:k:j:il:'' args) (options_init 0) of
        None \<Rightarrow> Inr (Exit 1)
      | Some opts \<Rightarrow>
          if op_iommu_group opts = None \<or> op_mdev_uuid opts = None \<or> op_memfile opts = None \<or> op_blkdev opts = None \<or> op_keyfile opts = None then Inr (Exit 1)
          else rbind (read_key H (the (op_keyfile opts))) (\<lambda>key.
                 start_workers H opts (\<lambda>tid vm qs.
                   sgx_aio_start E (created tid) key (op_lba_shift opts) vm (ho_blk H (the (op_blkdev opts))) qs)))"

definition replicator_main :: "sender_env \<Rightarrow> host \<Rightarrow> string list \<Rightarrow> sender_ctrl worker option result run result" where
  "replicator_main E H args =
     (case parse_options replicator_switch (getopt ''g:d:m:b:e:B:k:j:il:'' args) (options_init 0) of
        None \<Rightarrow> Inr (Exit 1)
      | Some opts \<Rightarrow>
          if op_iommu_group opts = None \<or> op_mdev_uuid opts = None \<or> op_memfile opts = None \<or> op_blkdev opts = None then Inr (Exit 1)
          else start_workers H opts (\<lambda>tid vm qs. replicator_start E vm (ho_blk H (the (op_blkdev opts))) (ho_dev H (the (op_blkdev opts))) qs))"

definition replicator_aio_main :: "sender_aio_env \<Rightarrow> host \<Rightarrow> string list \<Rightarrow> sender_aio worker option result run result" where
  "replicator_aio_main E H args =
     (case parse_options replicator_aio_switch (getopt ''g:d:m:b:e:B:k:j:il:'' args) (options_init 0) of
        None \<Rightarrow> Inr (Exit 1)
      | Some opts \<Rightarrow>
          if op_iommu_group opts = None \<or> op_mdev_uuid opts = None \<or> op_memfile opts = None \<or> op_blkdev opts = None then Inr (Exit 1)
          else start_workers H opts (\<lambda>tid vm qs. replicator_aio_start E vm (ho_blk H (the (op_blkdev opts))) qs))"

text \<open>\<open>xcowsrv\<close>: the constructors of its workers run in any order, on the one metadata file.\<close>

definition xcowsrv_main :: "xcow_env \<Rightarrow> map_env \<Rightarrow> host \<Rightarrow> (nat \<Rightarrow> nat list) \<Rightarrow> string list \<Rightarrow> (server, xworker run) prog" where
  "xcowsrv_main E M H order args =
     (case parse_options xcowsrv_switch (getopt ''g:d:m:M:Fb:j:l:'' args) (options_init 1) of
        None \<Rightarrow> return (Exit 1)
      | Some opts \<Rightarrow>
          if op_iommu_group opts = None \<or> op_mdev_uuid opts = None \<or> op_memfile opts = None \<or> op_mapfile opts = None \<or> op_blkdev opts = None
          then return (Exit 1)
          else sbind (lift_result (open_machine H opts)) (\<lambda>m.
                 case m of
                   None \<Rightarrow> return (Exit 1)
                 | Some (sqfds, vm) \<Rightarrow>
                     let qss = assign_queues (unat (op_nthreads opts)) sqfds
                     in sbind (sfold (\<lambda>tid ws.
                              sbind (xworker_make E M (ho_blk H (the (op_blkdev opts))) vm (qss ! tid) (if tid = 0 then sqfds ! 0 else -1)) (\<lambda>w.
                                return (ws @ [w]))) (order (length qss)) []) (\<lambda>ws. return (Run ws))))"

text \<open>
  \<open>encryptor-multi\<close> serves several machines; its options come from the option parser. Every machine has its memory and its ring, which the
  workers share; a worker makes its own engine.
\<close>

record multi_args =
  ma_iommu_groups :: "string list"
  ma_mdev_uuids :: "string list"
  ma_memfiles :: "string list"
  ma_blkdevs :: "string list"
  ma_keyfile :: "string result"
  ma_crypto_impl :: string
  ma_block_size :: u64
  ma_nthreads :: u64
  ma_lowmem_size :: u64

type_synonym machine = "int list \<times> mapping \<times> uring"

definition multi_machine :: "liburing \<Rightarrow> host \<Rightarrow> u64 \<Rightarrow> string \<times> string \<times> string \<times> string \<Rightarrow> machine option result" where
  "multi_machine U H low m = (case m of (iommu, uuid, memfile, blkdev) \<Rightarrow>
     case mdev_open (ho_vfio H iommu uuid) (replicate MAX_VIRTUAL_QUEUES 0) of
       (r, sqfds, _) \<Rightarrow>
         if r < 0 then Inr None
         else case ho_mem H memfile of
                None \<Rightarrow> Inl (System_error ''cannot open mem file'')
              | Some M \<Rightarrow>
                  rbind (mdev_vm_mmap M low) (\<lambda>vm.
                    if ho_blk H blkdev < 0 then Inl (System_error ''cannot open blkdev file'')
                    else rbind (uring_make U 2048 0 [ho_blk H blkdev] []) (\<lambda>ring. Inr (Some (sqfds, vm_mapping (ho_base H) (ho_bytes H memfile) vm, ring)))))"

fun multi_machines :: "liburing \<Rightarrow> host \<Rightarrow> u64 \<Rightarrow> u64 \<Rightarrow> (string \<times> string \<times> string \<times> string) list \<Rightarrow> machine list option result" where
  "multi_machines U H low n [] = Inr (Some [])"
| "multi_machines U H low n (m # ms) =
     rbind (multi_machine U H low m) (\<lambda>r.
       case r of
         None \<Rightarrow> Inr None
       | Some x \<Rightarrow>
           if n = 0 then Inl (Undefined ''division by zero'')
           else rbind (multi_machines U H low n ms) (\<lambda>xs. Inr (map_option (Cons x) xs)))"

definition multi_main :: "ippcp \<Rightarrow> evp \<Rightarrow> liburing \<Rightarrow> host \<Rightarrow> multi_args \<Rightarrow> (machine list \<times> (tbc \<times> worker_ctx list) result list) option result" where
  "multi_main L V U H A =
     (let n = length (ma_iommu_groups A)
      in if n = 0 \<or> n \<noteq> length (ma_mdev_uuids A) \<or> n \<noteq> length (ma_memfiles A) \<or> n \<noteq> length (ma_blkdevs A) then Inr None
         else rbind (ma_keyfile A) (\<lambda>file. rbind (read_key H file) (\<lambda>key.
              rbind (multi_machines U H (ma_lowmem_size A) (ma_nthreads A)
                       (zip (ma_iommu_groups A) (zip (ma_mdev_uuids A) (zip (ma_memfiles A) (ma_blkdevs A))))) (\<lambda>r.
                Inr (map_option (\<lambda>ms.
                  (ms, map (\<lambda>cs. rbind (multi_make_engine L V key (ma_crypto_impl A) (unat (ma_block_size A))) (\<lambda>e. Inr (e, cs)))
                         (deal_contexts (unat (ma_nthreads A)) (map fst ms)))) r)))))"

text \<open>What a worker holds at its start, as long as no other has used the rings.\<close>

definition multi_start :: "machine list \<Rightarrow> worker_ctx list \<Rightarrow> multi_state worker" where
  "multi_start ms ctxs =
     \<lparr>wr_ctrl = \<lparr>ms_ctxs = ctxs, ms_nvmes = map (\<lambda>_. nvme_init) ctxs, ms_vms = map (\<lambda>(_, vm, _). vm) ms, ms_rings = map (\<lambda>(_, _, ring). ring) ms,
                 ms_heap = (\<lambda>_. None), ms_fresh = 0\<rparr>,
      wr_queues = map (queue_of \<circ> cx_sqfd) ctxs\<rparr>"

end
