(* ===== verification/XcowSrvProps.thy ===== *)
theory XcowSrvProps
  imports XcowStart
begin

text \<open>
  Properties of the copy-on-write controller in its server: what becomes of a write that needs a new cluster, from the command to the
  response.
\<close>

section \<open>A write that allocates\<close>

text \<open>The ticket of an allocation, as the submission leaves it.\<close>

definition alloc_ticket :: "u32 \<Rightarrow> u64 \<Rightarrow> nat \<Rightarrow> u64 \<Rightarrow> u64 \<Rightarrow> xcow_ticket \<Rightarrow> bool" where
  "alloc_ticket tag vblk e cur outoff k \<longleftrightarrow>
     tk_tag k = tag \<and> tk_count k = (if is_empty cur then 1 else 2) \<and> xt_locked_cluster k = vblk \<and> xt_last k = Some (e, encode_leaf outoff True)"

lemma xc_get_sqe_Inr: "get_sqe L x u = (Inr i, u') \<Longrightarrow> u' = u\<lparr>ur_sq := ur_sq u @ [x]\<rparr> \<and> i = length (ur_sq u)"
  by (auto simp: get_sqe_def prog_simps split: if_splits)

lemmas xc_prog_defs = new_ticket_def count_up_def upd_ticket_def get_ticket_def on_ring_def on_file_def on_nvme_def prog_simps

lemma on_file_Inr: "on_file m c = (Inr x, c') \<longleftrightarrow> (\<exists>f. m (xc_file c) = (Inr x, f) \<and> c' = c\<lparr>xc_file := f\<rparr>)"
  by (auto simp: on_file_def prog_simps split: prod.splits)

lemma on_nvme_Inr: "on_nvme m c = (Inr x, c') \<longleftrightarrow> (\<exists>f. m (xc_nvme c) = (Inr x, f) \<and> c' = c\<lparr>xc_nvme := f\<rparr>)"
  by (auto simp: on_nvme_def prog_simps split: prod.splits)

lemma sget_Inr: "sget g c = (Inr x, c') \<longleftrightarrow> x = g c \<and> c' = c"
  by (auto simp: prog_simps)

lemma do_cow_run:
  assumes "do_cow E tag inoff outoff nb c = (Inr (t, w), c')"
  shows "t = xc_fresh c \<and> xc_heap c' = (xc_heap c)(t \<mapsto> (new_xcow_ticket tag)\<lparr>xt_mem := Some nb, tk_count := 2\<rparr>) \<and>
    xc_file c' = xc_file c \<and> xc_clock c' = xc_clock c \<and> xc_wq c' = xc_wq c \<and> xc_snap c' = xc_snap c \<and>
    ur_sq (xc_ring c') = ur_sq (xc_ring c) @
      [(mk_sqe (Read_op (Ticket_mem t) (ucast nb) (-1) inoff) 0 True t)\<lparr>sqe_link := True\<rparr>, mk_sqe (Write_op (Ticket_mem t) (ucast nb) (-1) outoff) 0 True t]"
  using assms
  by (auto simp: do_cow_def xc_prog_defs queue_read_def queue_write_def sqe_set_link_def new_xcow_ticket_def dest!: xc_get_sqe_Inr
      split: prod.splits sum.splits)

text \<open>What an allocation asks of the device: a zeroed cluster, or a copy of the old one.\<close>

definition alloc_requests :: "nat \<Rightarrow> u64 \<Rightarrow> u64 \<Rightarrow> u64 \<Rightarrow> sqe list" where
  "alloc_requests t cur outoff nb =
     (if is_empty cur then [mk_sqe (Fallocate_op FALLOC_FL_ZERO_RANGE outoff nb) 0 True t]
      else [(mk_sqe (Read_op (Ticket_mem t) (ucast nb) (-1) (decode_leaf cur)) 0 True t)\<lparr>sqe_link := True\<rparr>,
            mk_sqe (Write_op (Ticket_mem t) (ucast nb) (-1) outoff) 0 True t])"

lemma on_file_cell: "on_file (cell_get e) c = (Inr x, c') \<longleftrightarrow> cell_get e (xc_file c) = (Inr x, xc_file c) \<and> c' = c"
  by (auto simp: on_file_def cell_get_def prog_simps split: prod.splits)

lemma do_alloc_run:
  assumes "do_alloc_one_tx E tag vblk e c = (Inr (t, inoff, outoff), c')"
  obtains tmp f2 cur k where "alloc_data_cluster (xc_snap c) (xc_file c) = (Inr (outoff, tmp), f2)" "cell_get e f2 = (Inr cur, f2)"
    "xc_file c' = f2" "xc_heap c' t = Some k" "alloc_ticket tag vblk e cur outoff k"
    "xc_clock c' = xc_clock c" "xc_wq c' = xc_wq c" "xc_snap c' = xc_snap c"
    "ur_sq (xc_ring c') = ur_sq (xc_ring c) @ alloc_requests t cur outoff (cluster_size f2)"
proof -
  obtain tmp f2 cur in2 c2' where a: "alloc_data_cluster (xc_snap c) (xc_file c) = (Inr (outoff, tmp), f2)"
    and g: "cell_get e f2 = (Inr cur, f2)"
    and r: "(if is_empty cur
            then sbind (new_ticket (new_xcow_ticket tag)) (\<lambda>t.
                 sbind (count_up 1 t) (\<lambda>_.
                 sbind (on_ring (queue_fallocate (xe_uring E) t True 0 FALLOC_FL_ZERO_RANGE outoff (cluster_size f2))) (\<lambda>_.
                 return (t, U64_MAX))))
            else sbind (do_cow E tag (decode_leaf cur) outoff (cluster_size f2)) (\<lambda>(t, w). return (t, decode_leaf cur)))
         (c\<lparr>xc_file := f2\<rparr>) = (Inr (t, in2), c2')"
    and u: "upd_ticket t (\<lambda>k. k\<lparr>xt_locked_cluster := vblk, xt_last := Some (e, encode_leaf outoff True)\<rparr>) c2' = (Inr (), c')"
    using assms
    by (auto simp: do_alloc_one_tx_def sbind_Inr_iff on_file_Inr [of "alloc_data_cluster s" for s] on_file_cell sget_Inr split: prod.splits cong: if_cong)
  let ?c = "c\<lparr>xc_file := f2\<rparr>"
  obtain c2 k where k: "xc_heap c2 t = Some k" "tk_tag k = tag" "tk_count k = (if is_empty cur then 1 else 2)" "xc_file c2 = f2"
      "xc_clock c2 = xc_clock c" "xc_wq c2 = xc_wq c" "xc_snap c2 = xc_snap c"
      "ur_sq (xc_ring c2) = ur_sq (xc_ring c) @ alloc_requests t cur outoff (cluster_size f2)"
    and c': "c' = c2\<lparr>xc_heap := (xc_heap c2)(t \<mapsto> k\<lparr>xt_locked_cluster := vblk, xt_last := Some (e, encode_leaf outoff True)\<rparr>)\<rparr>"
  proof (cases "is_empty cur")
    case True
    show ?thesis
      by (rule that [of c2' "(new_xcow_ticket tag)\<lparr>tk_count := 1\<rparr>"])
        (use r u True in \<open>auto simp: xc_prog_defs queue_fallocate_def new_xcow_ticket_def alloc_requests_def dest!: xc_get_sqe_Inr split: prod.splits sum.splits\<close>)
  next
    case False
    then obtain w c2 where d: "do_cow E tag (decode_leaf cur) outoff (cluster_size f2) ?c = (Inr (t, w), c2)"
        "upd_ticket t (\<lambda>k. k\<lparr>xt_locked_cluster := vblk, xt_last := Some (e, encode_leaf outoff True)\<rparr>) c2 = (Inr (), c')"
      using r u by (auto simp: sbind_Inr_iff split: prod.splits)
    note r = do_cow_run [OF d(1)]
    show ?thesis
      by (rule that [of c2 "(new_xcow_ticket tag)\<lparr>xt_mem := Some (cluster_size f2), tk_count := 2\<rparr>"])
        (use r d(2) False in \<open>auto simp: alloc_requests_def new_xcow_ticket_def upd_ticket_def get_ticket_def prog_simps\<close>)
  qed
  show ?thesis
    by (rule that [OF a g]) (use k c' in \<open>auto simp: alloc_ticket_def\<close>)
qed

text \<open>A write command within one cluster that gets a ticket.\<close>

lemma do_write_run:
  assumes "ns_lba_shift (xe_kernel E) (nsid cmd) (xc_nvme c) = (Inr lbas, nv)" "lbas \<le> cluster_bits (xc_file c)"
    "vblk = drop_bit (cluster_bits (xc_file c) - lbas) (rw_slba cmd)"
    "vblk = drop_bit (cluster_bits (xc_file c) - lbas) (rw_slba cmd + ucast (rw_length cmd))"
    "do_write E cmd tag c = (Inr (Ticket t), c')"
  obtains e f1 outoff tmp f2 cur cur' k where "tx_write_prep (xc_snap c) (push_bit lbas (rw_slba cmd)) (xc_file c) = (Inr e, f1)"
    "cell_get e f1 = (Inr cur, f1)" "needs_alloc cur" "unat vblk < length (xc_clock c)" "\<not> xc_clock c ! unat vblk"
    "alloc_data_cluster (xc_snap c) f1 = (Inr (outoff, tmp), f2)"
    "xc_file c' = f2" "xc_heap c' t = Some k" "alloc_ticket tag vblk e cur' outoff k" "cell_get e f2 = (Inr cur', f2)"
    "xt_aux k = set_aux_addr outoff (AUXBITS_VALID OR AUXBITS_WRITABLE OR AUXCMD_FORWARD)"
    "xc_clock c' = (xc_clock c)[unat vblk := True]" "xc_wq c' = xc_wq c" "xc_snap c' = xc_snap c"
    "ur_sq (xc_ring c') = ur_sq (xc_ring c) @ alloc_requests t cur' outoff (cluster_size f2)"
proof -
  let ?c = "c\<lparr>xc_nvme := nv\<rparr>" and ?a = "push_bit lbas (rw_slba cmd)"
  obtain e f1 cur locked where p: "tx_write_prep (xc_snap c) ?a (xc_file c) = (Inr e, f1)" "cell_get e f1 = (Inr cur, f1)"
      "get_lock vblk (?c\<lparr>xc_file := f1\<rparr>) = (Inr locked, ?c\<lparr>xc_file := f1\<rparr>)"
    and r: "(if needs_alloc cur \<and> \<not> locked
                 then sbind (do_alloc_one_tx E tag vblk e) (\<lambda>(t, inoff, outoff).
                      sbind (set_lock vblk True) (\<lambda>_.
                      sbind (upd_ticket t (\<lambda>k. k\<lparr>xt_aux :=
                          set_aux_addr outoff (AUXBITS_VALID OR AUXBITS_WRITABLE OR AUXCMD_FORWARD)\<rparr>)) (\<lambda>_.
                      return (Ticket t))))
                 else if locked then sbind (wq_emplace vblk (Reply_work tag e)) (\<lambda>_. return Nothing)
                 else return (Reply (mk_reply tag NVME_SC_SUCCESS (set_aux_leaf cur AUXCMD_FORWARD)))) (?c\<lparr>xc_file := f1\<rparr>) = (Inr (Ticket t), c')"
    using assms
    by (auto simp: do_write_def clus_lba_shift_def sbind_Inr_iff on_file_Inr [of "tx_write_prep s a" for s a] on_nvme_Inr on_file_cell sget_Inr Let_def
        get_lock_def split: prod.splits if_splits cong: if_cong)
  have na: "needs_alloc cur" "\<not> locked" using r by (auto simp: sbind_Inr_iff split: if_splits)
  obtain inoff outoff c2 where al: "do_alloc_one_tx E tag vblk e (?c\<lparr>xc_file := f1\<rparr>) = (Inr (t, inoff, outoff), c2)"
    and rest: "sbind (set_lock vblk True) (\<lambda>_. upd_ticket t (\<lambda>k. k\<lparr>xt_aux := set_aux_addr outoff (AUXBITS_VALID OR AUXBITS_WRITABLE OR AUXCMD_FORWARD)\<rparr>)) c2 = (Inr (), c')"
    using r na by (auto simp: sbind_Inr_iff split: prod.splits)
  obtain tmp f2 cur2 k where d: "alloc_data_cluster (xc_snap c) f1 = (Inr (outoff, tmp), f2)" "cell_get e f2 = (Inr cur2, f2)"
    "xc_file c2 = f2" "xc_heap c2 t = Some k" "alloc_ticket tag vblk e cur2 outoff k"
    "xc_clock c2 = xc_clock c" "xc_wq c2 = xc_wq c" "xc_snap c2 = xc_snap c"
    "ur_sq (xc_ring c2) = ur_sq (xc_ring c) @ alloc_requests t cur2 outoff (cluster_size f2)"
    by (rule do_alloc_run [OF al]) simp
  show ?thesis
    by (rule that [OF p(1,2) na(1) _ _ d(1), where k = "k\<lparr>xt_aux := set_aux_addr outoff (AUXBITS_VALID OR AUXBITS_WRITABLE OR AUXCMD_FORWARD)\<rparr>"])
      (use p(3) na(2) d rest in \<open>auto simp: get_lock_def set_lock_def upd_ticket_def get_ticket_def alloc_ticket_def prog_simps split: if_splits\<close>)
qed

text \<open>The file between submission and completion, and what the commit makes of it.\<close>

lemma two_phase_steps:
  assumes i: "disk_inv f s" and a: "on_disk f a" and p: "tx_write_prep s a f = (Inr e, f1)" and g: "cell_get e f1 = (Inr cur, f1)"
    and na: "needs_alloc cur" and al: "alloc_data_cluster s f1 = (Inr (outoff, tmp), f2)"
  shows "cell_get e f2 = (Inr cur, f2)"
    "\<exists>f3. tx_write_commit e (encode_leaf outoff True) f2 = (Inr (encode_leaf outoff True, cur), f3) \<and>
       translate_write s a f = (Inr (encode_leaf outoff True, cur), f3)"
    "on_disk f b \<Longrightarrow> \<exists>t u. disk_view f s b = Inr t \<and> disk_view f2 s b = Inr u \<and> u AND NOT xl_writable = t AND NOT xl_writable"
proof -
  from i obtain d tk where d: "xs_disk_hwm s = Some d" and sz: "snd (xs_root s) = csz f" and w: "winv f (xs_root s) d"
    by (rule disk_invE)
  have l1: "l1_off f a < snd (xs_root s)" using a sz by (simp add: on_disk_def)
  have fits: "prep_fits f (xs_root s) (l1_off f a)" and e: "e = entry_cell f (xs_root s) a" and f1: "f1 = prep_file f (xs_root s) (l1_off f a)"
    using p tx_write_prep_n [OF winvD(1,2) [OF w] l1] d by (auto simp: entry_cell_def split: if_splits)
  note ef = entry_cell_facts [OF w l1 fits]
  show c2: "cell_get e f2 = (Inr cur, f2)" using alloc_data_other(1) [OF al d ef(1)] g by (simp add: e)
  have run: "tx_write_commit e (encode_leaf outoff True) f2 = translate_write s a f"
    using two_phase_effect [OF i a] p g na al by (simp add: sbind_apply)
  have "tx_write_commit e (encode_leaf outoff True) f2 = (case cell_put e (encode_leaf outoff True) f2 of (Inl x, f') \<Rightarrow> (Inl x, f') |
      (Inr _, f') \<Rightarrow> (Inr (encode_leaf outoff True, cur), f'))"
    using c2 na by (auto simp: tx_write_commit_def sbind_apply needs_alloc_bits split: prod.splits sum.splits)
  moreover have "\<exists>f3. cell_put e (encode_leaf outoff True) f2 = (Inr (), f3)"
    using c2 by (auto simp: cell_get_def cell_put_def prog_simps split: if_splits)
  ultimately show "\<exists>f3. tx_write_commit e (encode_leaf outoff True) f2 = (Inr (encode_leaf outoff True, cur), f3) \<and>
       translate_write s a f = (Inr (encode_leaf outoff True, cur), f3)" using run by auto
  assume "on_disk f b"
  then have l1b: "l1_off f b < snd (xs_root s)" using sz by (simp add: on_disk_def)
  note w1 = winv_prep [OF w l1 fits, folded f1] and sg = same_geom_bits [OF prep_file_geom(1) [OF winvD(1,2) [OF w] l1 fits], folded f1]
  have f2: "f2 = f1\<lparr>xf_mem := (xf_mem f1)(d := xf_mem f1 d + 1)\<rparr>"
    using al d by (auto simp: alloc_data_cluster_def alloc_data_clusters_def prog_simps cell_get_def cell_put_def split: if_splits)
  have w2: "winv f2 (xs_root s) d" unfolding f2 by (rule winv_counter [OF w1])
  have l2: "l1_off f1 b < snd (xs_root s)" using l1b by (simp add: sg)
  have "l1_off f2 b = l1_off f1 b"
    using same_geom_bits [OF store_same(1) [OF winvD(1,3) [OF w1], of "xf_mem f1 d + 1"]] by (simp add: f2)
  then have "disk_view f2 s b = Inr (leaf_at f1 (xs_root s) b)"
    using disk_view_leaf [OF winvD(1,2) [OF w2], of b] leaf_at_counter [OF w1 l2, of "xf_mem f1 d + 1"] l2 by (simp add: f2)
  moreover have "leaf_at f1 (xs_root s) b AND NOT xl_writable = leaf_at f (xs_root s) b AND NOT xl_writable"
    using leaf_at_prep [OF w l1 fits l1b] by (simp add: f1 and.assoc)
  ultimately show "\<exists>t u. disk_view f s b = Inr t \<and> disk_view f2 s b = Inr u \<and> u AND NOT xl_writable = t AND NOT xl_writable"
    using disk_view_leaf [OF winvD(1,2) [OF w] l1b] by simp
qed

section \<open>Completions\<close>

text \<open>All completions of a ticket but the last only count; the last answers, commits unless it failed, and unlocks the cluster.\<close>

lemma handle_more:
  assumes "xc_heap (wk_ctrl w) (cqe_data x) = Some k" "tk_count k \<noteq> 1"
  shows "handle_cqe E pick x sub w =
    (Inr sub, w\<lparr>wk_ctrl := (wk_ctrl w)\<lparr>xc_heap := (xc_heap (wk_ctrl w))(cqe_data x \<mapsto> k\<lparr>tk_count := tk_count k - 1\<rparr>)\<rparr>\<rparr>)"
  using assms by (simp add: handle_cqe_def on_ctrl_def xc_prog_defs Let_def)

lemma drain_idle:
  assumes "wq_matches vblk (xc_wq (wk_ctrl w)) = []"
  shows "drain E pick n vblk us w = (Inr False, w)"
  using assms by (cases n) (simp_all add: wq_extract_def Let_def prog_simps)

definition served :: "u16 \<Rightarrow> u16 \<Rightarrow> nm_reply \<Rightarrow> nmntfy_response list list \<Rightarrow> nmntfy_response list list" where
  "served qi ucid r cqs = cqs[unat qi := cqs ! unat qi @ [mk_response ucid r]]"

lemma handle_last:
  fixes x :: cqe
  assumes k: "xc_heap (wk_ctrl w) (cqe_data x) = Some k" "tk_count k = 1" "tk_tag k = make_tag qi ucid" "xt_last k = Some (e, leaf)"
      "xt_locked_cluster k = vblk" "vblk \<noteq> U64_MAX"
    and q: "qi \<noteq> qi_invalid" "qi \<noteq> qi_admin" "unat qi < length (wk_cq w)"
    and l: "unat vblk < length (xc_clock (wk_ctrl w))" "wq_matches vblk (xc_wq (wk_ctrl w)) = []"
    and c: "tx_write_commit e leaf (xc_file (wk_ctrl w)) = (Inr y, f3)"
  shows "\<exists>w'. handle_cqe E pick x sub w = (Inr sub, w') \<and>
    wk_cq w' = served qi ucid (mk_reply (tk_tag k) (translate_uring_status (cqe_res x)) (xt_aux k)) (wk_cq w) \<and>
    xc_clock (wk_ctrl w') = (xc_clock (wk_ctrl w))[unat vblk := False] \<and> xc_heap (wk_ctrl w') = (xc_heap (wk_ctrl w))(cqe_data x := None) \<and>
    xc_file (wk_ctrl w') = (if 0 \<le> cqe_res x then f3 else xc_file (wk_ctrl w))"
proof -
  have noop: "make_tag qi ucid \<noteq> noop_tag" using q(1) unmake_make_tag [of qi ucid] unmake_make_tag [of qi_invalid "0xfffe"]
    by (auto simp: noop_tag_def)
  show ?thesis
  proof (cases "0 \<le> cqe_res x")
    case True
    then show ?thesis
      using k q l c noop
      by (simp add: handle_cqe_def on_ctrl_def xc_prog_defs Let_def process_reply_def delete_ticket_def set_lock_def drain_idle served_def)
  next
    case False
    then show ?thesis
      using k q l c noop
      by (simp add: handle_cqe_def on_ctrl_def xc_prog_defs Let_def process_reply_def delete_ticket_def set_lock_def drain_idle served_def)
  qed
qed

text \<open>The completions of an allocation, one or two.\<close>

lemma alloc_completions:
  fixes c' :: xcow_ctrl and w :: xworker
  assumes k: "xc_heap c' t = Some k" "alloc_ticket (make_tag qi ucid) vblk e prev outoff k"
    and lock: "vblk \<noteq> U64_MAX" "unat vblk < length (xc_clock c')" "wq_matches vblk (xc_wq c') = []"
    and queue: "qi \<noteq> qi_invalid" "qi \<noteq> qi_admin" "unat qi < length (wk_cq w)"
    and commit: "tx_write_commit e (encode_leaf outoff True) (xc_file c') = (Inr y, f3)"
    and comps: "length cqes = (if is_empty prev then 1 else 2)"
    and w: "wk_ctrl w = c'" and x: "\<forall>x\<in>set cqes. cqe_data x = t"
  shows "\<exists>w'. sfold (handle_cqe E pick) cqes False w = (Inr False, w') \<and>
     wk_cq w' = served qi ucid (mk_reply (make_tag qi ucid) (translate_uring_status (cqe_res (last cqes))) (xt_aux k)) (wk_cq w) \<and>
     xc_clock (wk_ctrl w') = (xc_clock c')[unat vblk := False] \<and> xc_file (wk_ctrl w') = (if 0 \<le> cqe_res (last cqes) then f3 else xc_file c')"
proof -
  have last: "\<exists>w'. handle_cqe E pick x False w1 = (Inr False, w') \<and>
      wk_cq w' = served qi ucid (mk_reply (make_tag qi ucid) (translate_uring_status (cqe_res x)) (xt_aux k)) (wk_cq w) \<and>
      xc_clock (wk_ctrl w') = (xc_clock c')[unat vblk := False] \<and> xc_file (wk_ctrl w') = (if 0 \<le> cqe_res x then f3 else xc_file c')"
    if "wk_ctrl w1 = c'\<lparr>xc_heap := h\<rparr>" "h t = Some (k\<lparr>tk_count := 1\<rparr>)" "wk_cq w1 = wk_cq w" "cqe_data x = t" for x w1 h
    using handle_last [of w1 x "k\<lparr>tk_count := 1\<rparr>" qi ucid e "encode_leaf outoff True" vblk y f3 E pick False] commit that k lock queue
    by (auto simp: alloc_ticket_def)
  show ?thesis
  proof (cases "is_empty prev")
    case True
    then obtain x1 where c: "cqes = [x1]" using comps by (auto simp: length_Suc_conv)
    have "k\<lparr>tk_count := 1\<rparr> = k" using True k(2) by (cases k) (simp add: alloc_ticket_def)
    then show ?thesis using last [of w "xc_heap c'" x1] w x k(1) c by (auto simp: sbind_Inr_iff)
  next
    case False
    then obtain x1 x2 where c: "cqes = [x1, x2]" using comps by (auto simp: length_Suc_conv eval_nat_numeral)
    let ?h = "(xc_heap c')(t \<mapsto> k\<lparr>tk_count := 1\<rparr>)"
    let ?w = "w\<lparr>wk_ctrl := c'\<lparr>xc_heap := ?h\<rparr>\<rparr>"
    have n: "tk_count k = 2" using False k(2) by (simp add: alloc_ticket_def)
    have d: "cqe_data x1 = t" "cqe_data x2 = t" using x c by simp_all
    have h1: "handle_cqe E pick x1 False w = (Inr False, ?w)"
      by (subst handle_more [of w x1 k]) (simp_all add: w d k(1) n)
    have pre: "wk_ctrl ?w = c'\<lparr>xc_heap := ?h\<rparr>" "?h t = Some (k\<lparr>tk_count := 1\<rparr>)" "wk_cq ?w = wk_cq w" by simp_all
    obtain w' where h2: "handle_cqe E pick x2 False ?w = (Inr False, w')"
      and r: "wk_cq w' = served qi ucid (mk_reply (make_tag qi ucid) (translate_uring_status (cqe_res x2)) (xt_aux k)) (wk_cq w)"
        "xc_clock (wk_ctrl w') = (xc_clock c')[unat vblk := False]" "xc_file (wk_ctrl w') = (if 0 \<le> cqe_res x2 then f3 else xc_file c')"
      using last [OF pre d(2)] by blast
    have "sfold (handle_cqe E pick) cqes False w = (Inr False, w')" by (simp add: c sbind_apply h1 h2)
    then show ?thesis using r by (intro exI [of _ w']) (simp add: c)
  qed
qed

section \<open>From the command to the response\<close>

text \<open>A write that translates to a new cluster takes its two phases.\<close>

lemma translate_phases:
  assumes "disk_inv f s" "on_disk f a" "translate_write s a f = (Inr (leaf, prev), f3)" "needs_alloc prev"
  obtains e f1 outoff tmp f2 where "tx_write_prep s a f = (Inr e, f1)" "cell_get e f1 = (Inr prev, f1)"
    "alloc_data_cluster s f1 = (Inr (outoff, tmp), f2)" "leaf = encode_leaf outoff True"
proof -
  obtain e f1 cur f1' where p: "tx_write_prep s a f = (Inr e, f1)" "cell_get e f1 = (Inr cur, f1')"
    and r: "(if needs_alloc cur then sbind (alloc_data_cluster s) (\<lambda>(off, nbytes). tx_write_commit e (encode_leaf off True)) else return (cur, cur)) f1' =
      (Inr (leaf, prev), f3)"
    using two_phase_effect [OF assms(1,2), THEN conjunct1] assms(3) by (auto simp: sbind_Inr_iff)
  have f1': "f1' = f1" using p(2) by (auto simp: cell_get_def prog_simps split: if_splits)
  have na: "needs_alloc cur" using r assms(4) by (auto split: if_splits)
  then obtain outoff tmp f2 where al: "alloc_data_cluster s f1 = (Inr (outoff, tmp), f2)"
    using r by (auto simp: f1' sbind_Inr_iff)
  then have "prev = cur" "leaf = encode_leaf outoff True"
    using two_phase_steps(2) [OF assms(1,2) p(1) p(2) [unfolded f1'] na al] assms(3) by auto
  then show ?thesis using that p al f1' by blast
qed

lemma do_write_goes:
  assumes "ns_lba_shift (xe_kernel E) (nsid cmd) (xc_nvme c) = (Inr lbas, nv)" "lbas \<le> cluster_bits (xc_file c)"
    "vblk = drop_bit (cluster_bits (xc_file c) - lbas) (rw_slba cmd)"
    "vblk = drop_bit (cluster_bits (xc_file c) - lbas) (rw_slba cmd + ucast (rw_length cmd))"
    "\<And>q. \<not> lu_sq_full (xe_uring E) q" "unat vblk < length (xc_clock c)" "\<not> xc_clock c ! unat vblk"
    "tx_write_prep (xc_snap c) (push_bit lbas (rw_slba cmd)) (xc_file c) = (Inr e, f1)" "cell_get e f1 = (Inr cur, f1)" "needs_alloc cur"
    "alloc_data_cluster (xc_snap c) f1 = (Inr (outoff, tmp), f2)" "cell_get e f2 = (Inr cur, f2)"
  shows "\<exists>t c'. do_write E cmd tag c = (Inr (Ticket t), c')"
  using assms
  by (cases "is_empty cur")
    (simp_all add: do_write_def clus_lba_shift_def get_lock_def set_lock_def do_alloc_one_tx_def do_cow_def queue_read_def queue_write_def
      queue_fallocate_def get_sqe_def sqe_set_link_def new_xcow_ticket_def xc_prog_defs Let_def)

text \<open>
  C4. A write that needs a new cluster, from the command to the response. Suppose the command lies in one cluster, which is not locked and for
  which nothing waits, and the map would allocate for it. Then the controller takes a ticket, locks the cluster, and asks the device to zero
  the new cluster, or to copy the old one into it; until the requests complete every address still shows what it showed. When
  they have completed, whatever their results, exactly one response goes to the queue and with the identifier of the
  command, and the cluster is unlocked. If the last request succeeded the response is a success that names the new cluster, and the
  map is the one that \<open>translate_write\<close> gives; if it failed the response is an error, and the map is unchanged.
\<close>

theorem write_miss_completes:
  fixes c :: xcow_ctrl and w :: xworker
  defines "f \<equiv> xc_file c" and "s \<equiv> xc_snap c"
  assumes map: "disk_inv f s" "a = push_bit lbas (rw_slba cmd)" "on_disk f a" "translate_write s a f = (Inr (leaf, prev), f3)" "needs_alloc prev"
    and blocks: "ns_lba_shift (xe_kernel E) (nsid cmd) (xc_nvme c) = (Inr lbas, nv)" "lbas \<le> cluster_bits f"
      "vblk = drop_bit (cluster_bits f - lbas) (rw_slba cmd)" "vblk = drop_bit (cluster_bits f - lbas) (rw_slba cmd + ucast (rw_length cmd))"
    and lock: "vblk \<noteq> U64_MAX" "unat vblk < length (xc_clock c)" "\<not> xc_clock c ! unat vblk" "wq_matches vblk (xc_wq c) = []"
    and ring: "\<And>q. \<not> lu_sq_full (xe_uring E) q"
    and queue: "qi \<noteq> qi_invalid" "qi \<noteq> qi_admin" "unat qi < length (wk_cq w)"
    and comps: "length cqes = (if is_empty prev then 1 else 2)"
  shows "\<exists>t c' outoff nb. do_write E cmd (make_tag qi ucid) c = (Inr (Ticket t), c') \<and> leaf = encode_leaf outoff True \<and>
    xc_clock c' = (xc_clock c)[unat vblk := True] \<and> ur_sq (xc_ring c') = ur_sq (xc_ring c) @ alloc_requests t prev outoff nb \<and>
    (\<forall>b. on_disk f b \<longrightarrow> (\<exists>u v. disk_view f s b = Inr u \<and> disk_view (xc_file c') s b = Inr v \<and> v AND NOT xl_writable = u AND NOT xl_writable)) \<and>
    (wk_ctrl w = c' \<and> (\<forall>x\<in>set cqes. cqe_data x = t) \<longrightarrow>
       (\<exists>w'. sfold (handle_cqe E pick) cqes False w = (Inr False, w') \<and>
          wk_cq w' = served qi ucid (mk_reply (make_tag qi ucid) (translate_uring_status (cqe_res (last cqes)))
            (set_aux_addr outoff (AUXBITS_VALID OR AUXBITS_WRITABLE OR AUXCMD_FORWARD))) (wk_cq w) \<and>
          xc_clock (wk_ctrl w') = xc_clock c \<and> xc_file (wk_ctrl w') = (if 0 \<le> cqe_res (last cqes) then f3 else xc_file c')))"
proof -
  obtain e f1 outoff tmp f2 where ph: "tx_write_prep s a f = (Inr e, f1)" "cell_get e f1 = (Inr prev, f1)"
      "alloc_data_cluster s f1 = (Inr (outoff, tmp), f2)" "leaf = encode_leaf outoff True"
    by (rule translate_phases [OF map(1,3,4,5)])
  note ts = two_phase_steps [OF map(1,3) ph(1,2) map(5) ph(3)]
  have commit: "tx_write_commit e (encode_leaf outoff True) f2 = (Inr (encode_leaf outoff True, prev), f3)" using ts(2) map(4) by auto
  obtain t c' where run: "do_write E cmd (make_tag qi ucid) c = (Inr (Ticket t), c')"
    using do_write_goes [OF blocks(1) _ _ _ ring lock(2,3)] blocks(2-4) ph ts(1) map(2,5) unfolding f_def s_def by blast
  obtain k where k: "xc_file c' = f2" "xc_heap c' t = Some k" "alloc_ticket (make_tag qi ucid) vblk e prev outoff k"
    "xt_aux k = set_aux_addr outoff (AUXBITS_VALID OR AUXBITS_WRITABLE OR AUXCMD_FORWARD)"
    "xc_clock c' = (xc_clock c)[unat vblk := True]" "xc_wq c' = xc_wq c" "ur_sq (xc_ring c') = ur_sq (xc_ring c) @ alloc_requests t prev outoff (cluster_size f2)"
    by (rule do_write_run [OF blocks(1) blocks(2-4) [unfolded f_def] run]) (use ph ts(1) map(2) in \<open>auto simp: f_def s_def\<close>)
  have un: "(xc_clock c')[unat vblk := False] = xc_clock c" using lock(2,3) k(5) by (simp add: list_update_same_conv)
  have "\<exists>w'. sfold (handle_cqe E pick) cqes False w = (Inr False, w') \<and>
          wk_cq w' = served qi ucid (mk_reply (make_tag qi ucid) (translate_uring_status (cqe_res (last cqes))) (xt_aux k)) (wk_cq w) \<and>
          xc_clock (wk_ctrl w') = xc_clock c \<and> xc_file (wk_ctrl w') = (if 0 \<le> cqe_res (last cqes) then f3 else xc_file c')"
    if "wk_ctrl w = c'" "\<forall>x\<in>set cqes. cqe_data x = t"
    by (rule alloc_completions [OF k(2,3), where y = "(encode_leaf outoff True, prev)", unfolded un])
      (use that k(1,5,6) lock queue commit comps in simp_all)
  then show ?thesis
    using run ph(4) k(1,4,5,7) ts(3) by (intro exI [of _ t] exI [of _ c'] exI [of _ outoff] exI [of _ "cluster_size f2"]) simp
qed

definition sample_xenv :: xcow_env where
  "sample_xenv = \<lparr>xe_kernel = sample_kernel, xe_uring = sample_ring\<lparr>lu_sq_full := (\<lambda>_. False)\<rparr>, xe_set_id_vns = (\<lambda>_. 0)\<rparr>"

definition sample_xctrl :: xcow_ctrl where
  "sample_xctrl = \<lparr>xc_nvme = nvme_init, xc_vm = sample_mem, xc_file = demo_file, xc_snap = demo_snap,
     xc_ring = \<lparr>ur_fixed = [5], ur_bufs = [], ur_sq = [], ur_sent = []\<rparr>, xc_clock = replicate 256 False, xc_wq = [], xc_heap = (\<lambda>_. None), xc_fresh = 0\<rparr>"

definition sample_cow_write :: nvme_command where
  "sample_cow_write = (set_rw_slba 8 (sample_rw 0x1000 0 0))\<lparr>opcode := nvme_cmd_write\<rparr>"

lemma sample_cow_write_simps [simp]: "rw_slba sample_cow_write = 8" "rw_length sample_cow_write = 0" "nsid sample_cow_write = 1"
  by (simp_all add: sample_cow_write_def set_rw_slba_def rw_slba_def rw_length_def sample_rw_def)

text \<open>The first write to a formatted disk, with one request that succeeds.\<close>

text \<open>What the theorem asks of the sample controller and a first write at byte 4096.\<close>

lemma sample_write_miss:
  assumes tw: "translate_write demo_snap 4096 demo_file = (Inr (leaf, prev), f3)"
  shows "is_empty prev" "disk_inv (xc_file sample_xctrl) (xc_snap sample_xctrl)" "4096 = push_bit 9 (rw_slba sample_cow_write)"
    "on_disk (xc_file sample_xctrl) 4096" "translate_write (xc_snap sample_xctrl) 4096 (xc_file sample_xctrl) = (Inr (leaf, prev), f3)"
    "needs_alloc prev" "ns_lba_shift (xe_kernel sample_xenv) (nsid sample_cow_write) (xc_nvme sample_xctrl) =
      (Inr 9, snd (ns_lba_shift (xe_kernel sample_xenv) 1 nvme_init))"
    "9 \<le> cluster_bits (xc_file sample_xctrl)" "1 = drop_bit (cluster_bits (xc_file sample_xctrl) - 9) (rw_slba sample_cow_write)"
    "1 = drop_bit (cluster_bits (xc_file sample_xctrl) - 9) (rw_slba sample_cow_write + ucast (rw_length sample_cow_write))"
    "(1 :: u64) \<noteq> U64_MAX" "unat (1 :: u64) < length (xc_clock sample_xctrl)" "\<not> xc_clock sample_xctrl ! unat (1 :: u64)"
    "wq_matches 1 (xc_wq sample_xctrl) = []" "\<And>q. \<not> lu_sq_full (xe_uring sample_xenv) q" "0 \<noteq> qi_invalid" "0 \<noteq> qi_admin"
proof -
  have od: "on_disk demo_file 4096" by (rule demo_on_disk) simp
  have "prev AND NOT xl_writable = empty_leaf AND NOT xl_writable"
    using write_effect [OF demo_inv od od] demo_view [OF od] by (simp add: tw same_cluster_def)
  then show pe: "is_empty prev" using masked_bits [of prev empty_leaf] by (simp add: is_empty_def empty_leaf_def)
  show "ns_lba_shift (xe_kernel sample_xenv) (nsid sample_cow_write) (xc_nvme sample_xctrl) =
      (Inr 9, snd (ns_lba_shift (xe_kernel sample_xenv) 1 nvme_init))"
    by (simp add: init_eval sample_xenv_def sample_xctrl_def)
  show "disk_inv (xc_file sample_xctrl) (xc_snap sample_xctrl)" "on_disk (xc_file sample_xctrl) 4096"
    "translate_write (xc_snap sample_xctrl) 4096 (xc_file sample_xctrl) = (Inr (leaf, prev), f3)" "needs_alloc prev"
    using demo_inv od tw pe by (simp_all add: sample_xctrl_def needs_alloc_def)
qed (simp_all add: sample_xctrl_def demo_geom qi_invalid_def qi_admin_def wq_matches_def sample_xenv_def drop_bit_eq_div push_bit_eq_mult)

theorem write_miss_completes_witness:
  "\<exists>t c' w' leaf prev f3 outoff. do_write sample_xenv sample_cow_write (make_tag 0 7) sample_xctrl = (Inr (Ticket t), c') \<and>
     translate_write demo_snap 4096 demo_file = (Inr (leaf, prev), f3) \<and> leaf = encode_leaf outoff True \<and>
     sfold (handle_cqe sample_xenv id) [\<lparr>cqe_data = t, cqe_res = 0\<rparr>] False
       \<lparr>wk_ctrl = c', wk_sqids = [1], wk_sq = [[]], wk_cq = [[]], wk_adm = None\<rparr> = (Inr False, w') \<and>
     xc_file (wk_ctrl w') = f3 \<and>
     wk_cq w' = [[mk_response 7 (mk_reply (make_tag 0 7) NVME_SC_SUCCESS (set_aux_addr outoff (AUXBITS_VALID OR AUXBITS_WRITABLE OR AUXCMD_FORWARD)))]]"
proof -
  obtain leaf prev f3 where tw: "translate_write demo_snap 4096 demo_file = (Inr (leaf, prev), f3)" by (rule demo_write)
  let ?reply = "\<lambda>outoff. set_aux_addr outoff (AUXBITS_VALID OR AUXBITS_WRITABLE OR AUXCMD_FORWARD)"
  have claim: "\<exists>t c' outoff. do_write sample_xenv sample_cow_write (make_tag 0 7) sample_xctrl = (Inr (Ticket t), c') \<and> leaf = encode_leaf outoff True \<and>
      (wk_ctrl w = c' \<and> cqe_data x = t \<longrightarrow>
       (\<exists>w'. sfold (handle_cqe sample_xenv id) [x] False w = (Inr False, w') \<and>
          wk_cq w' = served 0 7 (mk_reply (make_tag 0 7) (translate_uring_status (cqe_res x)) (?reply outoff)) (wk_cq w) \<and>
          xc_file (wk_ctrl w') = (if 0 \<le> cqe_res x then f3 else xc_file c')))" if len: "0 < length (wk_cq w)" for w x
  proof -
    note hyps = sample_write_miss [OF tw]
    have queue: "unat (0 :: u16) < length (wk_cq w)" "length [x] = (if is_empty prev then 1 else 2)" using len hyps(1) by simp_all
    have one: "(\<forall>y\<in>set [x]. cqe_data y = t) = (cqe_data x = t)" for t by simp
    from write_miss_completes [OF hyps(2-17) queue, of 7 id] show ?thesis
      unfolding last_ConsL [OF refl] one by (elim exE conjE) (intro exI conjI; assumption?; blast)
  qed
  let ?w = "\<lambda>c'. \<lparr>wk_ctrl = c', wk_sqids = [1], wk_sq = [[]], wk_cq = [[]], wk_adm = None\<rparr>" and ?x = "\<lambda>t. \<lparr>cqe_data = t, cqe_res = 0\<rparr>"
  obtain t c' where go: "do_write sample_xenv sample_cow_write (make_tag 0 7) sample_xctrl = (Inr (Ticket t), c')"
    using claim [of "?w sample_xctrl" "?x 0"] by auto
  obtain outoff w' where r: "leaf = encode_leaf outoff True" "sfold (handle_cqe sample_xenv id) [?x t] False (?w c') = (Inr False, w')"
     "wk_cq w' = served 0 7 (mk_reply (make_tag 0 7) (translate_uring_status 0)
            (set_aux_addr outoff (AUXBITS_VALID OR AUXBITS_WRITABLE OR AUXCMD_FORWARD))) [[]]" "xc_file (wk_ctrl w') = f3"
    using claim [of "?w c'" "?x t"] go by auto
  then show ?thesis using go tw by (intro exI [of _ t] exI [of _ c'] exI [of _ w'] exI [of _ leaf] exI [of _ prev] exI [of _ f3] exI [of _ outoff])
      (simp add: served_def translate_uring_status_def)
qed

text \<open>A worker on the sample disk: its controller can be made, and it starts when the lock is free.\<close>

lemma demo_ctrl: "\<exists>c. nvme_xcow_make sample_xenv vm 6 demo_file = Inr c"
  by (simp add: nvme_xcow_make_def open_write_inv [OF demo_inv] uring_make_def uring_create_def sample_xenv_def Uring.sample_ring_def
      init_eval Let_def)

lemma demo_worker:
  assumes "map_addr vm \<noteq> 0" "map_size vm \<noteq> 0" "qs \<noteq> []"
  shows "\<exists>w. xworker_make sample_xenv (ce_map sample_ctl) 6 vm qs adm \<lparr>sv_locked = False, sv_file = demo_file\<rparr> =
    (Inr w, \<lparr>sv_locked = True, sv_file = demo_file\<rparr>)"
proof -
  have "file_deref_make (ce_map sample_ctl) demo_file = (Inr (), demo_file)"
    by (simp add: file_deref_make_def sample_ctl_def demo_file_def formatted_def blank_file_def)
  moreover obtain c where "nvme_xcow_make sample_xenv vm 6 demo_file = Inr c" using demo_ctrl by blast
  ultimately show ?thesis
    using assms by (simp add: xworker_make_def prog_simps on_sv_file_def open_or_throw_def srv_lock_def file_lock_def demo_open)
      (simp add: sample_ctl_def fd_open_def)
qed

end
