(* ===== verification/ProgramsProps.thy ===== *)
theory ProgramsProps
  imports Programs SgxProps XcowSrvProps
begin

text \<open>
  What the programs start: every queue of the device goes to one worker, the copy-on-write server runs with one worker only, and the programs on
  an enclave cannot be given a block size.
\<close>

section \<open>Options\<close>

text \<open>What no case of a switch changes for the options at hand stays as it was.\<close>

lemma parse_options_keeps:
  assumes "\<And>c a opts opts'. (c, a) \<in> set os \<Longrightarrow> sw c a opts = Some opts' \<Longrightarrow> f opts' = f opts"
    and "parse_options sw os opts = Some opts'"
  shows "f opts' = f opts"
  using assms
proof (induction os arbitrary: opts)
  case (Cons x os)
  then obtain c a mid where "x = (c, a)" "sw c a opts = Some mid" "parse_options sw os mid = Some opts'"
    by (cases x) (auto split: option.splits)
  moreover have "f opts' = f mid" by (rule Cons.IH) (use Cons.prems(1) calculation in \<open>auto intro: Cons.prems(1)\<close>)
  ultimately show ?case using Cons.prems(1) [of c a opts mid] by simp
qed simp

section \<open>Dealing out the queues\<close>

lemma deal_fold:
  assumes "\<And>i. i \<in> set is \<Longrightarrow> g i < n"
  shows "fold (\<lambda>i ws. ws[g i := ws ! g i @ [h i]]) is (replicate n []) = map (\<lambda>k. map h (filter (\<lambda>i. g i = k) is)) [0..<n]"
  using assms
proof (induction "is" rule: rev_induct)
  case Nil
  then show ?case by (simp add: map_replicate_trivial)
next
  case (snoc i "is")
  then have "g i < n" by simp
  then show ?case using snoc by (intro nth_equalityI) (auto simp: nth_list_update)
qed

lemma deal_queues_n:
  fixes nthreads :: nat
  assumes "sqfds \<noteq> []"
  defines "n \<equiv> if nthreads = 0 \<or> length sqfds < nthreads then length sqfds else nthreads"
  shows "deal_queues nthreads sqfds = map (\<lambda>k. map (\<lambda>i. (i, sqfds ! i)) (filter (\<lambda>i. (i - 1) mod n = k) [1..<length sqfds])) [0..<n]"
proof -
  have "0 < n" using assms by auto
  then show ?thesis unfolding deal_queues_def Let_def n_def [symmetric] by (intro deal_fold) simp
qed

lemma mset_concat_by: "\<forall>x\<in>set xs. g x < n \<Longrightarrow> mset (concat (map (\<lambda>k. map h (filter (\<lambda>i. g i = k) xs)) [0..<n])) = mset (map h xs)"
proof (induction xs)
  case (Cons x xs)
  have "mset (concat (map (\<lambda>k. map h (filter (\<lambda>i. g i = k) (x # xs))) ks)) =
      (if g x \<in> set ks then {#h x#} else {#}) + mset (concat (map (\<lambda>k. map h (filter (\<lambda>i. g i = k) xs)) ks))" if "distinct ks" for ks
    using that by (induction ks) auto
  from this [of "[0..<n]"] show ?case using Cons by simp
qed simp

section \<open>The copy-on-write server\<close>

text \<open>A worker that starts has found the lock free, and holds it.\<close>

lemma xworker_make_lock:
  assumes "xworker_make E M bfd vm qs adm s = (Inr w, s')"
  shows "\<not> sv_locked s" "sv_locked s'" "wk_sqids w = map fst qs" "wk_adm w = (if 0 \<le> adm then Some ([], []) else None)"
    "qs \<noteq> []"
proof -
  have z: "sv_locked t' = sv_locked t" if "on_sv_file m t = (r, t')" for m r and t t' :: server
    using that by (auto simp: on_sv_file_def zoom_def split: prod.splits)
  have lk: "\<not> sv_locked t \<and> sv_locked t'" if "srv_lock M t = (Inr u, t')" for t t' u
    using that by (auto simp: srv_lock_def prog_simps split: prod.splits sum.splits if_splits dest: z)
  from assms obtain s1 s2 s3 s4 c where st:
    "on_sv_file (open_or_throw (me_open M) ''cannot open mapfile'') s = (Inr (), s1)" "srv_lock M s1 = (Inr (), s2)"
    "on_sv_file (file_deref_make M) s2 = (Inr (), s3)" "on_sv_file xcow_open s3 = (Inr (), s4)"
    "s' = s4" "qs \<noteq> []" "w = \<lparr>wk_ctrl = c, wk_sqids = map fst qs, wk_sq = map (\<lambda>_. []) qs, wk_cq = map (\<lambda>_. []) qs,
                     wk_adm = (if 0 \<le> adm then Some ([], []) else None)\<rparr>"
    by (auto simp: xworker_make_def sbind_Inr_iff split: if_splits)
  then show "\<not> sv_locked s" "sv_locked s'" "wk_sqids w = map fst qs" "wk_adm w = (if 0 \<le> adm then Some ([], []) else None)" "qs \<noteq> []"
    using z [OF st(1)] lk [OF st(2)] z [OF st(3)] z [OF st(4)] st(5-7) by simp_all
qed

text \<open>So no second worker starts, in whatever order they do.\<close>

lemma start_order:
  defines "body \<equiv> \<lambda>E M bfd vm q adm tid ws. sbind (xworker_make E M bfd vm (q tid) (adm tid)) (\<lambda>w. return (ws @ [w]))"
  assumes "sfold (body E M bfd vm q adm) tids acc s = (Inr ws, s')"
  shows "length tids \<le> (if sv_locked s then 0 else 1)"
    "tids = [tid] \<Longrightarrow> \<exists>w. xworker_make E M bfd vm (q tid) (adm tid) s = (Inr w, s') \<and> ws = acc @ [w]"
proof -
  have one: "\<exists>w. xworker_make E M bfd vm (q tid) (adm tid) s = (Inr w, s1) \<and> ws' = acc @ [w]"
    if "body E M bfd vm q adm tid acc s = (Inr ws', s1)" for tid acc s ws' s1
    using that by (auto simp: body_def sbind_Inr_iff)
  show "length tids \<le> (if sv_locked s then 0 else 1)"
    using assms(2)
  proof (induction tids arbitrary: acc s)
    case (Cons t tids)
    then obtain acc' s1 where w: "body E M bfd vm q adm t acc s = (Inr acc', s1)" and rest: "sfold (body E M bfd vm q adm) tids acc' s1 = (Inr ws, s')"
      by (auto simp: sbind_Inr_iff)
    show ?case using Cons.IH [OF rest] one [OF w] xworker_make_lock(1,2) by fastforce
  qed simp
  show "tids = [tid] \<Longrightarrow> \<exists>w. xworker_make E M bfd vm (q tid) (adm tid) s = (Inr w, s') \<and> ws = acc @ [w]"
    using assms(2) one by (auto simp: sbind_Inr_iff)
qed

lemma assign_loop_length: "length (assign_loop n i active fds ws) = length ws"
  by (induction n i active fds ws rule: assign_loop.induct) auto

lemma assign_loop_one: "assign_loop (Suc 0) i active fds [q] = [q @ filter (\<lambda>(k, fd). 0 \<le> fd) (enumerate i fds)]"
  by (induction fds arbitrary: i active q) auto

lemma fst_filter_enumerate:
  "map fst (filter (\<lambda>(k, x). P x) (enumerate i xs)) = filter (\<lambda>k. P (xs ! (k - i))) [i..<i + length xs]"
proof (induction xs rule: rev_induct)
  case (snoc x xs)
  have "filter (\<lambda>k. P ((xs @ [x]) ! (k - i))) [i..<i + length xs] = filter (\<lambda>k. P (xs ! (k - i))) [i..<i + length xs]"
    by (rule filter_cong) (auto simp: nth_append)
  then show ?case using snoc by (simp add: enumerate_append_eq)
qed simp

lemma open_machine_fds:
  assumes "open_machine H opts = Inr (Some (sqfds, vm))"
  shows "sqfds = mdev_queues (ho_vfio H (the (op_iommu_group opts)) (the (op_mdev_uuid opts))) (replicate MAX_VIRTUAL_QUEUES 0)" "length sqfds = 16"
proof -
  show q: "sqfds = mdev_queues (ho_vfio H (the (op_iommu_group opts)) (the (op_mdev_uuid opts))) (replicate MAX_VIRTUAL_QUEUES 0)"
    using assms by (auto simp: open_machine_def mdev_open_def rbind_Inr_iff split: if_splits option.splits)
  show "length sqfds = 16" unfolding q mdev_queues_n by (simp add: MAX_VIRTUAL_QUEUES_def)
qed

text \<open>
  C26. The copy-on-write server runs with one worker only. Whatever the order in which the constructors of its workers run, when none of them throws there
  is one, the option for the number of threads is 1, its default, and the worker serves all the queues that the device has opened, at least one, and the
  administration queue if that is open.
\<close>

theorem server_runs_one_worker:
  assumes run: "xcowsrv_main E M H order args s = (Inr (Run ws), s')" and order: "\<And>n. mset (order n) = mset [0..<n]"
  shows "\<exists>w opts. parse_options xcowsrv_switch (getopt ''g:d:m:M:Fb:j:l:'' args) (options_init 1) = Some opts \<and> op_nthreads opts = 1 \<and> ws = [w] \<and>
    (let sqfds = mdev_queues (ho_vfio H (the (op_iommu_group opts)) (the (op_mdev_uuid opts))) (replicate MAX_VIRTUAL_QUEUES 0)
     in wk_sqids w = filter (\<lambda>i. 0 \<le> sqfds ! i) [1..<16] \<and> wk_sqids w \<noteq> [] \<and> (wk_adm w \<noteq> None \<longleftrightarrow> 0 \<le> sqfds ! 0))"
proof -
  from run obtain opts sqfds vm where p: "parse_options xcowsrv_switch (getopt ''g:d:m:M:Fb:j:l:'' args) (options_init 1) = Some opts"
    and m: "open_machine H opts = Inr (Some (sqfds, vm))"
    and go: "sfold (\<lambda>tid ws. sbind (xworker_make E M (ho_blk H (the (op_blkdev opts))) vm
      (assign_queues (unat (op_nthreads opts)) sqfds ! tid) (if tid = 0 then sqfds ! 0 else - 1)) (\<lambda>w. return (ws @ [w])))
      (order (length (assign_queues (unat (op_nthreads opts)) sqfds))) [] s = (Inr ws, s')"
    by (auto simp: xcowsrv_main_def sbind_Inr_iff Let_def split: option.splits if_splits prod.splits)
  note sq = open_machine_fds [OF m]
  let ?n = "length (assign_queues (unat (op_nthreads opts)) sqfds)"
  have n: "?n = (if unat (op_nthreads opts) = 0 \<or> 16 < unat (op_nthreads opts) then 16 else unat (op_nthreads opts))"
    by (simp add: assign_queues_def Let_def assign_loop_length sq(2))
  have "length (order ?n) = ?n" using arg_cong [OF order [of ?n], of size] by simp
  then have one: "unat (op_nthreads opts) = 1"
    using start_order(1) [OF go] n by (auto split: if_splits)
  have "order 1 = [0]" using order [of 1] by (simp add: mset_single_iff)
  with one n have o: "order ?n = [0]" by simp
  obtain w where w: "xworker_make E M (ho_blk H (the (op_blkdev opts))) vm (assign_queues 1 sqfds ! 0) (sqfds ! 0) s = (Inr w, s')" "ws = [w]"
    using start_order(2) [OF go o] one by auto
  have q: "assign_queues 1 sqfds ! 0 = filter (\<lambda>(k, fd). 0 \<le> fd) (enumerate 1 (tl sqfds))"
    using sq(2) by (simp add: assign_queues_def Let_def assign_loop_one)
  have "filter (\<lambda>k. 0 \<le> tl sqfds ! (k - 1)) [1..<1 + length (tl sqfds)] = filter (\<lambda>i. 0 \<le> sqfds ! i) [1..<16]"
    by (rule filter_cong) (auto simp: nth_tl sq(2))
  then have "wk_sqids w = filter (\<lambda>i. 0 \<le> sqfds ! i) [1..<16]"
    using xworker_make_lock(3) [OF w(1)] unfolding q fst_filter_enumerate by simp
  moreover have "wk_sqids w \<noteq> []" using xworker_make_lock(3,5) [OF w(1)] by simp
  moreover have "op_nthreads opts = 1" by (rule word_eq_unatI) (simp add: one)
  ultimately show ?thesis using p w(2) xworker_make_lock(4) [OF w(1)] sq(1) by (auto simp: Let_def)
qed

section \<open>A machine\<close>

text \<open>A host whose device has three queues, and the options that name it.\<close>

definition demo_host :: host where
  "demo_host = \<lparr>ho_vfio = (\<lambda>_ _. \<lparr>vf_container = 3, vf_api_known = True, vf_type1 = True, vf_group = 4, vf_viable = True, vf_set_container = 0,
      vf_set_iommu = 0, vf_device = 5, vf_vq_count = 3, vf_open_queue = (\<lambda>i. 10 + int i)\<rparr>),
     ho_mem = (\<lambda>_. Some sample_host), ho_bytes = (\<lambda>_ _. 0), ho_base = 0x7F0000000000, ho_key = (\<lambda>_. Some (replicate 40 7)),
     ho_blk = (\<lambda>_. 6), ho_dev = (\<lambda>_ _. 0)\<rparr>"

definition demo_words :: "string list" where
  "demo_words = [''-g'', ''12'', ''-d'', ''uuid'', ''-m'', ''mem'', ''-bdisk'']"

lemma demo_queues: "mdev_open (ho_vfio demo_host g u) (replicate MAX_VIRTUAL_QUEUES 0) = (0, [10, 11, 12] @ replicate 13 (-1), [5, 4, 3])"
proof -
  have "[0..<3] = [0, 1, 2 :: nat]" by code_simp
  then show ?thesis by (simp add: demo_host_def mdev_open_def mdev_queues_n MAX_VIRTUAL_QUEUES_def)
qed

lemma demo_machine:
  assumes "op_below_4g opts = 0x80000000"
  obtains vm where "open_machine demo_host opts = Inr (Some ([10, 11, 12] @ replicate 13 (-1), vm))" "map_addr vm \<noteq> 0" "map_size vm \<noteq> 0"
proof -
  have "\<exists>v. mdev_vm_mmap sample_host 0x80000000 = Inr v \<and> vm_len v = 0x200000000"
    by (simp add: mdev_vm_mmap_def sample_host_def Let_def GIB4_def push_bit_eq_mult)
  then obtain v where v: "mdev_vm_mmap sample_host 0x80000000 = Inr v" "vm_len v = 0x200000000" by blast
  have h: "ho_mem demo_host m = Some sample_host" "ho_base demo_host \<noteq> 0" for m by (simp_all add: demo_host_def)
  show ?thesis
    by (rule that [of "vm_mapping (ho_base demo_host) (ho_bytes demo_host (the (op_memfile opts))) v"])
      (simp_all add: open_machine_def demo_queues v h assms vm_mapping_def)
qed

definition demo_opts :: "u64 \<Rightarrow> options" where
  "demo_opts n = (options_init n)\<lparr>op_iommu_group := Some ''12'', op_mdev_uuid := Some ''uuid'', op_memfile := Some ''mem'', op_blkdev := Some ''disk''\<rparr>"

lemma demo_server_opts: "parse_options xcowsrv_switch (getopt ''g:d:m:M:Fb:j:l:'' (demo_words @ [''-Mmap''])) (options_init 1) = Some ((demo_opts 1)\<lparr>op_mapfile := Some ''map''\<rparr>)"
  by (simp add: demo_words_def xcowsrv_switch_def common_switch_def demo_opts_def)

theorem server_runs_one_worker_witness:
  "\<exists>w s'. xcowsrv_main sample_xenv (ce_map sample_ctl) demo_host (\<lambda>n. [0..<n]) (demo_words @ [''-Mmap'']) \<lparr>sv_locked = False, sv_file = demo_file\<rparr> =
      (Inr (Run [w]), s') \<and> wk_sqids w = [1, 2] \<and> wk_adm w \<noteq> None"
proof -
  let ?s = "\<lparr>sv_locked = False, sv_file = demo_file\<rparr>" and ?o = "(demo_opts 1)\<lparr>op_mapfile := Some ''map''\<rparr>"
  obtain vm where vm: "open_machine demo_host ?o = Inr (Some ([10, 11, 12] @ replicate 13 (-1), vm))" "map_addr vm \<noteq> 0" "map_size vm \<noteq> 0"
    by (rule demo_machine [of ?o]) (simp_all add: demo_opts_def options_init_def push_bit_eq_mult)
  let ?qss = "assign_queues 1 ([10, 11, 12] @ replicate 13 (-1))"
  have qs: "?qss = [[(1, 11), (2, 12)]]" by code_simp
  obtain w where "xworker_make sample_xenv (ce_map sample_ctl) 6 vm [(1, 11), (2, 12)] 10 ?s = (Inr w, \<lparr>sv_locked = True, sv_file = demo_file\<rparr>)"
    using demo_worker [OF vm(2,3)] by blast
  moreover have "ho_blk demo_host b = 6" for b by (simp add: demo_host_def)
  ultimately have run: "xcowsrv_main sample_xenv (ce_map sample_ctl) demo_host (\<lambda>n. [0..<n]) (demo_words @ [''-Mmap'']) ?s =
      (Inr (Run [w]), \<lparr>sv_locked = True, sv_file = demo_file\<rparr>)"
    unfolding xcowsrv_main_def demo_server_opts using vm(1) qs
    by (simp add: demo_opts_def options_init_def prog_simps)
  have q: "mdev_queues (ho_vfio demo_host g u) (replicate MAX_VIRTUAL_QUEUES 0) = [10, 11, 12] @ replicate 13 (-1)" for g u
    using demo_queues [of g u] by (auto simp: mdev_open_def split: if_splits)
  have "filter (\<lambda>i. 0 \<le> ([10, 11, 12] @ replicate 13 (-1 :: int)) ! i) [1..<16] = [1, 2]" by code_simp
  then have "wk_sqids w = [1, 2] \<and> wk_adm w \<noteq> None"
    using server_runs_one_worker [OF run] by (auto simp: Let_def q)
  then show ?thesis using run by blast
qed

section \<open>Starting a program\<close>

text \<open>The key is the beginning of the key file; the queues of a program that deals them out.\<close>

lemma read_key_Inr: "read_key H file = Inr key \<Longrightarrow> length key = 32 \<and> (\<exists>rest. ho_key H file = Some (key @ rest))"
  by (auto simp: read_key_def split: option.splits if_splits) (metis append_take_drop_id)

lemma start_workers_Run:
  assumes "start_workers H opts start = Inr (Run ws)"
  defines "sqfds \<equiv> mdev_queues (ho_vfio H (the (op_iommu_group opts)) (the (op_mdev_uuid opts))) (replicate MAX_VIRTUAL_QUEUES 0)"
  obtains vm qss where "ws = map (\<lambda>(tid, qs). start tid vm qs) (enumerate 0 qss)" "mset (concat qss) = mset (map (\<lambda>i. (i, sqfds ! i)) [1..<16])"
    "length qss = (if op_nthreads opts = 0 \<or> 16 < unat (op_nthreads opts) then 16 else unat (op_nthreads opts))"
proof -
  obtain vm where m: "open_machine H opts = Inr (Some (sqfds, vm))"
    and ws: "ws = map (\<lambda>(tid, qs). start tid vm qs) (enumerate 0 (deal_queues (unat (op_nthreads opts)) sqfds))"
  proof -
    obtain fds vm where m: "open_machine H opts = Inr (Some (fds, vm))"
      "ws = map (\<lambda>(tid, qs). start tid vm qs) (enumerate 0 (deal_queues (unat (op_nthreads opts)) fds))"
      using assms(1) by (auto simp: start_workers_def rbind_Inr_iff split: option.splits)
    then show ?thesis using that open_machine_fds(1) [OF m(1)] by (simp add: sqfds_def)
  qed
  define n where "n = (if unat (op_nthreads opts) = 0 \<or> 16 < unat (op_nthreads opts) then 16 else unat (op_nthreads opts))"
  have d: "deal_queues (unat (op_nthreads opts)) sqfds = map (\<lambda>k. map (\<lambda>i. (i, sqfds ! i)) (filter (\<lambda>i. (i - 1) mod n = k) [1..<16])) [0..<n]"
    using deal_queues_n [of sqfds "unat (op_nthreads opts)"] open_machine_fds(2) [OF m] by (cases "sqfds = []") (simp_all add: n_def)
  show ?thesis
  proof (rule that [OF ws])
    show "mset (concat (deal_queues (unat (op_nthreads opts)) sqfds)) = mset (map (\<lambda>i. (i, sqfds ! i)) [1..<16])"
      unfolding d by (rule mset_concat_by) (simp add: n_def)
  qed (simp add: d n_def unat_eq_0)
qed

text \<open>
  C28. When \<open>encryptor-mt\<close> starts, its workers are made with the first 32 bytes of the key file and the cipher and block size that the options name, and
  every queue but the administration queue is served by exactly one of them. There are as many workers as the option says, and 16 when it says
  none or more than that.
\<close>

theorem program_deals_every_queue:
  assumes "mt_main L V H args = Inr (Run ws)"
  shows "\<exists>opts key vm qss. parse_options mt_switch (getopt ''g:d:m:b:e:B:k:j:il:'' args) (options_init 0) = Some opts \<and>
    length key = 32 \<and> (\<exists>rest. ho_key H (the (op_keyfile opts)) = Some (key @ rest)) \<and>
    ws = map (mt_start L V key (op_crypto_impl opts) (unat (op_block_size opts)) vm (ho_blk H (the (op_blkdev opts))) (ho_dev H (the (op_blkdev opts)))) qss \<and>
    length qss = (if op_nthreads opts = 0 \<or> 16 < unat (op_nthreads opts) then 16 else unat (op_nthreads opts)) \<and>
    (let sqfds = mdev_queues (ho_vfio H (the (op_iommu_group opts)) (the (op_mdev_uuid opts))) (replicate MAX_VIRTUAL_QUEUES 0)
     in mset (concat qss) = mset (map (\<lambda>i. (i, sqfds ! i)) [1..<16]))"
proof -
  from assms obtain opts key where p: "parse_options mt_switch (getopt ''g:d:m:b:e:B:k:j:il:'' args) (options_init 0) = Some opts"
    "read_key H (the (op_keyfile opts)) = Inr key"
    and w: "start_workers H opts (\<lambda>tid vm qs. mt_start L V key (op_crypto_impl opts) (unat (op_block_size opts)) vm
      (ho_blk H (the (op_blkdev opts))) (ho_dev H (the (op_blkdev opts))) qs) = Inr (Run ws)"
    by (auto simp: mt_main_def rbind_Inr_iff split: option.splits if_splits)
  obtain vm qss where q: "ws = map (\<lambda>(tid, qs). mt_start L V key (op_crypto_impl opts) (unat (op_block_size opts)) vm
      (ho_blk H (the (op_blkdev opts))) (ho_dev H (the (op_blkdev opts))) qs) (enumerate 0 qss)"
    "mset (concat qss) = mset (map (\<lambda>i. (i, mdev_queues (ho_vfio H (the (op_iommu_group opts)) (the (op_mdev_uuid opts))) (replicate MAX_VIRTUAL_QUEUES 0) ! i)) [1..<16])"
    "length qss = (if op_nthreads opts = 0 \<or> 16 < unat (op_nthreads opts) then 16 else unat (op_nthreads opts))"
    by (rule start_workers_Run [OF w])
  have "map (\<lambda>(tid, qs). f qs) (enumerate 0 qss) = map f qss" for f :: "(nat \<times> int) list \<Rightarrow> (tbc \<times> enc_ctrl) worker option result"
    by (rule nth_equalityI) (simp_all add: nth_enumerate_eq)
  with q(1) have "ws = map (mt_start L V key (op_crypto_impl opts) (unat (op_block_size opts)) vm
      (ho_blk H (the (op_blkdev opts))) (ho_dev H (the (op_blkdev opts)))) qss" by simp
  with p(1) read_key_Inr [OF p(2)] q(2,3) show ?thesis unfolding Let_def by blast
qed

theorem program_deals_every_queue_witness: "\<forall>V. \<exists>ws. mt_main sample_ipp V demo_host (demo_words @ [''-kkey'', ''-j2'']) = Inr (Run ws) \<and> length ws = 2"
proof
  fix V
  let ?o = "(demo_opts 2)\<lparr>op_keyfile := Some ''key''\<rparr>"
  have p: "parse_options mt_switch (getopt ''g:d:m:b:e:B:k:j:il:'' (demo_words @ [''-kkey'', ''-j2''])) (options_init 0) = Some ?o"
    by (simp add: demo_words_def mt_switch_def common_switch_def demo_opts_def options_init_def)
      (simp add: atoi_def strtol10_def split_sign_def is_space_def digit_value_def Let_def)
  obtain vm where "open_machine demo_host ?o = Inr (Some ([10, 11, 12] @ replicate 13 (-1), vm))"
    by (rule demo_machine [of ?o]) (simp_all add: demo_opts_def options_init_def push_bit_eq_mult)
  moreover have k: "ho_key demo_host f = Some (replicate 40 7)" for f by (simp add: demo_host_def)
  ultimately have "\<exists>ws. mt_main sample_ipp V demo_host (demo_words @ [''-kkey'', ''-j2'']) = Inr (Run ws)"
    unfolding mt_main_def p by (simp add: start_workers_def rbind_def read_key_def k) (simp add: demo_opts_def options_init_def)
  then obtain ws where ws: "mt_main sample_ipp V demo_host (demo_words @ [''-kkey'', ''-j2'']) = Inr (Run ws)" ..
  have "op_nthreads (demo_opts 2) = 2" by (simp add: demo_opts_def options_init_def)
  with program_deals_every_queue [OF ws] have "length ws = 2" unfolding p by auto
  with ws show "\<exists>ws. mt_main sample_ipp V demo_host (demo_words @ [''-kkey'', ''-j2'']) = Inr (Run ws) \<and> length ws = 2" by blast
qed

section \<open>The block size of the programs on an enclave\<close>

lemma parse_unknown: "(CHR ''?'', []) \<in> set os \<Longrightarrow> (\<And>a opts. sw (CHR ''?'') a opts = None) \<Longrightarrow> parse_options sw os opts = None"
  by (induction sw os opts rule: parse_options.induct) (auto split: option.splits)

lemma sgx_shift_kept:
  assumes "parse_options sgx_switch (getopt ''g:d:m:b:e:B:k:j:il:'' args) (options_init 0) = Some opts"
  shows "op_lba_shift opts = 9"
proof -
  have "c \<noteq> CHR ''S''" if "(c, a) \<in> set (getopt ''g:d:m:b:e:B:k:j:il:'' args)" for c a
    using getopt_letters [OF that] by auto
  then have "op_lba_shift opts = op_lba_shift (options_init 0)"
    by (intro parse_options_keeps [OF _ assms]) (auto simp: sgx_switch_def common_switch_def split: if_splits)
  then show ?thesis by (simp add: options_init_def)
qed

lemma sgx_unknown:
  assumes "complete_words ''g:d:m:b:e:B:k:j:il:'' pre"
  shows "parse_options sgx_switch (getopt ''g:d:m:b:e:B:k:j:il:'' (pre @ (''-S'' @ x) # post)) opts = None"
proof (rule parse_unknown)
  show "(CHR ''?'', []) \<in> set (getopt ''g:d:m:b:e:B:k:j:il:'' (pre @ (''-S'' @ x) # post))"
    by (simp add: getopt_append [OF assms] split: prod.split)
qed (simp add: sgx_switch_def common_switch_def)

text \<open>The enclave of a worker that starts has a key, and blocks of the size that it was started with.\<close>

lemma prp_en_make_shift:
  assumes "prp_en_make enter created G key sh = Inr e"
  shows "g_lba_shift e = sh \<and> (\<exists>x. ec_cipher e = Some x \<and> ipp_bs x = unat (int_shl1 (nat sh)))"
  using assms
  by (auto simp: prp_en_make_def invoke_def put_key_def enclave_init_def rbind_Inr_iff prog_simps ec_aes_xts_make_def EPERM_def
      split: prod.splits sum.splits if_splits cpp_exn.splits)

text \<open>
  C29. The programs on an enclave always work with blocks of 512 bytes. Their \<open>switch\<close> has a case for the option that sets the block size, \<open>-S\<close>, but
  the option is not in the option string: whatever the command line, every worker that starts has given its enclave the block size 512, in the enclave's
  shift and in its engine, and the option in any place where a word is read as an option, with its argument in the same word or in the
  next, ends the program with status 1.
\<close>

theorem sgx_block_size_fixed:
  "(sgx_main E created H args = Inr (Run ws) \<and> Inr (Some w) \<in> set ws \<longrightarrow>
      g_lba_shift (sc_enclave (wr_ctrl w)) = 9 \<and> (\<exists>x. ec_cipher (sc_enclave (wr_ctrl w)) = Some x \<and> ipp_bs x = 512)) \<and>
   (sgx_aio_main E' created H args = Inr (Run ws') \<and> Inr (Some w') \<in> set ws' \<longrightarrow>
      g_lba_shift (sq_enclave (wr_ctrl w')) = 9 \<and> (\<exists>x. ec_cipher (sq_enclave (wr_ctrl w')) = Some x \<and> ipp_bs x = 512)) \<and>
   (complete_words ''g:d:m:b:e:B:k:j:il:'' pre \<longrightarrow>
      sgx_main E created H (pre @ (''-S'' @ x) # post) = Inr (Exit 1) \<and>
      sgx_aio_main E' created H (pre @ (''-S'' @ x) # post) = Inr (Exit 1))"
proof (intro conjI impI)
  assume run: "sgx_main E created H args = Inr (Run ws) \<and> Inr (Some w) \<in> set ws"
  then obtain opts key where p: "parse_options sgx_switch (getopt ''g:d:m:b:e:B:k:j:il:'' args) (options_init 0) = Some opts"
    and w: "start_workers H opts (\<lambda>tid vm qs. sgx_start E (created tid) key (op_lba_shift opts) vm
      (ho_blk H (the (op_blkdev opts))) (ho_dev H (the (op_blkdev opts))) qs) = Inr (Run ws)"
    by (auto simp: sgx_main_def rbind_Inr_iff split: option.splits if_splits)
  obtain tid vm qs where "sgx_start E (created tid) key 9 vm (ho_blk H (the (op_blkdev opts))) (ho_dev H (the (op_blkdev opts))) qs = Inr (Some w)"
    by (rule start_workers_Run [OF w]) (use run sgx_shift_kept [OF p] in auto)
  then have "nvme_encryptor_sgx_make E (created tid) vm (ho_dev H (the (op_blkdev opts))) key 9 = Inr (wr_ctrl w)"
    by (auto simp: sgx_start_def worker_start_def rbind_Inr_iff split: if_splits)
  then have "prp_en_make (gx_enter E) (created tid) (gx_sgx E) key 9 = Inr (sc_enclave (wr_ctrl w))"
    by (auto simp: nvme_encryptor_sgx_make_def rbind_Inr_iff dest!: arg_cong [where f = sc_enclave])
  from prp_en_make_shift [OF this]
  show "g_lba_shift (sc_enclave (wr_ctrl w)) = 9" "\<exists>x. ec_cipher (sc_enclave (wr_ctrl w)) = Some x \<and> ipp_bs x = 512"
    by (simp_all add: int_shl1_exp)
next
  assume run: "sgx_aio_main E' created H args = Inr (Run ws') \<and> Inr (Some w') \<in> set ws'"
  then obtain opts key where p: "parse_options sgx_switch (getopt ''g:d:m:b:e:B:k:j:il:'' args) (options_init 0) = Some opts"
    and w: "start_workers H opts (\<lambda>tid vm qs. sgx_aio_start E' (created tid) key (op_lba_shift opts) vm (ho_blk H (the (op_blkdev opts))) qs) = Inr (Run ws')"
    by (auto simp: sgx_aio_main_def sgx_aio_switch_def rbind_Inr_iff split: option.splits if_splits)
  obtain tid vm qs where "sgx_aio_start E' (created tid) key 9 vm (ho_blk H (the (op_blkdev opts))) qs = Inr (Some w')"
    by (rule start_workers_Run [OF w]) (use run sgx_shift_kept [OF p] in auto)
  then have "nvme_encryptor_sgx_aio_make E' (created tid) vm (ho_blk H (the (op_blkdev opts))) key 9 = Inr (wr_ctrl w')"
    by (auto simp: sgx_aio_start_def worker_start_def rbind_Inr_iff split: if_splits)
  then have "prp_en_make (ga_enter E') (created tid) (ga_sgx E') key 9 = Inr (sq_enclave (wr_ctrl w'))"
    by (auto simp: nvme_encryptor_sgx_aio_make_def rbind_Inr_iff dest!: arg_cong [where f = sq_enclave])
  from prp_en_make_shift [OF this]
  show "g_lba_shift (sq_enclave (wr_ctrl w')) = 9" "\<exists>x. ec_cipher (sq_enclave (wr_ctrl w')) = Some x \<and> ipp_bs x = 512"
    by (simp_all add: int_shl1_exp)
next
  assume pre: "complete_words ''g:d:m:b:e:B:k:j:il:'' pre"
  show "sgx_main E created H (pre @ (''-S'' @ x) # post) = Inr (Exit 1)" "sgx_aio_main E' created H (pre @ (''-S'' @ x) # post) = Inr (Exit 1)"
    by (simp_all only: sgx_main_def sgx_aio_main_def sgx_aio_switch_def sgx_unknown [OF pre] option.case)
qed

lemma sample_enclave_made: "prp_en_make True (0, 2) sample_sgx (replicate 32 7) 9 = Inr \<lparr>ec_cipher = Some \<lparr>ipp_bs = 512, ipp_ctx = Some (replicate 32 7)\<rparr>, g_lba_shift = 9, ec_lost = False\<rparr>"
  by (simp add: prp_en_make_def sgx_enclave_make_def invoke_def put_key_def enclave_init_def prog_simps
      ec_aes_xts_make_def ec_ctx_create_def xts_max_bytes_def sample_ipp_def sample_sgx_defs as_int_small ippStsNoErr_def)

theorem sgx_block_size_fixed_witness:
  "\<exists>w. sgx_main sample_sgx_env (\<lambda>_. (0, 2)) demo_host (demo_words @ [''-kkey'', ''-j1'']) = Inr (Run [Inr (Some w)]) \<and>
     g_lba_shift (sc_enclave (wr_ctrl w)) = 9 \<and> sgx_main sample_sgx_env (\<lambda>_. (0, 2)) demo_host (demo_words @ [''-S12'', ''-kkey'']) = Inr (Exit 1)"
proof -
  let ?o = "(demo_opts 1)\<lparr>op_keyfile := Some ''key''\<rparr>" and ?run = "sgx_main sample_sgx_env (\<lambda>_. (0, 2)) demo_host (demo_words @ [''-kkey'', ''-j1''])"
  have p: "parse_options sgx_switch (getopt ''g:d:m:b:e:B:k:j:il:'' (demo_words @ [''-kkey'', ''-j1''])) (options_init 0) = Some ?o"
    by (simp add: demo_words_def sgx_switch_def common_switch_def demo_opts_def options_init_def)
      (simp add: atoi_def strtol10_def split_sign_def is_space_def digit_value_def Let_def)
  obtain vm where vm: "open_machine demo_host ?o = Inr (Some ([10, 11, 12] @ replicate 13 (-1), vm))" "map_addr vm \<noteq> 0" "map_size vm \<noteq> 0"
    by (rule demo_machine [of ?o]) (simp_all add: demo_opts_def options_init_def push_bit_eq_mult)
  have k: "ho_key demo_host f = Some (replicate 40 7)" "ho_blk demo_host f = 6" for f by (simp_all add: demo_host_def)
  define fds :: "int list" where "fds = [10, 11, 12] @ replicate 13 (-1)"
  define qs where "qs = map (\<lambda>i. (i, fds ! i)) [1..<16]"
  have "deal_queues 1 fds = [qs]" unfolding qs_def by (subst deal_queues_n) (simp_all add: fds_def)
  moreover have o: "op_nthreads ?o = 1" "op_lba_shift ?o = 9" "op_keyfile ?o = Some ''key''" "op_blkdev ?o = Some ''disk''" "op_iommu_group ?o = Some ''12''"
    "op_mdev_uuid ?o = Some ''uuid''" "op_memfile ?o = Some ''mem''" by (simp_all add: demo_opts_def options_init_def)
  ultimately have st: "start_workers demo_host ?o f = Inr (Run [f 0 vm qs])" for f :: "nat \<Rightarrow> mapping \<Rightarrow> (nat \<times> int) list \<Rightarrow> sgx_ctrl worker option result"
    unfolding start_workers_def vm(1) fds_def [symmetric] by (simp only: rbind_simps option.case prod.case o unat_1 enumerate_simps list.map)
  have "qs \<noteq> []" by (simp add: qs_def)
  then have "\<exists>w. sgx_start sample_sgx_env (0, 2) (replicate 32 7) 9 vm 6 (ho_dev demo_host ''disk'') qs = Inr (Some w)"
    using vm(2,3) by (simp add: sgx_start_def worker_start_def nvme_encryptor_sgx_make_def sample_sgx_env_def sample_enclave_made)
  then have "\<exists>w. ?run = Inr (Run [Inr (Some w)])"
    unfolding sgx_main_def p option.case st by (simp only: o k read_key_def option.case option.sel) (simp add: take_replicate)
  then obtain w where w: "?run = Inr (Run [Inr (Some w)])" ..
  have c: "complete_words ''g:d:m:b:e:B:k:j:il:'' demo_words" by (simp add: demo_words_def)
  show ?thesis using w c sgx_block_size_fixed [of sample_sgx_env "\<lambda>_. (0, 2)" demo_host "demo_words @ [''-kkey'', ''-j1'']" "[Inr (Some w)]" w _ _ _ demo_words "''12''" "[''-kkey'']"]
    by auto
qed

end
