(* ===== verification/Isolation.thy ===== *)
theory Isolation
  imports SgxProps Sender XcowSrvProps
begin

text \<open>
  Isolation from the guest. The guest chooses every address in a command, in the page lists too, and may change them at any time. Whatever it
  writes there, no function stores a byte outside of the guest's memory, and no scatter list that is handed to the kernel leaves it.
\<close>

section \<open>Programs whose results have a property\<close>

definition yields :: "('s \<Rightarrow> bool) \<Rightarrow> ('a \<Rightarrow> bool) \<Rightarrow> ('s, 'a) prog \<Rightarrow> bool" where
  "yields P Q m \<longleftrightarrow> (\<forall>s. P s \<longrightarrow> P (snd (m s)) \<and> (\<forall>x. fst (m s) = Inr x \<longrightarrow> Q x))"

lemma yields_sbind: "yields P Q m \<Longrightarrow> (\<And>x. Q x \<Longrightarrow> yields P R (f x)) \<Longrightarrow> yields P R (sbind m f)"
  by (fastforce simp: yields_def sbind_def split: prod.splits sum.splits)

lemma yields_keeps: "keeps P m \<longleftrightarrow> yields P (\<lambda>_. True) m"
  by (simp add: keeps_def yields_def)

lemma keeps_then: "yields P Q m \<Longrightarrow> (\<And>x. Q x \<Longrightarrow> keeps P (f x)) \<Longrightarrow> keeps P (sbind m f)"
  unfolding yields_keeps by (rule yields_sbind)

lemma yields_return: "Q x \<Longrightarrow> yields P Q (return x)"
  by (simp add: yields_def)

lemma keeps_look: "keeps P (\<lambda>s. (f s, s))"
  by (simp add: keeps_def)

lemma yields_look: "(\<And>s x. P s \<Longrightarrow> f s = Inr x \<Longrightarrow> Q x) \<Longrightarrow> yields P Q (\<lambda>s. (f s, s))"
  by (simp add: yields_def)

lemma yields_sget: "(\<And>s. P s \<Longrightarrow> Q (g s)) \<Longrightarrow> yields P Q (sget g)"
  by (simp add: yields_def)

lemma keeps_prod: "(\<And>a b. p = (a, b) \<Longrightarrow> keeps P (f a b)) \<Longrightarrow> keeps P (case p of (a, b) \<Rightarrow> f a b)"
  by (cases p) simp

lemma keeps_option: "keeps P n \<Longrightarrow> (\<And>x. p = Some x \<Longrightarrow> keeps P (f x)) \<Longrightarrow> keeps P (case p of None \<Rightarrow> n | Some x \<Rightarrow> f x)"
  by (cases p) simp_all

text \<open>A program on a member keeps what it keeps of the member.\<close>

lemma keeps_member: "keeps Q m \<Longrightarrow> (\<And>s t. get (put t s) = t) \<Longrightarrow> keeps (\<lambda>s. Q (get s)) (zoom get put m)"
  by (auto simp: keeps_def zoom_def split: prod.split)

section \<open>Memory that changes only inside of the mapping\<close>

definition within :: "mapping \<Rightarrow> mapping \<Rightarrow> bool" where
  "within m m' \<longleftrightarrow> map_addr m' = map_addr m \<and> map_size m' = map_size m \<and> (\<forall>a \<ge> unat (map_size m). map_byte m' a = map_byte m a)"

definition span_in :: "mapping \<Rightarrow> u64 \<times> u64 \<Rightarrow> bool" where
  "span_in m sp \<longleftrightarrow> unat (fst sp) + unat (snd sp) \<le> unat (map_size m)"

lemma within_refl [simp]: "within m m"
  by (simp add: within_def)

lemma within_trans: "within m m' \<Longrightarrow> within m' m'' \<Longrightarrow> within m m''"
  by (simp add: within_def)

lemma within_write: "within m0 m \<Longrightarrow> span_in m0 sp \<Longrightarrow> length bs = unat (snd sp) \<Longrightarrow> within m0 (write_bytes (unat (fst sp)) bs m)"
  by (auto simp: within_def span_in_def write_bytes_def)

text \<open>Every iterator checks the spans it gives out, against the size of the mapping.\<close>

lemma get_span_in: "within m0 m \<Longrightarrow> get_span m off n = Inr sp \<Longrightarrow> span_in m0 sp"
  using get_span_Inr [of m off n sp] by (auto simp: within_def span_in_def)

lemma deref_in:
  assumes "within m0 m"
  shows "lba_iter_deref m it = Inr sp \<Longrightarrow> span_in m0 sp" "page_iter_deref m pit = Inr sp \<Longrightarrow> span_in m0 sp"
  by (auto simp: lba_iter_deref_def page_iter_deref_def rbind_Inr_iff split: if_splits intro: get_span_in [OF assms])

lemma span_length: "yields P (\<lambda>bs. length bs = unat (snd sp)) (sget (\<lambda>m. span_bytes (f m) sp))"
  by (rule yields_sget) simp

section \<open>The encrypting functions\<close>

text \<open>What is asked of a cipher: working in place, it gives as many bytes as it got; of the library, that it writes no more than the output has.\<close>

definition fits :: "cipher_fn \<Rightarrow> bool" where
  "fits c \<longleftrightarrow> (\<forall>bs lba. length (snd (c bs bs lba)) = length bs)"

definition ipp_fits :: "ippcp \<Rightarrow> bool" where
  "ipp_fits L \<longleftrightarrow> (\<forall>key dat out n tw. length dat \<le> length out \<longrightarrow> length (snd (ipp_decrypt L key dat out n tw)) = length out)"

lemma fitsD: "fits c \<Longrightarrow> c bs bs lba = (ok, out) \<Longrightarrow> length out = length bs"
  unfolding fits_def by (metis snd_conv)

lemma ipp_decrypt_fits: "ipp_fits L \<Longrightarrow> fits (tbc_decrypt (ipp_engine L x))" "ipp_fits L \<Longrightarrow> fits (tbc_decrypt (ec_engine L x))"
  by (auto simp: fits_def ipp_fits_def ipp_engine_def ec_engine_def ipp_block_decrypt_def ec_block_decrypt_def split: option.splits prod.splits)
    (metis order_refl snd_conv)+

lemma decrypt_blocks_within:
  assumes "fits (tbc_decrypt e)"
  shows "keeps (within m0) (decrypt_blocks e n it)"
proof (induction n arbitrary: it)
  case (Suc n)
  have "keeps (within m0) (smod (write_bytes (unat (fst sp)) out))"
    if "span_in m0 sp" "length bs = unat (snd sp)" "decrypt_inplace e bs lba = (ok, out)" for sp bs lba ok out
    using that fitsD [OF assms] by (auto simp: decrypt_inplace_def intro!: keeps_smod within_write)
  then show ?case
    unfolding decrypt_blocks.simps
    by (intro keeps_if keeps_basic keeps_then [OF yields_look [OF deref_in(1)]] keeps_then [OF span_length] keeps_prod keeps_sbind keeps_look Suc.IH)
qed auto

lemma crypt_inplace_within:
  assumes "fits c"
  shows "keeps (within m0) (crypt_inplace_loop c n it k)"
proof (induction n arbitrary: it k)
  case (Suc n)
  have "keeps (within m0) (smod (write_bytes (unat (fst sp)) out))"
    if "span_in m0 sp" "length bs = unat (snd sp)" "c bs bs lba = (ok, out)" for sp bs lba ok out
    using that fitsD [OF assms] by (auto intro!: keeps_smod within_write)
  moreover have "ec_iter_deref m it = Inr sp \<Longrightarrow> within m0 m \<Longrightarrow> span_in m0 sp" for m it sp
    using deref_in(1) by (simp add: ec_iter_deref_Inr)
  ultimately show ?case
    unfolding crypt_inplace_loop.simps
    by (intro keeps_if keeps_basic keeps_then [OF yields_look [of "within m0" "\<lambda>m. ec_iter_deref m it" "span_in m0"]] keeps_then [OF span_length]
        keeps_prod keeps_sbind keeps_look Suc.IH)
qed auto

text \<open>The parts of a controller that a handler changes beside the memory.\<close>

lemma en_parts:
  "keeps (\<lambda>s. within m0 (en_vm s)) (on_en_nvme p)" "keeps (\<lambda>s. within m0 (en_vm s)) (on_encbuf n b)"
  "keeps (\<lambda>s. within m0 (en_vm s)) (grow_encbuf n)" "keeps (\<lambda>s. within m0 (en_vm s)) (en_pwrite E base buf)"
proof -
  show "keeps (\<lambda>s. within m0 (en_vm s)) (en_pwrite E base buf)" by (simp add: keeps_def en_pwrite_def split: prod.split)
qed (simp_all add: on_en_nvme_def on_encbuf_def grow_encbuf_def keeps_zoom keeps_smod)

lemma receive_within:
  assumes "fits (tbc_decrypt (ee_engine E))"
  shows "keeps (\<lambda>s. within m0 (en_vm s)) (receive E cmd)"
proof -
  have "keeps (\<lambda>s. within m0 (en_vm s)) (write_zeroes_loop E lbas slba nblocks cli n)" for lbas slba nblocks cli n
    by (induction n arbitrary: cli) (auto simp: Let_def intro!: en_parts keeps_sbind keeps_if)
  then show ?thesis
    unfolding receive_def receive_read_def receive_write_copyback_def receive_write_zeroes_def Let_def
    by (auto intro!: keeps_catch_std keeps_if keeps_sbind en_parts keeps_smod keeps_member decrypt_blocks_within assms)
qed

lemma ai_parts:
  "keeps (\<lambda>s. within m0 (ai_vm s)) (on_ai_nvme p)" "keeps (\<lambda>s. within m0 (ai_vm s)) (on_ai_ring r)"
  "keeps (\<lambda>s. within m0 (ai_vm s)) (new_mem_ticket E tag n)" "keeps (\<lambda>s. within m0 (ai_vm s)) (on_ticket_mem t b)"
  by (auto simp: on_ai_nvme_def on_ai_ring_def new_mem_ticket_def on_ticket_mem_def intro!: keeps_zoom keeps_smod keeps_sbind keeps_option)

lemma aio_within:
  assumes "fits (tbc_decrypt (ax_engine E))"
  shows "keeps (\<lambda>s. within m0 (ai_vm s)) (aio_submit_async E cmd tag)"
  unfolding aio_submit_async_def aio_receive_read_def aio_submit_write_def aio_submit_write_zeroes_def aio_submit_flush_def Let_def on_ai_vm_def
  by (auto intro!: keeps_if keeps_sbind ai_parts keeps_member decrypt_blocks_within assms)

text \<open>Through an enclave: a call that fails changes only the state of the enclave.\<close>

lemma keeps_invoke: "(\<And>e. keeps P (call e)) \<Longrightarrow> (\<And>s e. P s \<Longrightarrow> P (put e s)) \<Longrightarrow> keeps P (invoke enter get put call)"
  by (auto simp: keeps_def invoke_def split: prod.splits sum.splits cpp_exn.splits) (metis snd_conv)+

lemma keeps_catch_contract: "keeps P m \<Longrightarrow> keeps P (catch_contract m)"
  unfolding keeps_def catch_contract_def by (auto split: prod.splits sum.splits cpp_exn.splits)

lemma crypt_command_within:
  assumes "ipp_fits (sg_ipp G)"
  shows "keeps (within m0) (crypt_command_inplace G e cmd True)"
  unfolding crypt_command_inplace_def with_engine_def Let_def ec_crypt_def
  by (auto intro!: keeps_if keeps_sbind keeps_option keeps_catch_contract crypt_inplace_within ipp_decrypt_fits assms)

lemma sc_parts:
  "keeps (\<lambda>s. within m0 (sc_vm s)) (on_sc_nvme p)" "keeps (\<lambda>s. within m0 (sc_vm s)) (on_sc_encbuf n b)"
  "keeps (\<lambda>s. within m0 (sc_vm s)) (sc_grow_encbuf n)" "keeps (\<lambda>s. within m0 (sc_vm s)) (sc_pwrite E base buf)"
  "(\<And>e. keeps (\<lambda>s. within m0 (sc_vm s)) (call e)) \<Longrightarrow> keeps (\<lambda>s. within m0 (sc_vm s)) (sc_invoke E call)"
proof -
  show "keeps (\<lambda>s. within m0 (sc_vm s)) (sc_pwrite E base buf)" by (simp add: keeps_def sc_pwrite_def split: prod.split)
qed (simp_all add: on_sc_nvme_def on_sc_encbuf_def sc_grow_encbuf_def sc_invoke_def keeps_zoom keeps_smod keeps_invoke)

lemma sgx_receive_within:
  assumes "ipp_fits (sg_ipp (gx_sgx E))"
  shows "keeps (\<lambda>s. within m0 (sc_vm s)) (sgx_receive E cmd)"
proof -
  have "keeps (\<lambda>s. within m0 (sc_vm s)) (sgx_write_zeroes_loop E lbas slba nblocks cli n)" for lbas slba nblocks cli n
    by (induction n arbitrary: cli) (auto simp: Let_def pe_crypt_buffer_inplace_def intro!: sc_parts keeps_sbind keeps_if)
  then show ?thesis
    unfolding sgx_receive_def sgx_receive_read_def sgx_receive_write_copyback_def sgx_receive_write_zeroes_def Let_def
      pe_crypt_command_inplace_def pe_crypt_command_def
    by (auto intro!: keeps_catch_std keeps_if keeps_sbind sc_parts keeps_smod keeps_member crypt_command_within assms)
qed

lemma sq_parts:
  "keeps (\<lambda>s. within m0 (sq_vm s)) (on_sq_nvme p)" "keeps (\<lambda>s. within m0 (sq_vm s)) (on_sq_ring r)"
  "keeps (\<lambda>s. within m0 (sq_vm s)) (sq_new_ticket E tag n)" "keeps (\<lambda>s. within m0 (sq_vm s)) (on_sq_mem t b)"
  "(\<And>e. keeps (\<lambda>s. within m0 (sq_vm s)) (call e)) \<Longrightarrow> keeps (\<lambda>s. within m0 (sq_vm s)) (sq_invoke E call)"
  by (auto simp: on_sq_nvme_def on_sq_ring_def sq_new_ticket_def on_sq_mem_def sq_invoke_def intro!: keeps_zoom keeps_smod keeps_sbind keeps_option keeps_invoke)

lemma sgx_aio_within:
  assumes "ipp_fits (sg_ipp (ga_sgx E))"
  shows "keeps (\<lambda>s. within m0 (sq_vm s)) (sgx_aio_submit_async E cmd tag)"
  unfolding sgx_aio_submit_async_def sgx_aio_receive_read_def sgx_aio_submit_write_def sgx_aio_submit_write_zeroes_def sgx_aio_submit_flush_def Let_def
  by (auto intro!: keeps_if keeps_sbind sq_parts keeps_member crypt_command_within assms)



section \<open>Scatter lists\<close>

text \<open>Addresses here are those of the program; the mapping does not reach the end of the address space.\<close>

definition iov_in :: "mapping \<Rightarrow> iovec \<Rightarrow> bool" where
  "iov_in m x \<longleftrightarrow> unat (map_addr m) \<le> unat (iov_base x) \<and> unat (iov_base x) + unat (iov_len x) \<le> unat (map_addr m) + unat (map_size m)"

fun op_in :: "mapping \<Rightarrow> uring_op \<Rightarrow> bool" where
  "op_in m (Readv_op v _ _) = list_all (iov_in m) v"
| "op_in m (Writev_op v _ _) = list_all (iov_in m) v"
| "op_in m (Read_op b _ _ _) = (case b of Ptr _ \<Rightarrow> False | Ticket_mem _ \<Rightarrow> True)"
| "op_in m (Write_op b _ _ _) = (case b of Ptr _ \<Rightarrow> False | Ticket_mem _ \<Rightarrow> True)"
| "op_in m (Fallocate_op _ _ _) = True"
| "op_in m (Fsync_op _) = True"

definition no_wrap :: "mapping \<Rightarrow> bool" where
  "no_wrap m \<longleftrightarrow> unat (map_addr m) + unat (map_size m) < 2 ^ 64"

lemma unat_in_map: "no_wrap m \<Longrightarrow> span_in m (off, n) \<Longrightarrow> unat (map_addr m + off) = unat (map_addr m) + unat off"
  by (rule unat_add_small) (simp add: no_wrap_def span_in_def)

lemma iov_in_span: "no_wrap m \<Longrightarrow> span_in m (off, n) \<Longrightarrow> iov_in m \<lparr>iov_base = map_addr m + off, iov_len = n\<rparr>"
  using unat_in_map [of m off n] by (simp add: iov_in_def span_in_def)

lemma iovec_append_in:
  assumes "list_all (iov_in m) t" "no_wrap m" "span_in m (off, n)"
  shows "list_all (iov_in m) (iovec_append t (map_addr m + off) n)"
proof (cases "t \<noteq> [] \<and> map_addr m + off = iov_base (last t) + iov_len (last t)")
  case True
  let ?v = "last t"
  have v: "iov_in m ?v" and rest: "list_all (iov_in m) (butlast t)"
    using assms(1) True by (auto simp: list_all_iff dest: in_set_butlastD)
  have "unat (iov_base ?v + iov_len ?v) = unat (iov_base ?v) + unat (iov_len ?v)"
    by (rule unat_add_small) (use v assms(2) in \<open>simp add: iov_in_def no_wrap_def\<close>)
  then have e: "unat (iov_base ?v) + unat (iov_len ?v) = unat (map_addr m) + unat off"
    using True unat_in_map [OF assms(2,3)] by simp
  have "unat (iov_len ?v + n) = unat (iov_len ?v) + unat n"
    by (rule unat_add_small) (use e assms(2,3) in \<open>simp add: no_wrap_def span_in_def\<close>)
  then have "iov_in m (?v\<lparr>iov_len := iov_len ?v + n\<rparr>)"
    using v e assms(3) by (simp add: iov_in_def span_in_def)
  then show ?thesis using True rest by (simp add: iovec_append_def)
next
  case False
  then show ?thesis using assms(1) iov_in_span [OF assms(2,3)] by (auto simp: iovec_append_def)
qed

text \<open>The requests in a ring, handed to the kernel or not.\<close>

definition ring_ok :: "mapping \<Rightarrow> uring \<Rightarrow> bool" where
  "ring_ok m u \<longleftrightarrow> (\<forall>e \<in> set (ur_sq u) \<union> set (ur_sent u). op_in m (sqe_op e))"

lemma get_sqe_ok: "op_in m (sqe_op e) \<Longrightarrow> keeps (ring_ok m) (get_sqe L e)"
  by (auto simp: get_sqe_def ring_ok_def keeps_def prog_simps)

lemma ring_parts:
  "keeps (ring_ok m) (queue_read L t (Ticket_mem k) n bi fx fid off)" "keeps (ring_ok m) (queue_write L t (Ticket_mem k) n bi fx fid off)"
  "keeps (ring_ok m) (queue_fallocate L t fx fid mode off len)" "keeps (ring_ok m) (queue_fsync L t fx fid fl)"
  "list_all (iov_in m) v \<Longrightarrow> keeps (ring_ok m) (queue_readv L t v fx fid off pfl)"
  "list_all (iov_in m) v \<Longrightarrow> keeps (ring_ok m) (queue_writev L t v fx fid off pfl)"
  by (simp_all add: queue_read_def queue_write_def queue_fallocate_def queue_fsync_def queue_readv_def queue_writev_def mk_sqe_def get_sqe_ok)

lemma ring_others: "keeps (ring_ok m) (sqe_set_link i)" "keeps (ring_ok m) (sq_kick L)"
proof -
  have e: "op_in m (sqe_op e)" if "ring_ok m u" "e \<in> set ((ur_sq u)[i := (ur_sq u ! i)\<lparr>sqe_link := True\<rparr>])" for u e
  proof (cases "i < length (ur_sq u)")
    case True
    have "e = (ur_sq u ! i)\<lparr>sqe_link := True\<rparr> \<or> e \<in> set (ur_sq u)"
      using that(2) set_update_subset_insert [of "ur_sq u" i "(ur_sq u ! i)\<lparr>sqe_link := True\<rparr>"] by blast
    with True that(1) show ?thesis by (auto simp: ring_ok_def)
  next
    case False
    with that show ?thesis by (simp add: ring_ok_def list_update_beyond not_less)
  qed
  have "ring_ok m (u\<lparr>ur_sq := (ur_sq u)[i := (ur_sq u ! i)\<lparr>sqe_link := True\<rparr>]\<rparr>)" if u: "ring_ok m u" for u
  proof -
    have "\<forall>e\<in>set (ur_sent u). op_in m (sqe_op e)" using u by (simp add: ring_ok_def)
    with e [OF u] show ?thesis unfolding ring_ok_def ball_Un by simp
  qed
  then show "keeps (ring_ok m) (sqe_set_link i)" unfolding sqe_set_link_def by (rule keeps_smod)
  show "keeps (ring_ok m) (sq_kick L)"
    by (auto simp: sq_kick_def ring_ok_def keeps_def prog_simps Let_def dest: in_set_takeD in_set_dropD)
qed

section \<open>The replicating functions\<close>

lemma wvec_loop_in:
  assumes "no_wrap m"
  shows "wvec_loop m n it v = Inr w \<Longrightarrow> list_all (iov_in m) v \<Longrightarrow> list_all (iov_in m) w"
proof (induction n arbitrary: it v)
  case (Suc n)
  then show ?case
    using iov_in_span [OF assms] get_span_in [OF within_refl, of m] by (fastforce simp: rbind_Inr_iff split: if_splits)
qed (simp split: if_splits)

lemma iovecs_loop_in:
  assumes "no_wrap m"
  shows "iovecs_loop m n it v = Inr w \<Longrightarrow> list_all (iov_in m) v \<Longrightarrow> list_all (iov_in m) w"
proof (induction n arbitrary: it v)
  case (Suc n)
  then show ?case
    using iovec_append_in [OF _ assms] get_span_in [OF within_refl, of m] by (fastforce simp: rbind_Inr_iff split: if_splits)
qed (simp split: if_splits)

definition sender_ok :: "mapping \<Rightarrow> sender_ctrl \<Rightarrow> bool" where
  "sender_ok m s \<longleftrightarrow> sd_vm s = m \<and> list_all (iov_in m) (sd_wvec s)"

definition sender_aio_ok :: "mapping \<Rightarrow> sender_aio \<Rightarrow> bool" where
  "sender_aio_ok m s \<longleftrightarrow> sa_vm s = m \<and> ring_ok m (sa_ring s)"

lemma sender_receive_ok:
  assumes "no_wrap m"
  shows "keeps (sender_ok m) (sender_receive E cmd)"
proof -
  have nv: "keeps (sender_ok m) (on_sd_nvme p)" for p :: "(nvme, 'b) prog" by (auto simp: on_sd_nvme_def sender_ok_def intro!: keeps_zoom)
  have loop: "yields (sender_ok m) (list_all (iov_in m)) (\<lambda>s. (wvec_loop (sd_vm s) n it [], s))" for n it
    by (rule yields_look, rule wvec_loop_in [OF assms]) (auto simp: sender_ok_def)
  have st: "keeps (sender_ok m) (smod (\<lambda>s. s\<lparr>sd_wvec := v\<rparr>))" if "list_all (iov_in m) v" for v
    using that by (auto simp: sender_ok_def intro!: keeps_smod)
  have dev: "keeps (sender_ok m) (smod (\<lambda>s. s\<lparr>sd_dev := f s\<rparr>))" for f
    by (auto simp: sender_ok_def intro!: keeps_smod)
  have nil: "list_all (iov_in m) []" by simp
  show ?thesis
    unfolding sender_receive_def sender_write_def sender_write_zeroes_def sender_flush_def Let_def
    by (intro keeps_catch_std keeps_if keeps_basic keeps_then [OF loop] keeps_sbind st dev nil nv keeps_basic)
qed

lemma sender_aio_submit_ok:
  assumes "no_wrap m"
  shows "keeps (sender_aio_ok m) (sender_aio_submit_async E cmd tag)"
proof -
  have nv: "keeps (sender_aio_ok m) (on_sa_nvme p)" for p :: "(nvme, 'b) prog" by (auto simp: on_sa_nvme_def sender_aio_ok_def intro!: keeps_zoom)
  have loop: "yields (sender_aio_ok m) (list_all (iov_in m)) (\<lambda>s. (iovecs_loop (sa_vm s) n it [], s))" for n it
    by (rule yields_look, rule iovecs_loop_in [OF assms]) (auto simp: sender_aio_ok_def)
  have tk: "keeps (sender_aio_ok m) (new_iovec_ticket tag)" "keeps (sender_aio_ok m) (set_iovecs t v)" for t v
    by (auto simp: new_iovec_ticket_def set_iovecs_def sender_aio_ok_def intro!: keeps_sbind keeps_smod)
  have ring: "keeps (sender_aio_ok m) (on_sa_ring r)" if "keeps (ring_ok m) r" for r :: "(uring, 'b) prog"
    using that by (auto simp: on_sa_ring_def sender_aio_ok_def keeps_def zoom_def split: prod.split)
  show ?thesis
    unfolding sender_aio_submit_async_def sender_aio_submit_write_def sender_aio_submit_write_zeroes_def sender_aio_submit_flush_def
    by (intro keeps_if keeps_basic keeps_then [OF loop] keeps_sbind nv tk ring ring_parts)
qed

text \<open>
  C10. The replicating functions send nothing but memory of the guest. In a sequence of commands, whatever their addresses and page lists, every entry
  of the scatter lists that \<open>pwritev2\<close> gets and of the requests in the ring lies inside of the mapping, the merged ones too, and the memory stays as it is.
\<close>

theorem replication_stays_in_guest_memory:
  assumes "no_wrap vm"
  shows "(nvme_sender_make E vm dev = Inr s \<longrightarrow>
      sd_vm (fold (\<lambda>cmd s. snd (sender_receive E cmd s)) cmds s) = vm \<and>
      list_all (iov_in vm) (sd_wvec (fold (\<lambda>cmd s. snd (sender_receive E cmd s)) cmds s))) \<and>
    (nvme_sender_aio_make F vm bfd = Inr a \<longrightarrow>
      sa_vm (fold (\<lambda>(cmd, tag) a. snd (sender_aio_submit_async F cmd tag a)) tagged a) = vm \<and>
      (\<forall>e \<in> set (ur_sq (sa_ring (fold (\<lambda>(cmd, tag) a. snd (sender_aio_submit_async F cmd tag a)) tagged a))). op_in vm (sqe_op e)))"
proof -
  have "sender_ok vm s \<Longrightarrow> sender_ok vm (fold (\<lambda>cmd s. snd (sender_receive E cmd s)) cmds s)"
    using sender_receive_ok [OF assms, unfolded keeps_def] by (induction cmds arbitrary: s) auto
  moreover have "sender_aio_ok vm a \<Longrightarrow> sender_aio_ok vm (fold (\<lambda>(cmd, tag) a. snd (sender_aio_submit_async F cmd tag a)) tagged a)"
    using sender_aio_submit_ok [OF assms, unfolded keeps_def] by (induction tagged arbitrary: a) auto
  moreover have "nvme_sender_make E vm dev = Inr s \<Longrightarrow> sender_ok vm s"
    by (auto simp: nvme_sender_make_def sender_ok_def split: prod.splits sum.splits option.splits if_splits)
  moreover have "nvme_sender_aio_make F vm bfd = Inr a \<Longrightarrow> sender_aio_ok vm a"
    by (auto simp: nvme_sender_aio_make_def rbind_Inr_iff uring_make_def sender_aio_ok_def ring_ok_def split: if_splits)
  ultimately show ?thesis by (auto simp: sender_ok_def sender_aio_ok_def ring_ok_def)
qed

theorem replication_stays_in_guest_memory_witness:
  "\<exists>s a. nvme_sender_make sample_sender sample_mem (\<lambda>_. 0) = Inr s \<and>
     nvme_sender_aio_make \<lparr>sx_kernel = sample_kernel, sx_uring = sample_ring\<rparr> sample_mem 5 = Inr a \<and>
     list_all (iov_in sample_mem) (sd_wvec (snd (sender_receive sample_sender sample_send s))) \<and>
     (\<forall>e \<in> set (ur_sq (sa_ring (snd (sender_aio_submit_async \<lparr>sx_kernel = sample_kernel, sx_uring = sample_ring\<rparr> sample_send 7 a)))). op_in sample_mem (sqe_op e))"
proof -
  let ?F = "\<lparr>sx_kernel = sample_kernel, sx_uring = sample_ring\<rparr>"
  have "\<exists>s. nvme_sender_make sample_sender sample_mem (\<lambda>_. 0) = Inr s"
    by (simp add: nvme_sender_make_def sample_sender_def init_eval)
  moreover have "\<exists>a. nvme_sender_aio_make ?F sample_mem 5 = Inr a"
    by (simp add: nvme_sender_aio_make_def uring_make_def uring_create_def sample_ring_def)
  moreover have nw: "no_wrap sample_mem" by (simp add: no_wrap_def sample_mem_def)
  ultimately obtain s a where sa: "nvme_sender_make sample_sender sample_mem (\<lambda>_. 0) = Inr s" "nvme_sender_aio_make ?F sample_mem 5 = Inr a" by blast
  from replication_stays_in_guest_memory [OF nw, of sample_sender "\<lambda>_. 0" s "[sample_send]" ?F 5 a "[(sample_send, 7)]"]
  show ?thesis using sa by auto
qed

section \<open>The copy-on-write controller\<close>

text \<open>The requests in the ring and the scatter lists that tickets own stay in guest memory.\<close>

definition ticket_ok :: "mapping \<Rightarrow> xcow_ticket \<Rightarrow> bool" where
  "ticket_ok m k \<longleftrightarrow> list_all (list_all (iov_in m)) (xt_iovecss k)"

definition ctrl_ok :: "mapping \<Rightarrow> xcow_ctrl \<Rightarrow> bool" where
  "ctrl_ok m c \<longleftrightarrow> within m (xc_vm c) \<and> ring_ok m (xc_ring c) \<and> (\<forall>i k. xc_heap c i = Some k \<longrightarrow> ticket_ok m k)"

lemma on_ring_ok: "keeps (ring_ok m) r \<Longrightarrow> keeps (ctrl_ok m) (on_ring r)"
  by (auto simp: on_ring_def ctrl_ok_def keeps_def zoom_def split: prod.split)

lemma ticket_parts:
  "ticket_ok m k \<Longrightarrow> keeps (ctrl_ok m) (new_ticket k)"
  "(\<And>k. ticket_ok m k \<Longrightarrow> ticket_ok m (g k)) \<Longrightarrow> keeps (ctrl_ok m) (upd_ticket t g)"
  "yields (ctrl_ok m) (ticket_ok m) (get_ticket t)"
  by (auto simp: new_ticket_def upd_ticket_def get_ticket_def ctrl_ok_def keeps_def yields_def prog_simps split: option.splits)

lemma on_file_ok: "keeps (ctrl_ok m) (on_file x)"
  by (auto simp: on_file_def ctrl_ok_def intro!: keeps_zoom)

lemma ctrl_parts:
  "keeps (ctrl_ok m) (on_nvme p)" "keeps (ctrl_ok m) (on_vm g)" "keeps (ctrl_ok m) (get_ticket t)" "keeps (ctrl_ok m) (count_up i t)"
  "keeps (ctrl_ok m) (delete_ticket t)" "keeps (ctrl_ok m) (get_lock b)" "keeps (ctrl_ok m) (set_lock b l)" "keeps (ctrl_ok m) (wq_emplace b w)"
  "keeps (ctrl_ok m) (clus_lba_shift n)" "keeps (ctrl_ok m) (cmd_clusters cmd n)"
proof -
  show "keeps (ctrl_ok m) (delete_ticket t)"
    unfolding delete_ticket_def get_ticket_def
    by (intro keeps_sbind keeps_basic keeps_option keeps_prod on_file_ok keeps_smod) (auto simp: ctrl_ok_def split: if_splits)
qed (auto simp: on_nvme_def on_vm_def get_ticket_def count_up_def get_lock_def set_lock_def wq_emplace_def clus_lba_shift_def cmd_clusters_def ctrl_ok_def ticket_ok_def
    intro!: keeps_zoom keeps_sbind keeps_smod keeps_option ticket_parts split: option.splits)

lemma zero_span_ok: "span_in m sp \<Longrightarrow> keeps (ctrl_ok m) (zero_span sp)"
  by (auto simp: zero_span_def ctrl_ok_def intro!: keeps_smod within_write)

lemma on_vm_in:
  "yields (ctrl_ok m) (span_in m) (on_vm (\<lambda>m. lba_iter_deref m lit))" "yields (ctrl_ok m) (span_in m) (on_vm (\<lambda>m. page_iter_deref m pit))"
  "yields (ctrl_ok m) (\<lambda>(base, n). \<exists>off. base = map_addr m + off \<and> span_in m (off, n))
     (on_vm (\<lambda>m. rbind (lba_iter_deref m lit) (\<lambda>sp. Inr (map_addr m + fst sp, snd sp))))"
  using deref_in [of m]
  by (auto simp: on_vm_def yields_def prog_simps ctrl_ok_def rbind_Inr_iff within_def split: sum.splits)

lemma zero_blocks_ok: "keeps (ctrl_ok m) (zero_blocks n lit)"
proof (induction n arbitrary: lit)
  case (Suc n)
  show ?case unfolding zero_blocks.simps by (intro keeps_then [OF on_vm_in(1)] keeps_sbind [OF zero_span_ok] keeps_sbind [OF ctrl_parts(2)] Suc.IH)
qed simp

lemma zero_pages_ok: "keeps (ctrl_ok m) (zero_pages n pit)"
proof (induction n arbitrary: pit)
  case (Suc n)
  show ?case
    unfolding zero_pages.simps
    by (intro keeps_if keeps_basic keeps_then [OF on_vm_in(2)] keeps_sbind [OF zero_span_ok] keeps_sbind [OF ctrl_parts(2)] Suc.IH)
qed (simp add: keeps_if)

lemma gather_blocks_ok:
  assumes "no_wrap m"
  shows "list_all (iov_in m) v \<Longrightarrow> yields (ctrl_ok m) (\<lambda>(w, _). list_all (iov_in m) w) (gather_blocks n lit v)"
proof (induction n arbitrary: lit v)
  case (Suc n)
  show ?case
    unfolding gather_blocks.simps
  proof (rule yields_sbind [OF on_vm_in(3)], clarify)
    fix off len
    assume sp: "span_in m (off, len)"
    show "yields (ctrl_ok m) (\<lambda>(w, _). list_all (iov_in m) w)
        (sbind (on_vm (\<lambda>m. lba_iter_incr m lit)) (\<lambda>lit'. gather_blocks n lit' (iovec_append v (map_addr m + off) len)))"
      by (rule yields_sbind [OF ctrl_parts(2) [unfolded yields_keeps]]) (rule Suc.IH [OF iovec_append_in [OF Suc.prems assms sp]])
  qed
qed (simp add: yields_return)

lemma new_ticket_ok: "keeps (ctrl_ok m) (new_ticket (new_xcow_ticket tag))" "keeps (ctrl_ok m) (new_ticket ((new_xcow_ticket tag)\<lparr>xt_mem := b\<rparr>))"
  by (simp_all add: ticket_parts(1) ticket_ok_def new_xcow_ticket_def)

lemma add_iovecs_ok: "list_all (iov_in m) v \<Longrightarrow> keeps (ctrl_ok m) (upd_ticket t (\<lambda>k. k\<lparr>xt_iovecss := xt_iovecss k @ [v]\<rparr>))"
  by (rule ticket_parts(2)) (simp add: ticket_ok_def)

lemma upd_ticket_ok:
  "keeps (ctrl_ok m) (upd_ticket t (\<lambda>k. k\<lparr>xt_aux := f k\<rparr>))" "keeps (ctrl_ok m) (upd_ticket t (\<lambda>k. k\<lparr>xt_locked_cluster := b, xt_last := l\<rparr>))"
  "keeps (ctrl_ok m) (upd_ticket t (\<lambda>k. k\<lparr>xt_last := l\<rparr>))"
  by (rule ticket_parts(2), simp add: ticket_ok_def)+

text \<open>The handlers, by one set of rules.\<close>

lemmas handler_rules = keeps_basic keeps_if keeps_sfold new_ticket_ok add_iovecs_ok upd_ticket_ok on_ring_ok ring_parts ring_others
  ctrl_parts on_file_ok zero_blocks_ok zero_pages_ok keeps_option

lemma keeps_gather:
  assumes "no_wrap m" "\<And>v l. list_all (iov_in m) v \<Longrightarrow> keeps (ctrl_ok m) (f v l)"
  shows "keeps (ctrl_ok m) (sbind (gather_blocks n lit []) (\<lambda>(v, l). f v l))"
  by (rule keeps_then [OF gather_blocks_ok [OF assms(1)]]) (auto simp: assms(2))

lemma do_read_ok:
  assumes "no_wrap m"
  shows "keeps (ctrl_ok m) (do_read E cmd tag)"
  unfolding do_read_def do_read_part_def
  by (intro keeps_gather [OF assms] keeps_sbind handler_rules) assumption

lemma do_alloc_ok: "keeps (ctrl_ok m) (do_alloc_one_tx E tag vblk entry)"
  unfolding do_alloc_one_tx_def do_cow_def by (intro keeps_sbind handler_rules keeps_prod)

lemma do_write_one_ok: "keeps (ctrl_ok m) (do_write_one E t iv entry off fl)"
  unfolding do_write_one_def
  by (intro keeps_then [OF ticket_parts(3)] keeps_sbind handler_rules) (simp add: ticket_ok_def list_all_length)

lemma do_write_ok:
  assumes "no_wrap m"
  shows "keeps (ctrl_ok m) (do_write E cmd tag)"
  unfolding do_write_def do_write_part_def Let_def
  by (intro keeps_gather [OF assms] keeps_sbind do_alloc_ok do_write_one_ok handler_rules keeps_prod) assumption

lemma keeps_catch_hwm: "keeps P m \<Longrightarrow> keeps P (catch_hwm tag m)"
  by (auto simp: keeps_def catch_hwm_def split: prod.splits sum.splits cpp_exn.splits)

lemma submit_async_ok:
  assumes "no_wrap m"
  shows "keeps (ctrl_ok m) (submit_async E sq cmd tag)"
proof -
  have "keeps (ctrl_ok m) (do_snapshot E cmd tag)"
    unfolding do_snapshot_def by (intro keeps_sbind handler_rules keeps_prod keeps_smod) (simp add: ctrl_ok_def)
  moreover have "keeps (ctrl_ok m) (do_flush E tag)"
    unfolding do_flush_def by (intro keeps_sbind handler_rules)
  ultimately show ?thesis
    unfolding submit_async_def by (intro keeps_catch_hwm keeps_if keeps_basic do_read_ok [OF assms] do_write_ok [OF assms])
qed

section \<open>The copy-on-write server\<close>

abbreviation worker_ok :: "mapping \<Rightarrow> xworker \<Rightarrow> bool" where
  "worker_ok m w \<equiv> ctrl_ok m (wk_ctrl w)"

lemma on_ctrl_ok: "keeps (ctrl_ok m) p \<Longrightarrow> keeps (worker_ok m) (on_ctrl p)"
  unfolding on_ctrl_def by (rule keeps_member) simp_all

lemma queues_ok: "keeps (worker_ok m) (process_reply qi ucid r)" "keeps (worker_ok m) (take_commands qi)"
  unfolding process_reply_def take_commands_def by (auto intro!: keeps_if keeps_sbind keeps_smod keeps_option keeps_prod)

lemma keeps_outcome:
  "keeps P n \<Longrightarrow> (\<And>r. keeps P (f r)) \<Longrightarrow> (\<And>t. keeps P (g t)) \<Longrightarrow> keeps P (case out of Nothing \<Rightarrow> n | Reply r \<Rightarrow> f r | Ticket t \<Rightarrow> g t)"
  by (cases out) simp_all

lemma queue_poll_ok:
  assumes "no_wrap m"
  shows "keeps (worker_ok m) (queue_poll_once E qi sq)"
  unfolding queue_poll_once_def submit_one_def
  by (intro keeps_sbind keeps_basic keeps_sfold keeps_outcome queues_ok on_ctrl_ok submit_async_ok [OF assms])

lemma busy_poll_ok: "no_wrap m \<Longrightarrow> keeps (worker_ok m) (busy_poll E n acc)"
proof (induction n arbitrary: acc)
  case (Suc n)
  then show ?case
    unfolding busy_poll.simps poll_round_def by (intro keeps_sbind keeps_basic keeps_if keeps_sfold keeps_prod queue_poll_ok)
qed simp

lemma run_work_ok: "keeps (ctrl_ok m) (run_work E w us)"
  by (cases w) (auto intro!: keeps_sbind keeps_if ctrl_parts on_file_ok do_write_one_ok)

lemma drain_ok: "keeps (worker_ok m) (drain E pick n vblk us)"
proof (induction n)
  case (Suc n)
  have "keeps (ctrl_ok m) (smod (\<lambda>c. c\<lparr>xc_wq := rest\<rparr>))" for rest by (rule keeps_smod) (simp add: ctrl_ok_def)
  then show ?case
    unfolding drain.simps by (intro keeps_sbind keeps_basic keeps_if keeps_option keeps_prod keeps_outcome on_ctrl_ok run_work_ok queues_ok Suc.IH)
qed auto

lemma handle_cqe_ok: "keeps (worker_ok m) (handle_cqe E pick c sub)"
  unfolding handle_cqe_def Let_def
  by (intro keeps_sbind keeps_basic keeps_if keeps_prod on_ctrl_ok ctrl_parts upd_ticket_ok queues_ok drain_ok)

lemma run_iter_ok:
  assumes "no_wrap m"
  shows "keeps (worker_ok m) (run_iter E pick ready idle res)"
  unfolding run_iter_def kick_def
  by (intro keeps_sbind keeps_basic keeps_if keeps_prod keeps_sfold busy_poll_ok [OF assms] queue_poll_ok [OF assms] on_ctrl_ok on_ring_ok ring_others handle_cqe_ok)

text \<open>
  What happens to a worker: commands arrive in its queues, the guest and its devices change the guest's memory, and the worker takes a turn, with
  any completions.
\<close>

inductive server_step :: "xcow_env \<Rightarrow> xworker \<Rightarrow> xworker \<Rightarrow> bool" for E where
  sv_arrive: "server_step E w (w\<lparr>wk_sq := sqs, wk_adm := adm\<rparr>)"
| sv_guest: "within (xc_vm (wk_ctrl w)) m \<Longrightarrow> server_step E w (w\<lparr>wk_ctrl := (wk_ctrl w)\<lparr>xc_vm := m\<rparr>\<rparr>)"
| sv_turn: "server_step E w (snd (run_iter E pick ready idle res w))"

lemma server_step_ok: "server_step E w w' \<Longrightarrow> no_wrap m \<Longrightarrow> worker_ok m w \<Longrightarrow> worker_ok m w'"
proof (induction rule: server_step.induct)
  case (sv_turn w pick ready idle res)
  then show ?case using run_iter_ok [of m E pick ready idle res] by (simp add: keeps_def)
qed (auto simp: ctrl_ok_def dest: within_trans)

lemma made_ok:
  assumes "nvme_xcow_make E vm bfd f = Inr c"
  shows "ctrl_ok vm c"
proof -
  obtain r nv where "id_vns (xe_kernel E) 1 nvme_init = (r, nv)" by (cases "id_vns (xe_kernel E) 1 nvme_init")
  moreover from this assms obtain idns where "r = Inr (Some idns)"
    by (cases r) (auto simp: nvme_xcow_make_def rbind_Inr_iff split: option.splits)
  ultimately show ?thesis
    using assms by (auto simp: nvme_xcow_make_def rbind_Inr_iff uring_make_def ctrl_ok_def ring_ok_def Let_def split: if_splits)
qed

lemma worker_start_ok:
  assumes "xworker_make E M bfd vm qs adm s = (Inr w, s')"
  shows "worker_ok vm w"
proof -
  obtain f where "nvme_xcow_make E vm bfd f = Inr (wk_ctrl w)"
    using assms by (auto simp: xworker_make_def sbind_Inr_iff lift_result_apply split: if_splits)
  then show ?thesis by (rule made_ok)
qed

text \<open>
  C9. The copy-on-write server asks the kernel only for transfers to and from the memory of its guest. From the start of a worker on, whatever commands
  arrive, however the guest changes the page lists meanwhile and whatever completions come in, every scatter list in the ring, handed to the kernel
  or not, lies inside of the mapping; the other transfers use buffers of the server. The server itself changes no byte outside of it.
\<close>

theorem server_transfers_in_guest_memory:
  assumes start: "xworker_make E M bfd vm qs adm s = (Inr w0, s')" and "no_wrap vm" and run: "(server_step E)\<^sup>*\<^sup>* w0 w"
  shows "within vm (xc_vm (wk_ctrl w)) \<and> (\<forall>e \<in> set (ur_sq (xc_ring (wk_ctrl w))) \<union> set (ur_sent (xc_ring (wk_ctrl w))). op_in vm (sqe_op e))"
proof -
  from run have "worker_ok vm w"
    by (induction rule: rtranclp_induct) (auto intro: worker_start_ok [OF start] server_step_ok \<open>no_wrap vm\<close>)
  then show ?thesis by (simp add: ctrl_ok_def ring_ok_def)
qed

text \<open>A worker on the sample disk and the sample memory, after any commands and completions, and after the guest has changed its memory.\<close>

theorem server_transfers_in_guest_memory_witness:
  "\<exists>w0 s'. xworker_make sample_xenv (ce_map sample_ctl) 6 sample_mem [(1, 11), (2, 12)] 10 \<lparr>sv_locked = False, sv_file = demo_file\<rparr> = (Inr w0, s') \<and>
     (\<forall>sqs b pick ready idle res. let w1 = w0\<lparr>wk_sq := sqs, wk_adm := None\<rparr>;
          w2 = w1\<lparr>wk_ctrl := (wk_ctrl w1)\<lparr>xc_vm := write_bytes 0x7fff [b] (xc_vm (wk_ctrl w1))\<rparr>\<rparr>;
          w = snd (run_iter sample_xenv pick ready idle res w2)
        in within sample_mem (xc_vm (wk_ctrl w)) \<and> (\<forall>e \<in> set (ur_sq (xc_ring (wk_ctrl w))). op_in sample_mem (sqe_op e)))"
proof -
  obtain w0 s' where w0: "xworker_make sample_xenv (ce_map sample_ctl) 6 sample_mem [(1, 11), (2, 12)] 10 \<lparr>sv_locked = False, sv_file = demo_file\<rparr> = (Inr w0, s')"
    using demo_worker [of sample_mem "[(1, 11), (2, 12)]" 10] by (fastforce simp: sample_mem_def)
  have nw: "no_wrap sample_mem" by (simp add: no_wrap_def sample_mem_def)
  have "within sample_mem (xc_vm (wk_ctrl w0))" using worker_start_ok [OF w0] by (simp add: ctrl_ok_def)
  then have guest: "within (xc_vm (wk_ctrl w0)) (write_bytes 0x7fff [b] (xc_vm (wk_ctrl w0)))" for b
    using within_write [of "xc_vm (wk_ctrl w0)" "xc_vm (wk_ctrl w0)" "(0x7fff, 1)" "[b]"] by (simp add: span_in_def within_def sample_mem_size)
  define w1 where "w1 sqs = w0\<lparr>wk_sq := sqs, wk_adm := None\<rparr>" for sqs
  define w2 where "w2 sqs b = (w1 sqs)\<lparr>wk_ctrl := (wk_ctrl (w1 sqs))\<lparr>xc_vm := write_bytes 0x7fff [b] (xc_vm (wk_ctrl (w1 sqs)))\<rparr>\<rparr>" for sqs b
  have "server_step sample_xenv w0 (w1 sqs)" for sqs unfolding w1_def by (rule sv_arrive)
  moreover have "server_step sample_xenv (w1 sqs) (w2 sqs b)" for sqs b
    unfolding w2_def by (rule sv_guest) (use guest in \<open>simp add: w1_def\<close>)
  ultimately have "(server_step sample_xenv)\<^sup>*\<^sup>* w0 (w2 sqs b)" for sqs b
    by (rule converse_rtranclp_into_rtranclp [OF _ r_into_rtranclp])
  then have "(server_step sample_xenv)\<^sup>*\<^sup>* w0 (snd (run_iter sample_xenv pick ready idle res (w2 sqs b)))" for sqs b pick ready idle res
    by (rule rtranclp.rtrancl_into_rtrancl) (rule sv_turn)
  note run = server_transfers_in_guest_memory [OF w0 nw this, unfolded w2_def w1_def]
  show ?thesis unfolding Let_def by (intro exI conjI allI ballI) (rule w0, use run in \<open>blast+\<close>)
qed

end
