(* ===== verification/Writerand.thy ===== *)
theory Writerand
  imports Complex_Main Cipher "HOL-Library.Multiset"
begin

text \<open>
  The tool that fills a disk with enciphered zeroes (\<open>writerand.cpp\<close>): its arguments, its worker threads, and that they write every group of
  blocks at most once. The threads share an index that each advances by a group and the blocks to skip in one atomic step.
\<close>

section \<open>Arguments\<close>

text \<open>The options as the option parser gives them, and the shared arguments of the workers. A \<open>double\<close> is a rational number.\<close>

record writerand_opts =
  wo_fsize :: u64
  wo_block_size :: u64
  wo_nslices :: u64
  wo_nskips :: u64
  wo_pct :: rat
  wo_nthreads :: u64

record writerand_arg =
  wa_blksize :: u64
  wa_fsize :: u64
  wa_nslices :: u64
  wa_nskips :: u64
  wa_pct :: rat
  wa_nblocks :: u64

definition writerand_args :: "writerand_opts \<Rightarrow> writerand_arg result" where
  "writerand_args P =
     (if wo_block_size P = 0 then Inl (Undefined ''division by zero'')
      else let nblocks = wo_fsize P div wo_block_size P
           in if nblocks = 0 \<or> wo_nslices P = 0 then Inl (Runtime_error ''invalid block sizes'')
              else if wo_nthreads P = 0 then Inl (Runtime_error ''invalid number of threads'')
              else Inr \<lparr>wa_blksize = wo_block_size P, wa_fsize = wo_fsize P, wa_nslices = wo_nslices P, wa_nskips = wo_nskips P,
                        wa_pct = max 0 (min 1 (wo_pct P)), wa_nblocks = nblocks\<rparr>)"

section \<open>Workers\<close>

text \<open>
  A worker is about to take an index, has one and is about to write, or has ended; it keeps its buffers, one for each block of a group. The log
  has what was written, by block number. An exception in a thread ends the program.
\<close>

datatype wthread = W_next "u8 list list" | W_write u64 "u8 list list" | W_end

record writer =
  ws_idx :: u64
  ws_written :: u64
  ws_log :: "(u64 \<times> u8 list list) list"
  ws_threads :: "wthread list"
  ws_alive :: bool

text \<open>All blocks of a group are enciphered under the same number.\<close>

fun encrypt_slices :: "tbc \<Rightarrow> u8 list \<Rightarrow> u64 \<Rightarrow> nat \<Rightarrow> u8 list list \<Rightarrow> u8 list list result" where
  "encrypt_slices e zeroes lba 0 ss = Inr ss"
| "encrypt_slices e zeroes lba (Suc n) [] = Inl (Undefined ''vector index'')"
| "encrypt_slices e zeroes lba (Suc n) (s # ss) =
     (case tbc_encrypt e s zeroes lba of
        (ok, s') \<Rightarrow> if \<not> ok then Inl (Runtime_error ''cannot encrypt'') else rbind (encrypt_slices e zeroes lba n ss) (\<lambda>r. Inr (s' # r)))"

definition this_nblocks :: "writerand_arg \<Rightarrow> u64 \<Rightarrow> u64" where
  "this_nblocks A idx = min (wa_nslices A) (wa_nblocks A - idx)"

text \<open>One write: the new buffers and what \<open>pwritev\<close> returned for the bytes it was given.\<close>

definition write_group :: "writerand_arg \<Rightarrow> tbc \<Rightarrow> (u64 \<Rightarrow> u8 list list \<Rightarrow> int) \<Rightarrow> u64 \<Rightarrow> u8 list list \<Rightarrow> (u8 list list \<times> int) result" where
  "write_group A e pwritev idx ss =
     (let n = this_nblocks A idx
      in rbind (encrypt_slices e (replicate (unat (wa_blksize A)) 0) (idx + n) (unat n) ss) (\<lambda>ss'.
           let ret = pwritev (idx * wa_blksize A) (take (unat n) ss')
           in if ret < 0 then Inl (System_error ''write failed'') else Inr (ss', ret)))"

text \<open>The steps of worker \<open>i\<close>; \<open>d\<close> is the number it draws, which is at least 0 and less than 1.\<close>

inductive writer_step :: "writerand_arg \<Rightarrow> tbc \<Rightarrow> (u64 \<Rightarrow> u8 list list \<Rightarrow> int) \<Rightarrow> writer \<Rightarrow> writer \<Rightarrow> bool"
  for A :: writerand_arg and e :: tbc and pwritev :: "u64 \<Rightarrow> u8 list list \<Rightarrow> int" where
  w_end: "ws_alive s \<Longrightarrow> i < length (ws_threads s) \<Longrightarrow> ws_threads s ! i = W_next ss \<Longrightarrow> \<not> ws_idx s < wa_nblocks A \<Longrightarrow>
    writer_step A e pwritev s (s\<lparr>ws_idx := ws_idx s + (wa_nslices A + wa_nskips A), ws_threads := (ws_threads s)[i := W_end]\<rparr>)"
| w_skip: "ws_alive s \<Longrightarrow> i < length (ws_threads s) \<Longrightarrow> ws_threads s ! i = W_next ss \<Longrightarrow> ws_idx s < wa_nblocks A \<Longrightarrow>
    0 \<le> d \<Longrightarrow> d < 1 \<Longrightarrow> d < wa_pct A \<Longrightarrow> writer_step A e pwritev s (s\<lparr>ws_idx := ws_idx s + (wa_nslices A + wa_nskips A)\<rparr>)"
| w_take: "ws_alive s \<Longrightarrow> i < length (ws_threads s) \<Longrightarrow> ws_threads s ! i = W_next ss \<Longrightarrow> ws_idx s < wa_nblocks A \<Longrightarrow>
    0 \<le> d \<Longrightarrow> d < 1 \<Longrightarrow> \<not> d < wa_pct A \<Longrightarrow>
    writer_step A e pwritev s (s\<lparr>ws_idx := ws_idx s + (wa_nslices A + wa_nskips A), ws_threads := (ws_threads s)[i := W_write (ws_idx s) ss]\<rparr>)"
| w_write: "ws_alive s \<Longrightarrow> i < length (ws_threads s) \<Longrightarrow> ws_threads s ! i = W_write idx ss \<Longrightarrow> write_group A e pwritev idx ss = Inr (ss', ret) \<Longrightarrow>
    writer_step A e pwritev s (s\<lparr>ws_written := ws_written s + word_of_int ret, ws_log := ws_log s @ [(idx, take (unat (this_nblocks A idx)) ss')],
      ws_threads := (ws_threads s)[i := W_next ss']\<rparr>)"
| w_throw: "ws_alive s \<Longrightarrow> i < length (ws_threads s) \<Longrightarrow> ws_threads s ! i = W_write idx ss \<Longrightarrow> write_group A e pwritev idx ss = Inl x \<Longrightarrow>
    writer_step A e pwritev s (s\<lparr>ws_alive := False\<rparr>)"

definition writer_start :: "writerand_arg \<Rightarrow> nat \<Rightarrow> writer" where
  "writer_start A nthreads =
     \<lparr>ws_idx = 0, ws_written = 0, ws_log = [],
      ws_threads = replicate nthreads (W_next (replicate (unat (wa_nslices A)) (replicate (unat (wa_blksize A)) 0))), ws_alive = True\<rparr>"

text \<open>
  \<open>main\<close>. Without the options it needs it ends. Then there are the descriptor of the block device and the key file, which the option may lack and which
  may not open. Every worker makes its engine first.
\<close>

definition writerand_main :: "ippcp \<Rightarrow> writerand_opts option \<Rightarrow> int \<Rightarrow> u8 list option result \<Rightarrow> (writerand_arg \<times> tbc \<times> writer) option result" where
  "writerand_main L opts bfd keyfile =
     (case opts of
        None \<Rightarrow> Inr None
      | Some P \<Rightarrow>
          rbind (writerand_args P) (\<lambda>A.
            if bfd < 0 then Inl (System_error ''cannot open blkdev'')
            else rbind keyfile (\<lambda>k.
              case k of
                None \<Rightarrow> Inl (System_error ''cannot open key file'')
              | Some bytes \<Rightarrow>
                  if length (take 32 bytes) \<noteq> 32 then Inl (System_error ''cannot read key file'')
                  else rbind (aes_xts_ipp_make L (take 32 bytes) (unat (wa_blksize A))) (\<lambda>x.
                         Inr (Some (A, ipp_engine L x, writer_start A (unat (wo_nthreads P))))))))"

section \<open>Every group once\<close>

definition pending :: "wthread \<Rightarrow> u64 list" where
  "pending t = (case t of W_write i ss \<Rightarrow> [i] | _ \<Rightarrow> [])"

lemma pending_simps [simp]: "pending (W_next ss) = []" "pending W_end = []" "pending (W_write i ss) = [i]"
  by (simp_all add: pending_def)

definition stride :: "writerand_arg \<Rightarrow> nat" where
  "stride A = unat (wa_nslices A) + unat (wa_nskips A)"

definition ended :: "wthread list \<Rightarrow> nat" where
  "ended ts = length (filter (\<lambda>t. t = W_end) ts)"

text \<open>The groups that were handed out are those below the index.\<close>

definition issued :: "writer \<Rightarrow> u64 list" where
  "issued s = map fst (ws_log s) @ concat (map pending (ws_threads s))"

definition writer_inv :: "writerand_arg \<Rightarrow> nat \<Rightarrow> writer \<Rightarrow> bool" where
  "writer_inv A n s \<longleftrightarrow> length (ws_threads s) = n \<and> stride A dvd unat (ws_idx s) \<and>
     unat (ws_idx s) < unat (wa_nblocks A) + stride A * Suc (ended (ws_threads s)) \<and> distinct (issued s) \<and>
     (\<forall>i\<in>set (issued s). stride A dvd unat i \<and> i < wa_nblocks A \<and> i < ws_idx s) \<and>
     (\<forall>t\<in>set (ws_threads s). case t of W_next ss \<Rightarrow> length ss = unat (wa_nslices A) | W_write i ss \<Rightarrow> length ss = unat (wa_nslices A) | W_end \<Rightarrow> True) \<and>
     (\<forall>(i, bs)\<in>set (ws_log s). length bs = unat (this_nblocks A i))"

lemma mset_pending_update:
  "i < length ts \<Longrightarrow> mset (concat (map pending (ts[i := t]))) + mset (pending (ts ! i)) = mset (concat (map pending ts)) + mset (pending t)"
proof (induction ts arbitrary: i)
  case (Cons u ts)
  then show ?case by (cases i) auto
qed simp

lemma ended_update: "i < length ts \<Longrightarrow> ts ! i \<noteq> W_end \<Longrightarrow> ended (ts[i := t]) = ended ts + (if t = W_end then 1 else 0)"
proof (induction ts arbitrary: i)
  case (Cons u ts)
  then show ?case by (cases i) (auto simp: ended_def)
qed (simp add: ended_def)

lemma encrypt_slices_length: "encrypt_slices e z lba n ss = Inr ss' \<Longrightarrow> length ss' = length ss"
  by (induction e z lba n ss arbitrary: ss' rule: encrypt_slices.induct) (auto simp: rbind_Inr_iff split: prod.splits if_splits)

lemma ended_less: "i < length ts \<Longrightarrow> ts ! i \<noteq> W_end \<Longrightarrow> ended ts < length ts"
  unfolding ended_def by (rule length_filter_less [of "ts ! i"]) simp_all

text \<open>What may follow from a step: the index goes on by one group, or stays; nothing or the old index is handed out.\<close>

lemma advance:
  assumes "writer_inv A n s" "unat (wa_nblocks A) + stride A * Suc n \<le> 2 ^ 64" "i < length (ws_threads s)" "ws_threads s ! i \<noteq> W_end"
  shows "unat (ws_idx s + (wa_nslices A + wa_nskips A)) = unat (ws_idx s) + stride A"
proof -
  have "ended (ws_threads s) < n" using ended_less [OF assms(3,4)] assms(1) by (simp add: writer_inv_def)
  then have "stride A * Suc (ended (ws_threads s)) \<le> stride A * n" by (intro mult_le_mono2) simp
  moreover have "unat (ws_idx s) < unat (wa_nblocks A) + stride A * Suc (ended (ws_threads s))" using assms(1) by (simp add: writer_inv_def)
  ultimately have "unat (ws_idx s) + stride A < 2 ^ 64" using assms(2) by simp
  then show ?thesis by (simp add: stride_def unat_add_small)
qed

lemma issued_same:
  assumes "writer_inv A n s" "mset (issued s') = mset (issued s)" "ws_idx s \<le> ws_idx s'"
  shows "distinct (issued s')" "\<forall>i\<in>set (issued s'). stride A dvd unat i \<and> i < wa_nblocks A \<and> i < ws_idx s'"
  using assms mset_eq_imp_distinct_iff [OF assms(2)] mset_eq_setD [OF assms(2)] by (auto simp: writer_inv_def)

lemma issued_more:
  assumes "writer_inv A n s" "mset (issued s') = mset (ws_idx s # issued s)" "ws_idx s < ws_idx s'" "ws_idx s < wa_nblocks A"
  shows "distinct (issued s')" "\<forall>i\<in>set (issued s'). stride A dvd unat i \<and> i < wa_nblocks A \<and> i < ws_idx s'"
  using assms mset_eq_imp_distinct_iff [OF assms(2)] mset_eq_setD [OF assms(2)] by (auto simp: writer_inv_def)

lemma write_group_length: "write_group A e pwritev idx ss = Inr (ss', ret) \<Longrightarrow> length ss' = length ss"
  by (auto simp: write_group_def Let_def rbind_Inr_iff dest: encrypt_slices_length split: if_splits)

lemma writer_step_inv:
  assumes "writer_step A e pwritev s s'" "writer_inv A n s" "unat (wa_nblocks A) + stride A * Suc n \<le> 2 ^ 64" "0 < stride A"
  shows "writer_inv A n s'"
  using assms(1)
proof (cases rule: writer_step.cases)
  case (w_end i ss)
  note adv = advance [OF assms(2,3) w_end(3)]
  have m: "mset (issued s') = mset (issued s)"
    using mset_pending_update [of i "ws_threads s" W_end] w_end by (simp add: issued_def)
  have le: "ws_idx s \<le> ws_idx s'" using adv w_end by (simp add: word_le_nat_alt)
  show ?thesis
    using issued_same [OF assms(2) m le] assms(2) adv w_end ended_update [of i "ws_threads s" W_end]
    by (auto simp: writer_inv_def dest!: set_update_subset_insert [THEN subsetD])
next
  case (w_skip i ss d)
  note adv = advance [OF assms(2,3) w_skip(3)]
  have lt: "ws_idx s \<le> ws_idx s'" using adv w_skip by (simp add: word_le_nat_alt)
  have m: "mset (issued s') = mset (issued s)" using w_skip by (simp add: issued_def)
  show ?thesis
    using issued_same [OF assms(2) m lt] assms(2) adv w_skip by (auto simp: writer_inv_def word_less_nat_alt)
next
  case (w_take i ss d)
  note adv = advance [OF assms(2,3) w_take(3)]
  have lt: "ws_idx s < ws_idx s'" using adv w_take assms(4) by (simp add: word_less_nat_alt)
  have m: "mset (issued s') = mset (ws_idx s # issued s)"
    using mset_pending_update [of i "ws_threads s" "W_write (ws_idx s) ss"] w_take by (simp add: issued_def)
  have "length ss = unat (wa_nslices A)" using assms(2) w_take(3,4) by (auto simp: writer_inv_def dest!: nth_mem)
  then show ?thesis
    using issued_more [OF assms(2) m lt] assms(2) adv w_take ended_update [of i "ws_threads s" "W_write (ws_idx s) ss"]
    by (auto simp: writer_inv_def word_less_nat_alt dest!: set_update_subset_insert [THEN subsetD])
next
  case (w_write i idx ss ss' ret)
  have m: "mset (issued s') = mset (issued s)"
    using mset_pending_update [of i "ws_threads s" "W_next ss'"] w_write by (simp add: issued_def)
  have len: "length ss' = unat (wa_nslices A)"
    using assms(2) w_write(3,4) write_group_length [OF w_write(5)] by (auto simp: writer_inv_def dest!: nth_mem)
  have "unat (this_nblocks A idx) \<le> unat (wa_nslices A)" by (simp add: this_nblocks_def word_le_nat_alt [symmetric])
  then show ?thesis
    using issued_same [OF assms(2) m] assms(2) w_write len ended_update [of i "ws_threads s" "W_next ss'"]
    by (auto simp: writer_inv_def dest!: set_update_subset_insert [THEN subsetD])
next
  case (w_throw i idx ss x)
  then show ?thesis using assms(2) by (simp add: writer_inv_def issued_def)
qed

lemma writer_start_inv: "0 < wa_nblocks A \<Longrightarrow> writer_inv A n (writer_start A n)"
  by (simp add: writer_inv_def writer_start_def issued_def ended_def word_less_nat_alt)

text \<open>
  A run with its history: the indices below the end that were taken from the shared index, each with whether it was then given to a worker to write
  (or else skipped, by the number drawn).
\<close>

definition visited :: "writerand_arg \<Rightarrow> writer \<Rightarrow> writer \<Rightarrow> (u64 \<times> bool) list" where
  "visited A s s' = (if ws_idx s' \<noteq> ws_idx s \<and> ws_idx s < wa_nblocks A then [(ws_idx s, ws_threads s' \<noteq> ws_threads s)] else [])"

inductive writer_run :: "writerand_arg \<Rightarrow> tbc \<Rightarrow> (u64 \<Rightarrow> u8 list list \<Rightarrow> int) \<Rightarrow> nat \<Rightarrow> (u64 \<times> bool) list \<Rightarrow> writer \<Rightarrow> bool"
  for A :: writerand_arg and e :: tbc and pwritev :: "u64 \<Rightarrow> u8 list list \<Rightarrow> int" and n :: nat where
  run_start: "writer_run A e pwritev n [] (writer_start A n)"
| run_step: "writer_run A e pwritev n vs s \<Longrightarrow> writer_step A e pwritev s s' \<Longrightarrow> writer_run A e pwritev n (vs @ visited A s s') s'"

text \<open>The history only observes: the runs with one are all runs.\<close>

lemma writer_run_iff: "(\<exists>vs. writer_run A e pwritev n vs s) \<longleftrightarrow> (writer_step A e pwritev)\<^sup>*\<^sup>* (writer_start A n) s"
proof
  assume "\<exists>vs. writer_run A e pwritev n vs s"
  then obtain vs where "writer_run A e pwritev n vs s" by blast
  then show "(writer_step A e pwritev)\<^sup>*\<^sup>* (writer_start A n) s" by induction auto
next
  assume "(writer_step A e pwritev)\<^sup>*\<^sup>* (writer_start A n) s"
  then show "\<exists>vs. writer_run A e pwritev n vs s" by induction (auto intro: writer_run.intros)
qed

lemma next_multiple: "k dvd m \<Longrightarrow> k dvd n \<Longrightarrow> m < n + k \<Longrightarrow> m < n \<or> m = n" for k m n :: nat
proof -
  assume d: "k dvd m" "k dvd n" and "m < n + k"
  then obtain a b where ab: "m = k * a" "n = k * b" by (auto elim!: dvdE)
  then have "k * a < k * (b + 1)" using \<open>m < n + k\<close> by simp
  then have "a < b + 1" by (simp only: mult_less_cancel1)
  then have "a = b \<or> a + 1 \<le> b" by auto
  then show ?thesis using ab \<open>k * a < k * (b + 1)\<close> by auto
qed

text \<open>The multiples of a group below a bound, and the next one.\<close>

definition group_starts :: "nat \<Rightarrow> nat \<Rightarrow> nat list" where
  "group_starts k m = filter (\<lambda>i. k dvd i) [0..<m]"

lemma group_starts_none: "k dvd m \<Longrightarrow> m \<le> m' \<Longrightarrow> m' \<le> m + k \<Longrightarrow> 0 < k \<Longrightarrow> group_starts k m' = group_starts k m @ (if m < m' then [m] else [])"
proof -
  assume k: "k dvd m" "m \<le> m'" "m' \<le> m + k" "0 < k"
  have "filter (\<lambda>i. k dvd i) [m..<m'] = (if m < m' then [m] else [])"
  proof (cases "m < m'")
    case True
    have "\<not> k dvd i" if "i \<in> set [Suc m..<m']" for i
      using next_multiple [of k i m] that k by auto
    then have "filter (\<lambda>i. k dvd i) [Suc m..<m'] = []" by (simp add: filter_empty_conv)
    then show ?thesis using True k(1) by (simp add: upt_conv_Cons)
  qed simp
  moreover have "[0..<m'] = [0..<m] @ [m..<m']" using k(2) by (metis le0 upt_add_eq_append le_add_diff_inverse add_0)
  ultimately show ?thesis by (simp add: group_starts_def)
qed

definition history_inv :: "writerand_arg \<Rightarrow> (u64 \<times> bool) list \<Rightarrow> writer \<Rightarrow> bool" where
  "history_inv A vs s \<longleftrightarrow> map (unat \<circ> fst) vs = group_starts (stride A) (min (unat (ws_idx s)) (unat (wa_nblocks A))) \<and>
     mset (map fst (filter snd vs)) = mset (issued s) \<and> (W_end \<in> set (ws_threads s) \<longrightarrow> wa_nblocks A \<le> ws_idx s) \<and>
     (wa_pct A = 0 \<longrightarrow> (\<forall>v \<in> set vs. snd v)) \<and> (wa_pct A = 1 \<longrightarrow> (\<forall>v \<in> set vs. \<not> snd v))"

lemma starts_next:
  assumes "writer_inv A n s" "ws_idx s < wa_nblocks A" "0 < stride A" "unat (ws_idx s') = unat (ws_idx s) + stride A"
  shows "group_starts (stride A) (min (unat (ws_idx s')) (unat (wa_nblocks A))) =
    group_starts (stride A) (min (unat (ws_idx s)) (unat (wa_nblocks A))) @ [unat (ws_idx s)]"
  using group_starts_none [of "stride A" "unat (ws_idx s)" "min (unat (ws_idx s')) (unat (wa_nblocks A))"] assms
  by (auto simp: writer_inv_def word_less_nat_alt min_def)

lemma history_step:
  assumes "writer_step A e pwritev s s'" "writer_inv A n s" "unat (wa_nblocks A) + stride A * Suc n \<le> 2 ^ 64" "0 < stride A" "history_inv A vs s"
  shows "history_inv A (vs @ visited A s s') s'"
  using assms(1)
proof (cases rule: writer_step.cases)
  case (w_end i ss)
  note adv = advance [OF assms(2,3) w_end(3)]
  have "mset (issued s') = mset (issued s)"
    using mset_pending_update [of i "ws_threads s" W_end] w_end by (simp add: issued_def)
  then show ?thesis using assms(5) w_end adv
    by (auto simp: history_inv_def visited_def word_less_nat_alt word_le_nat_alt min_def)
next
  case (w_skip i ss d)
  note adv = advance [OF assms(2,3) w_skip(3)]
  have "unat (ws_idx s') = unat (ws_idx s) + stride A" using adv w_skip(1,4) by simp
  note nx = starts_next [OF assms(2) w_skip(5) assms(4) this]
  have v: "visited A s s' = [(ws_idx s, False)]"
    using \<open>unat (ws_idx s') = _\<close> assms(4) w_skip by (auto simp: visited_def)
  have "W_end \<notin> set (ws_threads s)" using assms(5) w_skip(5) unfolding history_inv_def by (metis linorder_not_le)
  moreover have "issued s' = issued s" "ws_threads s' = ws_threads s" using w_skip(1) by (simp_all add: issued_def)
  moreover have "wa_pct A \<noteq> 0" using w_skip by auto
  ultimately show ?thesis using assms(5) nx by (simp add: history_inv_def v)
next
  case (w_take i ss d)
  note adv = advance [OF assms(2,3) w_take(3)]
  have "unat (ws_idx s') = unat (ws_idx s) + stride A" using adv w_take(1,4) by simp
  note nx = starts_next [OF assms(2) w_take(5) assms(4) this]
  have "ws_threads s' ! i \<noteq> ws_threads s ! i" using w_take by simp
  then have v: "visited A s s' = [(ws_idx s, True)]"
    using \<open>unat (ws_idx s') = _\<close> assms(4) w_take(5) by (auto simp: visited_def)
  have m: "mset (issued s') = mset (ws_idx s # issued s)"
    using mset_pending_update [of i "ws_threads s" "W_write (ws_idx s) ss"] w_take by (simp add: issued_def)
  have "W_end \<notin> set (ws_threads s)" using assms(5) w_take(5) unfolding history_inv_def by (metis linorder_not_le)
  then have "W_end \<notin> set (ws_threads s')"
    using set_update_subset_insert [of "ws_threads s" i "W_write (ws_idx s) ss"] w_take(1) by auto
  moreover have "wa_pct A \<noteq> 1" using w_take by auto
  ultimately show ?thesis using assms(5) nx m by (simp add: history_inv_def v)
next
  case (w_write i idx ss ss' ret)
  have "mset (issued s') = mset (issued s)"
    using mset_pending_update [of i "ws_threads s" "W_next ss'"] w_write by (simp add: issued_def)
  then show ?thesis using assms(5) w_write by (auto simp: history_inv_def visited_def dest!: set_update_subset_insert [THEN subsetD])
next
  case (w_throw i idx ss x)
  then show ?thesis using assms(5) by (simp add: history_inv_def visited_def issued_def)
qed

lemma run_invs:
  assumes run: "writer_run A e pwritev n vs s" and pos: "0 < wa_nslices A" "0 < wa_nblocks A"
    and fits: "unat (wa_nblocks A) + stride A * Suc n \<le> 2 ^ 64"
  shows "writer_inv A n s \<and> history_inv A vs s"
proof -
  have st: "0 < stride A" using pos(1) by (simp add: stride_def word_less_nat_alt)
  show ?thesis
    using run
  proof induction
    case run_start
    then show ?case using pos(2) by (simp add: writer_start_inv) (simp add: history_inv_def group_starts_def writer_start_def issued_def)
  next
    case (run_step vs s s')
    then show ?case using writer_step_inv [OF run_step(2) _ fits st] history_step [OF run_step(2) _ fits st] by blast
  qed
qed

text \<open>Groups of different numbers have no block in common.\<close>

lemma groups_disjoint:
  assumes "stride A dvd unat i" "stride A dvd unat j" "unat i < unat j" "length bs = unat (this_nblocks A i)"
  shows "unat i + length bs \<le> unat j"
proof -
  have "unat i + stride A \<le> unat j" using next_multiple [OF assms(2,1)] assms(3) by linarith
  moreover have "length bs \<le> stride A" using assms(4) by (simp add: this_nblocks_def stride_def unat_min)
  ultimately show ?thesis by simp
qed

text \<open>The groups in the log begin where a group may, have their size, and do not overlap.\<close>

lemma logged_groups:
  assumes inv: "writer_inv A n s" and that: "(i, bs) \<in> set (ws_log s)"
  shows "stride A dvd unat i" "unat i + length bs \<le> unat (wa_nblocks A)" "length bs = unat (this_nblocks A i)"
proof -
  have "i \<in> set (issued s)" using that by (force simp: issued_def)
  then have "i < wa_nblocks A" "stride A dvd unat i" using inv by (simp_all add: writer_inv_def)
  then show "stride A dvd unat i" by simp
  show l: "length bs = unat (this_nblocks A i)" using that inv by (auto simp: writer_inv_def)
  have "i < wa_nblocks A" by fact
  then show "unat i + length bs \<le> unat (wa_nblocks A)" by (simp add: l this_nblocks_def unat_min unat_sub word_less_nat_alt word_le_nat_alt)
qed

lemma logged_disjoint:
  assumes inv: "writer_inv A n s" and that: "(i, bs) \<in> set (ws_log s)" "(j, cs) \<in> set (ws_log s)" "i \<noteq> j"
  shows "unat i + length bs \<le> unat j \<or> unat j + length cs \<le> unat i"
proof (cases "unat i < unat j")
  case True
  then show ?thesis using groups_disjoint [OF _ _ True] logged_groups [OF inv] that by blast
next
  case False
  then have "unat j < unat i" using that(3) by (metis linorder_neqE_nat word_eq_unatI)
  then show ?thesis using groups_disjoint [of A j i cs] logged_groups [OF inv] that by blast
qed

text \<open>
  With the proportion 1, the default, nothing is written: a group is skipped when the number drawn is less than the proportion.
\<close>

lemma default_proportion_writes_nothing:
  assumes "writer_run A e pwritev n vs s" "0 < wa_nslices A" "0 < wa_nblocks A" "unat (wa_nblocks A) + stride A * Suc n \<le> 2 ^ 64" "wa_pct A = 1"
  shows "ws_log s = []"
proof -
  have "history_inv A vs s" using run_invs [OF assms(1-4)] by simp
  then have f: "filter snd vs = []" and m: "mset (map fst (filter snd vs)) = mset (issued s)"
    using assms(5) unfolding history_inv_def by (simp_all only: filter_empty_conv) blast+
  from m have "issued s = []" unfolding f by simp
  then show ?thesis by (simp add: issued_def)
qed


text \<open>Two workers fill four blocks in groups of two; each writes one group.\<close>

definition sample_arg :: writerand_arg where
  "sample_arg = \<lparr>wa_blksize = 1, wa_fsize = 4, wa_nslices = 2, wa_nskips = 0, wa_pct = 0, wa_nblocks = 4\<rparr>"

definition sample_tbc :: tbc where
  "sample_tbc = \<lparr>tbc_encrypt = (\<lambda>out x lba. (True, map (\<lambda>b. b + ucast lba) x)), tbc_decrypt = (\<lambda>out x lba. (True, map (\<lambda>b. b - ucast lba) x))\<rparr>"

definition sample_writer :: "u64 \<Rightarrow> (u64 \<times> u8 list list) list \<Rightarrow> wthread list \<Rightarrow> writer" where
  "sample_writer i ws ts = \<lparr>ws_idx = i, ws_written = of_nat (2 * length ws), ws_log = ws, ws_threads = ts, ws_alive = True\<rparr>"

abbreviation sample_step :: "writer \<Rightarrow> writer \<Rightarrow> bool" where
  "sample_step \<equiv> writer_step sample_arg sample_tbc (\<lambda>_ bs. int (length bs))"

lemma sample_steps:
  "i < length ts \<Longrightarrow> ts ! i = W_next ss \<Longrightarrow> 4 \<le> k \<Longrightarrow> sample_step (sample_writer k ws ts) (sample_writer (k + 2) ws (ts[i := W_end]))"
  "i < length ts \<Longrightarrow> ts ! i = W_next ss \<Longrightarrow> k < 4 \<Longrightarrow> sample_step (sample_writer k ws ts) (sample_writer (k + 2) ws (ts[i := W_write k ss]))"
  "i < length ts \<Longrightarrow> ts ! i = W_write j ss \<Longrightarrow> write_group sample_arg sample_tbc (\<lambda>_ bs. int (length bs)) j ss = Inr (ss', 2) \<Longrightarrow>
     sample_step (sample_writer k ws ts) (sample_writer k (ws @ [(j, take (unat (this_nblocks sample_arg j)) ss')]) (ts[i := W_next ss']))"
  using w_end [of "sample_writer k ws ts" i ss sample_arg sample_tbc "\<lambda>_ bs. int (length bs)"]
    w_take [of "sample_writer k ws ts" i ss sample_arg 0 sample_tbc "\<lambda>_ bs. int (length bs)"]
    w_write [of "sample_writer k ws ts" i j ss sample_arg sample_tbc "\<lambda>_ bs. int (length bs)" ss' 2]
  by (simp_all add: sample_writer_def sample_arg_def ac_simps)

lemma two_blocks:
  "replicate 2 x = [x, x]" "encrypt_slices e z lba 2 ss = encrypt_slices e z lba (Suc (Suc 0)) ss"
  by (simp_all add: numeral_2_eq_2)

lemma sample_groups:
  "write_group sample_arg sample_tbc (\<lambda>_ bs. int (length bs)) 2 [[0], [0]] = Inr ([[4], [4]], 2)"
  "write_group sample_arg sample_tbc (\<lambda>_ bs. int (length bs)) 0 [[0], [0]] = Inr ([[2], [2]], 2)"
  by (simp_all add: write_group_def this_nblocks_def sample_arg_def sample_tbc_def Let_def two_blocks)

lemma sample_run: "sample_step\<^sup>*\<^sup>* (writer_start sample_arg 2) (sample_writer 8 [(2, [[4], [4]]), (0, [[2], [2]])] [W_end, W_end])"
proof -
  let ?z = "[[0], [0]] :: u8 list list"
  have start: "writer_start sample_arg 2 = sample_writer 0 [] [W_next ?z, W_next ?z]"
    by (simp add: writer_start_def sample_writer_def sample_arg_def two_blocks)
  have r1: "sample_step\<^sup>*\<^sup>* (sample_writer 0 [] [W_next ?z, W_next ?z]) (sample_writer 4 [] [W_write 0 ?z, W_write 2 ?z])"
    using sample_steps(2) [of 0 "[W_next ?z, W_next ?z]" ?z 0 "[]"] sample_steps(2) [of 1 "[W_write 0 ?z, W_next ?z]" ?z 2 "[]"] by simp
  have r2: "sample_step\<^sup>*\<^sup>* (sample_writer 4 [] [W_write 0 ?z, W_write 2 ?z])
      (sample_writer 4 [(2, [[4], [4]]), (0, [[2], [2]])] [W_next [[2], [2]], W_next [[4], [4]]])"
    using sample_steps(3) [of 1 "[W_write 0 ?z, W_write 2 ?z]" 2 ?z "[[4], [4]]" 4 "[]"] sample_groups
      sample_steps(3) [of 0 "[W_write 0 ?z, W_next [[4], [4]]]" 0 ?z "[[2], [2]]" 4 "[(2, [[4], [4]])]"]
    by (simp add: this_nblocks_def sample_arg_def)
  have r3: "sample_step\<^sup>*\<^sup>* (sample_writer 4 [(2, [[4], [4]]), (0, [[2], [2]])] [W_next [[2], [2]], W_next [[4], [4]]])
      (sample_writer 8 [(2, [[4], [4]]), (0, [[2], [2]])] [W_end, W_end])"
    using sample_steps(1) [of 0 "[W_next [[2], [2]], W_next [[4], [4]]]" "[[2], [2]]" 4 "[(2, [[4], [4]]), (0, [[2], [2]])]"]
      sample_steps(1) [of 1 "[W_end, W_next [[4], [4]]]" "[[4], [4]]" 6 "[(2, [[4], [4]]), (0, [[2], [2]])]"] by simp
  show ?thesis unfolding start by (rule rtranclp_trans [OF r1 rtranclp_trans [OF r2 r3]])
qed


end
