(* ===== verification/Spec2Isabelle.thy ===== *)
theory Spec2Isabelle
  imports RingSteps LbaCache NvmeCtrl BlkIter Util SgxProps ProgramsProps Isolation Writerand
begin

text \<open>
  A verification development of the user-space side of NVMetro: the storage functions that NVMetro runs for virtual machines
  (directory \<open>mdev-client\<close>) and the enclave that one of them keeps its key in (\<open>encryptor-sgx\<close>).

  \<^bold>\<open>The program.\<close> A mediated NVMe device hands the commands of a virtual machine to a process on the host. A small program in the kernel,
  the classifier, looks at every command first: it may send it to the device at once, with another block address, or to the process. Command
  and response travel through rings in shared memory. The process finds the data of a command in the memory of the machine through the
  pages the command lists, does its work (encipher, decipher, replicate, or map the address of a copy-on-write disk), writes to a block
  device directly or through an asynchronous ring, and answers. The parts and the theories that model them, bottom up:

  \<^item> \<open>Prelude\<close>, \<open>NvmeCore\<close>, \<open>Util\<close>: machine integers, C++ exceptions and the state-and-exception monad; commands, status codes, tags and tickets
    (\<open>linux/nvme.h\<close>, \<open>nvme_core.hpp\<close>, \<open>tagging.hpp\<close>); rounding and span conversion (\<open>util.hpp\<close>).
  \<^item> \<open>Handles\<close>: the classes that own a resource (\<open>auto_handle\<close>, \<open>cleanup\<close>, \<open>FileDescriptor\<close>, the mappings of \<open>cmdbuf\<close>). The locale \<open>owner\<close> is their
    contract; it is interpreted for each of the four, and every resource is given back exactly once.
  \<^item> \<open>Host\<close>: opening the mediated device, the layout of guest memory in the process (\<open>util/mdev.cpp\<close>), time differences (\<open>util/time.cpp\<close>).
  \<^item> \<open>Cmdbuf\<close>, \<open>RingSteps\<close>: the rings (\<open>cmdbuf.hpp\<close>). \<open>Cmdbuf\<close> has the calls with their 32-bit indices and the locale \<open>bounded_fifo\<close>, interpreted on them.
    \<open>RingSteps\<close> breaks the calls into single loads and stores, an inductive step relation of two processes, and shows that every interleaving is a queue.
  \<^item> \<open>LbaCache\<close>: the classifier and its set-associative cache of translations (\<open>lbacache.hpp\<close>, \<open>lbacache-polyfill.hpp\<close>). The locale
    \<open>translation_cache\<close> is what the handlers rely on; the cache is the interpretation \<open>xcache\<close>.
  \<^item> \<open>GuestMem\<close>, \<open>Prp\<close>, \<open>NvmeCtrl\<close>, \<open>BlockWalk\<close>: guest memory with its bounds checks (\<open>vm.cpp\<close>), the walk over the physical region pages of a command
    (\<open>prp.cpp\<close>), the controller base with its block and page iterators (\<open>nvme.hpp\<close>, \<open>nvme.cpp\<close>), and facts about loops over blocks.
  \<^item> \<open>BlkIter\<close>, \<open>XcowFmt\<close>, \<open>XcowOps\<close>: the split of a range at clusters (\<open>blk_iter.hpp\<close>), the metadata file of a copy-on-write disk with its tables
    (\<open>xcowfmt.hpp\<close>, \<open>linked_table.hpp\<close>, \<open>nested_table.hpp\<close>), and all operations on files and snapshots (\<open>xcow_file.cpp\<close>, \<open>xcow_snap.cpp\<close>).
  \<^item> \<open>XcowInv\<close>, \<open>XcowCow\<close>, \<open>XcowSnapshot\<close>, \<open>XcowFormat\<close>, \<open>XcowDisk\<close>, \<open>XcowPeel\<close>, \<open>XcowProps\<close>: the invariant of the metadata and that every operation keeps it; what
    writes, snapshots, formatting and dropping do to it; the contract of a copy-on-write store as the locale \<open>cow_store\<close> with the interpretation \<open>xdisk\<close>.
  \<^item> \<open>XcowCtl\<close>: mapping and locking the metadata file and the tools on it (\<open>file_deref.cpp\<close>, \<open>xcowctl.cpp\<close>, \<open>xcowdump.cpp\<close>).
  \<^item> \<open>Uring\<close>: the wrapper of \<open>io_uring\<close> (\<open>util/uring.cpp\<close>).
  \<^item> \<open>NvmeXcow\<close>, \<open>XcowSrv\<close>, \<open>XcowSrvProps\<close>: the controller of a copy-on-write disk with its tickets, cluster locks and work queue (\<open>nvme_xcow.cpp\<close>), the
    worker of its server (\<open>xcowsrv.cpp\<close>), and the life of a write that needs a new cluster.
  \<^item> \<open>Cipher\<close>, \<open>Encryptor\<close>, \<open>EncryptorProps\<close>, \<open>EncryptorZero\<close>, \<open>EncryptorAio\<close>: the block ciphers (\<open>aes_xts_ipp.cpp\<close>, \<open>aes_xts_libcrypto.cpp\<close>) and the encrypting
    functions, synchronous, asynchronous and shared by several machines (\<open>nvme_encryptor.cpp\<close>, \<open>_aio.cpp\<close>, \<open>_multi.cpp\<close>).
  \<^item> \<open>Enclave\<close>, \<open>EnclaveProps\<close>, \<open>SgxEncryptor\<close>, \<open>SgxProps\<close>: the enclave with its own copies of guest memory, iterators and cipher (\<open>Enclave.cpp\<close>), the calls into it
    (\<open>sgx/enclave.cpp\<close>, \<open>prp_en.hpp\<close>), and the encrypting functions that use it (\<open>nvme_encryptor_sgx.cpp\<close>, \<open>_sgx_aio.cpp\<close>).
  \<^item> \<open>Sender\<close>: the replicating functions (\<open>nvme_sender.cpp\<close>, \<open>nvme_sender_aio.cpp\<close>).
  \<^item> \<open>Workers\<close>, \<open>WorkersProps\<close>: the programs around the encrypting and replicating functions (\<open>encryptor-mt.cpp\<close>, \<open>encryptor-sgx.cpp\<close>, \<open>replicator.cpp\<close>,
    \<open>encryptor-aio.cpp\<close>, \<open>encryptor-sgx-aio.cpp\<close>, \<open>encryptor-multi.cpp\<close>, \<open>replicator-aio.cpp\<close>). The locale \<open>ticketed\<close> is what a worker relies on of a controller
    with tickets, interpreted for the four controllers.
  \<^item> \<open>Options\<close>, \<open>XcowStart\<close>, \<open>Programs\<close>, \<open>ProgramsProps\<close>: the \<open>main\<close> functions of these programs and of \<open>xcowsrv.cpp\<close>: \<open>getopt\<close> and the number readers of the C
    library, the options, the key file, opening the machine, and starting the workers; how the queues are dealt out, and what the options can and cannot do.
  \<^item> \<open>Isolation\<close>: no function touches memory outside of its guest's. Every operation of the controllers, and every step of the copy-on-write server, keeps this.
  \<^item> \<open>Writerand\<close>: the tool that fills a disk (\<open>writerand.cpp\<close>), its threads as an inductive step relation around a shared index.
  \<^item> This theory: properties that span the classifier and the copy-on-write server.

  \<^bold>\<open>Correspondence.\<close> A class is a record with a field for each member, a method that changes state is a program in the monad of \<open>Prelude\<close>: a function from
  the state to a result, \<open>Inl\<close> an exception or \<open>Inr\<close> a value, and the state reached; an exception does not undo what was written. Undefined
  behaviour of C++ (an index outside a span, a null pointer, a shift by the width) is the exception \<open>Undefined\<close>, so that a theorem that says \<open>Inr\<close>
  also says that there is none. Integers have the width of the source. Assertions are compiled out of the host programs, as the Makefile does, and
  compiled into the enclave. Objects that several parties point to, the tickets, live in a heap, a map from numbers to tickets. The metadata file of a disk
  is a function from word numbers to words, and tables are spans of words in it, so that sharing between snapshots is sharing of words.

  \<^bold>\<open>Assumptions.\<close> Code outside the repository is an argument of the definitions: the system calls and ioctls, \<open>liburing\<close>, the cipher libraries, the SGX SDK,
  the option parser. Where a property needs something of it, this is a hypothesis: that a cipher deciphers what it enciphered with the same number, that
  \<open>pwrite\<close> takes a positive number of bytes or fails, that the kernel leaves memory alone, that a cipher writes no more than its output
  has room for, that a mapping does not reach the end of the address space. Each such property has a witness with a concrete
  function in place of the argument.

  \<^bold>\<open>Loops.\<close> Loops over data that is bounded are recursive functions. Loops that an adversarial guest or a damaged file could keep running take fuel: the
  walks over region pages and blocks (bounded by the bytes of the command, and shown to end within them), the retries of \<open>cq_produce_one\<close> (the list of
  what the consumer does meanwhile), and the listings of \<open>xcowctl\<close> and \<open>xcowdump\<close> (the number of entries plus one). Where termination matters it is a
  theorem that enough fuel gives a result. The endless loops of the workers are modelled by one turn, whose inputs are what the ring, the clock and \<open>poll\<close> say.

  \<^bold>\<open>What the properties show.\<close> For the disk: no operation on a well-formed file is undefined, writes change their cluster only, snapshots last, dropping one goes
  back to the snapshot below, new clusters are fresh, and the write in two phases around a copy refines the write in one. For the classifier: what it sends
  to the device directly, that every translation it uses was received and not withdrawn, and that a snapshot stops direct writes. For the server
  and the classifier together: a write to an unmapped cluster gets one response, and that response takes it and its successors to the new cluster. For the data
  path: the loops visit exactly the blocks of the command, what is written enciphered is read back deciphered, with and without enclave, synchronously and
  asynchronously. For the workers: commands are answered exactly once. For the host: whatever a guest puts into commands and
  page lists, nothing outside of its memory is written or handed to the kernel. For the programs: every queue gets one worker, and the disk filler writes no block
  twice. Theorems about flaws that the model shows stand beside the others.

  \<^bold>\<open>Not modelled.\<close> The kernel patches (another language and program); scripts; the generated stubs of the enclave; the vendored Catch2, cxxopts and
  \<open>span\<close>; the unit tests; the allocators, which only pass calls on to mimalloc; \<open>mdev-client-fd.cpp\<close>, which no target builds; the declaration \<open>nvme_snap_aio.hpp\<close>, which has no code. Memory
  ordering is modelled for the rings as interleaving of single accesses, which the release stores and acquire loads of the source
  justify; other state is not shared between threads, apart from the rings of \<open>encryptor-multi\<close>, whose turns are modelled one at a time.
\<close>

section \<open>The classifier and the copy-on-write server\<close>


text \<open>The block that the classifier computes from a byte address and a block of the command.\<close>

lemma device_block:
  fixes outoff slba :: u64
  assumes "65536 dvd unat outoff" "unat outoff < 2 ^ 63"
  shows "512 * unat (outoff div CLUSTER_SIZE * CLUSTER_LBAS + vlba_off slba) = unat outoff + 512 * (unat slba mod 128)"
    "outoff div CLUSTER_SIZE * CLUSTER_LBAS + vlba_off slba \<noteq> U64_MAX"
proof -
  obtain k where k: "unat outoff = 65536 * k" using assms(1) by (auto elim: dvdE)
  then have k63: "k < 2 ^ 47" using assms(2) by simp
  have d: "unat (outoff div 65536) = k" using k by (simp add: unat_div_distrib)
  have m: "unat (outoff div 65536 * 128) = k * 128"
    unfolding unat_word_ariths(2) d using k63 by simp
  have o: "unat (slba mod 128) = unat slba mod 128" by (simp add: unat_mod_distrib)
  have "unat (outoff div 65536 * 128 + slba mod 128) = k * 128 + unat slba mod 128"
    unfolding unat_word_ariths(1) m o using k63 by (simp add: less_trans [of _ "2 ^ 47 * 128 + 128"])
  then have t: "unat (outoff div CLUSTER_SIZE * CLUSTER_LBAS + vlba_off slba) = k * 128 + unat slba mod 128"
    by (simp add: CLUSTER_SIZE_def CLUSTER_LBAS_def LBA_SIZE_def vlba_off_def)
  show "512 * unat (outoff div CLUSTER_SIZE * CLUSTER_LBAS + vlba_off slba) = unat outoff + 512 * (unat slba mod 128)"
    unfolding t k by simp
  have "unat (outoff div CLUSTER_SIZE * CLUSTER_LBAS + vlba_off slba) < 2 ^ 63" unfolding t using k63 mod_less_divisor [of 128 "unat slba"] by simp
  then show "outoff div CLUSTER_SIZE * CLUSTER_LBAS + vlba_off slba \<noteq> U64_MAX" by auto
qed

lemma low_word: "(ucast (v AND 0xffffffff :: u64) :: u32) = ucast v"
proof -
  have "v AND 0xffffffff = take_bit 32 v" by (simp add: take_bit_eq_mask mask_eq_exp_minus_1)
  then show ?thesis by (simp add: bit_eq_iff bit_simps)
qed

text \<open>
  C5. The new cluster is reached. The response of the server for a write that allocated is handed to the classifier. It sends the command on to
  the device, at the block of the command inside the new cluster; and it remembers the cluster, so that a following read or write of blocks of that
  cluster goes to the device at once, at their place in the new cluster, without the server. This holds for clusters of 64 KiB and blocks of
  512 bytes, which the classifier is compiled for.
\<close>

theorem response_reaches_new_cluster:
  assumes inv: "cache_inv c" and hook: "ctx_current_hook ctx = NMBPF_HOOK_NFD_WRITE"
    and aux: "ctx_aux ctx = resp_aux (mk_response ucid (mk_reply tag st (set_aux_addr outoff (AUXBITS_VALID OR AUXBITS_WRITABLE OR AUXCMD_FORWARD))))"
    and outoff: "65536 dvd unat outoff" "unat outoff < 2 ^ 63"
    and same: "in_cluster (rw_slba (ctx_cmd ctx')) (rw_length (ctx_cmd ctx'))" "vlba_vblk (rw_slba (ctx_cmd ctx')) = vlba_vblk (rw_slba (ctx_cmd ctx))"
  shows "case nm_on_rw_respond ctx c of (act, ctx1, c1) \<Rightarrow>
    act = NMBPF_SEND_HQ OR NMBPF_WILL_COMPLETE_HQ \<and>
    512 * unat (rw_slba (ctx_cmd ctx1)) = unat outoff + 512 * (unat (rw_slba (ctx_cmd ctx)) mod 128) \<and>
    (case nm_do_rw ctx' c1 of (act', ctx2, c2) \<Rightarrow>
       act' = NMBPF_SEND_HQ OR NMBPF_WILL_COMPLETE_HQ \<and>
       512 * unat (rw_slba (ctx_cmd ctx2)) = unat outoff + 512 * (unat (rw_slba (ctx_cmd ctx')) mod 128))"
proof -
  have join: "(ucast (aux1 (ctx_aux ctx)) OR push_bit 32 (ucast (aux2 (ctx_aux ctx))) :: u64) = outoff"
    using u64_split_join [of outoff] by (simp add: aux mk_response_def mk_reply_def set_aux_addr_def low_word)
  have a0: "aux0 (ctx_aux ctx) = AUXBITS_VALID OR AUXBITS_WRITABLE OR AUXCMD_FORWARD"
    by (simp add: aux mk_response_def mk_reply_def set_aux_addr_def)
  have bits: "aux0 (ctx_aux ctx) AND AUXBITS_VALID \<noteq> 0" "aux0 (ctx_aux ctx) AND AUXCMD_FORWARD \<noteq> 0"
    "aux0 (ctx_aux ctx) AND AUX_MASK = AUXBITS_VALID OR AUXBITS_WRITABLE" "(AUXBITS_VALID OR AUXBITS_WRITABLE) AND AUXBITS_WRITABLE \<noteq> 0"
    unfolding a0 by (simp_all add: AUXBITS_VALID_def AUXBITS_WRITABLE_def AUXCMD_FORWARD_def AUX_MASK_def)
  let ?base = "outoff div CLUSTER_SIZE * CLUSTER_LBAS"
  have rs: "is_response ctx" using hook bits(1) by (simp add: is_response_def)
  have en: "ctx_entry ctx = (?base, AUXBITS_VALID OR AUXBITS_WRITABLE)" by (simp add: ctx_entry_def join bits(3))
  let ?c1 = "snd (snd (nm_on_rw_respond ctx c))"
  have c1: "?c1 = req_update (ctx_req ctx) (ctx_entry ctx) c" using bits(1) by (simp add: nm_on_rw_respond_cache)
  have abs: "cache_abs ?c1 (vlba_vblk (rw_slba (ctx_cmd ctx'))) = Some (?base, AUXBITS_VALID OR AUXBITS_WRITABLE)"
    using xcache.update_own [OF inv entry_ok_response [OF rs], of "ctx_req ctx"] en same(2) unfolding c1 by (simp add: req_key_def ctx_req_def)
  note db = device_block [OF outoff]
  obtain val ax c2 where look: "lba_lookup (rw_slba (ctx_cmd ctx')) (rw_length (ctx_cmd ctx')) ?c1 = (val, ax, c2)" by (metis prod_cases3)
  have va: "val = ?base + vlba_off (rw_slba (ctx_cmd ctx'))" "ax = AUXBITS_VALID OR AUXBITS_WRITABLE"
    using lba_lookup_result [OF same(1) look] abs by simp_all
  have second: "nm_do_rw ctx' ?c1 = (NMBPF_SEND_HQ OR NMBPF_WILL_COMPLETE_HQ, ctx'\<lparr>ctx_cmd := set_rw_slba val (ctx_cmd ctx')\<rparr>, c2)"
    using look va bits(4) db(2) by (simp add: nm_do_rw_def)
  have first: "nm_on_rw_respond ctx c = (NMBPF_SEND_HQ OR NMBPF_WILL_COMPLETE_HQ,
      ctx\<lparr>ctx_cmd := set_rw_slba (?base + vlba_off (rw_slba (ctx_cmd ctx))) (ctx_cmd ctx)\<rparr>, ?c1)"
    using bits(1,2) db(2) by (simp add: nm_on_rw_respond_def lba_update_def join Let_def)
  show ?thesis using second db(1) va(1) by (subst first) simp
qed

text \<open>A write to block 258 that got the cluster at 64 KiB, then a read of block 260.\<close>

theorem response_reaches_new_cluster_witness:
  "case nm_on_rw_respond (sample_ctx NMBPF_HOOK_NFD_WRITE 0 (sample_cmd nvme_cmd_write 258)
       \<lparr>ctx_aux := resp_aux (mk_response 7 (mk_reply 7 NVME_SC_SUCCESS (set_aux_addr 65536 (AUXBITS_VALID OR AUXBITS_WRITABLE OR AUXCMD_FORWARD))))\<rparr>)
       empty_cache of (act, ctx1, c1) \<Rightarrow>
    act = NMBPF_SEND_HQ OR NMBPF_WILL_COMPLETE_HQ \<and> unat (rw_slba (ctx_cmd ctx1)) = 130 \<and>
    (case nm_do_rw (sample_ctx NMBPF_HOOK_VSQ 0 (sample_cmd nvme_cmd_read 260)) c1 of (act', ctx2, c2) \<Rightarrow>
       act' = NMBPF_SEND_HQ OR NMBPF_WILL_COMPLETE_HQ \<and> unat (rw_slba (ctx_cmd ctx2)) = 132)"
proof -
  let ?aux = "resp_aux (mk_response 7 (mk_reply 7 NVME_SC_SUCCESS (set_aux_addr 65536 (AUXBITS_VALID OR AUXBITS_WRITABLE OR AUXCMD_FORWARD))))"
    and ?w = "sample_ctx NMBPF_HOOK_NFD_WRITE 0 (sample_cmd nvme_cmd_write 258)" and ?r = "sample_ctx NMBPF_HOOK_VSQ 0 (sample_cmd nvme_cmd_read 260)"
  have "ctx_current_hook (?w\<lparr>ctx_aux := ?aux\<rparr>) = NMBPF_HOOK_NFD_WRITE" "ctx_aux (?w\<lparr>ctx_aux := ?aux\<rparr>) = ?aux"
    "65536 dvd unat (65536 :: u64)" "unat (65536 :: u64) < 2 ^ 63"
    "in_cluster (rw_slba (ctx_cmd ?r)) (rw_length (ctx_cmd ?r))"
    "vlba_vblk (rw_slba (ctx_cmd ?r)) = vlba_vblk (rw_slba (ctx_cmd (?w\<lparr>ctx_aux := ?aux\<rparr>)))"
    by (simp_all add: sample_defs in_cluster_def vlba_vblk_def cache_consts)
  from response_reaches_new_cluster [OF empty_cache_inv this] show ?thesis
    by (simp add: sample_defs split: prod.splits)
qed

end
